(* ===== verification/Prelude.thy ===== *)
theory Prelude
  imports Main "HOL-Library.Word"
begin

text \<open>
  The shared vocabulary of the development: the machine integers of the Rust sources
  (\<open>u8\<close> .. \<open>u64\<close> as words, \<open>usize\<close> as \<open>nat\<close>), the \<open>Vec\<close> stack operations, buffer
  writes (\<open>copy_from_slice\<close> and the byte loops of the encoders), the little-endian
  integer conversions \<open>to_le_bytes\<close> / \<open>from_le_bytes\<close>, and the interface of a
  canonical byte codec, whose client lemmas are proved once here and used by every
  wire and disk format of the kernel.
\<close>

unbundle bit_operations_syntax

type_synonym u8 = "8 word"
type_synonym u16 = "16 word"
type_synonym u32 = "32 word"
type_synonym u64 = "64 word"
type_synonym bytes = "u8 list"

named_theorems buffer_simps \<open>evaluation of buffer writes and slices\<close>
named_theorems codec_simps \<open>unfolding of encoders, decoders and their constants\<close>

section \<open>Vectors used as stacks\<close>

text \<open>\<open>Vec::pop\<close>: the last element and the vector without it.\<close>

definition vec_pop :: "'a list \<Rightarrow> ('a \<times> 'a list) option" where
  "vec_pop xs = (if xs = [] then None else Some (last xs, butlast xs))"

lemma vec_pop_None [simp]: "vec_pop xs = None \<longleftrightarrow> xs = []"
  by (simp add: vec_pop_def)

lemma vec_pop_Nil [simp]: "vec_pop [] = None"
  by simp

lemma vec_pop_Some: "vec_pop xs = Some (x, ys) \<longleftrightarrow> xs = ys @ [x]"
  by (auto simp: vec_pop_def)

lemma find_rev_mem: "find P (rev xs) = Some x \<Longrightarrow> x \<in> set xs \<and> P x"
  by (metis find_Some_iff nth_mem set_rev)

section \<open>Machine arithmetic\<close>

text \<open>\<open>checked_add\<close>, \<open>saturating_add\<close> and \<open>saturating_sub\<close> of the unsigned types.\<close>

definition checked_add :: "'a::len word \<Rightarrow> 'a word \<Rightarrow> 'a word option" where
  "checked_add a b = (if unat a + unat b < 2 ^ LENGTH('a) then Some (a + b) else None)"

definition saturating_add :: "'a::len word \<Rightarrow> 'a word \<Rightarrow> 'a word" where
  "saturating_add a b = (if unat a + unat b < 2 ^ LENGTH('a) then a + b else - 1)"

definition saturating_sub :: "'a::len word \<Rightarrow> 'a word \<Rightarrow> 'a word" where
  "saturating_sub a b = (if b \<le> a then a - b else 0)"

lemma u64_bound: "unat (w :: u64) < 18446744073709551616"
  using unsigned_less[of w] by simp

text \<open>The same tests without leaving the word type, so that evaluation stays binary.\<close>

lemma no_overflow_iff: "unat a + unat b < 2 ^ LENGTH('a) \<longleftrightarrow> a \<le> a + b"
  for a b :: "'a::len word"
  by (metis no_olen_add_nat word_le_nat_alt add.commute)

lemma checked_add_code [code]: "checked_add a b = (if a \<le> a + b then Some (a + b) else None)"
  by (simp add: checked_add_def no_overflow_iff)

lemma saturating_add_code [code]: "saturating_add a b = (if a \<le> a + b then a + b else - 1)"
  by (simp add: saturating_add_def no_overflow_iff)

lemma checked_add_Some: "checked_add a b = Some c \<Longrightarrow> unat c = unat a + unat b"
  by (auto simp: checked_add_def unat_word_ariths split: if_splits)

lemma unat_minus_1: "unat (- 1 :: 'a::len word) = 2 ^ LENGTH('a) - 1"
  by (simp add: unsigned_minus_1_eq_mask mask_eq_exp_minus_1)

lemma checked_add_one_None: "checked_add a (1 :: 'a::len word) = None \<longleftrightarrow> a = - 1"
proof -
  have "unat a < 2 ^ LENGTH('a)"
    by simp
  then have "\<not> unat a + 1 < 2 ^ LENGTH('a) \<longleftrightarrow> unat a = unat (- 1 :: 'a word)"
    unfolding unat_minus_1 by arith
  then show ?thesis
    by (auto simp: checked_add_def word_unat_eq_iff)
qed

lemma checked_add_one_less: "checked_add a (1 :: 'a::len word) = Some c \<Longrightarrow> a < c"
  using checked_add_Some[of a 1 c] by (simp add: word_less_nat_alt)

lemma unat_saturating_add:
  "unat (saturating_add a b) = min (unat a + unat b) (2 ^ LENGTH('a) - 1)"
  for a b :: "'a::len word"
  by (auto simp: saturating_add_def unat_word_ariths unat_minus_1)

lemma unat_saturating_sub: "unat (saturating_sub a b) = unat a - unat b"
  by (auto simp: saturating_sub_def unat_sub word_le_nat_alt)

text \<open>The \<open>usize\<close> versions, on lengths and offsets: \<open>usize::MAX\<close> is \<open>2 ^ 64 - 1\<close>.\<close>

definition usize_checked_add :: "nat \<Rightarrow> nat \<Rightarrow> nat option" where
  "usize_checked_add a b = (if a + b < 2 ^ 64 then Some (a + b) else None)"

definition usize_saturating_add :: "nat \<Rightarrow> nat \<Rightarrow> nat" where
  "usize_saturating_add a b = min (a + b) (2 ^ 64 - 1)"

lemma u32_bound: "unat (w :: u32) < 4294967296"
  using unsigned_less[of w] by simp

lemma usize_checked_add_small [simp]: "a + b < 18446744073709551616 \<Longrightarrow> usize_checked_add a b = Some (a + b)"
  by (simp add: usize_checked_add_def)

lemma usize_saturating_add_small [simp]: "a + b < 18446744073709551616 \<Longrightarrow> usize_saturating_add a b = a + b"
  by (simp add: usize_saturating_add_def)

section \<open>Buffers\<close>

text \<open>
  \<open>put off xs buf\<close> is \<open>buf\<close> after \<open>buf[off .. off + xs.len()].copy_from_slice(xs)\<close>, or
  after the equivalent byte loop. The write is in range exactly when the length of the
  buffer is kept (\<open>length_put_iff\<close>), so a lemma that an encoder keeps the length of its
  output buffer says that none of its writes panics.
\<close>

definition put :: "nat \<Rightarrow> 'a list \<Rightarrow> 'a list \<Rightarrow> 'a list" where
  "put off xs buf = take off buf @ xs @ drop (off + length xs) buf"

text \<open>\<open>slice bs i n\<close> is \<open>bs[i .. i + n]\<close>.\<close>

definition slice :: "'a list \<Rightarrow> nat \<Rightarrow> nat \<Rightarrow> 'a list" where
  "slice bs i n = take n (drop i bs)"

lemma length_put_iff:
  "xs \<noteq> [] \<Longrightarrow> length (put off xs buf) = length buf \<longleftrightarrow> off + length xs \<le> length buf"
  by (cases xs) (auto simp: put_def min_def)

lemma length_put [simp]: "off + length xs \<le> length buf \<Longrightarrow> length (put off xs buf) = length buf"
  by (simp add: put_def)

lemma put_append [buffer_simps]:
  "length pre = off \<Longrightarrow> put off xs (pre @ rest) = pre @ xs @ drop (length xs) rest"
  by (simp add: put_def)

lemma put_Cons [buffer_simps]: "0 < off \<Longrightarrow> put off xs (x # rest) = x # put (off - 1) xs rest"
  by (cases off) (simp_all add: put_def)

lemma put_append_later [buffer_simps]:
  "length pre \<le> off \<Longrightarrow> put off xs (pre @ rest) = pre @ put (off - length pre) xs rest"
  by (simp add: put_def)

lemma put_0 [buffer_simps]: "put 0 xs buf = xs @ drop (length xs) buf"
  by (simp add: put_def)

lemma length_slice [simp]: "i + n \<le> length bs \<Longrightarrow> length (slice bs i n) = n"
  by (simp add: slice_def)

lemma slice_append1 [buffer_simps]:
  "i + n \<le> length xs \<Longrightarrow> slice (xs @ ys) i n = slice xs i n"
  by (simp add: slice_def)

lemma slice_append2 [buffer_simps]:
  "length xs \<le> i \<Longrightarrow> slice (xs @ ys) i n = slice ys (i - length xs) n"
  by (simp add: slice_def)

lemma slice_Cons [buffer_simps]: "0 < i \<Longrightarrow> slice (x # xs) i n = slice xs (i - 1) n"
  by (cases i) (simp_all add: slice_def)

lemma slice_prefix [buffer_simps]: "length xs = n \<Longrightarrow> slice (xs @ ys) 0 n = xs"
  by (simp add: slice_def)

lemma slice_full [buffer_simps]: "length xs = n \<Longrightarrow> slice xs 0 n = xs"
  by (simp add: slice_def)

lemma slice_split: "i \<le> length bs \<Longrightarrow> drop i bs = slice bs i n @ drop (i + n) bs"
  by (metis add.commute append_take_drop_id drop_drop slice_def)

text \<open>Adjacent slices join up from the right, whatever the lengths.\<close>

lemma slice_drop: "j = i + n \<Longrightarrow> slice bs i n @ drop j bs = drop i bs"
  by (metis add.commute append_take_drop_id drop_drop slice_def)

lemma slice_Suc: "i < length bs \<Longrightarrow> slice bs i (Suc n) = bs ! i # slice bs (Suc i) n"
  by (simp add: slice_def Cons_nth_drop_Suc[symmetric])

lemma slice_0 [simp]: "slice bs i 0 = []"
  by (simp add: slice_def)

lemma slice_4: "i + 4 \<le> length bs \<Longrightarrow> slice bs i 4 = [bs ! i, bs ! (i + 1), bs ! (i + 2), bs ! (i + 3)]"
  by (simp add: slice_Suc eval_nat_numeral)

lemma append_take_slice: "bs = slice bs 0 n @ drop n bs"
  by (simp add: slice_def)

text \<open>Pieces of equal length, concatenated.\<close>

lemma slice_concat:
  "\<forall>x\<in>set xs. length x = n \<Longrightarrow> i < length xs \<Longrightarrow> slice (concat xs @ rest) (i * n) n = xs ! i"
proof (induction xs arbitrary: i)
  case (Cons x xs)
  show ?case
  proof (cases i)
    case 0
    then show ?thesis
      using Cons.prems(1) by (simp add: slice_def)
  next
    case (Suc j)
    then have "slice (concat (x # xs) @ rest) (i * n) n = slice (concat xs @ rest) (j * n) n"
      using Cons.prems(1) by (simp add: slice_append2)
    then show ?thesis
      using Cons.IH[of j] Cons.prems Suc by simp
  qed
qed simp

lemma length_concat_eq: "\<forall>x\<in>set xs. length x = (n :: nat) \<Longrightarrow> length (concat xs) = n * length xs"
  by (induction xs) simp_all

section \<open>Little-endian integers\<close>

text \<open>
  \<open>le_bytes n w\<close> are the \<open>n\<close> low bytes of \<open>w\<close>, least significant first; with
  \<open>8 * n = LENGTH('a)\<close> this is \<open>to_le_bytes\<close>. \<open>of_le_bytes\<close> is \<open>from_le_bytes\<close>.
\<close>

fun le_bytes :: "nat \<Rightarrow> 'a::len word \<Rightarrow> bytes" where
  "le_bytes 0 w = []"
| "le_bytes (Suc n) w = ucast w # le_bytes n (drop_bit 8 w)"

fun of_le_bytes :: "bytes \<Rightarrow> 'a::len word" where
  "of_le_bytes [] = 0"
| "of_le_bytes (b # bs) = ucast b OR push_bit 8 (of_le_bytes bs)"

lemma le_bytes_2: "le_bytes 2 w = [ucast w, ucast (drop_bit 8 w)]"
  by (simp only: numeral_2_eq_2 le_bytes.simps)

lemma length_le_bytes [simp]: "length (le_bytes n w) = n"
  by (induction n arbitrary: w) auto

lemma bit_of_le_bytes:
  "bit (of_le_bytes bs :: 'a::len word) k \<longleftrightarrow>
     k < LENGTH('a) \<and> k div 8 < length bs \<and> bit (bs ! (k div 8)) (k mod 8)"
proof (induction bs arbitrary: k)
  case Nil
  then show ?case by simp
next
  case (Cons b bs)
  show ?case
  proof (cases "k < 8")
    case True
    then show ?thesis
      by (auto simp: bit_simps)
  next
    case False
    then have "k div 8 = Suc ((k - 8) div 8)" "k mod 8 = (k - 8) mod 8"
      by (simp_all add: div_if mod_if)
    with False Cons.IH[of "k - 8"] show ?thesis
      by (auto simp: bit_simps dest: bit_imp_le_length)
  qed
qed

lemma nth_le_bytes: "i < n \<Longrightarrow> le_bytes n w ! i = ucast (drop_bit (8 * i) w)"
proof (induction n arbitrary: w i)
  case 0
  then show ?case by simp
next
  case (Suc n)
  then show ?case
    by (cases i) (auto simp: add.commute)
qed

lemma of_le_bytes_le_bytes [simp]:
  assumes "LENGTH('a::len) \<le> 8 * n"
  shows "of_le_bytes (le_bytes n w) = (w :: 'a word)"
proof (rule bit_word_eqI)
  fix k assume k: "k < LENGTH('a)"
  then have "k div 8 < n"
    using assms by linarith
  with k show "bit (of_le_bytes (le_bytes n w) :: 'a word) k = bit w k"
    by (simp add: bit_of_le_bytes nth_le_bytes bit_simps)
qed

lemma le_bytes_of_le_bytes [simp]:
  assumes "length bs = n" "8 * n \<le> LENGTH('a::len)"
  shows "le_bytes n (of_le_bytes bs :: 'a word) = bs"
proof (rule nth_equalityI)
  show "length (le_bytes n (of_le_bytes bs :: 'a word)) = length bs"
    using assms by simp
next
  fix i assume "i < length (le_bytes n (of_le_bytes bs :: 'a word))"
  then have i: "i < n" by simp
  then have "8 * i + 8 \<le> LENGTH('a)"
    using assms(2) by linarith
  with i assms(1) show "le_bytes n (of_le_bytes bs :: 'a word) ! i = bs ! i"
    by (intro bit_word_eqI) (auto simp: nth_le_bytes bit_simps bit_of_le_bytes)
qed

lemma le_bytes_inject:
  "LENGTH('a::len) \<le> 8 * n \<Longrightarrow> le_bytes n (v :: 'a word) = le_bytes n w \<longleftrightarrow> v = w"
  by (metis of_le_bytes_le_bytes)

lemma low_bit_cases: "(b :: u8) AND - 2 = 0 \<Longrightarrow> b = 0 \<or> b = 1"
proof -
  assume "b AND - 2 = 0"
  then have z: "b AND NOT 1 = 0"
    by simp
  have high: "\<not> bit b n" if "0 < n" for n
  proof
    assume "bit b n"
    moreover from this have "n < 8"
      using bit_imp_le_length by fastforce
    ultimately have "bit (b AND NOT 1) n"
      using that by (simp only: bit_simps) simp
    with z show False by simp
  qed
  have "b = 1" if "bit b 0"
    using that high by (intro bit_word_eqI) (auto simp: bit_simps)
  moreover have "b = 0" if "\<not> bit b 0"
    using that high by (intro bit_word_eqI) (metis bit_0_eq bot_apply bot_bool_def gr0I)
  ultimately show ?thesis by blast
qed

section \<open>Big-endian integers and rotation\<close>

text \<open>\<open>to_be_bytes\<close>, \<open>from_be_bytes\<close>, and \<open>u32::rotate_right\<close> for a count of 1 to 31.\<close>

definition be_bytes :: "nat \<Rightarrow> 'a::len word \<Rightarrow> bytes" where
  "be_bytes n w = rev (le_bytes n w)"

definition of_be_bytes :: "bytes \<Rightarrow> 'a::len word" where
  "of_be_bytes bs = of_le_bytes (rev bs)"

definition rotate_right :: "nat \<Rightarrow> u32 \<Rightarrow> u32" where
  "rotate_right n w = drop_bit n w OR push_bit (32 - n) w"

lemma length_be_bytes [simp]: "length (be_bytes n w) = n"
  by (simp add: be_bytes_def)

lemma of_be_bytes_be_bytes [simp]: "LENGTH('a::len) \<le> 8 * n \<Longrightarrow> of_be_bytes (be_bytes n w) = (w :: 'a word)"
  by (simp add: be_bytes_def of_be_bytes_def)

lemma be_bytes_inject: "LENGTH('a::len) \<le> 8 * n \<Longrightarrow> be_bytes n (v :: 'a word) = be_bytes n w \<longleftrightarrow> v = w"
  by (metis of_be_bytes_be_bytes)

section \<open>Canonical codecs\<close>

text \<open>A fallible decoder as a partial function.\<close>

fun of_result :: "'e + 'a \<Rightarrow> 'a option" where
  "of_result (Inl e) = None"
| "of_result (Inr x) = Some x"

lemma of_result_Some [simp]: "of_result r = Some x \<longleftrightarrow> r = Inr x"
  by (cases r) auto

text \<open>
  The contract of a wire or disk format: every admissible value encodes, decoding the
  front of any buffer that starts with an encoding gives the value back, and a buffer is
  accepted only when it starts with the encoding of an admissible value. The client
  lemmas are what the transcripts and ledgers above rely on.
\<close>

locale codec =
  fixes enc :: "'r \<Rightarrow> bytes"
    and dec :: "bytes \<Rightarrow> 'r option"
    and ok :: "'r \<Rightarrow> bool"
  assumes dec_enc: "ok r \<Longrightarrow> dec (enc r @ rest) = Some r"
    and dec_ok: "dec bs = Some r \<Longrightarrow> ok r"
    and dec_canonical: "dec bs = Some r \<Longrightarrow> \<exists>rest. bs = enc r @ rest"
begin

lemma roundtrip: "ok r \<Longrightarrow> dec (enc r) = Some r"
  using dec_enc[of r "[]"] by simp

lemma prefix_free: "ok r \<Longrightarrow> ok s \<Longrightarrow> enc r @ xs = enc s @ ys \<Longrightarrow> r = s \<and> xs = ys"
  using dec_enc[of r xs] dec_enc[of s ys] by auto

lemma enc_inject: "ok r \<Longrightarrow> ok s \<Longrightarrow> enc r = enc s \<longleftrightarrow> r = s"
  using prefix_free[of r s "[]" "[]"] by auto

lemma accepts_iff: "dec bs = Some r \<longleftrightarrow> ok r \<and> (\<exists>rest. bs = enc r @ rest)"
  using dec_enc dec_ok dec_canonical by blast

lemma tamper_detected:
  assumes "ok r" and "length bs = length (enc r)" and "bs \<noteq> enc r"
  shows "dec bs \<noteq> Some r"
  using assms dec_canonical by fastforce

text \<open>A concatenation of encodings can be split in one way only.\<close>

lemma stream_inject:
  "\<forall>r\<in>set rs. ok r \<Longrightarrow> \<forall>s\<in>set ss. ok s \<Longrightarrow> length rs = length ss \<Longrightarrow>
    concat (map enc rs) = concat (map enc ss) \<Longrightarrow> rs = ss"
proof (induction rs arbitrary: ss)
  case Nil
  then show ?case by simp
next
  case (Cons r rs)
  then obtain s ss' where ss: "ss = s # ss'"
    by (cases ss) auto
  with Cons.prems have eq: "r = s \<and> concat (map enc rs) = concat (map enc ss')"
    by (intro prefix_free) auto
  then have "rs = ss'"
    using Cons.prems ss by (intro Cons.IH) auto
  with eq ss show ?case
    by simp
qed

end

end
