(* ===== verification/Rights.thy ===== *)
theory Rights
  imports Prelude
begin

text \<open>
  The rights algebra of \<open>crates/tb-caps-core/src/rights.rs\<close>: a 32-bit set whose only
  rights-changing primitive is the intersection. Subset, intersection and union make it a
  lattice, so the library's lattice facts carry the attenuation proofs of the capability
  table and the dispatcher.
\<close>

datatype rights = Rights (bits: u32)

definition from_bits :: "u32 \<Rightarrow> rights" where
  "from_bits b = Rights b"

definition rights_union :: "rights \<Rightarrow> rights \<Rightarrow> rights" where
  "rights_union a b = Rights (bits a OR bits b)"

definition intersect :: "rights \<Rightarrow> rights \<Rightarrow> rights" where
  "intersect a m = Rights (bits a AND bits m)"

definition contains :: "rights \<Rightarrow> rights \<Rightarrow> bool" where
  "contains a need \<longleftrightarrow> bits a AND bits need = bits need"

definition is_subset_of :: "rights \<Rightarrow> rights \<Rightarrow> bool" where
  "is_subset_of a b \<longleftrightarrow> bits a AND bits b = bits a"

text \<open>The named rights, each \<open>Rights(1 << k)\<close>.\<close>

definition R_NONE :: rights where "R_NONE = Rights 0"
definition R_READ :: rights where "R_READ = Rights (push_bit 0 1)"
definition R_WRITE :: rights where "R_WRITE = Rights (push_bit 1 1)"
definition R_TRANSFER :: rights where "R_TRANSFER = Rights (push_bit 2 1)"
definition R_DUP :: rights where "R_DUP = Rights (push_bit 3 1)"
definition R_REVOKE :: rights where "R_REVOKE = Rights (push_bit 4 1)"
definition R_INVOKE_MODEL :: rights where "R_INVOKE_MODEL = Rights (push_bit 5 1)"
definition R_SPAWN_AGENT :: rights where "R_SPAWN_AGENT = Rights (push_bit 6 1)"
definition R_WRITE_PROCEDURAL :: rights where "R_WRITE_PROCEDURAL = Rights (push_bit 7 1)"
definition R_RECALL :: rights where "R_RECALL = Rights (push_bit 8 1)"
definition R_CONSOLIDATE :: rights where "R_CONSOLIDATE = Rights (push_bit 9 1)"
definition R_EMIT_EXTERNAL :: rights where "R_EMIT_EXTERNAL = Rights (push_bit 10 1)"
definition R_DELEGATE_BUDGET :: rights where "R_DELEGATE_BUDGET = Rights (push_bit 11 1)"
definition R_APPROVE_HIGH_IMPACT :: rights where "R_APPROVE_HIGH_IMPACT = Rights (push_bit 12 1)"

lemmas rights_names =
  R_NONE_def R_READ_def R_WRITE_def R_TRANSFER_def R_DUP_def R_REVOKE_def R_INVOKE_MODEL_def
  R_SPAWN_AGENT_def R_WRITE_PROCEDURAL_def R_RECALL_def R_CONSOLIDATE_def R_EMIT_EXTERNAL_def
  R_DELEGATE_BUDGET_def R_APPROVE_HIGH_IMPACT_def

section \<open>The rights lattice\<close>

lemma and_absorb_iff: "a AND b = a \<longleftrightarrow> (\<forall>n. bit a n \<longrightarrow> bit b n)" for a b :: "'a::len word"
  by (auto simp: bit_eq_iff bit_simps dest: bit_imp_le_length)

instantiation rights :: "{lattice, order_bot}"
begin

definition less_eq_rights :: "rights \<Rightarrow> rights \<Rightarrow> bool" where
  "less_eq_rights = is_subset_of"

definition less_rights :: "rights \<Rightarrow> rights \<Rightarrow> bool" where
  "less_rights a b \<longleftrightarrow> is_subset_of a b \<and> \<not> is_subset_of b a"

definition inf_rights :: "rights \<Rightarrow> rights \<Rightarrow> rights" where
  "inf_rights = intersect"

definition sup_rights :: "rights \<Rightarrow> rights \<Rightarrow> rights" where
  "sup_rights = rights_union"

definition bot_rights :: rights where
  "bot_rights = R_NONE"

lemmas rights_order_defs = less_eq_rights_def less_rights_def inf_rights_def sup_rights_def
  bot_rights_def

instance
proof
  fix a b c :: rights
  show "a < b \<longleftrightarrow> a \<le> b \<and> \<not> b \<le> a"
    by (simp add: rights_order_defs)
  show "a \<le> a"
    by (simp add: rights_order_defs is_subset_of_def)
  show "a \<le> b \<Longrightarrow> b \<le> c \<Longrightarrow> a \<le> c"
    by (simp add: rights_order_defs is_subset_of_def and_absorb_iff)
  show "a \<le> b \<Longrightarrow> b \<le> a \<Longrightarrow> a = b"
    by (auto simp: rights_order_defs is_subset_of_def ac_simps intro: rights.expand)
  show "inf a b \<le> a" "inf a b \<le> b" "a \<le> b \<Longrightarrow> a \<le> c \<Longrightarrow> a \<le> inf b c"
    by (auto simp: rights_order_defs is_subset_of_def intersect_def and_absorb_iff bit_simps)
  show "a \<le> sup a b" "b \<le> sup a b" "b \<le> a \<Longrightarrow> c \<le> a \<Longrightarrow> sup b c \<le> a"
    by (auto simp: rights_order_defs is_subset_of_def rights_union_def and_absorb_iff bit_simps)
  show "bot \<le> a"
    by (simp add: rights_order_defs is_subset_of_def R_NONE_def)
qed

end

text \<open>\<open>contains\<close>, the dispatch gate, is the subset relation seen from the other side.\<close>

lemma contains_iff: "contains a need \<longleftrightarrow> need \<le> a"
  by (simp add: contains_def less_eq_rights_def is_subset_of_def ac_simps)

lemma intersect_le [simp]: "intersect a m \<le> a" "intersect a m \<le> m"
  using inf.cobounded1[of a m] inf.cobounded2[of a m] by (simp_all add: inf_rights_def)

lemma contains_none [simp]: "contains a R_NONE"
  by (simp add: contains_def R_NONE_def)

lemma contains_mono: "a \<le> b \<Longrightarrow> contains a need \<Longrightarrow> contains b need"
  by (auto simp: contains_iff intro: order_trans)

lemma contains_intersect: "contains (intersect a m) need \<longleftrightarrow> contains a need \<and> contains m need"
  using inf.bounded_iff[of need a m] by (simp add: contains_iff inf_rights_def)

end
