(* ===== verification/Authority.thy ===== *)
theory Authority
  imports Rights
begin

text \<open>
  The contract between a per-principal capability table and its clients (the syscall
  dispatcher, the IPC layer, the agent runtime). A table is seen through \<open>resolve\<close>, the
  partial map from handles to the object and rights they name; \<open>grant\<close> places a capability
  and \<open>vacate\<close> removes one. The lemmas say what every client gets: authority stays
  confined, and other handles are not disturbed. The extended contract adds that a vacated
  handle stays dead whatever happens later.
\<close>

text \<open>Every capability of the table stays within the authority \<open>A\<close> of its object.\<close>

definition confined :: "('h \<Rightarrow> ('o \<times> rights) option) \<Rightarrow> ('o \<Rightarrow> rights) \<Rightarrow> bool" where
  "confined m A \<longleftrightarrow> (\<forall>h ob r. m h = Some (ob, r) \<longrightarrow> r \<le> A ob)"

lemma confinedD: "confined m A \<Longrightarrow> m h = Some (ob, r) \<Longrightarrow> r \<le> A ob"
  by (auto simp: confined_def)

lemma confined_upd: "confined m A \<Longrightarrow> r \<le> A ob \<Longrightarrow> confined (m(h \<mapsto> (ob, r))) A"
  by (auto simp: confined_def)

lemma confined_del: "confined m A \<Longrightarrow> confined (m(h := None)) A"
  by (auto simp: confined_def)

lemma confined_mono: "confined m A \<Longrightarrow> (\<And>ob. A ob \<le> B ob) \<Longrightarrow> confined m B"
  unfolding confined_def by (meson order_trans)

locale cap_store =
  fixes resolve :: "'t \<Rightarrow> 'h \<Rightarrow> ('o \<times> rights) option"
    and grant :: "'t \<Rightarrow> rights \<Rightarrow> 'o \<Rightarrow> 't \<times> 'h option"
    and vacate :: "'t \<Rightarrow> 'h \<Rightarrow> 't"
    and wf :: "'t \<Rightarrow> bool"
  assumes grant_wf: "wf t \<Longrightarrow> wf (fst (grant t r ob))"
    and grant_new: "wf t \<Longrightarrow> grant t r ob = (t', Some h) \<Longrightarrow>
      resolve t h = None \<and> resolve t' = (resolve t)(h \<mapsto> (ob, r))"
    and grant_full: "grant t r ob = (t', None) \<Longrightarrow> t' = t"
    and vacate_wf: "wf t \<Longrightarrow> wf (vacate t h)"
    and vacate_resolve: "wf t \<Longrightarrow> resolve (vacate t h) = (resolve t)(h := None)"
begin

lemma grant_confined:
  assumes "wf t" "confined (resolve t) A" "r \<le> A ob"
  shows "confined (resolve (fst (grant t r ob))) A"
  using assms grant_new[of t r ob] grant_full[of t r ob]
  by (cases "grant t r ob"; cases "snd (grant t r ob)") (auto intro: confined_upd)

lemma vacate_confined: "wf t \<Longrightarrow> confined (resolve t) A \<Longrightarrow> confined (resolve (vacate t h)) A"
  by (simp add: vacate_resolve confined_del)

lemma derive_confined:
  assumes "wf t" "confined (resolve t) A" "resolve t h = Some (ob, r0)" "r \<le> r0"
  shows "confined (resolve (fst (grant t r ob))) A"
  using assms grant_confined confinedD order_trans by metis

lemma grant_frame:
  assumes "wf t" "resolve t k = Some c"
  shows "resolve (fst (grant t r ob)) k = Some c"
  using assms grant_new[of t r ob] grant_full[of t r ob]
  by (cases "grant t r ob"; cases "snd (grant t r ob)") auto

lemma vacate_frame: "wf t \<Longrightarrow> k \<noteq> h \<Longrightarrow> resolve (vacate t h) k = resolve t k"
  by (simp add: vacate_resolve)

end

locale revoking_store = cap_store +
  fixes spent :: "'a \<Rightarrow> 'b \<Rightarrow> bool"
  assumes spent_dead: "wf t \<Longrightarrow> spent t h \<Longrightarrow> resolve t h = None"
    and vacate_spends: "wf t \<Longrightarrow> resolve t h \<noteq> None \<Longrightarrow> spent (vacate t h) h"
    and spent_grant: "wf t \<Longrightarrow> spent t h \<Longrightarrow> spent (fst (grant t r ob)) h"
    and spent_vacate: "wf t \<Longrightarrow> spent t h \<Longrightarrow> spent (vacate t k) h"
begin

text \<open>A granted handle is never one that was spent before: handles are not reused.\<close>

lemma grant_not_spent:
  assumes "wf t" "grant t r ob = (t', Some h)"
  shows "\<not> spent t h"
proof
  assume "spent t h"
  then have "spent t' h"
    using spent_grant[of t h r ob] assms by simp
  moreover have "wf t'" "resolve t' h = Some (ob, r)"
    using grant_wf[of t r ob] grant_new[of t r ob t' h] assms by auto
  ultimately show False
    using spent_dead[of t' h] by simp
qed

end

end
