(* ===== verification/Cap_Table.thy ===== *)
theory Cap_Table
  imports Authority
begin

text \<open>
  The generation-checked capability table of \<open>crates/tb-caps-core/src/table.rs\<close>:
  handles, the closed status, slots, the table with its LIFO free list, and every
  operation. The invariant \<open>wf_table\<close> is kept by each of them; the abstraction
  \<open>resolve\<close> reads a table as a partial map from handles to capabilities, and the table
  operations are the obvious updates of that map (the interpretation \<open>ct\<close> below). A
  handle whose slot was vacated is \<open>spent\<close> and never resolves again.
\<close>

section \<open>Handles and status codes\<close>

datatype handle = Handle (raw: u64)

definition handle_NULL :: handle where
  "handle_NULL = Handle 0"

definition handle_new :: "u32 \<Rightarrow> u32 \<Rightarrow> handle" where
  "handle_new g s = Handle (push_bit 32 (ucast g) OR ucast s)"

definition from_raw :: "u64 \<Rightarrow> handle" where
  "from_raw v = Handle v"

definition handle_generation :: "handle \<Rightarrow> u32" where
  "handle_generation h = ucast (drop_bit 32 (raw h))"

definition handle_slot :: "handle \<Rightarrow> u32" where
  "handle_slot h = ucast (raw h)"

datatype sys_status =
  Ok | BadCap | BadMethod | Denied | Stale | WouldBlock | NoMem | ObjFull | PeerClosed | Fault

lemma handle_fields [simp]:
  "handle_generation (handle_new g s) = g" "handle_slot (handle_new g s) = s"
proof -
  have "\<not> bit s (32 + n)" for n
    using bit_imp_le_length[of s "32 + n"] by auto
  then show "handle_generation (handle_new g s) = g" "handle_slot (handle_new g s) = s"
    by (auto simp: handle_generation_def handle_slot_def handle_new_def bit_simps
        intro!: bit_word_eqI)
qed

lemma handle_new_fields: "handle_new (handle_generation h) (handle_slot h) = h"
proof (cases h)
  case (Handle v)
  have "push_bit 32 (ucast (ucast (drop_bit 32 v) :: u32)) OR ucast (ucast v :: u32) = v"
    by (rule bit_word_eqI) (auto simp: bit_simps)
  with Handle show ?thesis
    by (simp add: handle_new_def handle_generation_def handle_slot_def)
qed

lemma handle_eq_iff:
  "h = k \<longleftrightarrow> handle_generation h = handle_generation k \<and> handle_slot h = handle_slot k"
  by (metis handle_new_fields)

lemma handle_NULL_generation [simp]: "handle_generation handle_NULL = 0"
  by (simp add: handle_generation_def handle_NULL_def)

section \<open>The table and its operations\<close>

record 'o slot_core =
  generation :: u32
  slot_rights :: rights
  object :: "'o option"

record 'o cap_table =
  slots :: "'o slot_core list"
  free :: "u32 list"
  cap :: nat

definition with_capacity :: "nat \<Rightarrow> 'o cap_table" where
  "with_capacity c = \<lparr>slots = [], free = [], cap = c\<rparr>"

definition live :: "'o cap_table \<Rightarrow> handle \<Rightarrow> sys_status + nat" where
  "live t h = (let i = unat (handle_slot h) in
     if \<not> i < length (slots t) then Inl BadCap
     else if object (slots t ! i) = None then Inl Stale
     else if generation (slots t ! i) \<noteq> handle_generation h then Inl Stale
     else Inr i)"

definition alloc :: "'o cap_table \<Rightarrow> rights \<Rightarrow> 'o \<Rightarrow> 'o cap_table \<times> handle option" where
  "alloc t r ob = (case vec_pop (free t) of
     Some (idx, fr) \<Rightarrow>
       (let i = unat idx; s = slots t ! i in
        (t\<lparr>slots := (slots t)[i := s\<lparr>slot_rights := r, object := Some ob\<rparr>], free := fr\<rparr>,
         Some (handle_new (generation s) idx)))
   | None \<Rightarrow>
       if length (slots t) \<ge> cap t then (t, None)
       else (let idx = word_of_nat (length (slots t)) in
         (t\<lparr>slots := slots t @ [\<lparr>generation = 1, slot_rights = r, object = Some ob\<rparr>]\<rparr>,
          Some (handle_new 1 idx))))"

definition free_slot :: "'o cap_table \<Rightarrow> nat \<Rightarrow> 'o cap_table" where
  "free_slot t i = (let s = (slots t ! i)\<lparr>object := None\<rparr> in
     case checked_add (generation s) 1 of
       Some g \<Rightarrow> t\<lparr>slots := (slots t)[i := s\<lparr>generation := g\<rparr>], free := free t @ [word_of_nat i]\<rparr>
     | None \<Rightarrow> t\<lparr>slots := (slots t)[i := s]\<rparr>)"

definition rights_at :: "'o cap_table \<Rightarrow> nat \<Rightarrow> rights" where
  "rights_at t i = slot_rights (slots t ! i)"

definition object_at :: "'o cap_table \<Rightarrow> nat \<Rightarrow> 'o option" where
  "object_at t i = object (slots t ! i)"

definition rights_of :: "'o cap_table \<Rightarrow> handle \<Rightarrow> rights option" where
  "rights_of t h = (case live t h of Inl _ \<Rightarrow> None | Inr i \<Rightarrow> Some (slot_rights (slots t ! i)))"

definition attach :: "'o cap_table \<Rightarrow> 'o \<times> rights \<Rightarrow> 'o cap_table \<times> handle option" where
  "attach t parked = alloc t (snd parked) (fst parked)"

definition revoke :: "'o cap_table \<Rightarrow> handle \<Rightarrow> 'o cap_table \<times> sys_status" where
  "revoke t h = (case live t h of Inr i \<Rightarrow> (free_slot t i, Ok) | Inl e \<Rightarrow> (t, e))"

definition dup :: "'o cap_table \<Rightarrow> handle \<Rightarrow> 'o cap_table \<times> handle option" where
  "dup t h = (case live t h of Inl _ \<Rightarrow> (t, None) | Inr i \<Rightarrow>
     (case object (slots t ! i) of None \<Rightarrow> (t, None)
      | Some ob \<Rightarrow> alloc t (slot_rights (slots t ! i)) ob))"

definition narrow :: "'o cap_table \<Rightarrow> handle \<Rightarrow> rights \<Rightarrow> 'o cap_table \<times> handle option" where
  "narrow t h m = (case live t h of Inl _ \<Rightarrow> (t, None) | Inr i \<Rightarrow>
     (case object (slots t ! i) of None \<Rightarrow> (t, None)
      | Some ob \<Rightarrow> alloc t (intersect (slot_rights (slots t ! i)) m) ob))"

text \<open>The two tables are distinct values: \<open>&mut self\<close> and \<open>&mut dst\<close> cannot alias.\<close>

definition transfer_to ::
  "'o cap_table \<Rightarrow> handle \<Rightarrow> 'o cap_table \<Rightarrow> 'o cap_table \<times> 'o cap_table \<times> handle option" where
  "transfer_to src h dst = (case live src h of Inl _ \<Rightarrow> (src, dst, None) | Inr i \<Rightarrow>
     (case object (slots src ! i) of None \<Rightarrow> (src, dst, None)
      | Some ob \<Rightarrow>
         (case attach dst (ob, slot_rights (slots src ! i)) of
            (dst', None) \<Rightarrow> (src, dst', None)
          | (dst', Some moved) \<Rightarrow> (free_slot src i, dst', Some moved))))"

definition detach :: "'o cap_table \<Rightarrow> handle \<Rightarrow> 'o cap_table \<times> (sys_status + 'o \<times> rights)" where
  "detach t h = (case live t h of Inl e \<Rightarrow> (t, Inl e) | Inr i \<Rightarrow>
     (case object (slots t ! i) of None \<Rightarrow> (t, Inl Stale)
      | Some ob \<Rightarrow> (free_slot t i, Inr (ob, slot_rights (slots t ! i)))))"

section \<open>The table invariant\<close>

text \<open>
  The table never grows past its capacity, slot indices fit the 32-bit slot field, the
  free list holds vacant slots without repetition, every generation is at least 1, and a
  vacant slot outside the free list is retired: its generation is \<open>u32::MAX\<close>.
\<close>

definition wf_table :: "'o cap_table \<Rightarrow> bool" where
  "wf_table t \<longleftrightarrow> cap t \<le> 2 ^ 32 \<and> length (slots t) \<le> cap t \<and> distinct (free t) \<and>
     (\<forall>idx\<in>set (free t). unat idx < length (slots t) \<and> object (slots t ! unat idx) = None) \<and>
     (\<forall>i<length (slots t). generation (slots t ! i) \<noteq> 0) \<and>
     (\<forall>i<length (slots t). object (slots t ! i) = None \<longrightarrow>
        word_of_nat i \<in> set (free t) \<or> generation (slots t ! i) = - 1)"

definition resolve :: "'o cap_table \<Rightarrow> handle \<Rightarrow> ('o \<times> rights) option" where
  "resolve t h = (case live t h of Inl _ \<Rightarrow> None
     | Inr i \<Rightarrow> map_option (\<lambda>ob. (ob, slot_rights (slots t ! i))) (object (slots t ! i)))"

text \<open>A handle is spent when its slot has moved past its generation, or is retired.\<close>

definition spent :: "'o cap_table \<Rightarrow> handle \<Rightarrow> bool" where
  "spent t h \<longleftrightarrow> (let i = unat (handle_slot h) in i < length (slots t) \<and>
     (handle_generation h < generation (slots t ! i) \<or>
      handle_generation h = generation (slots t ! i) \<and> object (slots t ! i) = None \<and>
      handle_slot h \<notin> set (free t)))"

lemma wf_tableI:
  assumes "cap t \<le> 2 ^ 32" "length (slots t) \<le> cap t" "distinct (free t)"
    and "\<And>idx. idx \<in> set (free t) \<Longrightarrow>
      unat idx < length (slots t) \<and> object (slots t ! unat idx) = None"
    and "\<And>i. i < length (slots t) \<Longrightarrow> generation (slots t ! i) \<noteq> 0"
    and "\<And>i. i < length (slots t) \<Longrightarrow> object (slots t ! i) = None \<Longrightarrow>
      word_of_nat i \<in> set (free t) \<or> generation (slots t ! i) = - 1"
  shows "wf_table t"
  using assms by (simp add: wf_table_def)

lemma wf_tableD:
  assumes "wf_table t"
  shows wf_cap: "length (slots t) \<le> cap t" "cap t \<le> 2 ^ 32"
    and wf_len: "length (slots t) \<le> 2 ^ 32"
    and wf_distinct: "distinct (free t)"
    and wf_free: "idx \<in> set (free t) \<Longrightarrow> unat idx < length (slots t)"
      "idx \<in> set (free t) \<Longrightarrow> object (slots t ! unat idx) = None"
    and wf_generation: "i < length (slots t) \<Longrightarrow> generation (slots t ! i) \<noteq> 0"
    and wf_vacant: "i < length (slots t) \<Longrightarrow> object (slots t ! i) = None \<Longrightarrow>
      word_of_nat i \<in> set (free t) \<or> generation (slots t ! i) = - 1"
  using assms by (auto simp: wf_table_def)

lemma wf_with_capacity: "c \<le> 2 ^ 32 \<Longrightarrow> wf_table (with_capacity c)"
  by (simp add: wf_table_def with_capacity_def)

lemma live_Inr:
  "live t h = Inr i \<longleftrightarrow> i = unat (handle_slot h) \<and> i < length (slots t) \<and>
     object (slots t ! i) \<noteq> None \<and> generation (slots t ! i) = handle_generation h"
  by (auto simp: live_def Let_def)

lemma live_Inl: "live t h = Inl e \<Longrightarrow> e = BadCap \<or> e = Stale"
  by (auto simp: live_def Let_def split: if_splits)

lemma resolve_alt:
  "resolve t h = (let i = unat (handle_slot h) in
     if i < length (slots t) \<and> generation (slots t ! i) = handle_generation h
     then map_option (\<lambda>ob. (ob, slot_rights (slots t ! i))) (object (slots t ! i)) else None)"
  by (auto simp: resolve_def live_def Let_def)

lemma resolve_live: "resolve t h = Some (ob, r) \<longleftrightarrow>
    (\<exists>i. live t h = Inr i \<and> object (slots t ! i) = Some ob \<and> slot_rights (slots t ! i) = r)"
  by (auto simp: resolve_def split: sum.splits)

lemma resolve_None: "resolve t h = None \<longleftrightarrow> (\<exists>e. live t h = Inl e)"
  by (auto simp: resolve_def live_def Let_def split: sum.splits)

lemma handle_cases [case_names dead alive]:
  obtains (dead) e where "live t h = Inl e" "resolve t h = None"
  | (alive) i ob where "live t h = Inr i" "object (slots t ! i) = Some ob"
      "resolve t h = Some (ob, slot_rights (slots t ! i))"
proof (cases "live t h")
  case (Inl e)
  then show ?thesis by (intro dead) (simp_all add: resolve_def)
next
  case (Inr i)
  moreover from this obtain ob where "object (slots t ! i) = Some ob"
    by (auto simp: live_Inr)
  ultimately show ?thesis by (intro alive) (simp_all add: resolve_def)
qed

lemma unat_of_nat_index: "i < 2 ^ 32 \<Longrightarrow> unat (word_of_nat i :: u32) = i"
  by (simp add: unat_of_nat take_bit_nat_eq_self)

lemma of_nat_index_eq: "i < 2 ^ 32 \<Longrightarrow> word_of_nat i = (w :: u32) \<longleftrightarrow> i = unat w"
  using unat_of_nat_index[of i] by (auto simp: word_unat_eq_iff)

section \<open>Allocation\<close>

text \<open>A successful allocation either recycles the top of the free list or appends a slot.\<close>

lemma alloc_cases [consumes 2, case_names recycled fresh]:
  assumes "alloc t r ob = (t', Some h)" and "wf_table t"
  obtains (recycled) i where "i = unat (handle_slot h)" "i < length (slots t)"
      "free t = free t' @ [handle_slot h]" "object (slots t ! i) = None"
      "handle_generation h = generation (slots t ! i)" "cap t' = cap t"
      "slots t' = (slots t)[i := (slots t ! i)\<lparr>slot_rights := r, object := Some ob\<rparr>]"
  | (fresh) "unat (handle_slot h) = length (slots t)" "length (slots t) < cap t"
      "free t = []" "free t' = []" "handle_generation h = 1" "cap t' = cap t"
      "slots t' = slots t @ [\<lparr>generation = 1, slot_rights = r, object = Some ob\<rparr>]"
proof (cases "vec_pop (free t)")
  case None
  moreover from this assms(1) have "length (slots t) < cap t"
    by (auto simp: alloc_def split: if_splits)
  moreover from this assms(2) have "length (slots t) < 2 ^ 32"
    by (simp add: wf_table_def)
  ultimately show ?thesis
    using assms(1) by (intro fresh) (auto simp: alloc_def Let_def unat_of_nat_index)
next
  case (Some p)
  then obtain idx fr where pop: "vec_pop (free t) = Some (idx, fr)"
    by (cases p) auto
  with assms(1) have h: "h = handle_new (generation (slots t ! unat idx)) idx"
    by (auto simp: alloc_def Let_def)
  from pop have "idx \<in> set (free t)"
    by (auto simp: vec_pop_Some)
  from wf_free[OF assms(2) this] show ?thesis
    using assms(1) pop h by (intro recycled[of "unat idx"]) (auto simp: alloc_def Let_def vec_pop_Some)
qed

lemma alloc_None: "alloc t r ob = (t', None) \<Longrightarrow> t' = t \<and> free t = [] \<and> cap t \<le> length (slots t)"
  by (auto simp: alloc_def Let_def split: option.splits if_splits)

lemma alloc_succeeds_iff:
  "(\<exists>t' h. alloc t r ob = (t', Some h)) \<longleftrightarrow> free t \<noteq> [] \<or> length (slots t) < cap t"
  by (auto simp: alloc_def Let_def vec_pop_def split: option.splits)

lemma alloc_wf_Some:
  assumes "alloc t r ob = (t', Some h)" and "wf_table t"
  shows "wf_table t'"
  using assms
proof (cases rule: alloc_cases)
  case (recycled i)
  note wf = assms(2)
  have other: "unat idx \<noteq> i \<and> idx \<in> set (free t)" if "idx \<in> set (free t')" for idx
    using wf_distinct[OF wf] recycled(1,3) that by (auto simp: word_unat_eq_iff[symmetric])
  show ?thesis
  proof (rule wf_tableI)
    show "distinct (free t')"
      using wf_distinct[OF wf] recycled(3) by simp
  next
    fix idx assume "idx \<in> set (free t')"
    with other[of idx] wf_free[OF wf, of idx] show
      "unat idx < length (slots t') \<and> object (slots t' ! unat idx) = None"
      by (auto simp: recycled(7) nth_list_update)
  next
    fix k assume k: "k < length (slots t')"
    with wf_generation[OF wf, of k] show "generation (slots t' ! k) \<noteq> 0"
      using recycled(2) by (auto simp: recycled(7) nth_list_update)
    assume "object (slots t' ! k) = None"
    with k have "k \<noteq> i" "k < length (slots t)" "object (slots t ! k) = None"
      using recycled(2,7) by (auto simp: nth_list_update split: if_splits)
    with wf_vacant[OF wf, of k] show
      "word_of_nat k \<in> set (free t') \<or> generation (slots t' ! k) = - 1"
      using recycled(1,2,3,7) wf_len[OF wf] by (auto simp: nth_list_update of_nat_index_eq)
  qed (use wf_cap[OF wf] recycled(6,7) in simp_all)
next
  case fresh
  then show ?thesis
    using assms(2) by (auto simp: wf_table_def nth_append)
qed

lemma alloc_wf: "wf_table t \<Longrightarrow> wf_table (fst (alloc t r ob))"
  using alloc_wf_Some[of t r ob] alloc_None[of t r ob]
  by (cases "alloc t r ob"; cases "snd (alloc t r ob)") simp_all

lemma alloc_fresh_handle:
  assumes "alloc t r ob = (t', Some h)" and "wf_table t"
  shows "resolve t h = None"
  using assms by (cases rule: alloc_cases) (auto simp: resolve_alt Let_def)

lemma alloc_resolve:
  assumes "alloc t r ob = (t', Some h)" and "wf_table t"
  shows "resolve t' = (resolve t)(h \<mapsto> (ob, r))"
proof
  fix k
  show "resolve t' k = ((resolve t)(h \<mapsto> (ob, r))) k"
    using assms
  proof (cases rule: alloc_cases)
    case (recycled i)
    then show ?thesis
      by (auto simp: resolve_alt Let_def handle_eq_iff[of k h] nth_list_update word_unat_eq_iff)
  next
    case fresh
    then show ?thesis
      by (auto simp: resolve_alt Let_def handle_eq_iff[of k h] nth_append word_unat_eq_iff)
  qed
qed

lemma alloc_handle_nonnull:
  assumes "alloc t r ob = (t', Some h)" and "wf_table t"
  shows "handle_generation h \<noteq> 0"
  using assms
proof (cases rule: alloc_cases)
  case (recycled i)
  with wf_generation[OF assms(2) recycled(2)] show ?thesis by simp
qed simp

section \<open>Vacating a slot\<close>

lemma free_slot_frame [simp]:
  "cap (free_slot t i) = cap t" "length (slots (free_slot t i)) = length (slots t)"
  by (auto simp: free_slot_def Let_def split: option.splits)

lemma free_slot_nth:
  assumes "k < length (slots t)"
  shows "slots (free_slot t i) ! k =
    (if k = i then (slots t ! i)\<lparr>object := None,
       generation := (if generation (slots t ! i) = - 1 then - 1 else generation (slots t ! i) + 1)\<rparr>
     else slots t ! k)"
proof (cases "checked_add (generation (slots t ! i)) 1")
  case None
  then have "generation (slots t ! i) = - 1"
    by (simp add: checked_add_one_None)
  with None assms show ?thesis
    by (cases "slots t ! i") (auto simp: free_slot_def Let_def nth_list_update)
next
  case (Some g)
  then have "generation (slots t ! i) \<noteq> - 1" "g = generation (slots t ! i) + 1"
    using checked_add_one_None[of "generation (slots t ! i)"]
    by (auto simp: checked_add_def split: if_splits)
  with Some assms show ?thesis
    by (auto simp: free_slot_def Let_def nth_list_update)
qed

lemma free_slot_free:
  "free (free_slot t i) =
    (if generation (slots t ! i) = - 1 then free t else free t @ [word_of_nat i])"
  using checked_add_one_None[of "generation (slots t ! i)"]
  by (auto simp: free_slot_def Let_def split: option.splits)

lemma succ_nonzero: "w \<noteq> - 1 \<Longrightarrow> w + 1 \<noteq> (0 :: 'a::len word)"
  by (metis add.inverse_inverse add_eq_0_iff2)

lemma free_slot_wf:
  assumes wf: "wf_table t" and i: "i < length (slots t)" and occ: "object (slots t ! i) \<noteq> None"
  shows "wf_table (free_slot t i)"
proof -
  have len: "length (slots t) \<le> 2 ^ 32"
    by (rule wf_len[OF wf])
  then have "word_of_nat i \<notin> set (free t)"
    using wf_free(2)[OF wf, of "word_of_nat i"] i occ by (auto simp: unat_of_nat_index)
  moreover have "unat idx < length (slots t) \<and> object (slots (free_slot t i) ! unat idx) = None"
    if "idx \<in> set (free (free_slot t i))" for idx
    using that wf_free[OF wf, of idx] i len
    by (auto simp: free_slot_free free_slot_nth unat_of_nat_index split: if_splits)
  moreover have "word_of_nat k \<in> set (free (free_slot t i)) \<or>
      generation (slots (free_slot t i) ! k) = - 1"
    if "k < length (slots t)" "object (slots (free_slot t i) ! k) = None" for k
    using that wf by (auto simp: free_slot_free free_slot_nth wf_table_def split: if_splits)
  moreover have "generation (slots (free_slot t i) ! k) \<noteq> 0" if "k < length (slots t)" for k
    using that wf_generation[OF wf, of k] succ_nonzero by (auto simp: free_slot_nth)
  ultimately show ?thesis
    using wf by (auto simp: wf_table_def free_slot_free)
qed

lemma free_slot_resolve:
  assumes "wf_table t" and "live t h = Inr i"
  shows "resolve (free_slot t i) = (resolve t)(h := None)"
proof
  fix k
  from assms(2) have i: "i = unat (handle_slot h)" "i < length (slots t)"
      "generation (slots t ! i) = handle_generation h"
    by (auto simp: live_Inr)
  show "resolve (free_slot t i) k = ((resolve t)(h := None)) k"
  proof (cases "unat (handle_slot k) = i")
    case True
    with i show ?thesis
      by (auto simp: resolve_alt Let_def free_slot_nth handle_eq_iff[of k h] word_unat_eq_iff)
  next
    case False
    with i(1) have "k \<noteq> h" by auto
    with False show ?thesis
      by (auto simp: resolve_alt Let_def free_slot_nth)
  qed
qed

section \<open>Spent handles\<close>

lemma spent_unresolved: "spent t h \<Longrightarrow> resolve t h = None"
  by (auto simp: spent_def resolve_alt Let_def)

lemma free_slot_spends:
  assumes wf: "wf_table t" and h: "live t h = Inr i"
  shows "spent (free_slot t i) h"
proof -
  from h have i: "i = unat (handle_slot h)" "i < length (slots t)"
      "generation (slots t ! i) = handle_generation h" "object (slots t ! i) \<noteq> None"
    by (auto simp: live_Inr)
  then have "handle_slot h \<notin> set (free t)"
    using wf_free(2)[OF wf] by auto
  moreover have "handle_generation h < handle_generation h + 1" if "handle_generation h \<noteq> - 1"
    using that checked_add_one_less[of "handle_generation h"] checked_add_one_None[of "handle_generation h"]
    by (auto simp: checked_add_def split: if_splits)
  ultimately show ?thesis
    using i by (auto simp: spent_def Let_def free_slot_nth free_slot_free)
qed

lemma alloc_keeps_spent:
  assumes "wf_table t" and "spent t h"
  shows "spent (fst (alloc t r ob)) h"
proof (cases "alloc t r ob")
  case (Pair t' m)
  show ?thesis
  proof (cases m)
    case None
    with Pair assms alloc_None[of t r ob t'] show ?thesis by simp
  next
    case (Some k)
    with Pair have "alloc t r ob = (t', Some k)" by simp
    from this assms(1) have "spent t' h"
    proof (cases rule: alloc_cases)
      case (recycled i)
      with assms(2) show ?thesis
        by (auto simp: spent_def Let_def nth_list_update word_unat_eq_iff)
    next
      case fresh
      with assms(2) show ?thesis
        by (auto simp: spent_def Let_def nth_append)
    qed
    with Pair show ?thesis by simp
  qed
qed

lemma free_slot_keeps_spent:
  assumes wf: "wf_table t" and "spent t h" and i: "live t k = Inr i"
  shows "spent (free_slot t i) h"
proof (cases "unat (handle_slot h) = i")
  case True
  let ?s = "slots t ! i"
  from i have occ: "object ?s \<noteq> None" "i < length (slots t)"
    by (auto simp: live_Inr)
  with assms(2) True have less: "handle_generation h < generation ?s"
    by (auto simp: spent_def Let_def)
  also have "generation ?s \<le> generation (slots (free_slot t i) ! i)"
    using occ checked_add_one_less[of "generation ?s"] checked_add_one_None[of "generation ?s"]
    by (auto simp: free_slot_nth checked_add_def split: if_splits)
  finally show ?thesis
    using True occ by (simp add: spent_def)
next
  case False
  with assms(2) i show ?thesis
    by (auto simp: spent_def Let_def free_slot_nth free_slot_free live_Inr)
qed

section \<open>The table as a store of capabilities\<close>

definition vacate :: "'o cap_table \<Rightarrow> handle \<Rightarrow> 'o cap_table" where
  "vacate t h = fst (revoke t h)"

lemma vacate_cases: "vacate t h = (case live t h of Inr i \<Rightarrow> free_slot t i | Inl _ \<Rightarrow> t)"
  by (simp add: vacate_def revoke_def split: sum.splits)

lemma vacate_keeps_wf: "wf_table t \<Longrightarrow> wf_table (vacate t h)"
  by (auto simp: vacate_cases live_Inr intro: free_slot_wf split: sum.splits)

lemma vacate_upd: "wf_table t \<Longrightarrow> resolve (vacate t h) = (resolve t)(h := None)"
  by (cases t h rule: handle_cases) (auto simp: vacate_cases free_slot_resolve)

interpretation ct: revoking_store resolve alloc vacate wf_table spent
proof unfold_locales
  fix t t' :: "'a cap_table" and r ob h k
  show "wf_table t \<Longrightarrow> wf_table (fst (alloc t r ob))"
    by (rule alloc_wf)
  show "wf_table t \<Longrightarrow> alloc t r ob = (t', Some h) \<Longrightarrow>
      resolve t h = None \<and> resolve t' = (resolve t)(h \<mapsto> (ob, r))"
    by (simp add: alloc_fresh_handle alloc_resolve)
  show "alloc t r ob = (t', None) \<Longrightarrow> t' = t"
    by (simp add: alloc_None)
  show "wf_table t \<Longrightarrow> wf_table (vacate t h)"
    by (rule vacate_keeps_wf)
  show "wf_table t \<Longrightarrow> resolve (vacate t h) = (resolve t)(h := None)"
    by (rule vacate_upd)
  show "wf_table t \<Longrightarrow> spent t h \<Longrightarrow> resolve t h = None"
    by (simp add: spent_unresolved)
  show "wf_table t \<Longrightarrow> resolve t h \<noteq> None \<Longrightarrow> spent (vacate t h) h"
    by (auto simp: vacate_cases resolve_def free_slot_spends split: sum.splits)
  show "wf_table t \<Longrightarrow> spent t h \<Longrightarrow> spent (fst (alloc t r ob)) h"
    by (rule alloc_keeps_spent)
  show "wf_table t \<Longrightarrow> spent t h \<Longrightarrow> spent (vacate t k) h"
    by (auto simp: vacate_cases free_slot_keeps_spent split: sum.splits)
qed

text \<open>
  The remaining operations in terms of the store: each resolves its handle and then
  grants or vacates.
\<close>

lemma dup_store: "dup t h = (case resolve t h of None \<Rightarrow> (t, None) | Some (ob, r) \<Rightarrow> alloc t r ob)"
  by (cases t h rule: handle_cases) (simp_all add: dup_def)

lemma narrow_store:
  "narrow t h m = (case resolve t h of None \<Rightarrow> (t, None) | Some (ob, r) \<Rightarrow> alloc t (intersect r m) ob)"
  by (cases t h rule: handle_cases) (simp_all add: narrow_def)

lemma transfer_store:
  "transfer_to src h dst = (case resolve src h of None \<Rightarrow> (src, dst, None)
     | Some (ob, r) \<Rightarrow> (case alloc dst r ob of
          (dst', None) \<Rightarrow> (src, dst', None)
        | (dst', Some moved) \<Rightarrow> (vacate src h, dst', Some moved)))"
  by (cases src h rule: handle_cases) (simp_all add: transfer_to_def attach_def vacate_cases)

lemma detach_store:
  "detach t h = (case live t h of Inl e \<Rightarrow> (t, Inl e) | Inr _ \<Rightarrow> (vacate t h, Inr (the (resolve t h))))"
  by (cases t h rule: handle_cases) (simp_all add: detach_def vacate_cases)

lemma revoke_store:
  "revoke t h = (vacate t h, case live t h of Inl e \<Rightarrow> e | Inr _ \<Rightarrow> Ok)"
  by (cases t h rule: handle_cases) (simp_all add: revoke_def vacate_cases)

lemma rights_of_store: "rights_of t h = map_option snd (resolve t h)"
  by (cases t h rule: handle_cases) (simp_all add: rights_of_def)

lemma rights_at_store: "live t h = Inr i \<Longrightarrow> resolve t h = Some (ob, r) \<Longrightarrow> rights_at t i = r"
  by (auto simp: resolve_def rights_at_def)

lemma object_at_store: "live t h = Inr i \<Longrightarrow> resolve t h = Some (ob, r) \<Longrightarrow> object_at t i = Some ob"
  by (auto simp: resolve_def object_at_def)

lemmas table_ops_store = dup_store narrow_store transfer_store detach_store revoke_store
  attach_def rights_of_store

end
