(* ===== verification/Authority_Flow.thy ===== *)
theory Authority_Flow
  imports Cap_Table
begin

text \<open>
  Several principals, each with its own table, running the operations of
  \<open>tb-caps-core\<close> in any interleaving. The step relation has one rule per operation; an
  object in transit (between the \<open>detach\<close> of a send and the \<open>attach\<close> of a receive) is held
  by no table. The ghost field \<open>authority\<close> records the rights an object was minted with.
  Two invariants are proved over all reachable worlds: no capability ever exceeds the
  rights its object was minted with, and a vacated handle never resolves again.
\<close>

record 'o world =
  tables :: "nat \<Rightarrow> 'o cap_table"
  transit :: "('o \<times> rights) list"
  authority :: "'o \<rightharpoonup> rights"

definition set_table :: "nat \<Rightarrow> 'o cap_table \<Rightarrow> 'o world \<Rightarrow> 'o world" where
  "set_table p t w = w\<lparr>tables := (tables w)(p := t)\<rparr>"

inductive cap_step :: "'o world \<Rightarrow> 'o world \<Rightarrow> bool" where
  mint: "authority w ob = None \<Longrightarrow>
     cap_step w (set_table p (fst (alloc (tables w p) r ob)) w
       \<lparr>authority := (authority w)(ob \<mapsto> r)\<rparr>)"
| dup: "cap_step w (set_table p (fst (dup (tables w p) h)) w)"
| narrow: "cap_step w (set_table p (fst (narrow (tables w p) h m)) w)"
| revoke: "cap_step w (set_table p (fst (revoke (tables w p) h)) w)"
| transfer: "p \<noteq> q \<Longrightarrow> transfer_to (tables w p) h (tables w q) = (src, dst, res) \<Longrightarrow>
     cap_step w (set_table q dst (set_table p src w))"
| send: "detach (tables w p) h = (t, Inr c) \<Longrightarrow>
     cap_step w (set_table p t w\<lparr>transit := transit w @ [c]\<rparr>)"
| recv: "transit w = xs @ c # ys \<Longrightarrow>
     cap_step w (set_table p (fst (attach (tables w p) c)) w\<lparr>transit := xs @ ys\<rparr>)"

inductive_cases cap_stepE: "cap_step w w'"

definition initial :: "'o world \<Rightarrow> bool" where
  "initial w \<longleftrightarrow> (\<forall>p. \<exists>c \<le> 2 ^ 32. tables w p = with_capacity c) \<and> transit w = [] \<and>
     authority w = Map.empty"

inductive reachable :: "'o world \<Rightarrow> bool" where
  start: "initial w \<Longrightarrow> reachable w"
| step: "reachable w \<Longrightarrow> cap_step w w' \<Longrightarrow> reachable w'"

section \<open>The authority invariant\<close>

definition bound :: "('o \<rightharpoonup> rights) \<Rightarrow> 'o \<Rightarrow> rights" where
  "bound A ob = (case A ob of None \<Rightarrow> bot | Some r \<Rightarrow> r)"

definition allowed :: "('o \<rightharpoonup> rights) \<Rightarrow> 'o \<times> rights \<Rightarrow> bool" where
  "allowed A c \<longleftrightarrow> fst c \<in> dom A \<and> snd c \<le> bound A (fst c)"

definition table_ok :: "('o \<rightharpoonup> rights) \<Rightarrow> 'o cap_table \<Rightarrow> bool" where
  "table_ok A t \<longleftrightarrow> wf_table t \<and> (\<forall>h c. resolve t h = Some c \<longrightarrow> allowed A c)"

definition world_inv :: "'o world \<Rightarrow> bool" where
  "world_inv w \<longleftrightarrow> (\<forall>p. table_ok (authority w) (tables w p)) \<and>
     (\<forall>c\<in>set (transit w). allowed (authority w) c)"

lemma world_frame [simp]:
  "tables (set_table p t w) = (tables w)(p := t)" "transit (set_table p t w) = transit w"
  "authority (set_table p t w) = authority w"
  by (simp_all add: set_table_def)

lemma table_okD:
  "table_ok A t \<Longrightarrow> wf_table t"
  "table_ok A t \<Longrightarrow> resolve t h = Some c \<Longrightarrow> allowed A c"
  unfolding table_ok_def by blast+

lemma allowed_derive: "allowed A (ob, r0) \<Longrightarrow> r \<le> r0 \<Longrightarrow> allowed A (ob, r)"
  by (auto simp: allowed_def)

lemma table_ok_alloc: "table_ok A t \<Longrightarrow> allowed A (ob, r) \<Longrightarrow> table_ok A (fst (alloc t r ob))"
  using ct.grant_wf[of t r ob] ct.grant_new[of t r ob] ct.grant_full[of t r ob]
  by (cases "alloc t r ob"; cases "snd (alloc t r ob)") (auto simp: table_ok_def)

lemma table_ok_vacate: "table_ok A t \<Longrightarrow> table_ok A (vacate t h)"
  by (auto simp: table_ok_def ct.vacate_wf vacate_upd)

lemma table_ok_derive:
  "table_ok A t \<Longrightarrow> table_ok A t' \<Longrightarrow> resolve t' h = Some (ob, r0) \<Longrightarrow> r \<le> r0 \<Longrightarrow>
     table_ok A (fst (alloc t r ob))"
  by (blast intro: table_ok_alloc allowed_derive dest: table_okD(2))

lemma allowed_mint: "A ob = None \<Longrightarrow> allowed A c \<Longrightarrow> allowed (A(ob \<mapsto> r)) c"
  by (auto simp: allowed_def bound_def dom_def)

lemma table_ok_mint: "A ob = None \<Longrightarrow> table_ok A t \<Longrightarrow> table_ok (A(ob \<mapsto> r)) t"
  by (auto simp: table_ok_def intro: allowed_mint)

lemma table_ok_ops:
  assumes "table_ok A t"
  shows "table_ok A (fst (dup t h))" "table_ok A (fst (narrow t h m))"
    "table_ok A (fst (revoke t h))" "table_ok A (fst (detach t h))"
  using assms table_ok_derive[OF assms assms]
  by (auto simp: table_ops_store table_ok_vacate split: option.splits sum.splits)

lemma table_ok_transfer:
  assumes "table_ok A src" "table_ok A dst" "transfer_to src h dst = (src', dst', res)"
  shows "table_ok A src' \<and> table_ok A dst'"
proof (cases "resolve src h")
  case None
  with assms show ?thesis by (simp add: transfer_store)
next
  case (Some c)
  obtain ob r where "c = (ob, r)" by (cases c)
  moreover have "table_ok A (fst (alloc dst r ob))"
    using assms Some calculation by (blast intro: table_ok_derive)
  ultimately show ?thesis
    using assms Some table_ok_vacate[OF assms(1)]
    by (cases "alloc dst r ob") (auto simp: transfer_store split: option.splits)
qed

lemma resolve_with_capacity [simp]: "resolve (with_capacity c) h = None"
  by (simp add: resolve_alt with_capacity_def)

lemma world_inv_initial: "initial w \<Longrightarrow> world_inv w"
proof -
  assume w: "initial w"
  have "table_ok (authority w) (tables w p)" for p
  proof -
    from w obtain c where "c \<le> 2 ^ 32" "tables w p = with_capacity c"
      unfolding initial_def by blast
    then show ?thesis by (simp add: table_ok_def wf_with_capacity)
  qed
  with w show ?thesis
    by (simp add: world_inv_def initial_def)
qed

lemma world_inv_step:
  assumes "cap_step w w'" and "world_inv w"
  shows "world_inv w'"
  using assms
proof (induction rule: cap_step.induct)
  case (mint w ob p)
  have "allowed ((authority w)(ob \<mapsto> r)) (ob, r)" for r
    by (simp add: allowed_def bound_def)
  with mint show ?case
    by (auto simp: world_inv_def intro: table_ok_alloc table_ok_mint allowed_mint)
next
  case (transfer p q w h src dst res)
  then have "table_ok (authority w) src \<and> table_ok (authority w) dst"
    by (intro table_ok_transfer[of _ "tables w p" "tables w q"]) (auto simp: world_inv_def)
  with transfer show ?case
    by (auto simp: world_inv_def)
next
  case (send w p h t c)
  then have "resolve (tables w p) h = Some c" "t = fst (detach (tables w p) h)"
    by (cases "tables w p" h rule: handle_cases; simp add: detach_store)+
  with send show ?case
    by (auto simp: world_inv_def intro: table_ok_ops dest: table_okD(2))
next
  case (recv w xs c ys p)
  then show ?case
    by (cases c) (auto simp: world_inv_def attach_def intro: table_ok_alloc)
qed (auto simp: world_inv_def intro: table_ok_ops)

lemma reachable_world_inv: "reachable w \<Longrightarrow> world_inv w"
  by (induction rule: reachable.induct) (auto intro: world_inv_initial world_inv_step)

section \<open>Handles stay dead\<close>

lemma spent_ops:
  assumes "wf_table t" "spent t h"
  shows "spent (fst (dup t k)) h" "spent (fst (narrow t k m)) h" "spent (fst (revoke t k)) h"
    "spent (fst (detach t k)) h" "spent (fst (attach t c)) h"
  using assms ct.spent_grant[OF assms] ct.spent_vacate[OF assms]
  by (auto simp: table_ops_store split: option.splits sum.splits)

lemma spent_transfer:
  assumes "transfer_to src k dst = (src', dst', res)" "wf_table src" "wf_table dst"
  shows "spent src h \<Longrightarrow> spent src' h" "spent dst h \<Longrightarrow> spent dst' h"
  using assms ct.spent_vacate[OF assms(2)] ct.spent_grant[OF assms(3), of h]
  by (auto simp: transfer_store split: option.splits prod.splits) (metis fst_conv)+

lemma step_keeps_spent:
  assumes "cap_step w w'" and "world_inv w" and "spent (tables w p) h"
  shows "spent (tables w' p) h"
proof -
  have wf: "wf_table (tables w q)" for q
    using assms(2) by (auto simp: world_inv_def dest: table_okD(1))
  note spent = spent_ops[OF wf assms(3)] ct.spent_grant[OF wf assms(3)]
  from assms(1) show ?thesis
  proof (cases rule: cap_step.cases)
    case (transfer p' q k src dst res)
    with spent_transfer[OF transfer(3) wf wf] assms(3) show ?thesis by auto
  next
    case (send p' k t c)
    then show ?thesis using spent(4)[of k] assms(3) by auto
  qed (use spent assms(3) in auto)
qed

lemma steps_keep_spent:
  "cap_step\<^sup>*\<^sup>* w w' \<Longrightarrow> world_inv w \<Longrightarrow> spent (tables w p) h \<Longrightarrow>
     world_inv w' \<and> spent (tables w' p) h"
  by (induction rule: rtranclp_induct) (auto intro: world_inv_step step_keeps_spent)

section \<open>Properties\<close>

text \<open>
  C1: no widening. In every reachable world, whatever interleaving of mint, dup, narrow,
  revoke, transfer, send and receive led there, a handle that resolves names an object
  that was minted, with rights that are a subset of the rights it was minted with; the
  same holds for every capability in transit.
\<close>

theorem no_widening:
  assumes "reachable w"
  shows "(\<forall>p h ob r. resolve (tables w p) h = Some (ob, r) \<longrightarrow>
        (\<exists>r0. authority w ob = Some r0 \<and> is_subset_of r r0)) \<and>
      (\<forall>(ob, r)\<in>set (transit w). \<exists>r0. authority w ob = Some r0 \<and> is_subset_of r r0)"
proof -
  have inv: "world_inv w"
    by (rule reachable_world_inv[OF assms])
  have ok: "\<exists>r0. authority w ob = Some r0 \<and> is_subset_of r r0"
    if "allowed (authority w) (ob, r)" for ob r
    using that by (auto simp: allowed_def bound_def less_eq_rights_def split: option.splits)
  have "\<exists>r0. authority w ob = Some r0 \<and> is_subset_of r r0"
    if "resolve (tables w p) h = Some (ob, r)" for p h ob r
    using inv that by (intro ok) (auto simp: world_inv_def dest: table_okD(2))
  moreover have "\<exists>r0. authority w ob = Some r0 \<and> is_subset_of r r0"
    if "(ob, r) \<in> set (transit w)" for ob r
    using inv that by (intro ok) (auto simp: world_inv_def)
  ultimately show ?thesis
    by blast
qed

definition demo_start :: "nat world" where
  "demo_start = \<lparr>tables = \<lambda>_. with_capacity 4, transit = [], authority = Map.empty\<rparr>"

definition demo_minted :: "nat world" where
  "demo_minted = set_table 0 (fst (alloc (tables demo_start 0) (Rights 3) 7)) demo_start
     \<lparr>authority := (authority demo_start)(7 \<mapsto> Rights 3)\<rparr>"

definition demo_narrowed :: "nat world" where
  "demo_narrowed =
     set_table 0 (fst (narrow (tables demo_minted 0) (handle_new 1 0) (Rights 1))) demo_minted"

lemma demo_reachable: "reachable demo_minted" "reachable demo_narrowed"
proof -
  have "initial demo_start"
    by (auto simp: initial_def demo_start_def intro!: exI[of _ 4])
  then have "reachable demo_start"
    by (rule reachable.start)
  then show minted: "reachable demo_minted"
    unfolding demo_minted_def
    by (rule reachable.step) (rule cap_step.mint, simp add: demo_start_def)
  then show "reachable demo_narrowed"
    by (rule reachable.step) (auto simp: demo_narrowed_def intro: cap_step.narrow)
qed

theorem no_widening_witness:
  "resolve (tables demo_narrowed 0) (handle_new 1 1) = Some (7, Rights 1) \<and>
   (\<exists>r0. authority demo_narrowed 7 = Some r0 \<and> is_subset_of (Rights 1) r0)"
proof -
  have "resolve (tables demo_narrowed 0) (handle_new 1 1) = Some (7, Rights 1)"
    by code_simp
  with no_widening[OF demo_reachable(2)] show ?thesis
    by blast
qed

text \<open>
  C16: use after revoke. Once the handle of a live capability has been revoked, it resolves
  to an error in its table in every later world, however often the slot is reused.
\<close>

theorem revoked_stays_dead:
  assumes "reachable w" and "resolve (tables w p) h = Some c"
    and "cap_step\<^sup>*\<^sup>* (set_table p (fst (revoke (tables w p) h)) w) w'"
  shows "\<exists>e. live (tables w' p) h = Inl e"
proof -
  let ?w = "set_table p (fst (revoke (tables w p) h)) w"
  have "world_inv w"
    by (rule reachable_world_inv[OF assms(1)])
  then have "world_inv ?w" "wf_table (tables w p)"
    by (auto simp: world_inv_def intro: table_ok_ops dest: table_okD(1))
  moreover from this(2) have "spent (tables ?w p) h"
    using ct.vacate_spends[of "tables w p" h] assms(2) by (simp add: revoke_store)
  ultimately have "spent (tables w' p) h"
    using steps_keep_spent[OF assms(3)] by blast
  then show ?thesis
    by (simp add: spent_unresolved flip: resolve_None)
qed

theorem revoked_stays_dead_witness:
  "\<exists>e. live (tables (set_table 0 (fst (revoke (tables demo_minted 0) (handle_new 1 0)))
     demo_minted) 0) (handle_new 1 0) = Inl e"
proof -
  have "resolve (tables demo_minted 0) (handle_new 1 0) = Some (7, Rights 3)"
    by code_simp
  from revoked_stays_dead[OF demo_reachable(1) this rtranclp.rtrancl_refl] show ?thesis .
qed

end
