(* ===== verification/Ipc_Channel.thy ===== *)
theory Ipc_Channel
  imports Cap_Table
begin

text \<open>
  The inter-agent channel core of \<open>crates/tb-hal/src/ipc.rs\<close>: two bounded FIFO rings, the
  endpoint-open flags and the parked-receiver slots. The arrays of length two are lists of
  length two (\<open>wf_channel\<close>), indexed by the side. A message parks at most one capability,
  the object and rights it moves.
\<close>

definition MAX_PAYLOAD :: nat where "MAX_PAYLOAD = 4096"

definition NO_WAITER :: u32 where "NO_WAITER = - 1"

record 'o message =
  payload :: u64
  msg_bytes :: "bytes option"
  msg_cap :: "('o \<times> rights) option"

definition byte_len :: "'o message \<Rightarrow> nat" where
  "byte_len m = (case msg_bytes m of Some b \<Rightarrow> length b | None \<Rightarrow> 0)"

record 'o ring =
  q :: "'o message list"
  ring_cap :: nat

record 'o channel =
  dir :: "'o ring list"
  chan_open :: "bool list"
  waiter :: "u32 list"

definition chan_create :: "nat \<Rightarrow> 'o channel" where
  "chan_create bnd =
     \<lparr>dir = [\<lparr>q = [], ring_cap = bnd\<rparr>, \<lparr>q = [], ring_cap = bnd\<rparr>],
      chan_open = [True, True], waiter = [NO_WAITER, NO_WAITER]\<rparr>"

definition outbox :: "'o channel \<Rightarrow> nat \<Rightarrow> 'o ring" where
  "outbox c side = dir c ! side"

definition inbox :: "'o channel \<Rightarrow> nat \<Rightarrow> 'o ring" where
  "inbox c side = dir c ! (1 - side)"

definition peer_open :: "'o channel \<Rightarrow> nat \<Rightarrow> bool" where
  "peer_open c side = chan_open c ! (1 - side)"

definition close_side :: "'o channel \<Rightarrow> nat \<Rightarrow> 'o channel" where
  "close_side c side = c\<lparr>chan_open := (chan_open c)[side := False]\<rparr>"

definition set_waiter :: "'o channel \<Rightarrow> nat \<Rightarrow> u32 \<Rightarrow> 'o channel" where
  "set_waiter c r task = c\<lparr>waiter := (waiter c)[r AND 1 := task]\<rparr>"

definition take_waiter :: "'o channel \<Rightarrow> nat \<Rightarrow> 'o channel \<times> u32 option" where
  "take_waiter c r = (let t = waiter c ! (r AND 1); c' = c\<lparr>waiter := (waiter c)[r AND 1 := NO_WAITER]\<rparr>
     in if t = NO_WAITER then (c', None) else (c', Some t))"

text \<open>
  The ring operations of the callers in \<open>caps.rs\<close>: \<open>outbox(side).q.push_back\<close>,
  \<open>inbox(side).q.pop_front\<close> and \<open>inbox(side).q.push_front\<close>.
\<close>

definition push_out :: "'o channel \<Rightarrow> nat \<Rightarrow> 'o message \<Rightarrow> 'o channel" where
  "push_out c side m = c\<lparr>dir := (dir c)[side := (dir c ! side)\<lparr>q := q (dir c ! side) @ [m]\<rparr>]\<rparr>"

definition pop_in :: "'o channel \<Rightarrow> nat \<Rightarrow> 'o channel \<times> 'o message option" where
  "pop_in c side = (case q (inbox c side) of [] \<Rightarrow> (c, None)
     | m # ms \<Rightarrow> (c\<lparr>dir := (dir c)[1 - side := (inbox c side)\<lparr>q := ms\<rparr>]\<rparr>, Some m))"

definition unpop_in :: "'o channel \<Rightarrow> nat \<Rightarrow> 'o message \<Rightarrow> 'o channel" where
  "unpop_in c side m =
     c\<lparr>dir := (dir c)[1 - side := (inbox c side)\<lparr>q := m # q (inbox c side)\<rparr>]\<rparr>"

definition ring_full :: "'o ring \<Rightarrow> bool" where
  "ring_full r \<longleftrightarrow> length (q r) \<ge> ring_cap r"

section \<open>The channel invariant\<close>

definition wf_channel :: "'o channel \<Rightarrow> bool" where
  "wf_channel c \<longleftrightarrow> length (dir c) = 2 \<and> length (chan_open c) = 2 \<and> length (waiter c) = 2 \<and>
     (\<forall>r\<in>set (dir c). length (q r) \<le> ring_cap r)"

text \<open>The capabilities parked in a channel.\<close>

definition parked :: "'o channel \<Rightarrow> ('o \<times> rights) set" where
  "parked c = (\<Union>r\<in>set (dir c). \<Union>m\<in>set (q r). set_option (msg_cap m))"

lemma side_cases: "side < 2 \<Longrightarrow> side = 0 \<or> side = (1::nat)"
  by linarith

lemma wf_channel_dir: "wf_channel c \<Longrightarrow> \<exists>a b. dir c = [a, b]"
  by (auto simp: wf_channel_def numeral_2_eq_2 length_Suc_conv)

lemma wf_chan_create: "wf_channel (chan_create bnd)"
  by (simp add: wf_channel_def chan_create_def)

lemma wf_close_side: "wf_channel c \<Longrightarrow> wf_channel (close_side c side)"
  by (simp add: wf_channel_def close_side_def)

lemma wf_set_waiter: "wf_channel c \<Longrightarrow> wf_channel (set_waiter c r t)"
  by (simp add: wf_channel_def set_waiter_def)

lemma wf_take_waiter: "wf_channel c \<Longrightarrow> wf_channel (fst (take_waiter c r))"
  by (simp add: wf_channel_def take_waiter_def Let_def)

lemma wf_push_out:
  "wf_channel c \<Longrightarrow> side < 2 \<Longrightarrow> \<not> ring_full (outbox c side) \<Longrightarrow> wf_channel (push_out c side m)"
  by (auto simp: wf_channel_def push_out_def ring_full_def outbox_def dest!: set_update_subset_insert[THEN subsetD])

lemma wf_pop_in:
  assumes "wf_channel c" "side < 2"
  shows "wf_channel (fst (pop_in c side))"
proof (cases "q (inbox c side)")
  case Nil
  with assms show ?thesis by (simp add: pop_in_def)
next
  case (Cons m ms)
  have "inbox c side \<in> set (dir c)"
    using assms by (auto simp: inbox_def wf_channel_def)
  then have "length (q (inbox c side)) \<le> ring_cap (inbox c side)"
    using assms by (simp add: wf_channel_def)
  with Cons assms show ?thesis
    by (auto simp: pop_in_def wf_channel_def dest!: set_update_subset_insert[THEN subsetD])
qed

text \<open>One direction never disturbs the other, and a ring is a FIFO queue.\<close>

lemma push_out_boxes:
  assumes "wf_channel c" "side < 2"
  shows "q (outbox (push_out c side m) side) = q (outbox c side) @ [m]"
    "outbox (push_out c side m) (1 - side) = outbox c (1 - side)"
  using assms by (auto simp: push_out_def outbox_def wf_channel_def dest: side_cases)

lemma inbox_outbox: "side < 2 \<Longrightarrow> inbox c (1 - side) = outbox c side"
  by (auto simp: inbox_def outbox_def dest: side_cases)

lemma pop_in_Some:
  assumes "wf_channel c" "side < 2" "pop_in c side = (c', Some m)"
  shows "q (inbox c side) = m # q (inbox c' side)" "inbox c' (1 - side) = inbox c (1 - side)"
    "chan_open c' = chan_open c" "waiter c' = waiter c" "ring_cap (inbox c' side) = ring_cap (inbox c side)"
  using assms by (auto simp: pop_in_def inbox_def wf_channel_def split: list.splits dest: side_cases)

lemma pop_in_None: "pop_in c side = (c', None) \<Longrightarrow> c' = c \<and> q (inbox c side) = []"
  by (auto simp: pop_in_def split: list.splits)

lemma unpop_pop:
  assumes "wf_channel c" "side < 2" "pop_in c side = (c', Some m)"
  shows "unpop_in c' side m = c"
proof -
  from wf_channel_dir[OF assms(1)] obtain a b where "dir c = [a, b]" by blast
  with assms(2,3) show ?thesis
    by (cases c) (auto simp: pop_in_def unpop_in_def inbox_def split: list.splits dest!: side_cases)
qed

lemma parked_push_out:
  assumes "wf_channel c" "side < 2"
  shows "parked (push_out c side m) = parked c \<union> set_option (msg_cap m)"
proof -
  from wf_channel_dir[OF assms(1)] obtain a b where "dir c = [a, b]" by blast
  with side_cases[OF assms(2)] show ?thesis
    by (elim disjE) (simp_all add: parked_def push_out_def Un_ac)
qed

lemma parked_pop_in:
  assumes "wf_channel c" "side < 2" "pop_in c side = (c', Some m)"
  shows "parked c = parked c' \<union> set_option (msg_cap m)"
proof -
  from wf_channel_dir[OF assms(1)] obtain a b where "dir c = [a, b]" by blast
  with assms(2,3) show ?thesis
    by (auto simp: parked_def pop_in_def inbox_def split: list.splits dest!: side_cases)
qed

lemma parked_simps [simp]:
  "parked (close_side c side) = parked c" "parked (set_waiter c r t) = parked c"
  "parked (fst (take_waiter c r)) = parked c" "parked (chan_create bnd) = {}"
  by (auto simp: parked_def close_side_def set_waiter_def take_waiter_def chan_create_def Let_def)

end
