(* ===== verification/Shared_Block.thy ===== *)
theory Shared_Block
  imports Prelude
begin

text \<open>
  The shared-memory block of \<open>crates/tb-hal/src/blocks.rs\<close>: the member list of the frame
  plane, the poison flag, and the record plane, a versioned compare-and-swap store. Loops
  over the records are folds over the list. \<open>u64\<close> addition wraps, as in the release
  profile; the invariant \<open>wf_block\<close> ties the version word to the number of records. The
  abstraction \<open>latest\<close> reads the record plane as a map from slots to versioned values,
  and the operations are an atomic compare-and-swap on it.
\<close>

record rec =
  off :: u64
  val :: u64
  version :: u64
  supersedes :: u64

record block =
  frames :: "u64 list"
  n_pages :: nat
  members :: "(u64 \<times> u64 \<times> bool) list"
  seq :: u64
  records :: "rec list"
  dead :: bool

text \<open>
  \<open>Block::create\<close> over a physical frame allocator: \<open>falloc\<close> pops a frame, \<open>ffree\<close>
  returns one, \<open>zero\<close> clears the frame's bytes. On exhaustion every frame already taken is
  returned.
\<close>

fun take_frames ::
  "('p \<Rightarrow> 'p \<times> u64 option) \<Rightarrow> (u64 \<Rightarrow> 'p \<Rightarrow> 'p) \<Rightarrow> (u64 \<Rightarrow> 'p \<Rightarrow> 'p) \<Rightarrow> nat \<Rightarrow> u64 list \<Rightarrow> 'p \<Rightarrow>
     'p \<times> u64 list option" where
  "take_frames falloc ffree zero 0 fs p = (p, Some fs)"
| "take_frames falloc ffree zero (Suc n) fs p =
     (case falloc p of
        (p', Some pa) \<Rightarrow> take_frames falloc ffree zero n (fs @ [pa]) (zero pa p')
      | (p', None) \<Rightarrow> (fold ffree fs p', None))"

definition block_create ::
  "('p \<Rightarrow> 'p \<times> u64 option) \<Rightarrow> (u64 \<Rightarrow> 'p \<Rightarrow> 'p) \<Rightarrow> (u64 \<Rightarrow> 'p \<Rightarrow> 'p) \<Rightarrow> nat \<Rightarrow> 'p \<Rightarrow>
     'p \<times> block option" where
  "block_create falloc ffree zero n p = (case take_frames falloc ffree zero n [] p of
     (p', None) \<Rightarrow> (p', None)
   | (p', Some fs) \<Rightarrow> (p', Some \<lparr>frames = fs, n_pages = n, members = [], seq = 0, records = [],
                                 dead = False\<rparr>))"

definition record_member :: "block \<Rightarrow> u64 \<Rightarrow> u64 \<Rightarrow> bool \<Rightarrow> block" where
  "record_member b root va w = (if dead b then b else b\<lparr>members := members b @ [(root, va, w)]\<rparr>)"

definition kill :: "block \<Rightarrow> block" where
  "kill b = b\<lparr>dead := True, members := []\<rparr>"

text \<open>The backwards scan for the most recent mapping at an address.\<close>

definition member_writable :: "block \<Rightarrow> u64 \<Rightarrow> u64 \<Rightarrow> bool option" where
  "member_writable b root va =
     map_option (\<lambda>(_, _, w). w) (find (\<lambda>(r, v, _). r = root \<and> v = va) (rev (members b)))"

definition latest_version :: "block \<Rightarrow> u64 \<Rightarrow> u64" where
  "latest_version b o1 =
     fold (\<lambda>r ver. if off r = o1 \<and> version r > ver then version r else ver) (records b) 0"

definition cas_write :: "block \<Rightarrow> u64 \<Rightarrow> u64 \<Rightarrow> u64 \<Rightarrow> block \<times> u64 option" where
  "cas_write b o1 v expected =
     (if dead b then (b, None)
      else let cur = latest_version b o1 in
        if cur \<noteq> expected then (b, None)
        else let new_ver = seq b + 1 in
          (b\<lparr>seq := new_ver,
             records := records b @ [\<lparr>off = o1, val = v, version = new_ver, supersedes = cur\<rparr>]\<rparr>,
           Some new_ver))"

definition read_latest :: "block \<Rightarrow> u64 \<Rightarrow> u64 option" where
  "read_latest b o1 =
     (if dead b then None
      else snd (fold (\<lambda>r (ver, out). if off r = o1 \<and> version r \<ge> ver
                                       then (version r, Some (val r)) else (ver, out))
                  (records b) (0, None)))"

section \<open>The record-plane invariant\<close>

text \<open>Record \<open>i\<close> carries version \<open>i + 1\<close>; the version word counts the records.\<close>

definition wf_block :: "block \<Rightarrow> bool" where
  "wf_block b \<longleftrightarrow> length (records b) < 2 ^ 64 \<and> seq b = word_of_nat (length (records b)) \<and>
     n_pages b = length (frames b) \<and>
     (\<forall>i<length (records b). version (records b ! i) = word_of_nat (Suc i))"

definition latest :: "block \<Rightarrow> u64 \<Rightarrow> (u64 \<times> u64) option" where
  "latest b o1 = map_option (\<lambda>r. (version r, val r)) (find (\<lambda>r. off r = o1) (rev (records b)))"

text \<open>\<open>ascending rs n\<close>: the versions of \<open>rs\<close> are \<open>1, \<dots>, n\<close>.\<close>

definition ascending :: "rec list \<Rightarrow> bool" where
  "ascending rs \<longleftrightarrow> length rs < 2 ^ 64 \<and> (\<forall>i<length rs. version (rs ! i) = word_of_nat (Suc i))"

lemma ascending_snoc:
  "ascending (rs @ [r]) \<longleftrightarrow> ascending rs \<and> Suc (length rs) < 2 ^ 64 \<and>
     version r = word_of_nat (Suc (length rs))"
  by (auto simp: ascending_def nth_append less_Suc_eq)

lemma wf_ascending: "wf_block b \<Longrightarrow> ascending (records b)"
  by (simp add: wf_block_def ascending_def)

lemma unat_u64: "n < 2 ^ 64 \<Longrightarrow> unat (word_of_nat n :: u64) = n"
  by (simp add: unat_of_nat take_bit_nat_eq_self)

lemma latest_version_scan:
  assumes "ascending rs"
  shows "fold (\<lambda>r ver. if off r = o1 \<and> version r > ver then version r else ver) rs 0 =
      (case find (\<lambda>r. off r = o1) (rev rs) of None \<Rightarrow> 0 | Some r \<Rightarrow> version r) \<and>
    unat (fold (\<lambda>r ver. if off r = o1 \<and> version r > ver then version r else ver) rs 0) \<le> length rs"
  using assms
proof (induction rs rule: rev_induct)
  case Nil
  then show ?case by simp
next
  case (snoc r rs)
  let ?f = "fold (\<lambda>r ver. if off r = o1 \<and> version r > ver then version r else ver) rs 0"
  from snoc.prems have "ascending rs"
    by (simp add: ascending_snoc)
  note IH = snoc.IH[OF this]
  have "unat (version r) = Suc (length rs)"
    using snoc.prems unat_u64[of "Suc (length rs)"] by (simp add: ascending_snoc)
  with IH conjunct2[OF IH] show ?case
    by (auto simp: word_less_nat_alt simp del: unat_of_nat)
qed

lemma read_latest_scan:
  assumes "ascending rs"
  shows "(let s = fold (\<lambda>r (ver, out). if off r = o1 \<and> version r \<ge> ver
                                       then (version r, Some (val r)) else (ver, out)) rs (0, None)
     in snd s = map_option val (find (\<lambda>r. off r = o1) (rev rs)) \<and> unat (fst s) \<le> length rs)"
  using assms
proof (induction rs rule: rev_induct)
  case Nil
  then show ?case by simp
next
  case (snoc r rs)
  then have "unat (version r) = Suc (length rs)"
    using unat_u64[of "Suc (length rs)"] by (simp add: ascending_snoc)
  with snoc show ?case
    by (auto simp: Let_def ascending_snoc word_le_nat_alt split: prod.splits)
qed

lemma latest_version_eq:
  "wf_block b \<Longrightarrow> latest_version b o1 = (case latest b o1 of None \<Rightarrow> 0 | Some (ver, _) \<Rightarrow> ver)"
  using latest_version_scan[OF wf_ascending]
  by (auto simp: latest_version_def latest_def split: option.splits)

lemma read_latest_eq:
  "wf_block b \<Longrightarrow> read_latest b o1 = (if dead b then None else map_option snd (latest b o1))"
  using read_latest_scan[OF wf_ascending, of b o1]
  by (auto simp: read_latest_def latest_def Let_def option.map_comp comp_def)

section \<open>The operations refine an atomic compare-and-swap\<close>

lemma wf_block_ops:
  "wf_block b \<Longrightarrow> wf_block (record_member b root va w)" "wf_block b \<Longrightarrow> wf_block (kill b)"
  by (simp_all add: wf_block_def record_member_def kill_def)

lemma cas_write_success:
  assumes "wf_block b" "cas_write b o1 v expected = (b', Some ver)"
  shows "\<not> dead b" "latest_version b o1 = expected" "ver = seq b + 1" "seq b' = ver"
    "records b' = records b @ [\<lparr>off = o1, val = v, version = ver, supersedes = expected\<rparr>]"
    "dead b' = dead b"  "members b' = members b" "frames b' = frames b" "n_pages b' = n_pages b"
  using assms by (auto simp: cas_write_def Let_def split: if_splits)

lemma cas_write_fail:
  "cas_write b o1 v expected = (b', None) \<Longrightarrow> b' = b \<and> (dead b \<or> latest_version b o1 \<noteq> expected)"
  by (auto simp: cas_write_def Let_def split: if_splits)

lemma cas_write_wf:
  assumes "wf_block b" "length (records b) < 2 ^ 64 - 1"
  shows "wf_block (fst (cas_write b o1 v expected))"
proof -
  have "ascending (records b @ [\<lparr>off = o1, val = v, version = seq b + 1, supersedes = s\<rparr>])" for s
    using assms wf_ascending[OF assms(1)] by (simp add: ascending_snoc wf_block_def add.commute)
  then show ?thesis
    using assms by (auto simp: cas_write_def Let_def wf_block_def ascending_def add.commute)
qed

lemma latest_snoc:
  "records b' = records b @ [r] \<Longrightarrow>
     latest b' = (latest b)(off r \<mapsto> (version r, val r))"
  by (auto simp: latest_def fun_eq_iff)

text \<open>Every version the record plane holds for a slot is below the next version word.\<close>

lemma latest_version_bound:
  "wf_block b \<Longrightarrow> latest b o1 = Some (ver, v) \<Longrightarrow> unat ver \<le> length (records b) \<and> ver \<noteq> 0"
proof -
  assume b: "wf_block b" and l: "latest b o1 = Some (ver, v)"
  then obtain r where r: "r \<in> set (records b)" "version r = ver"
    by (auto simp: latest_def dest: find_rev_mem)
  then obtain i where i: "i < length (records b)" "ver = word_of_nat (Suc i)"
    using b by (auto simp: wf_block_def in_set_conv_nth)
  moreover have "unat ver = Suc i"
    using i b unat_u64[of "Suc i"] by (simp add: wf_block_def)
  ultimately show ?thesis
    by auto
qed

lemma seq_exceeds:
  assumes "wf_block b" "length (records b) < 2 ^ 64 - 1" "unat ver \<le> length (records b)"
  shows "ver < seq b + 1"
proof -
  have "unat (seq b + 1) = Suc (length (records b))"
    using assms unat_u64[of "Suc (length (records b))"] by (simp add: wf_block_def add.commute)
  with assms(3) show ?thesis
    by (simp add: word_less_nat_alt)
qed

lemma cas_write_latest:
  assumes "wf_block b" "cas_write b o1 v expected = (b', Some ver)"
  shows "latest b' = (latest b)(o1 \<mapsto> (ver, v))"
  using latest_snoc[OF cas_write_success(5)[OF assms]] by simp

section \<open>Sequences of writers\<close>

text \<open>Any interleaving of compare-and-swap writes, as the list of their arguments.\<close>

fun cas_run :: "block \<Rightarrow> (u64 \<times> u64 \<times> u64) list \<Rightarrow> block" where
  "cas_run b [] = b"
| "cas_run b ((o1, v, e) # ws) = cas_run (fst (cas_write b o1 v e)) ws"

lemma cas_run_keeps:
  "wf_block b \<Longrightarrow> length (records b) + length ws < 2 ^ 64 - 1 \<Longrightarrow>
     latest_version b o1 > e \<Longrightarrow> wf_block (cas_run b ws) \<and> latest_version (cas_run b ws) o1 > e"
proof (induction ws arbitrary: b)
  case Nil
  then show ?case by simp
next
  case (Cons w ws)
  obtain o2 v e2 where w: "w = (o2, v, e2)" by (cases w)
  let ?b = "fst (cas_write b o2 v e2)"
  have wf: "wf_block ?b"
    using Cons.prems by (intro cas_write_wf) auto
  have "length (records ?b) \<le> Suc (length (records b)) \<and> latest_version ?b o1 > e"
  proof (cases "cas_write b o2 v e2")
    case (Pair b' res)
    show ?thesis
    proof (cases res)
      case None
      with Pair Cons.prems cas_write_fail[of b o2 v e2 b'] show ?thesis by simp
    next
      case (Some ver)
      note ok = Pair[unfolded Some]
      have "latest_version b o1 \<le> ver"
        using latest_version_bound[OF Cons.prems(1), of o1] Cons.prems(1,2)
          seq_exceeds[OF Cons.prems(1), of "latest_version b o1"] cas_write_success(3)[OF Cons.prems(1) ok]
        by (auto simp: latest_version_eq less_imp_le split: option.splits)
      then have "e < latest_version b' o1"
        using Cons.prems(1,3) wf cas_write_latest[OF Cons.prems(1) ok] ok
        by (auto simp: latest_version_eq split: option.splits)
      then show ?thesis
        using cas_write_success[OF Cons.prems(1) ok] Cons.prems ok by simp
    qed
  qed
  then have "wf_block (cas_run ?b ws) \<and> latest_version (cas_run ?b ws) o1 > e"
    using Cons.prems(2) by (intro Cons.IH[OF wf]) auto
  with w show ?case
    by simp
qed

section \<open>Properties\<close>

text \<open>
  the blackboard compare-and-swap. A write succeeds exactly when the block is alive and
  the slot's latest version is the expected one; it then publishes the value under a version
  greater than every version any slot had, leaves the other slots as they were, and reads
  of the slot return it. A failed write changes nothing.
\<close>

theorem cas_write_spec:
  assumes "wf_block b" and "length (records b) < 2 ^ 64 - 1"
  shows "case cas_write b o1 v expected of
      (b', Some ver) \<Rightarrow> \<not> dead b \<and> latest_version b o1 = expected \<and> wf_block b' \<and>
        latest b' = (latest b)(o1 \<mapsto> (ver, v)) \<and> read_latest b' o1 = Some v \<and>
        (\<forall>o2 ver2 v2. latest b o2 = Some (ver2, v2) \<longrightarrow> ver2 < ver)
    | (b', None) \<Rightarrow> b' = b \<and> (dead b \<or> latest_version b o1 \<noteq> expected)"
proof (cases "cas_write b o1 v expected")
  case (Pair b' res)
  show ?thesis
  proof (cases res)
    case None
    with Pair cas_write_fail[of b o1 v expected b'] show ?thesis by simp
  next
    case (Some ver)
    note ok = Pair[unfolded Some]
    have wf: "wf_block b'"
      using cas_write_wf[OF assms, of o1 v expected] ok by simp
    then have "read_latest b' o1 = Some v"
      using cas_write_success[OF assms(1) ok] cas_write_latest[OF assms(1) ok]
      by (simp add: read_latest_eq)
    moreover have "\<forall>o2 ver2 v2. latest b o2 = Some (ver2, v2) \<longrightarrow> ver2 < ver"
      using latest_version_bound[OF assms(1)] seq_exceeds[OF assms] cas_write_success(3)[OF assms(1) ok]
      by blast
    ultimately show ?thesis
      using ok wf cas_write_success[OF assms(1) ok] cas_write_latest[OF assms(1) ok] by simp
  qed
qed

text \<open>
  no lost update. After a write against version \<open>expected\<close> has won, no later write
  against that same version of the slot succeeds, whatever writes to any slots come in
  between.
\<close>

theorem cas_no_lost_update:
  assumes "wf_block b" and "length (records b) + length ws < 2 ^ 64 - 2"
    and "cas_write b o1 v expected = (b', Some ver)"
  shows "cas_write (cas_run b' ws) o1 v' expected = (cas_run b' ws, None)"
proof -
  have wf: "wf_block b'"
    using cas_write_wf[of b o1 v expected] assms by simp
  have "expected < ver"
    using cas_write_success(2,3)[OF assms(1,3)] seq_exceeds[OF assms(1), of expected] assms(1,2)
      latest_version_bound[OF assms(1), of o1]
    by (auto simp: latest_version_eq split: option.splits)
  then have "expected < latest_version b' o1"
    using wf cas_write_latest[OF assms(1,3)] by (simp add: latest_version_eq)
  moreover have "length (records b') + length ws < 2 ^ 64 - 1"
    using cas_write_success(5)[OF assms(1,3)] assms(2) by simp
  ultimately have "expected < latest_version (cas_run b' ws) o1"
    using cas_run_keeps[OF wf] by blast
  then show ?thesis
    by (auto simp: cas_write_def Let_def)
qed

definition demo_block :: block where
  "demo_block = \<lparr>frames = [4096], n_pages = 1, members = [], seq = 1,
     records = [\<lparr>off = 5, val = 40, version = 1, supersedes = 0\<rparr>], dead = False\<rparr>"

lemma demo_block_wf: "wf_block demo_block" "length (records demo_block) = 1"
  by (simp_all add: wf_block_def demo_block_def)

theorem cas_write_spec_witness:
  "\<exists>b' ver. cas_write demo_block 5 41 1 = (b', Some ver) \<and> read_latest b' 5 = Some 41 \<and> 1 < ver"
proof -
  have l: "latest demo_block 5 = Some (1, 40)" and c: "snd (cas_write demo_block 5 41 1) = Some 2"
    by code_simp+
  have "length (records demo_block) < 2 ^ 64 - 1"
    by (simp add: demo_block_wf)
  from cas_write_spec[OF demo_block_wf(1) this, where ?o1.0 = 5 and v = 41 and expected = 1] l c show ?thesis
    by (cases "cas_write demo_block 5 41 1") auto
qed

theorem cas_no_lost_update_witness:
  "cas_write (cas_run (fst (cas_write demo_block 5 41 1)) [(6, 1, 0)]) 5 99 1 =
     (cas_run (fst (cas_write demo_block 5 41 1)) [(6, 1, 0)], None)"
proof -
  have "cas_write demo_block 5 41 1 = (fst (cas_write demo_block 5 41 1), Some 2)"
    by code_simp
  moreover have "length (records demo_block) + length [(6 :: u64, 1 :: u64, 0 :: u64)] < 2 ^ 64 - 2"
    by (simp add: demo_block_wf)
  ultimately show ?thesis
    using cas_no_lost_update[OF demo_block_wf(1)] by blast
qed

end
