(* ===== verification/Dispatch.thy ===== *)
theory Dispatch
  imports Authority_Flow Ipc_Channel Shared_Block
begin

text \<open>
  The numbered, capability-checked syscall dispatcher of \<open>crates/tb-hal/src/caps.rs\<close>, with
  the channel, block, memory and model methods behind it. Kernel objects live in an
  explicit store: an \<open>Rc<Object>\<close> is an object number, an \<open>Rc<Channel>\<close> a channel number
  and an \<open>Rc<Block>\<close> a block number, so that two handles to one object see the same state.
  The memory substrate behind a memory home is reached only through the operations the
  dispatcher calls on it; they are the fields of \<open>mem_ops\<close>, an argument of every
  definition that uses them. \<open>sched_wake_task\<close> appends the woken task to \<open>wakes\<close>.
\<close>

section \<open>Objects and the kernel store\<close>

datatype obj_kind = Agent | ModelSession | MemoryHome | MemoryRecord | Budget | Channel | Skill
  | Namespace | Generic | Block

fun kind_code :: "obj_kind \<Rightarrow> u64" where
  "kind_code Agent = 0"
| "kind_code ModelSession = 1"
| "kind_code MemoryHome = 2"
| "kind_code MemoryRecord = 3"
| "kind_code Budget = 4"
| "kind_code Channel = 5"
| "kind_code Skill = 6"
| "kind_code Namespace = 7"
| "kind_code Generic = 8"
| "kind_code Block = 9"

text \<open>
  A bound inference session: the scheme of its backend and the model number. The in-kernel
  backends are mocks, whose \<open>infer\<close> is an exclusive or with a constant.
\<close>

record model_session =
  backend :: string
  model :: u32

definition invoke :: "model_session \<Rightarrow> u64 \<Rightarrow> u64" where
  "invoke s prompt = prompt XOR 0xA110C0DE"

record 'm kobject =
  kind :: obj_kind
  mem :: "'m option"
  scalar :: u64
  chan :: "(nat \<times> nat) option"
  blk :: "nat option"
  session :: "model_session option"

record 'm kernel =
  objects :: "nat \<Rightarrow> 'm kobject"
  fresh :: nat
  channels :: "nat \<Rightarrow> nat channel"
  blocks :: "nat \<Rightarrow> block"
  cognitive_deny :: bool
  wakes :: "u32 list"

type_synonym table = "nat cap_table"

record 'm mem_ops =
  ms_new :: 'm
  ms_write :: "'m \<Rightarrow> u64 \<Rightarrow> u64 \<Rightarrow> u64 \<Rightarrow> u64 \<Rightarrow> 'm \<times> u64 option"
  ms_write_proc :: "'m \<Rightarrow> u64 \<Rightarrow> u64 \<Rightarrow> u64 \<Rightarrow> u64 \<Rightarrow> 'm \<times> u64 option"
  ms_read_touch :: "'m \<Rightarrow> u64 \<Rightarrow> 'm \<times> u64 option"
  ms_recall :: "'m \<Rightarrow> u64 \<Rightarrow> u64 \<Rightarrow> u64 \<Rightarrow> u64 \<Rightarrow> 'm \<times> u64 option"
  ms_consolidate :: "'m \<Rightarrow> u64 \<Rightarrow> u64 \<Rightarrow> u64 \<Rightarrow> u64 \<Rightarrow> 'm \<times> u64"

definition set_obj :: "'m kernel \<Rightarrow> nat \<Rightarrow> 'm kobject \<Rightarrow> 'm kernel" where
  "set_obj k ob x = k\<lparr>objects := (objects k)(ob := x)\<rparr>"

definition set_mem :: "'m kernel \<Rightarrow> nat \<Rightarrow> 'm \<Rightarrow> 'm kernel" where
  "set_mem k ob s = set_obj k ob ((objects k ob)\<lparr>mem := Some s\<rparr>)"

definition set_chan :: "'m kernel \<Rightarrow> nat \<Rightarrow> nat channel \<Rightarrow> 'm kernel" where
  "set_chan k c x = k\<lparr>channels := (channels k)(c := x)\<rparr>"

definition set_block :: "'m kernel \<Rightarrow> nat \<Rightarrow> block \<Rightarrow> 'm kernel" where
  "set_block k b x = k\<lparr>blocks := (blocks k)(b := x)\<rparr>"

section \<open>System calls\<close>

record syscall_args =
  call_method :: u32
  target :: handle
  arg :: "nat \<Rightarrow> u64"

record sys_return =
  status :: sys_status
  ret_value :: u64

definition sys_ok :: "u64 \<Rightarrow> sys_return" where
  "sys_ok v = \<lparr>status = Ok, ret_value = v\<rparr>"

definition sys_err :: "sys_status \<Rightarrow> sys_return" where
  "sys_err s = \<lparr>status = s, ret_value = 0\<rparr>"

definition sys_status_only :: "sys_status \<Rightarrow> sys_return" where
  "sys_status_only s = \<lparr>status = s, ret_value = 0\<rparr>"

definition M_OBJECT_INSPECT :: u32 where "M_OBJECT_INSPECT = 0"
definition M_HANDLE_DUP :: u32 where "M_HANDLE_DUP = 1"
definition M_HANDLE_NARROW :: u32 where "M_HANDLE_NARROW = 2"
definition M_HANDLE_TRANSFER :: u32 where "M_HANDLE_TRANSFER = 3"
definition M_HANDLE_REVOKE :: u32 where "M_HANDLE_REVOKE = 4"
definition M_HANDLE_CLOSE :: u32 where "M_HANDLE_CLOSE = 5"
definition M_AGENT_SPAWN :: u32 where "M_AGENT_SPAWN = 16"
definition M_MODEL_INVOKE :: u32 where "M_MODEL_INVOKE = 17"
definition M_MEM_WRITE_PROC :: u32 where "M_MEM_WRITE_PROC = 18"
definition M_MEM_RECALL :: u32 where "M_MEM_RECALL = 19"
definition M_MEM_CONSOLIDATE :: u32 where "M_MEM_CONSOLIDATE = 20"
definition M_EMIT_EXTERNAL :: u32 where "M_EMIT_EXTERNAL = 21"
definition M_BUDGET_DELEGATE :: u32 where "M_BUDGET_DELEGATE = 22"
definition M_MEM_WRITE :: u32 where "M_MEM_WRITE = 23"
definition M_MEM_READ :: u32 where "M_MEM_READ = 24"
definition M_CHAN_SEND :: u32 where "M_CHAN_SEND = 25"
definition M_CHAN_RECV :: u32 where "M_CHAN_RECV = 26"
definition M_CHAN_CLOSE :: u32 where "M_CHAN_CLOSE = 27"
definition M_BLOCK_MAP :: u32 where "M_BLOCK_MAP = 28"
definition M_BLOCK_UNMAP :: u32 where "M_BLOCK_UNMAP = 29"
definition M_BLOCK_WRITE :: u32 where "M_BLOCK_WRITE = 30"
definition M_BLOCK_READ :: u32 where "M_BLOCK_READ = 31"
definition M_MODEL_INVOKE_BYTES :: u32 where "M_MODEL_INVOKE_BYTES = 32"

lemmas method_numbers =
  M_OBJECT_INSPECT_def M_HANDLE_DUP_def M_HANDLE_NARROW_def M_HANDLE_TRANSFER_def
  M_HANDLE_REVOKE_def M_HANDLE_CLOSE_def M_AGENT_SPAWN_def M_MODEL_INVOKE_def
  M_MEM_WRITE_PROC_def M_MEM_RECALL_def M_MEM_CONSOLIDATE_def M_EMIT_EXTERNAL_def
  M_BUDGET_DELEGATE_def M_MEM_WRITE_def M_MEM_READ_def M_CHAN_SEND_def M_CHAN_RECV_def
  M_CHAN_CLOSE_def M_BLOCK_MAP_def M_BLOCK_UNMAP_def M_BLOCK_WRITE_def M_BLOCK_READ_def
  M_MODEL_INVOKE_BYTES_def

definition required_right :: "u32 \<Rightarrow> rights option" where
  "required_right m = map_of
    [(M_OBJECT_INSPECT, R_READ),
     (M_HANDLE_DUP, R_DUP),
     (M_HANDLE_NARROW, R_NONE),
     (M_HANDLE_TRANSFER, R_TRANSFER),
     (M_HANDLE_REVOKE, R_REVOKE),
     (M_HANDLE_CLOSE, R_NONE),
     (M_AGENT_SPAWN, R_SPAWN_AGENT),
     (M_MODEL_INVOKE, R_INVOKE_MODEL),
     (M_MEM_WRITE_PROC, R_WRITE_PROCEDURAL),
     (M_MEM_RECALL, R_RECALL),
     (M_MEM_CONSOLIDATE, R_CONSOLIDATE),
     (M_MEM_WRITE, R_WRITE),
     (M_MEM_READ, R_READ),
     (M_CHAN_SEND, R_WRITE),
     (M_CHAN_RECV, R_READ),
     (M_CHAN_CLOSE, R_NONE),
     (M_BLOCK_MAP, R_READ),
     (M_BLOCK_UNMAP, R_REVOKE),
     (M_BLOCK_WRITE, R_WRITE),
     (M_BLOCK_READ, R_READ),
     (M_MODEL_INVOKE_BYTES, R_INVOKE_MODEL),
     (M_EMIT_EXTERNAL, R_EMIT_EXTERNAL),
     (M_BUDGET_DELEGATE, R_DELEGATE_BUDGET)] m"

definition is_cognitive_family :: "u32 \<Rightarrow> bool" where
  "is_cognitive_family m \<longleftrightarrow>
     m = M_MEM_RECALL \<or> m = M_MEM_WRITE_PROC \<or> m = M_MODEL_INVOKE \<or> m = M_MODEL_INVOKE_BYTES"

definition set_cognitive_deny :: "'m kernel \<Rightarrow> bool \<Rightarrow> 'm kernel" where
  "set_cognitive_deny k v = k\<lparr>cognitive_deny := v\<rparr>"

section \<open>Minting\<close>

text \<open>
  \<open>Rc::new(Object \<dots>)\<close> followed by \<open>alloc\<close>: a fresh object number; when the table is full
  the object is dropped and the store is unchanged.
\<close>

definition mint_object ::
  "'m kernel \<Rightarrow> table \<Rightarrow> rights \<Rightarrow> 'm kobject \<Rightarrow> 'm kernel \<times> table \<times> handle option" where
  "mint_object k t r x = (case alloc t r (fresh k) of
     (t', None) \<Rightarrow> (k, t', None)
   | (t', Some h) \<Rightarrow> (set_obj k (fresh k) x\<lparr>fresh := Suc (fresh k)\<rparr>, t', Some h))"

definition mint ::
  "'m kernel \<Rightarrow> table \<Rightarrow> obj_kind \<Rightarrow> rights \<Rightarrow> 'm kernel \<times> table \<times> handle option" where
  "mint k t kd r = mint_object k t r
     \<lparr>kind = kd, mem = None, scalar = 0, chan = None, blk = None, session = None\<rparr>"

definition mint_memory_home ::
  "'m mem_ops \<Rightarrow> 'm kernel \<Rightarrow> table \<Rightarrow> rights \<Rightarrow> 'm kernel \<times> table \<times> handle option" where
  "mint_memory_home ops k t r = mint_object k t r
     \<lparr>kind = MemoryHome, mem = Some (ms_new ops), scalar = 0, chan = None, blk = None, session = None\<rparr>"

definition mint_record ::
  "'m kernel \<Rightarrow> table \<Rightarrow> u64 \<Rightarrow> 'm kernel \<times> table \<times> handle option" where
  "mint_record k t s = mint_object k t R_READ
     \<lparr>kind = MemoryRecord, mem = None, scalar = s, chan = None, blk = None, session = None\<rparr>"

definition mint_channel_endpoint ::
  "'m kernel \<Rightarrow> table \<Rightarrow> rights \<Rightarrow> nat \<Rightarrow> nat \<Rightarrow> 'm kernel \<times> table \<times> handle option" where
  "mint_channel_endpoint k t r c side = mint_object k t r
     \<lparr>kind = Channel, mem = None, scalar = 0, chan = Some (c, side), blk = None, session = None\<rparr>"

definition mint_block ::
  "'m kernel \<Rightarrow> table \<Rightarrow> rights \<Rightarrow> nat \<Rightarrow> 'm kernel \<times> table \<times> handle option" where
  "mint_block k t r b = mint_object k t r
     \<lparr>kind = Block, mem = None, scalar = 0, chan = None, blk = Some b, session = None\<rparr>"

definition mint_model_session ::
  "'m kernel \<Rightarrow> table \<Rightarrow> rights \<Rightarrow> model_session \<Rightarrow> 'm kernel \<times> table \<times> handle option" where
  "mint_model_session k t r sess = mint_object k t r
     \<lparr>kind = ModelSession, mem = None, scalar = 0, chan = None, blk = None, session = Some sess\<rparr>"

definition block_of :: "'m kernel \<Rightarrow> table \<Rightarrow> handle \<Rightarrow> sys_status + rights \<times> nat" where
  "block_of k t h = (case live t h of Inl e \<Rightarrow> Inl e | Inr i \<Rightarrow>
     (case object_at t i of None \<Rightarrow> Inl Stale | Some ob \<Rightarrow>
       (case blk (objects k ob) of
          Some b \<Rightarrow> if dead (blocks k b) then Inl Stale else Inr (rights_at t i, b)
        | None \<Rightarrow> Inl BadCap)))"

definition chan_of :: "'m kernel \<Rightarrow> table \<Rightarrow> handle \<Rightarrow> (nat \<times> nat) option" where
  "chan_of k t ep = (case live t ep of Inl _ \<Rightarrow> None | Inr i \<Rightarrow>
     (case object_at t i of None \<Rightarrow> None | Some ob \<Rightarrow> chan (objects k ob)))"

section \<open>Receiving\<close>

definition chan_recv_body ::
  "'m kernel \<Rightarrow> table \<Rightarrow> handle \<Rightarrow> 'm kernel \<times> table \<times> sys_status \<times> u64 \<times> u64" where
  "chan_recv_body k t ep = (case live t ep of Inl e \<Rightarrow> (k, t, e, 0, 0) | Inr i \<Rightarrow>
     (case object_at t i of None \<Rightarrow> (k, t, Stale, 0, 0) | Some ob \<Rightarrow>
     (case chan (objects k ob) of None \<Rightarrow> (k, t, BadCap, 0, 0) | Some (c, side) \<Rightarrow>
     (case pop_in (channels k c) side of
        (_, None) \<Rightarrow>
          (k, t, if peer_open (channels k c) side then WouldBlock else PeerClosed, 0, 0)
      | (c', Some m) \<Rightarrow>
          (let k' = set_chan k c c' in
           case msg_cap m of
             None \<Rightarrow> (k', t, Ok, payload m, 0)
           | Some pk \<Rightarrow>
               (case attach t pk of
                  (t', Some h) \<Rightarrow> (k', t', Ok, payload m, raw h)
                | (t', None) \<Rightarrow> (k', t', ObjFull, payload m, 0)))))))"

definition chan_recv ::
  "'m kernel \<Rightarrow> table \<Rightarrow> handle \<Rightarrow> 'm kernel \<times> table \<times> sys_status \<times> u64 \<times> u64" where
  "chan_recv k t ep = (case live t ep of Inl e \<Rightarrow> (k, t, e, 0, 0) | Inr i \<Rightarrow>
     if \<not> contains (rights_at t i) R_READ then (k, t, Denied, 0, 0) else chan_recv_body k t ep)"

text \<open>
  The byte-payload receive. \<open>copy_to_user\<close> walks the receiver's page tables; it is a
  parameter that takes the address-space root, the user address and the bytes to the new
  user memory, or to \<open>None\<close> when the copy faults.
\<close>

definition chan_recv_bytes ::
  "('u \<Rightarrow> u64 \<Rightarrow> u64 \<Rightarrow> bytes \<Rightarrow> 'u option) \<Rightarrow> 'm kernel \<Rightarrow> table \<Rightarrow> 'u \<Rightarrow> handle \<Rightarrow> u64 \<Rightarrow> u64 \<Rightarrow>
     nat \<Rightarrow> 'm kernel \<times> table \<times> 'u \<times> sys_status \<times> u64 \<times> u64 \<times> nat" where
  "chan_recv_bytes copy_to_user k t u ep dst_root dst_uva dst_cap =
    (case live t ep of Inl e \<Rightarrow> (k, t, u, e, 0, 0, 0) | Inr i \<Rightarrow>
     if \<not> contains (rights_at t i) R_READ then (k, t, u, Denied, 0, 0, 0) else
     (case object_at t i of None \<Rightarrow> (k, t, u, Stale, 0, 0, 0) | Some ob \<Rightarrow>
     (case chan (objects k ob) of None \<Rightarrow> (k, t, u, BadCap, 0, 0, 0) | Some (c, side) \<Rightarrow>
     (case q (inbox (channels k c) side) of
        [] \<Rightarrow> (k, t, u, if peer_open (channels k c) side then WouldBlock else PeerClosed, 0, 0, 0)
      | m0 # _ \<Rightarrow>
        if byte_len m0 > dst_cap then (k, t, u, Fault, 0, 0, 0) else
        (case pop_in (channels k c) side of
           (_, None) \<Rightarrow> (k, t, u, WouldBlock, 0, 0, 0)
         | (c', Some m) \<Rightarrow>
            (case (case msg_bytes m of
                     Some bs \<Rightarrow> if bs \<noteq> [] then copy_to_user u dst_root dst_uva bs else Some u
                   | None \<Rightarrow> Some u) of
               None \<Rightarrow> (set_chan k c (unpop_in c' side m), t, u, Fault, 0, 0, 0)
             | Some u' \<Rightarrow>
               (let k' = set_chan k c c' in
                case msg_cap m of
                  None \<Rightarrow> (k', t, u', Ok, payload m, 0, byte_len m)
                | Some pk \<Rightarrow>
                   (case attach t pk of
                      (t', Some h) \<Rightarrow> (k', t', u', Ok, payload m, raw h, byte_len m)
                    | (t', None) \<Rightarrow> (k', t', u', ObjFull, payload m, 0, byte_len m)))))))))"

section \<open>Sending\<close>

text \<open>
  The optional carried capability: it must be live, hold TRANSFER, and not be an endpoint of
  the channel it is sent on; only then is it detached.
\<close>

definition detach_carried ::
  "'m kernel \<Rightarrow> table \<Rightarrow> nat \<Rightarrow> u64 \<Rightarrow> table \<times> (sys_status + (nat \<times> rights) option)" where
  "detach_carried k t c cap_raw =
    (if cap_raw = 0 then (t, Inr None) else
     let cap_h = from_raw cap_raw in
     (case live t cap_h of Inl e \<Rightarrow> (t, Inl e) | Inr ci \<Rightarrow>
      if \<not> contains (rights_at t ci) R_TRANSFER then (t, Inl Denied)
      else if (case object_at t ci of None \<Rightarrow> False
               | Some ob \<Rightarrow> (case chan (objects k ob) of None \<Rightarrow> False | Some (c', _) \<Rightarrow> c' = c))
        then (t, Inl Denied)
      else (case detach t cap_h of (t', Inr p) \<Rightarrow> (t', Inr (Some p)) | (t', Inl e) \<Rightarrow> (t', Inl e))))"

text \<open>Enqueue and wake the receiver parked on this ring, if any.\<close>

definition enqueue :: "'m kernel \<Rightarrow> nat \<Rightarrow> nat \<Rightarrow> nat message \<Rightarrow> 'm kernel" where
  "enqueue k c side m = (case take_waiter (push_out (channels k c) side m) side of
     (c', w) \<Rightarrow> (set_chan k c c')\<lparr>wakes := wakes k @ (case w of None \<Rightarrow> [] | Some tk \<Rightarrow> [tk])\<rparr>)"

definition dispatch_chan_send ::
  "'m kernel \<Rightarrow> table \<Rightarrow> nat \<Rightarrow> syscall_args \<Rightarrow> 'm kernel \<times> table \<times> sys_return" where
  "dispatch_chan_send k t i a =
    (case object_at t i of None \<Rightarrow> (k, t, sys_err Stale) | Some ob \<Rightarrow>
     (case chan (objects k ob) of None \<Rightarrow> (k, t, sys_err BadCap) | Some (c, side) \<Rightarrow>
      if \<not> peer_open (channels k c) side then (k, t, sys_err PeerClosed)
      else if ring_full (outbox (channels k c) side) then (k, t, sys_err WouldBlock)
      else (case detach_carried k t c (arg a 1) of
              (t', Inl e) \<Rightarrow> (k, t', sys_err e)
            | (t', Inr pk) \<Rightarrow>
               (enqueue k c side \<lparr>payload = arg a 0, msg_bytes = None, msg_cap = pk\<rparr>, t',
                sys_status_only Ok))))"

text \<open>The byte-payload send; \<open>copy_from_user\<close> is the parameter dual to \<open>copy_to_user\<close>.\<close>

definition chan_send_bytes ::
  "('u \<Rightarrow> u64 \<Rightarrow> u64 \<Rightarrow> nat \<Rightarrow> bytes option) \<Rightarrow> 'm kernel \<Rightarrow> table \<Rightarrow> 'u \<Rightarrow> handle \<Rightarrow> u64 \<Rightarrow> u64 \<Rightarrow>
     u64 \<Rightarrow> u64 \<Rightarrow> nat \<Rightarrow> 'm kernel \<times> table \<times> sys_status" where
  "chan_send_bytes copy_from_user k t u ep pl cap_raw src_root src_uva len =
    (case live t ep of Inl e \<Rightarrow> (k, t, e) | Inr i \<Rightarrow>
     if \<not> contains (rights_at t i) R_WRITE then (k, t, Denied) else
     (case object_at t i of None \<Rightarrow> (k, t, Stale) | Some ob \<Rightarrow>
     (case chan (objects k ob) of None \<Rightarrow> (k, t, BadCap) | Some (c, side) \<Rightarrow>
      if \<not> peer_open (channels k c) side then (k, t, PeerClosed)
      else if ring_full (outbox (channels k c) side) then (k, t, WouldBlock)
      else if len > MAX_PAYLOAD then (k, t, Denied)
      else (case (if len > 0 then copy_from_user u src_root src_uva len else Some (replicate len 0)) of
              None \<Rightarrow> (k, t, Fault)
            | Some buf \<Rightarrow>
               (case detach_carried k t c cap_raw of
                  (t', Inl e) \<Rightarrow> (k, t', e)
                | (t', Inr pk) \<Rightarrow>
                   (enqueue k c side \<lparr>payload = pl, msg_bytes = Some buf, msg_cap = pk\<rparr>, t', Ok))))))"

section \<open>The dispatcher\<close>

definition return_handle ::
  "'m kernel \<Rightarrow> table \<times> handle option \<Rightarrow> 'm kernel \<times> table \<times> sys_return" where
  "return_handle k r = (case r of (t', Some h) \<Rightarrow> (k, t', sys_ok (raw h))
     | (t', None) \<Rightarrow> (k, t', sys_err ObjFull))"

text \<open>The memory methods route to the substrate of the presented memory home.\<close>

definition dispatch_mem_write ::
  "('m \<Rightarrow> u64 \<Rightarrow> u64 \<Rightarrow> u64 \<Rightarrow> u64 \<Rightarrow> 'm \<times> u64 option) \<Rightarrow> 'm kernel \<Rightarrow> table \<Rightarrow> nat \<Rightarrow>
     syscall_args \<Rightarrow> 'm kernel \<times> table \<times> sys_return" where
  "dispatch_mem_write op k t i a =
    (case object_at t i of None \<Rightarrow> (k, t, sys_err Stale) | Some ob \<Rightarrow>
     (case mem (objects k ob) of None \<Rightarrow> (k, t, sys_err BadCap) | Some s \<Rightarrow>
      (case op s (arg a 0) (arg a 1) (arg a 2) (arg a 3) of
         (s', Some v) \<Rightarrow> (set_mem k ob s', t, sys_ok v)
       | (s', None) \<Rightarrow> (set_mem k ob s', t, sys_err NoMem))))"

definition dispatch_mem_read ::
  "'m mem_ops \<Rightarrow> 'm kernel \<Rightarrow> table \<Rightarrow> nat \<Rightarrow> syscall_args \<Rightarrow> 'm kernel \<times> table \<times> sys_return" where
  "dispatch_mem_read ops k t i a =
    (case object_at t i of None \<Rightarrow> (k, t, sys_err Stale) | Some ob \<Rightarrow>
     (case kind (objects k ob) of
        MemoryHome \<Rightarrow>
          (case mem (objects k ob) of None \<Rightarrow> (k, t, sys_err BadCap) | Some s \<Rightarrow>
           (case ms_read_touch ops s (arg a 0) of
              (s', Some v) \<Rightarrow> (set_mem k ob s', t, sys_ok v)
            | (s', None) \<Rightarrow> (set_mem k ob s', t, sys_err BadCap)))
      | MemoryRecord \<Rightarrow> (k, t, sys_ok (scalar (objects k ob)))
      | _ \<Rightarrow> (k, t, sys_err BadCap)))"

definition dispatch_mem_recall ::
  "'m mem_ops \<Rightarrow> 'm kernel \<Rightarrow> table \<Rightarrow> nat \<Rightarrow> syscall_args \<Rightarrow> 'm kernel \<times> table \<times> sys_return" where
  "dispatch_mem_recall ops k t i a =
    (case object_at t i of None \<Rightarrow> (k, t, sys_err Stale) | Some ob \<Rightarrow>
     (case mem (objects k ob) of None \<Rightarrow> (k, t, sys_err BadCap) | Some s \<Rightarrow>
      (case ms_recall ops s (arg a 0) (arg a 1) (arg a 2) (arg a 3) of
         (s', None) \<Rightarrow> (set_mem k ob s', t, sys_err BadCap)
       | (s', Some rid) \<Rightarrow>
          (case mint_record (set_mem k ob s') t rid of
             (k', t', Some h) \<Rightarrow> (k', t', sys_ok (raw h))
           | (k', t', None) \<Rightarrow> (k', t', sys_err ObjFull)))))"

definition dispatch_mem_consolidate ::
  "'m mem_ops \<Rightarrow> 'm kernel \<Rightarrow> table \<Rightarrow> nat \<Rightarrow> syscall_args \<Rightarrow> 'm kernel \<times> table \<times> sys_return" where
  "dispatch_mem_consolidate ops k t i a =
    (case object_at t i of None \<Rightarrow> (k, t, sys_err Stale) | Some ob \<Rightarrow>
     (case mem (objects k ob) of None \<Rightarrow> (k, t, sys_err BadCap) | Some s \<Rightarrow>
      (case ms_consolidate ops s (arg a 0) (arg a 1) (arg a 2) (arg a 3) of
         (s', n) \<Rightarrow> (set_mem k ob s', t, sys_ok n))))"

definition dispatch_chan_recv ::
  "'m kernel \<Rightarrow> table \<Rightarrow> syscall_args \<Rightarrow> 'm kernel \<times> table \<times> sys_return" where
  "dispatch_chan_recv k t a = (case chan_recv_body k t (target a) of
     (k', t', st, _, moved) \<Rightarrow> (k', t', if st = Ok then sys_ok moved else sys_err st))"

definition dispatch_chan_close ::
  "'m kernel \<Rightarrow> table \<Rightarrow> nat \<Rightarrow> 'm kernel \<times> table \<times> sys_return" where
  "dispatch_chan_close k t i =
    (case object_at t i of None \<Rightarrow> (k, t, sys_err Stale) | Some ob \<Rightarrow>
     (case chan (objects k ob) of None \<Rightarrow> (k, t, sys_err BadCap) | Some (c, side) \<Rightarrow>
       (set_chan k c (close_side (channels k c) side), t, sys_status_only Ok)))"

definition dispatch_block_write ::
  "'m kernel \<Rightarrow> table \<Rightarrow> nat \<Rightarrow> syscall_args \<Rightarrow> 'm kernel \<times> table \<times> sys_return" where
  "dispatch_block_write k t i a =
    (case object_at t i of None \<Rightarrow> (k, t, sys_err Stale) | Some ob \<Rightarrow>
     (case blk (objects k ob) of None \<Rightarrow> (k, t, sys_err BadCap) | Some b \<Rightarrow>
      if dead (blocks k b) then (k, t, sys_err Stale)
      else (case cas_write (blocks k b) (arg a 0) (arg a 1) (arg a 2) of
              (b', Some v) \<Rightarrow> (set_block k b b', t, sys_ok v)
            | (b', None) \<Rightarrow> (set_block k b b', t, sys_err WouldBlock))))"

definition dispatch_block_read ::
  "'m kernel \<Rightarrow> table \<Rightarrow> nat \<Rightarrow> syscall_args \<Rightarrow> 'm kernel \<times> table \<times> sys_return" where
  "dispatch_block_read k t i a =
    (case object_at t i of None \<Rightarrow> (k, t, sys_err Stale) | Some ob \<Rightarrow>
     (case blk (objects k ob) of None \<Rightarrow> (k, t, sys_err BadCap) | Some b \<Rightarrow>
      if dead (blocks k b) then (k, t, sys_err Stale)
      else (case read_latest (blocks k b) (arg a 0) of
              Some v \<Rightarrow> (k, t, sys_ok v) | None \<Rightarrow> (k, t, sys_err BadCap))))"

definition dispatch_model_invoke ::
  "'m kernel \<Rightarrow> table \<Rightarrow> nat \<Rightarrow> syscall_args \<Rightarrow> 'm kernel \<times> table \<times> sys_return" where
  "dispatch_model_invoke k t i a =
    (case object_at t i of None \<Rightarrow> (k, t, sys_err Stale) | Some ob \<Rightarrow>
     (case session (objects k ob) of None \<Rightarrow> (k, t, sys_err BadCap)
      | Some s \<Rightarrow> (k, t, sys_ok (invoke s (arg a 0)))))"

definition dispatch_body ::
  "'m mem_ops \<Rightarrow> 'm kernel \<Rightarrow> table \<Rightarrow> nat \<Rightarrow> syscall_args \<Rightarrow> 'm kernel \<times> table \<times> sys_return" where
  "dispatch_body ops k t i a = (let m = call_method a in
     if m = M_OBJECT_INSPECT then
       (k, t, sys_ok (case object_at t i of Some ob \<Rightarrow> kind_code (kind (objects k ob)) | None \<Rightarrow> 0))
     else if m = M_HANDLE_DUP then return_handle k (dup t (target a))
     else if m = M_HANDLE_NARROW then
       return_handle k (narrow t (target a) (from_bits (ucast (arg a 0))))
     else if m = M_HANDLE_REVOKE \<or> m = M_HANDLE_CLOSE then
       (case revoke t (target a) of (t', st) \<Rightarrow> (k, t', sys_status_only st))
     else if m = M_MEM_WRITE then dispatch_mem_write (ms_write ops) k t i a
     else if m = M_MEM_WRITE_PROC then dispatch_mem_write (ms_write_proc ops) k t i a
     else if m = M_MEM_READ then dispatch_mem_read ops k t i a
     else if m = M_MEM_RECALL then dispatch_mem_recall ops k t i a
     else if m = M_MEM_CONSOLIDATE then dispatch_mem_consolidate ops k t i a
     else if m = M_CHAN_SEND then dispatch_chan_send k t i a
     else if m = M_CHAN_RECV then dispatch_chan_recv k t a
     else if m = M_CHAN_CLOSE then dispatch_chan_close k t i
     else if m = M_BLOCK_WRITE then dispatch_block_write k t i a
     else if m = M_BLOCK_READ then dispatch_block_read k t i a
     else if m = M_MODEL_INVOKE then dispatch_model_invoke k t i a
     else (k, t, sys_ok 0))"

definition dispatch ::
  "'m mem_ops \<Rightarrow> 'm kernel \<Rightarrow> table \<Rightarrow> syscall_args \<Rightarrow> 'm kernel \<times> table \<times> sys_return" where
  "dispatch ops k t a =
    (if cognitive_deny k \<and> is_cognitive_family (call_method a) then (k, t, sys_err Denied)
     else (case required_right (call_method a) of None \<Rightarrow> (k, t, sys_err BadMethod) | Some need \<Rightarrow>
       (case live t (target a) of Inl e \<Rightarrow> (k, t, sys_err e) | Inr i \<Rightarrow>
         if \<not> contains (rights_at t i) need then (k, t, sys_err Denied)
         else dispatch_body ops k t i a)))"

end
