(* ===== verification/Dispatch_Props.thy ===== *)
theory Dispatch_Props
  imports Dispatch
begin

text \<open>
  What the dispatcher guarantees: complete mediation (no effect and no success without a
  live capability carrying the required right), authority confinement across every method,
  atomicity of a refused send, and the send/receive round trip of a moved capability.
\<close>

section \<open>The kernel invariant\<close>

definition chan_ok :: "(nat \<rightharpoonup> rights) \<Rightarrow> nat channel \<Rightarrow> bool" where
  "chan_ok A c \<longleftrightarrow> wf_channel c \<and> (\<forall>cp\<in>parked c. allowed A cp)"

definition kernel_ok :: "(nat \<rightharpoonup> rights) \<Rightarrow> 'm kernel \<Rightarrow> bool" where
  "kernel_ok A k \<longleftrightarrow> (\<forall>c. chan_ok A (channels k c)) \<and>
     (\<forall>ob c side. chan (objects k ob) = Some (c, side) \<longrightarrow> side < 2) \<and>
     (\<forall>ob \<in> dom A. ob < fresh k)"

lemma set_simps [simp]:
  "channels (set_mem k ob s) = channels k" "fresh (set_mem k ob s) = fresh k"
  "chan (objects (set_mem k ob s) ob2) = chan (objects k ob2)"
  "blocks (set_mem k ob s) = blocks k" "blocks (set_chan k c y) = blocks k"
  "channels (set_block k b x) = channels k" "fresh (set_block k b x) = fresh k"
  "objects (set_block k b x) = objects k"
  "objects (set_chan k c y) = objects k" "fresh (set_chan k c y) = fresh k"
  "channels (set_chan k c y) = (channels k)(c := y)"
  by (simp_all add: set_mem_def set_obj_def set_block_def set_chan_def)

lemma kernel_ok_set_mem [simp]: "kernel_ok A (set_mem k ob s) = kernel_ok A k"
  by (simp add: kernel_ok_def)

lemma kernel_ok_set_block [simp]: "kernel_ok A (set_block k b x) = kernel_ok A k"
  by (simp add: kernel_ok_def)

lemma kernel_ok_set_chan: "kernel_ok A k \<Longrightarrow> chan_ok A y \<Longrightarrow> kernel_ok A (set_chan k c y)"
  by (simp add: kernel_ok_def)

lemma kernel_ok_chan:
  "kernel_ok A k \<Longrightarrow> chan_ok A (channels k c)"
  "kernel_ok A k \<Longrightarrow> chan (objects k ob) = Some (c, side) \<Longrightarrow> side < 2"
  by (auto simp: kernel_ok_def)

lemma chan_ok_pop_in:
  assumes "chan_ok A c" "side < 2" "pop_in c side = (c', Some m)"
  shows "chan_ok A c'" "\<And>pk. msg_cap m = Some pk \<Longrightarrow> allowed A pk"
  using assms wf_pop_in[of c side] parked_pop_in[of c side c' m] by (auto simp: chan_ok_def)

lemma chan_ok_enqueue:
  assumes "chan_ok A c" "side < 2" "\<not> ring_full (outbox c side)"
    "\<And>pk. msg_cap m = Some pk \<Longrightarrow> allowed A pk"
  shows "chan_ok A (fst (take_waiter (push_out c side m) side))"
  using assms by (auto simp: chan_ok_def parked_push_out wf_push_out wf_take_waiter)

lemma kernel_ok_enqueue:
  assumes "kernel_ok A k" "side < 2" "\<not> ring_full (outbox (channels k c) side)"
    "\<And>pk. msg_cap m = Some pk \<Longrightarrow> allowed A pk"
  shows "kernel_ok A (enqueue k c side m)"
proof -
  have "kernel_ok A (set_chan k c (fst (take_waiter (push_out (channels k c) side m) side)))"
    using assms chan_ok_enqueue kernel_ok_chan(1) by (intro kernel_ok_set_chan) blast+
  then show ?thesis
    by (cases "take_waiter (push_out (channels k c) side m) side")
      (simp add: enqueue_def kernel_ok_def)
qed

lemma detach_carried_ok:
  assumes "table_ok A t" "detach_carried k t c cap_raw = (t', res)"
  shows "table_ok A t'" "res = Inr (Some pk) \<Longrightarrow> allowed A pk"
proof -
  let ?h = "from_raw cap_raw"
  have "table_ok A (fst (detach t ?h))"
    using assms(1) by (rule table_ok_ops)
  with assms show "table_ok A t'"
    by (auto simp: detach_carried_def Let_def split: if_splits sum.splits prod.splits)
  assume "res = Inr (Some pk)"
  with assms(2) have "snd (detach t ?h) = Inr pk"
    by (auto simp: detach_carried_def Let_def split: if_splits sum.splits prod.splits)
  then have "resolve t ?h = Some pk"
    by (cases t ?h rule: handle_cases) (simp_all add: detach_store)
  with assms(1) show "allowed A pk"
    by (rule table_okD(2))
qed

lemma mint_object_ok:
  assumes "kernel_ok A k" "table_ok A t" "mint_object k t r x = (k', t', res)"
    "\<And>c side. chan x = Some (c, side) \<Longrightarrow> side < 2"
  shows "\<exists>A'. A \<subseteq>\<^sub>m A' \<and> (\<forall>ob \<in> dom A' - dom A. A' ob = Some r) \<and> kernel_ok A' k' \<and> table_ok A' t'"
proof (cases "alloc t r (fresh k)")
  case (Pair t2 m)
  have new: "A (fresh k) = None"
    using assms(1) by (auto simp: kernel_ok_def dom_def)
  show ?thesis
  proof (cases m)
    case None
    with Pair assms alloc_None[of t r "fresh k" t2] show ?thesis
      by (intro exI[of _ A]) (auto simp: mint_object_def)
  next
    case (Some h)
    let ?A = "A(fresh k \<mapsto> r)"
    have "table_ok ?A (fst (alloc t r (fresh k)))"
      by (rule table_ok_alloc) (use table_ok_mint new assms(2) in \<open>auto simp: allowed_def bound_def\<close>)
    then have "table_ok ?A t'"
      using Pair Some assms(3) by (auto simp: mint_object_def)
    moreover have "kernel_ok ?A k'"
      using assms(1,3,4) Pair Some new
      by (auto simp: mint_object_def kernel_ok_def chan_ok_def set_obj_def less_Suc_eq
          intro: allowed_mint split: if_splits)
    ultimately show ?thesis
      using new by (intro exI[of _ ?A]) (auto simp: map_le_def dom_def)
  qed
qed

section \<open>Every method keeps authority confined\<close>

text \<open>
  \<open>extends A A' r\<close>: \<open>A'\<close> keeps \<open>A\<close> and may add new objects, minted with exactly the
  rights \<open>r\<close>.
\<close>

definition extends :: "('o \<rightharpoonup> rights) \<Rightarrow> ('o \<rightharpoonup> rights) \<Rightarrow> rights \<Rightarrow> bool" where
  "extends A A' r \<longleftrightarrow> A \<subseteq>\<^sub>m A' \<and> (\<forall>ob \<in> dom A' - dom A. A' ob = Some r)"

lemma extends_refl [simp]: "extends A A r"
  by (simp add: extends_def)

definition confines :: "(nat \<rightharpoonup> rights) \<Rightarrow> 'm kernel \<times> table \<times> 'x \<Rightarrow> bool" where
  "confines A res \<longleftrightarrow> (\<exists>A'. extends A A' R_READ \<and> kernel_ok A' (fst res) \<and> table_ok A' (fst (snd res)))"

lemma confinesI: "kernel_ok A k \<Longrightarrow> table_ok A t \<Longrightarrow> confines A (k, t, x)"
  unfolding confines_def by (rule exI[of _ A]) simp

lemma chan_recv_body_confines:
  assumes "kernel_ok A k" "table_ok A t"
  shows "confines A (chan_recv_body k t ep)"
proof -
  have popped: "kernel_ok A (set_chan k c c')" "\<And>pk. msg_cap m = Some pk \<Longrightarrow> allowed A pk"
    if "chan (objects k ob) = Some (c, side)" "pop_in (channels k c) side = (c', Some m)"
    for ob c side c' m
    using that assms(1) chan_ok_pop_in[of A "channels k c" side c' m] kernel_ok_chan[of A k]
    by (auto intro: kernel_ok_set_chan)
  have "table_ok A (fst (attach t pk))" if "allowed A pk" for pk
    using that assms(2) table_ok_alloc[of A t "fst pk" "snd pk"] by (simp add: attach_def)
  then have attached: "table_ok A t'" if "chan (objects k ob) = Some (c, side)"
    "pop_in (channels k c) side = (c', Some m)" "msg_cap m = Some pk" "attach t pk = (t', x)"
    for ob c side c' m pk t' x
    using that popped(2) by (metis fst_conv)
  show ?thesis
    using assms
    by (auto simp: chan_recv_body_def Let_def split: sum.splits option.splits prod.splits
        intro!: confinesI popped(1) intro: attached)
qed

lemma dispatch_chan_send_confines:
  assumes "kernel_ok A k" "table_ok A t"
  shows "confines A (dispatch_chan_send k t i a)"
proof (cases "object_at t i")
  case None
  with assms show ?thesis by (simp add: dispatch_chan_send_def confinesI)
next
  case (Some ob)
  show ?thesis
  proof (cases "chan (objects k ob)")
    case None
    with Some assms show ?thesis by (simp add: dispatch_chan_send_def confinesI)
  next
    case ch: (Some cs)
    obtain c side where cs: "cs = (c, side)" by (cases cs)
    obtain t' res where d: "detach_carried k t c (arg a 1) = (t', res)"
      by (cases "detach_carried k t c (arg a 1)")
    note ok = detach_carried_ok[OF assms(2) d]
    have side: "side < 2"
      using ch cs assms(1) kernel_ok_chan(2) by blast
    have "kernel_ok A (enqueue k c side \<lparr>payload = pl, msg_bytes = None, msg_cap = pk\<rparr>)"
      if "res = Inr pk" "\<not> ring_full (outbox (channels k c) side)" for pk pl
      using that ok(2) assms(1) side by (intro kernel_ok_enqueue) auto
    with Some ch cs d ok(1) assms show ?thesis
      by (auto simp: dispatch_chan_send_def confinesI split: sum.splits)
  qed
qed

lemma dispatch_mem_recall_confines:
  assumes "kernel_ok A k" "table_ok A t"
  shows "confines A (dispatch_mem_recall ops k t i a)"
proof -
  have "confines A (k', t', x)" if "mint_record (set_mem k ob s) t rid = (k', t', m)"
    for ob s rid k' t' m and x :: sys_return
    using mint_object_ok[of A "set_mem k ob s" t R_READ
        "\<lparr>kind = MemoryRecord, mem = None, scalar = rid, chan = None, blk = None, session = None\<rparr>"
        k' t' m] that assms
    by (auto simp: mint_record_def confines_def extends_def)
  then show ?thesis
    using assms
    by (auto simp: dispatch_mem_recall_def split: option.splits prod.splits intro!: confinesI)
qed

lemma dispatch_chan_close_confines:
  assumes "kernel_ok A k" "table_ok A t"
  shows "confines A (dispatch_chan_close k t i)"
proof -
  have "chan_ok A (close_side (channels k c) side)" for c side
    using kernel_ok_chan(1)[OF assms(1), of c] by (simp add: chan_ok_def wf_close_side)
  then show ?thesis
    using assms
    by (auto simp: dispatch_chan_close_def split: option.splits prod.splits
        intro!: confinesI kernel_ok_set_chan)
qed

lemma dispatch_plain_confines:
  assumes "kernel_ok A k" "table_ok A t"
  shows "confines A (dispatch_mem_write op k t i a)" "confines A (dispatch_mem_read ops k t i a)"
    "confines A (dispatch_mem_consolidate ops k t i a)" "confines A (dispatch_block_write k t i a)"
    "confines A (dispatch_block_read k t i a)" "confines A (dispatch_model_invoke k t i a)"
  using assms
  by (auto simp: dispatch_mem_write_def dispatch_mem_read_def dispatch_mem_consolidate_def
      dispatch_block_write_def dispatch_block_read_def dispatch_model_invoke_def
      split: option.splits prod.splits obj_kind.splits intro!: confinesI)

lemma return_handle_confines:
  assumes "kernel_ok A k" "table_ok A (fst r)"
  shows "confines A (return_handle k r)"
  using assms by (auto simp: return_handle_def confinesI split: prod.splits option.splits)


lemma dispatch_chan_recv_confines:
  assumes "kernel_ok A k" "table_ok A t"
  shows "confines A (dispatch_chan_recv k t a)"
  using chan_recv_body_confines[OF assms, of "target a"]
  by (auto simp: dispatch_chan_recv_def confines_def split: prod.splits)

lemma revoke_confines:
  assumes "kernel_ok A k" "table_ok A t"
  shows "confines A (case revoke t h of (t', st) \<Rightarrow> (k, t', sys_status_only st))"
  using assms by (simp add: revoke_store table_ok_vacate confinesI)

lemmas arm_confines = dispatch_plain_confines dispatch_chan_send_confines dispatch_chan_recv_confines
  dispatch_mem_recall_confines dispatch_chan_close_confines revoke_confines

lemma dispatch_body_confines:
  assumes "kernel_ok A k" "table_ok A t"
  shows "confines A (dispatch_body ops k t i a)"
  unfolding dispatch_body_def Let_def
  by (simp only: arm_confines[OF assms] return_handle_confines[OF assms(1) table_ok_ops(1)[OF assms(2)]]
      return_handle_confines[OF assms(1) table_ok_ops(2)[OF assms(2)]] confinesI[OF assms] if_split simp_thms)

section \<open>The arms on success and on refusal\<close>

lemma set_chan_self [simp]: "set_chan k c (channels k c) = k"
  by (simp add: set_chan_def)

lemma set_chan_twice [simp]: "set_chan (set_chan k c x) c y = set_chan k c y"
  by (simp add: set_chan_def)

lemma detach_carried_Inl: "detach_carried k t c cap_raw = (t', Inl e) \<Longrightarrow> t' = t \<and> e \<noteq> Ok"
  by (auto simp: detach_carried_def detach_store Let_def dest: live_Inl
      split: if_splits sum.splits prod.splits)

lemma detach_carried_Inr:
  assumes "detach_carried k t c cap_raw = (t', Inr pk)" "cap_raw \<noteq> 0"
  shows "\<exists>ob r. resolve t (from_raw cap_raw) = Some (ob, r) \<and> pk = Some (ob, r) \<and>
    contains r R_TRANSFER \<and> t' = vacate t (from_raw cap_raw)"
  using assms
  by (cases t "from_raw cap_raw" rule: handle_cases)
    (auto simp: detach_carried_def detach_store Let_def rights_at_def
      split: if_splits sum.splits prod.splits)

lemma dispatch_chan_send_refused:
  assumes "dispatch_chan_send k t i a = (k', t', res)" "status res \<noteq> Ok"
  shows "k' = k \<and> t' = t"
  using assms
  by (auto simp: dispatch_chan_send_def sys_err_def sys_status_only_def dest: detach_carried_Inl
      split: option.splits prod.splits if_splits sum.splits)

lemma dispatch_send:
  "call_method a = M_CHAN_SEND \<Longrightarrow> dispatch ops k t a =
    (case live t (target a) of Inl e \<Rightarrow> (k, t, sys_err e) | Inr i \<Rightarrow>
       if \<not> contains (rights_at t i) R_WRITE then (k, t, sys_err Denied) else dispatch_chan_send k t i a)"
  by (auto simp: dispatch_def dispatch_body_def is_cognitive_family_def required_right_def
      method_numbers Let_def split: sum.splits)

lemma send_enqueues:
  assumes "dispatch_chan_send k t i a = (k', t', res)" "status res = Ok" "arg a 1 \<noteq> 0"
  shows "\<exists>c side ob r. object_at t i \<noteq> None \<and>
    chan (objects k (the (object_at t i))) = Some (c, side) \<and>
    \<not> ring_full (outbox (channels k c) side) \<and>
    resolve t (from_raw (arg a 1)) = Some (ob, r) \<and> contains r R_TRANSFER \<and>
    t' = vacate t (from_raw (arg a 1)) \<and>
    k' = enqueue k c side \<lparr>payload = arg a 0, msg_bytes = None, msg_cap = Some (ob, r)\<rparr>"
  using assms
  by (auto simp: dispatch_chan_send_def sys_err_def sys_status_only_def
      split: option.splits prod.splits if_splits sum.splits
      dest: detach_carried_Inl detach_carried_Inr)

lemma enqueue_objects [simp]: "objects (enqueue k c side m) = objects k"
  by (simp add: enqueue_def split: prod.splits)

lemma enqueue_channel:
  assumes "wf_channel (channels k c)" "side < 2" "\<not> ring_full (outbox (channels k c) side)"
  shows "wf_channel (channels (enqueue k c side m) c)"
    "q (inbox (channels (enqueue k c side m) c) (1 - side)) = q (outbox (channels k c) side) @ [m]"
proof -
  have frame: "dir (fst (take_waiter d r)) = dir d" for d :: "nat channel" and r
    by (simp add: take_waiter_def Let_def)
  have ch: "channels (enqueue k c side m) c = fst (take_waiter (push_out (channels k c) side m) side)"
    by (simp add: enqueue_def split: prod.splits)
  show "wf_channel (channels (enqueue k c side m) c)"
    unfolding ch using assms by (intro wf_take_waiter wf_push_out)
  show "q (inbox (channels (enqueue k c side m) c) (1 - side)) = q (outbox (channels k c) side) @ [m]"
    using push_out_boxes(1)[OF assms(1,2), of m] assms(2)
    unfolding ch by (auto simp: frame inbox_def outbox_def dest: side_cases)
qed

text \<open>Receiving a head message that carries a capability, when the table has room.\<close>

lemma chan_recv_attaches:
  assumes "wf_table t" "resolve t ep = Some (ob, r)" "contains r R_READ"
    and "chan (objects k ob) = Some (c, side)" "q (inbox (channels k c) side) = m # ms"
    and "msg_cap m = Some (ob2, r2)" "alloc t r2 ob2 = (t', Some h)"
  shows "\<exists>k'. chan_recv k t ep = (k', t', Ok, payload m, raw h)"
proof -
  from assms(2) obtain i where i: "live t ep = Inr i"
    by (cases t ep rule: handle_cases) auto
  note at = rights_at_store[OF i assms(2)] object_at_store[OF i assms(2)]
  show ?thesis
    using assms(3-7) at i
    by (simp add: chan_recv_def chan_recv_body_def pop_in_def attach_def Let_def)
qed

section \<open>Properties of the dispatcher\<close>

text \<open>
  C2: Complete mediation. If a system call changes anything or answers Ok, then its method
  is one of the closed set, it is not a cognitive method under a cognitive deny, and the
  presented handle resolves to a capability whose rights contain the method's required right.
\<close>

theorem dispatch_mediated:
  assumes "dispatch ops k t a = (k', t', res)" "k' \<noteq> k \<or> t' \<noteq> t \<or> status res = Ok"
  shows "\<exists>need ob r. required_right (call_method a) = Some need \<and>
    resolve t (target a) = Some (ob, r) \<and> contains r need \<and>
    \<not> (cognitive_deny k \<and> is_cognitive_family (call_method a))"
proof -
  from assms obtain need i where "required_right (call_method a) = Some need" "live t (target a) = Inr i"
    "contains (rights_at t i) need" "\<not> (cognitive_deny k \<and> is_cognitive_family (call_method a))"
    by (auto simp: dispatch_def sys_err_def dest: live_Inl
        split: if_splits option.splits sum.splits)
  then show ?thesis
    by (cases t "target a" rule: handle_cases) (auto simp: rights_at_def)
qed


text \<open>
  C15: A send is all-or-nothing. A CHAN_SEND that does not answer Ok leaves every channel, the
  sender's capability table and the rest of the kernel exactly as they were; in particular
  the capability to be moved is still held.
\<close>

theorem send_all_or_nothing:
  assumes "call_method a = M_CHAN_SEND" "dispatch ops k t a = (k', t', res)" "status res \<noteq> Ok"
  shows "k' = k \<and> t' = t"
  using assms dispatch_chan_send_refused[of k t _ a]
  by (auto simp: dispatch_send split: sum.splits if_splits)

text \<open>
  C14: A capability sent over a channel moves. When a CHAN_SEND carrying a capability succeeds,
  the sender's handle is spent, and when the other end then receives that message, it gets a
  fresh handle for the same object with the same rights, with the payload sent; messages
  queued before it would be received first.
\<close>

theorem sent_capability_moves:
  assumes "kernel_ok A k" "wf_table ts" "wf_table td" "call_method a = M_CHAN_SEND" "arg a 1 \<noteq> 0"
    and "dispatch ops k ts a = (k', ts', res)" "status res = Ok"
    and "resolve ts (target a) = Some (obs, rs)" "chan (objects k obs) = Some (c, side)"
    and "resolve td ep = Some (obd, rd)" "contains rd R_READ" "chan (objects k obd) = Some (c, 1 - side)"
    and "q (outbox (channels k c) side) = []" "length (slots td) < cap td"
  shows "spent ts' (from_raw (arg a 1)) \<and> (\<exists>k'' td' h. chan_recv k' td ep = (k'', td', Ok, arg a 0, raw h) \<and>
    resolve td h = None \<and> resolve td' h = resolve ts (from_raw (arg a 1)))"
proof -
  obtain i where i: "live ts (target a) = Inr i"
    using assms(8) by (cases ts "target a" rule: handle_cases) auto
  have send: "dispatch_chan_send k ts i a = (k', ts', res)"
    using assms(4,6,7) i by (auto simp: dispatch_send sys_err_def split: if_splits)
  obtain ob r where ob: "resolve ts (from_raw (arg a 1)) = Some (ob, r)"
    "ts' = vacate ts (from_raw (arg a 1))" "\<not> ring_full (outbox (channels k c) side)"
    "k' = enqueue k c side \<lparr>payload = arg a 0, msg_bytes = None, msg_cap = Some (ob, r)\<rparr>"
    using send_enqueues[OF send assms(7,5)] object_at_store[OF i assms(8)] assms(9) by auto
  have wf: "wf_channel (channels k c)" "side < 2"
    using kernel_ok_chan[OF assms(1)] assms(9) by (auto simp: chan_ok_def)
  obtain td' h where td': "alloc td r ob = (td', Some h)"
    using alloc_succeeds_iff[of td r ob] assms(14) by (cases "alloc td r ob") auto
  have "\<exists>k''. chan_recv k' td ep = (k'', td', Ok, arg a 0, raw h)"
    using chan_recv_attaches[OF assms(3,10,11), where c = c and side = "1 - side" and k = k' and ms = "[]"
        and m = "\<lparr>payload = arg a 0, msg_bytes = None, msg_cap = Some (ob, r)\<rparr>"]
      assms(12,13) enqueue_channel(2)[OF wf ob(3)] ob(4) td' by simp
  then show ?thesis
    using ob(1,2) ct.grant_new[OF assms(3) td'] ct.vacate_spends[OF assms(2), of "from_raw (arg a 1)"] by auto
qed


text \<open>
  C18: What a full table does to a receive. When the receiver's capability table is full, a
  message that carries a capability is still taken off the ring: the receive answers ObjFull,
  the table is unchanged, the queue is one message shorter, and no handle is given out.
\<close>

theorem recv_full_table_drops:
  assumes "kernel_ok A k" "resolve t ep = Some (ob, r)" "contains r R_READ"
    and "chan (objects k ob) = Some (c, side)" "q (inbox (channels k c) side) = m # ms"
    and "msg_cap m = Some pk" "free t = []" "cap t \<le> length (slots t)"
  shows "\<exists>k'. chan_recv k t ep = (k', t, ObjFull, payload m, 0) \<and> q (inbox (channels k' c) side) = ms"
proof -
  from assms(2) obtain i where i: "live t ep = Inr i"
    by (cases t ep rule: handle_cases) auto
  note at = rights_at_store[OF i assms(2)] object_at_store[OF i assms(2)]
  obtain c' where c': "pop_in (channels k c) side = (c', Some m)"
    using assms(5) by (simp add: pop_in_def)
  have wf: "wf_channel (channels k c)" "side < 2"
    using kernel_ok_chan[OF assms(1)] assms(4) by (auto simp: chan_ok_def)
  have "alloc t (snd pk) (fst pk) = (t, None)"
    using assms(7,8) by (simp add: alloc_def)
  then show ?thesis
    using assms(3-6) at i c' pop_in_Some(1)[OF wf c']
    by (simp add: chan_recv_def chan_recv_body_def attach_def Let_def)
qed

section \<open>A concrete kernel\<close>

text \<open>
  Two principals on the ends of channel 0; the sender also holds an agent object. The memory
  methods are not exercised, so the substrate operations answer nothing.
\<close>

definition demo_ops :: "unit mem_ops" where
  "demo_ops = \<lparr>ms_new = (), ms_write = \<lambda>s _ _ _ _. (s, None), ms_write_proc = \<lambda>s _ _ _ _. (s, None),
     ms_read_touch = \<lambda>s _. (s, None), ms_recall = \<lambda>s _ _ _ _. (s, None),
     ms_consolidate = \<lambda>s _ _ _ _. (s, 0)\<rparr>"

definition demo_endpoint :: "nat \<Rightarrow> unit kobject" where
  "demo_endpoint s = \<lparr>kind = Channel, mem = None, scalar = 0, chan = Some (0, s), blk = None, session = None\<rparr>"

definition demo_agent :: "unit kobject" where
  "demo_agent = \<lparr>kind = Agent, mem = None, scalar = 0, chan = None, blk = None, session = None\<rparr>"

definition demo_kernel :: "unit kernel" where
  "demo_kernel = \<lparr>objects = (\<lambda>ob. if ob = 0 then demo_endpoint 0 else if ob = 1 then demo_endpoint 1 else demo_agent),
     fresh = 3, channels = \<lambda>_. chan_create 2, blocks = \<lambda>_. demo_block, cognitive_deny = False, wakes = []\<rparr>"

definition demo_auth :: "nat \<rightharpoonup> rights" where
  "demo_auth = (\<lambda>ob. if ob < 3 then Some (Rights (- 1)) else None)"

definition demo_sender :: "table" where
  "demo_sender = fst (alloc (fst (alloc (with_capacity 4) (Rights (- 1)) 0)) (Rights (- 1)) 2)"

definition demo_receiver :: "nat \<Rightarrow> table" where
  "demo_receiver n = fst (alloc (with_capacity n) (Rights (- 1)) 1)"

definition demo_send :: syscall_args where
  "demo_send = \<lparr>call_method = M_CHAN_SEND, target = handle_new 1 0,
     arg = \<lambda>n. if n = 0 then 77 else if n = 1 then raw (handle_new 1 1) else 0\<rparr>"

definition demo_sent :: "unit kernel" where
  "demo_sent = enqueue demo_kernel 0 0 \<lparr>payload = 77, msg_bytes = None, msg_cap = Some (2, Rights (- 1))\<rparr>"

lemma demo_ok: "kernel_ok demo_auth demo_kernel" "table_ok demo_auth demo_sender"
  "n \<le> 2 ^ 32 \<Longrightarrow> table_ok demo_auth (demo_receiver n)"
proof -
  have a: "allowed demo_auth (ob, Rights (- 1))" if "ob < 3" for ob
    using that by (simp add: allowed_def bound_def demo_auth_def dom_def)
  have t: "n \<le> 2 ^ 32 \<Longrightarrow> table_ok demo_auth (with_capacity n)" for n
    by (simp add: table_ok_def wf_with_capacity)
  show "table_ok demo_auth demo_sender" "n \<le> 2 ^ 32 \<Longrightarrow> table_ok demo_auth (demo_receiver n)"
    unfolding demo_sender_def demo_receiver_def by (intro table_ok_alloc a t; simp)+
  show "kernel_ok demo_auth demo_kernel"
    by (auto simp: kernel_ok_def chan_ok_def demo_kernel_def wf_chan_create demo_endpoint_def
        demo_agent_def demo_auth_def split: if_splits)
qed

lemma demo_sent_ok: "kernel_ok demo_auth demo_sent"
proof -
  have "\<not> ring_full (outbox (channels demo_kernel 0) 0)"
    by code_simp
  moreover have "allowed demo_auth (2, Rights (- 1))"
    by (simp add: allowed_def bound_def demo_auth_def dom_def)
  ultimately show ?thesis
    unfolding demo_sent_def by (intro kernel_ok_enqueue[OF demo_ok(1)]) simp_all
qed

lemma demo_send_succeeds: "status (snd (snd (dispatch demo_ops demo_kernel demo_sender demo_send))) = Ok"
  by code_simp

theorem dispatch_mediated_witness:
  "\<exists>need ob r. required_right M_CHAN_SEND = Some need \<and>
    resolve demo_sender (handle_new 1 0) = Some (ob, r) \<and> contains r need"
proof -
  obtain k' t' res where d: "dispatch demo_ops demo_kernel demo_sender demo_send = (k', t', res)"
    by (cases "dispatch demo_ops demo_kernel demo_sender demo_send")
  then have "status res = Ok"
    using demo_send_succeeds by simp
  with dispatch_mediated[OF d] show ?thesis
    by (auto simp: demo_send_def)
qed


definition demo_self_send :: syscall_args where
  "demo_self_send = demo_send\<lparr>arg := \<lambda>n. raw (handle_new 1 0)\<rparr>"

theorem send_all_or_nothing_witness:
  "status (snd (snd (dispatch demo_ops demo_kernel demo_sender demo_self_send))) = Denied \<and>
   fst (snd (dispatch demo_ops demo_kernel demo_sender demo_self_send)) = demo_sender"
proof -
  have d: "status (snd (snd (dispatch demo_ops demo_kernel demo_sender demo_self_send))) = Denied"
    by code_simp
  moreover have "call_method demo_self_send = M_CHAN_SEND"
    by (simp add: demo_self_send_def demo_send_def)
  ultimately show ?thesis
    using send_all_or_nothing[of demo_self_send demo_ops demo_kernel demo_sender]
    by (cases "dispatch demo_ops demo_kernel demo_sender demo_self_send") auto
qed

lemma demo_handles:
  "resolve demo_sender (handle_new 1 0) = Some (0, Rights (- 1))"
  "resolve demo_sender (handle_new 1 1) = Some (2, Rights (- 1))"
  "resolve (demo_receiver 4) (handle_new 1 0) = Some (1, Rights (- 1))"
  "resolve (demo_receiver 1) (handle_new 1 0) = Some (1, Rights (- 1))"
  "contains (Rights (- 1)) R_READ"
  by code_simp+

theorem sent_capability_moves_witness:
  "\<exists>k'' td' h. chan_recv (fst (dispatch demo_ops demo_kernel demo_sender demo_send)) (demo_receiver 4)
     (handle_new 1 0) = (k'', td', Ok, 77, raw h) \<and> resolve td' h = Some (2, Rights (- 1))"
proof -
  obtain k' t' res where d: "dispatch demo_ops demo_kernel demo_sender demo_send = (k', t', res)"
    by (cases "dispatch demo_ops demo_kernel demo_sender demo_send")
  have chans: "chan (objects demo_kernel 0) = Some (0, 0)" "chan (objects demo_kernel 1) = Some (0, 1 - 0)"
    "q (outbox (channels demo_kernel 0) 0) = []" "length (slots (demo_receiver 4)) < cap (demo_receiver 4)"
    by code_simp+
  have args: "arg demo_send 0 = 77" "arg demo_send 1 = raw (handle_new 1 1)" "raw (handle_new 1 1) \<noteq> 0"
    "call_method demo_send = M_CHAN_SEND" "target demo_send = handle_new 1 0"
    by (simp_all add: demo_send_def handle_new_def)
  have "status res = Ok" "wf_table demo_sender" "wf_table (demo_receiver 4)"
    using demo_send_succeeds d demo_ok(2) demo_ok(3)[of 4] by (auto dest: table_okD(1))
  then show ?thesis
    using sent_capability_moves[OF demo_ok(1), of demo_sender "demo_receiver 4" demo_send demo_ops k' t' res
        0 "Rights (- 1)" 0 0 "handle_new 1 0" 1 "Rights (- 1)"] d chans args demo_handles
    by (auto simp: from_raw_def)
qed


theorem recv_full_table_drops_witness:
  "\<exists>k'. chan_recv demo_sent (demo_receiver 1) (handle_new 1 0) = (k', demo_receiver 1, ObjFull, 77, 0)"
proof -
  have "chan (objects demo_sent 1) = Some (0, 1)" "free (demo_receiver 1) = []"
    "cap (demo_receiver 1) \<le> length (slots (demo_receiver 1))"
    "q (inbox (channels demo_sent 0) 1) =
       \<lparr>payload = 77, msg_bytes = None, msg_cap = Some (2, Rights (- 1))\<rparr> # []"
    by code_simp+
  from recv_full_table_drops[OF demo_sent_ok demo_handles(4,5) this(1,4) _ this(2,3)] show ?thesis
    by auto
qed

end
