(* ===== verification/Abi_Registry.thy ===== *)
theory Abi_Registry
  imports Dispatch_Props
begin

text \<open>
  The frozen ABI registry of \<open>crates/tb-encode/src/abi.rs\<close> and the boot cross-check of it
  against the live dispatcher, \<open>abi_registry_selfcheck\<close> in \<open>crates/tb-hal/src/caps.rs\<close>. The
  body of the check is a function of the three live lookups, so that what it detects can be
  stated for any dispatcher surface.
\<close>

section \<open>The frozen registry\<close>

record abi_version =
  cap_major :: "16 word"
  cap_minor :: "16 word"
  wire :: u8

definition YUVA_ABI_VERSION :: abi_version where
  "YUVA_ABI_VERSION = \<lparr>cap_major = 1, cap_minor = 0, wire = 1\<rparr>"

definition PLANES :: u8 where "PLANES = 2"

definition FROZEN_METHODS :: "(u32 \<times> string \<times> u32) list" where
  "FROZEN_METHODS = [
    (0, ''M_OBJECT_INSPECT'', 1),
    (1, ''M_HANDLE_DUP'', 8),
    (2, ''M_HANDLE_NARROW'', 0),
    (3, ''M_HANDLE_TRANSFER'', 4),
    (4, ''M_HANDLE_REVOKE'', 16),
    (5, ''M_HANDLE_CLOSE'', 0),
    (16, ''M_AGENT_SPAWN'', 64),
    (17, ''M_MODEL_INVOKE'', 32),
    (18, ''M_MEM_WRITE_PROC'', 128),
    (19, ''M_MEM_RECALL'', 256),
    (20, ''M_MEM_CONSOLIDATE'', 512),
    (21, ''M_EMIT_EXTERNAL'', 1024),
    (22, ''M_BUDGET_DELEGATE'', 2048),
    (23, ''M_MEM_WRITE'', 2),
    (24, ''M_MEM_READ'', 1),
    (25, ''M_CHAN_SEND'', 2),
    (26, ''M_CHAN_RECV'', 1),
    (27, ''M_CHAN_CLOSE'', 0),
    (28, ''M_BLOCK_MAP'', 1),
    (29, ''M_BLOCK_UNMAP'', 16),
    (30, ''M_BLOCK_WRITE'', 2),
    (31, ''M_BLOCK_READ'', 1),
    (32, ''M_MODEL_INVOKE_BYTES'', 32)]"

definition METHOD_CEILING :: u32 where "METHOD_CEILING = 32"

definition FROZEN_RIGHTS :: "(u32 \<times> string) list" where
  "FROZEN_RIGHTS = [
    (0, ''NONE''), (1, ''READ''), (2, ''WRITE''), (4, ''TRANSFER''), (8, ''DUP''), (16, ''REVOKE''),
    (32, ''INVOKE_MODEL''), (64, ''SPAWN_AGENT''), (128, ''WRITE_PROCEDURAL''), (256, ''RECALL''),
    (512, ''CONSOLIDATE''), (1024, ''EMIT_EXTERNAL''), (2048, ''DELEGATE_BUDGET''),
    (4096, ''APPROVE_HIGH_IMPACT'')]"

definition FROZEN_WIRE_MAGICS :: "(16 word \<times> string) list" where
  "FROZEN_WIRE_MAGICS = [(0x5956, ''MAGIC_OPFRAME''), (0x5957, ''MAGIC_OPFRAME_RX''),
    (0x5958, ''MAGIC_INFERWIRE''), (0x5959, ''MAGIC_ATTEST'')]"

definition FROZEN_DOMSEP :: "string list" where
  "FROZEN_DOMSEP = [''YUVA-OPCMD-KDF-V1'', ''YUVA-KEY-EVOLVE-V1'', ''YUVA-M30-ECHO-V1'',
    ''YUVA-M31-INFER-V1'', ''YUVA-M33-ATTEST-V1'']"

definition FROZEN_ORGANS :: "(u8 \<times> string) list" where
  "FROZEN_ORGANS = [(0, ''RetrievalOverMemory''), (1, ''LocalM32''), (2, ''ExternalMock'')]"

definition EXPECT_OK :: u8 where "EXPECT_OK = 0"
definition EXPECT_DENIED :: u8 where "EXPECT_DENIED = 1"
definition EXPECT_BADMETHOD :: u8 where "EXPECT_BADMETHOD = 2"

definition CONFORMANCE_CAP_VECTORS :: "(u32 \<times> u32 \<times> u8) list" where
  "CONFORMANCE_CAP_VECTORS = [(0, 1, EXPECT_OK), (21, 1, EXPECT_DENIED), (18, 1, EXPECT_DENIED),
    (16, 1, EXPECT_DENIED), (0xDEAD, 0x1FFF, EXPECT_BADMETHOD)]"

section \<open>The live lookups and the self-check\<close>

definition live_method_id :: "string \<Rightarrow> u32 option" where
  "live_method_id name = map_of [
    (''M_OBJECT_INSPECT'', M_OBJECT_INSPECT),
    (''M_HANDLE_DUP'', M_HANDLE_DUP),
    (''M_HANDLE_NARROW'', M_HANDLE_NARROW),
    (''M_HANDLE_TRANSFER'', M_HANDLE_TRANSFER),
    (''M_HANDLE_REVOKE'', M_HANDLE_REVOKE),
    (''M_HANDLE_CLOSE'', M_HANDLE_CLOSE),
    (''M_AGENT_SPAWN'', M_AGENT_SPAWN),
    (''M_MODEL_INVOKE'', M_MODEL_INVOKE),
    (''M_MEM_WRITE_PROC'', M_MEM_WRITE_PROC),
    (''M_MEM_RECALL'', M_MEM_RECALL),
    (''M_MEM_CONSOLIDATE'', M_MEM_CONSOLIDATE),
    (''M_EMIT_EXTERNAL'', M_EMIT_EXTERNAL),
    (''M_BUDGET_DELEGATE'', M_BUDGET_DELEGATE),
    (''M_MEM_WRITE'', M_MEM_WRITE),
    (''M_MEM_READ'', M_MEM_READ),
    (''M_CHAN_SEND'', M_CHAN_SEND),
    (''M_CHAN_RECV'', M_CHAN_RECV),
    (''M_CHAN_CLOSE'', M_CHAN_CLOSE),
    (''M_BLOCK_MAP'', M_BLOCK_MAP),
    (''M_BLOCK_UNMAP'', M_BLOCK_UNMAP),
    (''M_BLOCK_WRITE'', M_BLOCK_WRITE),
    (''M_BLOCK_READ'', M_BLOCK_READ),
    (''M_MODEL_INVOKE_BYTES'', M_MODEL_INVOKE_BYTES)] name"

definition live_right_bits :: "string \<Rightarrow> u32 option" where
  "live_right_bits name = map_of [
    (''NONE'', bits R_NONE), (''READ'', bits R_READ), (''WRITE'', bits R_WRITE),
    (''TRANSFER'', bits R_TRANSFER), (''DUP'', bits R_DUP), (''REVOKE'', bits R_REVOKE),
    (''INVOKE_MODEL'', bits R_INVOKE_MODEL), (''SPAWN_AGENT'', bits R_SPAWN_AGENT),
    (''WRITE_PROCEDURAL'', bits R_WRITE_PROCEDURAL), (''RECALL'', bits R_RECALL),
    (''CONSOLIDATE'', bits R_CONSOLIDATE), (''EMIT_EXTERNAL'', bits R_EMIT_EXTERNAL),
    (''DELEGATE_BUDGET'', bits R_DELEGATE_BUDGET), (''APPROVE_HIGH_IMPACT'', bits R_APPROVE_HIGH_IMPACT)] name"

datatype abi_selfcheck = CheckOk u32 | MethodIdDrift u32 | RequiredRightDrift u32 | CeilingDrift u32
  | MethodCountDrift u32 | RightsBitDrift u32 | CeilingOpen u32

text \<open>The first loop: a drift, or the largest frozen id.\<close>

fun check_methods :: "(string \<Rightarrow> u32 option) \<Rightarrow> (u32 \<Rightarrow> rights option) \<Rightarrow>
    (u32 \<times> string \<times> u32) list \<Rightarrow> u32 \<Rightarrow> abi_selfcheck + u32" where
  "check_methods lm rr [] max_id = Inr max_id"
| "check_methods lm rr ((mid, name, bts) # rows) max_id =
     (if lm name \<noteq> Some mid then Inl (MethodIdDrift mid)
      else if map_option bits (rr mid) \<noteq> Some bts then Inl (RequiredRightDrift mid)
      else check_methods lm rr rows (if mid > max_id then mid else max_id))"

fun check_rights :: "(string \<Rightarrow> u32 option) \<Rightarrow> (u32 \<times> string) list \<Rightarrow> abi_selfcheck option" where
  "check_rights rb [] = None"
| "check_rights rb ((fbits, rname) # rows) =
     (if rb rname \<noteq> Some fbits then Some (RightsBitDrift fbits) else check_rights rb rows)"

definition selfcheck_on :: "(string \<Rightarrow> u32 option) \<Rightarrow> (u32 \<Rightarrow> rights option) \<Rightarrow>
    (string \<Rightarrow> u32 option) \<Rightarrow> abi_selfcheck" where
  "selfcheck_on lm rr rb = (case check_methods lm rr FROZEN_METHODS 0 of Inl d \<Rightarrow> d | Inr max_id \<Rightarrow>
     if max_id \<noteq> METHOD_CEILING then CeilingDrift max_id else
     let live_count = word_of_nat (length (filter (\<lambda>m. rr (word_of_nat m) \<noteq> None)
           [0..<unat METHOD_CEILING + 1])) in
     if live_count \<noteq> word_of_nat (length FROZEN_METHODS) then MethodCountDrift live_count else
     (case find (\<lambda>m. rr (word_of_nat m) \<noteq> None) [unat METHOD_CEILING + 1..<unat METHOD_CEILING + 17] of
        Some over \<Rightarrow> CeilingOpen (word_of_nat over)
      | None \<Rightarrow>
         (case check_rights rb FROZEN_RIGHTS of Some d \<Rightarrow> d
          | None \<Rightarrow> CheckOk (word_of_nat (length FROZEN_METHODS)))))"

definition abi_registry_selfcheck :: abi_selfcheck where
  "abi_registry_selfcheck = selfcheck_on live_method_id required_right live_right_bits"

section \<open>What the self-check detects\<close>

lemma check_methods_Inr:
  "check_methods lm rr rows mx = Inr r \<longleftrightarrow>
     (\<forall>(mid, name, bts)\<in>set rows. lm name = Some mid \<and> map_option bits (rr mid) = Some bts) \<and>
     r = fold max (map fst rows) mx"
  by (induction rows arbitrary: mx) (auto simp: max_def split: if_splits)

lemma check_rights_None:
  "check_rights rb rows = None \<longleftrightarrow> (\<forall>(fbits, rname)\<in>set rows. rb rname = Some fbits)"
  by (induction rows) (auto split: if_splits)

lemma check_rights_not_ok: "check_rights rb rows \<noteq> Some (CheckOk n)"
  by (induction rows) (auto split: if_splits)

definition frozen_index :: "nat list" where
  "frozen_index = [0..<6] @ [16..<33]"

lemma frozen_index_below: "i \<in> set frozen_index \<Longrightarrow> i < 33"
  by (auto simp: frozen_index_def)

lemma frozen_facts:
  "fold max (map fst FROZEN_METHODS) 0 = METHOD_CEILING" "length FROZEN_METHODS = 23"
  "map fst FROZEN_METHODS = map word_of_nat frozen_index"
  by (code_simp, code_simp, code_simp)

text \<open>
  The boot cross-check passes. On the live method numbers, required rights and right bits, the
  self-check answers Ok with the 23 registered methods.
\<close>

theorem abi_selfcheck_passes: "abi_registry_selfcheck = CheckOk 23"
  by code_simp

definition conforms :: "(string \<Rightarrow> u32 option) \<Rightarrow> (u32 \<Rightarrow> rights option) \<Rightarrow> (string \<Rightarrow> u32 option) \<Rightarrow> bool" where
  "conforms lm rr rb \<longleftrightarrow>
     (\<forall>(mid, name, bts)\<in>set FROZEN_METHODS. lm name = Some mid \<and> map_option bits (rr mid) = Some bts) \<and>
     (\<forall>m\<le>48. rr m \<noteq> None \<longrightarrow> m \<in> fst ` set FROZEN_METHODS) \<and>
     (\<forall>(fbits, rname)\<in>set FROZEN_RIGHTS. rb rname = Some fbits)"

text \<open>With all frozen methods live, the count over the ceiling is 23 exactly when no other is.\<close>

lemma live_count_iff:
  assumes "\<forall>m\<in>set frozen_index. P m"
  shows "length (filter P [0..<33]) = 23 \<longleftrightarrow> (\<forall>m<33. P m \<longrightarrow> m \<in> set frozen_index)"
proof -
  define L where "L = set frozen_index"
  define S where "S = set (filter P [0..<33])"
  have "length (filter P [0..<33]) = card S"
    unfolding S_def by (rule distinct_card[symmetric]) simp
  moreover have "card L = 23" "finite S" "L \<subseteq> S"
    using assms frozen_index_below by (auto simp: L_def S_def) (simp add: frozen_index_def card_Un_disjoint)
  ultimately have "length (filter P [0..<33]) = 23 \<longleftrightarrow> S \<subseteq> L"
    by (metis card_subset_eq subset_antisym subset_refl)
  also have "\<dots> \<longleftrightarrow> (\<forall>m<33. P m \<longrightarrow> m \<in> L)"
    by (auto simp: S_def)
  finally show ?thesis
    by (simp only: L_def)
qed

lemma u32_below: "(\<forall>m\<le>(48 :: u32). Q m) \<longleftrightarrow> (\<forall>n<33. Q (word_of_nat n)) \<and> (\<forall>n\<in>{33..<49}. Q (word_of_nat n))"
proof -
  have unat: "unat (word_of_nat n :: u32) = n" if "n < 49" for n
    using that by (simp add: unat_of_nat take_bit_nat_eq_self)
  have "Q (word_of_nat n)" if "\<forall>m\<le>(48 :: u32). Q m" "n < 49" for n
    using that unat[of n] by (auto simp: word_le_nat_alt)
  moreover have "Q m" if "\<forall>n<49. Q (word_of_nat n)" "m \<le> 48" for m :: u32
    using that(1)[rule_format, of "unat m"] that(2) by (simp add: word_le_nat_alt)
  ultimately have "(\<forall>m\<le>(48 :: u32). Q m) \<longleftrightarrow> (\<forall>n<49. Q (word_of_nat n))"
    by blast
  also have "\<dots> \<longleftrightarrow> (\<forall>n<33. Q (word_of_nat n)) \<and> (\<forall>n\<in>{33..<49}. Q (word_of_nat n))"
    by (auto simp: not_less[symmetric])
  finally show ?thesis .
qed

text \<open>
  The boot cross-check catches every signature drift. For any live surface, the self-check
  passes exactly when every registered name has its registered number and its registered
  required right, no other method number up to 16 past the ceiling is accepted, and every named
  right has its registered bits.
\<close>

theorem selfcheck_exact: "selfcheck_on lm rr rb = CheckOk 23 \<longleftrightarrow> conforms lm rr rb"
proof (cases "\<forall>(mid, name, bts)\<in>set FROZEN_METHODS. lm name = Some mid \<and> map_option bits (rr mid) = Some bts")
  case False
  then have "check_methods lm rr FROZEN_METHODS 0 \<noteq> Inr r" for r
    unfolding check_methods_Inr by (rule contrapos_nn) (rule conjunct1)
  then obtain d where d: "check_methods lm rr FROZEN_METHODS 0 = Inl d"
    by (cases "check_methods lm rr FROZEN_METHODS 0") blast+
  moreover have "d \<noteq> CheckOk n" if "check_methods lm rr rows mx = Inl d" for rows mx n
    using that by (induction rows arbitrary: mx) (auto split: if_splits)
  ultimately show ?thesis
    using False by (auto simp: selfcheck_on_def conforms_def)
next
  case True
  let ?P = "\<lambda>m. rr (word_of_nat m) \<noteq> None" and ?I = frozen_index
  have ids: "fst ` set FROZEN_METHODS = word_of_nat ` set ?I"
    using arg_cong[OF frozen_facts(3), of set] by simp
  have live: "\<forall>m\<in>set ?I. ?P m"
  proof
    fix m assume "m \<in> set ?I"
    then have "word_of_nat m \<in> fst ` set FROZEN_METHODS"
      unfolding ids by (rule imageI)
    then obtain name bts where "(word_of_nat m, name, bts) \<in> set FROZEN_METHODS"
      by force
    from bspec[OF True this] show "?P m"
      by auto
  qed
  have "length (filter ?P [0..<33]) < 2 ^ 32"
    by (rule le_less_trans[OF length_filter_le]) simp
  then have cnt: "(word_of_nat (length (filter ?P [0..<33])) :: u32) = 23 \<longleftrightarrow> length (filter ?P [0..<33]) = 23"
    by (simp add: word_unat_eq_iff unat_of_nat take_bit_nat_eq_self)
  have inj: "(word_of_nat m :: u32) = word_of_nat j \<longleftrightarrow> m = j" if "m < 49" "j < 49" for m j
    using that by (auto simp: word_unat_eq_iff unat_of_nat take_bit_nat_eq_self)
  have mem: "(word_of_nat m :: u32) \<in> word_of_nat ` set ?I \<longleftrightarrow> m \<in> set ?I" if "m < 49" for m
  proof
    assume "(word_of_nat m :: u32) \<in> word_of_nat ` set ?I"
    then obtain j where j: "j \<in> set ?I" "(word_of_nat m :: u32) = word_of_nat j"
      by blast
    then have "m = j"
      using inj[of m j] that frozen_index_below[OF j(1)] by simp
    with j show "m \<in> set ?I" by simp
  qed simp
  have closed: "(\<forall>m\<le>48. rr m \<noteq> None \<longrightarrow> m \<in> fst ` set FROZEN_METHODS) \<longleftrightarrow>
      length (filter ?P [0..<33]) = 23 \<and> (\<forall>m\<in>{33..<49}. \<not> ?P m)"
    unfolding u32_below ids live_count_iff[OF live] using frozen_index_below
    by (auto simp: mem) (meson atLeastLessThan_iff not_less option.exhaust)
  have "check_methods lm rr FROZEN_METHODS 0 = Inr METHOD_CEILING"
    using True by (simp add: check_methods_Inr frozen_facts(1))
  moreover define c where "c = length (filter ?P [0..<33])"
  moreover define f where "f = find ?P [33..<49]"
  moreover have "unat METHOD_CEILING + 1 = 33" "unat METHOD_CEILING + 17 = 49"
    by (simp_all add: METHOD_CEILING_def)
  ultimately have on: "selfcheck_on lm rr rb = (if (word_of_nat c :: u32) \<noteq> word_of_nat 23 then MethodCountDrift (word_of_nat c) else
      (case f of Some over \<Rightarrow> CeilingOpen (word_of_nat over) | None \<Rightarrow>
        (case check_rights rb FROZEN_RIGHTS of Some d \<Rightarrow> d | None \<Rightarrow> CheckOk (word_of_nat 23))))"
    unfolding selfcheck_on_def frozen_facts(2) Let_def by simp
  have "f = None \<longleftrightarrow> (\<forall>m\<in>{33..<49}. \<not> ?P m)"
    unfolding f_def find_None_iff by (simp only: set_upt) blast
  moreover have "selfcheck_on lm rr rb = CheckOk 23 \<longleftrightarrow> c = 23 \<and> f = None \<and> check_rights rb FROZEN_RIGHTS = None"
    unfolding on using cnt[folded c_def] check_rights_not_ok[of rb FROZEN_RIGHTS] by (auto split: option.splits)
  ultimately have "selfcheck_on lm rr rb = CheckOk 23 \<longleftrightarrow>
      length (filter ?P [0..<33]) = 23 \<and> (\<forall>m\<in>{33..<49}. \<not> ?P m) \<and> check_rights rb FROZEN_RIGHTS = None"
    unfolding c_def by blast
  then show ?thesis
    unfolding conforms_def check_rights_None using True closed by blast
qed

section \<open>Conformance vectors\<close>

definition syscall_call :: "u32 \<Rightarrow> handle \<Rightarrow> syscall_args" where
  "syscall_call m h = \<lparr>call_method = m, target = h, arg = \<lambda>_. 0\<rparr>"

fun expected :: "u8 \<Rightarrow> sys_status \<Rightarrow> bool" where
  "expected e st = (if e = EXPECT_OK then st = Ok else if e = EXPECT_DENIED then st = Denied
     else if e = EXPECT_BADMETHOD then st = BadMethod else False)"

text \<open>The boot loop over the vectors: mint a handle with the granted rights, call, compare.\<close>

fun cap_vectors :: "'m mem_ops \<Rightarrow> (u32 \<times> u32 \<times> u8) list \<Rightarrow> 'm kernel \<Rightarrow> table \<Rightarrow> nat" where
  "cap_vectors ops [] k t = 0"
| "cap_vectors ops ((m, g, e) # vs) k t = (case mint k t Generic (from_bits g) of
     (_, _, None) \<Rightarrow> 0
   | (k1, t1, Some h) \<Rightarrow> (case dispatch ops k1 t1 (syscall_call m h) of
       (k2, t2, r) \<Rightarrow> (if expected e (status r) then 1 else 0) + cap_vectors ops vs k2 t2))"

text \<open>
  The capability conformance vectors hold. Run as at boot, on a fresh table of eight slots,
  all five frozen vectors get the frozen outcome from the dispatcher.
\<close>

theorem cap_vectors_pass:
  "cap_vectors demo_ops CONFORMANCE_CAP_VECTORS demo_kernel (with_capacity 8) = length CONFORMANCE_CAP_VECTORS"
  by code_simp

end
