(* ===== verification/Route.thy ===== *)
theory Route
  imports Dispatch "HOL-Library.Sublist"
begin

text \<open>
  Routing of \<open>model:\<close> names, \<open>crates/tb-encode/src/route.rs\<close>, and the in-kernel router and
  mock backends of \<open>crates/tb-hal/src/infer.rs\<close>. A \<open>&str\<close> is a \<open>string\<close>. A registered
  backend is its scheme literal, the only state a mock backend has.
\<close>

section \<open>The scheme grammar and the longest prefix\<close>

text \<open>\<open>strip_prefix\<close> and \<open>split_once\<close> of the standard library.\<close>

fun strip_prefix :: "string \<Rightarrow> string \<Rightarrow> string option" where
  "strip_prefix [] s = Some s"
| "strip_prefix (c # cs) [] = None"
| "strip_prefix (c # cs) (d # ds) = (if c = d then strip_prefix cs ds else None)"

fun split_once :: "char \<Rightarrow> string \<Rightarrow> (string \<times> string) option" where
  "split_once c [] = None"
| "split_once c (d # ds) = (if d = c then Some ([], ds)
     else map_option (\<lambda>(a, b). (d # a, b)) (split_once c ds))"

definition parse_scheme :: "string \<Rightarrow> (string \<times> string) option" where
  "parse_scheme uri = (case strip_prefix ''model:'' uri of None \<Rightarrow> None | Some rest \<Rightarrow>
     (case split_once (CHR ''/'') rest of
        Some (p, path) \<Rightarrow> if p \<noteq> [] \<and> path \<noteq> [] then Some (p, path) else None
      | None \<Rightarrow> if rest \<noteq> [] then Some (rest, []) else None))"

fun longest_prefix_loop ::
  "string \<Rightarrow> string list \<Rightarrow> nat \<Rightarrow> nat option \<Rightarrow> nat \<Rightarrow> nat option" where
  "longest_prefix_loop p [] i best best_len = best"
| "longest_prefix_loop p (k # ks) i best best_len =
     (if prefix k p \<and> (best = None \<or> length k > best_len)
      then longest_prefix_loop p ks (i + 1) (Some i) (length k)
      else longest_prefix_loop p ks (i + 1) best best_len)"

definition longest_prefix_index :: "string \<Rightarrow> string list \<Rightarrow> nat option" where
  "longest_prefix_index provider keys = longest_prefix_loop provider keys 0 None 0"

section \<open>The router\<close>

definition MAX_ROUTES :: nat where "MAX_ROUTES = 16"

definition MOCK_CLAUDE :: string where "MOCK_CLAUDE = ''model:mock/echo''"
definition MOCK_LLAMA :: string where "MOCK_LLAMA = ''model:local/llama3''"

definition ROUTES :: "string list" where
  "ROUTES = [MOCK_CLAUDE, MOCK_LLAMA]"

definition route_key :: "string \<Rightarrow> string" where
  "route_key scheme = (case parse_scheme scheme of Some (p, _) \<Rightarrow> p | None \<Rightarrow> scheme)"

definition resolve_uri :: "string \<Rightarrow> (nat \<times> string) option" where
  "resolve_uri uri = (case parse_scheme uri of None \<Rightarrow> None | Some (provider, _) \<Rightarrow>
     (let n = min (length ROUTES) MAX_ROUTES; keys = map route_key (take n ROUTES) in
      map_option (\<lambda>idx. (idx, ROUTES ! idx)) (longest_prefix_index provider keys)))"

section \<open>The parser inverts the grammar\<close>

lemma strip_prefix_Some: "strip_prefix p s = Some r \<longleftrightarrow> s = p @ r"
  by (induction p s rule: strip_prefix.induct) auto

lemma split_once_Some: "split_once c s = Some (a, b) \<longleftrightarrow> s = a @ c # b \<and> c \<notin> set a"
proof (induction s arbitrary: a)
  case (Cons d ds)
  then show ?case by (cases a) auto
qed simp

lemma split_once_None: "split_once c s = None \<longleftrightarrow> c \<notin> set s"
  by (induction s) auto

text \<open>
  The routing decision: \<open>r\<close> is the position of the longest key that is a prefix of \<open>p\<close>, the
  first one on a tie.
\<close>

definition longest_match :: "string \<Rightarrow> string list \<Rightarrow> nat \<Rightarrow> bool" where
  "longest_match p ks r \<longleftrightarrow> r < length ks \<and> prefix (ks ! r) p \<and>
     (\<forall>m<length ks. prefix (ks ! m) p \<longrightarrow>
        length (ks ! m) \<le> length (ks ! r) \<and> (m < r \<longrightarrow> length (ks ! m) < length (ks ! r)))"

definition scanned :: "string \<Rightarrow> string list \<Rightarrow> nat option \<Rightarrow> nat \<Rightarrow> bool" where
  "scanned p ks best best_len = (case best of None \<Rightarrow> \<forall>k\<in>set ks. \<not> prefix k p
     | Some r \<Rightarrow> longest_match p ks r \<and> best_len = length (ks ! r))"

lemma scanned_take:
  assumes "scanned p ks best bl" "prefix k p" "best = None \<or> bl < length k"
  shows "scanned p (ks @ [k]) (Some (length ks)) (length k)"
proof -
  have "length (ks ! m) < length k" if "m < length ks" "prefix (ks ! m) p" for m
    using that assms by (auto simp: scanned_def longest_match_def split: option.splits)
  then show ?thesis
    using assms(2) by (auto simp: scanned_def longest_match_def nth_append less_Suc_eq intro: less_imp_le)
qed

lemma scanned_skip:
  assumes "scanned p ks best bl" "\<not> (prefix k p \<and> (best = None \<or> bl < length k))"
  shows "scanned p (ks @ [k]) best bl"
  using assms
  by (auto simp: scanned_def longest_match_def nth_append less_Suc_eq split: option.splits)

lemma longest_loop_scanned:
  assumes "scanned p done best bl"
  shows "\<exists>bl'. scanned p (done @ ks) (longest_prefix_loop p ks (length done) best bl) bl'"
  using assms
proof (induction ks arbitrary: "done" best bl)
  case Nil
  then show ?case by auto
next
  case (Cons k ks)
  show ?case
  proof (cases "prefix k p \<and> (best = None \<or> bl < length k)")
    case True
    with Cons.IH[OF scanned_take[OF Cons.prems]] show ?thesis
      by auto
  next
    case False
    with Cons.IH[OF scanned_skip[OF Cons.prems False]] show ?thesis
      by auto
  qed
qed

lemma longest_prefix_index_spec:
  "case longest_prefix_index p ks of None \<Rightarrow> \<forall>m<length ks. \<not> prefix (ks ! m) p
   | Some r \<Rightarrow> longest_match p ks r"
proof -
  have "scanned p [] None 0"
    by (simp add: scanned_def)
  from longest_loop_scanned[OF this, of ks] show ?thesis
    by (auto simp: longest_prefix_index_def scanned_def split: option.splits)
qed

lemma longest_match_unique: "longest_match p ks r \<Longrightarrow> longest_match p ks r' \<Longrightarrow> r = r'"
  unfolding longest_match_def by (metis linorder_neqE_nat not_less)

lemma longest_prefix_index_iff: "longest_prefix_index p ks = Some r \<longleftrightarrow> longest_match p ks r"
  using longest_prefix_index_spec[where p = p and ks = ks] longest_match_unique[of p ks r]
  by (cases "longest_prefix_index p ks") (auto simp: longest_match_def)

section \<open>Properties\<close>

text \<open>
  The scheme parser is exact. It accepts precisely the names \<open>model:provider/path\<close> with a
  non-empty provider without a slash and a non-empty path, and the names \<open>model:provider\<close>
  with a non-empty provider and no slash, and returns their parts.
\<close>

theorem parse_scheme_exact:
  "parse_scheme uri = Some (p, path) \<longleftrightarrow> p \<noteq> [] \<and> CHR ''/'' \<notin> set p \<and>
     uri = ''model:'' @ p @ (if path = [] then [] else CHR ''/'' # path)"
proof (cases "strip_prefix ''model:'' uri")
  case None
  then have "uri \<noteq> ''model:'' @ r" for r
    using strip_prefix_Some[of "''model:''" uri] by auto
  with None show ?thesis
    by (auto simp: parse_scheme_def)
next
  case (Some rest)
  then have uri: "uri = ''model:'' @ rest"
    by (simp only: strip_prefix_Some)
  show ?thesis
  proof (cases "split_once (CHR ''/'') rest")
    case None
    then have "CHR ''/'' \<notin> set rest"
      by (simp add: split_once_None)
    with None Some uri show ?thesis
      by (auto simp: parse_scheme_def)
  next
    case (Some ab)
    moreover obtain a b where "ab = (a, b)" by (cases ab)
    ultimately have ab: "rest = a @ CHR ''/'' # b" "CHR ''/'' \<notin> set a" "split_once (CHR ''/'') rest = Some (a, b)"
      by (simp_all add: split_once_Some)
    have parts: "a = p \<and> b = path \<longleftrightarrow> rest = p @ CHR ''/'' # path \<and> CHR ''/'' \<notin> set p"
      using ab(3) split_once_Some[of "CHR ''/''" rest p path] by simp
    have "parse_scheme uri = (if a \<noteq> [] \<and> b \<noteq> [] then Some (a, b) else None)"
      using \<open>strip_prefix ''model:'' uri = Some rest\<close> ab(3) by (simp add: parse_scheme_def del: strip_prefix.simps)
    then show ?thesis
      using parts uri ab(1,2) by auto
  qed
qed

text \<open>
  Resolving a name is total, needs a \<open>model:\<close> scheme and returns a registered backend: the
  route whose provider is the longest prefix of the name's provider.
\<close>

theorem resolve_uri_registered:
  "resolve_uri uri = Some (i, b) \<longleftrightarrow>
     (\<exists>p path. parse_scheme uri = Some (p, path) \<and> longest_match p [''mock'', ''local''] i \<and> b = ROUTES ! i)"
proof -
  have keys: "map route_key (take (min (length ROUTES) MAX_ROUTES) ROUTES) = [''mock'', ''local'']"
    by code_simp
  show ?thesis
    by (auto simp: resolve_uri_def keys longest_prefix_index_iff Let_def split: option.splits)
qed

end
