(* ===== verification/Pmm.thy ===== *)
theory Pmm
  imports Prelude
begin

text \<open>
  The physical frame allocator of \<open>crates/tb-hal/src/pmm.rs\<close>: the region sink the boot-map
  readers fill, seeding, and the intrusive free-frame stack. A free frame holds the address
  of the next free frame in its own first word, so physical memory is an explicit map from
  addresses to words that the operations read and write. A fixed array with a length field is
  the list of its live entries. What the architecture's boot-map reader reports is a list of
  regions, in the order it pushes them; the kernel image span, two linker symbols, is an
  argument of \<open>pmm_init\<close>. The serial diagnostics of \<open>seed\<close> and the spin lock around the
  single-core state are not modelled.
\<close>

section \<open>Ranges and the region sink\<close>

definition FRAME :: u64 where "FRAME = 4096"
definition MAX_RANGES :: nat where "MAX_RANGES = 16"
definition MAX_RESV :: nat where "MAX_RESV = 64"

record phys_range =
  base :: u64
  len :: u64

definition range_end :: "phys_range \<Rightarrow> u64" where
  "range_end r = saturating_add (base r) (len r)"

record region_sink =
  sink_usable :: "phys_range list"
  sink_reserved :: "phys_range list"
  overflow :: bool

definition sink_new :: region_sink where
  "sink_new = \<lparr>sink_usable = [], sink_reserved = [], overflow = False\<rparr>"

definition push_usable :: "u64 \<Rightarrow> u64 \<Rightarrow> region_sink \<Rightarrow> region_sink" where
  "push_usable b l k = (if l = 0 then k
     else if length (sink_usable k) < MAX_RANGES
       then k\<lparr>sink_usable := sink_usable k @ [\<lparr>base = b, len = l\<rparr>]\<rparr> else k)"

definition push_reserved :: "u64 \<Rightarrow> u64 \<Rightarrow> region_sink \<Rightarrow> region_sink" where
  "push_reserved b l k = (if l = 0 then k
     else if length (sink_reserved k) < MAX_RESV
       then k\<lparr>sink_reserved := sink_reserved k @ [\<lparr>base = b, len = l\<rparr>]\<rparr>
       else k\<lparr>overflow := True\<rparr>)"

definition align_up :: "u64 \<Rightarrow> u64 \<Rightarrow> u64" where
  "align_up x a = saturating_add x (a - 1) AND NOT (a - 1)"

definition align_down :: "u64 \<Rightarrow> u64 \<Rightarrow> u64" where
  "align_down x a = x AND NOT (a - 1)"

section \<open>Allocator state and operations\<close>

record pmm_state =
  head :: u64
  usable :: "phys_range list"
  reserved :: "phys_range list"
  total_frames :: u64
  free_count :: u64
  initialized :: bool

type_synonym memory = "u64 \<Rightarrow> u64"

definition pmm_new :: pmm_state where
  "pmm_new = \<lparr>head = 0, usable = [], reserved = [], total_frames = 0, free_count = 0,
     initialized = False\<rparr>"

definition write_link :: "memory \<Rightarrow> u64 \<Rightarrow> u64 \<Rightarrow> memory" where
  "write_link m pa nxt = m(pa := nxt)"

definition read_link :: "memory \<Rightarrow> u64 \<Rightarrow> u64" where
  "read_link m pa = m pa"

definition is_reserved_frame :: "pmm_state \<Rightarrow> u64 \<Rightarrow> bool" where
  "is_reserved_frame s f = (let fe = saturating_add f FRAME in
     list_ex (\<lambda>r. f < range_end r \<and> base r < fe) (reserved s))"

definition addr_in_usable :: "pmm_state \<Rightarrow> u64 \<Rightarrow> bool" where
  "addr_in_usable s pa = list_ex (\<lambda>r. base r \<le> pa \<and> pa < range_end r) (usable s)"

definition addr_reserved :: "pmm_state \<Rightarrow> u64 \<Rightarrow> bool" where
  "addr_reserved s pa = list_ex (\<lambda>r. base r \<le> pa \<and> pa < range_end r) (reserved s)"

definition frame_in_usable :: "pmm_state \<Rightarrow> u64 \<Rightarrow> bool" where
  "frame_in_usable s pa = (case checked_add pa FRAME of None \<Rightarrow> False
     | Some pe \<Rightarrow> list_ex (\<lambda>r. base r \<le> pa \<and> pe \<le> range_end r) (usable s))"

text \<open>One iteration of the inner seeding loop, the loop, and the loop over the ranges.\<close>

definition seed_push :: "u64 \<Rightarrow> pmm_state \<times> memory \<Rightarrow> pmm_state \<times> memory" where
  "seed_push f sm = (case sm of (s, m) \<Rightarrow>
     if f \<noteq> 0 \<and> \<not> is_reserved_frame s f
     then (s\<lparr>head := f, total_frames := total_frames s + 1\<rparr>, write_link m f (head s))
     else (s, m))"

partial_function (option) seed_range ::
  "u64 \<Rightarrow> u64 \<Rightarrow> pmm_state \<times> memory \<Rightarrow> (pmm_state \<times> memory) option" where
  "seed_range f e sm = (if f < e then seed_range (f + FRAME) e (seed_push f sm) else Some sm)"

declare seed_range.simps [code]

fun seed_ranges :: "phys_range list \<Rightarrow> pmm_state \<times> memory \<Rightarrow> (pmm_state \<times> memory) option" where
  "seed_ranges [] sm = Some sm"
| "seed_ranges (r # rs) sm =
     (case seed_range (align_up (base r) FRAME) (align_down (range_end r) FRAME) sm of
        None \<Rightarrow> None | Some sm' \<Rightarrow> seed_ranges rs sm')"

definition seed :: "pmm_state \<times> memory \<Rightarrow> (pmm_state \<times> memory) option" where
  "seed sm = (case sm of (s, m) \<Rightarrow>
     map_option (\<lambda>(s', m'). (s'\<lparr>free_count := total_frames s'\<rparr>, m'))
       (seed_ranges (usable s) (s\<lparr>head := 0, total_frames := 0\<rparr>, m)))"

datatype region = Usable u64 u64 | Reserved u64 u64

fun push_region :: "region \<Rightarrow> region_sink \<Rightarrow> region_sink" where
  "push_region (Usable b l) k = push_usable b l k"
| "push_region (Reserved b l) k = push_reserved b l k"

definition boot_sink :: "region list \<Rightarrow> u64 \<Rightarrow> u64 \<Rightarrow> region_sink" where
  "boot_sink regions img_start img_end = (let k1 = fold push_region regions sink_new in
     if img_end > img_start then push_reserved img_start (img_end - img_start) k1 else k1)"

definition pmm_init ::
  "region list \<Rightarrow> u64 \<Rightarrow> u64 \<Rightarrow> pmm_state \<times> memory \<Rightarrow> (pmm_state \<times> memory) option" where
  "pmm_init regions img_start img_end sm = (case sm of (s, m) \<Rightarrow>
     if initialized s then Some (s, m) else
     let k = boot_sink regions img_start img_end
     in if overflow k then Some (s\<lparr>initialized := True\<rparr>, m)
        else map_option (\<lambda>(s', m'). (s'\<lparr>initialized := True\<rparr>, m'))
          (seed (s\<lparr>usable := sink_usable k, reserved := sink_reserved k\<rparr>, m)))"

definition frame_alloc :: "pmm_state \<times> memory \<Rightarrow> (pmm_state \<times> memory) \<times> u64 option" where
  "frame_alloc sm = (case sm of (s, m) \<Rightarrow>
     if head s = 0 then ((s, m), None)
     else let pa = head s; nxt = read_link m pa
       in ((s\<lparr>head := nxt, free_count := free_count s - 1\<rparr>, m), Some pa))"

definition frame_free :: "pmm_state \<times> memory \<Rightarrow> u64 \<Rightarrow> (pmm_state \<times> memory) \<times> bool" where
  "frame_free sm pa = (case sm of (s, m) \<Rightarrow>
     if pa = 0 \<or> pa mod FRAME \<noteq> 0 then ((s, m), False)
     else if \<not> frame_in_usable s pa then ((s, m), False)
     else if is_reserved_frame s pa then ((s, m), False)
     else if free_count s \<ge> total_frames s then ((s, m), False)
     else if head s = pa then ((s, m), False)
     else ((s\<lparr>head := pa, free_count := free_count s + 1\<rparr>, write_link m pa (head s)), True))"

section \<open>Frame arithmetic\<close>

text \<open>Clearing bits without a complement, for evaluation on numerals.\<close>

lemma and_not_code: "x AND NOT m = x XOR (x AND m)" for x m :: u64
  by (rule bit_word_eqI) (auto simp: bit_simps)

lemma align_code [code]:
  "align_up x a = (let y = saturating_add x (a - 1) in y XOR (y AND (a - 1)))"
  "align_down x a = x XOR (x AND (a - 1))"
  by (simp_all add: align_up_def align_down_def and_not_code Let_def)

abbreviation aligned :: "u64 \<Rightarrow> bool" where
  "aligned f \<equiv> unat f mod 4096 = 0"

lemma unat_clear_bits: "unat (x AND NOT (mask n) :: u64) = unat x div 2 ^ n * 2 ^ n"
proof -
  have "x AND NOT (mask n) = push_bit n (drop_bit n x)"
    by (rule bit_word_eqI) (auto simp: bit_simps)
  then have "unat (x AND NOT (mask n)) = take_bit 64 (push_bit n (drop_bit n (unat x)))"
    using u64_bound[of x] by (simp add: unsigned_push_bit_eq unsigned_drop_bit_eq take_bit_nat_eq_self)
  moreover have "unat x div 2 ^ n * 2 ^ n < 2 ^ 64"
    using le_less_trans[OF div_times_less_eq_dividend u64_bound] by simp
  ultimately show ?thesis
    by (simp add: push_bit_eq_mult drop_bit_eq_div take_bit_nat_eq_self)
qed

lemma unat_clear_low: "unat (x AND - 4096 :: u64) = unat x div 4096 * 4096"
  using unat_clear_bits[of x 12] by (simp add: mask_eq_exp_minus_1)

lemma unat_align_down: "unat (align_down x FRAME) = unat x div 4096 * 4096"
  by (simp add: align_down_def FRAME_def unat_clear_low)

lemma unat_align_up:
  "unat (align_up x FRAME) = min (unat x + 4095) (2 ^ 64 - 1) div 4096 * 4096"
  by (simp add: align_up_def FRAME_def unat_clear_low unat_saturating_add)

lemma unat_range_end: "unat (range_end r) = min (unat (base r) + unat (len r)) (2 ^ 64 - 1)"
  by (simp add: range_end_def unat_saturating_add)

lemma unat_next_frame: "unat f + 4096 < 2 ^ 64 \<Longrightarrow> unat (f + FRAME) = unat f + 4096"
  by (simp add: FRAME_def unat_word_ariths)

lemma mod_FRAME: "pa mod FRAME = 0 \<longleftrightarrow> aligned pa"
  by (simp add: FRAME_def word_unat_eq_iff unat_mod)

text \<open>The frames an inner seeding loop visits, and which they are.\<close>

definition frames_between :: "u64 \<Rightarrow> u64 \<Rightarrow> u64 list" where
  "frames_between f e = map (\<lambda>i. word_of_nat (unat f + 4096 * i)) [0..<(unat e - unat f) div 4096]"

lemma frames_between_Nil: "e \<le> f \<Longrightarrow> frames_between f e = []"
  by (simp add: frames_between_def word_le_nat_alt)

lemma frames_between_Cons:
  assumes "aligned f" "aligned e" "f < e"
  shows "frames_between f e = f # frames_between (f + FRAME) e" "unat (f + FRAME) = unat f + 4096"
proof -
  have less: "unat f < unat e" "unat e < 2 ^ 64"
    using assms(3) u64_bound[of e] by (simp_all add: word_less_nat_alt)
  then have le: "unat f + 4096 \<le> unat e"
    using assms(1,2) by (auto simp: mod_eq_0_iff_dvd elim!: dvdE)
  then show nx: "unat (f + FRAME) = unat f + 4096"
    using less by (intro unat_next_frame) linarith
  have "unat e - unat f = 4096 + (unat e - unat (f + FRAME))"
    using le unfolding nx by linarith
  then have "(unat e - unat f) div 4096 = Suc ((unat e - unat (f + FRAME)) div 4096)"
    by simp
  then show "frames_between f e = f # frames_between (f + FRAME) e"
    by (simp add: frames_between_def nx map_upt_Suc FRAME_def algebra_simps del: upt_Suc)
qed

lemma seed_range_fold:
  assumes "aligned f" "aligned e"
  shows "seed_range f e sm = Some (fold seed_push (frames_between f e) sm)"
  using assms
proof (induction "unat e - unat f" arbitrary: f sm rule: less_induct)
  case less
  show ?case
  proof (cases "f < e")
    case True
    note fr = frames_between_Cons[OF less.prems True]
    have "seed_range (f + FRAME) e (seed_push f sm) = Some (fold seed_push (frames_between (f + FRAME) e) (seed_push f sm))"
      using less.prems fr(2) True by (intro less.hyps) (auto simp: word_less_nat_alt mod_add_right_eq[symmetric])
    then show ?thesis
      using True by (subst seed_range.simps) (simp add: fr(1))
  next
    case False
    then show ?thesis
      by (subst seed_range.simps) (simp add: frames_between_Nil)
  qed
qed

lemma set_frames_between:
  assumes "aligned a" "aligned e"
  shows "f \<in> set (frames_between a e) \<longleftrightarrow> aligned f \<and> a \<le> f \<and> f < e"
  using assms
proof (induction "unat e - unat a" arbitrary: a rule: less_induct)
  case less
  show ?case
  proof (cases "a < e")
    case True
    note fr = frames_between_Cons[OF less.prems True]
    have "f \<in> set (frames_between (a + FRAME) e) \<longleftrightarrow> aligned f \<and> a + FRAME \<le> f \<and> f < e"
      using less.prems fr(2) True by (intro less.hyps) (auto simp: word_less_nat_alt)
    moreover have "a + FRAME \<le> f \<longleftrightarrow> a < f" if "aligned f"
      using that less.prems(1) fr(2)
      by (auto simp: word_le_nat_alt word_less_nat_alt mod_eq_0_iff_dvd elim!: dvdE)
    ultimately show ?thesis
      using less.prems(1) True by (auto simp: fr(1))
  next
    case False
    then show ?thesis
      by (auto simp: frames_between_Nil)
  qed
qed

lemma distinct_frames_between:
  assumes "aligned a" "aligned e"
  shows "distinct (frames_between a e)"
  using assms
proof (induction "unat e - unat a" arbitrary: a rule: less_induct)
  case less
  show ?case
  proof (cases "a < e")
    case True
    note fr = frames_between_Cons[OF less.prems True]
    have al: "aligned (a + FRAME)"
      using less.prems(1) fr(2) by simp
    moreover have "distinct (frames_between (a + FRAME) e)"
      using less.prems fr(2) True al by (intro less.hyps) (auto simp: word_less_nat_alt)
    ultimately show ?thesis
      using fr less.prems(2) by (auto simp: set_frames_between word_le_nat_alt)
  next
    case False
    then show ?thesis
      by (simp add: frames_between_Nil)
  qed
qed

section \<open>The free stack and the allocator invariant\<close>

fun chain :: "memory \<Rightarrow> u64 \<Rightarrow> u64 list \<Rightarrow> bool" where
  "chain m h [] \<longleftrightarrow> h = 0"
| "chain m h (f # fs) \<longleftrightarrow> h = f \<and> f \<noteq> 0 \<and> chain m (m f) fs"

definition fits :: "phys_range \<Rightarrow> u64 \<Rightarrow> bool" where
  "fits r f \<longleftrightarrow> base r \<le> f \<and> unat f + 4096 \<le> unat (range_end r)"

definition good_frame :: "pmm_state \<Rightarrow> u64 \<Rightarrow> bool" where
  "good_frame s f \<longleftrightarrow> f \<noteq> 0 \<and> aligned f \<and> frame_in_usable s f \<and> \<not> is_reserved_frame s f"

text \<open>
  With \<open>held\<close> the frames handed out and not yet returned: the links from \<open>head\<close> run through the
  free frames, free and held frames together are the good frames, each once, and both
  counters are right.
\<close>

definition pmm_inv :: "pmm_state \<times> memory \<Rightarrow> u64 list \<Rightarrow> bool" where
  "pmm_inv sm held \<longleftrightarrow> (case sm of (s, m) \<Rightarrow> \<exists>fs. chain m (head s) fs \<and> distinct (fs @ held) \<and>
     set (fs @ held) = {f. good_frame s f} \<and> free_count s = word_of_nat (length fs) \<and>
     total_frames s = word_of_nat (length (fs @ held)))"

definition disjoint_ranges :: "phys_range \<Rightarrow> phys_range \<Rightarrow> bool" where
  "disjoint_ranges r r' \<longleftrightarrow> range_end r \<le> base r' \<or> range_end r' \<le> base r"

lemma chain_frame: "f \<notin> set fs \<Longrightarrow> chain (write_link m f v) h fs = chain m h fs"
  by (induction fs arbitrary: h) (auto simp: write_link_def)

lemma write_link_same [simp]: "write_link m f v f = v"
  by (simp add: write_link_def)

lemma chain_head: "chain m h fs \<Longrightarrow> h = 0 \<longleftrightarrow> fs = []"
  by (cases fs) auto

lemma frame_in_usable_iff: "frame_in_usable s f \<longleftrightarrow> (\<exists>r\<in>set (usable s). fits r f)"
proof -
  have "f \<le> f + FRAME \<longleftrightarrow> unat f + 4096 < 2 ^ 64"
    using no_overflow_iff[of f FRAME] by (simp add: FRAME_def)
  moreover have "unat f + 4096 < 2 ^ 64" if "fits r f" for r
    using that u64_bound[of "range_end r"] by (simp add: fits_def)
  ultimately show ?thesis
    using unat_next_frame[of f]
    by (auto simp: frame_in_usable_def checked_add_code fits_def list_ex_iff word_le_nat_alt)
qed

lemma fits_disjoint: "disjoint_ranges r r' \<Longrightarrow> fits r f \<Longrightarrow> \<not> fits r' f"
  by (auto simp: disjoint_ranges_def fits_def word_le_nat_alt)

definition range_frames :: "phys_range \<Rightarrow> u64 list" where
  "range_frames r = frames_between (align_up (base r) FRAME) (align_down (range_end r) FRAME)"

lemma aligned_align: "aligned (align_up x FRAME)" "aligned (align_down x FRAME)"
  by (simp_all add: unat_align_up unat_align_down)

lemma range_frames:
  "distinct (range_frames r)" "f \<in> set (range_frames r) \<longleftrightarrow> aligned f \<and> fits r f"
proof -
  show "distinct (range_frames r)"
    unfolding range_frames_def by (intro distinct_frames_between aligned_align)
  have "align_up (base r) FRAME \<le> f \<and> f < align_down (range_end r) FRAME \<longleftrightarrow> fits r f" if "aligned f"
  proof -
    from that obtain k where k: "unat f = 4096 * k"
      by (auto simp: mod_eq_0_iff_dvd elim: dvdE)
    have "f < align_down (range_end r) FRAME \<longleftrightarrow> 4096 * k + 4096 \<le> unat (range_end r)"
      by (simp add: word_less_nat_alt unat_align_down k) linarith
    moreover have "align_up (base r) FRAME \<le> f \<longleftrightarrow> unat (base r) \<le> 4096 * k"
      if "4096 * k + 4096 \<le> unat (range_end r)"
      using that u64_bound[of "range_end r"] by (simp add: word_le_nat_alt unat_align_up k) linarith
    ultimately show ?thesis
      by (auto simp: fits_def word_le_nat_alt k)
  qed
  then show "f \<in> set (range_frames r) \<longleftrightarrow> aligned f \<and> fits r f"
    unfolding range_frames_def by (auto simp: set_frames_between[OF aligned_align])
qed

lemma range_frames_list:
  assumes "sorted_wrt disjoint_ranges rs"
  shows "distinct (concat (map range_frames rs))"
    "set (concat (map range_frames rs)) = {f. aligned f \<and> (\<exists>r\<in>set rs. fits r f)}"
proof -
  show "set (concat (map range_frames rs)) = {f. aligned f \<and> (\<exists>r\<in>set rs. fits r f)}"
    by (auto simp: range_frames(2))
  show "distinct (concat (map range_frames rs))"
    using assms by (induction rs) (fastforce simp: range_frames dest: fits_disjoint)+
qed

section \<open>Seeding\<close>

lemma seed_ranges_fold: "seed_ranges rs sm = Some (fold seed_push (concat (map range_frames rs)) sm)"
  by (induction rs arbitrary: sm)
    (simp_all add: range_frames_def seed_range_fold[OF aligned_align])

definition seedable :: "pmm_state \<Rightarrow> u64 \<Rightarrow> bool" where
  "seedable s f \<longleftrightarrow> f \<noteq> 0 \<and> \<not> is_reserved_frame s f"

lemma fold_seed_push:
  assumes "chain m (head s) fs" "distinct (xs @ fs)" "fold seed_push xs (s, m) = (s', m')"
  shows "chain m' (head s') (rev (filter (seedable s) xs) @ fs)"
    "total_frames s' = total_frames s + word_of_nat (length (filter (seedable s) xs))"
    "usable s' = usable s" "reserved s' = reserved s"
proof -
  have "chain m' (head s') (rev (filter (seedable s) xs) @ fs) \<and>
    total_frames s' = total_frames s + word_of_nat (length (filter (seedable s) xs)) \<and>
    usable s' = usable s \<and> reserved s' = reserved s"
    using assms
  proof (induction xs arbitrary: s m fs)
    case (Cons x xs)
    let ?s = "s\<lparr>head := x, total_frames := total_frames s + 1\<rparr>"
    have same: "seedable ?s = seedable s"
      by (simp add: fun_eq_iff seedable_def is_reserved_frame_def)
    show ?case
    proof (cases "seedable s x")
      case True
      then have "seed_push x (s, m) = (?s, write_link m x (head s))" "x \<noteq> 0"
        by (auto simp: seed_push_def seedable_def)
      with True Cons.prems Cons.IH[where s = ?s and fs = "x # fs" and m = "write_link m x (head s)"] same
      show ?thesis
        by (simp add: chain_frame add.assoc)
    next
      case False
      then have "seed_push x (s, m) = (s, m)"
        by (auto simp: seed_push_def seedable_def)
      with False Cons.prems Cons.IH[where s = s and fs = fs and m = m] show ?thesis
        by simp
    qed
  qed simp
  then show "chain m' (head s') (rev (filter (seedable s) xs) @ fs)"
    "total_frames s' = total_frames s + word_of_nat (length (filter (seedable s) xs))"
    "usable s' = usable s" "reserved s' = reserved s"
    by blast+
qed

lemma good_frame_seedable: "good_frame s f \<longleftrightarrow> aligned f \<and> (\<exists>r\<in>set (usable s). fits r f) \<and> seedable s f"
  by (auto simp: good_frame_def seedable_def frame_in_usable_iff)

lemma good_frame_cong:
  "usable s' = usable s \<Longrightarrow> reserved s' = reserved s \<Longrightarrow> good_frame s' f = good_frame s f"
  by (simp add: good_frame_def frame_in_usable_iff is_reserved_frame_def)

lemma good_frame_upd [simp]:
  "good_frame (s\<lparr>head := a\<rparr>) = good_frame s" "good_frame (s\<lparr>free_count := b\<rparr>) = good_frame s"
  "good_frame (s\<lparr>total_frames := c\<rparr>) = good_frame s" "good_frame (s\<lparr>initialized := d\<rparr>) = good_frame s"
  by (intro ext good_frame_cong; simp)+

lemma seed_establishes:
  assumes "sorted_wrt disjoint_ranges (usable s)"
  shows "\<exists>s' m'. seed (s, m) = Some (s', m') \<and> pmm_inv (s', m') [] \<and>
    usable s' = usable s \<and> reserved s' = reserved s"
proof -
  let ?s = "s\<lparr>head := 0, total_frames := 0\<rparr>" and ?xs = "concat (map range_frames (usable s))"
  let ?fs = "rev (filter (seedable ?s) ?xs)"
  obtain s1 m1 where f: "fold seed_push ?xs (?s, m) = (s1, m1)"
    by (cases "fold seed_push ?xs (?s, m)")
  note xs = range_frames_list[OF assms]
  note r = fold_seed_push[of m ?s "[]" ?xs, OF _ _ f, simplified, OF xs(1)]
  have "seedable ?s = seedable s" "seedable s1 = seedable s"
    using r(4) by (simp_all add: fun_eq_iff seedable_def is_reserved_frame_def)
  then have "set ?fs = {f. good_frame s1 f}"
    using xs(2) r(3,4) by (auto simp: good_frame_seedable)
  then have "pmm_inv (s1\<lparr>free_count := total_frames s1\<rparr>, m1) []"
    using r(1,2) xs(1) unfolding pmm_inv_def by (intro case_prodI exI[of _ ?fs]) simp
  then show ?thesis
    using r f by (simp add: seed_def seed_ranges_fold)
qed

section \<open>Allocation and release\<close>

lemma frames_bound:
  assumes "distinct fs" "0 \<notin> set fs"
  shows "length (fs :: u64 list) < 2 ^ 64"
proof -
  have "length (0 # fs) = card (set (0 # fs))"
    using assms by (intro distinct_card[symmetric]) simp
  also have "\<dots> \<le> card (UNIV :: u64 set)"
    by (rule card_mono[OF finite subset_UNIV])
  finally show ?thesis
    by (simp add: card_word)
qed

lemma pmm_inv_cases:
  assumes "pmm_inv (s, m) held"
  obtains fs where "chain m (head s) fs" "distinct (fs @ held)" "set (fs @ held) = {f. good_frame s f}"
    "unat (free_count s) = length fs" "unat (total_frames s) = length fs + length held"
proof -
  from assms obtain fs where fs: "chain m (head s) fs" "distinct (fs @ held)"
    "set (fs @ held) = {f. good_frame s f}" "free_count s = word_of_nat (length fs)"
    "total_frames s = word_of_nat (length (fs @ held))"
    by (auto simp: pmm_inv_def)
  have "length (fs @ held) < 2 ^ 64"
    using fs(2,3) by (intro frames_bound) (auto simp: good_frame_def)
  with fs show ?thesis
    by (intro that[of fs]) (simp_all add: unat_of_nat take_bit_nat_eq_self flip: of_nat_add)
qed

lemma frame_alloc_inv:
  assumes "pmm_inv sm held" "frame_alloc sm = (sm', Some pa)"
  shows "pmm_inv sm' (pa # held)" "good_frame (fst sm) pa" "pa \<notin> set held"
proof -
  obtain s m where sm: "sm = (s, m)" by (cases sm)
  from assms(1)[unfolded sm] obtain fs where fs: "chain m (head s) fs" "distinct (fs @ held)"
    "set (fs @ held) = {f. good_frame s f}" "free_count s = word_of_nat (length fs)"
    "total_frames s = word_of_nat (length (fs @ held))"
    by (auto simp: pmm_inv_def)
  from assms(2) sm fs(1) obtain gs where gs: "fs = pa # gs" "head s = pa"
    "sm' = (s\<lparr>head := m pa, free_count := free_count s - 1\<rparr>, m)"
    by (cases fs) (auto simp: frame_alloc_def read_link_def Let_def split: if_splits)
  show "pmm_inv sm' (pa # held)"
    using fs unfolding gs pmm_inv_def by (intro case_prodI exI[of _ gs]) auto
  show "good_frame (fst sm) pa" "pa \<notin> set held"
    using fs(2,3) gs sm by auto
qed

lemma frame_alloc_None:
  assumes "pmm_inv sm held" "frame_alloc sm = (sm', None)"
  shows "sm' = sm" "set held = {f. good_frame (fst sm) f}"
  using assms by (auto simp: frame_alloc_def pmm_inv_def Let_def chain_head split: if_splits prod.splits)

lemma frame_free_held:
  assumes "pmm_inv sm held" "pa \<in> set held"
  shows "\<exists>sm'. frame_free sm pa = (sm', True) \<and> pmm_inv sm' (remove1 pa held)"
proof -
  obtain s m where sm: "sm = (s, m)" by (cases sm)
  from assms(1)[unfolded sm] obtain fs where fs: "chain m (head s) fs" "distinct (fs @ held)"
    "set (fs @ held) = {f. good_frame s f}" "unat (free_count s) = length fs"
    "unat (total_frames s) = length fs + length held"
    by (rule pmm_inv_cases)
  let ?s = "s\<lparr>head := pa, free_count := free_count s + 1\<rparr>"
  have pa: "good_frame s pa" "pa \<notin> set fs" "head s \<noteq> pa" "held \<noteq> []"
    using fs(1-3) assms(2) by (auto simp: good_frame_def) (cases fs; auto simp: good_frame_def)+
  then have "frame_free sm pa = ((?s, write_link m pa (head s)), True)"
    using fs(4,5) sm by (auto simp: frame_free_def good_frame_def mod_FRAME word_le_nat_alt)
  moreover have "pmm_inv (?s, write_link m pa (head s)) (remove1 pa held)"
  proof -
    have "free_count s = word_of_nat (length fs)" "total_frames s = word_of_nat (length fs + length held)"
      using fs(4,5) by (metis of_nat_unat ucast_id)+
    moreover have "set held = insert pa (set held - {pa})" "length held = Suc (length held - 1)"
      using assms(2) pa(4) by auto
    ultimately show ?thesis
      using fs(1-3) pa(1,2) assms(2) unfolding pmm_inv_def
      by (intro case_prodI exI[of _ "pa # fs"])
        (auto simp: chain_frame good_frame_def[of s pa] length_remove1)
  qed
  ultimately show ?thesis by blast
qed

section \<open>Clients of the allocator\<close>

text \<open>
  The steps of a booted system as seen by the allocator, on its state, physical memory and the
  frames currently handed out: an allocation, the release of a held frame, a refused release
  of any address, and a client's write of any word inside a frame it holds.
\<close>

type_synonym pmm_world = "(pmm_state \<times> memory) \<times> u64 list"

inductive pmm_step :: "pmm_world \<Rightarrow> pmm_world \<Rightarrow> bool" where
  take: "frame_alloc sm = (sm', Some pa) \<Longrightarrow> pmm_step (sm, held) (sm', pa # held)"
| exhausted: "frame_alloc sm = (sm', None) \<Longrightarrow> pmm_step (sm, held) (sm', held)"
| give: "pa \<in> set held \<Longrightarrow> frame_free sm pa = (sm', ok) \<Longrightarrow> pmm_step (sm, held) (sm', remove1 pa held)"
| refused: "frame_free sm pa = (sm', False) \<Longrightarrow> pmm_step (sm, held) (sm', held)"
| use: "align_down a FRAME \<in> set held \<Longrightarrow> pmm_step ((s, m), held) ((s, m(a := v)), held)"

inductive_cases pmm_stepE: "pmm_step w w'"

lemma pmm_inv_use:
  assumes "pmm_inv (s, m) held" "align_down a FRAME \<in> set held"
  shows "pmm_inv (s, m(a := v)) held"
proof -
  from assms(1) obtain fs where fs: "chain m (head s) fs" "distinct (fs @ held)"
    "set (fs @ held) = {f. good_frame s f}" "free_count s = word_of_nat (length fs)"
    "total_frames s = word_of_nat (length (fs @ held))"
    by (auto simp: pmm_inv_def)
  have "a \<notin> set fs"
  proof
    assume a: "a \<in> set fs"
    then have "aligned a"
      using fs(3) by (auto simp: good_frame_def)
    then have "align_down a FRAME = a"
      by (auto simp: word_unat_eq_iff unat_align_down mod_eq_0_iff_dvd)
    with a assms(2) fs(2) show False by auto
  qed
  then have "chain (m(a := v)) (head s) fs"
    using fs(1) chain_frame[of a fs m v] by (simp add: write_link_def)
  with fs show ?thesis
    unfolding pmm_inv_def by blast
qed

lemma pmm_step_inv:
  assumes "pmm_step w w'" "pmm_inv (fst w) (snd w)"
  shows "pmm_inv (fst w') (snd w') \<and> usable (fst (fst w')) = usable (fst (fst w)) \<and>
    reserved (fst (fst w')) = reserved (fst (fst w))"
  using assms
proof (induction rule: pmm_step.induct)
  case (take sm sm' pa held)
  then show ?case
    using frame_alloc_inv(1)[of sm held sm' pa]
    by (auto simp: frame_alloc_def Let_def split: prod.splits if_splits)
next
  case (exhausted sm sm' held)
  then show ?case
    using frame_alloc_None(1)[of sm held sm'] by simp
next
  case (give pa held sm sm' ok)
  then show ?case
    using frame_free_held[of sm held pa]
    by (auto simp: frame_free_def split: prod.splits if_splits)
next
  case (refused sm pa sm' held)
  then show ?case
    by (auto simp: frame_free_def split: prod.splits if_splits)
next
  case (use a held s m v)
  then show ?case
    by (simp add: pmm_inv_use)
qed

lemma pmm_steps_inv:
  assumes "pmm_step\<^sup>*\<^sup>* w w'" "pmm_inv (fst w) (snd w)"
  shows "pmm_inv (fst w') (snd w') \<and> usable (fst (fst w')) = usable (fst (fst w)) \<and>
    reserved (fst (fst w')) = reserved (fst (fst w))"
  using assms by (induction rule: rtranclp_induct) (auto dest: pmm_step_inv)

section \<open>The region sink loses no reservation\<close>

lemma push_region_mono:
  "set (sink_reserved k) \<subseteq> set (sink_reserved (push_region r k))"
  "overflow k \<Longrightarrow> overflow (push_region r k)"
  by (cases r; auto simp: push_usable_def push_reserved_def)+

lemma fold_push_region_mono:
  "set (sink_reserved k) \<subseteq> set (sink_reserved (fold push_region rs k))"
  "overflow k \<Longrightarrow> overflow (fold push_region rs k)"
  by (induction rs arbitrary: k) (use push_region_mono in \<open>auto, blast\<close>)

lemma push_reserved_kept:
  "l \<noteq> 0 \<Longrightarrow> \<not> overflow (push_reserved b l k) \<Longrightarrow> \<lparr>base = b, len = l\<rparr> \<in> set (sink_reserved (push_reserved b l k))"
  by (auto simp: push_reserved_def split: if_splits)

lemma reservation_kept:
  assumes "Reserved b l \<in> set rs" "l \<noteq> 0" "\<not> overflow (fold push_region rs k)"
  shows "\<lparr>base = b, len = l\<rparr> \<in> set (sink_reserved (fold push_region rs k))"
  using assms
proof (induction rs arbitrary: k)
  case (Cons r rs)
  show ?case
  proof (cases "r = Reserved b l")
    case True
    then have "\<not> overflow (push_reserved b l k)"
      using Cons.prems(3) fold_push_region_mono(2) by auto
    then have "\<lparr>base = b, len = l\<rparr> \<in> set (sink_reserved (push_reserved b l k))"
      using Cons.prems(2) push_reserved_kept by blast
    then show ?thesis
      using True fold_push_region_mono(1)[of "push_reserved b l k" rs] by auto
  next
    case False
    with Cons show ?thesis by auto
  qed
qed simp

text \<open>The spans a boot must protect: every reported reservation, and the kernel image.\<close>

definition protected_spans :: "region list \<Rightarrow> u64 \<Rightarrow> u64 \<Rightarrow> phys_range set" where
  "protected_spans regions img_start img_end =
     {\<lparr>base = b, len = l\<rparr> | b l. Reserved b l \<in> set regions \<and> l \<noteq> 0} \<union>
     (if img_start < img_end then {\<lparr>base = img_start, len = img_end - img_start\<rparr>} else {})"

lemma protected_kept:
  assumes "\<not> overflow (boot_sink regions img_start img_end)" "r \<in> protected_spans regions img_start img_end"
  shows "r \<in> set (sink_reserved (boot_sink regions img_start img_end))"
proof -
  let ?k = "fold push_region regions sink_new"
  have ne: "img_start < img_end \<Longrightarrow> img_end - img_start \<noteq> 0"
    by simp
  have "\<not> overflow ?k" "set (sink_reserved ?k) \<subseteq> set (sink_reserved (boot_sink regions img_start img_end))"
    using assms(1) by (auto simp: boot_sink_def push_reserved_def Let_def split: if_splits)
  then show ?thesis
    using assms reservation_kept[of _ _ regions sink_new] push_reserved_kept[OF ne]
    by (auto simp: protected_spans_def boot_sink_def Let_def split: if_splits)
qed

lemma reserved_overlap:
  assumes "r \<in> set (reserved s)" "\<not> is_reserved_frame s f" "base r \<le> a" "unat a < unat (base r) + unat (len r)"
    "f \<le> a"
  shows "unat f + 4096 \<le> unat a \<or> a = - 1"
proof (rule ccontr)
  assume no: "\<not> (unat f + 4096 \<le> unat a \<or> a = - 1)"
  then have "unat a \<noteq> 2 ^ 64 - 1"
    using unat_minus_1[where 'a = 64] by (auto simp: word_unat_eq_iff)
  then have "unat a < 2 ^ 64 - 1"
    using u64_bound[of a] by simp
  then have "f < range_end r" "base r < saturating_add f FRAME"
    using no assms(3-5) by (auto simp: word_less_nat_alt word_le_nat_alt unat_range_end unat_saturating_add FRAME_def)
  with assms(1,2) show False
    by (auto simp: is_reserved_frame_def list_ex_iff Let_def)
qed

section \<open>Properties of the frame allocator\<close>



text \<open>
  A held frame can always be returned, and is the next one handed out. Releasing a frame that
  is currently held is accepted, and the allocation that follows yields that same frame; the
  counters are then the ones before the release.
\<close>

theorem release_then_alloc:
  assumes "pmm_inv sm held" "pa \<in> set held" "frame_free sm pa = (sm1, ok)" "frame_alloc sm1 = (sm2, res)"
  shows "ok \<and> res = Some pa \<and> head (fst sm2) = head (fst sm) \<and> free_count (fst sm2) = free_count (fst sm) \<and>
    unat (free_count (fst sm1)) = unat (free_count (fst sm)) + 1"
proof -
  obtain s m where sm: "sm = (s, m)" by (cases sm)
  have "ok"
    using frame_free_held[OF assms(1,2)] assms(3) by auto
  then have sm1: "sm1 = (s\<lparr>head := pa, free_count := free_count s + 1\<rparr>, write_link m pa (head s))"
    "pa \<noteq> 0" "free_count s < total_frames s"
    using assms(3) sm by (auto simp: frame_free_def split: if_splits)
  then have "unat (free_count s + 1) = unat (free_count s) + 1"
    using u64_bound[of "total_frames s"] by (simp add: unat_word_ariths word_less_nat_alt)
  with sm1 \<open>ok\<close> assms(4) sm show ?thesis
    by (auto simp: frame_alloc_def read_link_def Let_def)
qed

definition doubled :: pmm_state where
  "doubled = pmm_new\<lparr>usable := [\<lparr>base = 0x100000, len = 0x1000\<rparr>, \<lparr>base = 0x100000, len = 0x1000\<rparr>]\<rparr>"

text \<open>
  Seeding relies on disjoint usable ranges. When a boot map reports the same usable range
  twice, its frames are linked twice, and two consecutive allocations hand out one frame.
\<close>

theorem overlapping_usable_handed_out_twice:
  "map_option (\<lambda>sm. let (sm1, a) = frame_alloc sm; (sm2, b) = frame_alloc sm1 in (a, b)) (seed (doubled, \<lambda>_. 0)) =
     Some (Some 0x100000, Some 0x100000)"
  by code_simp

section \<open>A concrete boot\<close>

definition demo_regions :: "region list" where
  "demo_regions = [Reserved 0 0x100000, Usable 0x100000 0x4000, Reserved 0x104000 0x800]"

definition demo_pmm :: pmm_state where
  "demo_pmm = pmm_new\<lparr>usable := [\<lparr>base = 0x100000, len = 0x4000\<rparr>],
     reserved := [\<lparr>base = 0, len = 0x100000\<rparr>, \<lparr>base = 0x101000, len = 0x800\<rparr>]\<rparr>"

lemma demo_seeded: "map_option (snd \<circ> frame_alloc) (seed (demo_pmm, \<lambda>_. 0)) = Some (Some 0x103000)"
  by code_simp

lemma demo_taken:
  obtains sm sm' where "seed (demo_pmm, \<lambda>_. 0) = Some sm" "frame_alloc sm = (sm', Some 0x103000)"
    "pmm_step\<^sup>*\<^sup>* (sm, []) (sm', [0x103000])" "pmm_inv sm' [0x103000]"
proof -
  from demo_seeded obtain sm where sm: "seed (demo_pmm, \<lambda>_. 0) = Some sm" "snd (frame_alloc sm) = Some 0x103000"
    by auto
  then obtain sm' where sm': "frame_alloc sm = (sm', Some 0x103000)"
    by (cases "frame_alloc sm") auto
  have "sorted_wrt disjoint_ranges (usable demo_pmm)"
    by (simp add: demo_pmm_def)
  then have "pmm_inv sm []"
    using seed_establishes[of demo_pmm "\<lambda>_. 0"] sm(1) by auto
  then show ?thesis
    using sm(1) sm' frame_alloc_inv(1)[OF _ sm'] by (intro that[of sm sm']) (auto intro: pmm_step.take)
qed


theorem release_then_alloc_witness:
  "\<exists>sm sm1 sm2. pmm_inv sm [0x103000] \<and> frame_free sm 0x103000 = (sm1, True) \<and>
    frame_alloc sm1 = (sm2, Some 0x103000)"
proof -
  obtain sm where inv: "pmm_inv sm [0x103000]"
    using demo_taken by blast
  obtain sm1 ok where f: "frame_free sm 0x103000 = (sm1, ok)"
    by (cases "frame_free sm 0x103000")
  obtain sm2 res where a: "frame_alloc sm1 = (sm2, res)"
    by (cases "frame_alloc sm1")
  from release_then_alloc[OF inv _ f a] show ?thesis
    using inv f a by (intro exI[of _ sm] exI[of _ sm1] exI[of _ sm2]) simp
qed


end
