(* ===== verification/Bounded_Queue.thy ===== *)
theory Bounded_Queue
  imports Prelude
begin

text \<open>
  The contract of a bounded FIFO queue: a push is accepted exactly when there is room, a pop
  gives the oldest element. Clients get that no interleaving of pushes and pops loses,
  duplicates or reorders an accepted element, and that the queue never exceeds its capacity.
\<close>

text \<open>
  A run of requests, \<open>Some x\<close> a push of \<open>x\<close> and \<open>None\<close> a pop: the final queue, the elements
  accepted and the elements delivered, both in order.
\<close>

fun queue_run :: "('q \<Rightarrow> 'a \<Rightarrow> 'q \<times> bool) \<Rightarrow> ('q \<Rightarrow> 'q \<times> 'a option) \<Rightarrow> 'q \<Rightarrow> 'a option list \<Rightarrow>
    'q \<times> 'a list \<times> 'a list" where
  "queue_run push pop q [] = (q, [], [])"
| "queue_run push pop q (Some x # rs) = (case push q x of (q1, acc) \<Rightarrow>
     (case queue_run push pop q1 rs of (q2, ins, outs) \<Rightarrow>
       (q2, if acc then x # ins else ins, outs)))"
| "queue_run push pop q (None # rs) = (case pop q of (q1, res) \<Rightarrow>
     (case queue_run push pop q1 rs of (q2, ins, outs) \<Rightarrow>
       (q2, ins, case res of Some y \<Rightarrow> y # outs | None \<Rightarrow> outs)))"

locale bounded_queue =
  fixes items :: "'q \<Rightarrow> 'a list"
    and capacity :: "'q \<Rightarrow> nat"
    and push :: "'q \<Rightarrow> 'a \<Rightarrow> 'q \<times> bool"
    and pop :: "'q \<Rightarrow> 'q \<times> 'a option"
    and wf :: "'q \<Rightarrow> bool"
  assumes push_wf: "wf q \<Longrightarrow> wf (fst (push q x)) \<and> capacity (fst (push q x)) = capacity q"
    and push_spec: "wf q \<Longrightarrow> push q x = (q', acc) \<Longrightarrow>
      acc = (length (items q) < capacity q) \<and> items q' = (if acc then items q @ [x] else items q)"
    and pop_wf: "wf q \<Longrightarrow> wf (fst (pop q)) \<and> capacity (fst (pop q)) = capacity q"
    and pop_spec: "wf q \<Longrightarrow> pop q = (q', res) \<Longrightarrow>
      items q = (case res of None \<Rightarrow> [] | Some x \<Rightarrow> x # items q') \<and> (res = None \<longrightarrow> items q' = [])"
    and bounded: "wf q \<Longrightarrow> length (items q) \<le> capacity q"
begin

lemma run_wf: "wf q \<Longrightarrow> wf (fst (queue_run push pop q rs)) \<and> capacity (fst (queue_run push pop q rs)) = capacity q"
proof (induction rs arbitrary: q)
  case (Cons r rs)
  then show ?case
    using push_wf[of q] pop_wf[of q] by (cases r) (auto split: prod.splits, (metis fst_conv)+)
qed simp

lemma run_bounded: "wf q \<Longrightarrow> length (items (fst (queue_run push pop q rs))) \<le> capacity q"
  using bounded run_wf by metis

lemma run_fifo:
  "wf q \<Longrightarrow> queue_run push pop q rs = (q', ins, outs) \<Longrightarrow> items q @ ins = outs @ items q'"
proof (induction rs arbitrary: q ins outs)
  case Nil
  then show ?case by simp
next
  case (Cons r rs)
  show ?case
  proof (cases r)
    case None
    obtain q1 res where p: "pop q = (q1, res)" by (cases "pop q")
    obtain i2 o2 where run: "queue_run push pop q1 rs = (q', i2, o2)"
      using Cons.prems(2) None p by (auto split: prod.splits)
    then have "items q1 @ i2 = o2 @ items q'"
      using Cons.IH[of q1] pop_wf[of q] Cons.prems(1) p by auto
    then show ?thesis
      using pop_spec[OF Cons.prems(1) p] Cons.prems(2) None p run by (auto split: option.splits)
  next
    case (Some x)
    obtain q1 acc where p: "push q x = (q1, acc)" by (cases "push q x")
    obtain i2 o2 where run: "queue_run push pop q1 rs = (q', i2, o2)"
      using Cons.prems(2) Some p by (auto split: prod.splits)
    then have "items q1 @ i2 = o2 @ items q'"
      using Cons.IH[of q1] push_wf[of q x] Cons.prems(1) p by auto
    then show ?thesis
      using push_spec[OF Cons.prems(1) p] Cons.prems(2) Some p run by (auto split: if_splits)
  qed
qed

end

end
