(* ===== verification/Ipc_Frame.thy ===== *)
theory Ipc_Frame
  imports Bounded_Queue
begin

text \<open>
  The 16-byte IPC wire frame and the fixed-capacity ring of
  \<open>crates/tb-encode/src/ipc_frame.rs\<close>. The frame codec is a canonical codec (interpretation
  \<open>frame\<close>), and the ring, an array with a head index and a length, is a bounded FIFO queue
  (interpretation \<open>br\<close>).
\<close>

section \<open>The message frame\<close>

definition FRAME_SIZE :: nat where "FRAME_SIZE = 16"
definition FLAG_CAP_PRESENT :: u8 where "FLAG_CAP_PRESENT = 1"
definition FLAG_KNOWN_MASK :: u8 where "FLAG_KNOWN_MASK = FLAG_CAP_PRESENT"

record message_frame =
  mf_payload :: u64
  cap_present :: bool
  mf_rights :: u32

datatype frame_error = ShortBuffer nat nat | ReservedBitsSet

definition frame_new :: "u64 \<Rightarrow> bool \<Rightarrow> u32 \<Rightarrow> message_frame" where
  "frame_new p c r = \<lparr>mf_payload = p, cap_present = c, mf_rights = r\<rparr>"

definition frame_encode :: "message_frame \<Rightarrow> bytes" where
  "frame_encode f = (let out = replicate FRAME_SIZE 0;
     out = put 0 (le_bytes 8 (mf_payload f)) out;
     out = put 8 (le_bytes 4 (mf_rights f)) out
   in out[12 := (if cap_present f then FLAG_CAP_PRESENT else 0)])"

definition frame_decode :: "bytes \<Rightarrow> frame_error + message_frame" where
  "frame_decode bs =
     (if length bs < FRAME_SIZE then Inl (ShortBuffer FRAME_SIZE (length bs)) else
      let flags = bs ! 12 in
      if flags AND NOT FLAG_KNOWN_MASK \<noteq> 0 then Inl ReservedBitsSet
      else if bs ! 13 \<noteq> 0 \<or> bs ! 14 \<noteq> 0 \<or> bs ! 15 \<noteq> 0 then Inl ReservedBitsSet
      else Inr \<lparr>mf_payload = of_le_bytes (slice bs 0 8), cap_present = (flags AND FLAG_CAP_PRESENT \<noteq> 0),
                mf_rights = of_le_bytes (slice bs 8 4)\<rparr>)"

section \<open>The ring\<close>

record 'a bounded_ring =
  buf :: "'a list"
  rhead :: nat
  rlen :: nat

definition ring_new :: "'a \<Rightarrow> nat \<Rightarrow> 'a bounded_ring" where
  "ring_new dflt n = \<lparr>buf = replicate n dflt, rhead = 0, rlen = 0\<rparr>"

definition ring_capacity :: "'a bounded_ring \<Rightarrow> nat" where
  "ring_capacity r = length (buf r)"

definition ring_is_empty :: "'a bounded_ring \<Rightarrow> bool" where
  "ring_is_empty r \<longleftrightarrow> rlen r = 0"

definition ring_is_full :: "'a bounded_ring \<Rightarrow> bool" where
  "ring_is_full r \<longleftrightarrow> rlen r = length (buf r)"

definition ring_push :: "'a bounded_ring \<Rightarrow> 'a \<Rightarrow> 'a bounded_ring \<times> bool" where
  "ring_push r v = (if rlen r = length (buf r) then (r, False)
     else let tail = (rhead r + rlen r) mod length (buf r) in
       (r\<lparr>buf := (buf r)[tail := v], rlen := rlen r + 1\<rparr>, True))"

definition ring_pop :: "'a bounded_ring \<Rightarrow> 'a bounded_ring \<times> 'a option" where
  "ring_pop r = (if rlen r = 0 then (r, None)
     else let v = buf r ! rhead r in
       (r\<lparr>rhead := (rhead r + 1) mod length (buf r), rlen := rlen r - 1\<rparr>, Some v))"

section \<open>The frame is a canonical codec\<close>

lemma frame_encode_bytes:
  "frame_encode f = le_bytes 8 (mf_payload f) @ le_bytes 4 (mf_rights f) @
     [if cap_present f then 1 else 0, 0, 0, 0]"
  by (simp add: frame_encode_def FRAME_SIZE_def FLAG_CAP_PRESENT_def put_def eval_nat_numeral)

lemma frame_parts:
  assumes "16 \<le> length bs"
  shows "bs = slice bs 0 8 @ slice bs 8 4 @ [bs ! 12, bs ! 13, bs ! 14, bs ! 15] @ drop 16 bs"
proof -
  have "slice bs 12 4 = [bs ! 12, bs ! 13, bs ! 14, bs ! 15]"
    using assms slice_4[of 12 bs] by simp
  then show ?thesis
    using assms slice_split[of 8 bs 4] slice_split[of 12 bs 4] append_take_slice[of bs 8] by simp
qed

interpretation frame: codec frame_encode "of_result \<circ> frame_decode" "\<lambda>_. True"
proof unfold_locales
  fix r rest bs
  show "(of_result \<circ> frame_decode) (frame_encode r @ rest) = Some r"
    by (simp add: frame_decode_def frame_encode_bytes FRAME_SIZE_def FLAG_KNOWN_MASK_def
        FLAG_CAP_PRESENT_def buffer_simps nth_append)
  assume dec: "(of_result \<circ> frame_decode) bs = Some r"
  then have len: "16 \<le> length bs" and fl: "bs ! 12 = 0 \<or> bs ! 12 = 1"
    and z: "bs ! 13 = 0" "bs ! 14 = 0" "bs ! 15 = 0"
    and r: "r = \<lparr>mf_payload = of_le_bytes (slice bs 0 8), cap_present = (bs ! 12 AND 1 \<noteq> 0),
      mf_rights = of_le_bytes (slice bs 8 4)\<rparr>"
    by (auto simp: frame_decode_def FRAME_SIZE_def FLAG_KNOWN_MASK_def FLAG_CAP_PRESENT_def Let_def
        dest: low_bit_cases split: if_splits)
  have "frame_encode r = slice bs 0 8 @ slice bs 8 4 @ [bs ! 12, bs ! 13, bs ! 14, bs ! 15]"
    using len fl z by (auto simp: frame_encode_bytes r)
  then show "\<exists>rest. bs = frame_encode r @ rest"
    using frame_parts[OF len] by (metis append.assoc)
qed simp

section \<open>The ring is a bounded queue\<close>

definition ring_items :: "'a bounded_ring \<Rightarrow> 'a list" where
  "ring_items r = map (\<lambda>i. buf r ! ((rhead r + i) mod length (buf r))) [0..<rlen r]"

definition wf_ring :: "'a bounded_ring \<Rightarrow> bool" where
  "wf_ring r \<longleftrightarrow> rhead r < length (buf r) \<and> rlen r \<le> length (buf r)"

lemma mod_shift_inj:
  assumes "i < n" "j < n" "(h + i) mod n = (h + j) mod (n :: nat)"
  shows "i = j"
proof -
  have "i' = j'" if "i' \<le> j'" "j' < n" "(h + j') mod n = (h + i') mod n" for i' j'
    using that mod_eq_dvd_iff_nat[of "h + i'" "h + j'" n] by (auto dest: dvd_imp_le)
  with assms show ?thesis
    by (metis nle_le)
qed

lemma ring_push_room:
  assumes "wf_ring r" "rlen r \<noteq> length (buf r)"
  shows "ring_items (fst (ring_push r v)) = ring_items r @ [v]" "wf_ring (fst (ring_push r v))"
proof -
  let ?n = "length (buf r)"
  have inb: "k mod ?n < ?n" for k
    using assms(1) by (intro mod_less_divisor) (auto simp: wf_ring_def)
  have "(buf r)[(rhead r + rlen r) mod ?n := v] ! ((rhead r + i) mod ?n) = buf r ! ((rhead r + i) mod ?n)"
    if "i < rlen r" for i
  proof -
    have "(rhead r + rlen r) mod ?n \<noteq> (rhead r + i) mod ?n"
      using that assms mod_shift_inj[of "rlen r" ?n i "rhead r"] by (auto simp: wf_ring_def)
    then show ?thesis by simp
  qed
  then show "ring_items (fst (ring_push r v)) = ring_items r @ [v]"
    using assms inb by (simp add: ring_push_def ring_items_def wf_ring_def Let_def)
  show "wf_ring (fst (ring_push r v))"
    using assms by (simp add: ring_push_def wf_ring_def Let_def)
qed

lemma ring_pop_items:
  assumes "wf_ring r" "rlen r \<noteq> 0"
  shows "ring_items r = buf r ! rhead r # ring_items (fst (ring_pop r))" "wf_ring (fst (ring_pop r))"
proof -
  let ?n = "length (buf r)"
  have inb: "k mod ?n < ?n" for k
    using assms(1) by (intro mod_less_divisor) (auto simp: wf_ring_def)
  obtain l where l: "rlen r = Suc l"
    using assms(2) by (cases "rlen r") auto
  have "((rhead r + 1) mod ?n + i) mod ?n = (rhead r + Suc i) mod ?n" for i
    by (simp add: mod_add_left_eq)
  then show "ring_items r = buf r ! rhead r # ring_items (fst (ring_pop r))"
    using assms by (simp add: ring_pop_def ring_items_def wf_ring_def l map_upt_Suc del: upt_Suc)
  show "wf_ring (fst (ring_pop r))"
    using assms inb by (auto simp: ring_pop_def wf_ring_def Let_def)
qed

lemma length_ring_items [simp]: "length (ring_items r) = rlen r"
  by (simp add: ring_items_def)

interpretation br: bounded_queue ring_items ring_capacity ring_push ring_pop wf_ring
proof unfold_locales
  fix q q' :: "'a bounded_ring" and x acc res
  assume wf: "wf_ring q"
  show "wf_ring (fst (ring_push q x)) \<and> ring_capacity (fst (ring_push q x)) = ring_capacity q"
    using wf ring_push_room(2)[OF wf] by (auto simp: ring_push_def ring_capacity_def Let_def)
  show "wf_ring (fst (ring_pop q)) \<and> ring_capacity (fst (ring_pop q)) = ring_capacity q"
    using wf ring_pop_items(2)[OF wf] by (auto simp: ring_pop_def ring_capacity_def Let_def)
  show "length (ring_items q) \<le> ring_capacity q"
    using wf by (simp add: wf_ring_def ring_capacity_def)
  show "acc = (length (ring_items q) < ring_capacity q) \<and>
      ring_items q' = (if acc then ring_items q @ [x] else ring_items q)" if "ring_push q x = (q', acc)"
    using that wf ring_push_room(1)[OF wf, of x]
    by (auto simp: ring_push_def ring_capacity_def wf_ring_def Let_def split: if_splits)
  show "ring_items q = (case res of None \<Rightarrow> [] | Some x \<Rightarrow> x # ring_items q') \<and> (res = None \<longrightarrow> ring_items q' = [])"
    if "ring_pop q = (q', res)"
    using that ring_pop_items(1)[OF wf]
    by (auto simp: ring_pop_def ring_items_def Let_def split: if_splits)
qed

section \<open>Properties\<close>

text \<open>
  The IPC frame codec is canonical. Decoding accepts a buffer exactly when its first 16 bytes
  are the encoding of the frame it returns; every other buffer is rejected, with ShortBuffer when
  it is shorter than 16 bytes and with ReservedBitsSet otherwise.
\<close>

theorem frame_codec_canonical:
  "(frame_decode bs = Inr f \<longleftrightarrow> take 16 bs = frame_encode f) \<and>
   ((\<nexists>f. take 16 bs = frame_encode f) \<longleftrightarrow>
      frame_decode bs = Inl (if length bs < 16 then ShortBuffer 16 (length bs) else ReservedBitsSet))"
proof -
  have len: "length (frame_encode g) = 16" for g
    by (simp add: frame_encode_bytes)
  have iff: "frame_decode bs = Inr g \<longleftrightarrow> take 16 bs = frame_encode g" for g
  proof
    assume "frame_decode bs = Inr g"
    then obtain rest where "bs = frame_encode g @ rest"
      using frame.accepts_iff[of bs g] by auto
    then show "take 16 bs = frame_encode g"
      by (simp add: len)
  next
    assume "take 16 bs = frame_encode g"
    then have "bs = frame_encode g @ drop 16 bs"
      by (metis append_take_drop_id)
    then show "frame_decode bs = Inr g"
      using frame.accepts_iff[of bs g] by auto
  qed
  have err: "frame_decode bs = Inl e \<Longrightarrow> e = (if length bs < 16 then ShortBuffer 16 (length bs) else ReservedBitsSet)" for e
    by (auto simp: frame_decode_def FRAME_SIZE_def Let_def split: if_splits)
  have "(\<nexists>g. take 16 bs = frame_encode g) \<longleftrightarrow> (\<exists>e. frame_decode bs = Inl e)"
    using iff by (cases "frame_decode bs") auto
  with err iff show ?thesis
    by (cases "frame_decode bs") (auto simp del: of_result.simps)
qed



end
