(* ===== verification/Hash_Chain.thy ===== *)
theory Hash_Chain
  imports Prelude
begin

text \<open>
  Hash chains over an arbitrary fixed-width hash function: each step hashes a domain tag, the
  head so far and the next identifier. The contract asks only that digests have a fixed width;
  what clients get is that two runs with the same final head are the same run, unless the
  messages actually hashed in the two runs contain a collision of the hash, or one that hashes
  to the initial head.
\<close>

definition mix :: "(bytes \<Rightarrow> bytes) \<Rightarrow> u8 \<Rightarrow> bytes \<Rightarrow> bytes \<Rightarrow> bytes" where
  "mix hash tag h i = hash (tag # h @ i)"

fun chain_head :: "(bytes \<Rightarrow> bytes) \<Rightarrow> u8 \<Rightarrow> bytes \<Rightarrow> bytes list \<Rightarrow> bytes" where
  "chain_head hash tag h [] = h"
| "chain_head hash tag h (i # is) = chain_head hash tag (mix hash tag h i) is"

text \<open>The messages hashed on the way.\<close>

fun chain_inputs :: "(bytes \<Rightarrow> bytes) \<Rightarrow> u8 \<Rightarrow> bytes \<Rightarrow> bytes list \<Rightarrow> bytes set" where
  "chain_inputs hash tag h [] = {}"
| "chain_inputs hash tag h (i # is) = insert (tag # h @ i) (chain_inputs hash tag (mix hash tag h i) is)"

text \<open>A hash is broken on a set of messages: a collision in it, or a preimage of \<open>g\<close>.\<close>

definition broken_on :: "(bytes \<Rightarrow> bytes) \<Rightarrow> bytes \<Rightarrow> bytes set \<Rightarrow> bool" where
  "broken_on hash g S \<longleftrightarrow> (\<exists>a\<in>S. \<exists>b\<in>S. a \<noteq> b \<and> hash a = hash b) \<or> (\<exists>a\<in>S. hash a = g)"

lemma chain_head_append: "chain_head hash tag h (xs @ ys) = chain_head hash tag (chain_head hash tag h xs) ys"
  by (induction xs arbitrary: h) simp_all

lemma chain_inputs_append:
  "chain_inputs hash tag h (xs @ ys) =
     chain_inputs hash tag h xs \<union> chain_inputs hash tag (chain_head hash tag h xs) ys"
  by (induction xs arbitrary: h) auto

lemma broken_on_mono: "broken_on hash g S \<Longrightarrow> S \<subseteq> T \<Longrightarrow> broken_on hash g T"
  unfolding broken_on_def by blast

lemma not_broken_inject:
  "\<not> broken_on hash g S \<Longrightarrow> a \<in> S \<Longrightarrow> b \<in> S \<Longrightarrow> hash a = hash b \<Longrightarrow> a = b"
  unfolding broken_on_def by blast

locale hash_chain =
  fixes hash :: "bytes \<Rightarrow> bytes"
    and width :: nat
  assumes hash_width: "length (hash x) = width"
begin

lemma head_width: "length g = width \<Longrightarrow> length (chain_head hash tag g xs) = width"
  by (induction xs arbitrary: g) (simp_all add: mix_def hash_width)

lemma chain_inject:
  assumes "length g = width" "chain_head hash tag g xs = chain_head hash tag g ys"
    and "\<not> broken_on hash g (chain_inputs hash tag g xs \<union> chain_inputs hash tag g ys)"
  shows "xs = ys"
  using assms(2,3)
proof (induction xs arbitrary: ys rule: rev_induct)
  case Nil
  show ?case
  proof (cases ys rule: rev_exhaust)
    case (snoc ys' y)
    then have "hash (tag # chain_head hash tag g ys' @ y) = g"
      using Nil.prems(1) by (simp add: chain_head_append mix_def)
    with Nil.prems(2) snoc show ?thesis
      by (auto simp: broken_on_def chain_inputs_append)
  qed simp
next
  case (snoc x xs)
  show ?case
  proof (cases ys rule: rev_exhaust)
    case Nil
    then have "hash (tag # chain_head hash tag g xs @ x) = g"
      using snoc.prems(1) by (simp add: chain_head_append mix_def)
    with snoc.prems(2) Nil show ?thesis
      by (auto simp: broken_on_def chain_inputs_append)
  next
    case ys: (snoc ys' y)
    have "tag # chain_head hash tag g xs @ x = tag # chain_head hash tag g ys' @ y"
      by (rule not_broken_inject[OF snoc.prems(2)])
        (use snoc.prems(1) ys in \<open>simp_all add: chain_head_append chain_inputs_append mix_def\<close>)
    then have "chain_head hash tag g xs = chain_head hash tag g ys'" "x = y"
      using head_width[OF assms(1)] by simp_all
    moreover from this(1) have "xs = ys'"
      using snoc.prems(2) ys
      by (intro snoc.IH) (auto simp: chain_inputs_append elim!: contrapos_nn broken_on_mono)
    ultimately show ?thesis
      using ys by simp
  qed
qed

end

text \<open>
  A chain of records: the identifiers are the hashes of the records' encodings. With an injective
  encoding the chain head determines the records.
\<close>

definition record_inputs :: "(bytes \<Rightarrow> bytes) \<Rightarrow> u8 \<Rightarrow> bytes \<Rightarrow> ('r \<Rightarrow> bytes) \<Rightarrow> 'r list \<Rightarrow> bytes set" where
  "record_inputs hash tag g enc rs = enc ` set rs \<union> chain_inputs hash tag g (map (hash \<circ> enc) rs)"

locale record_chain = hash_chain hash width
  for hash :: "bytes \<Rightarrow> bytes" and width :: nat +
  fixes enc :: "'r \<Rightarrow> bytes"
    and ok :: "'r \<Rightarrow> bool"
  assumes enc_inj: "ok r \<Longrightarrow> ok s \<Longrightarrow> enc r = enc s \<Longrightarrow> r = s"
begin

lemma records_inject:
  assumes "length g = width" "\<forall>r\<in>set rs. ok r" "\<forall>s\<in>set ss. ok s"
    and "chain_head hash tag g (map (hash \<circ> enc) rs) = chain_head hash tag g (map (hash \<circ> enc) ss)"
    and nb: "\<not> broken_on hash g (record_inputs hash tag g enc rs \<union> record_inputs hash tag g enc ss)"
  shows "rs = ss"
proof -
  have ids: "map (hash \<circ> enc) rs = map (hash \<circ> enc) ss"
    by (rule chain_inject[OF assms(1,4)])
      (use nb in \<open>auto simp: record_inputs_def elim!: contrapos_nn broken_on_mono\<close>)
  have "a = b" if "a \<in> set rs" "b \<in> set ss" "(hash \<circ> enc) a = (hash \<circ> enc) b" for a b
  proof -
    have "enc a = enc b"
      by (rule not_broken_inject[OF nb]) (use that in \<open>auto simp: record_inputs_def\<close>)
    with that(1,2) assms(2,3) show ?thesis
      by (simp add: enc_inj)
  qed
  then show ?thesis
    using ids by (rule list.inj_map_strong)
qed

end

text \<open>A canonical codec is an injective encoding.\<close>

locale codec_chain = hash_chain hash width + codec enc dec ok
  for hash :: "bytes \<Rightarrow> bytes" and width :: nat and enc :: "'r \<Rightarrow> bytes"
    and dec :: "bytes \<Rightarrow> 'r option" and ok :: "'r \<Rightarrow> bool"

sublocale codec_chain \<subseteq> records: record_chain hash width enc ok
  by unfold_locales (simp add: enc_inject)

end
