(* ===== verification/Khash.thy ===== *)
theory Khash
  imports Prelude
begin

text \<open>
  BLAKE2s-256 as implemented in \<open>crates/tb-encode/src/khash.rs\<close>: the mixing function, the
  compression function, the keyed and unkeyed drivers and the known-answer test. A fixed array
  is a list of its length; the block loop walks the message by an offset.
\<close>

section \<open>Compression\<close>

definition KHASH_KEY_LEN :: nat where "KHASH_KEY_LEN = 32"
definition KHASH_TAG_LEN :: nat where "KHASH_TAG_LEN = 32"
definition BLOCK_LEN :: nat where "BLOCK_LEN = 64"
definition ROUNDS :: nat where "ROUNDS = 10"

definition IV :: "u32 list" where
  "IV = [0x6A09E667, 0xBB67AE85, 0x3C6EF372, 0xA54FF53A,
         0x510E527F, 0x9B05688C, 0x1F83D9AB, 0x5BE0CD19]"

definition sigma_schedule :: "nat list list" where
  "sigma_schedule = [
    [0, 1, 2, 3, 4, 5, 6, 7, 8, 9, 10, 11, 12, 13, 14, 15],
    [14, 10, 4, 8, 9, 15, 13, 6, 1, 12, 0, 2, 11, 7, 5, 3],
    [11, 8, 12, 0, 5, 2, 15, 13, 10, 14, 3, 6, 7, 1, 9, 4],
    [7, 9, 3, 1, 13, 12, 11, 14, 2, 6, 5, 10, 4, 0, 15, 8],
    [9, 0, 5, 7, 2, 4, 10, 15, 14, 1, 11, 12, 6, 8, 3, 13],
    [2, 12, 6, 10, 0, 11, 8, 3, 4, 13, 7, 5, 15, 14, 1, 9],
    [12, 5, 1, 15, 14, 13, 4, 10, 0, 7, 6, 3, 9, 2, 8, 11],
    [13, 11, 7, 14, 12, 1, 3, 9, 5, 0, 15, 4, 8, 6, 2, 10],
    [6, 15, 14, 9, 11, 3, 0, 8, 12, 2, 13, 7, 1, 4, 10, 5],
    [10, 2, 8, 4, 7, 6, 1, 5, 15, 11, 9, 14, 3, 12, 13, 0]]"

definition g_mix ::
  "nat \<Rightarrow> nat \<Rightarrow> nat \<Rightarrow> nat \<Rightarrow> u32 \<Rightarrow> u32 \<Rightarrow> u32 list \<Rightarrow> u32 list" where
  "g_mix a b c d x y v = (let
     v = v[a := v ! a + v ! b + x];
     v = v[d := rotate_right 16 (v ! d XOR v ! a)];
     v = v[c := v ! c + v ! d];
     v = v[b := rotate_right 12 (v ! b XOR v ! c)];
     v = v[a := v ! a + v ! b + y];
     v = v[d := rotate_right 8 (v ! d XOR v ! a)];
     v = v[c := v ! c + v ! d]
   in v[b := rotate_right 7 (v ! b XOR v ! c)])"

definition block_words :: "bytes \<Rightarrow> u32 list" where
  "block_words block = map (\<lambda>w. of_le_bytes (slice block (w * 4) 4)) [0..<16]"

definition round_mix :: "u32 list \<Rightarrow> nat list \<Rightarrow> u32 list \<Rightarrow> u32 list" where
  "round_mix m s v = (let
     v = g_mix 0 4 8 12 (m ! (s ! 0)) (m ! (s ! 1)) v;
     v = g_mix 1 5 9 13 (m ! (s ! 2)) (m ! (s ! 3)) v;
     v = g_mix 2 6 10 14 (m ! (s ! 4)) (m ! (s ! 5)) v;
     v = g_mix 3 7 11 15 (m ! (s ! 6)) (m ! (s ! 7)) v;
     v = g_mix 0 5 10 15 (m ! (s ! 8)) (m ! (s ! 9)) v;
     v = g_mix 1 6 11 12 (m ! (s ! 10)) (m ! (s ! 11)) v;
     v = g_mix 2 7 8 13 (m ! (s ! 12)) (m ! (s ! 13)) v
   in g_mix 3 4 9 14 (m ! (s ! 14)) (m ! (s ! 15)) v)"

definition compress :: "u32 list \<Rightarrow> bytes \<Rightarrow> u64 \<Rightarrow> bool \<Rightarrow> u32 list" where
  "compress h block t is_last = (let
     m = block_words block;
     v = h @ IV;
     v = v[12 := v ! 12 XOR ucast t];
     v = v[13 := v ! 13 XOR ucast (drop_bit 32 t)];
     v = (if is_last then v[14 := NOT (v ! 14)] else v);
     v = fold (round_mix m) sigma_schedule v
   in map (\<lambda>j. h ! j XOR (v ! j XOR v ! (j + 8))) [0..<8])"

definition digest_bytes :: "u32 list \<Rightarrow> bytes" where
  "digest_bytes h = concat (map (le_bytes 4) h)"

section \<open>The hash\<close>

text \<open>\<open>zero_block xs\<close> is \<open>[0u8; BLOCK_LEN]\<close> with \<open>xs\<close> copied to its front.\<close>

definition zero_block :: "bytes \<Rightarrow> bytes" where
  "zero_block xs = put 0 xs (replicate BLOCK_LEN 0)"

text \<open>The loop over the blocks before the last, on the offset; then the final block.\<close>

function full_blocks :: "bytes \<Rightarrow> nat \<Rightarrow> u64 \<Rightarrow> u32 list \<Rightarrow> nat \<times> u64 \<times> u32 list" where
  "full_blocks msg off t h = (if length msg - off > BLOCK_LEN
     then let t' = t + of_nat BLOCK_LEN in
       full_blocks msg (off + BLOCK_LEN) t' (compress h (slice msg off BLOCK_LEN) t' False)
     else (off, t, h))"
  by auto
termination
  by (relation "measure (\<lambda>(msg, off, t, h). length msg - off)") (auto simp: BLOCK_LEN_def)

declare full_blocks.simps [simp del]

definition finish :: "bytes \<Rightarrow> u64 \<Rightarrow> u32 list \<Rightarrow> bytes" where
  "finish msg t h = (case full_blocks msg 0 t h of (off, t, h) \<Rightarrow>
     let rem = length msg - off; t = t + of_nat rem
     in digest_bytes (compress h (zero_block (slice msg off rem)) t True))"

definition blake2s :: "bytes option \<Rightarrow> bytes \<Rightarrow> bytes" where
  "blake2s key msg = (let
     kk = (case key of Some _ \<Rightarrow> of_nat KHASH_KEY_LEN | None \<Rightarrow> 0);
     h = IV[0 := IV ! 0 XOR (0x01010000 XOR push_bit 8 kk XOR of_nat KHASH_TAG_LEN)]
   in case key of
        Some k \<Rightarrow>
          let block = zero_block k; t = of_nat BLOCK_LEN; h = compress h block t (msg = []) in
          if msg = [] then digest_bytes h else finish msg t h
      | None \<Rightarrow>
          if msg = [] then digest_bytes (compress h (zero_block []) 0 True) else finish msg 0 h)"

definition khash :: "bytes \<Rightarrow> bytes \<Rightarrow> bytes" where
  "khash key msg = blake2s (Some key) msg"

definition uhash :: "bytes \<Rightarrow> bytes" where
  "uhash msg = blake2s None msg"

section \<open>The known-answer test\<close>

definition KAT_ABC_UNKEYED :: bytes where
  "KAT_ABC_UNKEYED = [
    0x50, 0x8C, 0x5E, 0x8C, 0x32, 0x7C, 0x14, 0xE2,
    0xE1, 0xA7, 0x2B, 0xA3, 0x4E, 0xEB, 0x45, 0x2F,
    0x37, 0x45, 0x8B, 0x20, 0x9E, 0xD6, 0x3A, 0x29,
    0x4D, 0x99, 0x9B, 0x4C, 0x86, 0x67, 0x59, 0x82]"

definition KAT_KEYED_EMPTY :: bytes where
  "KAT_KEYED_EMPTY = [
    0x48, 0xA8, 0x99, 0x7D, 0xA4, 0x07, 0x87, 0x6B,
    0x3D, 0x79, 0xC0, 0xD9, 0x23, 0x25, 0xAD, 0x3B,
    0x89, 0xCB, 0xB7, 0x54, 0xD8, 0x6A, 0xB7, 0x1A,
    0xEE, 0x04, 0x7A, 0xD3, 0x45, 0xFD, 0x2C, 0x49]"

definition KAT_KEYED_65 :: bytes where
  "KAT_KEYED_65 = [
    0x21, 0xFE, 0x0C, 0xEB, 0x00, 0x52, 0xBE, 0x7F,
    0xB0, 0xF0, 0x04, 0x18, 0x7C, 0xAC, 0xD7, 0xDE,
    0x67, 0xFA, 0x6E, 0xB0, 0x93, 0x8D, 0x92, 0x76,
    0x77, 0xF2, 0x39, 0x8C, 0x13, 0x23, 0x17, 0xA8]"

definition KAT_KEY :: bytes where
  "KAT_KEY = map of_nat [0..<KHASH_KEY_LEN]"

definition kat_msg_65 :: bytes where
  "kat_msg_65 = map of_nat [0..<65]"

definition kat_ok :: bool where
  "kat_ok \<longleftrightarrow> (let abc = uhash [0x61, 0x62, 0x63]; keyed_empty = khash KAT_KEY [];
     keyed_65 = khash KAT_KEY kat_msg_65
   in list_all (\<lambda>i. abc ! i = KAT_ABC_UNKEYED ! i \<and> keyed_empty ! i = KAT_KEYED_EMPTY ! i \<and>
        keyed_65 ! i = KAT_KEYED_65 ! i) [0..<KHASH_TAG_LEN])"

section \<open>The reference driver\<close>

text \<open>
  RFC 7693, section 3.3: the data is split into 64-byte blocks, the last zero-padded, with the
  padded key as an extra first block in keyed mode and one zero block when there is no data;
  all blocks but the last are compressed with the running byte count, the last one with the
  true byte count (plus a block when keyed) and the final flag.
\<close>

function rfc_blocks :: "bytes \<Rightarrow> bytes list" where
  "rfc_blocks xs = (if length xs \<le> 64 then [zero_block xs] else take 64 xs # rfc_blocks (drop 64 xs))"
  by auto
termination
  by (relation "measure length") auto

declare rfc_blocks.simps [simp del]

fun rfc_fold :: "nat \<Rightarrow> nat \<Rightarrow> bytes list \<Rightarrow> u32 list \<Rightarrow> u32 list" where
  "rfc_fold ll i [] h = h"
| "rfc_fold ll i [b] h = compress h b (of_nat ll) True"
| "rfc_fold ll i (b # b2 # bs) h = rfc_fold ll (i + 1) (b2 # bs) (compress h b (of_nat ((i + 1) * 64)) False)"

definition rfc_blake2s :: "bytes option \<Rightarrow> bytes \<Rightarrow> bytes" where
  "rfc_blake2s key msg = (let
     kk = (case key of None \<Rightarrow> 0 | Some k \<Rightarrow> length k);
     data = (if msg = [] then [] else rfc_blocks msg);
     blocks = (case key of None \<Rightarrow> if msg = [] then [zero_block []] else data | Some k \<Rightarrow> zero_block k # data);
     h0 = IV[0 := IV ! 0 XOR of_nat (0x01010000 + kk * 256 + 32)]
   in digest_bytes (rfc_fold (length msg + (if key = None then 0 else 64)) 0 blocks h0))"

lemma rfc_blocks_nonempty: "rfc_blocks xs \<noteq> []"
  by (subst rfc_blocks.simps) simp

lemma rfc_fold_step:
  "bs \<noteq> [] \<Longrightarrow> rfc_fold ll i (b # bs) h = rfc_fold ll (i + 1) bs (compress h b (of_nat ((i + 1) * 64)) False)"
  by (cases bs) simp_all

lemma full_blocks_fold:
  assumes "off < length msg" "full_blocks msg off t h = (off', t', h')" "t = of_nat (i * 64)"
    and "ll = i * 64 + (length msg - off)"
  shows "compress h' (zero_block (slice msg off' (length msg - off'))) (t' + of_nat (length msg - off')) True =
    rfc_fold ll i (rfc_blocks (drop off msg)) h"
  using assms
proof (induction "length msg - off" arbitrary: off t h i rule: less_induct)
  case less
  show ?case
  proof (cases "length msg - off > 64")
    case True
    let ?h = "compress h (slice msg off 64) (t + 64) False"
    have fb: "full_blocks msg (off + 64) (t + 64) ?h = (off', t', h')"
      using less.prems(2) True full_blocks.simps[of msg off t h] by (simp add: BLOCK_LEN_def Let_def)
    have "compress h' (zero_block (slice msg off' (length msg - off'))) (t' + of_nat (length msg - off')) True =
        rfc_fold ll (i + 1) (rfc_blocks (drop (off + 64) msg)) ?h"
      using less.prems True by (intro less.hyps[OF _ _ fb]) (auto simp: algebra_simps)
    moreover have "rfc_blocks (drop off msg) = slice msg off 64 # rfc_blocks (drop (off + 64) msg)"
      using True by (subst rfc_blocks.simps) (simp add: slice_def add.commute)
    ultimately show ?thesis
      using less.prems(3) by (simp add: rfc_fold_step rfc_blocks_nonempty algebra_simps)
  next
    case False
    then have "off' = off" "t' = t" "h' = h"
      using less.prems(2) by (simp_all add: full_blocks.simps BLOCK_LEN_def)
    moreover have "rfc_blocks (drop off msg) = [zero_block (slice msg off (length msg - off))]"
      using False by (subst rfc_blocks.simps) (simp add: slice_def)
    ultimately show ?thesis
      using less.prems(3,4) by simp
  qed
qed

lemma finish_fold:
  "msg \<noteq> [] \<Longrightarrow> finish msg (of_nat (i * 64)) h =
    digest_bytes (rfc_fold (i * 64 + length msg) i (rfc_blocks msg) h)"
  using full_blocks_fold[of 0 msg "of_nat (i * 64)" h _ _ _ i "i * 64 + length msg"]
  by (auto simp: finish_def Let_def split: prod.splits)



lemma length_compress [simp]: "length (compress h b t l) = 8"
  by (simp add: compress_def Let_def)

lemma length_digest: "length (digest_bytes h) = 4 * length h"
  by (induction h) (simp_all add: digest_bytes_def)

lemma length_uhash [simp]: "length (uhash msg) = 32"
  by (auto simp: uhash_def blake2s_def finish_def length_digest Let_def split: prod.splits)

lemma length_khash [simp]: "length (khash key msg) = 32"
  by (auto simp: khash_def blake2s_def finish_def length_digest Let_def split: prod.splits)

end
