(* ===== verification/Prov.thy ===== *)
theory Prov
  imports Hash_Chain Khash
begin

text \<open>
  The provenance ledger of \<open>crates/tb-encode/src/prov.rs\<close>: the canonical encoding of an entry,
  the fold of entry identifiers into a running head, inclusion proofs and the ledger step. The
  fold is a hash chain over the unkeyed BLAKE2s of \<open>Khash\<close> (interpretation \<open>prov\<close>).
\<close>

definition PROV_HASH_LEN :: nat where "PROV_HASH_LEN = 32"
definition CANON_PREFIX_LEN :: nat where "CANON_PREFIX_LEN = 1 + 1 + 8 + 8 + 8 + 8"
definition CANON_PARENT_LEN :: nat where "CANON_PARENT_LEN = PROV_HASH_LEN"
definition MIX_DOMAIN :: u8 where "MIX_DOMAIN = 0xC3"

definition KIND_WRITE :: u8 where "KIND_WRITE = 1"
definition KIND_FORGET :: u8 where "KIND_FORGET = 2"
definition KIND_SKILL_ADMIT :: u8 where "KIND_SKILL_ADMIT = 3"
definition KIND_CONDUCT_DECISION :: u8 where "KIND_CONDUCT_DECISION = 4"

record prov_entry =
  pe_kind :: u8
  payload_tok :: u64
  tier :: u8
  writer_cap_id :: u64
  t_created :: u64
  parent_ids :: "bytes list"

text \<open>\<open>usize\<close> saturates at \<open>2 ^ 64 - 1\<close>.\<close>

definition canon_len :: "prov_entry \<Rightarrow> nat" where
  "canon_len e = (let sat = (\<lambda>n. min n (2 ^ 64 - 1)) in
     sat (CANON_PREFIX_LEN + sat (length (parent_ids e) * PROV_HASH_LEN)))"

fun put_parents :: "nat \<Rightarrow> bytes list \<Rightarrow> bytes \<Rightarrow> bytes" where
  "put_parents p [] out = out"
| "put_parents p (x # xs) out =
     put_parents (p + 1) xs (put (CANON_PREFIX_LEN + p * PROV_HASH_LEN) x out)"

text \<open>The buffer after the call, and the number of bytes written.\<close>

definition canon :: "prov_entry \<Rightarrow> bytes \<Rightarrow> bytes \<times> nat" where
  "canon e out = (let n = length (parent_ids e); total = canon_len e in
     if length out < total then (out, 0)
     else let
       out = out[0 := pe_kind e];
       out = out[1 := tier e];
       out = put 2 (le_bytes 8 (payload_tok e)) out;
       out = put 10 (le_bytes 8 (writer_cap_id e)) out;
       out = put 18 (le_bytes 8 (t_created e)) out;
       out = put 26 (le_bytes 8 (of_nat n :: u64)) out
     in (put_parents 0 (parent_ids e) out, total))"

definition prov_hash :: "bytes \<Rightarrow> bytes" where
  "prov_hash bs = uhash bs"

definition chain_mix :: "bytes \<Rightarrow> bytes \<Rightarrow> bytes" where
  "chain_mix head entry_id = (let
     buf = replicate (1 + PROV_HASH_LEN + PROV_HASH_LEN) 0;
     buf = buf[0 := MIX_DOMAIN];
     buf = put 1 head buf;
     buf = put (1 + PROV_HASH_LEN) entry_id buf
   in prov_hash buf)"

fun fold_siblings :: "bytes \<Rightarrow> bytes list \<Rightarrow> bytes" where
  "fold_siblings acc [] = acc"
| "fold_siblings acc (s # ss) = fold_siblings (chain_mix acc s) ss"

definition recompute :: "bytes \<Rightarrow> bytes list \<Rightarrow> bytes" where
  "recompute leaf siblings = fold_siblings (chain_mix (replicate PROV_HASH_LEN 0) leaf) siblings"

definition verify_inclusion :: "bytes \<Rightarrow> bytes list \<Rightarrow> bytes \<Rightarrow> bool" where
  "verify_inclusion leaf siblings head \<longleftrightarrow> recompute leaf siblings = head"

definition prov_append :: "bytes \<Rightarrow> prov_entry \<Rightarrow> bytes \<Rightarrow> (bytes \<times> bytes) option" where
  "prov_append head e scratch = (case canon e scratch of (out, n) \<Rightarrow>
     if n = 0 then None
     else let entry_id = prov_hash (take n out) in Some (chain_mix head entry_id, entry_id))"

definition head_witness :: "bytes \<Rightarrow> u64" where
  "head_witness head = fold (\<lambda>l acc. acc XOR of_le_bytes (slice head (l * 8) 8)) [0..<4] 0"

section \<open>The canonical encoding\<close>

definition wf_entry :: "prov_entry \<Rightarrow> bool" where
  "wf_entry e \<longleftrightarrow> (\<forall>p\<in>set (parent_ids e). length p = 32) \<and> 34 + 32 * length (parent_ids e) < 2 ^ 64"

definition canon_bytes :: "prov_entry \<Rightarrow> bytes" where
  "canon_bytes e = [pe_kind e, tier e] @ le_bytes 8 (payload_tok e) @ le_bytes 8 (writer_cap_id e) @
     le_bytes 8 (t_created e) @ le_bytes 8 (of_nat (length (parent_ids e)) :: u64) @ concat (parent_ids e)"

lemmas prov_lens = PROV_HASH_LEN_def CANON_PREFIX_LEN_def

lemma canon_len_wf: "wf_entry e \<Longrightarrow> canon_len e = 34 + 32 * length (parent_ids e)"
  by (simp add: canon_len_def wf_entry_def prov_lens Let_def min_def)

lemma length_concat_ids: "\<forall>p\<in>set ps. length p = 32 \<Longrightarrow> length (concat ps) = 32 * length ps"
  by (induction ps) auto

lemma length_canon_bytes: "wf_entry e \<Longrightarrow> length (canon_bytes e) = canon_len e"
  by (simp add: canon_bytes_def canon_len_wf length_concat_ids wf_entry_def)

lemma put_parents_append:
  assumes "\<forall>x\<in>set xs. length x = 32" "length pre = 34 + 32 * p" "32 * length xs \<le> length rest"
  shows "put_parents p xs (pre @ rest) = pre @ concat xs @ drop (32 * length xs) rest"
  using assms
proof (induction xs arbitrary: p pre rest)
  case (Cons x xs)
  have "put (34 + p * 32) x (pre @ rest) = (pre @ x) @ drop 32 rest"
    using Cons.prems by (subst put_append) (auto simp: mult.commute)
  then show ?case
    using Cons.prems Cons.IH[of "pre @ x" "p + 1" "drop 32 rest"]
    by (simp add: prov_lens mult.commute add.commute)
qed simp

lemma canon_writes:
  assumes "wf_entry e" "canon_len e \<le> length out"
  shows "canon e out = (canon_bytes e @ drop (canon_len e) out, canon_len e)"
proof -
  let ?n = "32 * length (parent_ids e)"
  have len: "canon_len e = 34 + ?n"
    by (rule canon_len_wf[OF assms(1)])
  let ?pre = "[pe_kind e, tier e] @ le_bytes 8 (payload_tok e) @ le_bytes 8 (writer_cap_id e) @
     le_bytes 8 (t_created e) @ le_bytes 8 (of_nat (length (parent_ids e)) :: u64)"
  obtain a b out' where out: "out = a # b # out'"
    using assms(2) len by (cases out; cases "tl out") auto
  have pre: "put 26 (le_bytes 8 (of_nat (length (parent_ids e)) :: u64)) (put 18 (le_bytes 8 (t_created e))
      (put 10 (le_bytes 8 (writer_cap_id e)) (put 2 (le_bytes 8 (payload_tok e)) (out[0 := pe_kind e, 1 := tier e]))))
      = ?pre @ drop 34 out"
    using assms(2) len out by (simp add: buffer_simps)
  have "put_parents 0 (parent_ids e) (?pre @ drop 34 out) =
      ?pre @ concat (parent_ids e) @ drop ?n (drop 34 out)"
    using assms len by (intro put_parents_append) (auto simp: wf_entry_def)
  then show ?thesis
    using assms(2) len pre by (simp add: canon_def canon_bytes_def add.commute Let_def)
qed

lemma canon_bytes_inject:
  assumes "wf_entry e" "wf_entry e'" "canon_bytes e @ xs = canon_bytes e' @ ys"
  shows "e = e' \<and> xs = ys"
proof -
  have n: "length (parent_ids e) < 2 ^ 64" "length (parent_ids e') < 2 ^ 64"
    using assms(1,2) by (simp_all add: wf_entry_def)
  have eqs: "pe_kind e = pe_kind e'" "tier e = tier e'" "payload_tok e = payload_tok e'"
    "writer_cap_id e = writer_cap_id e'" "t_created e = t_created e'"
    "(of_nat (length (parent_ids e)) :: u64) = of_nat (length (parent_ids e'))"
    and tails: "concat (parent_ids e) @ xs = concat (parent_ids e') @ ys"
    using assms(3) by (auto simp: canon_bytes_def le_bytes_inject)
  have len: "length (parent_ids e) = length (parent_ids e')"
    using arg_cong[OF eqs(6), of unat] n by (simp add: unat_of_nat take_bit_nat_eq_self)
  then have "concat (parent_ids e) = concat (parent_ids e')" "xs = ys"
    using tails assms(1,2) length_concat_ids[of "parent_ids e"] length_concat_ids[of "parent_ids e'"]
    by (simp_all add: wf_entry_def)
  moreover have "parent_ids e = parent_ids e'"
  proof (rule concat_injective[OF calculation(1) len])
    show "\<forall>(x, y)\<in>set (zip (parent_ids e) (parent_ids e')). length x = length y"
      using assms(1,2) by (auto simp: wf_entry_def) (metis set_zip_leftD set_zip_rightD)
  qed
  ultimately show ?thesis
    using eqs by (cases e; cases e') simp
qed

section \<open>The ledger is a hash chain\<close>

interpretation prov: hash_chain uhash 32
  by unfold_locales simp

abbreviation genesis :: bytes where
  "genesis \<equiv> replicate 32 0"

lemma chain_mix_mix:
  "length h = 32 \<Longrightarrow> length i = 32 \<Longrightarrow> chain_mix h i = mix uhash MIX_DOMAIN h i"
  by (simp add: chain_mix_def mix_def prov_hash_def PROV_HASH_LEN_def Let_def put_def eval_nat_numeral)

lemma fold_siblings_chain:
  "length h = 32 \<Longrightarrow> \<forall>i\<in>set is. length i = 32 \<Longrightarrow> fold_siblings h is = chain_head uhash MIX_DOMAIN h is"
  by (induction "is" arbitrary: h) (simp_all add: chain_mix_mix mix_def)

lemma recompute_chain:
  "\<forall>i\<in>set (leaf # sibs). length i = 32 \<Longrightarrow> recompute leaf sibs = chain_head uhash MIX_DOMAIN genesis (leaf # sibs)"
  using fold_siblings_chain[of genesis "leaf # sibs"] by (simp add: recompute_def PROV_HASH_LEN_def)

text \<open>The ledger of an agent: every entry appended to the head with a large enough scratch buffer.\<close>

fun ledger :: "bytes \<Rightarrow> (prov_entry \<times> bytes) list \<Rightarrow> bytes option" where
  "ledger head [] = Some head"
| "ledger head ((e, scratch) # es) = (case prov_append head e scratch of
     None \<Rightarrow> None | Some (head', _) \<Rightarrow> ledger head' es)"

definition entry_id :: "prov_entry \<Rightarrow> bytes" where
  "entry_id e = uhash (canon_bytes e)"

text \<open>The messages a ledger run hashes: the canonical entries and the fold inputs.\<close>

definition ledger_inputs :: "prov_entry list \<Rightarrow> bytes set" where
  "ledger_inputs = record_inputs uhash MIX_DOMAIN genesis canon_bytes"

interpretation entries: record_chain uhash 32 canon_bytes wf_entry
  by unfold_locales (use canon_bytes_inject[of _ _ "[]" "[]"] in simp)

lemma prov_append_ok:
  assumes "wf_entry e" "length head = 32"
  shows "prov_append head e scratch =
    (if length scratch < canon_len e then None else Some (mix uhash MIX_DOMAIN head (entry_id e), entry_id e))"
proof (cases "length scratch < canon_len e")
  case True
  then show ?thesis by (simp add: prov_append_def canon_def Let_def)
next
  case False
  then have "canon e scratch = (canon_bytes e @ drop (canon_len e) scratch, canon_len e)" "canon_len e \<noteq> 0"
    using assms(1) by (simp_all add: canon_writes canon_len_wf)
  then show ?thesis
    using False assms length_canon_bytes[OF assms(1)]
    by (simp add: prov_append_def prov_hash_def entry_id_def chain_mix_mix Let_def)
qed

lemma ledger_chain:
  assumes "\<forall>(e, s)\<in>set es. wf_entry e \<and> canon_len e \<le> length s" "length head = 32"
  shows "ledger head es = Some (chain_head uhash MIX_DOMAIN head (map (entry_id \<circ> fst) es))"
  using assms by (induction es arbitrary: head) (auto simp: prov_append_ok mix_def)

section \<open>Properties\<close>

text \<open>
  The canonical entry encoding is total and injective. With a buffer of at least the canonical
  length, canon writes exactly the canonical bytes at the front and returns their number; with a
  shorter one it writes nothing and returns 0; and distinct well-formed entries never encode to
  the same bytes, nor is one encoding a prefix of another.
\<close>

theorem canon_total_injective:
  assumes "wf_entry e" "wf_entry e'"
  shows "(if length out < canon_len e then canon e out = (out, 0)
      else take (canon_len e) (fst (canon e out)) = canon_bytes e \<and>
        drop (canon_len e) (fst (canon e out)) = drop (canon_len e) out \<and> snd (canon e out) = length (canon_bytes e)) \<and>
    (canon_bytes e @ xs = canon_bytes e' @ ys \<longleftrightarrow> e = e' \<and> xs = ys)"
proof -
  have "canon e out = (out, 0)" if "length out < canon_len e"
    using that by (simp add: canon_def Let_def)
  moreover have "canon_bytes e @ xs = canon_bytes e' @ ys \<longleftrightarrow> e = e' \<and> xs = ys"
    using canon_bytes_inject[OF assms] by blast
  ultimately show ?thesis
    using canon_writes[OF assms(1), of out] length_canon_bytes[OF assms(1)] by auto
qed

text \<open>
  C10: The provenance ledger is tamper-evident. If two ledgers of well-formed entries end in the same
  head, they hold the same entries in the same order, unless the messages the two runs hashed
  contain a collision of the hash or a preimage of the all-zero genesis head. In particular an
  altered, dropped, added or reordered entry changes the head.
\<close>

theorem ledger_tamper_evident:
  assumes "\<forall>(e, s)\<in>set es. wf_entry e \<and> canon_len e \<le> length s"
    and "\<forall>(e, s)\<in>set es'. wf_entry e \<and> canon_len e \<le> length s"
    and "ledger genesis es = ledger genesis es'"
  shows "map fst es = map fst es' \<or>
    broken_on uhash genesis (ledger_inputs (map fst es) \<union> ledger_inputs (map fst es'))"
proof (rule disjCI)
  assume nb: "\<not> broken_on uhash genesis (ledger_inputs (map fst es) \<union> ledger_inputs (map fst es'))"
  have "chain_head uhash MIX_DOMAIN genesis (map (uhash \<circ> canon_bytes) (map fst es)) =
      chain_head uhash MIX_DOMAIN genesis (map (uhash \<circ> canon_bytes) (map fst es'))"
    using assms(3) ledger_chain[OF assms(1), of genesis] ledger_chain[OF assms(2), of genesis]
    by (simp add: entry_id_def comp_def)
  then show "map fst es = map fst es'"
    using nb assms(1,2) by (intro entries.records_inject[of genesis]) (auto simp: ledger_inputs_def)
qed

text \<open>
  C21: Inclusion proofs are sound and complete. The honest proof, the identifiers of a ledger in
  order, is accepted; and a leaf and sibling list accepted against a ledger's head are exactly
  the identifiers of its entries in order, unless the messages hashed contain a collision or a
  preimage of the genesis head.
\<close>

theorem inclusion_sound:
  assumes "\<forall>(e, s)\<in>set es. wf_entry e \<and> canon_len e \<le> length s" "es \<noteq> []"
    and "\<forall>i\<in>set (leaf # sibs). length i = 32" "ledger genesis es = Some head"
  shows "(let ids = map (entry_id \<circ> fst) es in verify_inclusion (hd ids) (tl ids) head \<and>
    (verify_inclusion leaf sibs head \<longrightarrow> leaf # sibs = ids \<or>
      broken_on uhash genesis (chain_inputs uhash MIX_DOMAIN genesis (leaf # sibs) \<union> chain_inputs uhash MIX_DOMAIN genesis ids)))"
proof -
  let ?ids = "map (entry_id \<circ> fst) es"
  have head: "head = chain_head uhash MIX_DOMAIN genesis ?ids"
    using ledger_chain[OF assms(1), of genesis] assms(4) by simp
  have ids: "?ids = hd ?ids # tl ?ids" "\<forall>i\<in>set ?ids. length i = 32"
    using assms(2) by (auto simp: entry_id_def)
  have "verify_inclusion (hd ?ids) (tl ?ids) head"
    using recompute_chain[of "hd ?ids" "tl ?ids"] ids head unfolding verify_inclusion_def by metis
  moreover have "leaf # sibs = ?ids" if "verify_inclusion leaf sibs head"
    "\<not> broken_on uhash genesis (chain_inputs uhash MIX_DOMAIN genesis (leaf # sibs) \<union> chain_inputs uhash MIX_DOMAIN genesis ?ids)"
    using that(1) recompute_chain[OF assms(3)] head
    by (intro prov.chain_inject[OF _ _ that(2)]) (simp_all add: verify_inclusion_def)
  ultimately show ?thesis
    unfolding Let_def by blast
qed

definition demo_entry :: "u64 \<Rightarrow> prov_entry" where
  "demo_entry n = \<lparr>pe_kind = KIND_WRITE, payload_tok = n, tier = 1, writer_cap_id = 7, t_created = 42,
     parent_ids = []\<rparr>"

lemma demo_entry_wf: "wf_entry (demo_entry n)" "canon_len (demo_entry n) = 34"
  by (simp_all add: wf_entry_def demo_entry_def canon_len_wf)

theorem canon_total_injective_witness:
  "canon_bytes (demo_entry 1) \<noteq> canon_bytes (demo_entry 2) \<and> canon (demo_entry 1) [] = ([], 0)"
  using canon_total_injective[OF demo_entry_wf(1) demo_entry_wf(1), of "[]" 1 "[]" 2 "[]"]
  by (simp add: demo_entry_wf(2)) (simp add: demo_entry_def)

theorem ledger_tamper_evident_witness:
  "\<exists>head. ledger genesis [(demo_entry 1, replicate 64 0), (demo_entry 2, replicate 64 0)] = Some head \<and>
    (map fst [(demo_entry 1, replicate 64 (0 :: u8)), (demo_entry 2, replicate 64 0)] = [demo_entry 1, demo_entry 2] \<or>
     broken_on uhash genesis (ledger_inputs [demo_entry 1, demo_entry 2] \<union> ledger_inputs [demo_entry 1, demo_entry 2]))"
proof -
  let ?es = "[(demo_entry 1, replicate 64 (0 :: u8)), (demo_entry 2, replicate 64 0)]"
  and ?es' = "[(demo_entry 1, replicate 34 (0 :: u8)), (demo_entry 2, replicate 34 0)]"
  have wf: "\<forall>(e, s)\<in>set ?es. wf_entry e \<and> canon_len e \<le> length s" "\<forall>(e, s)\<in>set ?es'. wf_entry e \<and> canon_len e \<le> length s"
    by (simp_all add: demo_entry_wf)
  have "ledger genesis ?es = ledger genesis ?es'" "\<exists>head. ledger genesis ?es = Some head"
    using ledger_chain[OF wf(1), of genesis] ledger_chain[OF wf(2), of genesis] by simp_all
  with ledger_tamper_evident[OF wf this(1)] show ?thesis
    by simp
qed

theorem inclusion_sound_witness:
  "\<exists>head. ledger genesis [(demo_entry 1, replicate 64 0), (demo_entry 2, replicate 64 0)] = Some head \<and>
    verify_inclusion (entry_id (demo_entry 1)) [entry_id (demo_entry 2)] head"
proof -
  let ?es = "[(demo_entry 1, replicate 64 (0 :: u8)), (demo_entry 2, replicate 64 0)]"
  have wf: "\<forall>(e, s)\<in>set ?es. wf_entry e \<and> canon_len e \<le> length s"
    by (simp add: demo_entry_wf)
  then obtain head where h: "ledger genesis ?es = Some head"
    using ledger_chain[OF wf, of genesis] by simp
  from inclusion_sound[OF wf _ _ h, of genesis "[]"] h show ?thesis
    by (simp add: Let_def)
qed

end
