(* ===== verification/Brand.thy ===== *)
theory Brand
  imports Prelude
begin

text \<open>
  The identity constants of \<open>crates/brand/src/lib.rs\<close> that the frame codecs are built on: the
  brand string, the domain-separation labels of the keyed hash, the superblock magic and the family of two-byte frame
  magics, derived from the brand the way the crate derives them.
\<close>

definition as_bytes :: "string \<Rightarrow> bytes" where
  "as_bytes s = map of_char s"

definition BRAND :: string where "BRAND = ''YUVA''"

definition DOMSEP_OPCMD_KDF :: bytes where "DOMSEP_OPCMD_KDF = as_bytes (BRAND @ ''-OPCMD-KDF-V1'')"
definition DOMSEP_KEY_EVOLVE :: bytes where "DOMSEP_KEY_EVOLVE = as_bytes (BRAND @ ''-KEY-EVOLVE-V1'')"
definition DOMSEP_M30_ECHO :: bytes where "DOMSEP_M30_ECHO = as_bytes (BRAND @ ''-M30-ECHO-V1'')"
definition DOMSEP_M31_INFER :: bytes where "DOMSEP_M31_INFER = as_bytes (BRAND @ ''-M31-INFER-V1'')"
definition DOMSEP_M33_ATTEST :: bytes where "DOMSEP_M33_ATTEST = as_bytes (BRAND @ ''-M33-ATTEST-V1'')"

definition MAGIC_OPFRAME :: u16 where
  "MAGIC_OPFRAME = push_bit 8 (ucast (as_bytes BRAND ! 0)) OR (ucast (as_bytes BRAND ! 1) + 1)"
definition MAGIC_OPFRAME_RX :: u16 where "MAGIC_OPFRAME_RX = MAGIC_OPFRAME + 1"
definition MAGIC_INFERWIRE :: u16 where "MAGIC_INFERWIRE = MAGIC_OPFRAME + 2"
definition MAGIC_ATTEST :: u16 where "MAGIC_ATTEST = MAGIC_OPFRAME + 3"

text \<open>The magic of the durable store's superblock.\<close>

definition SB_MAGIC :: bytes where "SB_MAGIC = as_bytes (BRAND @ ''MEM0'')"

text \<open>The boot contract's ELF note and boot-info magic.\<close>

definition NOTE_NAME :: string where "NOTE_NAME = BRAND"
definition NOTE_NAMESZ :: u32 where "NOTE_NAMESZ = of_nat (length NOTE_NAME) + 1"
definition NOTE_TYPE_ENTRY64 :: u32 where
  "NOTE_TYPE_ENTRY64 = push_bit 24 (ucast (as_bytes BRAND ! 0)) OR push_bit 16 (ucast (as_bytes BRAND ! 1)) OR 1"
definition BOOT_MAGIC_BYTES :: bytes where
  "BOOT_MAGIC_BYTES = 0 # as_bytes BRAND ! 0 # as_bytes ''BOOTV0''"
definition BOOT_MAGIC :: u64 where "BOOT_MAGIC = of_le_bytes BOOT_MAGIC_BYTES"

lemma length_as_bytes [simp]: "length (as_bytes s) = length s"
  by (simp add: as_bytes_def)

lemma magic_values [simp]:
  "MAGIC_OPFRAME = 0x5956" "MAGIC_OPFRAME_RX = 0x5957" "MAGIC_INFERWIRE = 0x5958" "MAGIC_ATTEST = 0x5959"
  by (simp_all add: MAGIC_OPFRAME_def MAGIC_OPFRAME_RX_def MAGIC_INFERWIRE_def MAGIC_ATTEST_def as_bytes_def BRAND_def of_char_def)

lemma boot_values [simp]: "NOTE_NAMESZ = 5" "NOTE_TYPE_ENTRY64 = 0x59550001" "BOOT_MAGIC = 0x3056544F4F425900"
  by (simp_all add: NOTE_NAMESZ_def NOTE_NAME_def NOTE_TYPE_ENTRY64_def BOOT_MAGIC_def BOOT_MAGIC_BYTES_def
      as_bytes_def BRAND_def of_char_def)

end
