(* ===== verification/Opframe.thy ===== *)
theory Opframe
  imports Brand Prov
begin

text \<open>
  The outbound operator transcript of \<open>crates/tb-encode/src/opframe.rs\<close>: the frame codec with its
  held-out-partition guard, the fold of frames into the running head, and the reader's checks of
  sequence numbers, instance binding and final-sequence commitment. The codec is an instance of
  the \<open>codec\<close> contract and the fold one of the \<open>hash_chain\<close> contract.
\<close>

definition OPFRAME_VER :: u8 where "OPFRAME_VER = 1"
definition OPFRAME_MAGIC :: u16 where "OPFRAME_MAGIC = MAGIC_OPFRAME"

definition OPK_INTRO :: u8 where "OPK_INTRO = 1"
definition OPK_MARKER :: u8 where "OPK_MARKER = 2"
definition OPK_EXPERIENCE_DIGEST :: u8 where "OPK_EXPERIENCE_DIGEST = 3"
definition OPK_GATE_VERDICT :: u8 where "OPK_GATE_VERDICT = 4"

definition PART_CANDIDATE :: u8 where "PART_CANDIDATE = 0"
definition PART_SAFETY_HELD_OUT :: u8 where "PART_SAFETY_HELD_OUT = 1"

definition SEV_MIN :: u8 where "SEV_MIN = 1"
definition SEV_MAX :: u8 where "SEV_MAX = 24"

record op_frame =
  op_kind :: u8
  sev :: u8
  partition_id :: u8
  op_seq :: u64
  t_logical :: u64
  prev_head :: bytes
  op_payload :: bytes

definition OPFRAME_HEADER_LEN :: nat where
  "OPFRAME_HEADER_LEN = 2 + 1 + 1 + 1 + 1 + 1 + 8 + 8 + PROV_HASH_LEN + 4"

definition OP_OFF_MAGIC :: nat where "OP_OFF_MAGIC = 0"
definition OP_OFF_VER :: nat where "OP_OFF_VER = 2"
definition OP_OFF_KIND :: nat where "OP_OFF_KIND = 3"
definition OP_OFF_SEV :: nat where "OP_OFF_SEV = 4"
definition OP_OFF_PARTITION :: nat where "OP_OFF_PARTITION = 5"
definition OP_OFF_RESERVED :: nat where "OP_OFF_RESERVED = 6"
definition OP_OFF_SEQ :: nat where "OP_OFF_SEQ = 7"
definition OP_OFF_TLOGICAL :: nat where "OP_OFF_TLOGICAL = 15"
definition OP_OFF_PREV_HEAD :: nat where "OP_OFF_PREV_HEAD = 23"
definition OP_OFF_PAYLOAD_LEN :: nat where "OP_OFF_PAYLOAD_LEN = 55"
definition OP_OFF_PAYLOAD :: nat where "OP_OFF_PAYLOAD = 59"

definition op_canon_len :: "op_frame \<Rightarrow> nat" where
  "op_canon_len f = usize_saturating_add OPFRAME_HEADER_LEN (length (op_payload f))"

definition frame_is_emittable :: "op_frame \<Rightarrow> bool" where
  "frame_is_emittable f \<longleftrightarrow>
     op_kind f \<in> {OPK_INTRO, OPK_MARKER, OPK_EXPERIENCE_DIGEST, OPK_GATE_VERDICT} \<and>
     (SEV_MIN \<le> sev f \<and> sev f \<le> SEV_MAX) \<and> partition_id f = PART_CANDIDATE"

text \<open>The buffer after the call and the number of bytes written; a byte store is a one-byte \<open>put\<close>.\<close>

definition op_canon :: "op_frame \<Rightarrow> bytes \<Rightarrow> bytes \<times> nat" where
  "op_canon f out = (
     if \<not> frame_is_emittable f then (out, 0)
     else let plen = length (op_payload f) in
       if plen > 2 ^ 32 - 1 then (out, 0)
       else let total = op_canon_len f in
         if length out < total then (out, 0)
         else let
           out = put OP_OFF_MAGIC (le_bytes 2 OPFRAME_MAGIC) out;
           out = put OP_OFF_VER [OPFRAME_VER] out;
           out = put OP_OFF_KIND [op_kind f] out;
           out = put OP_OFF_SEV [sev f] out;
           out = put OP_OFF_PARTITION [partition_id f] out;
           out = put OP_OFF_RESERVED [0] out;
           out = put OP_OFF_SEQ (le_bytes 8 (op_seq f)) out;
           out = put OP_OFF_TLOGICAL (le_bytes 8 (t_logical f)) out;
           out = put OP_OFF_PREV_HEAD (prev_head f) out;
           out = put OP_OFF_PAYLOAD_LEN (le_bytes 4 (of_nat plen :: u32)) out;
           out = put OP_OFF_PAYLOAD (op_payload f) out
         in (out, total))"

definition op_decode :: "bytes \<Rightarrow> op_frame option" where
  "op_decode buf = (
     if length buf < OPFRAME_HEADER_LEN then None
     else if (of_le_bytes (slice buf OP_OFF_MAGIC 2) :: u16) \<noteq> OPFRAME_MAGIC then None
     else if buf ! OP_OFF_VER \<noteq> OPFRAME_VER then None
     else if buf ! OP_OFF_RESERVED \<noteq> 0 then None
     else let plen = unat (of_le_bytes (slice buf OP_OFF_PAYLOAD_LEN 4) :: u32) in
       case usize_checked_add OP_OFF_PAYLOAD plen of
         None \<Rightarrow> None
       | Some e \<Rightarrow>
           if length buf < e then None
           else let f = \<lparr>op_kind = buf ! OP_OFF_KIND, sev = buf ! OP_OFF_SEV,
               partition_id = buf ! OP_OFF_PARTITION,
               op_seq = of_le_bytes (slice buf OP_OFF_SEQ 8),
               t_logical = of_le_bytes (slice buf OP_OFF_TLOGICAL 8),
               prev_head = slice buf OP_OFF_PREV_HEAD PROV_HASH_LEN,
               op_payload = slice buf OP_OFF_PAYLOAD (e - OP_OFF_PAYLOAD)\<rparr>
             in if \<not> frame_is_emittable f then None else Some f)"

definition fold_frame :: "bytes \<Rightarrow> op_frame \<Rightarrow> bytes \<Rightarrow> (bytes \<times> bytes) option" where
  "fold_frame head f scratch = (case op_canon f scratch of (out, n) \<Rightarrow>
     if n = 0 then None
     else let frame_id = prov_hash (take n out) in Some (chain_mix head frame_id, frame_id))"

fun seq_exact_from :: "nat \<Rightarrow> u64 list \<Rightarrow> bool" where
  "seq_exact_from i [] = True"
| "seq_exact_from i (s # ss) = (if s \<noteq> of_nat i then False else seq_exact_from (i + 1) ss)"

definition seq_index_exact :: "u64 list \<Rightarrow> bool" where
  "seq_index_exact seqs = seq_exact_from 0 seqs"

definition intro_binds :: "op_frame \<Rightarrow> bytes \<Rightarrow> bool" where
  "intro_binds f m22_head \<longleftrightarrow> op_kind f = OPK_INTRO \<and> op_seq f = 0 \<and> prev_head f = m22_head"

definition gate_final_seq :: "op_frame \<Rightarrow> u64 option" where
  "gate_final_seq f = (if op_kind f \<noteq> OPK_GATE_VERDICT \<or> length (op_payload f) < 8 then None
     else Some (of_le_bytes (slice (op_payload f) 0 8)))"

definition gate_commits_final_seq :: "op_frame \<Rightarrow> u64 \<Rightarrow> bool" where
  "gate_commits_final_seq f expected = (case gate_final_seq f of
     Some committed \<Rightarrow> committed = expected \<and> op_seq f = expected
   | None \<Rightarrow> False)"

text \<open>\<open>i64\<close> as \<open>int\<close>: the saturating difference and its magnitude.\<close>

definition i64_saturating_sub :: "int \<Rightarrow> int \<Rightarrow> int" where
  "i64_saturating_sub a b = max (- (2 ^ 63)) (min (2 ^ 63 - 1) (a - b))"

definition borderline_gap :: "int \<Rightarrow> int \<Rightarrow> u64" where
  "borderline_gap kan_score_shadow threshold = of_int \<bar>i64_saturating_sub kan_score_shadow threshold\<bar>"

text \<open>
  The emission of a transcript, \<open>op_emit_frame\<close> and the second half of \<open>opframe_selftest\<close> in
  \<open>crates/tb-hal/src/mem/organ/selftests.rs\<close>. The live provenance head, the surfaced experience
  record and the inference digest come from the memory substrate and the inference adapter, and
  are arguments here.
\<close>

definition OPFRAME_SCRATCH :: nat where "OPFRAME_SCRATCH = 256"
definition OPFRAME_SEV_INFO :: u8 where "OPFRAME_SEV_INFO = 9"
definition OPFRAME_SEV_WARN :: u8 where "OPFRAME_SEV_WARN = 13"

record op_transcript =
  op_head :: bytes
  op_ids :: "bytes list"
  op_seqs :: "u64 list"
  frame_bytes :: "bytes list"
  op_scratch :: bytes

definition op_emit_frame ::
  "op_transcript \<Rightarrow> u8 \<Rightarrow> u8 \<Rightarrow> u64 \<Rightarrow> u64 \<Rightarrow> bytes \<Rightarrow> bytes \<Rightarrow> op_transcript \<times> bool" where
  "op_emit_frame st kind sv sq t prev payload = (
     let f = \<lparr>op_kind = kind, sev = sv, partition_id = PART_CANDIDATE, op_seq = sq, t_logical = t,
           prev_head = prev, op_payload = payload\<rparr>
     in case op_canon f (op_scratch st) of (scratch, n) \<Rightarrow>
       if n = 0 then (st\<lparr>op_scratch := scratch\<rparr>, False)
       else let id = prov_hash (take n scratch) in
         (st\<lparr>op_head := chain_mix (op_head st) id, op_ids := op_ids st @ [id], op_seqs := op_seqs st @ [sq],
            frame_bytes := frame_bytes st @ [take n scratch], op_scratch := scratch\<rparr>, True))"

record opframe_proof =
  clean_ok :: bool
  inclusion_ok :: bool
  seq_monotone :: bool
  intro_bound :: bool
  truncation_caught :: bool
  tamper_caught :: bool
  proof_head :: u64
  proof_frames :: u64

definition opframe_fail :: "u64 \<Rightarrow> u64 \<Rightarrow> opframe_proof" where
  "opframe_fail h n = \<lparr>clean_ok = False, inclusion_ok = False, seq_monotone = False, intro_bound = False,
     truncation_caught = False, tamper_caught = False, proof_head = h, proof_frames = n\<rparr>"

definition op_final_seq :: u64 where "op_final_seq = 4"

definition op_tamper_caught :: "op_transcript \<Rightarrow> bool" where
  "op_tamper_caught st = (let fb = frame_bytes st ! 0; sibs = tl (op_ids st) in
     if prov_hash fb \<noteq> op_ids st ! 0 then False
     else let bad = prov_hash (fb[7 := fb ! 7 XOR 1]) in
       bad \<noteq> op_ids st ! 0 \<and> recompute bad sibs \<noteq> op_head st \<and> \<not> verify_inclusion bad sibs (op_head st))"

definition op_verify_transcript :: "bytes \<Rightarrow> op_transcript \<Rightarrow> opframe_proof" where
  "op_verify_transcript m22_head st = (
     let frames = length (op_ids st) in
     if frames \<noteq> 5 then opframe_fail (head_witness (op_head st)) (of_nat frames)
     else let leaf = op_ids st ! 0; sibs = tl (op_ids st) in
       \<lparr>clean_ok = (recompute leaf sibs = op_head st),
        inclusion_ok = verify_inclusion leaf sibs (op_head st),
        seq_monotone = seq_index_exact (op_seqs st),
        intro_bound = (case op_decode (frame_bytes st ! 0) of Some f \<Rightarrow> intro_binds f m22_head | None \<Rightarrow> False),
        truncation_caught = (case op_decode (frame_bytes st ! (frames - 1)) of
            Some g \<Rightarrow> gate_commits_final_seq g op_final_seq \<and> \<not> gate_commits_final_seq g (op_final_seq + 1)
          | None \<Rightarrow> False),
        tamper_caught = op_tamper_caught st,
        proof_head = head_witness (op_head st), proof_frames = of_nat frames\<rparr>)"

text \<open>The transcript so far, or the failing report of an early return.\<close>

definition op_emit_transcript :: "bytes \<Rightarrow> bytes \<Rightarrow> bytes \<Rightarrow> opframe_proof + op_transcript" where
  "op_emit_transcript m22_head digest_payload infer_fold_payload = (
     if digest_payload = [] then Inl (opframe_fail 0 0)
     else if length infer_fold_payload \<noteq> 8 + PROV_HASH_LEN then Inl (opframe_fail 0 0)
     else let st0 = \<lparr>op_head = replicate PROV_HASH_LEN 0, op_ids = [], op_seqs = [], frame_bytes = [],
                     op_scratch = replicate OPFRAME_SCRATCH 0\<rparr> in
     case op_emit_frame st0 OPK_INTRO OPFRAME_SEV_INFO 0 1 m22_head [] of (st1, ok1) \<Rightarrow>
     if \<not> ok1 then Inl (opframe_fail 0 0) else
     case op_emit_frame st1 OPK_MARKER OPFRAME_SEV_INFO 1 2 (op_head st1) (as_bytes ''M25-selftest'') of (st2, ok2) \<Rightarrow>
     if \<not> ok2 then Inl (opframe_fail (head_witness (op_head st2)) 1) else
     case op_emit_frame st2 OPK_EXPERIENCE_DIGEST OPFRAME_SEV_INFO 2 3 (op_head st2) digest_payload of (st3, ok3) \<Rightarrow>
     if \<not> ok3 then Inl (opframe_fail (head_witness (op_head st3)) 2) else
     case op_emit_frame st3 OPK_MARKER OPFRAME_SEV_INFO 3 4 (op_head st3) infer_fold_payload of (st4, ok4) \<Rightarrow>
     if \<not> ok4 then Inl (opframe_fail (head_witness (op_head st4)) 3) else
     let gate_payload = (put 0 (le_bytes 8 op_final_seq) (replicate 9 0))[8 := 0] in
     case op_emit_frame st4 OPK_GATE_VERDICT OPFRAME_SEV_WARN op_final_seq 5 (op_head st4) gate_payload of (st5, ok5) \<Rightarrow>
     if \<not> ok5 then Inl (opframe_fail (head_witness (op_head st5)) 4) else Inr st5)"

definition opframe_selftest :: "bytes \<Rightarrow> bytes \<Rightarrow> bytes \<Rightarrow> opframe_proof" where
  "opframe_selftest m22_head digest_payload infer_fold_payload =
     (case op_emit_transcript m22_head digest_payload infer_fold_payload of
        Inl p \<Rightarrow> p
      | Inr st \<Rightarrow> op_verify_transcript m22_head st)"

lemmas opframe_consts [codec_simps] = OPFRAME_HEADER_LEN_def PROV_HASH_LEN_def OP_OFF_MAGIC_def OP_OFF_VER_def OP_OFF_KIND_def
  OP_OFF_SEV_def OP_OFF_PARTITION_def OP_OFF_RESERVED_def OP_OFF_SEQ_def OP_OFF_TLOGICAL_def
  OP_OFF_PREV_HEAD_def OP_OFF_PAYLOAD_LEN_def OP_OFF_PAYLOAD_def OPFRAME_VER_def OPFRAME_MAGIC_def

section \<open>The frame is a canonical codec\<close>

definition op_ok :: "op_frame \<Rightarrow> bool" where
  "op_ok f \<longleftrightarrow> frame_is_emittable f \<and> length (prev_head f) = 32 \<and> length (op_payload f) < 2 ^ 32"

definition op_bytes :: "op_frame \<Rightarrow> bytes" where
  "op_bytes f = le_bytes 2 OPFRAME_MAGIC @ [OPFRAME_VER, op_kind f, sev f, partition_id f, 0] @
     le_bytes 8 (op_seq f) @ le_bytes 8 (t_logical f) @ prev_head f @
     le_bytes 4 (of_nat (length (op_payload f)) :: u32) @ op_payload f"

lemma op_canon_len_ok: "op_ok f \<Longrightarrow> op_canon_len f = 59 + length (op_payload f)"
  by (simp add: op_canon_len_def op_ok_def opframe_consts)

lemma length_op_bytes: "op_ok f \<Longrightarrow> length (op_bytes f) = op_canon_len f"
  by (simp add: op_canon_len_ok op_bytes_def op_ok_def)

lemma op_canon_writes:
  assumes "op_ok f"
  shows "op_canon f out = (if length out < op_canon_len f then (out, 0)
    else (op_bytes f @ drop (op_canon_len f) out, op_canon_len f))"
  using assms op_canon_len_ok[OF assms]
  by (simp add: op_canon_def op_bytes_def op_ok_def opframe_consts buffer_simps Let_def add.commute)

lemma op_decode_bytes: "op_ok f \<Longrightarrow> op_decode (op_bytes f @ rest) = Some f"
  by (simp add: op_decode_def op_bytes_def op_ok_def opframe_consts buffer_simps nth_append Let_def
      unat_of_nat) (simp add: frame_is_emittable_def)

lemma op_decode_SomeD:
  assumes "op_decode buf = Some f"
  shows "59 + length (op_payload f) \<le> length buf" "op_ok f"
    "slice buf 0 2 = le_bytes 2 OPFRAME_MAGIC" "slice buf 2 5 = [OPFRAME_VER, op_kind f, sev f, partition_id f, 0]"
    "slice buf 7 8 = le_bytes 8 (op_seq f)" "slice buf 15 8 = le_bytes 8 (t_logical f)" "slice buf 23 32 = prev_head f"
    "slice buf 55 4 = le_bytes 4 (of_nat (length (op_payload f)) :: u32)"
    "slice buf 59 (length (op_payload f)) = op_payload f"
proof -
  let ?w = "of_le_bytes (slice buf 55 4) :: u32"
  have w: "unat ?w < 4294967296"
    by (rule u32_bound)
  then have f: "f = \<lparr>op_kind = buf ! 3, sev = buf ! 4, partition_id = buf ! 5, op_seq = of_le_bytes (slice buf 7 8),
      t_logical = of_le_bytes (slice buf 15 8), prev_head = slice buf 23 32, op_payload = slice buf 59 (unat ?w)\<rparr>"
    and em: "frame_is_emittable f" and len: "59 + unat ?w \<le> length buf"
    and m: "(of_le_bytes (slice buf 0 2) :: u16) = OPFRAME_MAGIC" "buf ! 2 = OPFRAME_VER" "buf ! 6 = 0"
    using assms by (auto simp: op_decode_def opframe_consts Let_def split: if_splits)
  from len f have pl: "length (op_payload f) = unat ?w"
    by simp
  show "59 + length (op_payload f) \<le> length buf" "op_ok f" "slice buf 7 8 = le_bytes 8 (op_seq f)"
    "slice buf 15 8 = le_bytes 8 (t_logical f)" "slice buf 23 32 = prev_head f" "slice buf 59 (length (op_payload f)) = op_payload f"
    using len em pl w by (simp_all add: op_ok_def f)
  show "slice buf 2 5 = [OPFRAME_VER, op_kind f, sev f, partition_id f, 0]"
    using len m by (simp add: f slice_Suc eval_nat_numeral)
  show "slice buf 0 2 = le_bytes 2 OPFRAME_MAGIC" "slice buf 55 4 = le_bytes 4 (of_nat (length (op_payload f)) :: u32)"
    using len pl by (simp_all add: m(1)[symmetric])
qed

interpretation opf: codec_chain uhash 32 op_bytes op_decode op_ok
proof unfold_locales
  fix f rest buf
  show "op_ok f \<Longrightarrow> op_decode (op_bytes f @ rest) = Some f"
    by (rule op_decode_bytes)
  assume dec: "op_decode buf = Some f"
  show "op_ok f"
    by (rule op_decode_SomeD(2)[OF dec])
  note d = op_decode_SomeD[OF dec]
  have "buf = slice buf 0 2 @ slice buf 2 5 @ slice buf 7 8 @ slice buf 15 8 @ slice buf 23 32 @ slice buf 55 4 @
      slice buf 59 (length (op_payload f)) @ drop (59 + length (op_payload f)) buf"
    by (simp add: slice_drop)
  then show "\<exists>rest. buf = op_bytes f @ rest"
    unfolding op_bytes_def d(3-9) by (metis append.assoc)
qed

section \<open>The transcript is a hash chain\<close>

definition frame_id :: "op_frame \<Rightarrow> bytes" where
  "frame_id f = uhash (op_bytes f)"

text \<open>A transcript folded frame by frame, each with its own scratch buffer, from a given head.\<close>

fun transcript :: "bytes \<Rightarrow> (op_frame \<times> bytes) list \<Rightarrow> bytes option" where
  "transcript head [] = Some head"
| "transcript head ((f, scratch) # fs) = (case fold_frame head f scratch of
     None \<Rightarrow> None | Some (head', _) \<Rightarrow> transcript head' fs)"

lemma fold_frame_ok:
  assumes "op_ok f" "length head = 32"
  shows "fold_frame head f scratch = (if length scratch < op_canon_len f then None
    else Some (mix uhash MIX_DOMAIN head (frame_id f), frame_id f))"
  using assms length_op_bytes[OF assms(1)] op_canon_len_ok[OF assms(1)]
  by (simp add: fold_frame_def op_canon_writes prov_hash_def frame_id_def chain_mix_mix Let_def)

lemma fold_frame_rejects: "\<not> frame_is_emittable f \<Longrightarrow> fold_frame head f scratch = None"
  by (simp add: fold_frame_def op_canon_def)

lemma transcript_chain:
  assumes "\<forall>(f, s)\<in>set fs. op_ok f \<and> op_canon_len f \<le> length s" "length head = 32"
  shows "transcript head fs = Some (chain_head uhash MIX_DOMAIN head (map (frame_id \<circ> fst) fs))"
  using assms by (induction fs arbitrary: head) (auto simp: fold_frame_ok mix_def)

lemma seq_exact_from_iff: "seq_exact_from i ss \<longleftrightarrow> (\<forall>k<length ss. ss ! k = of_nat (i + k))"
proof (induction ss arbitrary: i)
  case (Cons s ss)
  show ?case
    by (auto simp: Cons.IH nth_Cons split: nat.splits)
qed simp

lemma seq_index_exact_iff: "seq_index_exact ss \<longleftrightarrow> (\<forall>k<length ss. ss ! k = of_nat k)"
  by (simp add: seq_index_exact_def seq_exact_from_iff)

text \<open>One emission, and the invariant that ties the transcript's columns together.\<close>

definition emit_inv :: "op_transcript \<Rightarrow> bool" where
  "emit_inv st \<longleftrightarrow> length (op_scratch st) = 256 \<and> op_ids st = map uhash (frame_bytes st) \<and>
     op_head st = chain_head uhash MIX_DOMAIN genesis (op_ids st)"

lemma emit_inv_head: "emit_inv st \<Longrightarrow> length (op_head st) = 32"
  by (simp add: emit_inv_def prov.head_width)

lemma op_emit_frame_ok:
  fixes sq t :: u64
  assumes "emit_inv st" "kind \<in> {1, 2, 3, 4}" "1 \<le> sv \<and> sv \<le> 24" "length prev = 32" "length payload \<le> 197"
  defines "f \<equiv> \<lparr>op_kind = kind, sev = sv, partition_id = 0, op_seq = sq, t_logical = t, prev_head = prev, op_payload = payload\<rparr>"
  obtains st' where "op_emit_frame st kind sv sq t prev payload = (st', True)" "emit_inv st'"
    "frame_bytes st' = frame_bytes st @ [op_bytes f]" "op_seqs st' = op_seqs st @ [sq]" "op_ok f"
proof -
  have ok: "op_ok f"
    using assms(2-5) by (auto simp: f_def op_ok_def frame_is_emittable_def OPK_INTRO_def OPK_MARKER_def
        OPK_EXPERIENCE_DIGEST_def OPK_GATE_VERDICT_def SEV_MIN_def SEV_MAX_def PART_CANDIDATE_def)
  let ?st = "st\<lparr>op_head := chain_mix (op_head st) (uhash (op_bytes f)), op_ids := op_ids st @ [uhash (op_bytes f)],
    op_seqs := op_seqs st @ [sq], frame_bytes := frame_bytes st @ [op_bytes f],
    op_scratch := op_bytes f @ drop (op_canon_len f) (op_scratch st)\<rparr>"
  have len: "op_canon_len f = 59 + length payload"
    using op_canon_len_ok[OF ok] by (simp add: f_def)
  have "op_emit_frame st kind sv sq t prev payload = (?st, True)"
    using op_canon_writes[OF ok, of "op_scratch st"] length_op_bytes[OF ok] assms(1,5) len
    by (simp add: op_emit_frame_def PART_CANDIDATE_def f_def[symmetric] emit_inv_def prov_hash_def Let_def)
  moreover have "emit_inv ?st"
    using assms(1,5) len length_op_bytes[OF ok] emit_inv_head[OF assms(1)]
    by (simp add: emit_inv_def chain_mix_mix chain_head_append)
  ultimately show ?thesis
    using ok by (intro that[of ?st]) simp_all
qed

text \<open>What the simulated verifier reports on a transcript built by five emissions.\<close>

lemma recompute_ids:
  assumes "emit_inv st" "op_ids st \<noteq> []"
  shows "recompute (op_ids st ! 0) (tl (op_ids st)) = op_head st"
proof -
  obtain i rest where ids: "op_ids st = i # rest"
    using assms(2) by (cases "op_ids st") auto
  have "\<forall>j\<in>set (i # rest). length j = 32"
    using assms(1) unfolding ids[symmetric] by (simp add: emit_inv_def)
  then have "recompute i rest = chain_head uhash MIX_DOMAIN genesis (i # rest)"
    by (rule recompute_chain)
  moreover have "op_head st = chain_head uhash MIX_DOMAIN genesis (i # rest)"
    using assms(1) unfolding emit_inv_def ids by blast
  ultimately show ?thesis
    by (simp only: ids nth_Cons_0 list.sel)
qed

text \<open>The messages hashed when a transcript is verified clean and with its first frame altered.\<close>

definition tamper_inputs :: "op_transcript \<Rightarrow> bytes set" where
  "tamper_inputs st = (let b = frame_bytes st ! 0; bad = b[7 := b ! 7 XOR 1] in {b, bad} \<union>
     chain_inputs uhash MIX_DOMAIN genesis (op_ids st) \<union> chain_inputs uhash MIX_DOMAIN genesis (uhash bad # tl (op_ids st)))"

lemma op_tamper_caught_or_collision:
  assumes "emit_inv st" "frame_bytes st = b # bs" "7 < length b"
  defines "bad \<equiv> b[7 := b ! 7 XOR 1]"
  shows "op_tamper_caught st \<or> broken_on uhash genesis (tamper_inputs st)"
proof (rule disjCI)
  assume "\<not> broken_on uhash genesis (tamper_inputs st)"
  then have nb: "\<not> broken_on uhash genesis ({b, bad} \<union>
    chain_inputs uhash MIX_DOMAIN genesis (op_ids st) \<union> chain_inputs uhash MIX_DOMAIN genesis (uhash bad # tl (op_ids st)))"
    by (simp add: tamper_inputs_def bad_def assms(2) Let_def)
  have ids: "op_ids st = uhash b # map uhash bs"
    using assms(1,2) by (simp add: emit_inv_def)
  have "b ! 7 XOR 1 \<noteq> b ! 7"
    by (metis xor.left_neutral xor.right_neutral xor_self_eq xor.assoc zero_neq_one)
  then have "bad \<noteq> b"
    unfolding bad_def using assms(3) by (metis nth_list_update_eq)
  then have ne: "uhash bad \<noteq> uhash b"
    using not_broken_inject[OF nb, of bad b] by auto
  have "\<not> broken_on uhash genesis (chain_inputs uhash MIX_DOMAIN genesis (uhash bad # map uhash bs) \<union>
      chain_inputs uhash MIX_DOMAIN genesis (op_ids st))"
    by (rule contrapos_nn[OF nb], erule broken_on_mono) (auto simp: ids)
  then have "chain_head uhash MIX_DOMAIN genesis (uhash bad # map uhash bs) \<noteq> chain_head uhash MIX_DOMAIN genesis (op_ids st)"
    using ne ids prov.chain_inject[of genesis MIX_DOMAIN "uhash bad # map uhash bs" "op_ids st"] by fastforce
  moreover have "recompute (uhash bad) (map uhash bs) = chain_head uhash MIX_DOMAIN genesis (uhash bad # map uhash bs)"
    by (rule recompute_chain) simp
  ultimately have "recompute (uhash bad) (map uhash bs) \<noteq> op_head st"
    using assms(1) by (simp add: emit_inv_def)
  with ne show "op_tamper_caught st"
    using assms(2) ids by (simp add: op_tamper_caught_def bad_def[symmetric] prov_hash_def verify_inclusion_def Let_def)
qed

section \<open>Properties\<close>

text \<open>
  C24: The transcript codec is canonical and never lets a held-out record out. A buffer decodes to a
  frame exactly when it starts with that frame's canonical bytes and the frame is emittable, with
  a 32-byte previous head and a payload whose length fits its prefix; canon writes exactly those
  bytes, or nothing when the buffer is too short; and a frame of the held-out safety partition is
  neither encoded, decoded nor folded into a head.
\<close>

theorem opframe_codec_guarded:
  "(op_decode buf = Some f \<longleftrightarrow> frame_is_emittable f \<and> length (prev_head f) = 32 \<and>
      length (op_payload f) < 2 ^ 32 \<and> (\<exists>rest. buf = op_bytes f @ rest)) \<and>
   (op_decode buf = Some f \<longrightarrow> op_canon f out = (if length out < op_canon_len f then (out, 0)
      else (op_bytes f @ drop (op_canon_len f) out, length (op_bytes f)))) \<and>
   (partition_id f = PART_SAFETY_HELD_OUT \<longrightarrow>
      op_canon f out = (out, 0) \<and> op_decode buf \<noteq> Some f \<and> fold_frame head f out = None)"
proof -
  have "op_decode buf = Some f \<longleftrightarrow> op_ok f \<and> (\<exists>rest. buf = op_bytes f @ rest)"
    by (rule opf.accepts_iff)
  moreover have "\<not> frame_is_emittable f" if "partition_id f = PART_SAFETY_HELD_OUT"
    using that by (simp add: frame_is_emittable_def PART_SAFETY_HELD_OUT_def PART_CANDIDATE_def)
  ultimately show ?thesis
    using op_canon_writes[of f out] length_op_bytes[of f] fold_frame_rejects[of f head out]
    by (auto simp: op_ok_def op_canon_def)
qed

text \<open>
  C25: The transcript is tamper-evident. Two transcripts of admissible frames folded from the
  all-zero head to the same head are the same frames in the same order, unless the messages
  hashed contain a collision of the hash or a preimage of the all-zero head.
\<close>

theorem transcript_tamper_evident:
  assumes "\<forall>(f, s)\<in>set fs. op_ok f \<and> op_canon_len f \<le> length s"
    and "\<forall>(f, s)\<in>set fs'. op_ok f \<and> op_canon_len f \<le> length s"
    and "transcript genesis fs = transcript genesis fs'"
  shows "map fst fs = map fst fs' \<or> broken_on uhash genesis
    (record_inputs uhash MIX_DOMAIN genesis op_bytes (map fst fs) \<union> record_inputs uhash MIX_DOMAIN genesis op_bytes (map fst fs'))"
proof (rule disjCI)
  assume nb: "\<not> broken_on uhash genesis
    (record_inputs uhash MIX_DOMAIN genesis op_bytes (map fst fs) \<union> record_inputs uhash MIX_DOMAIN genesis op_bytes (map fst fs'))"
  have "chain_head uhash MIX_DOMAIN genesis (map (uhash \<circ> op_bytes) (map fst fs)) =
      chain_head uhash MIX_DOMAIN genesis (map (uhash \<circ> op_bytes) (map fst fs'))"
    using assms(3) transcript_chain[OF assms(1), of genesis] transcript_chain[OF assms(2), of genesis]
    by (simp add: frame_id_def comp_def)
  then show "map fst fs = map fst fs'"
    using nb assms(1,2) by (intro opf.records.records_inject[of genesis]) auto
qed

text \<open>
  The reader's sequence checks need no hash to catch every rearrangement. Let a transcript be
  numbered from 0 and hold one gate verdict, its last frame. Any list of its frames, with some
  dropped, repeated or moved, that passes the index check and whose last frame commits its own
  final sequence number is the whole transcript in order: gaps, duplicates, reordering and
  truncation of the tail are all rejected.
\<close>

theorem reader_rejects_rearrangement:
  assumes "seq_index_exact (map op_seq fs)" "\<forall>f\<in>set (butlast fs). op_kind f \<noteq> OPK_GATE_VERDICT"
    and "length fs \<le> 2 ^ 64" "length gs \<le> 2 ^ 64" "gs \<noteq> []" "set gs \<subseteq> set fs"
    and "seq_index_exact (map op_seq gs)" "gate_commits_final_seq (last gs) (of_nat (length gs - 1))"
  shows "gs = fs"
proof -
  have same: "i < length fs \<and> gs ! i = fs ! i" if i: "i < length gs" for i
  proof -
    have "gs ! i \<in> set fs"
      using assms(6) i nth_mem by blast
    then obtain j where j: "j < length fs" "gs ! i = fs ! j"
      by (metis in_set_conv_nth)
    then have "(of_nat j :: u64) = of_nat i"
      using assms(1,7) i by (auto simp: seq_index_exact_iff)
    then have "i = j"
      using i j(1) assms(3,4) by (simp add: word_of_nat_eq_iff take_bit_nat_eq_self)
    with j show ?thesis by simp
  qed
  have "op_kind (last gs) = OPK_GATE_VERDICT"
    using assms(8) by (auto simp: gate_commits_final_seq_def gate_final_seq_def split: if_splits)
  then have "op_kind (fs ! (length gs - 1)) = OPK_GATE_VERDICT" "length gs - 1 < length fs"
    using same[of "length gs - 1"] assms(5) by (simp_all add: last_conv_nth)
  moreover have "fs ! (length gs - 1) \<in> set (butlast fs)" if "length gs < length fs"
  proof -
    have k: "length gs - 1 < length (butlast fs)"
      using that assms(5) by (cases gs) auto
    show ?thesis
      using nth_mem[OF k] nth_butlast[OF k] by simp
  qed
  ultimately have "length gs = length fs"
    using assms(2) by (metis Suc_diff_1 assms(5) length_greater_0_conv less_SucE linorder_neqE_nat not_less_eq)
  with same show ?thesis
    by (intro nth_equalityI) auto
qed

text \<open>The five frames of the self-test's transcript.\<close>

lemma op_emit_transcript_ok:
  assumes "length m22 = 32" "dig \<noteq> []" "length dig \<le> 197" "length infp = 40"
  obtains st f0 f1 f2 f3 f4 where "op_emit_transcript m22 dig infp = Inr st" "emit_inv st"
    "frame_bytes st = map op_bytes [f0, f1, f2, f3, f4]" "op_seqs st = [0, 1, 2, 3, 4]"
    "op_ok f0" "op_ok f4" "intro_binds f0 m22" "gate_commits_final_seq f4 4"
proof -
  let ?st0 = "\<lparr>op_head = genesis, op_ids = [], op_seqs = [], frame_bytes = [], op_scratch = replicate 256 0\<rparr>"
  let ?f0 = "\<lparr>op_kind = 1, sev = 9, partition_id = 0, op_seq = 0, t_logical = 1, prev_head = m22, op_payload = []\<rparr>"
  let ?gp = "le_bytes 8 (4 :: u64) @ [0]"
  have i0: "emit_inv ?st0"
    by (simp add: emit_inv_def)
  obtain st1 where e1: "op_emit_frame ?st0 1 9 0 1 m22 [] = (st1, True)" "emit_inv st1"
      "frame_bytes st1 = [op_bytes ?f0]"
      "op_seqs st1 = [0]" "op_ok ?f0"
    by (rule op_emit_frame_ok[OF i0, of 1 9 m22 "[]" 0 1]) (use assms(1) in simp_all)
  obtain st2 f1 where e2: "op_emit_frame st1 2 9 1 2 (op_head st1) (as_bytes ''M25-selftest'') = (st2, True)" "emit_inv st2"
      "frame_bytes st2 = frame_bytes st1 @ [op_bytes f1]" "op_seqs st2 = op_seqs st1 @ [1]"
    by (rule op_emit_frame_ok[OF e1(2), of 2 9 "op_head st1" "as_bytes ''M25-selftest''" 1 2]) (simp_all add: emit_inv_head[OF e1(2)])
  obtain st3 f2 where e3: "op_emit_frame st2 3 9 2 3 (op_head st2) dig = (st3, True)" "emit_inv st3"
      "frame_bytes st3 = frame_bytes st2 @ [op_bytes f2]" "op_seqs st3 = op_seqs st2 @ [2]"
    by (rule op_emit_frame_ok[OF e2(2), of 3 9 "op_head st2" dig 2 3]) (use assms(3) in \<open>simp_all add: emit_inv_head[OF e2(2)]\<close>)
  obtain st4 f3 where e4: "op_emit_frame st3 2 9 3 4 (op_head st3) infp = (st4, True)" "emit_inv st4"
      "frame_bytes st4 = frame_bytes st3 @ [op_bytes f3]" "op_seqs st4 = op_seqs st3 @ [3]"
    by (rule op_emit_frame_ok[OF e3(2), of 2 9 "op_head st3" infp 3 4]) (use assms(4) in \<open>simp_all add: emit_inv_head[OF e3(2)]\<close>)
  let ?f4 = "\<lparr>op_kind = 4, sev = 13, partition_id = 0, op_seq = 4, t_logical = 5, prev_head = op_head st4, op_payload = ?gp\<rparr>"
  obtain st5 where e5: "op_emit_frame st4 4 13 4 5 (op_head st4) ?gp = (st5, True)" "emit_inv st5"
      "frame_bytes st5 = frame_bytes st4 @ [op_bytes ?f4]" "op_seqs st5 = op_seqs st4 @ [4]" "op_ok ?f4"
    by (rule op_emit_frame_ok[OF e4(2), of 4 13 "op_head st4" ?gp 4 5]) (simp_all add: emit_inv_head[OF e4(2)])
  have gp: "(put 0 (le_bytes 8 (4 :: u64)) (replicate 9 0))[8 := 0] = ?gp"
    by (simp add: put_def list_update_append replicate_Suc[symmetric])
  have "op_emit_transcript m22 dig infp = Inr st5"
    using e1(1) e2(1) e3(1) e4(1) e5(1) assms(2,4)
    by (simp add: op_emit_transcript_def gp PROV_HASH_LEN_def OPFRAME_SCRATCH_def OPFRAME_SEV_INFO_def OPFRAME_SEV_WARN_def
        OPK_INTRO_def OPK_MARKER_def OPK_EXPERIENCE_DIGEST_def OPK_GATE_VERDICT_def op_final_seq_def Let_def)
  moreover have "gate_commits_final_seq ?f4 4"
    by (simp add: gate_commits_final_seq_def gate_final_seq_def OPK_GATE_VERDICT_def buffer_simps)
  ultimately show ?thesis
    using e1 e2 e3 e4 e5
    by (intro that[of st5 ?f0 f1 f2 f3 ?f4]) (simp_all add: intro_binds_def OPK_INTRO_def)
qed

text \<open>
  The boot self-test of the operator transcript passes, and passes for the right reason. With a
  32-byte live head, a surfaced record that fits the scratch buffer and the 40-byte inference
  digest, all five frames are emitted; re-folding their identifiers gives the head, the genesis
  inclusion proof verifies, the numbering is exact, the introduction binds the live head and the
  closing verdict commits the final number; and the altered first frame is caught, unless the
  messages hashed contain a collision or a preimage of the all-zero head.
\<close>

theorem opframe_selftest_passes:
  assumes "length m22 = 32" "dig \<noteq> []" "length dig \<le> 197" "length infp = 40"
  shows "\<exists>st. op_emit_transcript m22 dig infp = Inr st \<and> (let p = opframe_selftest m22 dig infp in
    clean_ok p \<and> inclusion_ok p \<and> seq_monotone p \<and> intro_bound p \<and> truncation_caught p \<and> proof_frames p = 5 \<and>
    (tamper_caught p \<or> broken_on uhash genesis (tamper_inputs st)))"
proof -
  obtain st f0 f1 f2 f3 f4 where st: "op_emit_transcript m22 dig infp = Inr st" "emit_inv st"
    "frame_bytes st = map op_bytes [f0, f1, f2, f3, f4]" "op_seqs st = [0, 1, 2, 3, 4]"
    "op_ok f0" "op_ok f4" "intro_binds f0 m22" "gate_commits_final_seq f4 4"
    by (rule op_emit_transcript_ok[OF assms])
  have ids: "length (op_ids st) = 5" "op_ids st \<noteq> []"
    using st(2,3) by (auto simp: emit_inv_def)
  have "\<not> gate_commits_final_seq f4 5"
    using st(8) by (simp add: gate_commits_final_seq_def split: option.splits)
  moreover have "op_tamper_caught st \<or> broken_on uhash genesis (tamper_inputs st)"
    by (rule op_tamper_caught_or_collision[OF st(2)])
      (use st(3) length_op_bytes[OF st(5)] op_canon_len_ok[OF st(5)] in simp_all, linarith)
  moreover have "seq_index_exact [0, 1, 2, 3, 4]"
    by (simp add: seq_index_exact_def)
  ultimately show ?thesis
    using st recompute_ids[OF st(2) ids(2)] ids(1)
    by (intro exI[of _ st]) (simp add: opframe_selftest_def op_verify_transcript_def verify_inclusion_def
        opf.roundtrip op_final_seq_def Let_def)
qed

section \<open>Witnesses\<close>

definition demo_frame :: "u8 \<Rightarrow> u64 \<Rightarrow> op_frame" where
  "demo_frame k n = \<lparr>op_kind = k, sev = 9, partition_id = PART_CANDIDATE, op_seq = n, t_logical = n, prev_head = genesis,
     op_payload = le_bytes 8 n\<rparr>"

lemma demo_frame_ok:
  "k \<in> {OPK_INTRO, OPK_MARKER, OPK_GATE_VERDICT} \<Longrightarrow> op_ok (demo_frame k n) \<and> op_canon_len (demo_frame k n) = 67"
proof -
  assume "k \<in> {OPK_INTRO, OPK_MARKER, OPK_GATE_VERDICT}"
  then have "op_ok (demo_frame k n)"
    by (auto simp: demo_frame_def op_ok_def frame_is_emittable_def SEV_MIN_def SEV_MAX_def)
  with op_canon_len_ok[OF this] show ?thesis
    by (simp add: demo_frame_def)
qed

theorem opframe_codec_guarded_witness:
  "op_decode (op_bytes (demo_frame OPK_MARKER 7) @ [1, 2]) = Some (demo_frame OPK_MARKER 7) \<and>
   fold_frame genesis ((demo_frame OPK_MARKER 7)\<lparr>partition_id := PART_SAFETY_HELD_OUT\<rparr>) (replicate 256 0) = None"
proof -
  let ?g = "(demo_frame OPK_MARKER 7)\<lparr>partition_id := PART_SAFETY_HELD_OUT\<rparr>"
  show ?thesis
    using demo_frame_ok[of OPK_MARKER 7]
      opframe_codec_guarded[of "op_bytes (demo_frame OPK_MARKER 7) @ [1, 2]" "demo_frame OPK_MARKER 7" "[]" genesis]
      opframe_codec_guarded[of "[]" ?g "replicate 256 0" genesis]
    by (simp add: op_ok_def)
qed

theorem transcript_tamper_evident_witness:
  "(\<exists>h. transcript genesis [(demo_frame OPK_INTRO 0, replicate 67 0), (demo_frame OPK_GATE_VERDICT 1, replicate 67 0)] = Some h) \<and>
   (map fst [(demo_frame OPK_INTRO 0, replicate 67 (0 :: u8)), (demo_frame OPK_GATE_VERDICT 1, replicate 67 0)] =
      [demo_frame OPK_INTRO 0, demo_frame OPK_GATE_VERDICT 1] \<or> broken_on uhash genesis
     (record_inputs uhash MIX_DOMAIN genesis op_bytes [demo_frame OPK_INTRO 0, demo_frame OPK_GATE_VERDICT 1] \<union>
      record_inputs uhash MIX_DOMAIN genesis op_bytes [demo_frame OPK_INTRO 0, demo_frame OPK_GATE_VERDICT 1]))"
proof -
  let ?fs = "\<lambda>n. [(demo_frame OPK_INTRO 0, replicate n (0 :: u8)), (demo_frame OPK_GATE_VERDICT 1, replicate n 0)]"
  have wf: "\<forall>(f, s)\<in>set (?fs 67). op_ok f \<and> op_canon_len f \<le> length s" "\<forall>(f, s)\<in>set (?fs 80). op_ok f \<and> op_canon_len f \<le> length s"
    using demo_frame_ok by simp_all
  have "transcript genesis (?fs 67) = transcript genesis (?fs 80)" "\<exists>h. transcript genesis (?fs 67) = Some h"
    using transcript_chain[OF wf(1), of genesis] transcript_chain[OF wf(2), of genesis] by simp_all
  with transcript_tamper_evident[OF wf this(1)] show ?thesis
    by simp
qed

theorem reader_rejects_rearrangement_witness:
  "[demo_frame OPK_INTRO 0, demo_frame OPK_GATE_VERDICT 1] = map (\<lambda>(k, n). demo_frame k n) [(OPK_INTRO, 0), (OPK_GATE_VERDICT, 1)]"
  by (rule reader_rejects_rearrangement)
    (simp_all add: demo_frame_def seq_index_exact_def gate_commits_final_seq_def gate_final_seq_def OPK_INTRO_def OPK_GATE_VERDICT_def
      buffer_simps)

theorem opframe_selftest_passes_witness:
  "\<exists>st. op_emit_transcript genesis [1] (replicate 40 0) = Inr st \<and> clean_ok (opframe_selftest genesis [1] (replicate 40 0))"
  using opframe_selftest_passes[of genesis "[1]" "replicate 40 0"] by (auto simp: Let_def)

end
