(* ===== verification/Opframe_Rx.thy ===== *)
theory Opframe_Rx
  imports Brand Prov
begin

text \<open>
  The inbound operator command of \<open>crates/tb-encode/src/opframe_rx.rs\<close>: the command codec, the
  derive-then-MAC authenticator and the key evolution over the keyed hash, the conjunctive
  verification gate, sealing, and the boot self-test of the path in
  \<open>crates/tb-hal/src/mem/organ/selftests.rs\<close>.
\<close>

definition KDF_DOMAIN :: bytes where "KDF_DOMAIN = DOMSEP_OPCMD_KDF"
definition EVOLVE_DOMAIN :: bytes where "EVOLVE_DOMAIN = DOMSEP_KEY_EVOLVE"
definition CMD_VER :: u8 where "CMD_VER = 1"
definition CMD_MAGIC :: u16 where "CMD_MAGIC = MAGIC_OPFRAME_RX"
definition KEY_LEN :: nat where "KEY_LEN = 32"
definition MAC_LEN :: nat where "MAC_LEN = 16"

definition CMDK_CHALLENGE_REQ :: u8 where "CMDK_CHALLENGE_REQ = 1"
definition CMDK_ACTIVATE_CMD :: u8 where "CMDK_ACTIVATE_CMD = 2"
definition CMDK_NOP :: u8 where "CMDK_NOP = 3"

record cmd_frame =
  cmd_kind :: u8
  nonce_echo :: u64
  op_head_bind :: bytes
  cmd_seq :: u64
  cred_a_id :: u16
  cred_b_id :: u16
  cmd_payload :: bytes
  cmd_mac :: bytes

definition CMD_HEADER_LEN :: nat where
  "CMD_HEADER_LEN = 2 + 1 + 1 + 1 + 8 + PROV_HASH_LEN + 8 + 2 + 2 + 4"

definition CMD_OFF_MAGIC :: nat where "CMD_OFF_MAGIC = 0"
definition CMD_OFF_VER :: nat where "CMD_OFF_VER = 2"
definition CMD_OFF_KIND :: nat where "CMD_OFF_KIND = 3"
definition CMD_OFF_RESERVED :: nat where "CMD_OFF_RESERVED = 4"
definition CMD_OFF_NONCE :: nat where "CMD_OFF_NONCE = 5"
definition CMD_OFF_HEAD_BIND :: nat where "CMD_OFF_HEAD_BIND = 13"
definition CMD_OFF_SEQ :: nat where "CMD_OFF_SEQ = 45"
definition CMD_OFF_CRED_A :: nat where "CMD_OFF_CRED_A = 53"
definition CMD_OFF_CRED_B :: nat where "CMD_OFF_CRED_B = 55"
definition CMD_OFF_PAYLOAD_LEN :: nat where "CMD_OFF_PAYLOAD_LEN = 57"
definition CMD_OFF_PAYLOAD :: nat where "CMD_OFF_PAYLOAD = 61"

definition cmd_canon_len :: "cmd_frame \<Rightarrow> nat" where
  "cmd_canon_len f = usize_saturating_add CMD_HEADER_LEN (length (cmd_payload f))"

definition wire_len :: "cmd_frame \<Rightarrow> nat" where
  "wire_len f = usize_saturating_add (cmd_canon_len f) MAC_LEN"

definition frame_is_encodable :: "cmd_frame \<Rightarrow> bool" where
  "frame_is_encodable f \<longleftrightarrow> cmd_kind f \<in> {CMDK_CHALLENGE_REQ, CMDK_ACTIVATE_CMD, CMDK_NOP}"

definition cmd_canon :: "cmd_frame \<Rightarrow> bytes \<Rightarrow> bytes \<times> nat" where
  "cmd_canon f out = (
     if \<not> frame_is_encodable f then (out, 0)
     else let plen = length (cmd_payload f) in
       if plen > 2 ^ 32 - 1 then (out, 0)
       else let total = cmd_canon_len f in
         if length out < total then (out, 0)
         else let
           out = put CMD_OFF_MAGIC (le_bytes 2 CMD_MAGIC) out;
           out = put CMD_OFF_VER [CMD_VER] out;
           out = put CMD_OFF_KIND [cmd_kind f] out;
           out = put CMD_OFF_RESERVED [0] out;
           out = put CMD_OFF_NONCE (le_bytes 8 (nonce_echo f)) out;
           out = put CMD_OFF_HEAD_BIND (op_head_bind f) out;
           out = put CMD_OFF_SEQ (le_bytes 8 (cmd_seq f)) out;
           out = put CMD_OFF_CRED_A (le_bytes 2 (cred_a_id f)) out;
           out = put CMD_OFF_CRED_B (le_bytes 2 (cred_b_id f)) out;
           out = put CMD_OFF_PAYLOAD_LEN (le_bytes 4 (of_nat plen :: u32)) out;
           out = put CMD_OFF_PAYLOAD (cmd_payload f) out
         in (out, total))"

definition cmd_decode :: "bytes \<Rightarrow> cmd_frame option" where
  "cmd_decode buf = (
     if length buf < CMD_HEADER_LEN + MAC_LEN then None
     else if (of_le_bytes (slice buf CMD_OFF_MAGIC 2) :: u16) \<noteq> CMD_MAGIC then None
     else if buf ! CMD_OFF_VER \<noteq> CMD_VER then None
     else if buf ! CMD_OFF_RESERVED \<noteq> 0 then None
     else let kind = buf ! CMD_OFF_KIND in
       if kind \<notin> {CMDK_CHALLENGE_REQ, CMDK_ACTIVATE_CMD, CMDK_NOP} then None
       else let plen = unat (of_le_bytes (slice buf CMD_OFF_PAYLOAD_LEN 4) :: u32) in
         case usize_checked_add CMD_OFF_PAYLOAD plen of
           None \<Rightarrow> None
         | Some canon_end \<Rightarrow> (case usize_checked_add canon_end MAC_LEN of
             None \<Rightarrow> None
           | Some wire_end \<Rightarrow>
               if length buf < wire_end then None
               else Some \<lparr>cmd_kind = kind, nonce_echo = of_le_bytes (slice buf CMD_OFF_NONCE 8),
                 op_head_bind = slice buf CMD_OFF_HEAD_BIND PROV_HASH_LEN,
                 cmd_seq = of_le_bytes (slice buf CMD_OFF_SEQ 8),
                 cred_a_id = of_le_bytes (slice buf CMD_OFF_CRED_A 2),
                 cred_b_id = of_le_bytes (slice buf CMD_OFF_CRED_B 2),
                 cmd_payload = slice buf CMD_OFF_PAYLOAD (canon_end - CMD_OFF_PAYLOAD),
                 cmd_mac = slice buf canon_end MAC_LEN\<rparr>))"

definition key_evolve :: "bytes \<Rightarrow> bytes" where
  "key_evolve key = khash key EVOLVE_DOMAIN"

definition compute_mac :: "bytes \<Rightarrow> bytes \<Rightarrow> bytes \<Rightarrow> bytes" where
  "compute_mac key_a key_b msg = (let
     kdf_msg = replicate (length KDF_DOMAIN + KEY_LEN) 0;
     kdf_msg = put 0 KDF_DOMAIN kdf_msg;
     kdf_msg = put (length KDF_DOMAIN) key_b kdf_msg;
     k_s = khash key_a kdf_msg;
     tag = khash k_s msg
   in slice tag 0 MAC_LEN)"

datatype cmd_verdict = Accept | Malformed | NotActivate | RejectStale | RejectWrongHead | RejectSingleCred | RejectBadMac

definition verify_decoded :: "cmd_frame \<Rightarrow> u64 \<Rightarrow> bytes \<Rightarrow> bool \<Rightarrow> cmd_verdict" where
  "verify_decoded f expected_nonce live_head mac_ok = (
     if cmd_kind f \<noteq> CMDK_ACTIVATE_CMD then NotActivate
     else if nonce_echo f \<noteq> expected_nonce then RejectStale
     else if op_head_bind f \<noteq> live_head then RejectWrongHead
     else if cred_a_id f = cred_b_id f then RejectSingleCred
     else if \<not> mac_ok then RejectBadMac
     else Accept)"

text \<open>The verdict; the caller's scratch buffer is overwritten and not otherwise used.\<close>

definition decode_and_verify :: "bytes \<Rightarrow> u64 \<Rightarrow> bytes \<Rightarrow> bytes \<Rightarrow> bytes \<Rightarrow> bytes \<Rightarrow> cmd_verdict" where
  "decode_and_verify buf expected_nonce live_head key_a key_b scratch = (case cmd_decode buf of
     None \<Rightarrow> Malformed
   | Some f \<Rightarrow> (case cmd_canon f scratch of (out, n) \<Rightarrow>
       verify_decoded f expected_nonce live_head
         (n \<noteq> 0 \<and> compute_mac key_a key_b (take n out) = cmd_mac f)))"

definition seal :: "cmd_frame \<Rightarrow> bytes \<Rightarrow> bytes \<Rightarrow> bytes \<Rightarrow> bytes \<times> nat" where
  "seal f key_a key_b out = (
     if length out < wire_len f then (out, 0)
     else case cmd_canon f out of (out, n) \<Rightarrow>
       if n = 0 then (out, 0)
       else (put n (compute_mac key_a key_b (take n out)) out, n + MAC_LEN))"

section \<open>The boot self-test\<close>

text \<open>
  The part of \<open>opcmd_selftest\<close> after the memory substrate has produced the live head, which is an
  argument; \<open>KAN_ACTIVE\<close> is the constant false.
\<close>

definition OPCMD_BASE_KEY :: bytes where "OPCMD_BASE_KEY = replicate 32 0x4B"
definition OPCMD_CRED_A :: u16 where "OPCMD_CRED_A = 0xA101"
definition OPCMD_CRED_B :: u16 where "OPCMD_CRED_B = 0xB202"
definition KAN_ACTIVE :: bool where "KAN_ACTIVE = False"
definition WIRE_CAP :: nat where "WIRE_CAP = CMD_HEADER_LEN + 4 + MAC_LEN"

record opcmd_proof =
  accepted :: bool
  stale_rejected :: bool
  wronghead_rejected :: bool
  single_cred_rejected :: bool
  badmac_rejected :: bool
  opcmd_kat_ok :: bool
  oldkey_zeroized :: bool
  kan_active :: bool
  challenge :: u64

fun zeroize_from :: "nat \<Rightarrow> bytes \<Rightarrow> bytes" where
  "zeroize_from 0 key = key"
| "zeroize_from (Suc n) key = zeroize_from n (key[KEY_LEN - Suc n := 0])"

definition opcmd_frame :: "bytes \<Rightarrow> u64 \<Rightarrow> cmd_frame" where
  "opcmd_frame live_head ch = \<lparr>cmd_kind = CMDK_ACTIVATE_CMD, nonce_echo = ch, op_head_bind = live_head, cmd_seq = 1,
     cred_a_id = OPCMD_CRED_A, cred_b_id = OPCMD_CRED_B, cmd_payload = [0, 1, 2, 3], cmd_mac = replicate MAC_LEN 0\<rparr>"

definition opcmd_selftest :: "bytes \<Rightarrow> opcmd_proof" where
  "opcmd_selftest live_head = (let
     kat = kat_ok;
     ch = head_witness live_head OR 1;
     key_a = key_evolve OPCMD_BASE_KEY;
     key_b = key_evolve key_a;
     old_epoch = zeroize_from KEY_LEN OPCMD_BASE_KEY;
     zeroized = list_all (\<lambda>b. b = 0) old_epoch;
     cmd = opcmd_frame live_head ch
   in case seal cmd key_a key_b (replicate WIRE_CAP 0) of (wire, n) \<Rightarrow>
     if n \<noteq> WIRE_CAP then \<lparr>accepted = False, stale_rejected = False, wronghead_rejected = False,
        single_cred_rejected = False, badmac_rejected = False, opcmd_kat_ok = False, oldkey_zeroized = False,
        kan_active = KAN_ACTIVE, challenge = ch\<rparr>
     else let
       scratch = replicate (CMD_HEADER_LEN + 4) 0;
       wrong_head = live_head[0 := live_head ! 0 XOR 1];
       single = cmd\<lparr>cred_a_id := OPCMD_CRED_A, cred_b_id := OPCMD_CRED_A\<rparr>;
       mac_off = n - MAC_LEN;
       tampered = wire[mac_off := wire ! mac_off XOR 1]
     in \<lparr>accepted = (decode_and_verify (take n wire) ch live_head key_a key_b scratch = Accept),
         stale_rejected = (decode_and_verify (take n wire) (ch XOR 1) live_head key_a key_b scratch = RejectStale),
         wronghead_rejected = (decode_and_verify (take n wire) ch wrong_head key_a key_b scratch = RejectWrongHead),
         single_cred_rejected = (case seal single key_a key_b (replicate WIRE_CAP 0) of (wire2, n2) \<Rightarrow>
            n2 = WIRE_CAP \<and> decode_and_verify (take n2 wire2) ch live_head key_a key_b scratch = RejectSingleCred),
         badmac_rejected = (decode_and_verify (take n tampered) ch live_head key_a key_b scratch = RejectBadMac),
         opcmd_kat_ok = kat, oldkey_zeroized = zeroized, kan_active = KAN_ACTIVE, challenge = ch\<rparr>)"

lemmas cmd_consts [codec_simps] = CMD_HEADER_LEN_def PROV_HASH_LEN_def CMD_OFF_MAGIC_def CMD_OFF_VER_def CMD_OFF_KIND_def
  CMD_OFF_RESERVED_def CMD_OFF_NONCE_def CMD_OFF_HEAD_BIND_def CMD_OFF_SEQ_def CMD_OFF_CRED_A_def CMD_OFF_CRED_B_def
  CMD_OFF_PAYLOAD_LEN_def CMD_OFF_PAYLOAD_def CMD_VER_def CMD_MAGIC_def MAC_LEN_def

section \<open>The command is a canonical codec\<close>

definition cmd_ok :: "cmd_frame \<Rightarrow> bool" where
  "cmd_ok f \<longleftrightarrow> frame_is_encodable f \<and> length (op_head_bind f) = 32 \<and> length (cmd_payload f) < 2 ^ 32 \<and> length (cmd_mac f) = 16"

definition cmd_bytes :: "cmd_frame \<Rightarrow> bytes" where
  "cmd_bytes f = le_bytes 2 CMD_MAGIC @ [CMD_VER, cmd_kind f, 0] @ le_bytes 8 (nonce_echo f) @ op_head_bind f @
     le_bytes 8 (cmd_seq f) @ le_bytes 2 (cred_a_id f) @ le_bytes 2 (cred_b_id f) @
     le_bytes 4 (of_nat (length (cmd_payload f)) :: u32) @ cmd_payload f"

definition cmd_wire :: "cmd_frame \<Rightarrow> bytes" where
  "cmd_wire f = cmd_bytes f @ cmd_mac f"

lemma cmd_canon_len_ok: "cmd_ok f \<Longrightarrow> cmd_canon_len f = 61 + length (cmd_payload f)"
  by (simp add: cmd_canon_len_def cmd_ok_def cmd_consts)

lemma length_cmd_bytes: "cmd_ok f \<Longrightarrow> length (cmd_bytes f) = cmd_canon_len f"
  by (simp add: cmd_canon_len_ok cmd_bytes_def cmd_ok_def)

lemma cmd_canon_writes:
  assumes "cmd_ok f"
  shows "cmd_canon f out = (if length out < cmd_canon_len f then (out, 0)
    else (cmd_bytes f @ drop (cmd_canon_len f) out, cmd_canon_len f))"
  using assms cmd_canon_len_ok[OF assms]
  by (simp add: cmd_canon_def cmd_bytes_def cmd_ok_def cmd_consts buffer_simps Let_def add.commute)

lemma cmd_decode_wire: "cmd_ok f \<Longrightarrow> cmd_decode (cmd_wire f @ rest) = Some f"
  by (simp add: cmd_decode_def cmd_wire_def cmd_bytes_def cmd_ok_def frame_is_encodable_def cmd_consts buffer_simps nth_append Let_def
      unat_of_nat)

lemma cmd_decode_SomeD:
  assumes "cmd_decode buf = Some f"
  shows "cmd_ok f" "slice buf 0 2 = le_bytes 2 CMD_MAGIC" "slice buf 2 3 = [CMD_VER, cmd_kind f, 0]"
    "slice buf 5 8 = le_bytes 8 (nonce_echo f)" "slice buf 13 32 = op_head_bind f" "slice buf 45 8 = le_bytes 8 (cmd_seq f)"
    "slice buf 53 2 = le_bytes 2 (cred_a_id f)" "slice buf 55 2 = le_bytes 2 (cred_b_id f)"
    "slice buf 57 4 = le_bytes 4 (of_nat (length (cmd_payload f)) :: u32)"
    "slice buf 61 (length (cmd_payload f)) = cmd_payload f" "slice buf (61 + length (cmd_payload f)) 16 = cmd_mac f"
proof -
  let ?w = "of_le_bytes (slice buf 57 4) :: u32"
  have w: "unat ?w < 4294967296"
    by (rule u32_bound)
  then have f: "f = \<lparr>cmd_kind = buf ! 3, nonce_echo = of_le_bytes (slice buf 5 8), op_head_bind = slice buf 13 32,
      cmd_seq = of_le_bytes (slice buf 45 8), cred_a_id = of_le_bytes (slice buf 53 2), cred_b_id = of_le_bytes (slice buf 55 2),
      cmd_payload = slice buf 61 (unat ?w), cmd_mac = slice buf (61 + unat ?w) 16\<rparr>"
    and len: "61 + unat ?w + 16 \<le> length buf" and en: "frame_is_encodable f"
    and m: "(of_le_bytes (slice buf 0 2) :: u16) = CMD_MAGIC" "buf ! 2 = CMD_VER" "buf ! 4 = 0"
    using assms by (auto simp: cmd_decode_def cmd_consts frame_is_encodable_def Let_def split: if_splits)
  from len f have pl: "length (cmd_payload f) = unat ?w"
    by simp
  show "cmd_ok f" "slice buf 5 8 = le_bytes 8 (nonce_echo f)" "slice buf 13 32 = op_head_bind f"
    "slice buf 45 8 = le_bytes 8 (cmd_seq f)" "slice buf 53 2 = le_bytes 2 (cred_a_id f)" "slice buf 55 2 = le_bytes 2 (cred_b_id f)"
    "slice buf 61 (length (cmd_payload f)) = cmd_payload f" "slice buf (61 + length (cmd_payload f)) 16 = cmd_mac f"
    using len en pl w by (simp_all add: cmd_ok_def f)
  show "slice buf 2 3 = [CMD_VER, cmd_kind f, 0]"
    using len m by (simp add: f slice_Suc eval_nat_numeral)
  show "slice buf 0 2 = le_bytes 2 CMD_MAGIC" "slice buf 57 4 = le_bytes 4 (of_nat (length (cmd_payload f)) :: u32)"
    using len pl by (simp_all add: m(1)[symmetric])
qed

interpretation cmd: codec cmd_wire cmd_decode cmd_ok
proof unfold_locales
  fix f rest buf
  show "cmd_ok f \<Longrightarrow> cmd_decode (cmd_wire f @ rest) = Some f"
    by (rule cmd_decode_wire)
  assume dec: "cmd_decode buf = Some f"
  show "cmd_ok f"
    by (rule cmd_decode_SomeD(1)[OF dec])
  note d = cmd_decode_SomeD[OF dec]
  have "buf = slice buf 0 2 @ slice buf 2 3 @ slice buf 5 8 @ slice buf 13 32 @ slice buf 45 8 @ slice buf 53 2 @ slice buf 55 2 @
      slice buf 57 4 @ slice buf 61 (length (cmd_payload f)) @ slice buf (61 + length (cmd_payload f)) 16 @
      drop (61 + length (cmd_payload f) + 16) buf"
    by (simp add: slice_drop)
  then show "\<exists>rest. buf = cmd_wire f @ rest"
    unfolding cmd_wire_def cmd_bytes_def d(2-11) by (metis append.assoc)
qed

section \<open>Verification and sealing\<close>

lemma length_compute_mac [simp]: "length (compute_mac ka kb msg) = 16"
  by (simp add: compute_mac_def MAC_LEN_def Let_def)

lemma decode_and_verify_wire:
  assumes "cmd_ok f"
  shows "decode_and_verify (cmd_wire f @ rest) nonce head ka kb scratch = verify_decoded f nonce head
    (cmd_canon_len f \<le> length scratch \<and> compute_mac ka kb (cmd_bytes f) = cmd_mac f)"
  using cmd_canon_writes[OF assms, of scratch] cmd_canon_len_ok[OF assms] length_cmd_bytes[OF assms]
  by (auto simp: decode_and_verify_def cmd_decode_wire[OF assms] not_less[symmetric])

lemma verify_decoded_Accept:
  "verify_decoded f nonce head mac_ok = Accept \<longleftrightarrow> cmd_kind f = CMDK_ACTIVATE_CMD \<and> nonce_echo f = nonce \<and>
     op_head_bind f = head \<and> cred_a_id f \<noteq> cred_b_id f \<and> mac_ok"
  by (simp add: verify_decoded_def)

lemma cmd_bytes_mac [simp]: "cmd_bytes (f\<lparr>cmd_mac := m\<rparr>) = cmd_bytes f" "cmd_canon_len (f\<lparr>cmd_mac := m\<rparr>) = cmd_canon_len f"
  by (simp_all add: cmd_bytes_def cmd_canon_len_def)

lemma seal_writes:
  fixes ka kb :: bytes
  assumes "cmd_ok f" "61 + length (cmd_payload f) + 16 \<le> length out"
  defines "m \<equiv> compute_mac ka kb (cmd_bytes f)"
  shows "seal f ka kb out = (cmd_wire (f\<lparr>cmd_mac := m\<rparr>) @ drop (cmd_canon_len f + 16) out, cmd_canon_len f + 16)"
proof -
  have len: "cmd_canon_len f = 61 + length (cmd_payload f)" "length (cmd_bytes f) = 61 + length (cmd_payload f)"
    "length (cmd_payload f) < 4294967296"
    using assms(1) cmd_canon_len_ok[OF assms(1)] length_cmd_bytes[OF assms(1)] by (simp_all add: cmd_ok_def)
  then have "wire_len f = 61 + length (cmd_payload f) + 16"
    by (simp add: wire_len_def MAC_LEN_def)
  then show ?thesis
    using assms(2) len cmd_canon_writes[OF assms(1), of out]
    by (simp add: seal_def m_def cmd_wire_def MAC_LEN_def put_append)
qed

lemma cmd_ok_mac: "cmd_ok f \<Longrightarrow> length m = 16 \<Longrightarrow> cmd_ok (f\<lparr>cmd_mac := m\<rparr>)"
  by (simp add: cmd_ok_def frame_is_encodable_def)

lemma length_cmd_wire: "cmd_ok f \<Longrightarrow> length (cmd_wire f) = cmd_canon_len f + 16"
  by (simp add: cmd_wire_def length_cmd_bytes) (simp add: cmd_ok_def)

text \<open>A buffer of exactly the wire length holds exactly the sealed command.\<close>

lemma seal_exact:
  assumes "cmd_ok f" "length out = cmd_canon_len f + 16"
  shows "seal f ka kb out = (cmd_wire (f\<lparr>cmd_mac := compute_mac ka kb (cmd_bytes f)\<rparr>), length out)"
  using seal_writes[OF assms(1), of out ka kb] assms(2) cmd_canon_len_ok[OF assms(1)] by simp

lemma verify_with_mac:
  assumes "cmd_ok f" "length m = 16" "cmd_canon_len f \<le> length scratch"
  shows "decode_and_verify (cmd_wire (f\<lparr>cmd_mac := m\<rparr>)) nonce head ka kb scratch =
    verify_decoded f nonce head (compute_mac ka kb (cmd_bytes f) = m)"
  using decode_and_verify_wire[OF cmd_ok_mac[OF assms(1,2)], of "[]" nonce head ka kb scratch] assms(3)
  by (simp add: verify_decoded_def)

lemma zeroize_all: "length key = KEY_LEN \<Longrightarrow> n \<le> KEY_LEN \<Longrightarrow>
  zeroize_from n key = take (KEY_LEN - n) key @ replicate n 0"
proof (induction n arbitrary: key)
  case (Suc n)
  then have "zeroize_from (Suc n) key = take (KEY_LEN - n) (key[KEY_LEN - Suc n := 0]) @ replicate n 0"
    by simp
  also have "take (KEY_LEN - n) (key[KEY_LEN - Suc n := 0]) = take (KEY_LEN - Suc n) key @ [0]"
  proof -
    have "KEY_LEN - n = Suc (KEY_LEN - Suc n)"
      using Suc.prems by simp
    then show ?thesis
      using Suc.prems by (simp add: take_Suc_conv_app_nth)
  qed
  finally show ?case
    by simp
qed simp

lemma xor_one_neq: "(w :: 'a::len word) XOR 1 \<noteq> w"
  by (metis xor.left_neutral xor.right_neutral xor_self_eq xor.assoc zero_neq_one)

section \<open>Properties\<close>

text \<open>
  C11: A command is accepted exactly when it should be. The verifier accepts a buffer if and only if it
  starts with the canonical bytes of an activation command that echoes the expected nonce, binds
  the live head and names two different credentials, followed by the authenticator of exactly
  those bytes under the two keys, and the scratch buffer can hold the canonical bytes. Every
  field is inside the authenticated bytes.
\<close>

theorem accept_exact:
  assumes "length live_head = 32"
  shows "decode_and_verify buf nonce live_head ka kb scratch = Accept \<longleftrightarrow>
    (\<exists>f rest. buf = cmd_bytes f @ compute_mac ka kb (cmd_bytes f) @ rest \<and> cmd_kind f = CMDK_ACTIVATE_CMD \<and>
      nonce_echo f = nonce \<and> op_head_bind f = live_head \<and> cred_a_id f \<noteq> cred_b_id f \<and>
      length (cmd_payload f) < 2 ^ 32 \<and> cmd_canon_len f \<le> length scratch)"
    (is "?L \<longleftrightarrow> ?R")
proof
  assume L: ?L
  then obtain f where dec: "cmd_decode buf = Some f"
    by (auto simp: decode_and_verify_def split: option.splits)
  then obtain rest where buf: "buf = cmd_wire f @ rest" and ok: "cmd_ok f"
    using cmd.dec_canonical cmd.dec_ok by blast
  from L have "verify_decoded f nonce live_head
      (cmd_canon_len f \<le> length scratch \<and> compute_mac ka kb (cmd_bytes f) = cmd_mac f) = Accept"
    unfolding buf decode_and_verify_wire[OF ok] .
  with buf ok show ?R
    by (intro exI[of _ f] exI[of _ rest]) (auto simp: verify_decoded_Accept cmd_wire_def cmd_ok_def)
next
  assume ?R
  then obtain f rest where f: "buf = cmd_bytes f @ compute_mac ka kb (cmd_bytes f) @ rest" "cmd_kind f = CMDK_ACTIVATE_CMD"
    "nonce_echo f = nonce" "op_head_bind f = live_head" "cred_a_id f \<noteq> cred_b_id f" "length (cmd_payload f) < 2 ^ 32"
    "cmd_canon_len f \<le> length scratch"
    by blast
  let ?f = "f\<lparr>cmd_mac := compute_mac ka kb (cmd_bytes f)\<rparr>"
  have "cmd_ok ?f" "buf = cmd_wire ?f @ rest"
    using f assms by (simp_all add: cmd_ok_def frame_is_encodable_def cmd_wire_def)
  with f show ?L
    using decode_and_verify_wire[OF \<open>cmd_ok ?f\<close>, of rest nonce live_head ka kb scratch]
    by (simp only:) (simp add: verify_decoded_Accept)
qed

text \<open>
  Sealing and verification are inverse, with the precise verdict. Sealing an encodable command
  into a large enough buffer writes its canonical bytes and their authenticator and nothing else,
  and verifying what was written under the same keys returns the first failing check in the
  documented order, or acceptance when none fails.
\<close>

theorem seal_then_verify:
  assumes "frame_is_encodable f" "length (op_head_bind f) = 32" "length (cmd_payload f) < 2 ^ 32"
    and "61 + length (cmd_payload f) + 16 \<le> length out" "61 + length (cmd_payload f) \<le> length scratch"
  shows "snd (seal f ka kb out) = 61 + length (cmd_payload f) + 16 \<and>
    drop (snd (seal f ka kb out)) (fst (seal f ka kb out)) = drop (snd (seal f ka kb out)) out \<and>
    decode_and_verify (fst (seal f ka kb out)) nonce live_head ka kb scratch =
     (if cmd_kind f \<noteq> CMDK_ACTIVATE_CMD then NotActivate
      else if nonce_echo f \<noteq> nonce then RejectStale
      else if op_head_bind f \<noteq> live_head then RejectWrongHead
      else if cred_a_id f = cred_b_id f then RejectSingleCred
      else Accept)"
proof -
  let ?g = "f\<lparr>cmd_mac := replicate 16 0\<rparr>" and ?m = "compute_mac ka kb (cmd_bytes f)"
  let ?h = "f\<lparr>cmd_mac := ?m\<rparr>"
  have g: "cmd_ok ?g" and h: "cmd_ok ?h"
    using assms(1-3) by (simp_all add: cmd_ok_def frame_is_encodable_def)
  have len: "cmd_canon_len f = 61 + length (cmd_payload f)"
    using cmd_canon_len_ok[OF g] by simp
  have "seal f ka kb out = seal ?g ka kb out"
    by (simp add: seal_def wire_len_def cmd_canon_def frame_is_encodable_def cmd_canon_len_def Let_def)
  also have "\<dots> = (cmd_wire ?h @ drop (cmd_canon_len f + 16) out, cmd_canon_len f + 16)"
    using seal_writes[OF g, of out ka kb] assms(4) by simp
  finally have sl: "seal f ka kb out = (cmd_wire ?h @ drop (cmd_canon_len f + 16) out, cmd_canon_len f + 16)" .
  have "length (cmd_wire ?h) = cmd_canon_len f + 16"
    using length_cmd_bytes[OF h] by (simp add: cmd_wire_def)
  then show ?thesis
    using assms(5) len by (simp add: sl decode_and_verify_wire[OF h] verify_decoded_def)
qed

text \<open>
  The boot self-test of the inbound command path passes for every live head. The sealed activation
  is accepted; the rotated nonce, the altered head, the single credential and the flipped
  authenticator byte each draw their precise rejection; the old key is erased; and acceptance
  never activates the learned cell.
\<close>

theorem opcmd_selftest_passes:
  assumes "length live_head = 32"
  shows "let p = opcmd_selftest live_head in accepted p \<and> stale_rejected p \<and> wronghead_rejected p \<and>
    single_cred_rejected p \<and> badmac_rejected p \<and> oldkey_zeroized p \<and> \<not> kan_active p \<and>
    challenge p = head_witness live_head OR 1 \<and> opcmd_kat_ok p = kat_ok"
proof -
  define ch where "ch = head_witness live_head OR 1"
  define ka where "ka = key_evolve OPCMD_BASE_KEY"
  define kb where "kb = key_evolve ka"
  define f where "f = opcmd_frame live_head ch"
  define g where "g = f\<lparr>cred_a_id := OPCMD_CRED_A, cred_b_id := OPCMD_CRED_A\<rparr>"
  define m where "m = compute_mac ka kb (cmd_bytes f)"
  define m' where "m' = m[0 := m ! 0 XOR 1]"
  define w where "w = live_head[0 := live_head ! 0 XOR 1]"
  note defs = f_def g_def opcmd_frame_def MAC_LEN_def
  have ok: "cmd_ok f" "cmd_ok g"
    using assms by (simp_all add: cmd_ok_def frame_is_encodable_def defs)
  have len: "cmd_canon_len f = 65" "cmd_canon_len g = 65" "length (cmd_bytes f) = 65" "length m = 16" "length m' = 16"
    using cmd_canon_len_ok[OF ok(1)] cmd_canon_len_ok[OF ok(2)] length_cmd_bytes[OF ok(1)] by (simp_all add: defs m_def m'_def)
  have cap: "WIRE_CAP = 81" "CMD_HEADER_LEN + 4 = 65"
    by (simp_all add: WIRE_CAP_def CMD_HEADER_LEN_def PROV_HASH_LEN_def MAC_LEN_def)
  have s: "seal f ka kb (replicate 81 0) = (cmd_wire (f\<lparr>cmd_mac := m\<rparr>), 81)"
    "seal g ka kb (replicate 81 0) = (cmd_wire (g\<lparr>cmd_mac := compute_mac ka kb (cmd_bytes g)\<rparr>), 81)"
    using seal_exact[OF ok(1), of "replicate 81 0" ka kb] seal_exact[OF ok(2), of "replicate 81 0" ka kb] len by (simp_all add: m_def)
  have tk: "take 81 (cmd_wire (f\<lparr>cmd_mac := x\<rparr>)) = cmd_wire (f\<lparr>cmd_mac := x\<rparr>)"
    "take 81 (cmd_wire (g\<lparr>cmd_mac := x\<rparr>)) = cmd_wire (g\<lparr>cmd_mac := x\<rparr>)" if "length x = 16" for x
    using length_cmd_wire[OF cmd_ok_mac[OF ok(1) that]] length_cmd_wire[OF cmd_ok_mac[OF ok(2) that]] len by simp_all
  have tam: "(cmd_wire (f\<lparr>cmd_mac := m\<rparr>))[65 := cmd_wire (f\<lparr>cmd_mac := m\<rparr>) ! 65 XOR 1] = cmd_wire (f\<lparr>cmd_mac := m'\<rparr>)"
    using len by (simp add: cmd_wire_def m'_def list_update_append nth_append)
  have ne: "m' \<noteq> m" "w \<noteq> live_head" "ch XOR 1 \<noteq> ch"
    using len assms xor_one_neq by (metis m'_def nth_list_update_eq zero_less_numeral, metis w_def nth_list_update_eq zero_less_numeral, blast)
  have vd: "verify_decoded f nc h x = (if ch \<noteq> nc then RejectStale else if live_head \<noteq> h then RejectWrongHead
      else if x then Accept else RejectBadMac)" "verify_decoded g ch live_head True = RejectSingleCred" for nc h x
    by (simp_all add: verify_decoded_def defs OPCMD_CRED_A_def OPCMD_CRED_B_def)
  have z: "list_all (\<lambda>b. b = 0) (zeroize_from KEY_LEN OPCMD_BASE_KEY)"
    by (simp add: zeroize_all OPCMD_BASE_KEY_def KEY_LEN_def list_all_iff)
  show ?thesis
    using ne z len
    unfolding opcmd_selftest_def ch_def[symmetric] ka_def[symmetric] kb_def[symmetric] Let_def f_def[symmetric] cap s prod.case
    by (simp add: MAC_LEN_def g_def[symmetric] w_def[symmetric] s tam tk verify_with_mac[OF ok(1)] verify_with_mac[OF ok(2)]
        m_def[symmetric] vd KAN_ACTIVE_def)
qed

section \<open>Witnesses\<close>

definition demo_cmd :: cmd_frame where
  "demo_cmd = opcmd_frame genesis 7"

lemma demo_cmd_ok: "cmd_ok demo_cmd" "cmd_canon_len demo_cmd = 65"
proof -
  show ok: "cmd_ok demo_cmd"
    by (simp add: demo_cmd_def opcmd_frame_def cmd_ok_def frame_is_encodable_def MAC_LEN_def)
  show "cmd_canon_len demo_cmd = 65"
    using cmd_canon_len_ok[OF ok] by (simp add: demo_cmd_def opcmd_frame_def)
qed

theorem accept_exact_witness:
  "decode_and_verify (cmd_bytes demo_cmd @ compute_mac KAT_KEY KAT_KEY (cmd_bytes demo_cmd)) 7 genesis KAT_KEY KAT_KEY (replicate 65 0) = Accept"
  by (rule iffD2[OF accept_exact], simp, rule exI[of _ demo_cmd], rule exI[of _ "[]"])
    (simp add: demo_cmd_ok(2), simp add: demo_cmd_def opcmd_frame_def OPCMD_CRED_A_def OPCMD_CRED_B_def)

theorem seal_then_verify_witness:
  "decode_and_verify (fst (seal demo_cmd KAT_KEY KAT_KEY (replicate 81 0))) 8 genesis KAT_KEY KAT_KEY (replicate 65 0) = RejectStale"
  using seal_then_verify[of demo_cmd "replicate 81 0" "replicate 65 0" KAT_KEY KAT_KEY 8 genesis]
  by (simp add: demo_cmd_def opcmd_frame_def frame_is_encodable_def)

theorem opcmd_selftest_passes_witness: "accepted (opcmd_selftest genesis) \<and> \<not> kan_active (opcmd_selftest genesis)"
  using opcmd_selftest_passes[of genesis] by (simp add: Let_def)

end
