(* ===== verification/Inferwire.thy ===== *)
theory Inferwire
  imports Brand Khash
begin

text \<open>
  The inference-transport frame of \<open>crates/tb-encode/src/inferwire.rs\<close>: the frame codec, the keyed
  echo tag and the kernel-side echo check.
\<close>

definition INFER_MAGIC :: u16 where "INFER_MAGIC = MAGIC_INFERWIRE"
definition INFER_VER :: u8 where "INFER_VER = 1"
definition INFER_PAYLOAD_CAP :: nat where "INFER_PAYLOAD_CAP = 1024"
definition INFER_TAG_LEN :: nat where "INFER_TAG_LEN = 16"
definition INFER_CHALLENGE_LEN :: nat where "INFER_CHALLENGE_LEN = 16"
definition INFER_NONCE_LEN :: nat where "INFER_NONCE_LEN = 16"
definition INFER_KEY_LEN :: nat where "INFER_KEY_LEN = KHASH_KEY_LEN"
definition ECHO_DOMAIN :: bytes where "ECHO_DOMAIN = DOMSEP_M30_ECHO"

definition INK_ECHO_REQ :: u8 where "INK_ECHO_REQ = 1"
definition INK_ECHO_RESP :: u8 where "INK_ECHO_RESP = 2"
definition INK_ERR :: u8 where "INK_ERR = 3"
definition INK_INFER_REQ :: u8 where "INK_INFER_REQ = 4"
definition INK_INFER_RESP :: u8 where "INK_INFER_RESP = 5"
definition INK_INFER_PENDING :: u8 where "INK_INFER_PENDING = 6"

record infer_frame =
  if_kind :: u8
  if_req_id :: u64
  if_challenge :: bytes
  if_nonce :: bytes
  if_peer_id :: u8
  if_tag :: bytes
  if_payload :: bytes

definition INFER_HEADER_LEN :: nat where
  "INFER_HEADER_LEN = 2 + 1 + 1 + 1 + 8 + INFER_CHALLENGE_LEN + INFER_NONCE_LEN + 1 + INFER_TAG_LEN + 4"

definition IN_OFF_MAGIC :: nat where "IN_OFF_MAGIC = 0"
definition IN_OFF_VER :: nat where "IN_OFF_VER = 2"
definition IN_OFF_KIND :: nat where "IN_OFF_KIND = 3"
definition IN_OFF_FLAGS :: nat where "IN_OFF_FLAGS = 4"
definition IN_OFF_REQ_ID :: nat where "IN_OFF_REQ_ID = 5"
definition IN_OFF_CHALLENGE :: nat where "IN_OFF_CHALLENGE = 13"
definition IN_OFF_NONCE :: nat where "IN_OFF_NONCE = 29"
definition IN_OFF_PEER :: nat where "IN_OFF_PEER = 45"
definition IN_OFF_TAG :: nat where "IN_OFF_TAG = 46"
definition IN_OFF_PAYLOAD_LEN :: nat where "IN_OFF_PAYLOAD_LEN = 62"
definition IN_OFF_PAYLOAD :: nat where "IN_OFF_PAYLOAD = 66"

definition infer_canon_len :: "nat \<Rightarrow> nat" where
  "infer_canon_len payload_len = usize_saturating_add INFER_HEADER_LEN payload_len"

definition infer_wire_len :: "infer_frame \<Rightarrow> nat" where
  "infer_wire_len f = infer_canon_len (length (if_payload f))"

definition payload_encodable :: "nat \<Rightarrow> bool" where
  "payload_encodable payload_len \<longleftrightarrow> payload_len \<le> INFER_PAYLOAD_CAP"

definition kind_known :: "u8 \<Rightarrow> bool" where
  "kind_known k \<longleftrightarrow> k \<in> {INK_ECHO_REQ, INK_ECHO_RESP, INK_ERR, INK_INFER_REQ, INK_INFER_RESP, INK_INFER_PENDING}"

definition infer_canon :: "infer_frame \<Rightarrow> bytes \<Rightarrow> bytes \<times> nat" where
  "infer_canon f out = (
     if \<not> payload_encodable (length (if_payload f)) \<or> \<not> kind_known (if_kind f) then (out, 0)
     else let plen = length (if_payload f); total = infer_canon_len plen in
       if length out < total then (out, 0)
       else let
         out = put IN_OFF_MAGIC (le_bytes 2 INFER_MAGIC) out;
         out = put IN_OFF_VER [INFER_VER] out;
         out = put IN_OFF_KIND [if_kind f] out;
         out = put IN_OFF_FLAGS [0] out;
         out = put IN_OFF_REQ_ID (le_bytes 8 (if_req_id f)) out;
         out = put IN_OFF_CHALLENGE (if_challenge f) out;
         out = put IN_OFF_NONCE (if_nonce f) out;
         out = put IN_OFF_PEER [if_peer_id f] out;
         out = put IN_OFF_TAG (if_tag f) out;
         out = put IN_OFF_PAYLOAD_LEN (le_bytes 4 (of_nat plen :: u32)) out;
         out = put IN_OFF_PAYLOAD (if_payload f) out
       in (out, total))"

definition infer_decode :: "bytes \<Rightarrow> infer_frame option" where
  "infer_decode buf = (
     if length buf < INFER_HEADER_LEN then None
     else if (of_le_bytes (slice buf IN_OFF_MAGIC 2) :: u16) \<noteq> INFER_MAGIC then None
     else if buf ! IN_OFF_VER \<noteq> INFER_VER then None
     else if buf ! IN_OFF_FLAGS \<noteq> 0 then None
     else let kind = buf ! IN_OFF_KIND in
       if \<not> kind_known kind then None
       else let plen = unat (of_le_bytes (slice buf IN_OFF_PAYLOAD_LEN 4) :: u32) in
         if \<not> payload_encodable plen then None
         else let e = INFER_HEADER_LEN + plen in
           if length buf < e then None
           else Some \<lparr>if_kind = kind, if_req_id = of_le_bytes (slice buf IN_OFF_REQ_ID 8),
             if_challenge = slice buf IN_OFF_CHALLENGE INFER_CHALLENGE_LEN,
             if_nonce = slice buf IN_OFF_NONCE INFER_NONCE_LEN, if_peer_id = buf ! IN_OFF_PEER,
             if_tag = slice buf IN_OFF_TAG INFER_TAG_LEN, if_payload = slice buf IN_OFF_PAYLOAD (e - IN_OFF_PAYLOAD)\<rparr>)"

definition resp_binds_req :: "infer_frame \<Rightarrow> u64 \<Rightarrow> bool" where
  "resp_binds_req resp req_id \<longleftrightarrow> if_kind resp = INK_ECHO_RESP \<and> if_req_id resp = req_id"

text \<open>
  The message of the tag is assembled field by field at a running offset in a zeroed buffer of the
  largest size, and the part written is hashed; \<open>put_fields\<close> is that loop.
\<close>

fun put_fields :: "nat \<Rightarrow> bytes list \<Rightarrow> bytes \<Rightarrow> bytes \<times> nat" where
  "put_fields off [] msg = (msg, off)"
| "put_fields off (x # xs) msg = put_fields (off + length x) xs (put off x msg)"

definition ECHO_MSG_CAP :: nat where
  "ECHO_MSG_CAP = length ECHO_DOMAIN + 1 + INFER_NONCE_LEN + INFER_CHALLENGE_LEN + INFER_PAYLOAD_CAP"

definition echo_tag :: "bytes \<Rightarrow> u8 \<Rightarrow> bytes \<Rightarrow> bytes \<Rightarrow> bytes \<Rightarrow> bytes" where
  "echo_tag key peer_id nonce challenge body = (
     let blen = (if length body > INFER_PAYLOAD_CAP then INFER_PAYLOAD_CAP else length body)
     in case put_fields 0 [ECHO_DOMAIN, [peer_id], nonce, challenge, take blen body] (replicate ECHO_MSG_CAP 0) of
       (msg, off) \<Rightarrow> slice (khash key (take off msg)) 0 INFER_TAG_LEN)"

definition verify_echo :: "bytes \<Rightarrow> infer_frame \<Rightarrow> infer_frame \<Rightarrow> bool" where
  "verify_echo key resp req = (
     if \<not> resp_binds_req resp (if_req_id req) then False
     else if if_challenge resp \<noteq> if_challenge req then False
     else if length (if_payload resp) \<noteq> length (if_payload req) then False
     else if if_payload resp \<noteq> if_payload req then False
     else echo_tag key (if_peer_id resp) (if_nonce resp) (if_challenge req) (if_payload resp) = if_tag resp)"

lemmas infer_consts [codec_simps] = INFER_HEADER_LEN_def INFER_CHALLENGE_LEN_def INFER_NONCE_LEN_def INFER_TAG_LEN_def
  INFER_PAYLOAD_CAP_def IN_OFF_MAGIC_def IN_OFF_VER_def IN_OFF_KIND_def IN_OFF_FLAGS_def IN_OFF_REQ_ID_def
  IN_OFF_CHALLENGE_def IN_OFF_NONCE_def IN_OFF_PEER_def IN_OFF_TAG_def IN_OFF_PAYLOAD_LEN_def IN_OFF_PAYLOAD_def
  INFER_VER_def INFER_MAGIC_def payload_encodable_def

section \<open>The frame is a canonical codec\<close>

definition infer_ok :: "infer_frame \<Rightarrow> bool" where
  "infer_ok f \<longleftrightarrow> kind_known (if_kind f) \<and> length (if_challenge f) = 16 \<and> length (if_nonce f) = 16 \<and>
     length (if_tag f) = 16 \<and> length (if_payload f) \<le> 1024"

definition infer_head :: "infer_frame \<Rightarrow> bytes" where
  "infer_head f = le_bytes 2 INFER_MAGIC @ [INFER_VER, if_kind f, 0] @ le_bytes 8 (if_req_id f) @
     if_challenge f @ if_nonce f @ [if_peer_id f] @ if_tag f @ le_bytes 4 (of_nat (length (if_payload f)) :: u32)"

definition infer_bytes :: "infer_frame \<Rightarrow> bytes" where
  "infer_bytes f = infer_head f @ if_payload f"

lemma length_infer_head: "infer_ok f \<Longrightarrow> length (infer_head f) = 66"
  by (simp add: infer_head_def infer_ok_def)

lemma infer_wire_len_ok: "infer_ok f \<Longrightarrow> infer_wire_len f = 66 + length (if_payload f)"
  by (simp add: infer_wire_len_def infer_canon_len_def infer_ok_def infer_consts)

lemma length_infer_bytes: "infer_ok f \<Longrightarrow> length (infer_bytes f) = infer_wire_len f"
  by (simp add: infer_bytes_def length_infer_head infer_wire_len_ok)

lemma infer_canon_writes:
  assumes "infer_ok f"
  shows "infer_canon f out = (if length out < infer_wire_len f then (out, 0)
    else (infer_bytes f @ drop (infer_wire_len f) out, infer_wire_len f))"
  using assms infer_wire_len_ok[OF assms] unfolding infer_wire_len_def
  by (simp add: infer_canon_def infer_bytes_def infer_head_def infer_ok_def infer_consts buffer_simps Let_def add.commute)

lemma infer_decode_bytes: "infer_ok f \<Longrightarrow> infer_decode (infer_bytes f @ rest) = Some f"
  by (simp add: infer_decode_def infer_bytes_def infer_head_def infer_ok_def infer_consts buffer_simps nth_append Let_def
      unat_of_nat)

lemma infer_decode_SomeD:
  assumes "infer_decode buf = Some f"
  shows "infer_ok f" "slice buf 0 2 = le_bytes 2 INFER_MAGIC" "slice buf 2 3 = [INFER_VER, if_kind f, 0]"
    "slice buf 5 8 = le_bytes 8 (if_req_id f)" "slice buf 13 16 = if_challenge f" "slice buf 29 16 = if_nonce f"
    "slice buf 45 1 = [if_peer_id f]" "slice buf 46 16 = if_tag f"
    "slice buf 62 4 = le_bytes 4 (of_nat (length (if_payload f)) :: u32)" "slice buf 66 (length (if_payload f)) = if_payload f"
proof -
  let ?w = "of_le_bytes (slice buf 62 4) :: u32"
  from assms have f: "f = \<lparr>if_kind = buf ! 3, if_req_id = of_le_bytes (slice buf 5 8), if_challenge = slice buf 13 16,
      if_nonce = slice buf 29 16, if_peer_id = buf ! 45, if_tag = slice buf 46 16, if_payload = slice buf 66 (unat ?w)\<rparr>"
    and len: "66 + unat ?w \<le> length buf" and en: "kind_known (if_kind f)" "unat ?w \<le> 1024"
    and m: "(of_le_bytes (slice buf 0 2) :: u16) = INFER_MAGIC" "buf ! 2 = INFER_VER" "buf ! 4 = 0"
    by (auto simp: infer_decode_def infer_consts Let_def split: if_splits)
  from len f have pl: "length (if_payload f) = unat ?w"
    by simp
  show "infer_ok f" "slice buf 5 8 = le_bytes 8 (if_req_id f)" "slice buf 13 16 = if_challenge f" "slice buf 29 16 = if_nonce f"
    "slice buf 46 16 = if_tag f" "slice buf 66 (length (if_payload f)) = if_payload f"
    using len en pl by (simp_all add: infer_ok_def f)
  show "slice buf 2 3 = [INFER_VER, if_kind f, 0]" "slice buf 45 1 = [if_peer_id f]"
    using len m by (simp_all add: f slice_Suc eval_nat_numeral)
  show "slice buf 0 2 = le_bytes 2 INFER_MAGIC" "slice buf 62 4 = le_bytes 4 (of_nat (length (if_payload f)) :: u32)"
    using len pl by (simp_all add: m(1)[symmetric])
qed

interpretation inf: codec infer_bytes infer_decode infer_ok
proof unfold_locales
  fix f rest buf
  show "infer_ok f \<Longrightarrow> infer_decode (infer_bytes f @ rest) = Some f"
    by (rule infer_decode_bytes)
  assume dec: "infer_decode buf = Some f"
  show "infer_ok f"
    by (rule infer_decode_SomeD(1)[OF dec])
  note d = infer_decode_SomeD[OF dec]
  have "buf = slice buf 0 2 @ slice buf 2 3 @ slice buf 5 8 @ slice buf 13 16 @ slice buf 29 16 @ slice buf 45 1 @ slice buf 46 16 @
      slice buf 62 4 @ slice buf 66 (length (if_payload f)) @ drop (66 + length (if_payload f)) buf"
    by (simp add: slice_drop)
  then show "\<exists>rest. buf = infer_bytes f @ rest"
    unfolding infer_bytes_def infer_head_def d(2-10) by (metis append.assoc)
qed

section \<open>Tags\<close>

lemma put_fields_concat:
  "off + length (concat xs) \<le> length msg \<Longrightarrow>
    put_fields off xs msg = (take off msg @ concat xs @ drop (off + length (concat xs)) msg, off + length (concat xs))"
proof (induction xs arbitrary: off msg)
  case (Cons x xs)
  then show ?case
    by (simp add: put_def ac_simps)
qed simp

lemma put_fields_hashed:
  "length (concat xs) \<le> cap \<Longrightarrow> (case put_fields 0 xs (replicate cap 0) of (msg, off) \<Rightarrow> g (take off msg)) = g (concat xs)"
  by (simp add: put_fields_concat)

lemma echo_tag_message:
  assumes "length nonce = 16" "length challenge = 16" "length body \<le> 1024"
  shows "echo_tag key p nonce challenge body = take 16 (khash key (ECHO_DOMAIN @ [p] @ nonce @ challenge @ body))"
proof -
  have "length (concat [ECHO_DOMAIN, [p], nonce, challenge, take (length body) body]) \<le> ECHO_MSG_CAP"
    using assms by (simp add: ECHO_MSG_CAP_def infer_consts)
  from put_fields_hashed[OF this] show ?thesis
    using assms(3) by (simp add: echo_tag_def infer_consts slice_def)
qed

end
