(* ===== verification/Frame_Accum.thy ===== *)
theory Frame_Accum
  imports Inferwire
begin

text \<open>
  The byte-stream re-framer \<open>FrameAccum\<close> of \<open>crates/tb-encode/src/inferwire.rs\<close>: bytes are pushed one
  at a time into a fixed buffer, implausible prefixes are dropped, and a complete frame at the
  front is announced. The array program is refined to a scan of the byte view, over which
  soundness (an announced window decodes) and completeness (a stream of frames is delivered) are
  proved.
\<close>

record frame_accum =
  fa_buf :: bytes
  fa_len :: nat

definition INFER_ACCUM_CAP :: nat where "INFER_ACCUM_CAP = INFER_HEADER_LEN + INFER_PAYLOAD_CAP"

definition fa_new :: "nat \<Rightarrow> frame_accum" where
  "fa_new cap = \<lparr>fa_buf = replicate cap 0, fa_len = 0\<rparr>"

definition fa_is_empty :: "frame_accum \<Rightarrow> bool" where
  "fa_is_empty a \<longleftrightarrow> fa_len a = 0"

definition fa_bytes :: "frame_accum \<Rightarrow> bytes" where
  "fa_bytes a = take (fa_len a) (fa_buf a)"

text \<open>The copy loop of \<open>consume\<close>: \<open>buf[i] = buf[n + i]\<close> for ascending \<open>i\<close>.\<close>

fun copy_down :: "nat \<Rightarrow> nat \<Rightarrow> nat \<Rightarrow> bytes \<Rightarrow> bytes" where
  "copy_down n i 0 b = b"
| "copy_down n i (Suc k) b = copy_down n (i + 1) k (b[i := b ! (n + i)])"

definition fa_consume :: "nat \<Rightarrow> frame_accum \<Rightarrow> frame_accum" where
  "fa_consume n a = (
     let n = (if n > fa_len a then fa_len a else n); remain = fa_len a - n
     in a\<lparr>fa_buf := copy_down n 0 remain (fa_buf a), fa_len := remain\<rparr>)"

definition magic_lo :: u8 where "magic_lo = ucast (INFER_MAGIC AND 0xFF)"
definition magic_hi :: u8 where "magic_hi = ucast (drop_bit 8 INFER_MAGIC)"

text \<open>The search loop of \<open>resync_to_magic\<close> from index \<open>i\<close>, with \<open>k\<close> positions left.\<close>

fun resync_from :: "nat \<Rightarrow> nat \<Rightarrow> frame_accum \<Rightarrow> frame_accum" where
  "resync_from i 0 a = a\<lparr>fa_len := 0\<rparr>"
| "resync_from i (Suc k) a = (if fa_buf a ! i = magic_lo then fa_consume i a else resync_from (i + 1) k a)"

definition resync_to_magic :: "frame_accum \<Rightarrow> frame_accum" where
  "resync_to_magic a = resync_from 1 (fa_len a - 1) a"

definition fa_plen :: "frame_accum \<Rightarrow> nat" where
  "fa_plen a = unat (of_le_bytes (slice (fa_buf a) IN_OFF_PAYLOAD_LEN 4) :: u32)"

lemma fa_len_consume [simp]: "fa_len (fa_consume n a) = fa_len a - n"
  by (simp add: fa_consume_def Let_def)

lemma fa_len_resync_from: "0 < i \<Longrightarrow> 0 < fa_len a \<Longrightarrow> fa_len (resync_from i k a) < fa_len a"
  by (induction i k a rule: resync_from.induct) auto

lemma fa_len_resync: "0 < fa_len a \<Longrightarrow> fa_len (resync_to_magic a) < fa_len a"
  by (simp add: resync_to_magic_def fa_len_resync_from)

function scan :: "frame_accum \<Rightarrow> frame_accum \<times> nat option" where
  "scan a = (
     if fa_len a = 0 then (a, None)
     else if fa_buf a ! 0 \<noteq> magic_lo then scan (resync_to_magic a)
     else if fa_len a \<ge> 2 \<and> fa_buf a ! 1 \<noteq> magic_hi then scan (fa_consume 1 a)
     else if fa_len a > IN_OFF_VER \<and> fa_buf a ! IN_OFF_VER \<noteq> INFER_VER then scan (fa_consume 1 a)
     else if fa_len a > IN_OFF_KIND \<and> \<not> kind_known (fa_buf a ! IN_OFF_KIND) then scan (fa_consume 1 a)
     else if fa_len a > IN_OFF_FLAGS \<and> fa_buf a ! IN_OFF_FLAGS \<noteq> 0 then scan (fa_consume 1 a)
     else if fa_len a < INFER_HEADER_LEN then (a, None)
     else if \<not> payload_encodable (fa_plen a) then scan (fa_consume 1 a)
     else let total = INFER_HEADER_LEN + fa_plen a in
       if fa_len a < total then (a, None) else (a, Some total))"
  by pat_completeness auto
termination
  by (relation "measure fa_len") (auto simp: fa_len_resync)

declare scan.simps [simp del]

definition push_byte :: "u8 \<Rightarrow> frame_accum \<Rightarrow> frame_accum \<times> nat option" where
  "push_byte b a = (
     let a = (if fa_len a = length (fa_buf a) then fa_consume 1 a else a);
         a = a\<lparr>fa_buf := (fa_buf a)[fa_len a := b], fa_len := fa_len a + 1\<rparr>
     in scan a)"

section \<open>The accumulator on its byte view\<close>

definition fa_inv :: "nat \<Rightarrow> frame_accum \<Rightarrow> bool" where
  "fa_inv cap a \<longleftrightarrow> length (fa_buf a) = cap \<and> fa_len a \<le> cap"

lemma length_copy_down [simp]: "length (copy_down n i k b) = length b"
  by (induction n i k b rule: copy_down.induct) auto

lemma copy_down_nth:
  "n + i + k \<le> length b \<Longrightarrow> j < length b \<Longrightarrow>
    copy_down n i k b ! j = (if i \<le> j \<and> j < i + k then b ! (n + j) else b ! j)"
proof (induction n i k b rule: copy_down.induct)
  case (2 n i k b)
  then show ?case
    by (cases n) (auto simp: nth_list_update)
qed auto

lemma fa_bytes_consume:
  assumes "fa_inv cap a"
  shows "fa_bytes (fa_consume n a) = drop n (fa_bytes a)" "fa_inv cap (fa_consume n a)"
proof -
  let ?n = "min n (fa_len a)"
  have "fa_consume n a = a\<lparr>fa_buf := copy_down ?n 0 (fa_len a - ?n) (fa_buf a), fa_len := fa_len a - ?n\<rparr>"
    by (simp add: fa_consume_def min_def Let_def)
  moreover have "take (fa_len a - ?n) (copy_down ?n 0 (fa_len a - ?n) (fa_buf a)) = drop ?n (take (fa_len a) (fa_buf a))"
    using assms by (intro nth_equalityI) (auto simp: fa_inv_def copy_down_nth)
  ultimately show "fa_bytes (fa_consume n a) = drop n (fa_bytes a)" "fa_inv cap (fa_consume n a)"
    using assms by (auto simp: fa_bytes_def fa_inv_def min_def)
qed

lemma length_fa_bytes: "fa_inv cap a \<Longrightarrow> length (fa_bytes a) = fa_len a"
  by (simp add: fa_bytes_def fa_inv_def)

lemma fa_empty_iff: "fa_inv cap a \<Longrightarrow> fa_is_empty a \<longleftrightarrow> fa_bytes a = []"
  using length_fa_bytes[of cap a] by (auto simp: fa_is_empty_def)

lemma fa_bytes_nth: "fa_inv cap a \<Longrightarrow> i < fa_len a \<Longrightarrow> fa_buf a ! i = fa_bytes a ! i"
  by (simp add: fa_bytes_def)

text \<open>A prefix that may still become a frame, and the length it announces once complete.\<close>

definition view_plen :: "bytes \<Rightarrow> nat" where
  "view_plen bs = unat (of_le_bytes (slice bs 62 4) :: u32)"

definition plausible :: "bytes \<Rightarrow> bool" where
  "plausible bs \<longleftrightarrow> bs \<noteq> [] \<and> bs ! 0 = magic_lo \<and> (2 \<le> length bs \<longrightarrow> bs ! 1 = magic_hi) \<and>
     (2 < length bs \<longrightarrow> bs ! 2 = INFER_VER) \<and> (3 < length bs \<longrightarrow> kind_known (bs ! 3)) \<and>
     (4 < length bs \<longrightarrow> bs ! 4 = 0) \<and> (66 \<le> length bs \<longrightarrow> view_plen bs \<le> 1024)"

definition announces :: "bytes \<Rightarrow> nat option" where
  "announces bs = (if 66 \<le> length bs \<and> 66 + view_plen bs \<le> length bs then Some (66 + view_plen bs) else None)"

fun scan_view :: "bytes \<Rightarrow> bytes \<times> nat option" where
  "scan_view [] = ([], None)"
| "scan_view (b # bs) = (if plausible (b # bs) then (b # bs, announces (b # bs)) else scan_view bs)"

lemma scan_view_drop:
  "\<forall>j<i. j < length bs \<longrightarrow> bs ! j \<noteq> magic_lo \<Longrightarrow> scan_view bs = scan_view (drop i bs)"
proof (induction i arbitrary: bs)
  case (Suc i)
  then show ?case
  proof (cases bs)
    case (Cons b bs')
    then have "b \<noteq> magic_lo"
      using Suc.prems by auto
    moreover have "scan_view bs' = scan_view (drop i bs')"
      using Suc.prems Cons by (intro Suc.IH) auto
    ultimately show ?thesis
      using Cons by (simp add: plausible_def)
  qed simp
qed simp

lemma resync_from_view:
  "fa_inv cap a \<Longrightarrow> i + k = fa_len a \<Longrightarrow> \<forall>j<i. fa_bytes a ! j \<noteq> magic_lo \<Longrightarrow>
    fa_inv cap (resync_from i k a) \<and> scan_view (fa_bytes (resync_from i k a)) = scan_view (fa_bytes a)"
proof (induction i k a rule: resync_from.induct)
  case (1 i a)
  then have "scan_view (fa_bytes a) = scan_view (drop i (fa_bytes a))"
    by (intro scan_view_drop) auto
  also have "drop i (fa_bytes a) = []"
    using 1 by (simp add: length_fa_bytes)
  finally show ?case
    using 1 by (simp add: fa_inv_def fa_bytes_def)
next
  case (2 i k a)
  show ?case
  proof (cases "fa_buf a ! i = magic_lo")
    case True
    then show ?thesis
      using 2 scan_view_drop[of i "fa_bytes a"] by (simp add: fa_bytes_consume)
  next
    case False
    then have "fa_bytes a ! i \<noteq> magic_lo"
      using 2 fa_bytes_nth[of cap a i] by simp
    then have "\<forall>j<i + 1. fa_bytes a ! j \<noteq> magic_lo"
      using "2.prems"(3) by (metis Suc_eq_plus1 less_SucE)
    with False 2 show ?thesis
      by simp
  qed
qed

lemma scan_refines:
  "fa_inv cap a \<Longrightarrow> fa_inv cap (fst (scan a)) \<and>
    (fa_bytes (fst (scan a)), snd (scan a)) = scan_view (fa_bytes a)"
proof (induction "fa_len a" arbitrary: a rule: less_induct)
  case less
  note len = length_fa_bytes[OF less.prems] and nth = fa_bytes_nth[OF less.prems]
  have pl: "fa_plen a = view_plen (fa_bytes a)" if "66 \<le> fa_len a"
    using that by (simp add: fa_plen_def view_plen_def IN_OFF_PAYLOAD_LEN_def fa_bytes_def slice_def drop_take)
  consider (empty) "fa_len a = 0" | (cand) "fa_len a \<noteq> 0" "plausible (fa_bytes a)"
    | (magic) "fa_len a \<noteq> 0" "\<not> plausible (fa_bytes a)" "fa_buf a ! 0 = magic_lo"
    | (junk) "fa_len a \<noteq> 0" "\<not> plausible (fa_bytes a)" "fa_buf a ! 0 \<noteq> magic_lo"
    by blast
  then show ?case
  proof cases
    case empty
    then show ?thesis
      using less.prems by (simp add: scan.simps[of a] fa_bytes_def)
  next
    case cand
    then have "scan a = (a, announces (fa_bytes a))"
      using len nth pl by (auto simp: scan.simps[of a] plausible_def announces_def infer_consts Let_def not_less)
    moreover have "scan_view (fa_bytes a) = (fa_bytes a, announces (fa_bytes a))"
      using cand len by (cases "fa_bytes a") auto
    ultimately show ?thesis
      using less.prems by simp
  next
    case magic
    then have "scan a = scan (fa_consume 1 a)"
      using len nth pl by (auto simp: scan.simps[of a] plausible_def infer_consts Let_def)
    moreover have "scan_view (fa_bytes a) = scan_view (fa_bytes (fa_consume 1 a))"
      using magic fa_bytes_consume(1)[OF less.prems, of 1] by (cases "fa_bytes a") auto
    ultimately show ?thesis
      using less.hyps[of "fa_consume 1 a"] magic(1) fa_bytes_consume(2)[OF less.prems] by simp
  next
    case junk
    then have "scan a = scan (resync_to_magic a)"
      by (simp add: scan.simps[of a])
    moreover have "fa_inv cap (resync_to_magic a)" "scan_view (fa_bytes (resync_to_magic a)) = scan_view (fa_bytes a)"
      using junk resync_from_view[OF less.prems, of 1 "fa_len a - 1"] nth[of 0] by (simp_all add: resync_to_magic_def)
    ultimately show ?thesis
      using less.hyps[of "resync_to_magic a"] junk(1) fa_len_resync[of a] by simp
  qed
qed

lemma push_byte_refines:
  assumes "fa_inv cap a" "0 < cap"
  shows "fa_inv cap (fst (push_byte b a))"
    "(fa_bytes (fst (push_byte b a)), snd (push_byte b a)) =
       scan_view ((if length (fa_bytes a) = cap then drop 1 (fa_bytes a) else fa_bytes a) @ [b])"
proof -
  define a1 where "a1 = (if fa_len a = length (fa_buf a) then fa_consume 1 a else a)"
  define a2 where "a2 = a1\<lparr>fa_buf := (fa_buf a1)[fa_len a1 := b], fa_len := fa_len a1 + 1\<rparr>"
  have a1: "fa_inv cap a1" "fa_len a1 < cap" "fa_bytes a1 = (if length (fa_bytes a) = cap then drop 1 (fa_bytes a) else fa_bytes a)"
    using assms fa_bytes_consume[OF assms(1), of 1] length_fa_bytes[OF assms(1)] by (auto simp: a1_def fa_inv_def)
  then have "fa_inv cap a2" "fa_bytes a2 = fa_bytes a1 @ [b]"
    by (simp_all add: a2_def fa_inv_def fa_bytes_def take_Suc_conv_app_nth)
  moreover have "push_byte b a = scan a2"
    by (simp add: push_byte_def a1_def[symmetric] a2_def Let_def)
  ultimately show "fa_inv cap (fst (push_byte b a))" "(fa_bytes (fst (push_byte b a)), snd (push_byte b a)) =
       scan_view ((if length (fa_bytes a) = cap then drop 1 (fa_bytes a) else fa_bytes a) @ [b])"
    using scan_refines[of cap a2] a1(3) by simp_all
qed

lemma magic_bytes: "le_bytes 2 INFER_MAGIC = [magic_lo, magic_hi]"
  by (simp add: le_bytes_2 magic_lo_def magic_hi_def INFER_MAGIC_def)

text \<open>An announced window is a frame.\<close>

lemma announced_frame:
  assumes "plausible bs" "announces bs = Some n"
  obtains f where "infer_ok f" "take n bs = infer_bytes f" "n = infer_wire_len f"
proof -
  let ?bs = "take n bs"
  from assms(2) have n: "n = 66 + view_plen bs" and len: "n \<le> length bs"
    by (auto simp: announces_def split: if_splits)
  then have head: "slice ?bs i k = slice bs i k" if "i + k \<le> 66" for i k
    using that by (simp add: slice_def drop_take min_def)
  have nth: "?bs ! i = bs ! i" if "i < 66" for i
    using that n by simp
  have "slice bs 0 2 = [magic_lo, magic_hi]"
    using assms(1) n len by (simp add: plausible_def slice_Suc eval_nat_numeral)
  then have m: "(of_le_bytes (slice ?bs 0 2) :: u16) = INFER_MAGIC"
    using head[of 0 2] magic_bytes of_le_bytes_le_bytes[of 2 INFER_MAGIC] by simp
  have "infer_decode ?bs \<noteq> None"
    using assms(1) n len m head[of 62 4]
    by (auto simp: infer_decode_def plausible_def view_plen_def nth infer_consts Let_def min_def)
  then obtain f where dec: "infer_decode ?bs = Some f"
    by auto
  then obtain rest where rest: "?bs = infer_bytes f @ rest" and ok: "infer_ok f"
    using inf.dec_canonical inf.dec_ok by blast
  have "slice bs 62 4 = le_bytes 4 (of_nat (length (if_payload f)) :: u32)"
    using infer_decode_SomeD(9)[OF dec] head[of 62 4] by simp
  then have "view_plen bs = length (if_payload f)"
    using ok by (simp add: view_plen_def infer_ok_def unat_of_nat)
  then have n': "n = infer_wire_len f"
    using n infer_wire_len_ok[OF ok] by simp
  with rest len length_infer_bytes[OF ok] have "rest = []"
    by (metis append_eq_append_conv append_Nil2 length_append length_take min.absorb2 add_cancel_right_right length_0_conv)
  with rest ok n' show ?thesis
    by (intro that[of f]) simp_all
qed

text \<open>Every prefix of a frame is plausible, and only the whole frame is announced.\<close>

lemma frame_prefix:
  assumes "infer_ok f" "0 < k" "k \<le> infer_wire_len f"
  shows "plausible (take k (infer_bytes f))"
    "announces (take k (infer_bytes f)) = (if k = infer_wire_len f then Some k else None)"
proof -
  have nth: "infer_bytes f ! 0 = magic_lo" "infer_bytes f ! 1 = magic_hi" "infer_bytes f ! 2 = INFER_VER"
    "infer_bytes f ! 3 = if_kind f" "infer_bytes f ! 4 = 0"
    by (simp_all add: infer_bytes_def infer_head_def magic_bytes)
  have sl: "slice (infer_bytes f) 62 4 = le_bytes 4 (of_nat (length (if_payload f)) :: u32)"
    using infer_decode_SomeD(9)[of "infer_bytes f" f] infer_decode_bytes[OF assms(1), of "[]"] by simp
  have "view_plen (take k (infer_bytes f)) = length (if_payload f)" if "66 \<le> k"
  proof -
    have "slice (take k (infer_bytes f)) 62 4 = slice (infer_bytes f) 62 4"
      using that by (simp add: slice_def drop_take min_def)
    then show ?thesis
      using assms(1) sl by (simp add: view_plen_def infer_ok_def unat_of_nat)
  qed
  moreover have "infer_ok f" "infer_wire_len f = 66 + length (if_payload f)" "length (infer_bytes f) = infer_wire_len f"
    using assms(1) infer_wire_len_ok length_infer_bytes by simp_all
  ultimately show "plausible (take k (infer_bytes f))"
    "announces (take k (infer_bytes f)) = (if k = infer_wire_len f then Some k else None)"
    using nth assms(2,3) by (auto simp: plausible_def announces_def infer_ok_def)
qed

section \<open>Receiving a stream\<close>

text \<open>
  The receive loop of the accumulator's users: push a byte, and when a frame is announced, hand the
  window to the handler and consume it. The handler may stop the loop with an error.
\<close>

fun reframe :: "('s \<Rightarrow> bytes \<Rightarrow> 'e + 's) \<Rightarrow> frame_accum \<Rightarrow> 's \<Rightarrow> bytes \<Rightarrow> 'e + (frame_accum \<times> 's)" where
  "reframe h a s [] = Inr (a, s)"
| "reframe h a s (b # bs) = (case push_byte b a of
     (a, None) \<Rightarrow> reframe h a s bs
   | (a, Some n) \<Rightarrow> (case h s (take n (fa_bytes a)) of
       Inl e \<Rightarrow> Inl e
     | Inr s \<Rightarrow> reframe h (fa_consume n a) s bs))"

text \<open>The handler over whole frames.\<close>

fun fold_frames :: "('s \<Rightarrow> bytes \<Rightarrow> 'e + 's) \<Rightarrow> 's \<Rightarrow> infer_frame list \<Rightarrow> 'e + 's" where
  "fold_frames h s [] = Inr s"
| "fold_frames h s (f # fs) = (case h s (infer_bytes f) of Inl e \<Rightarrow> Inl e | Inr s \<Rightarrow> fold_frames h s fs)"

lemma reframe_append:
  "reframe h a s (xs @ ys) = (case reframe h a s xs of Inl e \<Rightarrow> Inl e | Inr (a', s') \<Rightarrow> reframe h a' s' ys)"
  by (induction h a s xs rule: reframe.induct) (auto split: prod.splits option.splits sum.splits)

lemma push_byte_emits:
  assumes "fa_inv cap a" "0 < cap" "push_byte b a = (a', Some n)"
  obtains f where "fa_inv cap a'" "infer_ok f" "take n (fa_bytes a') = infer_bytes f" "n = infer_wire_len f"
proof -
  have emit: "plausible (fst (scan_view bs)) \<and> announces (fst (scan_view bs)) = Some k"
    if "snd (scan_view bs) = Some k" for bs k
    using that by (induction bs rule: scan_view.induct) (auto split: if_splits)
  from push_byte_refines[OF assms(1,2), of b] assms(3) obtain bs where
    "fa_inv cap a'" "(fa_bytes a', Some n) = scan_view bs"
    by auto
  with emit[of bs n] show ?thesis
    using announced_frame[of "fa_bytes a'" n] that by (metis fst_conv snd_conv)
qed

text \<open>Whatever arrives, the handler is only ever called on frames.\<close>

lemma reframe_windows:
  assumes "0 < cap" "\<And>s f. P s \<Longrightarrow> infer_ok f \<Longrightarrow> case h s (infer_bytes f) of Inl e \<Rightarrow> Q e | Inr s' \<Rightarrow> P s'"
    and "fa_inv cap a" "P s"
  shows "case reframe h a s bs of Inl e \<Rightarrow> Q e | Inr (a', s') \<Rightarrow> fa_inv cap a' \<and> P s'"
  using assms(3,4)
proof (induction bs arbitrary: a s)
  case (Cons b bs)
  obtain a' r where push: "push_byte b a = (a', r)"
    by fastforce
  show ?case
  proof (cases r)
    case None
    then show ?thesis
      using push Cons push_byte_refines(1)[OF Cons.prems(1) assms(1), of b] by simp
  next
    case (Some n)
    with push push_byte_emits[OF Cons.prems(1) assms(1)] obtain f where
      f: "fa_inv cap a'" "infer_ok f" "take n (fa_bytes a') = infer_bytes f"
      by metis
    show ?thesis
      using push Some f(3) Cons.IH[OF fa_bytes_consume(2)[OF f(1)]] assms(2)[OF Cons.prems(2) f(2)]
      by (cases "h s (infer_bytes f)") simp_all
  qed
qed simp

text \<open>Pushing from a state that holds a proper prefix of a frame.\<close>

lemma push_prefix:
  assumes "fa_inv cap a" "1090 \<le> cap" "infer_ok f" "k < infer_wire_len f" "fa_bytes a = take k (infer_bytes f)"
  shows "fa_inv cap (fst (push_byte (infer_bytes f ! k) a))"
    "fa_bytes (fst (push_byte (infer_bytes f ! k) a)) = take (Suc k) (infer_bytes f)"
    "snd (push_byte (infer_bytes f ! k) a) = (if Suc k = infer_wire_len f then Some (Suc k) else None)"
proof -
  have len: "length (infer_bytes f) = infer_wire_len f" "infer_wire_len f \<le> 1090"
    using assms(3) length_infer_bytes infer_wire_len_ok[OF assms(3)] by (simp_all add: infer_ok_def)
  then have "(if length (fa_bytes a) = cap then drop 1 (fa_bytes a) else fa_bytes a) @ [infer_bytes f ! k] = take (Suc k) (infer_bytes f)"
    using assms(2,4,5) by (simp add: take_Suc_conv_app_nth)
  moreover have "scan_view (take (Suc k) (infer_bytes f)) = (take (Suc k) (infer_bytes f), announces (take (Suc k) (infer_bytes f)))"
    using frame_prefix(1)[OF assms(3), of "Suc k"] assms(4) by (cases "take (Suc k) (infer_bytes f)") (simp_all add: plausible_def)
  ultimately show "fa_inv cap (fst (push_byte (infer_bytes f ! k) a))"
    "fa_bytes (fst (push_byte (infer_bytes f ! k) a)) = take (Suc k) (infer_bytes f)"
    "snd (push_byte (infer_bytes f ! k) a) = (if Suc k = infer_wire_len f then Some (Suc k) else None)"
    using push_byte_refines[OF assms(1), of "infer_bytes f ! k"] frame_prefix(2)[OF assms(3), of "Suc k"] assms(2,4) by simp_all
qed

lemma reframe_frame:
  assumes "1090 \<le> cap" "infer_ok f" "fa_inv cap a" "fa_bytes a = []"
  shows "\<exists>a'. fa_inv cap a' \<and> fa_bytes a' = [] \<and> reframe h a s (infer_bytes f) = map_sum id (Pair a') (h s (infer_bytes f))"
proof -
  have len: "length (infer_bytes f) = infer_wire_len f" "0 < infer_wire_len f"
    using assms(2) length_infer_bytes infer_wire_len_ok[OF assms(2)] by simp_all
  have "\<exists>a'. fa_inv cap a' \<and> fa_bytes a' = [] \<and> reframe h b s (drop k (infer_bytes f)) = map_sum id (Pair a') (h s (infer_bytes f))"
    if "k < infer_wire_len f" "fa_inv cap b" "fa_bytes b = take k (infer_bytes f)" for k b
    using that
  proof (induction "infer_wire_len f - k" arbitrary: k b rule: less_induct)
    case less
    note p = push_prefix[OF less.prems(2) assms(1,2) less.prems(1,3)]
    obtain b' r where push: "push_byte (infer_bytes f ! k) b = (b', r)"
      by fastforce
    have dr: "drop k (infer_bytes f) = infer_bytes f ! k # drop (Suc k) (infer_bytes f)"
      using less.prems(1) len by (simp add: Cons_nth_drop_Suc)
    show ?case
    proof (cases "Suc k = infer_wire_len f")
      case True
      then have "r = Some (Suc k)" "fa_bytes b' = infer_bytes f" "fa_inv cap b'"
        using p push len by simp_all
      then show ?thesis
        using push dr True len fa_bytes_consume[of cap b' "Suc k"]
        by (intro exI[of _ "fa_consume (Suc k) b'"]) (simp split: sum.split)
    next
      case False
      then show ?thesis
        using p push dr less.hyps[of "Suc k" b'] less.prems(1) by simp
    qed
  qed
  from this[of 0 a] show ?thesis
    using assms len by simp
qed

lemma reframe_garbage:
  assumes "0 < cap" "magic_lo \<notin> set g" "fa_inv cap a" "fa_bytes a = []"
  shows "\<exists>a'. fa_inv cap a' \<and> fa_bytes a' = [] \<and> reframe h a s g = Inr (a', s)"
  using assms(2-)
proof (induction g arbitrary: a)
  case (Cons b g)
  then have "scan_view [b] = ([], None)"
    by (auto simp: plausible_def)
  then have "push_byte b a = (fst (push_byte b a), None)" "fa_bytes (fst (push_byte b a)) = []" "fa_inv cap (fst (push_byte b a))"
    using push_byte_refines[OF Cons.prems(2) assms(1), of b] Cons.prems(3) assms(1) by (simp_all add: prod_eq_iff)
  then show ?case
    using Cons.IH[of "fst (push_byte b a)"] Cons.prems(1) by (metis (no_types, lifting) reframe.simps(2) list.set_intros(2) option.simps(4) old.prod.case)
qed simp

lemma reframe_stream:
  assumes "1090 \<le> cap" "\<forall>(g, f)\<in>set gfs. magic_lo \<notin> set g \<and> infer_ok f" "fa_inv cap a" "fa_bytes a = []"
  shows "\<exists>a'. fa_inv cap a' \<and> fa_bytes a' = [] \<and>
    reframe h a s (concat (map (\<lambda>(g, f). g @ infer_bytes f) gfs)) = map_sum id (Pair a') (fold_frames h s (map snd gfs))"
  using assms(2-)
proof (induction gfs arbitrary: a s)
  case (Cons gf gfs)
  obtain g f where gf: "gf = (g, f)"
    by fastforce
  obtain a1 where a1: "reframe h a s g = Inr (a1, s)" "fa_inv cap a1" "fa_bytes a1 = []"
    using reframe_garbage[of cap g a h s] Cons.prems gf assms(1) by auto
  obtain a2 where a2: "reframe h a1 s (infer_bytes f) = map_sum id (Pair a2) (h s (infer_bytes f))" "fa_inv cap a2" "fa_bytes a2 = []"
    using reframe_frame[of cap f a1 h s] Cons.prems gf a1 assms(1) by auto
  show ?case
  proof (cases "h s (infer_bytes f)")
    case (Inl e)
    then show ?thesis
      using a1 a2 gf by (auto simp: reframe_append)
  next
    case (Inr s')
    then show ?thesis
      using Cons.IH[of a2 s'] Cons.prems(1) a1 a2 gf by (auto simp: reframe_append)
  qed
qed simp

text \<open>The frames a receiver collects, and its accumulator afterwards.\<close>

definition fa_run :: "frame_accum \<Rightarrow> bytes \<Rightarrow> frame_accum \<times> infer_frame option list" where
  "fa_run a bs = (case reframe (\<lambda>rs w. Inr (rs @ [infer_decode w]) :: unit + infer_frame option list) a [] bs of
     Inl _ \<Rightarrow> (a, []) | Inr r \<Rightarrow> r)"

section \<open>Properties\<close>


text \<open>
  C28: The accumulator delivers every frame of a stream. With the transport's capacity, a stream of
  well-formed frames, each preceded by any garbage free of the first magic byte, comes out as
  exactly those frames in order, whatever their contents, and leaves the accumulator empty.
\<close>

theorem accum_delivers:
  assumes "\<forall>(g, f)\<in>set gfs. magic_lo \<notin> set g \<and> infer_ok f"
  shows "snd (fa_run (fa_new INFER_ACCUM_CAP) (concat (map (\<lambda>(g, f). g @ infer_bytes f) gfs))) = map (Some \<circ> snd) gfs \<and>
    fa_is_empty (fst (fa_run (fa_new INFER_ACCUM_CAP) (concat (map (\<lambda>(g, f). g @ infer_bytes f) gfs))))"
proof -
  let ?h = "\<lambda>rs w. Inr (rs @ [infer_decode w]) :: unit + infer_frame option list"
  have cap: "INFER_ACCUM_CAP = 1090"
    by (simp add: INFER_ACCUM_CAP_def infer_consts)
  have "fold_frames ?h rs fs = Inr (rs @ map Some fs)" if "\<forall>f\<in>set fs. infer_ok f" for rs fs
    using that by (induction fs arbitrary: rs) (simp_all add: inf.roundtrip)
  then have "fold_frames ?h [] (map snd gfs) = Inr ([] @ map Some (map snd gfs))"
    by (rule meta_mp) (use assms in auto)
  moreover have "fa_inv 1090 (fa_new 1090)" "fa_bytes (fa_new 1090) = []"
    by (simp_all add: fa_new_def fa_inv_def fa_bytes_def)
  ultimately show ?thesis
    using reframe_stream[OF _ assms, of 1090 "fa_new 1090" ?h "[]"]
    by (auto simp: fa_run_def cap fa_empty_iff[of 1090])
qed


definition demo_infer_frame :: "bytes \<Rightarrow> infer_frame" where
  "demo_infer_frame body = \<lparr>if_kind = INK_ECHO_REQ, if_req_id = 1, if_challenge = replicate 16 7, if_nonce = replicate 16 0,
     if_peer_id = 0, if_tag = replicate 16 0, if_payload = body\<rparr>"

theorem accum_delivers_witness:
  "snd (fa_run (fa_new INFER_ACCUM_CAP) ([9, 9] @ infer_bytes (demo_infer_frame [1, 2]) @ infer_bytes (demo_infer_frame []))) =
     [Some (demo_infer_frame [1, 2]), Some (demo_infer_frame [])]"
  using accum_delivers[of "[([9, 9], demo_infer_frame [1, 2]), ([], demo_infer_frame [])]"]
  by (simp add: demo_infer_frame_def infer_ok_def kind_known_def magic_lo_def INFER_MAGIC_def)

end
