(* ===== verification/Infer_Chunks.thy ===== *)
theory Infer_Chunks
  imports Inferwire
begin

text \<open>
  The chunked inference exchange of \<open>crates/tb-encode/src/inferwire.rs\<close>: the chunk sub-header and
  error codecs, the per-chunk tag and the request and response checks, the fail-closed
  reassembler \<open>InferAssembler\<close>, and the deterministic mock backend.
\<close>

definition INFER_BODY_CAP :: nat where "INFER_BODY_CAP = 8192"
definition INFER_SUBHDR_LEN :: nat where "INFER_SUBHDR_LEN = 24"
definition INFER_CHUNK_CAP :: nat where "INFER_CHUNK_CAP = INFER_PAYLOAD_CAP - INFER_SUBHDR_LEN"
definition INFER_BODY_DIGEST_LEN :: nat where "INFER_BODY_DIGEST_LEN = 16"
definition SFLAG_MORE :: u8 where "SFLAG_MORE = 1"
definition INFER_DOMAIN :: bytes where "INFER_DOMAIN = DOMSEP_M31_INFER"
definition INFER_ERR_PAYLOAD_LEN :: nat where "INFER_ERR_PAYLOAD_LEN = 4"
definition INFER_MOCK_RESP_LEN :: nat where "INFER_MOCK_RESP_LEN = 1280"
definition INFER_NOKEY_PROBE :: bytes where "INFER_NOKEY_PROBE = as_bytes (BRAND @ ''-M31-NOKEY-PROBE-V1'')"
definition INFER_LOCAL_PROBE :: bytes where "INFER_LOCAL_PROBE = as_bytes (BRAND @ ''-M32-LOCAL-ORGAN-V1'')"
definition MOCK_LABEL :: bytes where "MOCK_LABEL = as_bytes (BRAND @ ''-M31-MOCK-V1'')"

section \<open>The error payload\<close>

definition ERR_NO_BACKEND :: u16 where "ERR_NO_BACKEND = 1"
definition ERR_NO_KEY :: u16 where "ERR_NO_KEY = 2"
definition ERR_TOO_LARGE :: u16 where "ERR_TOO_LARGE = 3"
definition ERR_RATE_LIMITED :: u16 where "ERR_RATE_LIMITED = 4"
definition ERR_OVERLOADED :: u16 where "ERR_OVERLOADED = 5"
definition ERR_API_ERROR :: u16 where "ERR_API_ERROR = 6"
definition ERR_AUTH :: u16 where "ERR_AUTH = 7"
definition ERR_BAD_REQUEST :: u16 where "ERR_BAD_REQUEST = 8"
definition ERR_REFUSAL :: u16 where "ERR_REFUSAL = 9"
definition ERR_TIMEOUT :: u16 where "ERR_TIMEOUT = 10"

definition err_code_known :: "u16 \<Rightarrow> bool" where
  "err_code_known code \<longleftrightarrow> code \<in> {ERR_NO_BACKEND, ERR_NO_KEY, ERR_TOO_LARGE, ERR_RATE_LIMITED, ERR_OVERLOADED,
     ERR_API_ERROR, ERR_AUTH, ERR_BAD_REQUEST, ERR_REFUSAL, ERR_TIMEOUT}"

definition err_retryable :: "u16 \<Rightarrow> bool" where
  "err_retryable code \<longleftrightarrow> code \<in> {ERR_RATE_LIMITED, ERR_OVERLOADED, ERR_API_ERROR, ERR_TIMEOUT}"

definition err_canon :: "u16 \<Rightarrow> bytes \<Rightarrow> bytes \<times> nat" where
  "err_canon code out = (
     if \<not> err_code_known code \<or> length out < INFER_ERR_PAYLOAD_LEN then (out, 0)
     else let
       out = put 0 (le_bytes 2 code) out;
       out = put 2 [if err_retryable code then 1 else 0] out;
       out = put 3 [0] out
     in (out, INFER_ERR_PAYLOAD_LEN))"

definition err_decode :: "bytes \<Rightarrow> (u16 \<times> bool) option" where
  "err_decode payload = (
     if length payload \<noteq> INFER_ERR_PAYLOAD_LEN then None
     else let code = of_le_bytes (slice payload 0 2) in
       if \<not> err_code_known code then None
       else if payload ! 3 \<noteq> 0 then None
       else let retryable = err_retryable code in
         if payload ! 2 \<noteq> (if retryable then 1 else 0) then None
         else Some (code, retryable))"

section \<open>The chunk sub-header\<close>

record sub_hdr =
  sh_seq :: u16
  sh_more :: bool
  sh_total_len :: u32
  sh_body_digest :: bytes

definition subhdr_empty :: sub_hdr where
  "subhdr_empty = \<lparr>sh_seq = 0, sh_more = False, sh_total_len = 0, sh_body_digest = replicate INFER_BODY_DIGEST_LEN 0\<rparr>"

definition sflags :: "sub_hdr \<Rightarrow> u8" where
  "sflags s = (if sh_more s then 1 else 0)"

definition subhdr_canon :: "sub_hdr \<Rightarrow> bytes \<Rightarrow> bytes \<times> nat" where
  "subhdr_canon s out = (
     if length out < INFER_SUBHDR_LEN then (out, 0)
     else if sh_total_len s = 0 \<or> unat (sh_total_len s) > INFER_BODY_CAP then (out, 0)
     else let
       out = put 0 (le_bytes 2 (sh_seq s)) out;
       out = put 2 [sflags s] out;
       out = put 3 [0] out;
       out = put 4 (le_bytes 4 (sh_total_len s)) out;
       out = put 8 (sh_body_digest s) out
     in (out, INFER_SUBHDR_LEN))"

definition subhdr_decode :: "bytes \<Rightarrow> sub_hdr option" where
  "subhdr_decode buf = (
     if length buf < INFER_SUBHDR_LEN then None
     else let sf = buf ! 2 in
       if sf AND NOT SFLAG_MORE \<noteq> 0 then None
       else if buf ! 3 \<noteq> 0 then None
       else let total_len = of_le_bytes (slice buf 4 4) in
         if total_len = 0 \<or> unat total_len > INFER_BODY_CAP then None
         else Some \<lparr>sh_seq = of_le_bytes (slice buf 0 2), sh_more = (sf AND SFLAG_MORE \<noteq> 0),
           sh_total_len = total_len, sh_body_digest = slice buf 8 INFER_BODY_DIGEST_LEN\<rparr>)"

definition body_digest :: "bytes \<Rightarrow> bytes" where
  "body_digest body = slice (uhash body) 0 INFER_BODY_DIGEST_LEN"

section \<open>The chunk tag and its checks\<close>

definition INFER_MSG_CAP :: nat where
  "INFER_MSG_CAP = length INFER_DOMAIN + 1 + INFER_NONCE_LEN + INFER_CHALLENGE_LEN + 8 + 1 + 2 + 1 + 4 +
     INFER_BODY_DIGEST_LEN + INFER_CHUNK_CAP"

definition infer_tag :: "bytes \<Rightarrow> u8 \<Rightarrow> bytes \<Rightarrow> bytes \<Rightarrow> u64 \<Rightarrow> u8 \<Rightarrow> sub_hdr \<Rightarrow> bytes \<Rightarrow> bytes" where
  "infer_tag key peer_id nonce challenge req_id kind_tag sub chunk = (
     let clen = (if length chunk > INFER_CHUNK_CAP then INFER_CHUNK_CAP else length chunk)
     in case put_fields 0 [INFER_DOMAIN, [peer_id], nonce, challenge, le_bytes 8 req_id, [kind_tag], le_bytes 2 (sh_seq sub),
           [sflags sub], le_bytes 4 (sh_total_len sub), sh_body_digest sub, take clen chunk] (replicate INFER_MSG_CAP 0) of
       (msg, off) \<Rightarrow> slice (khash key (take off msg)) 0 INFER_TAG_LEN)"

definition infer_payload_parts :: "u8 \<Rightarrow> bytes \<Rightarrow> (sub_hdr \<times> bytes) option" where
  "infer_payload_parts kind_tag payload = (
     if kind_tag = INK_INFER_REQ \<or> kind_tag = INK_INFER_RESP then
       (case subhdr_decode payload of
          None \<Rightarrow> None
        | Some sub \<Rightarrow> (let chunk = drop INFER_SUBHDR_LEN payload in if chunk = [] then None else Some (sub, chunk)))
     else if kind_tag = INK_INFER_PENDING then
       (if payload \<noteq> [] then None else Some (subhdr_empty, payload))
     else if kind_tag = INK_ERR then
       (case err_decode payload of None \<Rightarrow> None | Some _ \<Rightarrow> Some (subhdr_empty, payload))
     else None)"

definition verify_infer_resp :: "bytes \<Rightarrow> infer_frame \<Rightarrow> u64 \<Rightarrow> bytes \<Rightarrow> (sub_hdr \<times> bytes) option" where
  "verify_infer_resp key frame req_id challenge = (
     if if_kind frame \<notin> {INK_INFER_RESP, INK_INFER_PENDING, INK_ERR} then None
     else if if_req_id frame \<noteq> req_id then None
     else if if_challenge frame \<noteq> challenge then None
     else case infer_payload_parts (if_kind frame) (if_payload frame) of
       None \<Rightarrow> None
     | Some (sub, chunk) \<Rightarrow>
         if infer_tag key (if_peer_id frame) (if_nonce frame) challenge req_id (if_kind frame) sub chunk \<noteq> if_tag frame
         then None else Some (sub, chunk))"

definition verify_infer_req :: "bytes \<Rightarrow> infer_frame \<Rightarrow> (sub_hdr \<times> bytes) option" where
  "verify_infer_req key frame = (
     if if_kind frame \<noteq> INK_INFER_REQ then None
     else if if_nonce frame \<noteq> replicate INFER_NONCE_LEN 0 \<or> if_peer_id frame \<noteq> 0 then None
     else case infer_payload_parts (if_kind frame) (if_payload frame) of
       None \<Rightarrow> None
     | Some (sub, chunk) \<Rightarrow>
         if infer_tag key (if_peer_id frame) (if_nonce frame) (if_challenge frame) (if_req_id frame) (if_kind frame) sub chunk
           \<noteq> if_tag frame
         then None else Some (sub, chunk))"

section \<open>The reassembler\<close>

datatype asm_push = Accepted | Complete nat | Rejected

record infer_assembler =
  as_buf :: bytes
  as_len :: nat
  as_next_seq :: u16
  as_total_len :: u32
  as_digest :: bytes
  as_started :: bool
  as_done :: bool
  as_poisoned :: bool

definition asm_new :: "nat \<Rightarrow> infer_assembler" where
  "asm_new cap = \<lparr>as_buf = replicate cap 0, as_len = 0, as_next_seq = 0, as_total_len = 0,
     as_digest = replicate INFER_BODY_DIGEST_LEN 0, as_started = False, as_done = False, as_poisoned = False\<rparr>"

definition asm_body :: "infer_assembler \<Rightarrow> bytes" where
  "asm_body a = take (as_len a) (as_buf a)"

definition asm_reject :: "infer_assembler \<Rightarrow> infer_assembler \<times> asm_push" where
  "asm_reject a = (a\<lparr>as_poisoned := True\<rparr>, Rejected)"

definition push_chunk :: "infer_assembler \<Rightarrow> sub_hdr \<Rightarrow> bytes \<Rightarrow> infer_assembler \<times> asm_push" where
  "push_chunk a sub chunk = (
     if as_poisoned a \<or> as_done a then (a, Rejected)
     else let total = unat (sh_total_len sub) in
       if \<not> as_started a \<and> (sh_seq sub \<noteq> 0 \<or> sh_total_len sub = 0 \<or> total > INFER_BODY_CAP \<or> total > length (as_buf a))
       then asm_reject a
       else if as_started a \<and> (sh_seq sub \<noteq> as_next_seq a \<or> sh_total_len sub \<noteq> as_total_len a \<or> sh_body_digest sub \<noteq> as_digest a)
       then asm_reject a
       else if chunk = [] \<or> length chunk > INFER_CHUNK_CAP then asm_reject a
       else case usize_checked_add (as_len a) (length chunk) of
         None \<Rightarrow> asm_reject a
       | Some new_len \<Rightarrow>
           if \<not> new_len \<le> total then asm_reject a
           else if sh_more sub \<and> new_len \<ge> total then asm_reject a
           else if \<not> sh_more sub \<and> new_len \<noteq> total then asm_reject a
           else let
             a = (if \<not> as_started a
                  then a\<lparr>as_started := True, as_total_len := sh_total_len sub, as_digest := sh_body_digest sub\<rparr> else a);
             a = a\<lparr>as_buf := put (as_len a) chunk (as_buf a), as_len := new_len, as_next_seq := as_next_seq a + 1\<rparr>
           in if sh_more sub then (a, Accepted)
              else if body_digest (take (as_len a) (as_buf a)) \<noteq> as_digest a then asm_reject a
              else (a\<lparr>as_done := True\<rparr>, Complete (as_len a)))"

definition infer_chunk_count :: "nat \<Rightarrow> nat" where
  "infer_chunk_count total_len = (if total_len = 0 \<or> total_len > INFER_BODY_CAP then 0
     else (total_len + INFER_CHUNK_CAP - 1) div INFER_CHUNK_CAP)"

definition infer_chunks_wire_len :: "nat \<Rightarrow> nat" where
  "infer_chunks_wire_len total_len = (let n = infer_chunk_count total_len in
     if n = 0 then 0 else n * (INFER_HEADER_LEN + INFER_SUBHDR_LEN) + total_len)"

section \<open>The mock backend\<close>

text \<open>The key-stream loop from offset \<open>off\<close> with block counter \<open>k\<close>.\<close>

function mock_stream :: "bytes \<Rightarrow> nat \<Rightarrow> u32 \<Rightarrow> bytes \<Rightarrow> bytes" where
  "mock_stream blk off k out = (
     if off < INFER_MOCK_RESP_LEN then let
       blk = put (length MOCK_LABEL + 32) (le_bytes 4 k) blk;
       stream = uhash blk;
       n = (if INFER_MOCK_RESP_LEN - off < 32 then INFER_MOCK_RESP_LEN - off else 32)
     in mock_stream blk (off + n) (k + 1) (put off (take n stream) out)
     else out)"
  by pat_completeness auto
termination
  by (relation "measure (\<lambda>(_, off, _, _). INFER_MOCK_RESP_LEN - off)") auto

declare mock_stream.simps [simp del]

definition mock_infer :: "bytes \<Rightarrow> bytes \<Rightarrow> bytes \<times> nat" where
  "mock_infer prompt out = (
     if prompt = [] \<or> length prompt > INFER_BODY_CAP \<or> length out < INFER_MOCK_RESP_LEN then (out, 0)
     else let
       seed = uhash prompt;
       blk = replicate (length MOCK_LABEL + 32 + 4) 0;
       blk = put 0 MOCK_LABEL blk;
       blk = put (length MOCK_LABEL) seed blk
     in (mock_stream blk 0 0 out, INFER_MOCK_RESP_LEN))"

lemmas chunk_consts [codec_simps] = INFER_BODY_CAP_def INFER_SUBHDR_LEN_def INFER_CHUNK_CAP_def INFER_BODY_DIGEST_LEN_def
  SFLAG_MORE_def INFER_ERR_PAYLOAD_LEN_def INFER_PAYLOAD_CAP_def

section \<open>The payload codecs\<close>

definition err_bytes :: "u16 \<Rightarrow> bytes" where
  "err_bytes code = le_bytes 2 code @ [if err_retryable code then 1 else 0, 0]"

lemma err_canon_writes:
  "err_canon code out = (if err_code_known code \<and> 4 \<le> length out then (err_bytes code @ drop 4 out, 4) else (out, 0))"
  by (auto simp: err_canon_def err_bytes_def chunk_consts buffer_simps Let_def eval_nat_numeral)

lemma err_decode_iff:
  "err_decode payload = Some (code, r) \<longleftrightarrow> err_code_known code \<and> r = err_retryable code \<and> payload = err_bytes code"
proof
  assume dec: "err_decode payload = Some (code, r)"
  then have len: "length payload = 4" and code: "code = of_le_bytes (slice payload 0 2)" "err_code_known code"
    and r: "r = err_retryable code" and b: "payload ! 2 = (if err_retryable code then 1 else 0)" "payload ! 3 = 0"
    by (auto simp: err_decode_def chunk_consts Let_def split: if_splits)
  have "payload = slice payload 0 2 @ slice payload 2 2 @ drop 4 payload"
    by (simp add: slice_drop)
  moreover have "slice payload 2 2 = [payload ! 2, payload ! 3]"
    using len by (simp add: slice_Suc eval_nat_numeral)
  ultimately have "payload = slice payload 0 2 @ [payload ! 2, payload ! 3]"
    using len by simp
  with b len code(1) have "payload = err_bytes code"
    by (simp add: err_bytes_def)
  with code r show "err_code_known code \<and> r = err_retryable code \<and> payload = err_bytes code"
    by simp
qed (auto simp: err_decode_def err_bytes_def chunk_consts buffer_simps nth_append)

definition sub_ok :: "sub_hdr \<Rightarrow> bool" where
  "sub_ok s \<longleftrightarrow> sh_total_len s \<noteq> 0 \<and> unat (sh_total_len s) \<le> 8192 \<and> length (sh_body_digest s) = 16"

definition sub_bytes :: "sub_hdr \<Rightarrow> bytes" where
  "sub_bytes s = le_bytes 2 (sh_seq s) @ [sflags s, 0] @ le_bytes 4 (sh_total_len s) @ sh_body_digest s"

lemma length_sub_bytes: "sub_ok s \<Longrightarrow> length (sub_bytes s) = 24"
  by (simp add: sub_ok_def sub_bytes_def)

lemma subhdr_canon_writes:
  "sub_ok s \<Longrightarrow> subhdr_canon s out = (if length out < 24 then (out, 0) else (sub_bytes s @ drop 24 out, 24))"
  by (simp add: subhdr_canon_def sub_ok_def sub_bytes_def chunk_consts buffer_simps Let_def)

interpretation subh: codec sub_bytes subhdr_decode sub_ok
proof unfold_locales
  fix s rest buf
  show "sub_ok s \<Longrightarrow> subhdr_decode (sub_bytes s @ rest) = Some s"
    by (simp add: subhdr_decode_def sub_ok_def sub_bytes_def sflags_def chunk_consts buffer_simps nth_append Let_def)
  assume dec: "subhdr_decode buf = Some s"
  then have len: "24 \<le> length buf" and fl: "buf ! 2 = 0 \<or> buf ! 2 = 1" and z: "buf ! 3 = 0" and ok: "sub_ok s"
    and s: "s = \<lparr>sh_seq = of_le_bytes (slice buf 0 2), sh_more = (buf ! 2 AND 1 \<noteq> 0), sh_total_len = of_le_bytes (slice buf 4 4),
      sh_body_digest = slice buf 8 16\<rparr>"
    by (auto simp: subhdr_decode_def chunk_consts sub_ok_def Let_def dest: low_bit_cases split: if_splits)
  show "sub_ok s" by (rule ok)
  have "slice buf 2 2 = [buf ! 2, buf ! 3]"
    using len by (simp add: slice_Suc eval_nat_numeral)
  moreover have "buf = slice buf 0 2 @ slice buf 2 2 @ slice buf 4 4 @ slice buf 8 16 @ drop 24 buf"
    by (simp add: slice_drop)
  ultimately have "buf = sub_bytes s @ drop 24 buf"
    using fl z len by (auto simp: sub_bytes_def s sflags_def)
  then show "\<exists>rest. buf = sub_bytes s @ rest"
    by blast
qed

lemma length_body_digest [simp]: "length (body_digest b) = 16"
  by (simp add: body_digest_def INFER_BODY_DIGEST_LEN_def)

text \<open>The mock backend answers every admissible prompt with exactly its fixed length.\<close>

lemma length_mock_stream: "INFER_MOCK_RESP_LEN \<le> length out \<Longrightarrow> length (mock_stream blk off k out) = length out"
proof (induction blk off k out rule: mock_stream.induct)
  case (1 blk off k out)
  show ?case
  proof (cases "off < INFER_MOCK_RESP_LEN")
    case True
    then show ?thesis
      using 1 by (subst mock_stream.simps) (auto simp: Let_def)
  next
    case False
    then show ?thesis
      by (subst mock_stream.simps) simp
  qed
qed

lemma mock_infer_ok:
  assumes "prompt \<noteq> []" "length prompt \<le> 8192"
  obtains resp where "mock_infer prompt (replicate INFER_MOCK_RESP_LEN 0) = (resp, 1280)" "length resp = 1280"
proof -
  let ?r = "mock_infer prompt (replicate INFER_MOCK_RESP_LEN 0)"
  have "snd ?r = 1280" "length (fst ?r) = 1280"
    using assms by (simp_all add: mock_infer_def length_mock_stream INFER_MOCK_RESP_LEN_def INFER_BODY_CAP_def Let_def)
  then show ?thesis
    using that by (metis prod.collapse)
qed

section \<open>The tag message\<close>

definition tag_message :: "u8 \<Rightarrow> bytes \<Rightarrow> bytes \<Rightarrow> u64 \<Rightarrow> u8 \<Rightarrow> sub_hdr \<Rightarrow> bytes \<Rightarrow> bytes" where
  "tag_message p nonce challenge req_id k sub chunk = INFER_DOMAIN @ [p] @ nonce @ challenge @ le_bytes 8 req_id @ [k] @
     le_bytes 2 (sh_seq sub) @ [sflags sub] @ le_bytes 4 (sh_total_len sub) @ sh_body_digest sub @ chunk"

lemma infer_tag_message:
  assumes "length nonce = 16" "length challenge = 16" "length (sh_body_digest sub) = 16" "length chunk \<le> 1000"
  shows "infer_tag key p nonce challenge req_id k sub chunk = take 16 (khash key (tag_message p nonce challenge req_id k sub chunk))"
proof -
  have "length (concat [INFER_DOMAIN, [p], nonce, challenge, le_bytes 8 req_id, [k], le_bytes 2 (sh_seq sub),
           [sflags sub], le_bytes 4 (sh_total_len sub), sh_body_digest sub, take (length chunk) chunk]) \<le> INFER_MSG_CAP"
    using assms by (simp add: INFER_MSG_CAP_def infer_consts chunk_consts)
  from put_fields_hashed[OF this] show ?thesis
    using assms(4) by (simp add: infer_tag_def tag_message_def infer_consts chunk_consts slice_def)
qed

lemma length_infer_tag [simp]: "length (infer_tag key p nonce challenge req_id k sub chunk) = 16"
  by (simp add: infer_tag_def INFER_TAG_LEN_def Let_def split: prod.split)

lemma sub_hdr_eqI: "sh_seq s = sh_seq t \<Longrightarrow> sflags s = sflags t \<Longrightarrow> sh_total_len s = sh_total_len t \<Longrightarrow>
  sh_body_digest s = sh_body_digest t \<Longrightarrow> (s :: sub_hdr) = t"
  by (rule sub_hdr.equality) (auto simp: sflags_def split: if_splits)

lemma tag_message_inject:
  assumes "length n = 16" "length n' = 16" "length c = 16" "length c' = 16" "length (sh_body_digest s) = 16" "length (sh_body_digest s') = 16"
  shows "tag_message p n c r k s ch = tag_message p' n' c' r' k' s' ch' \<longleftrightarrow>
    p = p' \<and> n = n' \<and> c = c' \<and> r = r' \<and> k = k' \<and> s = s' \<and> ch = ch'"
  using assms by (auto simp: tag_message_def le_bytes_inject intro!: sub_hdr_eqI)

lemma domains_differ: "ECHO_DOMAIN @ xs \<noteq> INFER_DOMAIN @ ys"
  by (simp add: ECHO_DOMAIN_def INFER_DOMAIN_def DOMSEP_M30_ECHO_def DOMSEP_M31_INFER_def as_bytes_def BRAND_def of_char_def)

section \<open>The reassembler accepts exactly the well-chunked bodies\<close>

text \<open>
  The state after \<open>k\<close> accepted chunks that carried the bytes \<open>acc\<close>; \<open>T\<close> and \<open>D\<close> are the announced length and
  digest, locked by the first chunk.
\<close>

definition asm_inv :: "nat \<Rightarrow> u32 \<Rightarrow> bytes \<Rightarrow> nat \<Rightarrow> bytes \<Rightarrow> infer_assembler \<Rightarrow> bool" where
  "asm_inv cap T D k acc a \<longleftrightarrow> length (as_buf a) = cap \<and> as_len a = length acc \<and> take (length acc) (as_buf a) = acc \<and>
     \<not> as_done a \<and> \<not> as_poisoned a \<and> (as_started a \<longleftrightarrow> 0 < k) \<and> as_next_seq a = of_nat k \<and> k \<le> length acc \<and> (k = 0 \<longrightarrow> acc = []) \<and>
     (0 < k \<longrightarrow> as_total_len a = T \<and> as_digest a = D \<and> T \<noteq> 0 \<and> unat T \<le> 8192 \<and> unat T \<le> cap \<and> length acc < unat T)"

text \<open>What chunk number \<open>k\<close> has to satisfy.\<close>

definition chunk_ok :: "nat \<Rightarrow> u32 \<Rightarrow> bytes \<Rightarrow> nat \<Rightarrow> bytes \<Rightarrow> sub_hdr \<Rightarrow> bytes \<Rightarrow> bool" where
  "chunk_ok cap T D k acc sub chunk \<longleftrightarrow> sh_seq sub = of_nat k \<and> sh_total_len sub = T \<and> sh_body_digest sub = D \<and>
     T \<noteq> 0 \<and> unat T \<le> 8192 \<and> unat T \<le> cap \<and> chunk \<noteq> [] \<and> length chunk \<le> 1000 \<and>
     (if sh_more sub then length acc + length chunk < unat T
      else length acc + length chunk = unat T \<and> body_digest (acc @ chunk) = D)"

lemma asm_inv_new: "asm_inv cap T D 0 [] (asm_new cap)"
  by (simp add: asm_inv_def asm_new_def)

text \<open>The checks before the copy, and the state after it.\<close>

definition asm_guard :: "infer_assembler \<Rightarrow> sub_hdr \<Rightarrow> bytes \<Rightarrow> bool" where
  "asm_guard a sub chunk \<longleftrightarrow>
     (if as_started a then sh_seq sub = as_next_seq a \<and> sh_total_len sub = as_total_len a \<and> sh_body_digest sub = as_digest a
      else sh_seq sub = 0 \<and> sh_total_len sub \<noteq> 0 \<and> unat (sh_total_len sub) \<le> INFER_BODY_CAP \<and>
        unat (sh_total_len sub) \<le> length (as_buf a)) \<and>
     chunk \<noteq> [] \<and> length chunk \<le> INFER_CHUNK_CAP \<and>
     (case usize_checked_add (as_len a) (length chunk) of None \<Rightarrow> False
      | Some n \<Rightarrow> if sh_more sub then n < unat (sh_total_len sub) else n = unat (sh_total_len sub))"

definition asm_next :: "infer_assembler \<Rightarrow> sub_hdr \<Rightarrow> bytes \<Rightarrow> infer_assembler" where
  "asm_next a sub chunk = a\<lparr>as_started := True, as_total_len := sh_total_len sub, as_digest := sh_body_digest sub,
     as_buf := put (as_len a) chunk (as_buf a), as_len := as_len a + length chunk, as_next_seq := as_next_seq a + 1\<rparr>"

lemma push_chunk_eq:
  "push_chunk a sub chunk = (
     if as_poisoned a \<or> as_done a then (a, Rejected)
     else if \<not> asm_guard a sub chunk then asm_reject a
     else let a' = asm_next a sub chunk in
       if sh_more sub then (a', Accepted)
       else if body_digest (asm_body a') \<noteq> sh_body_digest sub then asm_reject a'
       else (a'\<lparr>as_done := True\<rparr>, Complete (as_len a')))"
proof -
  have n: "n = as_len a + length chunk" if "usize_checked_add (as_len a) (length chunk) = Some n" for n
    using that by (simp add: usize_checked_add_def split: if_splits)
  have nxt: "asm_next a sub chunk = a\<lparr>as_buf := put (as_len a) chunk (as_buf a), as_len := as_len a + length chunk,
      as_next_seq := as_next_seq a + 1\<rparr>" if "as_started a" "asm_guard a sub chunk"
    using that unfolding asm_next_def by (cases a) (simp add: asm_guard_def)
  show ?thesis
  proof (cases "usize_checked_add (as_len a) (length chunk)")
    case None
    then show ?thesis
      by (simp add: push_chunk_def asm_guard_def Let_def)
  next
    case (Some n)
    show ?thesis
    proof (cases "asm_guard a sub chunk")
      case True
      then have g: "chunk \<noteq> []" "\<not> INFER_CHUNK_CAP < length chunk" "n \<le> unat (sh_total_len sub)"
        "\<not> (sh_more sub \<and> unat (sh_total_len sub) \<le> n)" "\<not> (\<not> sh_more sub \<and> n \<noteq> unat (sh_total_len sub))"
        using Some by (auto simp: asm_guard_def split: if_splits)
      show ?thesis
      proof (cases "as_started a")
        case st: True
        then have "\<not> (sh_seq sub \<noteq> as_next_seq a \<or> sh_total_len sub \<noteq> as_total_len a \<or> sh_body_digest sub \<noteq> as_digest a)"
          using True by (simp add: asm_guard_def)
        with st g show ?thesis
          by (simp only: push_chunk_def Let_def Some option.case nxt[OF st True] n[OF Some] True simp_thms if_True if_False asm_body_def)
            (simp add: nxt[OF st True])
      next
        case st: False
        then have "\<not> (sh_seq sub \<noteq> 0 \<or> sh_total_len sub = 0 \<or> unat (sh_total_len sub) > INFER_BODY_CAP \<or> unat (sh_total_len sub) > length (as_buf a))"
          using True by (simp add: asm_guard_def)
        with st g show ?thesis
          by (simp only: push_chunk_def Let_def Some option.case n[OF Some] True simp_thms if_True if_False asm_body_def)
            (simp add: asm_next_def)
      qed
    next
      case False
      then have "(\<not> as_started a \<and> (sh_seq sub \<noteq> 0 \<or> sh_total_len sub = 0 \<or> unat (sh_total_len sub) > INFER_BODY_CAP \<or>
            unat (sh_total_len sub) > length (as_buf a))) \<or>
          (as_started a \<and> (sh_seq sub \<noteq> as_next_seq a \<or> sh_total_len sub \<noteq> as_total_len a \<or> sh_body_digest sub \<noteq> as_digest a)) \<or>
          chunk = [] \<or> length chunk > INFER_CHUNK_CAP \<or> \<not> n \<le> unat (sh_total_len sub) \<or>
          (sh_more sub \<and> n \<ge> unat (sh_total_len sub)) \<or> (\<not> sh_more sub \<and> n \<noteq> unat (sh_total_len sub))"
        using Some by (auto simp: asm_guard_def split: if_splits)
      then show ?thesis
        using False by (elim disjE) (simp_all only: push_chunk_def Let_def Some option.case simp_thms if_True if_False if_cancel)
    qed
  qed
qed

text \<open>On a state that satisfies the invariant the checks say exactly that the chunk is the right one.\<close>

lemma asm_guard_iff:
  assumes inv: "asm_inv cap T D k acc a" and first: "k = 0 \<Longrightarrow> T = sh_total_len sub \<and> D = sh_body_digest sub"
  shows "asm_guard a sub chunk \<and> (sh_more sub \<or> body_digest (asm_body (asm_next a sub chunk)) = sh_body_digest sub) \<longleftrightarrow>
    chunk_ok cap T D k acc sub chunk"
proof -
  have i: "as_started a \<longleftrightarrow> 0 < k" "as_len a = length acc" "length (as_buf a) = cap" "take (length acc) (as_buf a) = acc"
    "as_next_seq a = of_nat k" "0 < k \<Longrightarrow> as_total_len a = T \<and> as_digest a = D \<and> T \<noteq> 0 \<and> unat T \<le> 8192 \<and> unat T \<le> cap"
    using inv unfolding asm_inv_def by blast+
  have cap: "INFER_BODY_CAP = 8192" "INFER_CHUNK_CAP = 1000"
    by (simp_all add: chunk_consts)
  have add: "usize_checked_add (length acc) (length chunk) = Some (length acc + length chunk)"
    if "length chunk \<le> 1000" "length acc \<le> 8192"
    using that by simp
  have acc: "length acc \<le> 8192"
    using inv by (cases "k = 0") (auto simp: asm_inv_def)
  have body: "asm_body (asm_next a sub chunk) = acc @ chunk" if "length acc + length chunk \<le> cap"
    using that i by (simp add: asm_body_def asm_next_def put_def)
  show ?thesis
  proof (cases "length chunk \<le> 1000")
    case True
    then have g: "asm_guard a sub chunk \<longleftrightarrow> sh_seq sub = of_nat k \<and> sh_total_len sub = T \<and> sh_body_digest sub = D \<and>
        T \<noteq> 0 \<and> unat T \<le> 8192 \<and> unat T \<le> cap \<and> chunk \<noteq> [] \<and>
        (if sh_more sub then length acc + length chunk < unat T else length acc + length chunk = unat T)"
      using i first add acc cap by (cases "0 < k") (auto simp: asm_guard_def)
    show ?thesis
      unfolding g chunk_ok_def using body True by auto
  next
    case False
    then show ?thesis
      by (simp add: asm_guard_def chunk_ok_def cap)
  qed
qed

lemma push_chunk_ok:
  assumes "asm_inv cap T D k acc a" "chunk_ok cap T D k acc sub chunk"
  shows "if sh_more sub then snd (push_chunk a sub chunk) = Accepted \<and> asm_inv cap T D (Suc k) (acc @ chunk) (fst (push_chunk a sub chunk))
    else snd (push_chunk a sub chunk) = Complete (unat T) \<and> asm_body (fst (push_chunk a sub chunk)) = acc @ chunk \<and>
      as_done (fst (push_chunk a sub chunk))"
proof -
  have first: "k = 0 \<Longrightarrow> T = sh_total_len sub \<and> D = sh_body_digest sub"
    using assms(2) by (simp add: chunk_ok_def)
  have g: "asm_guard a sub chunk" "sh_more sub \<or> body_digest (asm_body (asm_next a sub chunk)) = sh_body_digest sub"
    using asm_guard_iff[OF assms(1) first, of chunk] assms(2) by simp_all
  have i: "\<not> as_poisoned a" "\<not> as_done a" "as_len a = length acc" "length (as_buf a) = cap" "take (length acc) (as_buf a) = acc"
    "as_next_seq a = of_nat k" "k \<le> length acc"
    using assms(1) unfolding asm_inv_def by blast+
  have c: "sh_total_len sub = T" "sh_body_digest sub = D" "T \<noteq> 0" "unat T \<le> 8192" "unat T \<le> cap" "1 \<le> length chunk"
    "length acc + length chunk \<le> unat T" "sh_more sub \<Longrightarrow> length acc + length chunk < unat T" "\<not> sh_more sub \<Longrightarrow> length acc + length chunk = unat T"
    using assms(2) by (auto simp: chunk_ok_def Suc_le_eq split: if_splits)
  have body: "take (length acc + length chunk) (put (length acc) chunk (as_buf a)) = acc @ chunk" "length (put (length acc) chunk (as_buf a)) = cap"
    using i c by (simp_all add: put_def)
  show ?thesis
    using g i c body unfolding push_chunk_eq Let_def
    by (cases "sh_more sub") (simp_all add: asm_next_def asm_inv_def asm_body_def)
qed

lemma push_chunk_bad:
  assumes "asm_inv cap T D k acc a" "k = 0 \<Longrightarrow> T = sh_total_len sub \<and> D = sh_body_digest sub" "\<not> chunk_ok cap T D k acc sub chunk"
  shows "snd (push_chunk a sub chunk) = Rejected \<and> as_poisoned (fst (push_chunk a sub chunk))"
proof -
  have "\<not> as_poisoned a" "\<not> as_done a"
    using assms(1) unfolding asm_inv_def by blast+
  moreover have "\<not> (asm_guard a sub chunk \<and> (sh_more sub \<or> body_digest (asm_body (asm_next a sub chunk)) = sh_body_digest sub))"
    using asm_guard_iff[OF assms(1,2)] assms(3) by simp
  ultimately show ?thesis
    by (auto simp: push_chunk_eq asm_reject_def Let_def)
qed

fun asm_run :: "infer_assembler \<Rightarrow> (sub_hdr \<times> bytes) list \<Rightarrow> infer_assembler \<times> asm_push list" where
  "asm_run a [] = (a, [])"
| "asm_run a ((sub, chunk) # cs) = (case push_chunk a sub chunk of (a, r) \<Rightarrow> case asm_run a cs of (a, rs) \<Rightarrow> (a, r # rs))"

lemma asm_run_dead: "as_poisoned a \<or> as_done a \<Longrightarrow> asm_run a cs = (a, replicate (length cs) Rejected)"
  by (induction a cs rule: asm_run.induct) (auto simp: push_chunk_def)

text \<open>A body cut into chunks the way the exchange requires.\<close>

definition well_chunked :: "nat \<Rightarrow> bytes \<Rightarrow> (sub_hdr \<times> bytes) list \<Rightarrow> bool" where
  "well_chunked cap body cs \<longleftrightarrow> cs \<noteq> [] \<and> body = concat (map snd cs) \<and> length body \<le> 8192 \<and> length body \<le> cap \<and>
     (\<forall>i<length cs. case cs ! i of (sub, chunk) \<Rightarrow> sh_seq sub = of_nat i \<and> sh_more sub = (Suc i < length cs) \<and>
        sh_total_len sub = of_nat (length body) \<and> sh_body_digest sub = body_digest body \<and> chunk \<noteq> [] \<and> length chunk \<le> 1000)"

text \<open>The rest of a run from chunk \<open>k\<close> on, with \<open>acc\<close> already assembled.\<close>

definition rest_chunked :: "nat \<Rightarrow> u32 \<Rightarrow> bytes \<Rightarrow> nat \<Rightarrow> bytes \<Rightarrow> (sub_hdr \<times> bytes) list \<Rightarrow> bool" where
  "rest_chunked cap T D k acc cs \<longleftrightarrow> cs \<noteq> [] \<and> unat T = length acc + length (concat (map snd cs)) \<and> unat T \<le> 8192 \<and> unat T \<le> cap \<and>
     body_digest (acc @ concat (map snd cs)) = D \<and>
     (\<forall>i<length cs. case cs ! i of (sub, chunk) \<Rightarrow> sh_seq sub = of_nat (k + i) \<and> sh_more sub = (Suc i < length cs) \<and>
        sh_total_len sub = T \<and> sh_body_digest sub = D \<and> chunk \<noteq> [] \<and> length chunk \<le> 1000)"

lemma rest_chunked_Cons:
  "rest_chunked cap T D k acc ((sub, chunk) # cs) \<longleftrightarrow> chunk_ok cap T D k acc sub chunk \<and> (sh_more sub \<longleftrightarrow> cs \<noteq> []) \<and>
     (cs \<noteq> [] \<longrightarrow> rest_chunked cap T D (Suc k) (acc @ chunk) cs)"
proof -
  have T0: "T \<noteq> 0" if "chunk \<noteq> []" "unat T = length acc + (length chunk + n)" for n
    using that by (cases chunk) auto
  have tail: "(\<forall>i<length ((sub, chunk) # cs). case ((sub, chunk) # cs) ! i of (s, c) \<Rightarrow> sh_seq s = of_nat (k + i) \<and>
        sh_more s = (Suc i < length ((sub, chunk) # cs)) \<and> sh_total_len s = T \<and> sh_body_digest s = D \<and> c \<noteq> [] \<and> length c \<le> 1000) \<longleftrightarrow>
      (sh_seq sub = of_nat k \<and> sh_more sub = (cs \<noteq> []) \<and> sh_total_len sub = T \<and> sh_body_digest sub = D \<and> chunk \<noteq> [] \<and> length chunk \<le> 1000) \<and>
      (\<forall>i<length cs. case cs ! i of (s, c) \<Rightarrow> sh_seq s = of_nat (Suc k + i) \<and> sh_more s = (Suc i < length cs) \<and>
        sh_total_len s = T \<and> sh_body_digest s = D \<and> c \<noteq> [] \<and> length c \<le> 1000)"
    by (simp add: All_less_Suc2 ac_simps)
  show ?thesis
  proof (cases "cs = []")
    case True
    then show ?thesis
      using T0[of 0] by (auto simp: rest_chunked_def chunk_ok_def)
  next
    case False
    have less: "length acc + length chunk < unat T"
      if "unat T = length acc + (length chunk + length (concat (map snd cs)))" "snd (cs ! 0) \<noteq> []"
      using that False by (cases cs) auto
    have "snd (cs ! 0) \<noteq> []" if "\<forall>i<length cs. case cs ! i of (s, c) \<Rightarrow> sh_seq s = of_nat (Suc k + i) \<and> sh_more s = (Suc i < length cs) \<and>
        sh_total_len s = T \<and> sh_body_digest s = D \<and> c \<noteq> [] \<and> length c \<le> 1000"
      using that[rule_format, of 0] False by (auto split: prod.splits)
    then show ?thesis
      unfolding rest_chunked_def tail chunk_ok_def using False less T0[of "length (concat (map snd cs))"]
      by (auto simp: ac_simps)
  qed
qed

lemma asm_run_Cons:
  "snd (asm_run a ((sub, chunk) # cs)) = snd (push_chunk a sub chunk) # snd (asm_run (fst (push_chunk a sub chunk)) cs)"
  "fst (asm_run a ((sub, chunk) # cs)) = fst (asm_run (fst (push_chunk a sub chunk)) cs)"
  by (simp_all split: prod.splits)

declare asm_run.simps(2) [simp del]

lemma asm_run_complete:
  assumes "asm_inv cap T D k acc a" "rest_chunked cap T D k acc cs"
  shows "snd (asm_run a cs) = replicate (length cs - 1) Accepted @ [Complete (unat T)] \<and>
    asm_body (fst (asm_run a cs)) = acc @ concat (map snd cs) \<and> as_done (fst (asm_run a cs))"
  using assms
proof (induction cs arbitrary: k acc a)
  case Nil
  then show ?case by (simp add: rest_chunked_def)
next
  case (Cons c cs)
  obtain sub chunk where c: "c = (sub, chunk)"
    by fastforce
  have ok: "chunk_ok cap T D k acc sub chunk" "sh_more sub \<longleftrightarrow> cs \<noteq> []"
    and rest: "cs \<noteq> [] \<Longrightarrow> rest_chunked cap T D (Suc k) (acc @ chunk) cs"
    using Cons.prems(2) unfolding c rest_chunked_Cons by blast+
  note p = push_chunk_ok[OF Cons.prems(1) ok(1)]
  show ?case
  proof (cases "cs = []")
    case True
    then show ?thesis
      using p ok(2) by (simp add: c asm_run_Cons)
  next
    case False
    then have "length cs = Suc (length cs - 1)"
      by simp
    then have "replicate (length cs) Accepted = Accepted # replicate (length cs - 1) Accepted"
      by (metis replicate_Suc)
    then show ?thesis
      using p ok(2) False Cons.IH[OF _ rest[OF False], of "fst (push_chunk a sub chunk)"] by (simp add: c asm_run_Cons)
  qed
qed

lemma asm_run_incomplete:
  assumes "asm_inv cap T D k acc a" "k = 0 \<Longrightarrow> T = sh_total_len (fst (hd cs)) \<and> D = sh_body_digest (fst (hd cs))" "cs \<noteq> []"
    and "\<not> rest_chunked cap T D k acc cs"
  shows "snd (asm_run a cs) \<noteq> replicate (length cs - 1) Accepted @ [Complete n]"
  using assms
proof (induction cs arbitrary: k acc a)
  case (Cons c cs)
  obtain sub chunk where c: "c = (sub, chunk)"
    by fastforce
  have first: "k = 0 \<Longrightarrow> T = sh_total_len sub \<and> D = sh_body_digest sub"
    using Cons.prems(2) c by simp
  show ?case
  proof (cases "chunk_ok cap T D k acc sub chunk")
    case False
    then show ?thesis
      using push_chunk_bad[OF Cons.prems(1) first] by (cases cs) (auto simp: c asm_run_Cons)
  next
    case True
    note p = push_chunk_ok[OF Cons.prems(1) True]
    show ?thesis
    proof (cases "sh_more sub \<longleftrightarrow> cs \<noteq> []")
      case False
      with p show ?thesis
        by (cases cs) (auto simp: c asm_run_Cons split: if_splits)
    next
      case more: True
      with True Cons.prems(4) have "cs \<noteq> []" "\<not> rest_chunked cap T D (Suc k) (acc @ chunk) cs"
        unfolding c rest_chunked_Cons by blast+
      with more p Cons.IH[of "Suc k" "acc @ chunk" "fst (push_chunk a sub chunk)"] show ?thesis
        by (cases cs) (auto simp: c asm_run_Cons)
    qed
  qed
qed simp

lemma well_chunked_rest:
  "well_chunked cap body cs \<longleftrightarrow> body = concat (map snd cs) \<and> rest_chunked cap (of_nat (length body)) (body_digest body) 0 [] cs"
proof -
  have "unat (of_nat (length body) :: u32) = length body" if "length body \<le> 8192"
    using that by (simp add: unat_of_nat)
  moreover have "length body \<le> 8192" if "unat (of_nat (length body) :: u32) = length body" "unat (of_nat (length body) :: u32) \<le> 8192"
    using that by simp
  ultimately show ?thesis
    unfolding well_chunked_def rest_chunked_def by auto
qed

lemma rest_chunked_first:
  assumes "rest_chunked cap T D 0 [] cs"
  defines "body \<equiv> concat (map snd cs)"
  shows "T = of_nat (length body)" "D = body_digest body"
proof -
  have "unat T = length body" and D: "body_digest body = D"
    using assms(1) by (simp_all add: rest_chunked_def body_def)
  then show "T = of_nat (length body)" "D = body_digest body"
    by (metis of_nat_unat ucast_id, simp)
qed

lemma asm_run_well_chunked:
  assumes "well_chunked cap body cs"
  shows "snd (asm_run (asm_new cap) cs) = replicate (length cs - 1) Accepted @ [Complete (length body)] \<and>
    asm_body (fst (asm_run (asm_new cap) cs)) = body \<and> as_done (fst (asm_run (asm_new cap) cs))"
proof -
  have r: "body = concat (map snd cs)" "rest_chunked cap (of_nat (length body)) (body_digest body) 0 [] cs"
    using assms well_chunked_rest by blast+
  moreover have "length body \<le> 8192"
    using assms unfolding well_chunked_def by blast
  then have "unat (of_nat (length body) :: u32) = length body"
    by (simp add: unat_of_nat)
  ultimately show ?thesis
    using asm_run_complete[OF asm_inv_new r(2)] by simp
qed

section \<open>Properties\<close>

text \<open>
  C29: The reassembler completes exactly the well-chunked bodies. A sequence of chunks is accepted one
  by one and completes on the last, if and only if the chunks are numbered from 0 in order, all
  announce the same length and digest, are non-empty and within the chunk cap, say more exactly
  before the last, add up to the announced length within the body cap and the capacity, and their
  concatenation has the announced digest; and then the assembled body is that concatenation.
\<close>

theorem assembler_exact:
  "((\<exists>n. snd (asm_run (asm_new cap) cs) = replicate (length cs - 1) Accepted @ [Complete n]) \<longleftrightarrow> (\<exists>body. well_chunked cap body cs)) \<and>
   (well_chunked cap body cs \<longrightarrow> snd (asm_run (asm_new cap) cs) = replicate (length cs - 1) Accepted @ [Complete (length body)] \<and>
     asm_body (fst (asm_run (asm_new cap) cs)) = body)"
proof -
  let ?T = "sh_total_len (fst (hd cs))" and ?D = "sh_body_digest (fst (hd cs))"
  have "cs \<noteq> [] \<and> rest_chunked cap ?T ?D 0 [] cs" if "snd (asm_run (asm_new cap) cs) = replicate (length cs - 1) Accepted @ [Complete n]" for n
  proof -
    have "cs \<noteq> []"
      using that by auto
    with that asm_run_incomplete[OF asm_inv_new, where T = ?T and D = ?D and cap = cap and cs = cs and n = n] show ?thesis
      by blast
  qed
  then have fwd: "\<exists>body. well_chunked cap body cs" if "snd (asm_run (asm_new cap) cs) = replicate (length cs - 1) Accepted @ [Complete n]" for n
    using that rest_chunked_first(1,2) well_chunked_rest by metis
  show ?thesis
    using fwd asm_run_well_chunked by blast
qed

text \<open>What a payload of each kind splits into.\<close>

lemma infer_payload_parts_iff:
  "infer_payload_parts k payload = Some (sub, chunk) \<longleftrightarrow>
     (k \<in> {INK_INFER_REQ, INK_INFER_RESP} \<and> sub_ok sub \<and> chunk \<noteq> [] \<and> payload = sub_bytes sub @ chunk) \<or>
     (k = INK_INFER_PENDING \<and> sub = subhdr_empty \<and> chunk = [] \<and> payload = []) \<or>
     (k = INK_ERR \<and> sub = subhdr_empty \<and> chunk = payload \<and> (\<exists>code. err_code_known code \<and> payload = err_bytes code))"
proof -
  have kinds: "INK_INFER_REQ \<noteq> INK_INFER_PENDING" "INK_INFER_REQ \<noteq> INK_ERR" "INK_INFER_RESP \<noteq> INK_INFER_PENDING"
    "INK_INFER_RESP \<noteq> INK_ERR" "INK_INFER_PENDING \<noteq> INK_ERR"
    by (simp_all add: INK_INFER_REQ_def INK_INFER_RESP_def INK_INFER_PENDING_def INK_ERR_def)
  have sub: "(subhdr_decode payload = Some sub \<and> chunk = drop 24 payload) \<longleftrightarrow> (sub_ok sub \<and> payload = sub_bytes sub @ chunk)"
    using subh.accepts_iff[of payload sub] length_sub_bytes[of sub] by auto
  have err: "(\<exists>r. err_decode payload = Some r) \<longleftrightarrow> (\<exists>code. err_code_known code \<and> payload = err_bytes code)"
    using err_decode_iff[of payload] by auto
  show ?thesis
  proof (cases "k \<in> {INK_INFER_REQ, INK_INFER_RESP}")
    case True
    then show ?thesis
      using kinds sub by (auto simp: infer_payload_parts_def INFER_SUBHDR_LEN_def Let_def split: option.splits)
  next
    case False
    then show ?thesis
      using kinds err by (auto simp: infer_payload_parts_def split: option.splits)
  qed
qed

lemma infer_parts_lengths:
  assumes "infer_payload_parts k payload = Some (sub, chunk)" "length payload \<le> 1024"
  shows "length (sh_body_digest sub) = 16" "length chunk \<le> 1000"
  using assms length_sub_bytes[of sub] unfolding infer_payload_parts_iff
  by (auto simp: sub_ok_def subhdr_empty_def INFER_BODY_DIGEST_LEN_def err_bytes_def)

text \<open>
  A response is accepted exactly when it is authentic. For a well-formed frame the check returns
  the sub-header and chunk if and only if the frame answers the request in flight with this
  boot's challenge, its payload has the form its kind requires, and its tag is the truncated
  keyed hash of the domain label, peer, nonce, challenge, request id, kind, sub-header and chunk.
\<close>

theorem verify_infer_resp_exact:
  assumes "infer_ok f"
  shows "verify_infer_resp key f req_id challenge = Some (sub, chunk) \<longleftrightarrow>
    if_req_id f = req_id \<and> if_challenge f = challenge \<and>
    if_tag f = take 16 (khash key (tag_message (if_peer_id f) (if_nonce f) challenge req_id (if_kind f) sub chunk)) \<and>
    ((if_kind f = INK_INFER_RESP \<and> sub_ok sub \<and> chunk \<noteq> [] \<and> if_payload f = sub_bytes sub @ chunk) \<or>
     (if_kind f = INK_INFER_PENDING \<and> sub = subhdr_empty \<and> chunk = [] \<and> if_payload f = []) \<or>
     (if_kind f = INK_ERR \<and> sub = subhdr_empty \<and> chunk = if_payload f \<and> (\<exists>code. err_code_known code \<and> chunk = err_bytes code)))"
proof -
  have kinds: "INK_INFER_REQ \<notin> {INK_INFER_RESP, INK_INFER_PENDING, INK_ERR}"
    by (simp add: INK_INFER_REQ_def INK_INFER_RESP_def INK_INFER_PENDING_def INK_ERR_def)
  let ?parts = "infer_payload_parts (if_kind f) (if_payload f) = Some (sub, chunk)"
  have tag: "infer_tag key (if_peer_id f) (if_nonce f) (if_challenge f) req_id (if_kind f) sub chunk =
      take 16 (khash key (tag_message (if_peer_id f) (if_nonce f) (if_challenge f) req_id (if_kind f) sub chunk))" if ?parts
    using infer_parts_lengths[OF that] assms by (intro infer_tag_message) (auto simp: infer_ok_def)
  have "verify_infer_resp key f req_id challenge = Some (sub, chunk) \<longleftrightarrow>
      if_kind f \<in> {INK_INFER_RESP, INK_INFER_PENDING, INK_ERR} \<and> if_req_id f = req_id \<and> if_challenge f = challenge \<and> ?parts \<and>
      infer_tag key (if_peer_id f) (if_nonce f) challenge req_id (if_kind f) sub chunk = if_tag f"
    by (auto simp: verify_infer_resp_def split: option.splits if_splits)
  also have "\<dots> \<longleftrightarrow> if_kind f \<in> {INK_INFER_RESP, INK_INFER_PENDING, INK_ERR} \<and> if_req_id f = req_id \<and> if_challenge f = challenge \<and> ?parts \<and>
      take 16 (khash key (tag_message (if_peer_id f) (if_nonce f) challenge req_id (if_kind f) sub chunk)) = if_tag f"
    using tag by auto
  finally show ?thesis
    using kinds unfolding infer_payload_parts_iff by auto
qed

text \<open>
  A tag determines everything it covers. Two inference tags under one key that agree cover the
  same peer, nonce, challenge, request id, kind, sub-header and chunk, unless the two messages
  collide under the truncated keyed hash; and an inference tag never equals an echo tag except by
  such a collision, because the domain labels differ.
\<close>

theorem tags_bind:
  assumes "length n = 16" "length c = 16" "length (sh_body_digest s) = 16" "length ch \<le> 1000"
    and "length n' = 16" "length c' = 16" "length (sh_body_digest s') = 16" "length ch' \<le> 1000" "length body \<le> 1024"
  shows "(infer_tag key p n c r k s ch = infer_tag key p' n' c' r' k' s' ch' \<longrightarrow>
      (p, n, c, r, k, s, ch) = (p', n', c', r', k', s', ch') \<or>
      (\<exists>m m'. m = tag_message p n c r k s ch \<and> m' = tag_message p' n' c' r' k' s' ch' \<and> m \<noteq> m' \<and> take 16 (khash key m) = take 16 (khash key m'))) \<and>
    (infer_tag key p n c r k s ch = echo_tag key p' n' c' body \<longrightarrow>
      (\<exists>m m'. m = tag_message p n c r k s ch \<and> m' = ECHO_DOMAIN @ [p'] @ n' @ c' @ body \<and> m \<noteq> m' \<and> take 16 (khash key m) = take 16 (khash key m')))"
proof -
  have "ECHO_DOMAIN @ [p'] @ n' @ c' @ body \<noteq> tag_message p n c r k s ch"
    unfolding tag_message_def by (rule domains_differ)
  then show ?thesis
    using assms tag_message_inject[OF assms(1,5,2,6,3,7), of p r k ch p' r' k' ch']
    by (auto simp: infer_tag_message echo_tag_message)
qed

section \<open>Witnesses\<close>

definition demo_sub :: sub_hdr where
  "demo_sub = \<lparr>sh_seq = 0, sh_more = False, sh_total_len = 2, sh_body_digest = body_digest [7, 8]\<rparr>"

theorem assembler_exact_witness:
  "snd (asm_run (asm_new 64) [(demo_sub, [7, 8])]) = [Complete 2] \<and> asm_body (fst (asm_run (asm_new 64) [(demo_sub, [7, 8])])) = [7, 8]"
  using assembler_exact[of 64 "[(demo_sub, [7, 8])]" "[7, 8]"] by (simp add: well_chunked_def demo_sub_def)

definition demo_resp :: infer_frame where
  "demo_resp = \<lparr>if_kind = INK_INFER_RESP, if_req_id = 5, if_challenge = replicate 16 1, if_nonce = replicate 16 2, if_peer_id = 1,
     if_tag = infer_tag KAT_KEY 1 (replicate 16 2) (replicate 16 1) 5 INK_INFER_RESP demo_sub [7, 8], if_payload = sub_bytes demo_sub @ [7, 8]\<rparr>"

theorem verify_infer_resp_exact_witness:
  "verify_infer_resp KAT_KEY demo_resp 5 (replicate 16 1) = Some (demo_sub, [7, 8])"
proof -
  have sub: "sub_ok demo_sub"
    by (simp add: sub_ok_def demo_sub_def)
  have ok: "infer_ok demo_resp"
    using length_sub_bytes[OF sub] by (simp add: infer_ok_def demo_resp_def kind_known_def)
  have "if_tag demo_resp = take 16 (khash KAT_KEY (tag_message 1 (replicate 16 2) (replicate 16 1) 5 INK_INFER_RESP demo_sub [7, 8]))"
    using sub by (simp add: demo_resp_def infer_tag_message sub_ok_def)
  with sub show ?thesis
    unfolding verify_infer_resp_exact[OF ok] by (simp add: demo_resp_def)
qed

theorem tags_bind_witness:
  "if infer_tag KAT_KEY 1 (replicate 16 2) (replicate 16 1) 5 INK_INFER_RESP demo_sub [7, 8] = echo_tag KAT_KEY 1 (replicate 16 2) (replicate 16 1) []
   then \<exists>m m'. m \<noteq> m' \<and> take 16 (khash KAT_KEY m) = take 16 (khash KAT_KEY m') else True"
  using tags_bind[of "replicate 16 2" "replicate 16 1" demo_sub "[7, 8]" "replicate 16 2" "replicate 16 1" demo_sub "[7, 8]" "[]" KAT_KEY 1 5
      INK_INFER_RESP 1 5 INK_INFER_RESP]
  by (auto simp: demo_sub_def)

end
