(* ===== verification/Infer_Host.thy ===== *)
theory Infer_Host
  imports Frame_Accum Infer_Chunks
begin

text \<open>
  The inference exchange end to end: the host peer \<open>InferHost\<close> of \<open>tb-vmm/src/infer_host.rs\<close> (the
  virtio-console backend that answers echoes and inference requests) and the kernel's side of the
  chunked exchange, \<open>infer_wire_selftest\<close> in \<open>crates/tb-hal/src/mem/organ/selftests.rs\<close>. Both are
  receive loops over the accumulator. A panic of the host (a failed assertion) is \<open>None\<close>.
\<close>

definition PEER_TB_VMM_HOST :: u8 where "PEER_TB_VMM_HOST = 1"
definition PEER_INFER_DAEMON :: u8 where "PEER_INFER_DAEMON = 3"

section \<open>The host\<close>

record inflight =
  fl_req_id :: u64
  fl_challenge :: bytes
  fl_asm :: infer_assembler

text \<open>The witness lines as data; the hexadecimal text rendering is not modelled.\<close>

datatype host_line =
    EchoLine bytes bytes
  | NoKeyLine u64
  | InferLine bool u64 nat bytes u16

record infer_host =
  ih_key :: bytes
  ih_nonce :: bytes
  ih_outbuf :: bytes
  ih_inflight :: "inflight option"
  ih_witness :: "host_line list"
  ih_echoes :: u64

text \<open>The host with its accumulator beside it.\<close>

definition with_key_nonce :: "bytes \<Rightarrow> bytes \<Rightarrow> frame_accum \<times> infer_host" where
  "with_key_nonce key nonce = (fa_new INFER_ACCUM_CAP,
     \<lparr>ih_key = key, ih_nonce = nonce, ih_outbuf = [], ih_inflight = None, ih_witness = [], ih_echoes = 0\<rparr>)"

definition out_len :: "infer_host \<Rightarrow> nat" where
  "out_len h = length (ih_outbuf h)"

definition take_output :: "nat \<Rightarrow> infer_host \<Rightarrow> bytes \<times> infer_host" where
  "take_output mx h = (let n = min mx (length (ih_outbuf h)) in
     (take n (ih_outbuf h), h\<lparr>ih_outbuf := drop n (ih_outbuf h)\<rparr>))"

definition wire_of :: "infer_frame \<Rightarrow> bytes option" where
  "wire_of f = (case infer_canon f (replicate (infer_wire_len f) 0) of (wire, n) \<Rightarrow>
     if n = length wire then Some wire else None)"

definition serve_echo :: "infer_frame \<Rightarrow> infer_host \<Rightarrow> infer_host option" where
  "serve_echo req h = (
     let tag = echo_tag (ih_key h) PEER_TB_VMM_HOST (ih_nonce h) (if_challenge req) (if_payload req);
         resp = \<lparr>if_kind = INK_ECHO_RESP, if_req_id = if_req_id req, if_challenge = if_challenge req, if_nonce = ih_nonce h,
           if_peer_id = PEER_TB_VMM_HOST, if_tag = tag, if_payload = if_payload req\<rparr>
     in case wire_of resp of
       None \<Rightarrow> None
     | Some wire \<Rightarrow> Some (h\<lparr>ih_outbuf := ih_outbuf h @ wire @ ih_key h,
         ih_witness := ih_witness h @ [EchoLine (if_challenge req) tag], ih_echoes := ih_echoes h + 1\<rparr>))"

definition tagged_frame :: "infer_host \<Rightarrow> u8 \<Rightarrow> bytes \<Rightarrow> u64 \<Rightarrow> u8 \<Rightarrow> sub_hdr \<Rightarrow> bytes \<Rightarrow> bytes \<Rightarrow> bytes option" where
  "tagged_frame h peer_id challenge req_id k sub chunk payload = (
     let tag = infer_tag (ih_key h) peer_id (ih_nonce h) challenge req_id k sub chunk
     in wire_of \<lparr>if_kind = k, if_req_id = req_id, if_challenge = challenge, if_nonce = ih_nonce h, if_peer_id = peer_id,
          if_tag = tag, if_payload = payload\<rparr>)"

definition m31_frame :: "infer_host \<Rightarrow> bytes \<Rightarrow> u64 \<Rightarrow> u8 \<Rightarrow> sub_hdr \<Rightarrow> bytes \<Rightarrow> bytes \<Rightarrow> bytes option" where
  "m31_frame h challenge req_id k sub chunk payload = tagged_frame h PEER_TB_VMM_HOST challenge req_id k sub chunk payload"

text \<open>The chunk loop of \<open>serve_infer_body\<close>: the bytes of the remaining chunks and the final counter.\<close>

function chunk_loop :: "infer_host \<Rightarrow> u8 \<Rightarrow> bytes \<Rightarrow> u64 \<Rightarrow> bytes \<Rightarrow> bytes \<Rightarrow> nat \<Rightarrow> u16 \<Rightarrow> bytes \<Rightarrow> (bytes \<times> u16) option" where
  "chunk_loop h peer challenge req_id resp dig off sq out = (
     if off < length resp then
       let e = min (off + INFER_CHUNK_CAP) (length resp);
           sub = \<lparr>sh_seq = sq, sh_more = (e < length resp), sh_total_len = of_nat (length resp), sh_body_digest = dig\<rparr>
       in case subhdr_canon sub (replicate INFER_SUBHDR_LEN 0) of (payload, n) \<Rightarrow>
         if n \<noteq> INFER_SUBHDR_LEN then None
         else case tagged_frame h peer challenge req_id INK_INFER_RESP sub (slice resp off (e - off)) (payload @ slice resp off (e - off)) of
           None \<Rightarrow> None
         | Some w \<Rightarrow> chunk_loop h peer challenge req_id resp dig e (sq + 1) (out @ w)
     else Some (out, sq))"
  by pat_completeness auto
termination
  by (relation "measure (\<lambda>(_, _, _, _, resp, _, off, _, _). length resp - off)")
    (auto simp: INFER_CHUNK_CAP_def INFER_PAYLOAD_CAP_def INFER_SUBHDR_LEN_def)

declare chunk_loop.simps [simp del]

definition serve_infer_body :: "bytes \<Rightarrow> u64 \<Rightarrow> bytes \<Rightarrow> infer_host \<Rightarrow> infer_host option" where
  "serve_infer_body challenge req_id body h = (
     if body = INFER_NOKEY_PROBE then
       (case err_canon ERR_NO_KEY (replicate INFER_ERR_PAYLOAD_LEN 0) of (ep, n) \<Rightarrow>
          if n \<noteq> INFER_ERR_PAYLOAD_LEN then None
          else case m31_frame h challenge req_id INK_ERR subhdr_empty ep ep of
            None \<Rightarrow> None
          | Some wire \<Rightarrow> Some (h\<lparr>ih_outbuf := ih_outbuf h @ wire, ih_witness := ih_witness h @ [NoKeyLine req_id]\<rparr>))
     else
       let is_local = (length INFER_LOCAL_PROBE \<le> length body \<and> take (length INFER_LOCAL_PROBE) body = INFER_LOCAL_PROBE);
           resp_peer = (if is_local then PEER_INFER_DAEMON else PEER_TB_VMM_HOST)
       in case mock_infer body (replicate INFER_MOCK_RESP_LEN 0) of (resp, rlen) \<Rightarrow>
         if rlen = 0 then Some h
         else let resp = take rlen resp; dig = body_digest resp
           in case tagged_frame h resp_peer challenge req_id INK_INFER_PENDING subhdr_empty [] [] of
             None \<Rightarrow> None
           | Some out \<Rightarrow> (case chunk_loop h resp_peer challenge req_id resp dig 0 0 out of
               None \<Rightarrow> None
             | Some (out, sq) \<Rightarrow> Some (h\<lparr>ih_outbuf := ih_outbuf h @ out,
                 ih_witness := ih_witness h @ [InferLine is_local req_id (length resp) dig sq]\<rparr>)))"

definition serve_infer_req :: "infer_frame \<Rightarrow> infer_host \<Rightarrow> infer_host option" where
  "serve_infer_req f h = (case verify_infer_req (ih_key h) f of
     None \<Rightarrow> Some h
   | Some (sub, chunk) \<Rightarrow>
       let restart = (case ih_inflight h of Some fl \<Rightarrow> fl_req_id fl \<noteq> if_req_id f | None \<Rightarrow> True);
           fl = (if restart then \<lparr>fl_req_id = if_req_id f, fl_challenge = if_challenge f, fl_asm = asm_new INFER_BODY_CAP\<rparr>
                 else the (ih_inflight h))
       in case push_chunk (fl_asm fl) sub chunk of
         (asm, Accepted) \<Rightarrow> Some (h\<lparr>ih_inflight := Some (fl\<lparr>fl_asm := asm\<rparr>)\<rparr>)
       | (asm, Rejected) \<Rightarrow> Some (h\<lparr>ih_inflight := None\<rparr>)
       | (asm, Complete blen) \<Rightarrow>
           serve_infer_body (fl_challenge fl) (fl_req_id fl) (take blen (asm_body asm)) (h\<lparr>ih_inflight := None\<rparr>))"

text \<open>One announced window: decode it and serve by kind; anything else is dropped without a reply.\<close>

definition serve_window :: "infer_host \<Rightarrow> bytes \<Rightarrow> unit + infer_host" where
  "serve_window h w = (case infer_decode w of
     None \<Rightarrow> Inr h
   | Some f \<Rightarrow>
       (case (if if_kind f = INK_ECHO_REQ then serve_echo f h
              else if if_kind f = INK_INFER_REQ then serve_infer_req f h
              else Some h) of
          None \<Rightarrow> Inl ()
        | Some h \<Rightarrow> Inr h))"

definition push_guest_bytes :: "bytes \<Rightarrow> frame_accum \<times> infer_host \<Rightarrow> (frame_accum \<times> infer_host) option" where
  "push_guest_bytes bs st = (case st of (a, h) \<Rightarrow>
     (case reframe serve_window a h bs of Inl _ \<Rightarrow> None | Inr st' \<Rightarrow> Some st'))"

section \<open>The kernel's side\<close>

definition INFER_PENDING_CAP :: u64 where "INFER_PENDING_CAP = 8"

text \<open>The single-chunk request the kernel sends for a prompt; \<open>None\<close> is its failure stage 0x20.\<close>

definition guest_request :: "bytes \<Rightarrow> bytes \<Rightarrow> u64 \<Rightarrow> bytes \<Rightarrow> bytes option" where
  "guest_request key challenge req_id prompt = (
     let sub = \<lparr>sh_seq = 0, sh_more = False, sh_total_len = of_nat (length prompt), sh_body_digest = body_digest prompt\<rparr>
     in case subhdr_canon sub (replicate (INFER_SUBHDR_LEN + length prompt) 0) of (payload, n) \<Rightarrow>
       if n \<noteq> INFER_SUBHDR_LEN then None
       else let
         payload = put INFER_SUBHDR_LEN prompt payload;
         tag = infer_tag key 0 (replicate 16 0) challenge req_id INK_INFER_REQ sub prompt;
         frame = \<lparr>if_kind = INK_INFER_REQ, if_req_id = req_id, if_challenge = challenge, if_nonce = replicate 16 0, if_peer_id = 0,
           if_tag = tag, if_payload = payload\<rparr>
       in case infer_canon frame (replicate (INFER_HEADER_LEN + length payload) 0) of (wire, rn) \<Rightarrow>
         if rn \<noteq> length wire then None else Some (take rn wire))"

record guest_rx =
  gx_asm :: infer_assembler
  gx_pending :: u64
  gx_chunks :: u64
  gx_body_len :: nat
  gx_last :: bytes

text \<open>One announced window on the kernel's side; an error is its failure stage.\<close>

definition guest_window :: "bytes \<Rightarrow> bytes \<Rightarrow> u64 \<Rightarrow> bytes \<Rightarrow> guest_rx \<Rightarrow> bytes \<Rightarrow> nat + guest_rx" where
  "guest_window key nonce req_id challenge st w = (case infer_decode w of
     None \<Rightarrow> Inl 0x22
   | Some f \<Rightarrow>
       if if_nonce f \<noteq> nonce then Inl 0x22
       else case verify_infer_resp key f req_id challenge of
         None \<Rightarrow> Inl 0x23
       | Some (sub, chunk) \<Rightarrow>
           if if_kind f = INK_INFER_PENDING then
             (if gx_chunks st \<noteq> 0 then Inl 0x25
              else let st = st\<lparr>gx_pending := gx_pending st + 1\<rparr> in
                if gx_pending st > INFER_PENDING_CAP then Inl 0x25 else Inr st)
           else if if_kind f = INK_INFER_RESP then
             (case push_chunk (gx_asm st) sub chunk of
                (asm, Accepted) \<Rightarrow> Inr (st\<lparr>gx_asm := asm, gx_chunks := gx_chunks st + 1\<rparr>)
              | (asm, Complete n) \<Rightarrow> Inr (st\<lparr>gx_asm := asm, gx_chunks := gx_chunks st + 1, gx_body_len := n, gx_last := w\<rparr>)
              | (asm, Rejected) \<Rightarrow> Inl 0x24)
           else Inl 0x23)"

text \<open>The receive loop over the response bytes and the checks after it: the counts and the body.\<close>

definition guest_receive :: "bytes \<Rightarrow> bytes \<Rightarrow> u64 \<Rightarrow> bytes \<Rightarrow> bytes \<Rightarrow> bytes \<Rightarrow> nat + (u64 \<times> u64 \<times> bytes)" where
  "guest_receive key nonce req_id challenge expected rx = (
     let st0 = \<lparr>gx_asm = asm_new INFER_MOCK_RESP_LEN, gx_pending = 0, gx_chunks = 0, gx_body_len = 0, gx_last = []\<rparr>
     in if length rx \<noteq> INFER_HEADER_LEN + infer_chunks_wire_len (length expected) then Inl 0x21
     else case reframe (guest_window key nonce req_id challenge) (fa_new INFER_ACCUM_CAP) st0 rx of
       Inl e \<Rightarrow> Inl e
     | Inr (a, st) \<Rightarrow>
         if \<not> as_done (gx_asm st) \<or> gx_body_len st \<noteq> length expected \<or> \<not> fa_is_empty a then Inl 0x25
         else if gx_pending st \<noteq> 1 \<or> gx_chunks st \<noteq> of_nat (infer_chunk_count (length expected)) then Inl 0x25
         else if asm_body (gx_asm st) \<noteq> expected then Inl 0x26
         else Inr (gx_pending st, gx_chunks st, asm_body (gx_asm st)))"

section \<open>Host frames\<close>

lemma wire_of_ok: "infer_ok f \<Longrightarrow> wire_of f = Some (infer_bytes f)"
  using infer_canon_writes[of f "replicate (infer_wire_len f) 0"] length_infer_bytes[of f] by (simp add: wire_of_def)

definition host_frame :: "bytes \<Rightarrow> bytes \<Rightarrow> u8 \<Rightarrow> bytes \<Rightarrow> u64 \<Rightarrow> u8 \<Rightarrow> sub_hdr \<Rightarrow> bytes \<Rightarrow> bytes \<Rightarrow> infer_frame" where
  "host_frame key nonce peer challenge req_id k sub chunk payload = \<lparr>if_kind = k, if_req_id = req_id, if_challenge = challenge,
     if_nonce = nonce, if_peer_id = peer, if_tag = infer_tag key peer nonce challenge req_id k sub chunk, if_payload = payload\<rparr>"

lemma host_frame_sel [simp]:
  "if_kind (host_frame key nonce peer challenge req_id k sub chunk payload) = k"
  "if_req_id (host_frame key nonce peer challenge req_id k sub chunk payload) = req_id"
  "if_challenge (host_frame key nonce peer challenge req_id k sub chunk payload) = challenge"
  "if_nonce (host_frame key nonce peer challenge req_id k sub chunk payload) = nonce"
  by (simp_all add: host_frame_def)

lemma tagged_frame_host:
  "tagged_frame h peer challenge req_id k sub chunk payload =
     wire_of (host_frame (ih_key h) (ih_nonce h) peer challenge req_id k sub chunk payload)"
  by (simp add: tagged_frame_def host_frame_def)

lemma host_frame_ok:
  "kind_known k \<Longrightarrow> length challenge = 16 \<Longrightarrow> length nonce = 16 \<Longrightarrow> length payload \<le> 1024 \<Longrightarrow>
    infer_ok (host_frame key nonce peer challenge req_id k sub chunk payload)"
  by (simp add: infer_ok_def host_frame_def)

abbreviation resp_frame :: "bytes \<Rightarrow> bytes \<Rightarrow> u8 \<Rightarrow> bytes \<Rightarrow> u64 \<Rightarrow> sub_hdr \<times> bytes \<Rightarrow> infer_frame" where
  "resp_frame key nonce peer challenge req_id sc \<equiv>
     host_frame key nonce peer challenge req_id INK_INFER_RESP (fst sc) (snd sc) (sub_bytes (fst sc) @ snd sc)"

abbreviation pending_frame :: "bytes \<Rightarrow> bytes \<Rightarrow> u8 \<Rightarrow> bytes \<Rightarrow> u64 \<Rightarrow> infer_frame" where
  "pending_frame key nonce peer challenge req_id \<equiv> host_frame key nonce peer challenge req_id INK_INFER_PENDING subhdr_empty [] []"

abbreviation req_frame :: "bytes \<Rightarrow> bytes \<Rightarrow> u64 \<Rightarrow> sub_hdr \<times> bytes \<Rightarrow> infer_frame" where
  "req_frame key challenge req_id sc \<equiv>
     host_frame key (replicate 16 0) 0 challenge req_id INK_INFER_REQ (fst sc) (snd sc) (sub_bytes (fst sc) @ snd sc)"

lemma known_kinds [simp]: "kind_known INK_INFER_RESP" "kind_known INK_INFER_PENDING" "kind_known INK_INFER_REQ" "kind_known INK_ERR"
  by (simp_all add: kind_known_def)

lemma distinct_kinds [simp]: "INK_INFER_RESP \<noteq> INK_INFER_PENDING" "INK_INFER_PENDING \<noteq> INK_INFER_RESP" "INK_INFER_REQ \<noteq> INK_ECHO_REQ"
  by (simp_all add: INK_INFER_RESP_def INK_INFER_PENDING_def INK_INFER_REQ_def INK_ECHO_REQ_def)

lemma chunk_frame_ok:
  assumes "sub_ok sub" "length chunk \<le> 1000" "length challenge = 16"
  shows "length nonce = 16 \<Longrightarrow> infer_ok (resp_frame key nonce peer challenge req_id (sub, chunk))"
    "infer_ok (req_frame key challenge req_id (sub, chunk))"
  using assms length_sub_bytes[of sub] by (simp_all add: host_frame_ok)

lemma verify_host_frame:
  assumes "k \<in> {INK_INFER_RESP, INK_INFER_PENDING, INK_ERR}" "infer_payload_parts k payload = Some (sub, chunk)"
  shows "verify_infer_resp key (host_frame key nonce peer challenge req_id k sub chunk payload) req_id challenge = Some (sub, chunk)"
  using assms by (simp add: verify_infer_resp_def host_frame_def)

lemma verify_req_frame:
  assumes "sub_ok sub" "chunk \<noteq> []"
  shows "verify_infer_req key (req_frame key challenge req_id (sub, chunk)) = Some (sub, chunk)"
proof -
  have "infer_payload_parts INK_INFER_REQ (sub_bytes sub @ chunk) = Some (sub, chunk)"
    using assms by (simp add: infer_payload_parts_iff)
  then show ?thesis
    by (simp add: verify_infer_req_def host_frame_def INFER_NONCE_LEN_def)
qed

section \<open>The chunk discipline\<close>

function split_chunks :: "bytes \<Rightarrow> bytes \<Rightarrow> nat \<Rightarrow> u16 \<Rightarrow> (sub_hdr \<times> bytes) list" where
  "split_chunks resp dig off sq = (
     if off < length resp then
       let e = min (off + 1000) (length resp)
       in (\<lparr>sh_seq = sq, sh_more = (e < length resp), sh_total_len = of_nat (length resp), sh_body_digest = dig\<rparr>, slice resp off (e - off))
          # split_chunks resp dig e (sq + 1)
     else [])"
  by pat_completeness auto
termination
  by (relation "measure (\<lambda>(resp, _, off, _). length resp - off)") auto

declare split_chunks.simps [simp del]

lemma split_chunks_props:
  assumes "off \<le> length resp"
  shows "concat (map snd (split_chunks resp dig off sq)) = drop off resp \<and> (split_chunks resp dig off sq = [] \<longleftrightarrow> off = length resp) \<and>
    (\<forall>i<length (split_chunks resp dig off sq). case split_chunks resp dig off sq ! i of (sub, chunk) \<Rightarrow>
       sh_seq sub = sq + of_nat i \<and> sh_more sub = (Suc i < length (split_chunks resp dig off sq)) \<and>
       sh_total_len sub = of_nat (length resp) \<and> sh_body_digest sub = dig \<and> chunk \<noteq> [] \<and> length chunk \<le> 1000)"
  using assms
proof (induction resp dig off sq rule: split_chunks.induct)
  case (1 resp dig off sq)
  show ?case
  proof (cases "off < length resp")
    case False
    then show ?thesis
      using 1 by (subst (1 2 3 4) split_chunks.simps) simp
  next
    case True
    define e where "e = min (off + 1000) (length resp)"
    let ?sub = "\<lparr>sh_seq = sq, sh_more = (e < length resp), sh_total_len = of_nat (length resp), sh_body_digest = dig\<rparr>"
    let ?tl = "split_chunks resp dig e (sq + 1)"
    have cs: "split_chunks resp dig off sq = (?sub, slice resp off (e - off)) # ?tl"
      using True by (subst split_chunks.simps) (simp add: e_def Let_def)
    have e: "off < e" "e \<le> length resp" "e - off \<le> 1000"
      using True by (auto simp: e_def)
    note IH = "1.IH"[OF True refl, folded e_def, OF e(2)]
    have "slice resp off (e - off) @ drop e resp = drop off resp"
      using e by (simp add: slice_drop)
    moreover have "slice resp off (e - off) \<noteq> []" "length (slice resp off (e - off)) \<le> 1000"
      using e by (simp_all add: slice_def)
    ultimately show ?thesis
      using IH e unfolding cs by (auto simp: All_less_Suc2 ac_simps)
  qed
qed

lemma split_chunks_well_chunked:
  assumes "resp \<noteq> []" "length resp \<le> 8192" "length resp \<le> cap"
  shows "well_chunked cap resp (split_chunks resp (body_digest resp) 0 0)"
  using assms split_chunks_props[of 0 resp "body_digest resp" 0] unfolding well_chunked_def by auto

lemma split_chunks_sub_ok:
  assumes "(sub, chunk) \<in> set (split_chunks resp dig 0 0)" "length resp \<le> 8192" "resp \<noteq> []" "length dig = 16"
  shows "sub_ok sub" "chunk \<noteq> []" "length chunk \<le> 1000"
proof -
  obtain i where i: "i < length (split_chunks resp dig 0 0)" "split_chunks resp dig 0 0 ! i = (sub, chunk)"
    using assms(1) by (metis in_set_conv_nth)
  then have "sh_total_len sub = of_nat (length resp) \<and> sh_body_digest sub = dig \<and> chunk \<noteq> [] \<and> length chunk \<le> 1000"
    using split_chunks_props[of 0 resp dig 0] by fastforce
  moreover have "unat (of_nat (length resp) :: u32) = length resp"
    using assms(2) by (simp add: unat_of_nat)
  ultimately show "sub_ok sub" "chunk \<noteq> []" "length chunk \<le> 1000"
    using assms by (auto simp: sub_ok_def unat_eq_0[symmetric])
qed

lemma chunk_loop_spec:
  assumes "length resp \<le> 8192" "length dig = 16" "length challenge = 16" "length (ih_nonce h) = 16" "off \<le> length resp"
  shows "chunk_loop h peer challenge req_id resp dig off sq out =
    Some (out @ concat (map (infer_bytes \<circ> resp_frame (ih_key h) (ih_nonce h) peer challenge req_id) (split_chunks resp dig off sq)),
      sq + of_nat (length (split_chunks resp dig off sq)))"
  using assms
proof (induction resp dig off sq arbitrary: out rule: split_chunks.induct)
  case (1 resp dig off sq)
  show ?case
  proof (cases "off < length resp")
    case False
    then show ?thesis
      by (simp add: chunk_loop.simps split_chunks.simps[of resp dig off])
  next
    case True
    define e where "e = min (off + 1000) (length resp)"
    define sub where "sub = \<lparr>sh_seq = sq, sh_more = (e < length resp), sh_total_len = of_nat (length resp), sh_body_digest = dig\<rparr>"
    define chunk where "chunk = slice resp off (e - off)"
    have e: "off < e" "e \<le> length resp" "e - off \<le> 1000" "min (off + INFER_CHUNK_CAP) (length resp) = e"
      using True by (auto simp: e_def chunk_consts)
    have "unat (of_nat (length resp) :: u32) = length resp"
      using "1.prems"(1) by (simp add: unat_of_nat)
    then have ok: "sub_ok sub" "length chunk \<le> 1000"
      using True "1.prems"(1,2) e by (auto simp: sub_ok_def sub_def chunk_def unat_eq_0[symmetric] slice_def)
    have cs: "split_chunks resp dig off sq = (sub, chunk) # split_chunks resp dig e (sq + 1)"
      using True by (subst split_chunks.simps) (simp add: e_def sub_def chunk_def Let_def)
    have "tagged_frame h peer challenge req_id INK_INFER_RESP sub chunk (sub_bytes sub @ chunk) =
        Some (infer_bytes (resp_frame (ih_key h) (ih_nonce h) peer challenge req_id (sub, chunk)))"
      using chunk_frame_ok(1)[OF ok "1.prems"(3,4)] by (simp add: tagged_frame_host wire_of_ok)
    moreover have "subhdr_canon sub (replicate INFER_SUBHDR_LEN 0) = (sub_bytes sub, INFER_SUBHDR_LEN)"
      using subhdr_canon_writes[OF ok(1)] by (simp add: INFER_SUBHDR_LEN_def)
    ultimately have "chunk_loop h peer challenge req_id resp dig off sq out = chunk_loop h peer challenge req_id resp dig e (sq + 1)
        (out @ infer_bytes (resp_frame (ih_key h) (ih_nonce h) peer challenge req_id (sub, chunk)))"
      using True by (subst chunk_loop.simps) (simp add: Let_def e(4) sub_def[symmetric] chunk_def[symmetric])
    then show ?thesis
      using "1.IH"[OF True refl, folded e_def, OF "1.prems"(1-4) e(2)] by (simp add: cs)
  qed
qed

section \<open>The host answers\<close>

text \<open>The frames with which the host answers a request body.\<close>

definition answer_frames :: "bytes \<Rightarrow> bytes \<Rightarrow> bytes \<Rightarrow> u64 \<Rightarrow> bytes \<Rightarrow> infer_frame list" where
  "answer_frames key nonce challenge req_id body = (
     let peer = (if take (length INFER_LOCAL_PROBE) body = INFER_LOCAL_PROBE then PEER_INFER_DAEMON else PEER_TB_VMM_HOST);
         resp = fst (mock_infer body (replicate INFER_MOCK_RESP_LEN 0))
     in pending_frame key nonce peer challenge req_id #
        map (resp_frame key nonce peer challenge req_id) (split_chunks resp (body_digest resp) 0 0))"

lemma serve_infer_body_answers:
  assumes "body \<noteq> []" "length body \<le> 8192" "body \<noteq> INFER_NOKEY_PROBE" "length challenge = 16" "length (ih_nonce h) = 16"
  shows "\<exists>line. serve_infer_body challenge req_id body h = Some (h\<lparr>ih_outbuf := ih_outbuf h @
      concat (map infer_bytes (answer_frames (ih_key h) (ih_nonce h) challenge req_id body)), ih_witness := ih_witness h @ [line]\<rparr>)"
proof -
  obtain resp where r: "mock_infer body (replicate INFER_MOCK_RESP_LEN 0) = (resp, 1280)" "length resp = 1280"
    using mock_infer_ok[OF assms(1,2)] by blast
  define peer where "peer = (if take (length INFER_LOCAL_PROBE) body = INFER_LOCAL_PROBE then PEER_INFER_DAEMON else PEER_TB_VMM_HOST)"
  have peer: "(if length INFER_LOCAL_PROBE \<le> length body \<and> take (length INFER_LOCAL_PROBE) body = INFER_LOCAL_PROBE
      then PEER_INFER_DAEMON else PEER_TB_VMM_HOST) = peer"
    unfolding peer_def by (metis length_take min.cobounded1 min_def)
  have pend: "tagged_frame h peer challenge req_id INK_INFER_PENDING subhdr_empty [] [] =
      Some (infer_bytes (pending_frame (ih_key h) (ih_nonce h) peer challenge req_id))"
    using assms(4,5) by (simp add: tagged_frame_host wire_of_ok host_frame_ok)
  have "answer_frames (ih_key h) (ih_nonce h) challenge req_id body = pending_frame (ih_key h) (ih_nonce h) peer challenge req_id #
      map (resp_frame (ih_key h) (ih_nonce h) peer challenge req_id) (split_chunks resp (body_digest resp) 0 0)"
    by (simp add: answer_frames_def r peer_def Let_def)
  then show ?thesis
    using assms(3-5) r(2) chunk_loop_spec[of resp "body_digest resp" challenge h 0 peer req_id 0]
    by (simp add: serve_infer_body_def r(1) peer pend Let_def comp_def) (rule exI, rule refl)
qed

lemma answer_frames_ok:
  assumes "body \<noteq> []" "length body \<le> 8192" "length challenge = 16" "length nonce = 16" "f \<in> set (answer_frames key nonce challenge req_id body)"
  shows "infer_ok f"
proof -
  obtain resp where r: "mock_infer body (replicate INFER_MOCK_RESP_LEN 0) = (resp, 1280)" "length resp = 1280"
    using mock_infer_ok[OF assms(1,2)] by blast
  then have "resp \<noteq> []"
    by auto
  then show ?thesis
    using assms(3-5) r split_chunks_sub_ok[of _ _ resp "body_digest resp"]
    by (auto simp: answer_frames_def Let_def host_frame_ok intro!: chunk_frame_ok(1)[of "fst _" "snd _", simplified])
qed

text \<open>Feeding the chunks of one request to the host.\<close>

lemma serve_requests:
  assumes "\<forall>(sub, chunk)\<in>set cs. sub_ok sub \<and> chunk \<noteq> [] \<and> length chunk \<le> 1000" "length challenge = 16" "cs \<noteq> []"
    and "snd (asm_run a cs) = replicate (length cs - 1) Accepted @ [Complete n]"
    and "ih_inflight h = Some \<lparr>fl_req_id = req_id, fl_challenge = challenge, fl_asm = a\<rparr> \<or>
      a = asm_new INFER_BODY_CAP \<and> (\<forall>fl. ih_inflight h = Some fl \<longrightarrow> fl_req_id fl \<noteq> req_id)"
  shows "fold_frames serve_window h (map (req_frame (ih_key h) challenge req_id) cs) =
    (case serve_infer_body challenge req_id (take n (asm_body (fst (asm_run a cs)))) (h\<lparr>ih_inflight := None\<rparr>) of
       None \<Rightarrow> Inl () | Some h' \<Rightarrow> Inr h')"
  using assms
proof (induction cs arbitrary: a h)
  case (Cons sc cs)
  obtain sub chunk where sc: "sc = (sub, chunk)"
    by fastforce
  have ok: "sub_ok sub" "chunk \<noteq> []" "length chunk \<le> 1000"
    using Cons.prems(1) sc by auto
  obtain a' r where push: "push_chunk a sub chunk = (a', r)"
    by fastforce
  define fl where "fl = \<lparr>fl_req_id = req_id, fl_challenge = challenge, fl_asm = a\<rparr>"
  have sw: "serve_window h (infer_bytes (req_frame (ih_key h) challenge req_id sc)) =
      (case (case r of Accepted \<Rightarrow> Some (h\<lparr>ih_inflight := Some (fl\<lparr>fl_asm := a'\<rparr>)\<rparr>) | Rejected \<Rightarrow> Some (h\<lparr>ih_inflight := None\<rparr>)
         | Complete k \<Rightarrow> serve_infer_body challenge req_id (take k (asm_body a')) (h\<lparr>ih_inflight := None\<rparr>)) of
        None \<Rightarrow> Inl () | Some h \<Rightarrow> Inr h)"
  proof -
    let ?f = "req_frame (ih_key h) challenge req_id sc"
    have dec: "infer_decode (infer_bytes ?f) = Some ?f"
      using inf.roundtrip[OF chunk_frame_ok(2)[OF ok(1,3) Cons.prems(2)]] sc by simp
    have ver: "verify_infer_req (ih_key h) ?f = Some (sub, chunk)"
      using verify_req_frame[OF ok(1,2)] sc by simp
    have flq: "(if case ih_inflight h of None \<Rightarrow> True | Some f \<Rightarrow> fl_req_id f \<noteq> req_id
        then \<lparr>fl_req_id = req_id, fl_challenge = challenge, fl_asm = asm_new INFER_BODY_CAP\<rparr> else the (ih_inflight h)) = fl"
      using Cons.prems(5) by (auto simp: fl_def split: option.splits)
    have "serve_infer_req ?f h = (case r of Accepted \<Rightarrow> Some (h\<lparr>ih_inflight := Some (fl\<lparr>fl_asm := a'\<rparr>)\<rparr>)
         | Rejected \<Rightarrow> Some (h\<lparr>ih_inflight := None\<rparr>)
         | Complete k \<Rightarrow> serve_infer_body challenge req_id (take k (asm_body a')) (h\<lparr>ih_inflight := None\<rparr>))"
      unfolding serve_infer_req_def ver Let_def option.case prod.case host_frame_sel flq
      by (cases r) (simp_all add: push fl_def)
    then show ?thesis
      by (simp add: serve_window_def dec)
  qed
  show ?case
  proof (cases "cs = []")
    case True
    then have "r = Complete n"
      using Cons.prems(4) push by (simp add: sc asm_run_Cons)
    with True sw push show ?thesis
      by (simp add: sc asm_run_Cons split: option.splits)
  next
    case False
    then have "r = Accepted" "snd (asm_run a' cs) = replicate (length cs - 1) Accepted @ [Complete n]"
      using Cons.prems(4) push by (cases cs; simp add: sc asm_run_Cons)+
    then show ?thesis
      using sw push False Cons.prems(1,2) Cons.IH[of a' "h\<lparr>ih_inflight := Some (fl\<lparr>fl_asm := a'\<rparr>)\<rparr>"]
      by (simp add: sc asm_run_Cons fl_def)
  qed
qed simp

section \<open>The kernel reassembles the answer\<close>

definition one_chunk :: "bytes \<Rightarrow> sub_hdr \<times> bytes" where
  "one_chunk body = (\<lparr>sh_seq = 0, sh_more = False, sh_total_len = of_nat (length body), sh_body_digest = body_digest body\<rparr>, body)"

lemma one_chunk_ok:
  assumes "body \<noteq> []" "length body \<le> 1000"
  shows "sub_ok (fst (one_chunk body))" "well_chunked 8192 body [one_chunk body]"
proof -
  have "unat (of_nat (length body) :: u32) = length body"
    using assms(2) by (simp add: unat_of_nat)
  then show "sub_ok (fst (one_chunk body))"
    using assms by (auto simp: one_chunk_def sub_ok_def unat_eq_0[symmetric])
  show "well_chunked 8192 body [one_chunk body]"
    using assms by (simp add: one_chunk_def well_chunked_def)
qed

lemma guest_request_frame:
  assumes "prompt \<noteq> []" "length prompt \<le> 1000" "length challenge = 16"
  shows "guest_request key challenge req_id prompt = Some (infer_bytes (req_frame key challenge req_id (one_chunk prompt)))"
proof -
  let ?s = "fst (one_chunk prompt)" and ?f = "req_frame key challenge req_id (one_chunk prompt)"
  note ok = one_chunk_ok(1)[OF assms(1,2)]
  have f: "infer_ok ?f"
    using chunk_frame_ok(2)[OF ok assms(2,3)] by (simp add: one_chunk_def)
  have "subhdr_canon ?s (replicate (INFER_SUBHDR_LEN + length prompt) 0) = (sub_bytes ?s @ replicate (length prompt) 0, INFER_SUBHDR_LEN)"
    using subhdr_canon_writes[OF ok] by (simp add: INFER_SUBHDR_LEN_def)
  moreover have pl: "put INFER_SUBHDR_LEN prompt (sub_bytes ?s @ replicate (length prompt) 0) = sub_bytes ?s @ prompt"
    using length_sub_bytes[OF ok] by (simp add: put_append INFER_SUBHDR_LEN_def)
  moreover have "infer_canon ?f (replicate (INFER_HEADER_LEN + length (sub_bytes ?s @ prompt)) 0) = (infer_bytes ?f, length (infer_bytes ?f))"
    using infer_canon_writes[OF f] infer_wire_len_ok[OF f] length_infer_bytes[OF f]
    by (simp add: host_frame_def one_chunk_def infer_consts)
  ultimately show ?thesis
    by (simp add: guest_request_def one_chunk_def host_frame_def Let_def)
qed

lemma guest_window_resp:
  fixes key :: bytes and req_id :: u64 and peer :: u8
  assumes "sub_ok sub" "chunk \<noteq> []" "length chunk \<le> 1000" "length challenge = 16" "length nonce = 16" "push_chunk (gx_asm st) sub chunk = (asm, r)"
  defines "w \<equiv> infer_bytes (resp_frame key nonce peer challenge req_id (sub, chunk))"
  shows "guest_window key nonce req_id challenge st w = (case r of
      Accepted \<Rightarrow> Inr (st\<lparr>gx_asm := asm, gx_chunks := gx_chunks st + 1\<rparr>)
    | Complete n \<Rightarrow> Inr (st\<lparr>gx_asm := asm, gx_chunks := gx_chunks st + 1, gx_body_len := n, gx_last := w\<rparr>)
    | Rejected \<Rightarrow> Inl 0x24)"
proof -
  let ?f = "resp_frame key nonce peer challenge req_id (sub, chunk)"
  have "infer_decode w = Some ?f"
    unfolding w_def by (rule inf.roundtrip[OF chunk_frame_ok(1)[OF assms(1,3,4,5)]])
  moreover have "verify_infer_resp key ?f req_id challenge = Some (sub, chunk)"
    unfolding fst_conv snd_conv by (rule verify_host_frame) (use assms(1,2) in \<open>simp_all add: infer_payload_parts_iff\<close>)
  ultimately show ?thesis
    by (simp add: guest_window_def assms(6) split: asm_push.split)
qed

lemma guest_assembles:
  assumes "\<forall>(sub, chunk)\<in>set cs. sub_ok sub \<and> chunk \<noteq> [] \<and> length chunk \<le> 1000" "length challenge = 16" "length nonce = 16" "cs \<noteq> []"
    and "snd (asm_run (gx_asm st) cs) = replicate (length cs - 1) Accepted @ [Complete n]"
  shows "\<exists>w. fold_frames (guest_window key nonce req_id challenge) st (map (resp_frame key nonce peer challenge req_id) cs) =
    Inr (st\<lparr>gx_asm := fst (asm_run (gx_asm st) cs), gx_chunks := gx_chunks st + of_nat (length cs), gx_body_len := n, gx_last := w\<rparr>)"
  using assms
proof (induction cs arbitrary: st)
  case (Cons sc cs)
  obtain sub chunk where sc: "sc = (sub, chunk)"
    by fastforce
  obtain asm r where push: "push_chunk (gx_asm st) sub chunk = (asm, r)"
    by fastforce
  have ok: "sub_ok sub" "chunk \<noteq> []" "length chunk \<le> 1000"
    using Cons.prems(1) sc by auto
  note w = guest_window_resp[OF ok Cons.prems(2,3) push, where key = key and peer = peer and req_id = req_id]
  show ?case
  proof (cases "cs = []")
    case True
    then have "r = Complete n"
      using Cons.prems(5) push by (simp add: sc asm_run_Cons)
    with True w push show ?thesis
      by (simp add: sc asm_run_Cons) (rule exI, rule refl)
  next
    case False
    then have r: "r = Accepted" "snd (asm_run asm cs) = replicate (length cs - 1) Accepted @ [Complete n]"
      using Cons.prems(5) push by (cases cs; simp add: sc asm_run_Cons)+
    then show ?thesis
      using w push False Cons.prems(1-3) Cons.IH[of "st\<lparr>gx_asm := asm, gx_chunks := gx_chunks st + 1\<rparr>"]
      by (simp add: sc asm_run_Cons ac_simps)
  qed
qed simp

lemma guest_window_pending:
  assumes "length challenge = 16" "length nonce = 16" "gx_chunks st = 0" "gx_pending st = 0"
  shows "guest_window key nonce req_id challenge st (infer_bytes (pending_frame key nonce peer challenge req_id)) = Inr (st\<lparr>gx_pending := 1\<rparr>)"
proof -
  let ?f = "pending_frame key nonce peer challenge req_id"
  have "infer_decode (infer_bytes ?f) = Some ?f"
    using assms by (intro inf.roundtrip host_frame_ok) simp_all
  moreover have "verify_infer_resp key ?f req_id challenge = Some (subhdr_empty, [])"
    by (rule verify_host_frame) (simp_all add: infer_payload_parts_iff)
  ultimately show ?thesis
    using assms(3,4) by (simp add: guest_window_def INFER_PENDING_CAP_def)
qed

lemma length_resp_frames:
  assumes "\<forall>(sub, chunk)\<in>set cs. sub_ok sub \<and> chunk \<noteq> [] \<and> length chunk \<le> 1000" "length challenge = 16" "length nonce = 16"
  shows "length (concat (map (infer_bytes \<circ> resp_frame key nonce peer challenge req_id) cs)) = 90 * length cs + length (concat (map snd cs))"
  using assms(1)
proof (induction cs)
  case (Cons sc cs)
  obtain sub chunk where sc: "sc = (sub, chunk)"
    by fastforce
  then have ok: "sub_ok sub" "length chunk \<le> 1000"
    using Cons.prems by auto
  have "length (infer_bytes (resp_frame key nonce peer challenge req_id sc)) = 90 + length chunk"
    using length_infer_bytes infer_wire_len_ok chunk_frame_ok(1)[OF ok assms(2,3), of key peer req_id] length_sub_bytes[OF ok(1)]
    by (simp add: sc host_frame_def)
  then show ?case
    using Cons by (simp add: sc)
qed simp

lemma split_mock: "length resp = 1280 \<Longrightarrow> length (split_chunks resp dig 0 0) = 2"
  by (simp add: split_chunks.simps[of resp dig] Let_def)

lemma guest_receive_answer:
  fixes key :: bytes and req_id :: u64
  assumes "body \<noteq> []" "length body \<le> 8192" "length challenge = 16" "length nonce = 16"
  defines "expected \<equiv> fst (mock_infer body (replicate INFER_MOCK_RESP_LEN 0))"
  shows "guest_receive key nonce req_id challenge expected
    (concat (map infer_bytes (answer_frames key nonce challenge req_id body))) = Inr (1, 2, expected)"
proof -
  let ?fs = "answer_frames key nonce challenge req_id body"
  let ?st0 = "\<lparr>gx_asm = asm_new INFER_MOCK_RESP_LEN, gx_pending = 0, gx_chunks = 0, gx_body_len = 0, gx_last = []\<rparr>"
  define cs where "cs = split_chunks expected (body_digest expected) 0 0"
  have len: "length expected = 1280" "expected \<noteq> []"
    using mock_infer_ok[OF assms(1,2)] unfolding expected_def by (metis fst_conv, metis fst_conv list.size(3) zero_neq_numeral)
  define peer where "peer = (if take (length INFER_LOCAL_PROBE) body = INFER_LOCAL_PROBE then PEER_INFER_DAEMON else PEER_TB_VMM_HOST)"
  have fs: "?fs = pending_frame key nonce peer challenge req_id # map (resp_frame key nonce peer challenge req_id) cs"
    by (simp add: answer_frames_def cs_def expected_def peer_def Let_def)
  have ok: "\<forall>(sub, chunk)\<in>set cs. sub_ok sub \<and> chunk \<noteq> [] \<and> length chunk \<le> 1000"
    using split_chunks_sub_ok[of _ _ expected "body_digest expected"] len unfolding cs_def by auto
  have two: "length cs = 2"
    using split_mock len(1) by (simp add: cs_def)
  then have ne: "cs \<noteq> []"
    by auto
  have wc: "well_chunked 1280 expected cs"
    unfolding cs_def by (rule split_chunks_well_chunked) (use len in simp_all)
  note run = asm_run_well_chunked[OF wc]
  have "length (infer_bytes (pending_frame key nonce peer challenge req_id)) = 66"
    using length_infer_bytes[OF host_frame_ok] infer_wire_len_ok[OF host_frame_ok] assms(3,4) by (simp add: host_frame_def)
  then have rx: "length (concat (map infer_bytes ?fs)) = INFER_HEADER_LEN + infer_chunks_wire_len (length expected)"
    using length_resp_frames[OF ok assms(3,4), of key peer req_id] two wc len(1)
    by (simp add: fs well_chunked_def infer_chunks_wire_len_def infer_chunk_count_def infer_consts chunk_consts)
  obtain w where fold: "fold_frames (guest_window key nonce req_id challenge) ?st0 ?fs = Inr (?st0\<lparr>gx_pending := 1,
      gx_asm := fst (asm_run (asm_new 1280) cs), gx_chunks := 2, gx_body_len := 1280, gx_last := w\<rparr>)"
    using guest_assembles[OF ok assms(3,4), of "?st0\<lparr>gx_pending := 1\<rparr>" "length expected" key req_id peer] two ne run len(1)
      guest_window_pending[OF assms(3,4), of ?st0 key req_id peer]
    by (auto simp: fs INFER_MOCK_RESP_LEN_def)
  have all: "\<forall>(g, f)\<in>set (map (Pair []) ?fs). magic_lo \<notin> set g \<and> infer_ok f"
    using answer_frames_ok[OF assms(1-4)] by auto
  have cap: "INFER_ACCUM_CAP = 1090" "concat (map (\<lambda>(g, f). g @ infer_bytes f) (map (Pair []) ?fs)) = concat (map infer_bytes ?fs)"
    by (simp_all add: INFER_ACCUM_CAP_def infer_consts comp_def)
  obtain a' where "fa_inv 1090 a'" "fa_bytes a' = []" "reframe (guest_window key nonce req_id challenge) (fa_new 1090) ?st0 (concat (map infer_bytes ?fs)) =
      map_sum id (Pair a') (fold_frames (guest_window key nonce req_id challenge) ?st0 ?fs)"
    using reframe_stream[OF _ all, of 1090 "fa_new 1090" "guest_window key nonce req_id challenge" ?st0] unfolding cap(2)
    by (auto simp: fa_new_def fa_inv_def fa_bytes_def comp_def)
  then show ?thesis
    using fold rx run len(1) fa_empty_iff[of 1090 a']
    by (simp add: guest_receive_def cap(1) infer_chunk_count_def chunk_consts)
qed

section \<open>The host never fails\<close>

definition host_ok :: "infer_host \<Rightarrow> bool" where
  "host_ok h \<longleftrightarrow> length (ih_nonce h) = 16 \<and> (\<forall>fl. ih_inflight h = Some fl \<longrightarrow> length (fl_challenge fl) = 16)"

text \<open>What serving may change.\<close>

definition host_extends :: "infer_host \<Rightarrow> infer_host \<Rightarrow> bool" where
  "host_extends h h' \<longleftrightarrow> ih_key h' = ih_key h \<and> ih_nonce h' = ih_nonce h \<and> (\<exists>out. ih_outbuf h' = ih_outbuf h @ out)"

lemma host_extends_refl [simp]: "host_extends h h" "host_extends h (h\<lparr>ih_inflight := fl\<rparr>)"
  by (simp_all add: host_extends_def)

lemma host_extends_trans: "host_extends h h' \<Longrightarrow> host_extends h' h'' \<Longrightarrow> host_extends h h''"
  by (auto simp: host_extends_def)

lemma serve_echo_total:
  assumes "infer_ok f" "host_ok h"
  shows "\<exists>h'. serve_echo f h = Some h' \<and> host_ok h' \<and> host_extends h h'"
proof -
  have "infer_ok \<lparr>if_kind = INK_ECHO_RESP, if_req_id = if_req_id f, if_challenge = if_challenge f, if_nonce = ih_nonce h,
      if_peer_id = PEER_TB_VMM_HOST, if_tag = echo_tag (ih_key h) PEER_TB_VMM_HOST (ih_nonce h) (if_challenge f) (if_payload f),
      if_payload = if_payload f\<rparr>"
    using assms by (auto simp: infer_ok_def host_ok_def kind_known_def echo_tag_message)
  from wire_of_ok[OF this] show ?thesis
    using assms(2) by (simp add: serve_echo_def host_ok_def host_extends_def Let_def)
qed

lemma serve_infer_body_total:
  assumes "length challenge = 16" "host_ok h"
  shows "\<exists>h'. serve_infer_body challenge req_id body h = Some h' \<and> host_ok h' \<and> host_extends h h'"
proof -
  have n: "length (ih_nonce h) = 16"
    using assms(2) by (simp add: host_ok_def)
  consider (probe) "body = INFER_NOKEY_PROBE" | (bad) "body \<noteq> INFER_NOKEY_PROBE" "body = [] \<or> length body > 8192"
    | (ok) "body \<noteq> INFER_NOKEY_PROBE" "body \<noteq> []" "length body \<le> 8192"
    by force
  then show ?thesis
  proof cases
    case probe
    have "err_canon ERR_NO_KEY (replicate INFER_ERR_PAYLOAD_LEN 0) = (err_bytes ERR_NO_KEY, INFER_ERR_PAYLOAD_LEN)"
      by (simp add: err_canon_writes err_code_known_def INFER_ERR_PAYLOAD_LEN_def)
    moreover have "infer_ok (host_frame (ih_key h) (ih_nonce h) PEER_TB_VMM_HOST challenge req_id INK_ERR subhdr_empty (err_bytes ERR_NO_KEY) (err_bytes ERR_NO_KEY))"
      using assms(1) n by (intro host_frame_ok) (simp_all add: err_bytes_def)
    ultimately show ?thesis
      using probe assms(2) by (simp add: serve_infer_body_def m31_frame_def tagged_frame_host wire_of_ok host_ok_def host_extends_def)
  next
    case bad
    then have "mock_infer body (replicate INFER_MOCK_RESP_LEN 0) = (replicate INFER_MOCK_RESP_LEN 0, 0)"
      by (auto simp: mock_infer_def INFER_BODY_CAP_def)
    then show ?thesis
      using bad(1) assms(2) by (simp add: serve_infer_body_def Let_def)
  next
    case ok
    then show ?thesis
      using serve_infer_body_answers[OF ok(2,3,1) assms(1) n, of req_id] assms(2) by (auto simp: host_ok_def host_extends_def)
  qed
qed

lemma serve_infer_req_total:
  assumes "infer_ok f" "host_ok h"
  shows "\<exists>h'. serve_infer_req f h = Some h' \<and> host_ok h' \<and> host_extends h h'"
proof (cases "verify_infer_req (ih_key h) f")
  case None
  then show ?thesis
    using assms(2) by (simp add: serve_infer_req_def)
next
  case (Some sc)
  obtain sub chunk where sc: "sc = (sub, chunk)"
    by fastforce
  define fl where "fl = (if case ih_inflight h of None \<Rightarrow> True | Some fl \<Rightarrow> fl_req_id fl \<noteq> if_req_id f
    then \<lparr>fl_req_id = if_req_id f, fl_challenge = if_challenge f, fl_asm = asm_new INFER_BODY_CAP\<rparr> else the (ih_inflight h))"
  have len: "length (fl_challenge fl) = 16"
    using assms by (auto simp: fl_def infer_ok_def host_ok_def split: option.splits)
  obtain asm r where push: "push_chunk (fl_asm fl) sub chunk = (asm, r)"
    by fastforce
  have "host_ok (h\<lparr>ih_inflight := None\<rparr>)"
    using assms(2) by (simp add: host_ok_def)
  from serve_infer_body_total[OF len this, of "fl_req_id fl"] show ?thesis
    unfolding serve_infer_req_def Some sc option.case prod.case Let_def fl_def[symmetric] push using assms(2) len
    by (cases r) (auto simp: host_ok_def host_extends_def)
qed

section \<open>Properties\<close>

text \<open>
  C12: The inference exchange works end to end. The kernel builds its request for any admissible prompt;
  a host with the same key, an empty accumulator and nothing queued or in flight answers it; and
  the kernel's receive loop over the bytes the host queued authenticates every frame, sees one
  heartbeat and two chunks, and reassembles exactly the deterministic response to that prompt.
\<close>

theorem exchange_end_to_end:
  assumes "prompt \<noteq> []" "length prompt \<le> 1000" "prompt \<noteq> INFER_NOKEY_PROBE" "length challenge = 16"
    and "length (ih_nonce h) = 16" "ih_outbuf h = []" "ih_inflight h = None"
    and "length (fa_buf a) = INFER_ACCUM_CAP" "fa_len a = 0"
  defines "expected \<equiv> fst (mock_infer prompt (replicate INFER_MOCK_RESP_LEN 0))"
  shows "\<exists>w a' h'. guest_request (ih_key h) challenge req_id prompt = Some w \<and> push_guest_bytes w (a, h) = Some (a', h') \<and>
    guest_receive (ih_key h) (ih_nonce h) req_id challenge expected (fst (take_output (out_len h') h')) = Inr (1, 2, expected)"
proof -
  let ?f = "req_frame (ih_key h) challenge req_id (one_chunk prompt)"
  let ?out = "concat (map infer_bytes (answer_frames (ih_key h) (ih_nonce h) challenge req_id prompt))"
  note ok = one_chunk_ok[OF assms(1,2)]
  have cap: "INFER_ACCUM_CAP = 1090" "INFER_BODY_CAP = 8192"
    by (simp_all add: INFER_ACCUM_CAP_def infer_consts INFER_BODY_CAP_def)
  have a: "fa_inv 1090 a" "fa_bytes a = []"
    using assms(8,9) cap by (simp_all add: fa_inv_def fa_bytes_def)
  have f: "infer_ok ?f"
    using chunk_frame_ok(2)[OF ok(1) assms(2,4)] by (simp add: one_chunk_def)
  note run = asm_run_well_chunked[OF ok(2)]
  obtain line where body: "serve_infer_body challenge req_id prompt (h\<lparr>ih_inflight := None\<rparr>) =
      Some (h\<lparr>ih_inflight := None, ih_outbuf := ?out, ih_witness := ih_witness h @ [line]\<rparr>)"
    using serve_infer_body_answers[of prompt challenge "h\<lparr>ih_inflight := None\<rparr>" req_id] assms by auto
  have "fold_frames serve_window h [?f] = Inr (h\<lparr>ih_inflight := None, ih_outbuf := ?out, ih_witness := ih_witness h @ [line]\<rparr>)"
    using serve_requests[of "[one_chunk prompt]" challenge "asm_new INFER_BODY_CAP" "length prompt" h req_id] ok(1) assms run body
    by (simp add: one_chunk_def cap)
  then have sw: "serve_window h (infer_bytes ?f) = Inr (h\<lparr>ih_inflight := None, ih_outbuf := ?out, ih_witness := ih_witness h @ [line]\<rparr>)"
    by (simp split: sum.splits)
  obtain a' where "reframe serve_window a h (infer_bytes ?f) = map_sum id (Pair a') (serve_window h (infer_bytes ?f))"
    using reframe_frame[OF _ f a, of serve_window h] by auto
  with sw have "push_guest_bytes (infer_bytes ?f) (a, h) =
      Some (a', h\<lparr>ih_inflight := None, ih_outbuf := ?out, ih_witness := ih_witness h @ [line]\<rparr>)"
    by (simp add: push_guest_bytes_def)
  then show ?thesis
    using guest_request_frame[OF assms(1,2,4), of "ih_key h" req_id] guest_receive_answer[OF assms(1) _ assms(4,5), of "ih_key h" req_id] assms(2)
    by (auto simp: take_output_def out_len_def expected_def)
qed


section \<open>Witnesses\<close>

theorem exchange_end_to_end_witness:
  "\<exists>w a' h'. guest_request KAT_KEY (replicate 16 1) 9 [104, 105] = Some w \<and> push_guest_bytes w (with_key_nonce KAT_KEY (replicate 16 2)) = Some (a', h') \<and>
    guest_receive KAT_KEY (replicate 16 2) 9 (replicate 16 1) (fst (mock_infer [104, 105] (replicate INFER_MOCK_RESP_LEN 0)))
      (fst (take_output (out_len h') h')) = Inr (1, 2, fst (mock_infer [104, 105] (replicate INFER_MOCK_RESP_LEN 0)))"
proof -
  let ?h = "\<lparr>ih_key = KAT_KEY, ih_nonce = replicate 16 2, ih_outbuf = [], ih_inflight = None, ih_witness = [], ih_echoes = 0\<rparr>"
  have "length INFER_NOKEY_PROBE = 23"
    by (simp add: INFER_NOKEY_PROBE_def BRAND_def)
  then have "length INFER_NOKEY_PROBE \<noteq> length [104 :: u8, 105]"
    by simp
  then have "[104, 105] \<noteq> INFER_NOKEY_PROBE"
    by metis
  then show ?thesis
    using exchange_end_to_end[of "[104, 105]" "replicate 16 1" ?h "fa_new INFER_ACCUM_CAP" 9]
    by (simp add: with_key_nonce_def) (simp add: fa_new_def)
qed


end
