(* ===== verification/Blkfmt.thy ===== *)
theory Blkfmt
  imports Brand
begin

text \<open>
  The on-disk and request codecs of the durable store, \<open>crates/tb-encode/src/blkfmt.rs\<close>: the
  virtio-blk request header, the FNV-1a checksums, the fixed partition into one superblock and
  three log extents, the superblock sector, the record frame and the episode body. The sector
  buffers are byte lists of length 512; every codec is total.
\<close>

section \<open>Requests\<close>

definition T_IN :: u32 where "T_IN = 0"
definition T_OUT :: u32 where "T_OUT = 1"
definition T_FLUSH :: u32 where "T_FLUSH = 4"
definition S_OK :: u8 where "S_OK = 0"
definition S_IOERR :: u8 where "S_IOERR = 1"
definition S_UNSUPP :: u8 where "S_UNSUPP = 2"
definition REQ_HEADER_LEN :: nat where "REQ_HEADER_LEN = 16"

definition req_header_encode :: "u32 \<Rightarrow> u64 \<Rightarrow> bytes" where
  "req_header_encode req_type sector = (
     let out = replicate REQ_HEADER_LEN 0;
         out = put 0 (le_bytes 4 req_type) out
     in put 8 (le_bytes 8 sector) out)"

definition req_header_decode :: "bytes \<Rightarrow> u32 \<times> u64" where
  "req_header_decode bs = (of_le_bytes (slice bs 0 4), of_le_bytes (slice bs 8 8))"

definition req_type_is_known :: "u32 \<Rightarrow> bool" where
  "req_type_is_known t \<longleftrightarrow> t = T_IN \<or> t = T_OUT \<or> t = T_FLUSH"

definition status_decode :: "u8 \<Rightarrow> u8" where
  "status_decode b = (if b = S_OK then S_OK else if b = S_UNSUPP then S_UNSUPP else S_IOERR)"

section \<open>Checksums\<close>

definition FNV64_OFFSET :: u64 where "FNV64_OFFSET = 0xcbf29ce484222325"
definition FNV64_PRIME :: u64 where "FNV64_PRIME = 0x00000100000001b3"
definition FNV32_OFFSET :: u32 where "FNV32_OFFSET = 0x811c9dc5"
definition FNV32_PRIME :: u32 where "FNV32_PRIME = 0x01000193"

text \<open>The loop of both checksums, for the word length and the prime at hand.\<close>

fun fnv_loop :: "'a::len word \<Rightarrow> 'a word \<Rightarrow> bytes \<Rightarrow> 'a word" where
  "fnv_loop p h [] = h"
| "fnv_loop p h (b # bs) = fnv_loop p ((h XOR ucast b) * p) bs"

definition fnv1a64 :: "bytes \<Rightarrow> u64" where
  "fnv1a64 bs = fnv_loop FNV64_PRIME FNV64_OFFSET bs"

definition fnv1a32 :: "bytes \<Rightarrow> u32" where
  "fnv1a32 bs = fnv_loop FNV32_PRIME FNV32_OFFSET bs"

section \<open>Partition\<close>

definition SECTOR_SIZE :: u64 where "SECTOR_SIZE = 512"
definition SB_SECTOR :: u64 where "SB_SECTOR = 0"
definition EP_FIRST :: u64 where "EP_FIRST = 1"
definition EP_COUNT :: u64 where "EP_COUNT = 4095"
definition SEM_FIRST :: u64 where "SEM_FIRST = 4096"
definition SEM_COUNT :: u64 where "SEM_COUNT = 2048"
definition WM_FIRST :: u64 where "WM_FIRST = 6144"
definition WM_COUNT :: u64 where "WM_COUNT = 2048"
definition REGION_EPISODIC :: u8 where "REGION_EPISODIC = 0"
definition REGION_SEMANTIC :: u8 where "REGION_SEMANTIC = 1"
definition REGION_WORKING :: u8 where "REGION_WORKING = 2"

definition region_extent :: "u8 \<Rightarrow> (u64 \<times> u64) option" where
  "region_extent tag = (if tag = REGION_EPISODIC then Some (EP_FIRST, EP_COUNT)
     else if tag = REGION_SEMANTIC then Some (SEM_FIRST, SEM_COUNT)
     else if tag = REGION_WORKING then Some (WM_FIRST, WM_COUNT)
     else None)"

definition record_sector :: "u8 \<Rightarrow> u64 \<Rightarrow> u64 option" where
  "record_sector tag log_head = (case region_extent tag of
     None \<Rightarrow> None
   | Some (first, count) \<Rightarrow>
       let idx = log_head div SECTOR_SIZE in if idx \<ge> count then None else Some (first + idx))"

section \<open>Superblock\<close>

definition SB_VERSION :: u32 where "SB_VERSION = 1"
definition SB_CKSUM_OFF :: nat where "SB_CKSUM_OFF = 504"

text \<open>The three-element arrays are lists.\<close>

record superblock =
  sb_version :: u32
  sb_gen :: u64
  sb_log_head :: "u64 list"
  sb_record_count :: "u64 list"

definition superblock_encode :: "u64 \<Rightarrow> u64 list \<Rightarrow> u64 list \<Rightarrow> bytes" where
  "superblock_encode gen log_head record_count = (
     let s = replicate 512 0;
         s = put 0 SB_MAGIC s;
         s = put 8 (le_bytes 4 SB_VERSION) s;
         s = put 16 (le_bytes 8 gen) s;
         s = put 24 (le_bytes 8 (log_head ! 0)) s;
         s = put 32 (le_bytes 8 (log_head ! 1)) s;
         s = put 40 (le_bytes 8 (log_head ! 2)) s;
         s = put 48 (le_bytes 8 (record_count ! 0)) s;
         s = put 56 (le_bytes 8 (record_count ! 1)) s;
         s = put 64 (le_bytes 8 (record_count ! 2)) s;
         ck = fnv1a64 (slice s 0 SB_CKSUM_OFF)
     in put SB_CKSUM_OFF (le_bytes 8 ck) s)"

definition sb_rd_u64 :: "bytes \<Rightarrow> nat \<Rightarrow> u64" where
  "sb_rd_u64 s off = of_le_bytes (slice s off 8)"

definition superblock_decode :: "bytes \<Rightarrow> superblock option" where
  "superblock_decode s = (
     if slice s 0 8 \<noteq> SB_MAGIC then None
     else let version = of_le_bytes (slice s 8 4) in
       if version \<noteq> SB_VERSION then None
       else if fnv1a64 (slice s 0 SB_CKSUM_OFF) \<noteq> sb_rd_u64 s SB_CKSUM_OFF then None
       else Some \<lparr>sb_version = version, sb_gen = sb_rd_u64 s 16,
         sb_log_head = [sb_rd_u64 s 24, sb_rd_u64 s 32, sb_rd_u64 s 40],
         sb_record_count = [sb_rd_u64 s 48, sb_rd_u64 s 56, sb_rd_u64 s 64]\<rparr>)"

section \<open>Record frames\<close>

definition FRAME_HEADER_LEN :: nat where "FRAME_HEADER_LEN = 24"
definition EPISODE_LEN :: nat where "EPISODE_LEN = 48"
definition BLK_MAX_PAYLOAD :: nat where "BLK_MAX_PAYLOAD = unat SECTOR_SIZE - FRAME_HEADER_LEN"

record frame_header =
  fh_region_tag :: u8
  fh_len :: u16
  fh_seq :: u64
  fh_payload_crc :: u32

definition frame_header_encode :: "u8 \<Rightarrow> u16 \<Rightarrow> u64 \<Rightarrow> u32 \<Rightarrow> bytes" where
  "frame_header_encode tag len sq crc = (
     let h = replicate 24 0;
         h = h[0 := tag];
         h = put 2 (le_bytes 2 len) h;
         h = put 4 (le_bytes 8 sq) h
     in put 12 (le_bytes 4 crc) h)"

definition frame_header_decode :: "bytes \<Rightarrow> frame_header" where
  "frame_header_decode h = \<lparr>fh_region_tag = h ! 0, fh_len = of_le_bytes (slice h 2 2),
     fh_seq = of_le_bytes (slice h 4 8), fh_payload_crc = of_le_bytes (slice h 12 4)\<rparr>"

definition record_frame_encode :: "u8 \<Rightarrow> u64 \<Rightarrow> bytes \<Rightarrow> bytes \<Rightarrow> bytes \<times> bool" where
  "record_frame_encode tag sq payload out = (
     if length payload > BLK_MAX_PAYLOAD then (out, False)
     else let
       crc = fnv1a32 payload;
       hdr = frame_header_encode tag (of_nat (length payload)) sq crc;
       out = replicate 512 0;
       out = put 0 hdr out
     in (put FRAME_HEADER_LEN payload out, True))"

definition record_frame_decode :: "bytes \<Rightarrow> (frame_header \<times> nat) option" where
  "record_frame_decode sector = (
     let h = frame_header_decode (slice sector 0 FRAME_HEADER_LEN);
         len = unat (fh_len h)
     in if len > BLK_MAX_PAYLOAD then None
        else let start = FRAME_HEADER_LEN; crc = fnv1a32 (slice sector start len) in
          if crc \<noteq> fh_payload_crc h then None else Some (h, start))"

record episode_body =
  eb_id :: u64
  eb_content_tok :: u64
  eb_value :: u64
  eb_t_created :: u64
  eb_t_invalid :: u64
  eb_producing_task :: u32

definition episode_encode :: "episode_body \<Rightarrow> bytes" where
  "episode_encode e = (
     let b = replicate EPISODE_LEN 0;
         b = put 0 (le_bytes 8 (eb_id e)) b;
         b = put 8 (le_bytes 8 (eb_content_tok e)) b;
         b = put 16 (le_bytes 8 (eb_value e)) b;
         b = put 24 (le_bytes 8 (eb_t_created e)) b;
         b = put 32 (le_bytes 8 (eb_t_invalid e)) b
     in put 40 (le_bytes 4 (eb_producing_task e)) b)"

definition episode_decode :: "bytes \<Rightarrow> episode_body" where
  "episode_decode b = \<lparr>eb_id = of_le_bytes (slice b 0 8), eb_content_tok = of_le_bytes (slice b 8 8),
     eb_value = of_le_bytes (slice b 16 8), eb_t_created = of_le_bytes (slice b 24 8),
     eb_t_invalid = of_le_bytes (slice b 32 8), eb_producing_task = of_le_bytes (slice b 40 4)\<rparr>"

section \<open>The checksum notices a changed byte\<close>

text \<open>Multiplication by either prime is invertible, so the loop is injective in its state.\<close>

lemma invertible_cancel:
  fixes p i :: "'a::len word"
  assumes "p * i = 1"
  shows "x * p = y * p \<longleftrightarrow> x = y"
proof
  assume "x * p = y * p"
  then have "x * p * i = y * p * i"
    by simp
  then show "x = y"
    by (simp only: mult.assoc assms mult_1_right)
qed simp

lemma fnv_primes_invertible:
  "x * FNV64_PRIME = y * FNV64_PRIME \<longleftrightarrow> x = y"
  "u * FNV32_PRIME = v * FNV32_PRIME \<longleftrightarrow> u = v"
  by (rule invertible_cancel[of _ "0xce965057aff6957b"], simp add: FNV64_PRIME_def)
    (rule invertible_cancel[of _ "0x359c449b"], simp add: FNV32_PRIME_def)

lemma fnv_loop_append: "fnv_loop p h (xs @ ys) = fnv_loop p (fnv_loop p h xs) ys"
  by (induction xs arbitrary: h) auto

lemma xor_left_cancel: "(h XOR a) = (h XOR b) \<longleftrightarrow> a = b" for h :: "'a::len word"
  by (metis xor.left_commute xor.right_neutral xor_self_eq)

lemma xor_right_cancel: "(a XOR h) = (b XOR h) \<longleftrightarrow> a = b" for h :: "'a::len word"
  unfolding xor.commute[of _ h] by (rule xor_left_cancel)

lemma fnv_loop_state:
  "fnv_loop FNV64_PRIME h bs = fnv_loop FNV64_PRIME h' bs \<longleftrightarrow> h = h'"
  "fnv_loop FNV32_PRIME k bs = fnv_loop FNV32_PRIME k' bs \<longleftrightarrow> k = k'"
  by (induction bs arbitrary: h h' k k') (simp_all add: fnv_primes_invertible xor_right_cancel)

lemma ucast_byte_inject:
  assumes "8 \<le> LENGTH('a::len)"
  shows "(ucast (b :: u8) :: 'a word) = ucast c \<longleftrightarrow> b = c"
proof -
  have "unat (ucast x :: 'a word) = unat x" for x :: u8
  proof -
    have "unat x < 2 ^ 8" "(2 :: nat) ^ 8 \<le> 2 ^ LENGTH('a)"
      using unsigned_less[of x] power_increasing[OF assms, of "2 :: nat"] by simp_all
    then show ?thesis
      by (simp add: unsigned_ucast_eq take_bit_nat_eq_self)
  qed
  then show ?thesis
    by (metis word_unat_eq_iff)
qed

lemma fnv_one_byte:
  "fnv1a64 (xs @ b # ys) = fnv1a64 (xs @ c # ys) \<longleftrightarrow> b = c"
  "fnv1a32 (xs @ b # ys) = fnv1a32 (xs @ c # ys) \<longleftrightarrow> b = c"
  by (simp_all add: fnv1a64_def fnv1a32_def fnv_loop_append fnv_loop_state fnv_primes_invertible
      xor_left_cancel ucast_byte_inject)

section \<open>The sectors\<close>

lemma put_replicate: "0 < off \<Longrightarrow> off \<le> n \<Longrightarrow> put off xs (replicate n v) = replicate off v @ xs @ replicate (n - (off + length xs)) v"
  by (simp add: put_def)

text \<open>A superblock sector in canonical form.\<close>

definition sb_body :: "u64 \<Rightarrow> u64 list \<Rightarrow> u64 list \<Rightarrow> bytes" where
  "sb_body gen lh rc = SB_MAGIC @ le_bytes 4 SB_VERSION @ replicate 4 0 @ le_bytes 8 gen @
     le_bytes 8 (lh ! 0) @ le_bytes 8 (lh ! 1) @ le_bytes 8 (lh ! 2) @
     le_bytes 8 (rc ! 0) @ le_bytes 8 (rc ! 1) @ le_bytes 8 (rc ! 2) @ replicate 432 0"

lemma length_SB_MAGIC [simp]: "length SB_MAGIC = 8"
  by (simp add: SB_MAGIC_def BRAND_def)

lemma length_sb_body [simp]: "length (sb_body gen lh rc) = 504"
  by (simp add: sb_body_def)

lemma superblock_encode_bytes: "superblock_encode gen lh rc = sb_body gen lh rc @ le_bytes 8 (fnv1a64 (sb_body gen lh rc))"
  by (simp add: superblock_encode_def sb_body_def Let_def SB_CKSUM_OFF_def buffer_simps put_replicate)
    (simp add: slice_def)

lemma superblock_roundtrip:
  assumes "length lh = 3" "length rc = 3"
  shows "superblock_decode (superblock_encode gen lh rc) =
    Some \<lparr>sb_version = SB_VERSION, sb_gen = gen, sb_log_head = lh, sb_record_count = rc\<rparr>"
proof -
  have l: "[lh ! 0, lh ! Suc 0, lh ! 2] = lh" "[rc ! 0, rc ! Suc 0, rc ! 2] = rc"
    using assms by (simp_all add: list_eq_iff_nth_eq less_Suc_eq numeral_3_eq_3 numeral_2_eq_2)
  have ck: "slice (superblock_encode gen lh rc) 0 504 = sb_body gen lh rc" "slice (superblock_encode gen lh rc) 504 8 = le_bytes 8 (fnv1a64 (sb_body gen lh rc))"
    by (simp_all add: superblock_encode_bytes buffer_simps)
  have f: "slice (superblock_encode gen lh rc) i n = slice (sb_body gen lh rc) i n" if "i + n \<le> 504" for i n
    using that by (simp add: superblock_encode_bytes buffer_simps)
  show ?thesis
    by (simp add: superblock_decode_def Let_def SB_CKSUM_OFF_def sb_rd_u64_def ck f l)
      (simp add: sb_body_def buffer_simps l)
qed

text \<open>A record sector in canonical form.\<close>

definition frame_hdr :: "u8 \<Rightarrow> u64 \<Rightarrow> bytes \<Rightarrow> bytes" where
  "frame_hdr tag sq payload = [tag, 0] @ le_bytes 2 (of_nat (length payload) :: u16) @ le_bytes 8 sq @
     le_bytes 4 (fnv1a32 payload) @ replicate 8 0"

definition frame_sector :: "u8 \<Rightarrow> u64 \<Rightarrow> bytes \<Rightarrow> bytes" where
  "frame_sector tag sq payload = frame_hdr tag sq payload @ payload @ replicate (488 - length payload) 0"

lemma blk_consts: "FRAME_HEADER_LEN = 24" "BLK_MAX_PAYLOAD = 488"
  by (simp_all add: FRAME_HEADER_LEN_def BLK_MAX_PAYLOAD_def SECTOR_SIZE_def)

lemma length_frame_hdr [simp]: "length (frame_hdr tag sq payload) = 24"
  by (simp add: frame_hdr_def)

lemma frame_header_encode_bytes: "frame_header_encode tag (of_nat (length payload)) sq (fnv1a32 payload) = frame_hdr tag sq payload"
  by (simp add: frame_header_encode_def frame_hdr_def Let_def list_update_append numeral_eq_Suc buffer_simps put_replicate)

lemma record_frame_encode_bytes:
  "record_frame_encode tag sq payload out = (if length payload \<le> 488 then (frame_sector tag sq payload, True) else (out, False))"
  by (simp add: record_frame_encode_def frame_sector_def frame_header_encode_bytes Let_def blk_consts buffer_simps)

lemma frame_header_decode_hdr:
  "frame_header_decode (frame_hdr tag sq payload) = \<lparr>fh_region_tag = tag, fh_len = of_nat (length payload), fh_seq = sq, fh_payload_crc = fnv1a32 payload\<rparr>"
  by (simp add: frame_header_decode_def frame_hdr_def buffer_simps)

lemma unat_u16_len: "length payload \<le> 488 \<Longrightarrow> unat (of_nat (length payload) :: u16) = length payload"
  by (simp add: unat_of_nat)

lemma record_frame_roundtrip:
  assumes "length payload \<le> 488"
  shows "record_frame_decode (frame_sector tag sq payload) =
      Some (\<lparr>fh_region_tag = tag, fh_len = of_nat (length payload), fh_seq = sq, fh_payload_crc = fnv1a32 payload\<rparr>, 24)"
    "slice (frame_sector tag sq payload) 24 (length payload) = payload" "length (frame_sector tag sq payload) = 512"
  using assms
  by (simp_all add: record_frame_decode_def frame_sector_def blk_consts buffer_simps frame_header_decode_hdr unat_u16_len Let_def)

lemma fnv_update:
  "i < length bs \<Longrightarrow> fnv1a64 (bs[i := b]) = fnv1a64 bs \<longleftrightarrow> b = bs ! i"
  "i < length bs \<Longrightarrow> fnv1a32 (bs[i := b]) = fnv1a32 bs \<longleftrightarrow> b = bs ! i"
  by (metis fnv_one_byte(1) id_take_nth_drop upd_conv_take_nth_drop) (metis fnv_one_byte(2) id_take_nth_drop upd_conv_take_nth_drop)

lemma slice_update:
  "i < j \<or> j + n \<le> i \<Longrightarrow> slice (bs[i := b]) j n = slice bs j n"
  "j \<le> i \<Longrightarrow> slice (bs[i := b]) j n = (slice bs j n)[i - j := b]"
  by (auto simp: slice_def drop_update_swap take_update_swap) (rule list_update_beyond, simp)

text \<open>Any one changed byte of a superblock, and any one changed byte of a payload or its checksum, is noticed.\<close>

lemma superblock_one_byte:
  assumes "i < 512" "b \<noteq> superblock_encode gen lh rc ! i"
  shows "superblock_decode ((superblock_encode gen lh rc)[i := b]) = None"
proof -
  let ?s = "superblock_encode gen lh rc" and ?body = "sb_body gen lh rc"
  have len: "length ?s = 512"
    by (simp add: superblock_encode_bytes)
  have parts: "slice ?s 0 504 = ?body" "slice ?s 504 8 = le_bytes 8 (fnv1a64 ?body)"
    by (simp_all add: superblock_encode_bytes buffer_simps)
  have "fnv1a64 (slice (?s[i := b]) 0 504) \<noteq> of_le_bytes (slice (?s[i := b]) 504 8)"
  proof (cases "i < 504")
    case True
    then have "?body ! i = ?s ! i"
      by (simp add: superblock_encode_bytes nth_append)
    with True assms show ?thesis
      by (simp add: slice_update parts fnv_update)
  next
    case False
    define ck where "ck = (le_bytes 8 (fnv1a64 ?body))[i - 504 := b]"
    have "le_bytes 8 (fnv1a64 ?body) ! (i - 504) = ?s ! i"
      using False by (simp add: superblock_encode_bytes nth_append)
    moreover have "ck ! (i - 504) = b"
      using False assms(1) by (simp add: ck_def)
    ultimately have "ck \<noteq> le_bytes 8 (fnv1a64 ?body)"
      using assms(2) by metis
    moreover have "le_bytes 8 (of_le_bytes ck :: u64) = ck"
      by (simp add: ck_def)
    ultimately have "of_le_bytes ck \<noteq> fnv1a64 ?body"
      by metis
    with False show ?thesis
      by (simp add: slice_update parts ck_def)
  qed
  then show ?thesis
    by (simp add: superblock_decode_def SB_CKSUM_OFF_def sb_rd_u64_def Let_def)
qed

lemma le_word_one_byte:
  fixes w :: "'a::len word"
  assumes "LENGTH('a) = 8 * n" "i < n" "b \<noteq> le_bytes n w ! i"
  shows "of_le_bytes ((le_bytes n w)[i := b]) \<noteq> w"
proof
  assume "of_le_bytes ((le_bytes n w)[i := b]) = w"
  then have "le_bytes n w = (le_bytes n w)[i := b]"
    using le_bytes_of_le_bytes[of "(le_bytes n w)[i := b]" n, where 'a = 'a] assms(1) by simp
  then show False
    using assms(2,3) by (metis length_le_bytes nth_list_update_eq)
qed

lemma record_frame_one_byte:
  assumes "length payload \<le> 488" "12 \<le> i \<and> i < 16 \<or> 24 \<le> i \<and> i < 24 + length payload" "b \<noteq> frame_sector tag sq payload ! i"
  shows "record_frame_decode ((frame_sector tag sq payload)[i := b]) = None"
proof -
  let ?s = "frame_sector tag sq payload"
  have len: "slice (?s[i := b]) 0 24 ! j = ?s[i := b] ! j" if "j < 24" for j
    using that by (simp add: slice_def)
  have s: "slice ?s 2 2 = le_bytes 2 (of_nat (length payload) :: u16)" "slice ?s 12 4 = le_bytes 4 (fnv1a32 payload)"
    "slice ?s 24 (length payload) = payload"
    using assms(1) by (simp_all add: frame_sector_def frame_hdr_def buffer_simps)
  have sub: "slice (slice xs 0 24) j n = slice xs j n" if "j + n \<le> 24" for xs :: bytes and j n
    using that by (simp add: slice_def take_drop min_def)
  have "slice (?s[i := b]) 2 2 = le_bytes 2 (of_nat (length payload) :: u16)"
    using assms(2) s(1) by (subst slice_update(1)) auto
  moreover have "fnv1a32 (slice (?s[i := b]) 24 (length payload)) \<noteq> of_le_bytes (slice (?s[i := b]) 12 4)"
  proof (cases "i < 24")
    case True
    then have i: "12 \<le> i" "i < 16"
      using assms(2) by auto
    have "le_bytes 4 (fnv1a32 payload) ! (i - 12) = slice ?s 12 4 ! (i - 12)"
      by (simp add: s)
    also have "\<dots> = ?s ! i"
      using i record_frame_roundtrip(3)[OF assms(1), of tag sq] by (simp add: slice_def)
    finally have "of_le_bytes ((le_bytes 4 (fnv1a32 payload))[i - 12 := b]) \<noteq> fnv1a32 payload"
      using i assms(3) by (intro le_word_one_byte) auto
    then show ?thesis
      using i by (simp add: slice_update s)
  next
    case False
    then have i: "24 \<le> i" "i - 24 < length payload"
      using assms(2) by auto
    then have "?s ! i = payload ! (i - 24)"
      by (simp add: frame_sector_def nth_append)
    then show ?thesis
      using i assms(3) by (simp add: slice_update s fnv_update)
  qed
  ultimately show ?thesis
    using assms(1)
    by (simp add: record_frame_decode_def frame_header_decode_def blk_consts sub Let_def unat_u16_len)
qed

section \<open>Properties\<close>

text \<open>
  The store's sectors are self-checking. A superblock decodes to exactly the generation and
  watermarks it was written with, and no superblock with one byte changed decodes. A payload that
  fits is framed so that decoding gives its region, sequence number and bytes back, a payload that
  does not fit is refused with the buffer untouched, and a frame with one byte of its payload or of
  its stored checksum changed is refused.
\<close>

theorem disk_sectors_integrity:
  assumes "length lh = 3" "length rc = 3" "i < 512" "b \<noteq> superblock_encode gen lh rc ! i"
  shows "superblock_decode (superblock_encode gen lh rc) = Some \<lparr>sb_version = SB_VERSION, sb_gen = gen, sb_log_head = lh, sb_record_count = rc\<rparr> \<and>
    superblock_decode ((superblock_encode gen lh rc)[i := b]) = None \<and>
    (case record_frame_encode tag sq payload out of
       (sector, False) \<Rightarrow> sector = out \<and> length payload > 488
     | (sector, True) \<Rightarrow> length payload \<le> 488 \<and> length sector = 512 \<and>
         (\<exists>h. record_frame_decode sector = Some (h, 24) \<and> fh_region_tag h = tag \<and> fh_seq h = sq \<and>
            slice sector 24 (unat (fh_len h)) = payload) \<and>
         (\<forall>j c. (12 \<le> j \<and> j < 16 \<or> 24 \<le> j \<and> j < 24 + length payload) \<and> c \<noteq> sector ! j \<longrightarrow> record_frame_decode (sector[j := c]) = None))"
  using superblock_roundtrip[OF assms(1,2)] superblock_one_byte[OF assms(3,4)] record_frame_one_byte[of payload _ _ tag sq]
    record_frame_roundtrip[of payload tag sq] unat_u16_len[of payload]
  by (auto simp: record_frame_encode_bytes)

section \<open>Witnesses\<close>

theorem disk_sectors_integrity_witness:
  "superblock_decode (superblock_encode 3 [512, 0, 0] [1, 0, 0]) = Some \<lparr>sb_version = 1, sb_gen = 3, sb_log_head = [512, 0, 0], sb_record_count = [1, 0, 0]\<rparr> \<and>
   superblock_decode ((superblock_encode 3 [512, 0, 0] [1, 0, 0])[0 := 7]) = None \<and>
   record_frame_decode (fst (record_frame_encode 0 5 [1, 2] [])) \<noteq> None"
proof -
  have "superblock_encode 3 [512, 0, 0] [1, 0, 0] ! 0 = 89"
    by (simp add: superblock_encode_bytes sb_body_def SB_MAGIC_def as_bytes_def BRAND_def of_char_def)
  then have "(7 :: u8) \<noteq> superblock_encode 3 [512, 0, 0] [1, 0, 0] ! 0"
    by simp
  from disk_sectors_integrity[OF _ _ _ this, where tag = 0 and sq = 5 and payload = "[1, 2]" and out = "[]"] show ?thesis
    by (auto simp: SB_VERSION_def split: prod.splits bool.splits)
qed

end
