(* ===== verification/Blk_Store.thy ===== *)
theory Blk_Store
  imports Blkfmt
begin

text \<open>
  The durable storage engine, \<open>crates/tb-hal/src/mem/engine.rs\<close>: the \<open>BackingStore\<close> contract, the
  RAM store and the log-structured virtio-blk store with its two-phase commit. The device driver
  (\<open>arch::blk_read\<close>, \<open>blk_write\<close>, \<open>blk_flush\<close>) is a parameter, a record of operations that thread the device
  state and may fail; the slot number that selects the device is the device argument itself.
  Arrays of three, one entry per region, are lists. A fallible call is a sum with the error on the left.
\<close>

record 'd blk_ops =
  blk_read :: "'d \<Rightarrow> u64 \<Rightarrow> 'd \<times> bytes option"
  blk_write :: "'d \<Rightarrow> u64 \<Rightarrow> bytes \<Rightarrow> 'd \<times> bool"
  blk_flush :: "'d \<Rightarrow> 'd \<times> bool"

datatype region = Episodic | Semantic | Working

datatype mem_err = Full | NotFound | Io

section \<open>The RAM store\<close>

record ram_store =
  rs_ep :: bytes
  rs_sem :: bytes
  rs_wm :: bytes
  rs_epoch :: u64

fun ram_buf :: "ram_store \<Rightarrow> region \<Rightarrow> bytes" where
  "ram_buf st Episodic = rs_ep st"
| "ram_buf st Semantic = rs_sem st"
| "ram_buf st Working = rs_wm st"

fun ram_set :: "ram_store \<Rightarrow> region \<Rightarrow> bytes \<Rightarrow> ram_store" where
  "ram_set st Episodic bs = st\<lparr>rs_ep := bs\<rparr>"
| "ram_set st Semantic bs = st\<lparr>rs_sem := bs\<rparr>"
| "ram_set st Working bs = st\<lparr>rs_wm := bs\<rparr>"

definition ram_append :: "ram_store \<Rightarrow> region \<Rightarrow> bytes \<Rightarrow> ram_store \<times> (mem_err + u64)" where
  "ram_append st region bs = (
     let buf = ram_buf st region; off = of_nat (length buf);
         st = ram_set st region (buf @ bs)
     in (st\<lparr>rs_epoch := rs_epoch st + 1\<rparr>, Inr off))"

definition ram_read_at :: "ram_store \<Rightarrow> region \<Rightarrow> u64 \<Rightarrow> bytes \<Rightarrow> bytes \<times> (mem_err + nat)" where
  "ram_read_at st region off buf = (
     let src = ram_buf st region; start = unat off in
       if start > length src then (buf, Inl NotFound)
       else let n = min (length buf) (length src - start) in (put 0 (slice src start n) buf, Inr n))"

definition ram_flush :: "ram_store \<Rightarrow> ram_store \<times> (mem_err + unit)" where
  "ram_flush st = (st, Inr ())"

definition ram_epoch :: "ram_store \<Rightarrow> u64" where
  "ram_epoch st = rs_epoch st"

section \<open>The virtio-blk store\<close>

fun region_tag :: "region \<Rightarrow> u8" where
  "region_tag Episodic = REGION_EPISODIC"
| "region_tag Semantic = REGION_SEMANTIC"
| "region_tag Working = REGION_WORKING"

fun region_index :: "region \<Rightarrow> nat" where
  "region_index Episodic = 0"
| "region_index Semantic = 1"
| "region_index Working = 2"

record virtio_blk_store =
  vs_gen :: u64
  vs_log_head :: "u64 list"
  vs_record_count :: "u64 list"
  vs_seq :: "u64 list"
  vs_staged :: "bytes list list"
  vs_image :: "bytes list"
  vs_appends :: u64

definition vs_new :: virtio_blk_store where
  "vs_new = \<lparr>vs_gen = 0, vs_log_head = [0, 0, 0], vs_record_count = [0, 0, 0], vs_seq = [0, 0, 0],
     vs_staged = [[], [], []], vs_image = [[], [], []], vs_appends = 0\<rparr>"

lemma unat_inc: "i < n \<Longrightarrow> unat (i + 1) = Suc (unat i)" for i n :: "'a::len word"
proof -
  assume "i < n"
  then have "Suc (unat i) \<le> unat n"
    by (simp add: word_less_nat_alt)
  also have "\<dots> < 2 ^ LENGTH('a)"
    by (rule unsigned_less)
  finally show ?thesis
    by (simp add: unat_word_ariths)
qed

text \<open>The replay loop of one region: the last sequence number seen and the image read so far.\<close>

function replay_region :: "'d blk_ops \<Rightarrow> u8 \<Rightarrow> u64 \<Rightarrow> u64 \<Rightarrow> u64 option \<Rightarrow> bytes \<Rightarrow> 'd \<Rightarrow> 'd \<times> (mem_err + (u64 option \<times> bytes))" where
  "replay_region ops tag count i last_seq img d = (
     if i < count then
       (case record_sector tag (i * SECTOR_SIZE) of
          None \<Rightarrow> (d, Inr (last_seq, img))
        | Some sector \<Rightarrow>
            (case blk_read ops d sector of
               (d, None) \<Rightarrow> (d, Inl Io)
             | (d, Some sec) \<Rightarrow>
                 (case record_frame_decode sec of
                    None \<Rightarrow> (d, Inr (last_seq, img))
                  | Some (h, off) \<Rightarrow>
                      if (case last_seq of Some p \<Rightarrow> fh_seq h \<le> p | None \<Rightarrow> False) then (d, Inr (last_seq, img))
                      else replay_region ops tag count (i + 1) (Some (fh_seq h)) (img @ slice sec off (unat (fh_len h))) d)))
     else (d, Inr (last_seq, img)))"
  by pat_completeness auto
termination
proof (relation "measure (\<lambda>(_, _, count, i, _). unat count - unat i)")
  show "((ops, tag, count, i + 1, l', img', d'), (ops, tag, count, i, l, img, d)) \<in> measure (\<lambda>(_, _, count, i, _). unat count - unat i)"
    if "i < count" for ops :: "'d blk_ops" and tag :: u8 and count i :: u64 and l l' :: "u64 option" and img img' :: bytes and d d'
    using that unat_inc[OF that] by (simp add: word_less_nat_alt)
qed auto

declare replay_region.simps [simp del]

text \<open>A failed replay abandons the store, so only the device state is returned with the error.\<close>

fun replay_regions :: "'d blk_ops \<Rightarrow> nat list \<Rightarrow> virtio_blk_store \<Rightarrow> 'd \<Rightarrow> 'd \<times> (mem_err + virtio_blk_store)" where
  "replay_regions ops [] st d = (d, Inr st)"
| "replay_regions ops (r # rs) st d =
     (case replay_region ops (of_nat r) (vs_record_count st ! r) 0 None (vs_image st ! r) d of
        (d, Inl e) \<Rightarrow> (d, Inl e)
      | (d, Inr (last_seq, img)) \<Rightarrow>
          replay_regions ops rs (st\<lparr>vs_image := (vs_image st)[r := img],
            vs_seq := (vs_seq st)[r := (case last_seq of Some x \<Rightarrow> x + 1 | None \<Rightarrow> 0)]\<rparr>) d)"

definition write_superblock :: "'d blk_ops \<Rightarrow> u64 \<Rightarrow> virtio_blk_store \<Rightarrow> 'd \<Rightarrow> 'd \<times> virtio_blk_store \<times> (mem_err + unit)" where
  "write_superblock ops gen st d =
     (case blk_write ops d SB_SECTOR (superblock_encode gen (vs_log_head st) (vs_record_count st)) of
        (d, False) \<Rightarrow> (d, st, Inl Io)
      | (d, True) \<Rightarrow> (case blk_flush ops d of
          (d, False) \<Rightarrow> (d, st, Inl Io)
        | (d, True) \<Rightarrow> (d, st\<lparr>vs_gen := gen\<rparr>, Inr ())))"

definition mount :: "'d blk_ops \<Rightarrow> 'd \<Rightarrow> 'd \<times> (mem_err + virtio_blk_store)" where
  "mount ops d = (case blk_read ops d SB_SECTOR of
     (d, None) \<Rightarrow> (d, Inl Io)
   | (d, Some sec) \<Rightarrow> (case superblock_decode sec of
       Some sb \<Rightarrow> replay_regions ops [0, 1, 2] (vs_new\<lparr>vs_gen := sb_gen sb, vs_log_head := sb_log_head sb,
         vs_record_count := sb_record_count sb\<rparr>) d
     | None \<Rightarrow> (case write_superblock ops 0 vs_new d of
         (d, _, Inl e) \<Rightarrow> (d, Inl e)
       | (d, st, Inr _) \<Rightarrow> (d, Inr st))))"

definition vs_append :: "virtio_blk_store \<Rightarrow> region \<Rightarrow> bytes \<Rightarrow> virtio_blk_store \<times> (mem_err + u64)" where
  "vs_append st region bs = (
     let r = region_index region in
       if length bs > BLK_MAX_PAYLOAD then (st, Inl Full)
       else let next_sector_idx = vs_record_count st ! r + of_nat (length (vs_staged st ! r)) in
         case region_extent (region_tag region) of
           None \<Rightarrow> (st, Inl Io)
         | Some (_, count) \<Rightarrow>
             if next_sector_idx \<ge> count then (st, Inl Full)
             else let off = of_nat (length (vs_image st ! r)) + sum_list (map (of_nat \<circ> length) (vs_staged st ! r)) in
               (st\<lparr>vs_staged := (vs_staged st)[r := vs_staged st ! r @ [bs]], vs_appends := vs_appends st + 1\<rparr>, Inr off))"

fun staged_byte :: "nat \<Rightarrow> bytes list \<Rightarrow> u8" where
  "staged_byte rem [] = 0"
| "staged_byte rem (v # vs) = (if rem < length v then v ! rem else staged_byte (rem - length v) vs)"

function read_loop :: "bytes \<Rightarrow> bytes list \<Rightarrow> nat \<Rightarrow> nat \<Rightarrow> nat \<Rightarrow> bytes \<Rightarrow> bytes \<times> nat" where
  "read_loop img staged tot pos written buf = (
     if written < length buf \<and> pos < tot then
       let byte = (if pos < length img then img ! pos else staged_byte (pos - length img) staged)
       in read_loop img staged tot (pos + 1) (written + 1) (buf[written := byte])
     else (buf, written))"
  by pat_completeness auto
termination
  by (relation "measure (\<lambda>(_, _, _, _, written, buf). length buf - written)") auto

declare read_loop.simps [simp del]

definition vs_read_at :: "virtio_blk_store \<Rightarrow> region \<Rightarrow> u64 \<Rightarrow> bytes \<Rightarrow> bytes \<times> (mem_err + nat)" where
  "vs_read_at st region off buf = (
     let r = region_index region; start = unat off; img_len = length (vs_image st ! r);
         staged_len = sum_list (map length (vs_staged st ! r)); tot = img_len + staged_len
     in if start > tot then (buf, Inl NotFound)
        else case read_loop (vs_image st ! r) (vs_staged st ! r) tot start 0 buf of (buf, written) \<Rightarrow> (buf, Inr written))"

text \<open>
  Phase 1 of the commit, for the staged payloads of one region. The sector buffer is shared by all
  frames in the code; \<open>record_frame_encode\<close> overwrites all of it, so each frame is encoded into a fresh one here.
\<close>

fun write_frames :: "'d blk_ops \<Rightarrow> u8 \<Rightarrow> u64 \<Rightarrow> u64 \<Rightarrow> bytes list \<Rightarrow> 'd \<Rightarrow> 'd \<times> u64 \<times> (mem_err + unit)" where
  "write_frames ops tag idx sq [] d = (d, sq, Inr ())"
| "write_frames ops tag idx sq (p # ps) d =
     (case record_sector tag (idx * SECTOR_SIZE) of
        None \<Rightarrow> (d, sq, Inl Full)
      | Some sector \<Rightarrow>
          (case record_frame_encode tag sq p (replicate 512 0) of
             (_, False) \<Rightarrow> (d, sq, Inl Io)
           | (sec, True) \<Rightarrow>
               (case blk_write ops d sector sec of
                  (d, False) \<Rightarrow> (d, sq, Inl Io)
                | (d, True) \<Rightarrow> write_frames ops tag (idx + 1) (sq + 1) ps d)))"

fun write_regions :: "'d blk_ops \<Rightarrow> nat list \<Rightarrow> virtio_blk_store \<Rightarrow> 'd \<Rightarrow> 'd \<times> virtio_blk_store \<times> (mem_err + unit)" where
  "write_regions ops [] st d = (d, st, Inr ())"
| "write_regions ops (r # rs) st d =
     (case write_frames ops (of_nat r) (vs_record_count st ! r) (vs_seq st ! r) (vs_staged st ! r) d of
        (d, sq, res) \<Rightarrow>
          let st = st\<lparr>vs_seq := (vs_seq st)[r := sq]\<rparr> in
            (case res of Inl e \<Rightarrow> (d, st, Inl e) | Inr _ \<Rightarrow> write_regions ops rs st d))"

fun fold_payloads :: "nat \<Rightarrow> bytes list \<Rightarrow> virtio_blk_store \<Rightarrow> virtio_blk_store" where
  "fold_payloads r [] st = st"
| "fold_payloads r (p # ps) st = fold_payloads r ps (st\<lparr>vs_image := (vs_image st)[r := vs_image st ! r @ p],
     vs_record_count := (vs_record_count st)[r := vs_record_count st ! r + 1],
     vs_log_head := (vs_log_head st)[r := vs_log_head st ! r + SECTOR_SIZE]\<rparr>)"

fun fold_regions :: "nat list \<Rightarrow> virtio_blk_store \<Rightarrow> virtio_blk_store" where
  "fold_regions [] st = st"
| "fold_regions (r # rs) st = fold_regions rs (fold_payloads r (vs_staged st ! r) (st\<lparr>vs_staged := (vs_staged st)[r := []]\<rparr>))"

definition vs_flush :: "'d blk_ops \<Rightarrow> virtio_blk_store \<Rightarrow> 'd \<Rightarrow> 'd \<times> virtio_blk_store \<times> (mem_err + unit)" where
  "vs_flush ops st d =
     (case write_regions ops [0, 1, 2] st d of
        (d, st, Inl e) \<Rightarrow> (d, st, Inl e)
      | (d, st, Inr _) \<Rightarrow> (case blk_flush ops d of
          (d, False) \<Rightarrow> (d, st, Inl Io)
        | (d, True) \<Rightarrow>
            let st = fold_regions [0, 1, 2] st; next_gen = vs_gen st + 1
            in write_superblock ops next_gen st d))"

definition vs_epoch :: "virtio_blk_store \<Rightarrow> u64" where
  "vs_epoch st = push_bit 32 (vs_gen st) OR (vs_appends st AND 0xFFFFFFFF)"

section \<open>The persistence self-test\<close>

datatype persist_proof = PersistAbsent | PersistLegacyUnsupported | PersistProven u64 u64 u64 | PersistFailed u32

definition PERSIST_SENTINELS :: u64 where "PERSIST_SENTINELS = 3"

text \<open>The append loop from identifier \<open>n\<close>, with \<open>k\<close> rounds left, and the read-back loop over the identifiers.\<close>

fun append_sentinels :: "nat \<Rightarrow> u64 \<Rightarrow> virtio_blk_store \<Rightarrow> virtio_blk_store option" where
  "append_sentinels 0 n st = Some st"
| "append_sentinels (Suc k) n st = (case vs_append st Episodic (le_bytes 8 n) of
     (_, Inl _) \<Rightarrow> None
   | (st, Inr _) \<Rightarrow> append_sentinels k (n + 1) st)"

fun check_sentinels :: "nat \<Rightarrow> u64 list \<Rightarrow> virtio_blk_store \<Rightarrow> bool" where
  "check_sentinels k [] st = True"
| "check_sentinels k (i # ids) st = (case vs_read_at st Episodic (of_nat (k * 8)) (replicate 8 0) of
     (got, Inl _) \<Rightarrow> False
   | (got, Inr n) \<Rightarrow> n = 8 \<and> of_le_bytes got = i \<and> check_sentinels (k + 1) ids st)"

text \<open>\<open>probed\<close> and \<open>legacy\<close> are the outcomes of \<open>blk_probe\<close> and \<open>blk_saw_legacy\<close>.\<close>

definition persist_selftest :: "'d blk_ops \<Rightarrow> bool \<Rightarrow> bool \<Rightarrow> 'd \<Rightarrow> 'd \<times> persist_proof" where
  "persist_selftest ops probed legacy d = (
     if \<not> probed then (d, if legacy then PersistLegacyUnsupported else PersistAbsent)
     else case mount ops d of
       (d, Inl _) \<Rightarrow> (d, PersistFailed 3)
     | (d, Inr store) \<Rightarrow>
         let prior = vs_gen store in
         (case append_sentinels (unat PERSIST_SENTINELS) 0 store of
            None \<Rightarrow> (d, PersistFailed 4)
          | Some store \<Rightarrow>
              (case vs_flush ops store d of
                 (d, _, Inl _) \<Rightarrow> (d, PersistFailed 4)
               | (d, store, Inr _) \<Rightarrow>
                   let committed_gen = drop_bit 32 (vs_epoch store) in
                   if committed_gen \<noteq> prior + 1 then (d, PersistFailed 6)
                   else (case mount ops d of
                      (d, Inl _) \<Rightarrow> (d, PersistFailed 5)
                    | (d, Inr remount) \<Rightarrow>
                        if vs_gen remount \<noteq> committed_gen then (d, PersistFailed 6)
                        else let replayed = vs_record_count remount ! region_index Episodic in
                          if replayed \<noteq> PERSIST_SENTINELS then (d, PersistFailed 6)
                          else if \<not> check_sentinels 0 [0, 1, 2] remount then (d, PersistFailed 6)
                          else (d, PersistProven (vs_gen remount) replayed prior)))))"

section \<open>The contract of a backing store\<close>

text \<open>
  Each region of a store is an append-only byte stream: an accepted append extends one stream and
  returns where the bytes start, a refused one changes nothing, and a read returns the bytes of the
  stream from the offset, as many as there are and as fit.
\<close>

definition read_stream :: "bytes \<Rightarrow> u64 \<Rightarrow> bytes \<Rightarrow> bytes \<times> (mem_err + nat)" where
  "read_stream bs off buf = (if unat off > length bs then (buf, Inl NotFound)
     else let n = min (length buf) (length bs - unat off) in (slice bs (unat off) n @ drop n buf, Inr n))"

locale backing_store =
  fixes append :: "'s \<Rightarrow> region \<Rightarrow> bytes \<Rightarrow> 's \<times> (mem_err + u64)"
    and read_at :: "'s \<Rightarrow> region \<Rightarrow> u64 \<Rightarrow> bytes \<Rightarrow> bytes \<times> (mem_err + nat)"
    and stream :: "'s \<Rightarrow> region \<Rightarrow> bytes"
    and inv :: "'s \<Rightarrow> bool"
  assumes append_ok: "inv s \<Longrightarrow> append s r b = (s', Inr off) \<Longrightarrow>
      inv s' \<and> stream s' = (stream s)(r := stream s r @ b) \<and> off = of_nat (length (stream s r))"
    and append_err: "append s r b = (s', Inl e) \<Longrightarrow> s' = s"
    and read_at_stream: "inv s \<Longrightarrow> read_at s r off buf = read_stream (stream s r) off buf"
begin

lemma read_your_writes:
  assumes "inv s" "append s r b = (s', Inr off)" "length (stream s r) < 2 ^ 64"
  shows "read_at s' r off (replicate (length b) 0) = (b, Inr (length b))"
proof -
  have "unat off = length (stream s r)"
    using append_ok[OF assms(1,2)] assms(3) by (simp add: unat_of_nat)
  then show ?thesis
    using append_ok[OF assms(1,2)] by (simp add: read_at_stream read_stream_def slice_def)
qed

lemma appends_keep_reads:
  assumes "inv s" "append s r b = (s', Inr off)" "r' \<noteq> r \<or> unat off' + length buf \<le> length (stream s r)"
  shows "read_at s' r' off' buf = read_at s r' off' buf"
  using append_ok[OF assms(1,2)] assms(1,3)
  by (auto simp: read_at_stream read_stream_def slice_def Let_def)

end

lemma ram_set_simps [simp]:
  "ram_buf (ram_set st r bs) r' = (if r' = r then bs else ram_buf st r')" "ram_buf (st\<lparr>rs_epoch := e\<rparr>) r = ram_buf st r"
  by (cases r; cases r'; simp) (cases r; simp)

interpretation ram: backing_store ram_append ram_read_at ram_buf "\<lambda>_. True"
proof
  fix s s' :: ram_store and r b off
  assume "ram_append s r b = (s', Inr off)"
  then show "True \<and> ram_buf s' = (ram_buf s)(r := ram_buf s r @ b) \<and> off = of_nat (length (ram_buf s r))"
    by (auto simp: ram_append_def Let_def)
next
  show "ram_read_at s r off buf = read_stream (ram_buf s r) off buf" for s r off buf
    by (simp add: ram_read_at_def read_stream_def put_0 Let_def slice_def min_def)
qed (simp add: ram_append_def Let_def)

text \<open>The stream of a virtio-blk store: the committed image and the staged payloads.\<close>

definition vs_stream :: "virtio_blk_store \<Rightarrow> region \<Rightarrow> bytes" where
  "vs_stream st r = vs_image st ! region_index r @ concat (vs_staged st ! region_index r)"

definition vs_wf :: "virtio_blk_store \<Rightarrow> bool" where
  "vs_wf st \<longleftrightarrow> length (vs_image st) = 3 \<and> length (vs_staged st) = 3"

lemma region_index_simps [simp]: "region_index r < 3" "region_index r = region_index r' \<longleftrightarrow> r = r'"
  by (cases r; cases r'; simp)+

lemma staged_byte_concat: "i < length (concat vs) \<Longrightarrow> staged_byte i vs = concat vs ! i"
  by (induction vs arbitrary: i) (auto simp: nth_append)

lemma read_loop_stream:
  assumes "bs = img @ concat staged" "written \<le> length buf"
  shows "read_loop img staged (length bs) pos written buf =
    (let n = min (length buf - written) (length bs - pos) in (take written buf @ slice bs pos n @ drop (written + n) buf, written + n))"
  using assms
proof (induction img staged "length bs" pos written buf rule: read_loop.induct)
  case (1 img staged pos written buf)
  show ?case
  proof (cases "written < length buf \<and> pos < length bs")
    case False
    then show ?thesis
      using 1(3) by (subst read_loop.simps) (auto simp: min_def)
  next
    case True
    define byte where "byte = (if pos < length img then img ! pos else staged_byte (pos - length img) staged)"
    define n where "n = min (length buf - Suc written) (length bs - Suc pos)"
    have "byte = bs ! pos"
      using True 1(2) by (auto simp: byte_def nth_append staged_byte_concat)
    have "read_loop img staged (length bs) pos written buf = read_loop img staged (length bs) (pos + 1) (written + 1) (buf[written := byte])"
      using True by (subst read_loop.simps) (simp add: byte_def Let_def)
    also have "\<dots> = (take (Suc written) (buf[written := byte]) @ slice bs (Suc pos) n @ drop (Suc written + n) buf, Suc written + n)"
      using 1(1)[OF True byte_def] 1(2) True by (simp add: n_def Let_def)
    also have "take (Suc written) (buf[written := byte]) = take written buf @ [bs ! pos]"
      using True by (simp add: take_Suc_conv_app_nth \<open>byte = bs ! pos\<close>)
    finally have "read_loop img staged (length bs) pos written buf =
        (take written buf @ (bs ! pos # slice bs (Suc pos) n) @ drop (written + Suc n) buf, written + Suc n)"
      by simp
    also have "bs ! pos # slice bs (Suc pos) n = slice bs pos (Suc n)"
      using True by (simp add: slice_Suc)
    also have "Suc n = min (length buf - written) (length bs - pos)"
      using True by (auto simp: n_def)
    finally show ?thesis
      by (simp add: Let_def)
  qed
qed

interpretation vs: backing_store vs_append vs_read_at vs_stream vs_wf
proof
  fix s s' r b off
  assume wf: "vs_wf s" and app: "vs_append s r b = (s', Inr off)"
  let ?i = "region_index r"
  have s': "s' = s\<lparr>vs_staged := (vs_staged s)[?i := vs_staged s ! ?i @ [b]], vs_appends := vs_appends s + 1\<rparr>"
    and off: "off = of_nat (length (vs_image s ! ?i)) + sum_list (map (of_nat \<circ> length) (vs_staged s ! ?i))"
    using app by (auto simp: vs_append_def Let_def split: option.splits prod.splits if_splits)
  have "sum_list (map (of_nat \<circ> length) xs) = (of_nat (length (concat xs)) :: u64)" for xs :: "bytes list"
    by (induction xs) simp_all
  then show "vs_wf s' \<and> vs_stream s' = (vs_stream s)(r := vs_stream s r @ b) \<and> off = of_nat (length (vs_stream s r))"
    using wf off by (auto simp: s' vs_wf_def vs_stream_def nth_list_update)
next
  show "s' = s" if "vs_append s r b = (s', Inl e)" for s s' r b e
    using that by (auto simp: vs_append_def Let_def split: option.splits prod.splits if_splits)
next
  show "vs_read_at s r off buf = read_stream (vs_stream s r) off buf" for s r off buf
  proof -
    have len: "length (vs_image s ! region_index r) + sum_list (map length (vs_staged s ! region_index r)) = length (vs_stream s r)"
      by (simp add: vs_stream_def length_concat)
    then show ?thesis
      using read_loop_stream[of "vs_stream s r" "vs_image s ! region_index r" "vs_staged s ! region_index r" 0 buf "unat off"]
      by (simp add: vs_read_at_def read_stream_def vs_stream_def Let_def)
  qed
qed

end
