(* ===== verification/Blk_Crash.thy ===== *)
theory Blk_Crash
  imports Blk_Store "HOL-Library.Sublist"
begin

text \<open>
  Crash consistency of the virtio-blk store. The contract of the block device is a locale: a device
  has a current view and a set of images that a power loss may leave behind; a write is atomic per
  sector and may or may not have reached the medium until a flush completes, whether or not the
  device reported success; a completed flush leaves one image, the view. A power loss in the middle
  of a commit is a run in which the device refuses every request from some point on, so the
  statements below, which hold for every pattern of failures, cover it.
\<close>

type_synonym disk = "u64 \<Rightarrow> bytes"
type_synonym rlog = "(u64 \<times> bytes) list"

section \<open>Geometry\<close>

definition extent_first :: "nat \<Rightarrow> nat" where "extent_first r = [1, 4096, 6144] ! r"
definition extent_count :: "nat \<Rightarrow> nat" where "extent_count r = [4095, 2048, 2048] ! r"
definition log_sector :: "nat \<Rightarrow> nat \<Rightarrow> u64" where "log_sector r i = of_nat (extent_first r + i)"

lemma less_3_cases: "r < 3 \<longleftrightarrow> r = 0 \<or> r = 1 \<or> r = (2 :: nat)"
  by auto

lemma region_extent_of: "r < 3 \<Longrightarrow> region_extent (of_nat r) = Some (of_nat (extent_first r), of_nat (extent_count r))"
  unfolding less_3_cases by (auto simp: region_extent_def REGION_EPISODIC_def REGION_SEMANTIC_def REGION_WORKING_def
      EP_FIRST_def EP_COUNT_def SEM_FIRST_def SEM_COUNT_def WM_FIRST_def WM_COUNT_def extent_first_def extent_count_def)

lemma extent_bounds: "r < 3 \<Longrightarrow> extent_count r \<le> 4095" "r < 3 \<Longrightarrow> 0 < extent_first r" "r < 3 \<Longrightarrow> extent_first r + extent_count r \<le> 8192"
  unfolding less_3_cases by (auto simp: extent_first_def extent_count_def)

lemma record_sector_log:
  assumes "r < 3" "i < extent_count r"
  shows "record_sector (of_nat r) (of_nat i * SECTOR_SIZE) = Some (log_sector r i)"
proof -
  have i: "i < 4095"
    using assms extent_bounds(1)[of r] by linarith
  have "(of_nat i * SECTOR_SIZE) div SECTOR_SIZE = (of_nat i :: u64)"
    using i by (simp add: SECTOR_SIZE_def word_arith_nat_div unat_word_ariths unat_of_nat)
  moreover have "\<not> of_nat (extent_count r) \<le> (of_nat i :: u64)"
    using assms i extent_bounds(1)[of r] by (simp add: word_le_nat_alt unat_of_nat)
  ultimately show ?thesis
    using assms(1) by (simp add: record_sector_def region_extent_of log_sector_def)
qed

lemma unat_log_sector:
  assumes "r < 3" "i < extent_count r"
  shows "unat (log_sector r i) = extent_first r + i"
proof -
  have "extent_first r + i < 8192"
    using assms extent_bounds(3)[of r] by linarith
  then show ?thesis
    by (simp add: log_sector_def unat_of_nat del: of_nat_add)
qed

lemma log_sector_inject:
  assumes "r < 3" "i < extent_count r" "r' < 3" "i' < extent_count r'"
  shows "log_sector r i = log_sector r' i' \<longleftrightarrow> r = r' \<and> i = i'"
proof -
  have "log_sector r i = log_sector r' i' \<longleftrightarrow> extent_first r + i = extent_first r' + i'"
    using assms by (simp add: word_unat_eq_iff unat_log_sector)
  also have "\<dots> \<longleftrightarrow> r = r' \<and> i = i'"
    using assms unfolding less_3_cases by (auto simp: extent_first_def extent_count_def)
  finally show ?thesis .
qed

lemma log_sector_not_sb: "r < 3 \<Longrightarrow> i < extent_count r \<Longrightarrow> log_sector r i \<noteq> SB_SECTOR"
  using unat_log_sector[of r i] extent_bounds(2)[of r] by (auto simp: SB_SECTOR_def)

section \<open>What a disk holds\<close>

definition sb_of :: "u64 \<Rightarrow> rlog list \<Rightarrow> bytes" where
  "sb_of g Ls = superblock_encode g (map (\<lambda>L. of_nat (length L) * SECTOR_SIZE) Ls) (map (of_nat \<circ> length) Ls)"

definition logs_ok :: "rlog list \<Rightarrow> bool" where
  "logs_ok Ls \<longleftrightarrow> length Ls = 3 \<and> (\<forall>r<3. length (Ls ! r) \<le> extent_count r \<and>
     (\<forall>(s, p)\<in>set (Ls ! r). length p \<le> 488) \<and> sorted_wrt (<) (map fst (Ls ! r)))"

definition frames_on :: "disk \<Rightarrow> rlog list \<Rightarrow> bool" where
  "frames_on m Ls \<longleftrightarrow> (\<forall>r<3. \<forall>i<length (Ls ! r). m (log_sector r i) = frame_sector (of_nat r) (fst (Ls ! r ! i)) (snd (Ls ! r ! i)))"

text \<open>A checkpoint: generation \<open>g\<close> over the logs \<open>Ls\<close>, each an ordered list of sequence numbers and payloads.\<close>

definition disk_holds :: "disk \<Rightarrow> u64 \<Rightarrow> rlog list \<Rightarrow> bool" where
  "disk_holds m g Ls \<longleftrightarrow> logs_ok Ls \<and> m SB_SECTOR = sb_of g Ls \<and> frames_on m Ls"

lemma superblock_decode_sb_of:
  "length Ls = 3 \<Longrightarrow> superblock_decode (sb_of g Ls) = Some \<lparr>sb_version = SB_VERSION, sb_gen = g,
     sb_log_head = map (\<lambda>L. of_nat (length L) * SECTOR_SIZE) Ls, sb_record_count = map (of_nat \<circ> length) Ls\<rparr>"
  by (simp add: sb_of_def superblock_roundtrip)

lemma logs_okD:
  assumes "logs_ok Ls" "r < 3"
  shows "length (Ls ! r) \<le> extent_count r" "k < length (Ls ! r) \<Longrightarrow> length (snd (Ls ! r ! k)) \<le> 488" "sorted_wrt (<) (map fst (Ls ! r))"
  using assms nth_mem[of k "Ls ! r"] by (auto simp: logs_ok_def case_prod_unfold)

text \<open>A disk that differs from another only in the unused tails of the logs.\<close>

definition tails_only :: "rlog list \<Rightarrow> disk \<Rightarrow> disk \<Rightarrow> bool" where
  "tails_only Ls m m0 \<longleftrightarrow> (\<forall>s. (\<forall>r<3. \<forall>i. length (Ls ! r) \<le> i \<and> i < extent_count r \<longrightarrow> s \<noteq> log_sector r i) \<longrightarrow> m s = m0 s)"

lemma tails_only_refl [simp]: "tails_only Ls m m"
  by (simp add: tails_only_def)

lemma tails_only_trans: "tails_only Ls m m' \<Longrightarrow> tails_only Ls m' m'' \<Longrightarrow> tails_only Ls m m''"
  by (simp add: tails_only_def)

lemma tails_only_write:
  "r < 3 \<Longrightarrow> length (Ls ! r) \<le> i \<Longrightarrow> i < extent_count r \<Longrightarrow> tails_only Ls (m(log_sector r i := b)) m"
  unfolding tails_only_def by auto

lemma tails_only_keeps:
  assumes "tails_only Ls m m0" "logs_ok Ls"
  shows "m SB_SECTOR = m0 SB_SECTOR" "frames_on m Ls \<longleftrightarrow> frames_on m0 Ls"
proof -
  show "m SB_SECTOR = m0 SB_SECTOR"
    using assms(1) log_sector_not_sb unfolding tails_only_def by metis
  have "m (log_sector r i) = m0 (log_sector r i)" if "r < 3" "i < length (Ls ! r)" for r i
  proof -
    have "i < extent_count r"
      using that assms(2) by (fastforce simp: logs_ok_def)
    then have "log_sector r i \<noteq> log_sector r' i'" if "r' < 3" "length (Ls ! r') \<le> i'" "i' < extent_count r'" for r' i'
      using that \<open>r < 3\<close> \<open>i < length (Ls ! r)\<close> by (simp add: log_sector_inject) auto
    then show ?thesis
      using assms(1) unfolding tails_only_def by blast
  qed
  then show "frames_on m Ls \<longleftrightarrow> frames_on m0 Ls"
    by (simp add: frames_on_def)
qed

section \<open>A coherent store\<close>

definition store_coh :: "virtio_blk_store \<Rightarrow> rlog list \<Rightarrow> bool" where
  "store_coh st Ls \<longleftrightarrow> logs_ok Ls \<and> vs_record_count st = map (of_nat \<circ> length) Ls \<and>
     vs_log_head st = map (\<lambda>L. of_nat (length L) * SECTOR_SIZE) Ls \<and> vs_image st = map (concat \<circ> map snd) Ls \<and>
     length (vs_seq st) = 3 \<and> length (vs_staged st) = 3 \<and>
     (\<forall>r<3. (\<forall>s\<in>fst ` set (Ls ! r). s < vs_seq st ! r) \<and> (\<forall>p\<in>set (vs_staged st ! r). length p \<le> 488) \<and>
        length (Ls ! r) + length (vs_staged st ! r) \<le> extent_count r)"

text \<open>Sequence numbers left before the 64-bit counters wrap.\<close>

definition seq_room :: "nat \<Rightarrow> virtio_blk_store \<Rightarrow> bool" where
  "seq_room n st \<longleftrightarrow> (\<forall>r<3. unat (vs_seq st ! r) + n < 2 ^ 64)"

definition log_room :: "nat \<Rightarrow> rlog list \<Rightarrow> bool" where
  "log_room n Ls \<longleftrightarrow> (\<forall>r<3. \<forall>s\<in>fst ` set (Ls ! r). unat s + n < 2 ^ 64)"

definition log_next :: "rlog \<Rightarrow> u64" where
  "log_next L = (if L = [] then 0 else fst (last L) + 1)"

lemma log_next_above:
  assumes "sorted_wrt (<) (map fst L)" "\<forall>s\<in>fst ` set L. unat s + Suc n < 2 ^ 64" "n < 2 ^ 64"
  shows "\<forall>s\<in>fst ` set L. s < log_next L" "unat (log_next L) + n < 2 ^ 64"
proof -
  have lst: "unat (fst (last L)) + Suc n < 2 ^ 64" if "L \<noteq> []"
    using assms(2) last_in_set[OF that] by blast
  have suc: "unat (fst (last L) + 1) = Suc (unat (fst (last L)))" if "L \<noteq> []"
    using lst[OF that] by (simp add: unat_word_ariths)
  show "unat (log_next L) + n < 2 ^ 64"
    using assms(3) lst suc by (auto simp: log_next_def)
  show "\<forall>s\<in>fst ` set L. s < log_next L"
  proof
    fix s assume "s \<in> fst ` set L"
    then obtain i where i: "i < length L" "s = map fst L ! i"
      by (metis in_set_conv_nth length_map set_map)
    then have ne: "L \<noteq> []"
      by auto
    moreover have "last (map fst L) = map fst L ! (length L - 1)"
      using ne last_conv_nth[of "map fst L"] by simp
    moreover have "s \<le> map fst L ! (length L - 1)"
    proof (cases "i = length L - 1")
      case False
      then have "i < length L - 1" "length L - 1 < length L"
        using i by auto
      then show ?thesis
        using sorted_wrt_nth_less[OF assms(1), of i "length L - 1"] i by simp
    qed (use i in simp)
    ultimately have "L \<noteq> []" "s \<le> last (map fst L)"
      by simp_all
    then show "s < log_next L"
      using \<open>L \<noteq> []\<close> suc by (simp add: log_next_def last_map word_less_nat_alt word_le_nat_alt)
  qed
qed

text \<open>The image and sequence numbers after replaying the regions \<open>rs\<close>.\<close>

definition replayed :: "rlog list \<Rightarrow> nat list \<Rightarrow> virtio_blk_store \<Rightarrow> virtio_blk_store \<Rightarrow> bool" where
  "replayed Ls rs st st' \<longleftrightarrow> st' = st\<lparr>vs_image := vs_image st', vs_seq := vs_seq st'\<rparr> \<and> length (vs_image st') = 3 \<and> length (vs_seq st') = 3 \<and>
     (\<forall>r<3. vs_image st' ! r = (if r \<in> set rs then concat (map snd (Ls ! r)) else vs_image st ! r) \<and>
        vs_seq st' ! r = (if r \<in> set rs then log_next (Ls ! r) else vs_seq st ! r))"

lemma replayed_Cons:
  assumes "replayed Ls rs (st\<lparr>vs_image := (vs_image st)[r := concat (map snd (Ls ! r))], vs_seq := (vs_seq st)[r := log_next (Ls ! r)]\<rparr>) st'"
    and "length (vs_image st) = 3" "length (vs_seq st) = 3" "r \<notin> set rs"
  shows "replayed Ls (r # rs) st st'"
  using assms unfolding replayed_def by (auto simp: nth_list_update)

section \<open>The block device\<close>

text \<open>Some request of the device can fail.\<close>

definition faulty :: "'d blk_ops \<Rightarrow> bool" where
  "faulty ops \<longleftrightarrow> (\<exists>d s b. snd (blk_read ops d s) = None \<or> \<not> snd (blk_write ops d s b) \<or> \<not> snd (blk_flush ops d))"

lemma faultyI:
  "blk_read ops d s = (d', None) \<Longrightarrow> faulty ops" "blk_write ops d s b = (d', False) \<Longrightarrow> faulty ops" "blk_flush ops d = (d', False) \<Longrightarrow> faulty ops"
  by (metis faulty_def snd_conv)+


locale block_device =
  fixes ops :: "'d blk_ops"
    and view :: "'d \<Rightarrow> disk"
    and images :: "'d \<Rightarrow> disk set"
  assumes read_state: "blk_read ops d s = (d', res) \<Longrightarrow> view d' = view d \<and> images d' = images d"
    and read_value: "blk_read ops d s = (d', Some b) \<Longrightarrow> b = view d s"
    and write_images: "blk_write ops d s b = (d', ok) \<Longrightarrow> images d' \<subseteq> images d \<union> (\<lambda>m. m(s := b)) ` images d"
    and write_view: "blk_write ops d s b = (d', ok) \<Longrightarrow> view d' = (view d)(s := b) \<or> \<not> ok \<and> view d' = view d"
    and flush_state: "blk_flush ops d = (d', ok) \<Longrightarrow> view d' = view d \<and> images d' \<subseteq> images d"
    and flush_done: "blk_flush ops d = (d', True) \<Longrightarrow> images d' = {view d'}"
    and view_image: "view d \<in> images d"

begin

text \<open>Replay reads back a log that is on the disk, and fails only when a read does.\<close>

lemma replay_region_log:
  assumes "r < 3" "logs_ok Ls" "frames_on (view d) Ls" "k \<le> length (Ls ! r)"
    and "replay_region ops (of_nat r) (of_nat (length (Ls ! r))) (of_nat k) (if k = 0 then None else Some (fst (Ls ! r ! (k - 1)))) img d = (d', res)"
  shows "view d' = view d \<and> images d' = images d \<and>
    (res = Inr (if Ls ! r = [] then None else Some (fst (last (Ls ! r))), img @ concat (map snd (drop k (Ls ! r)))) \<or>
     res = Inl Io \<and> faulty ops)"
  using assms(3-5)
proof (induction "length (Ls ! r) - k" arbitrary: k img d)
  case 0
  then have "k = length (Ls ! r)"
    by simp
  then show ?case
    using 0(4) by (subst (asm) replay_region.simps) (auto simp: last_conv_nth)
next
  case (Suc n)
  let ?L = "Ls ! r"
  have k: "k < length ?L"
    using Suc.hyps(2) by simp
  note ext = logs_okD(1)[OF assms(2,1)] and pl = logs_okD(2)[OF assms(2,1) k]
  have lt: "(of_nat k :: u64) < of_nat (length ?L)"
    using k ext extent_bounds(1)[OF assms(1)] by (simp add: word_less_nat_alt unat_of_nat)
  have sec: "record_sector (of_nat r) (of_nat k * SECTOR_SIZE) = Some (log_sector r k)"
    using record_sector_log[OF assms(1)] k ext by simp
  have on: "view d (log_sector r k) = frame_sector (of_nat r) (fst (?L ! k)) (snd (?L ! k))"
    using Suc.prems(1) assms(1) k by (simp add: frames_on_def)
  have mono: "\<not> fst (?L ! k) \<le> fst (?L ! (k - 1))" if "0 < k"
  proof -
    show ?thesis
      using sorted_wrt_nth_less[OF logs_okD(3)[OF assms(2,1)], of "k - 1" k] that k by simp
  qed
  obtain d1 b where rd: "blk_read ops d (log_sector r k) = (d1, b)"
    by fastforce
  show ?case
  proof (cases b)
    case None
    then show ?thesis
      using Suc.prems(3) lt sec rd read_state[OF rd] by (subst (asm) replay_region.simps) (auto intro: faultyI(1))
  next
    case (Some sec')
    then have sec': "sec' = frame_sector (of_nat r) (fst (?L ! k)) (snd (?L ! k))"
      using read_value on rd by blast
    have len: "unat (of_nat (length (snd (?L ! k))) :: u16) = length (snd (?L ! k))"
      by (rule unat_u16_len[OF pl])
    have next': "replay_region ops (of_nat r) (of_nat (length ?L)) (of_nat (Suc k)) (Some (fst (?L ! k))) (img @ snd (?L ! k)) d1 = (d', res)"
      using Suc.prems(3) mono
      by (subst (asm) replay_region.simps)
        (simp add: lt sec rd Some sec' record_frame_roundtrip[OF pl] len add.commute split: if_splits)
    have "view d1 = view d" "images d1 = images d"
      using read_state[OF rd] by simp_all
    moreover have "drop k ?L = ?L ! k # drop (Suc k) ?L"
      using k by (simp add: Cons_nth_drop_Suc)
    ultimately show ?thesis
      using Suc.hyps(1)[of "Suc k" d1 "img @ snd (?L ! k)"] Suc.hyps(2) Suc.prems(1) k next' by simp
  qed
qed

lemma replay_regions_log:
  assumes "logs_ok Ls" "frames_on (view d) Ls" "vs_record_count st = map (of_nat \<circ> length) Ls" "distinct rs" "\<forall>r\<in>set rs. r < 3 \<and> vs_image st ! r = []"
    and "length (vs_image st) = 3" "length (vs_seq st) = 3" "replay_regions ops rs st d = (d', res)"
  shows "view d' = view d \<and> images d' = images d \<and>
    ((\<exists>st'. res = Inr st' \<and> replayed Ls rs st st') \<or> res = Inl Io \<and> faulty ops)"
  using assms(2-8)
proof (induction rs arbitrary: st d)
  case Nil
  then show ?case
    by (auto simp: replayed_def)
next
  case (Cons r rs)
  have r: "r < 3" "vs_image st ! r = []"
    using Cons.prems(4) by auto
  have rc: "vs_record_count st ! r = of_nat (length (Ls ! r))"
    using Cons.prems(2) r assms(1) by (simp add: logs_ok_def)
  obtain d1 res1 where rep: "replay_region ops (of_nat r) (of_nat (length (Ls ! r))) 0 None [] d = (d1, res1)"
    by fastforce
  note step = replay_region_log[OF r(1) assms(1) Cons.prems(1), of 0 "[]" d1 res1, simplified, OF rep]
  show ?case
  proof (cases "res1 = Inl Io")
    case True
    then show ?thesis
      using Cons.prems(7) step rep r(2) by (auto simp: rc)
  next
    case False
    let ?st = "st\<lparr>vs_image := (vs_image st)[r := concat (map snd (Ls ! r))], vs_seq := (vs_seq st)[r := log_next (Ls ! r)]\<rparr>"
    have "replay_regions ops rs ?st d1 = (d', res)"
      using Cons.prems(7) step False rep r(2) by (auto simp: rc log_next_def split: if_splits)
    moreover have "frames_on (view d1) Ls" "distinct rs" "r \<notin> set rs" "\<forall>r'\<in>set rs. r' < 3 \<and> vs_image ?st ! r' = []"
      using Cons.prems(1,3,4,5) step by (auto simp: nth_list_update)
    ultimately show ?thesis
      using Cons.IH[of d1 ?st] Cons.prems(2,5,6) step replayed_Cons[of Ls rs st r] by fastforce
  qed
qed

text \<open>Mounting a disk that holds a checkpoint restores exactly that checkpoint.\<close>

lemma mount_holds:
  assumes "disk_holds (view d) g Ls" "log_room (Suc n) Ls" "n < 2 ^ 64" "mount ops d = (d', res)"
  shows "view d' = view d \<and> images d' = images d \<and>
    ((\<exists>st. res = Inr st \<and> store_coh st Ls \<and> vs_gen st = g \<and> vs_staged st = [[], [], []] \<and> seq_room n st) \<or>
     res = Inl Io \<and> faulty ops)"
proof -
  have ok: "logs_ok Ls" "length Ls = 3" and fr: "frames_on (view d) Ls" and sb: "view d SB_SECTOR = sb_of g Ls"
    using assms(1) by (auto simp: disk_holds_def logs_ok_def)
  obtain d1 b where rd: "blk_read ops d SB_SECTOR = (d1, b)"
    by fastforce
  note rs = read_state[OF rd]
  show ?thesis
  proof (cases b)
    case None
    then have "d' = d1" "res = Inl Io" "faulty ops"
      using assms(4) rd by (auto simp: mount_def intro: faultyI(1))
    then show ?thesis
      using rs by blast
  next
    case (Some sec)
    let ?st = "vs_new\<lparr>vs_gen := g, vs_log_head := map (\<lambda>L. of_nat (length L) * SECTOR_SIZE) Ls, vs_record_count := map (of_nat \<circ> length) Ls\<rparr>"
    have "replay_regions ops [0, 1, 2] ?st d1 = (d', res)"
      using assms(4) rd Some read_value[of d SB_SECTOR d1 sec] sb superblock_decode_sb_of[OF ok(2), of g] by (simp add: mount_def)
    note rep = replay_regions_log[OF ok(1) _ _ _ _ _ _ this]
    have "view d' = view d1 \<and> images d' = images d1 \<and>
        ((\<exists>st'. res = Inr st' \<and> replayed Ls [0, 1, 2] ?st st') \<or> res = Inl Io \<and> faulty ops)"
      by (rule rep) (use fr rs in \<open>auto simp: vs_new_def numeral_2_eq_2\<close>)
    moreover have "store_coh st Ls \<and> vs_gen st = g \<and> vs_staged st = [[], [], []] \<and> seq_room n st" if st: "replayed Ls [0, 1, 2] ?st st" for st
    proof -
      have all: "vs_image st ! r = concat (map snd (Ls ! r)) \<and> vs_seq st ! r = log_next (Ls ! r)" if "r < 3" for r
        using st that unfolding replayed_def less_3_cases by auto
      have fields: "st = ?st\<lparr>vs_image := vs_image st, vs_seq := vs_seq st\<rparr>" "length (vs_image st) = 3" "length (vs_seq st) = 3"
        using st by (simp_all add: replayed_def)
      have stg: "vs_staged st = [[], [], []]" "vs_gen st = g" "vs_record_count st = map (of_nat \<circ> length) Ls"
        "vs_log_head st = map (\<lambda>L. of_nat (length L) * SECTOR_SIZE) Ls"
        by (subst fields(1), simp add: vs_new_def)+
      have img: "vs_image st = map (concat \<circ> map snd) Ls"
        using all fields(2) ok(2) by (auto intro: nth_equalityI)
      have above: "(\<forall>s\<in>fst ` set (Ls ! r). s < vs_seq st ! r) \<and> unat (vs_seq st ! r) + n < 2 ^ 64" if "r < 3" for r
        using log_next_above[of "Ls ! r" n] logs_okD(3)[OF ok(1) that] assms(2,3) all[OF that] that by (simp add: log_room_def)
      have "vs_staged st ! r = []" if "r < 3" for r
        using that unfolding less_3_cases stg(1) by auto
      then show ?thesis
        using ok above logs_okD(1)[OF ok(1)] fields(3) by (auto simp: store_coh_def seq_room_def stg img)
    qed
    ultimately show ?thesis
      using rs by auto
  qed
qed

text \<open>Phase 1 of the commit touches unused log sectors only; when it succeeds the frames are in the view.\<close>

lemma write_frames_tail:
  assumes "r < 3" "length (Ls ! r) \<le> n" "n + length ps \<le> extent_count r" "\<forall>p\<in>set ps. length p \<le> 488"
    and "write_frames ops (of_nat r) (of_nat n) sq ps d = (d', sq', res)"
  shows "(\<forall>m\<in>images d'. \<exists>m0\<in>images d. tails_only Ls m m0) \<and> tails_only Ls (view d') (view d) \<and>
    (\<exists>k\<le>length ps. sq' = sq + of_nat k) \<and> (res = Inr () \<or> res = Inl Io \<and> faulty ops) \<and>
    (\<forall>s. (\<forall>i. n \<le> i \<and> i < extent_count r \<longrightarrow> s \<noteq> log_sector r i) \<longrightarrow> view d' s = view d s) \<and>
    (res = Inr () \<longrightarrow> sq' = sq + of_nat (length ps) \<and>
      (\<forall>j<length ps. view d' (log_sector r (n + j)) = frame_sector (of_nat r) (sq + of_nat j) (ps ! j)))"
  using assms(2-5)
proof (induction ps arbitrary: n sq d)
  case Nil
  then show ?case
    by (auto intro: bexI[where P = "tails_only Ls _", OF tails_only_refl])
next
  case (Cons p ps)
  have n: "n < extent_count r"
    using Cons.prems(2) by simp
  have p: "length p \<le> 488"
    using Cons.prems(3) by simp
  obtain d1 ok where wr: "blk_write ops d (log_sector r n) (frame_sector (of_nat r) sq p) = (d1, ok)"
    by fastforce
  have im: "\<exists>m0\<in>images d. tails_only Ls m m0" if mem: "m \<in> images d1" for m
  proof -
    obtain m0 where "m0 \<in> images d" "m = m0 \<or> m = m0(log_sector r n := frame_sector (of_nat r) sq p)"
      using write_images[OF wr] mem by blast
    then show ?thesis
      using tails_only_write[OF assms(1) Cons.prems(1) n] tails_only_refl by blast
  qed
  have vw: "tails_only Ls (view d1) (view d)" "\<forall>s. s \<noteq> log_sector r n \<longrightarrow> view d1 s = view d s"
    using write_view[OF wr] tails_only_write[OF assms(1) Cons.prems(1) n] by fastforce+
  show ?case
  proof (cases ok)
    case False
    then have "d' = d1" "sq' = sq" "res = Inl Io" "faulty ops"
      using Cons.prems(4) wr record_sector_log[OF assms(1) n] p by (auto simp: record_frame_encode_bytes intro: faultyI(2))
    then show ?thesis
      using im vw n by (auto intro!: exI[of _ 0])
  next
    case True
    then have rest: "write_frames ops (of_nat r) (of_nat (Suc n)) (sq + 1) ps d1 = (d', sq', res)"
      using Cons.prems(4) wr record_sector_log[OF assms(1) n] p by (simp add: record_frame_encode_bytes add.commute)
    have here: "view d1 (log_sector r n) = frame_sector (of_nat r) sq p"
      using write_view[OF wr] True by simp
    have IH: "(\<forall>m\<in>images d'. \<exists>m0\<in>images d1. tails_only Ls m m0) \<and> tails_only Ls (view d') (view d1) \<and>
      (\<exists>k\<le>length ps. sq' = sq + 1 + of_nat k) \<and> (res = Inr () \<or> res = Inl Io \<and> faulty ops) \<and>
      (\<forall>s. (\<forall>i. Suc n \<le> i \<and> i < extent_count r \<longrightarrow> s \<noteq> log_sector r i) \<longrightarrow> view d' s = view d1 s) \<and>
      (res = Inr () \<longrightarrow> sq' = sq + 1 + of_nat (length ps) \<and>
        (\<forall>j<length ps. view d' (log_sector r (Suc n + j)) = frame_sector (of_nat r) (sq + 1 + of_nat j) (ps ! j)))"
      by (rule Cons.IH) (use Cons.prems rest in auto)
    have "view d' (log_sector r n) = view d1 (log_sector r n)"
    proof -
      have "log_sector r n \<noteq> log_sector r i" if "Suc n \<le> i" "i < extent_count r" for i
        using that n assms(1) by (simp add: log_sector_inject)
      with IH show ?thesis by blast
    qed
    with here have first: "view d' (log_sector r n) = frame_sector (of_nat r) sq p"
      by simp
    have "\<forall>m\<in>images d'. \<exists>m0\<in>images d. tails_only Ls m m0"
      using IH im tails_only_trans by blast
    moreover have "tails_only Ls (view d') (view d)"
      using IH vw(1) tails_only_trans by blast
    moreover have "res = Inr () \<or> res = Inl Io \<and> faulty ops"
      using IH by blast
    moreover have "\<exists>k\<le>length (p # ps). sq' = sq + of_nat k"
    proof -
      obtain k where "k \<le> length ps" "sq' = sq + 1 + of_nat k"
        using IH by blast
      then show ?thesis
        by (intro exI[of _ "Suc k"]) simp
    qed
    moreover have "\<forall>s. (\<forall>i. n \<le> i \<and> i < extent_count r \<longrightarrow> s \<noteq> log_sector r i) \<longrightarrow> view d' s = view d s"
    proof (intro allI impI)
      fix s assume "\<forall>i. n \<le> i \<and> i < extent_count r \<longrightarrow> s \<noteq> log_sector r i"
      then have "\<forall>i. Suc n \<le> i \<and> i < extent_count r \<longrightarrow> s \<noteq> log_sector r i" "s \<noteq> log_sector r n"
        using n by auto
      then show "view d' s = view d s"
        using IH vw(2) by simp
    qed
    moreover have "sq' = sq + of_nat (length (p # ps)) \<and>
        (\<forall>j<length (p # ps). view d' (log_sector r (n + j)) = frame_sector (of_nat r) (sq + of_nat j) ((p # ps) ! j))" if "res = Inr ()"
      using IH that first by (auto simp: All_less_Suc2 algebra_simps)
    ultimately show ?thesis
      by blast
  qed
qed

lemma write_regions_tail:
  assumes "length Ls = 3" "distinct rs" "\<forall>r\<in>set rs. r < 3" "vs_record_count st = map (of_nat \<circ> length) Ls" "length (vs_seq st) = 3"
    and "\<forall>r<3. (\<forall>p\<in>set (vs_staged st ! r). length p \<le> 488) \<and> length (Ls ! r) + length (vs_staged st ! r) \<le> extent_count r"
    and "write_regions ops rs st d = (d', st', res)"
  shows "(\<forall>m\<in>images d'. \<exists>m0\<in>images d. tails_only Ls m m0) \<and> tails_only Ls (view d') (view d) \<and>
    st' = st\<lparr>vs_seq := vs_seq st'\<rparr> \<and> length (vs_seq st') = 3 \<and> (res = Inr () \<or> res = Inl Io \<and> faulty ops) \<and>
    (\<forall>r<3. \<exists>k\<le>length (vs_staged st ! r). vs_seq st' ! r = vs_seq st ! r + of_nat k) \<and>
    (\<forall>r<3. r \<notin> set rs \<longrightarrow> vs_seq st' ! r = vs_seq st ! r \<and> (\<forall>i<extent_count r. view d' (log_sector r i) = view d (log_sector r i))) \<and>
    (res = Inr () \<longrightarrow> (\<forall>r\<in>set rs. vs_seq st' ! r = vs_seq st ! r + of_nat (length (vs_staged st ! r)) \<and>
      (\<forall>j<length (vs_staged st ! r). view d' (log_sector r (length (Ls ! r) + j)) =
         frame_sector (of_nat r) (vs_seq st ! r + of_nat j) (vs_staged st ! r ! j))))"
  using assms(2-7)
proof (induction rs arbitrary: st d)
  case Nil
  then show ?case
    by (auto intro: bexI[where P = "tails_only Ls _", OF tails_only_refl] intro!: exI[of _ 0])
next
  case (Cons r rs)
  have r: "r < 3" "r \<notin> set rs"
    using Cons.prems(1,2) by auto
  have rc: "vs_record_count st ! r = of_nat (length (Ls ! r))"
    using Cons.prems(3) r assms(1) by simp
  obtain d1 sq1 res1 where wf: "write_frames ops (of_nat r) (of_nat (length (Ls ! r))) (vs_seq st ! r) (vs_staged st ! r) d = (d1, sq1, res1)"
    by (metis prod_cases3)
  let ?st = "st\<lparr>vs_seq := (vs_seq st)[r := sq1]\<rparr>"
  have w: "(\<forall>m\<in>images d1. \<exists>m0\<in>images d. tails_only Ls m m0)" "tails_only Ls (view d1) (view d)"
    "\<exists>k\<le>length (vs_staged st ! r). sq1 = vs_seq st ! r + of_nat k" and io: "res1 = Inr () \<or> res1 = Inl Io \<and> faulty ops" and w45:
    "\<forall>s. (\<forall>i. length (Ls ! r) \<le> i \<and> i < extent_count r \<longrightarrow> s \<noteq> log_sector r i) \<longrightarrow> view d1 s = view d s"
    "res1 = Inr () \<longrightarrow> sq1 = vs_seq st ! r + of_nat (length (vs_staged st ! r)) \<and>
      (\<forall>j<length (vs_staged st ! r). view d1 (log_sector r (length (Ls ! r) + j)) = frame_sector (of_nat r) (vs_seq st ! r + of_nat j) (vs_staged st ! r ! j))"
    using write_frames_tail[OF r(1) order_refl _ _ wf] Cons.prems(5) r(1) by blast+
  have others: "view d1 (log_sector r' i) = view d (log_sector r' i)" if "r' < 3" "r' \<noteq> r" "i < extent_count r'" for r' i
    using w45(1) log_sector_inject[OF that(1,3) r(1)] that(2) by blast
  show ?case
  proof (cases res1)
    case (Inl e)
    then have eqs: "d' = d1" "st' = ?st" "res = Inl Io" and "faulty ops"
      using io Cons.prems(6) wf by (auto simp: rc Let_def)
    have "\<exists>k\<le>length (vs_staged st ! r'). (vs_seq st)[r := sq1] ! r' = vs_seq st ! r' + of_nat k" if "r' < 3" for r'
      using w(3) Cons.prems(4) that by (cases "r' = r") (auto intro!: exI[of _ 0])
    then show ?thesis
      using w(1,2) others Cons.prems(4) \<open>faulty ops\<close> unfolding eqs by auto
  next
    case (Inr u)
    then have rest: "write_regions ops rs ?st d1 = (d', st', res)"
      using Cons.prems(6) wf by (auto simp: rc Let_def)
    have IH: "(\<forall>m\<in>images d'. \<exists>m0\<in>images d1. tails_only Ls m m0)" "tails_only Ls (view d') (view d1)"
      "st' = ?st\<lparr>vs_seq := vs_seq st'\<rparr>" "length (vs_seq st') = 3" and io': "res = Inr () \<or> res = Inl Io \<and> faulty ops" and IH57:
      "\<forall>r'<3. \<exists>k\<le>length (vs_staged st ! r'). vs_seq st' ! r' = (vs_seq st)[r := sq1] ! r' + of_nat k"
      "\<forall>r'<3. r' \<notin> set rs \<longrightarrow> vs_seq st' ! r' = (vs_seq st)[r := sq1] ! r' \<and> (\<forall>i<extent_count r'. view d' (log_sector r' i) = view d1 (log_sector r' i))"
      "res = Inr () \<longrightarrow> (\<forall>r'\<in>set rs. vs_seq st' ! r' = (vs_seq st)[r := sq1] ! r' + of_nat (length (vs_staged st ! r')) \<and>
        (\<forall>j<length (vs_staged st ! r'). view d' (log_sector r' (length (Ls ! r') + j)) =
           frame_sector (of_nat r') ((vs_seq st)[r := sq1] ! r' + of_nat j) (vs_staged st ! r' ! j)))"
      using Cons.IH[of ?st d1] Cons.prems(1-5) rest by simp_all
    have here: "vs_seq st' ! r = sq1" "\<forall>i<extent_count r. view d' (log_sector r i) = view d1 (log_sector r i)"
      using IH57(2) r Cons.prems(4) by simp_all
    have seqs: "\<exists>k\<le>length (vs_staged st ! r'). vs_seq st' ! r' = vs_seq st ! r' + of_nat k" if "r' < 3" for r'
    proof (cases "r' = r")
      case False
      then show ?thesis
        using IH57(1)[rule_format, OF that] by simp
    qed (use w(3) here(1) in simp)
    have tails: "\<forall>m\<in>images d'. \<exists>m0\<in>images d. tails_only Ls m m0" "tails_only Ls (view d') (view d)"
      using IH(1,2) w(1,2) tails_only_trans by blast+
    have out: "vs_seq st' ! r' = vs_seq st ! r' \<and> (\<forall>i<extent_count r'. view d' (log_sector r' i) = view d (log_sector r' i))"
      if "r' < 3" "r' \<notin> set (r # rs)" for r'
      using IH57(2) others that by simp
    have ok: "vs_seq st' ! r' = vs_seq st ! r' + of_nat (length (vs_staged st ! r')) \<and>
        (\<forall>j<length (vs_staged st ! r'). view d' (log_sector r' (length (Ls ! r') + j)) = frame_sector (of_nat r') (vs_seq st ! r' + of_nat j) (vs_staged st ! r' ! j))"
      if "res = Inr ()" "r' \<in> set (r # rs)" for r'
    proof (cases "r' = r")
      case True
      have "length (Ls ! r) + j < extent_count r" if "j < length (vs_staged st ! r)" for j
        using that Cons.prems(5)[rule_format, OF r(1)] by linarith
      then show ?thesis
        using True here w45(2) Inr by simp
    next
      case False
      then show ?thesis
        using IH57(3) that by simp
    qed
    show ?thesis
      using tails IH(3,4) io' seqs out ok by simp
  qed
qed

end

section \<open>Committing\<close>

definition staged_log :: "u64 \<Rightarrow> bytes list \<Rightarrow> rlog" where
  "staged_log sq ps = map (\<lambda>j. (sq + of_nat j, ps ! j)) [0..<length ps]"

text \<open>The logs after the staged payloads are committed.\<close>

definition next_logs :: "virtio_blk_store \<Rightarrow> rlog list \<Rightarrow> rlog list" where
  "next_logs st Ls = map (\<lambda>r. Ls ! r @ staged_log (vs_seq st ! r) (vs_staged st ! r)) [0..<3]"

lemma staged_log_simps [simp]:
  "length (staged_log sq ps) = length ps" "map snd (staged_log sq ps) = ps"
  "j < length ps \<Longrightarrow> staged_log sq ps ! j = (sq + of_nat j, ps ! j)"
  by (auto simp: staged_log_def o_def map_nth)

lemma next_logs_simps [simp]:
  "length (next_logs st Ls) = 3" "r < 3 \<Longrightarrow> next_logs st Ls ! r = Ls ! r @ staged_log (vs_seq st ! r) (vs_staged st ! r)"
  by (simp_all add: next_logs_def)

lemma list_3: "length xs = 3 \<longleftrightarrow> (\<exists>x y z. xs = [x, y, z])"
  by (auto simp: numeral_3_eq_3 length_Suc_conv)

lemma map_upt_3: "map f [0..<3] = [f 0, f 1, f 2]"
  by (simp add: numeral_3_eq_3 numeral_2_eq_2)

lemma fold_payloads_fields:
  assumes "r < length (vs_image st)" "r < length (vs_record_count st)" "r < length (vs_log_head st)"
  shows "fold_payloads r ps st = st\<lparr>vs_image := (vs_image st)[r := vs_image st ! r @ concat ps],
    vs_record_count := (vs_record_count st)[r := vs_record_count st ! r + of_nat (length ps)],
    vs_log_head := (vs_log_head st)[r := vs_log_head st ! r + of_nat (length ps) * SECTOR_SIZE]\<rparr>"
  using assms by (induction ps arbitrary: st) (simp_all add: algebra_simps)

lemma fold_regions_fields:
  assumes "length (vs_image st) = 3" "length (vs_record_count st) = 3" "length (vs_log_head st) = 3" "length (vs_staged st) = 3"
  shows "fold_regions [0, 1, 2] st = st\<lparr>vs_image := map (\<lambda>r. vs_image st ! r @ concat (vs_staged st ! r)) [0..<3],
    vs_record_count := map (\<lambda>r. vs_record_count st ! r + of_nat (length (vs_staged st ! r))) [0..<3],
    vs_log_head := map (\<lambda>r. vs_log_head st ! r + of_nat (length (vs_staged st ! r)) * SECTOR_SIZE) [0..<3],
    vs_staged := [[], [], []]\<rparr>"
  using assms unfolding list_3 by (auto simp: fold_payloads_fields map_upt_3 numeral_2_eq_2)

lemma unat_add_of_nat: "unat sq + n < 2 ^ 64 \<Longrightarrow> j \<le> n \<Longrightarrow> unat (sq + of_nat j) = unat sq + j" for sq :: u64
  by (simp add: unat_word_ariths unat_of_nat)

lemma sorted_wrt_next:
  assumes "sorted_wrt (<) (map fst L)" "\<forall>s\<in>fst ` set L. s < sq" "unat sq + length ps < 2 ^ 64"
  shows "sorted_wrt (<) (map fst (L @ staged_log sq ps))" "\<forall>s\<in>fst ` set (L @ staged_log sq ps). s < sq + of_nat (length ps)"
proof -
  note u = unat_add_of_nat[OF assms(3)]
  have st: "s \<in> fst ` set (staged_log sq ps) \<longleftrightarrow> (\<exists>j<length ps. s = sq + of_nat j)" for s
    by (auto simp: staged_log_def image_iff)
  have "sorted_wrt (<) (map fst (staged_log sq ps))"
    using u by (simp add: sorted_wrt_iff_nth_less word_less_nat_alt)
  moreover have "s < sq + of_nat j" if "s < sq" "j \<le> length ps" for s j
    using that u by (simp add: word_less_nat_alt)
  ultimately show "sorted_wrt (<) (map fst (L @ staged_log sq ps))" "\<forall>s\<in>fst ` set (L @ staged_log sq ps). s < sq + of_nat (length ps)"
    using assms(1,2) st u by (auto simp: sorted_wrt_append image_Un word_less_nat_alt simp flip: set_map dest!: bspec)
qed

lemma logs_ok_next:
  assumes "store_coh st Ls" "seq_room 4095 st"
  shows "logs_ok (next_logs st Ls)"
proof -
  have "length (vs_staged st ! r) \<le> 4095" if "r < 3" for r
    using assms(1) extent_bounds(1)[OF that] that by (fastforce simp: store_coh_def)
  then have "sorted_wrt (<) (map fst (next_logs st Ls ! r))" if "r < 3" for r
    using assms that unfolding next_logs_simps(2)[OF that]
    by (intro sorted_wrt_next(1)) (fastforce simp: store_coh_def logs_ok_def seq_room_def)+
  moreover have "\<forall>(s, p)\<in>set (next_logs st Ls ! r). length p \<le> 488" if "r < 3" for r
    using assms(1) that by (fastforce simp: store_coh_def logs_ok_def staged_log_def)
  ultimately show ?thesis
    using assms(1) by (simp add: store_coh_def logs_ok_def)
qed

lemma store_cohD:
  assumes "store_coh st Ls"
  shows "logs_ok Ls" "length Ls = 3" "vs_record_count st = map (of_nat \<circ> length) Ls" "vs_log_head st = map (\<lambda>L. of_nat (length L) * SECTOR_SIZE) Ls"
    "vs_image st = map (concat \<circ> map snd) Ls" "length (vs_seq st) = 3" "length (vs_staged st) = 3"
    "\<forall>r<3. (\<forall>p\<in>set (vs_staged st ! r). length p \<le> 488) \<and> length (Ls ! r) + length (vs_staged st ! r) \<le> extent_count r"
    "r < 3 \<Longrightarrow> \<forall>s\<in>fst ` set (Ls ! r). s < vs_seq st ! r" "r < 3 \<Longrightarrow> length (vs_staged st ! r) \<le> 4095"
  using assms extent_bounds(1)[of r] by (auto simp: store_coh_def logs_ok_def)

lemma store_coh_seq:
  assumes "store_coh st Ls" "length sq = 3" "\<forall>r<3. vs_seq st ! r \<le> sq ! r"
  shows "store_coh (st\<lparr>vs_seq := sq\<rparr>) Ls"
proof -
  have "s < sq ! r" if "r < 3" "s \<in> fst ` set (Ls ! r)" for r s
    using bspec[OF store_cohD(9)[OF assms(1) that(1)] that(2)] assms(3)[rule_format, OF that(1)] by (rule order_less_le_trans)
  then show ?thesis
    using assms(1,2) by (auto simp: store_coh_def)
qed

lemma store_coh_fold:
  assumes coh: "store_coh st Ls" and room: "seq_room 4095 st"
    and "length sq = 3" "\<forall>r<3. sq ! r = vs_seq st ! r + of_nat (length (vs_staged st ! r))"
  shows "store_coh (fold_regions [0, 1, 2] (st\<lparr>vs_seq := sq\<rparr>)) (next_logs st Ls)"
    "vs_staged (fold_regions [0, 1, 2] (st\<lparr>vs_seq := sq\<rparr>)) = [[], [], []]"
    "vs_gen (fold_regions [0, 1, 2] (st\<lparr>vs_seq := sq\<rparr>)) = vs_gen st" "vs_seq (fold_regions [0, 1, 2] (st\<lparr>vs_seq := sq\<rparr>)) = sq"
proof -
  note c = store_cohD[OF coh]
  have f: "fold_regions [0, 1, 2] (st\<lparr>vs_seq := sq\<rparr>) = st\<lparr>vs_seq := sq, vs_image := map (concat \<circ> map snd) (next_logs st Ls),
      vs_record_count := map (of_nat \<circ> length) (next_logs st Ls), vs_log_head := map (\<lambda>L. of_nat (length L) * SECTOR_SIZE) (next_logs st Ls),
      vs_staged := [[], [], []]\<rparr>"
    using c(2) by (subst fold_regions_fields) (simp_all add: c(3-7) next_logs_def algebra_simps)
  have stg: "([[], [], []] :: bytes list list) ! r = []" if "r < 3" for r
    using that unfolding less_3_cases by auto
  have "\<forall>s\<in>fst ` set (next_logs st Ls ! r). s < sq ! r" if "r < 3" for r
  proof -
    have "unat (vs_seq st ! r) + length (vs_staged st ! r) < 2 ^ 64"
      using c(10)[OF that] room that by (fastforce simp: seq_room_def)
    from sorted_wrt_next(2)[OF logs_okD(3)[OF c(1) that] c(9)[OF that] this] show ?thesis
      using assms(4) that by simp
  qed
  then show "store_coh (fold_regions [0, 1, 2] (st\<lparr>vs_seq := sq\<rparr>)) (next_logs st Ls)"
    unfolding f using logs_ok_next[OF coh room] assms(3) c(8) by (simp add: store_coh_def stg)
  show "vs_staged (fold_regions [0, 1, 2] (st\<lparr>vs_seq := sq\<rparr>)) = [[], [], []]"
    "vs_gen (fold_regions [0, 1, 2] (st\<lparr>vs_seq := sq\<rparr>)) = vs_gen st" "vs_seq (fold_regions [0, 1, 2] (st\<lparr>vs_seq := sq\<rparr>)) = sq"
    unfolding f by simp_all
qed

text \<open>
  The invariant of a mounted store: every image a power loss may leave holds the frames of the
  committed logs \<open>Ls\<close>, and the superblock of one of the checkpoints \<open>H\<close>, whose logs are prefixes of them.
\<close>

definition ckpt_inv :: "disk set \<Rightarrow> virtio_blk_store \<Rightarrow> rlog list \<Rightarrow> (u64 \<times> rlog list) set \<Rightarrow> bool" where
  "ckpt_inv ims st Ls H \<longleftrightarrow> store_coh st Ls \<and> (\<forall>(g, Ls')\<in>H. logs_ok Ls' \<and> (\<forall>r<3. prefix (Ls' ! r) (Ls ! r))) \<and>
     (\<forall>m\<in>ims. frames_on m Ls \<and> (\<exists>(g, Ls')\<in>H. m SB_SECTOR = sb_of g Ls'))"

lemma frames_on_prefix:
  assumes "frames_on m Ls" "\<forall>r<3. prefix (Ls' ! r) (Ls ! r)"
  shows "frames_on m Ls'"
  unfolding frames_on_def
proof (intro allI impI)
  fix r i assume "r < 3" "i < length (Ls' ! r)"
  moreover from this(1) obtain zs where "Ls ! r = Ls' ! r @ zs"
    using assms(2) by (auto simp: prefix_def)
  ultimately have "Ls ! r ! i = Ls' ! r ! i" "i < length (Ls ! r)"
    by (simp_all add: nth_append)
  then show "m (log_sector r i) = frame_sector (of_nat r) (fst (Ls' ! r ! i)) (snd (Ls' ! r ! i))"
    using assms(1) \<open>r < 3\<close> by (auto simp: frames_on_def)
qed

lemma ckpt_inv_holds:
  assumes "ckpt_inv ims st Ls H" "m \<in> ims"
  shows "\<exists>g Ls'. (g, Ls') \<in> H \<and> disk_holds m g Ls' \<and> (\<forall>r<3. prefix (Ls' ! r) (Ls ! r))"
proof -
  obtain g Ls' where "(g, Ls') \<in> H" "m SB_SECTOR = sb_of g Ls'" and fr: "frames_on m Ls"
    using assms unfolding ckpt_inv_def by blast
  moreover from this have "logs_ok Ls'" "\<forall>r<3. prefix (Ls' ! r) (Ls ! r)"
    using assms(1) unfolding ckpt_inv_def by auto
  ultimately show ?thesis
    using frames_on_prefix[OF fr] by (auto simp: disk_holds_def)
qed

lemma frames_on_next:
  assumes "frames_on m Ls" "\<forall>r<3. \<forall>j<length (vs_staged st ! r). m (log_sector r (length (Ls ! r) + j)) = frame_sector (of_nat r) (vs_seq st ! r + of_nat j) (vs_staged st ! r ! j)"
  shows "frames_on m (next_logs st Ls)"
  unfolding frames_on_def
proof (intro allI impI)
  fix r i assume r: "r < 3" and i: "i < length (next_logs st Ls ! r)"
  show "m (log_sector r i) = frame_sector (of_nat r) (fst (next_logs st Ls ! r ! i)) (snd (next_logs st Ls ! r ! i))"
  proof (cases "i < length (Ls ! r)")
    case True
    then show ?thesis
      using assms(1) r by (simp add: frames_on_def nth_append)
  next
    case False
    then obtain j where "i = length (Ls ! r) + j" "j < length (vs_staged st ! r)"
      using i r by (metis add_less_cancel_left le_iff_add length_append linorder_not_less next_logs_simps(2) staged_log_simps(1))
    then show ?thesis
      using assms(2) r by (simp add: nth_append)
  qed
qed

context block_device
begin

lemma write_superblock_ckpt:
  assumes "frames_on (view d) Ls" "images d = {view d}" "store_coh st Ls" "\<forall>(g, Ls')\<in>H. logs_ok Ls' \<and> (\<forall>r<3. prefix (Ls' ! r) (Ls ! r))"
    and "\<exists>(g, Ls')\<in>H. view d SB_SECTOR = sb_of g Ls'" "write_superblock ops g st d = (d', st', res)"
  shows "(res = Inr () \<and> st' = st\<lparr>vs_gen := g\<rparr> \<and> ckpt_inv (images d') st' Ls {(g, Ls)}) \<or>
    (res = Inl Io \<and> faulty ops \<and> st' = st \<and> ckpt_inv (images d') st' Ls (insert (g, Ls) H))"
proof -
  note c = store_cohD[OF assms(3)]
  have sb: "superblock_encode g (vs_log_head st) (vs_record_count st) = sb_of g Ls"
    by (simp add: sb_of_def c(3,4))
  have fr: "frames_on ((view d)(SB_SECTOR := b)) Ls" for b
    unfolding frames_on_def
  proof (intro allI impI)
    fix r i assume "r < 3" "i < length (Ls ! r)"
    moreover from this have "i < extent_count r"
      using logs_okD(1)[OF c(1), of r] by linarith
    ultimately show "((view d)(SB_SECTOR := b)) (log_sector r i) = frame_sector (of_nat r) (fst (Ls ! r ! i)) (snd (Ls ! r ! i))"
      using assms(1) by (simp add: frames_on_def log_sector_not_sb)
  qed
  obtain d1 ok1 where wr: "blk_write ops d SB_SECTOR (sb_of g Ls) = (d1, ok1)"
    by fastforce
  obtain d2 ok2 where fl: "blk_flush ops d1 = (d2, ok2)"
    by fastforce
  have im1: "images d1 \<subseteq> {view d, (view d)(SB_SECTOR := sb_of g Ls)}"
    using write_images[OF wr] assms(2) by auto
  have coh': "store_coh (st\<lparr>vs_gen := g\<rparr>) Ls"
    using assms(3) by (simp add: store_coh_def)
  have part: "ckpt_inv (images x) st Ls (insert (g, Ls) H)" if "images x \<subseteq> {view d, (view d)(SB_SECTOR := sb_of g Ls)}" for x
    using that assms(1,3,4,5) fr c(1) unfolding ckpt_inv_def by fastforce
  show ?thesis
  proof (cases "ok1 \<and> ok2")
    case True
    then have "images d2 = {(view d)(SB_SECTOR := sb_of g Ls)}"
      using write_view[OF wr] flush_state[OF fl] flush_done fl by auto
    then have "ckpt_inv (images d2) (st\<lparr>vs_gen := g\<rparr>) Ls {(g, Ls)}"
      using coh' fr c(1) by (simp add: ckpt_inv_def)
    then show ?thesis
      using assms(6) wr fl True by (auto simp: write_superblock_def sb)
  next
    case False
    then have "res = Inl Io \<and> faulty ops \<and> st' = st \<and> (d' = d1 \<or> d' = d2)"
      using assms(6) wr fl by (cases ok1; cases ok2) (auto simp: write_superblock_def sb intro: faultyI(2,3))
    then show ?thesis
      using part[of d1] part[of d2] im1 flush_state[OF fl] by auto
  qed
qed

text \<open>
  One commit under any failures: it either completes, and then every image is the new checkpoint, or
  it fails and every image is still one of the old checkpoints or the new one.
\<close>

lemma vs_flush_ckpt:
  assumes inv: "ckpt_inv (images d) st Ls H" and room: "seq_room 4095 st" and fl: "vs_flush ops st d = (d', st', res)"
  defines "N \<equiv> next_logs st Ls"
  shows "((res = Inr () \<and> vs_gen st' = vs_gen st + 1 \<and> vs_staged st' = [[], [], []] \<and> ckpt_inv (images d') st' N {(vs_gen st + 1, N)}) \<or>
     (res = Inl Io \<and> faulty ops \<and> vs_gen st' = vs_gen st \<and> vs_staged st' = [[], [], []] \<and> ckpt_inv (images d') st' N (insert (vs_gen st + 1, N) H)) \<or>
     (res = Inl Io \<and> faulty ops \<and> vs_gen st' = vs_gen st \<and> vs_staged st' = vs_staged st \<and> ckpt_inv (images d') st' Ls H)) \<and>
    (\<forall>r<3. unat (vs_seq st' ! r) \<le> unat (vs_seq st ! r) + 4095)"
proof -
  have coh: "store_coh st Ls"
    using inv by (simp add: ckpt_inv_def)
  note c = store_cohD[OF coh]
  obtain d1 st1 res1 where wr: "write_regions ops [0, 1, 2] st d = (d1, st1, res1)"
    by (metis prod_cases3)
  note w = write_regions_tail[OF c(2) _ _ c(3,6,8) wr]
  have w1: "\<forall>m\<in>images d1. \<exists>m0\<in>images d. tails_only Ls m m0" "tails_only Ls (view d1) (view d)"
    and st1: "st1 = st\<lparr>vs_seq := vs_seq st1\<rparr>" "length (vs_seq st1) = 3"
    and io: "res1 = Inr () \<or> res1 = Inl Io \<and> faulty ops"
    and seqs: "\<forall>r<3. \<exists>k\<le>length (vs_staged st ! r). vs_seq st1 ! r = vs_seq st ! r + of_nat k"
    and com: "res1 = Inr () \<Longrightarrow> r < 3 \<Longrightarrow> vs_seq st1 ! r = vs_seq st ! r + of_nat (length (vs_staged st ! r)) \<and>
      (\<forall>j<length (vs_staged st ! r). view d1 (log_sector r (length (Ls ! r) + j)) = frame_sector (of_nat r) (vs_seq st ! r + of_nat j) (vs_staged st ! r ! j))" for r
    using w by (auto simp: less_3_cases)
  have sq: "vs_seq st ! r \<le> vs_seq st1 ! r \<and> unat (vs_seq st1 ! r) \<le> unat (vs_seq st ! r) + 4095" if r: "r < 3" for r
  proof -
    obtain k where k: "k \<le> length (vs_staged st ! r)" "vs_seq st1 ! r = vs_seq st ! r + of_nat k"
      using seqs r by blast
    moreover have "unat (vs_seq st ! r) + 4095 < 2 ^ 64"
      using room r by (simp add: seq_room_def)
    ultimately have "unat (vs_seq st1 ! r) = unat (vs_seq st ! r) + k"
      using unat_add_of_nat[of "vs_seq st ! r" 4095 k] c(10)[OF r] by simp
    then show ?thesis
      using k c(10)[OF r] by (simp add: word_le_nat_alt)
  qed
  have coh1: "store_coh st1 Ls"
    by (subst st1(1), rule store_coh_seq[OF coh st1(2)]) (use sq in auto)
  have old: "ckpt_inv ims st1 Ls H" if all: "\<forall>m\<in>ims. \<exists>m0\<in>images d. tails_only Ls m m0" for ims
    unfolding ckpt_inv_def
  proof (intro conjI ballI)
    fix m assume "m \<in> ims"
    then obtain m0 where m0: "m0 \<in> images d" "tails_only Ls m m0"
      using all by blast
    show "frames_on m Ls" "\<exists>(g, Ls')\<in>H. m SB_SECTOR = sb_of g Ls'"
      using inv m0(1) tails_only_keeps[OF m0(2) c(1)] by (simp_all add: ckpt_inv_def)
  qed (use inv coh1 in \<open>auto simp: ckpt_inv_def\<close>)
  obtain d2 ok where fl2: "blk_flush ops d1 = (d2, ok)"
    by fastforce
  show ?thesis
  proof (cases "res1 = Inr () \<and> ok")
    case False
    have "res = Inl Io \<and> faulty ops \<and> st' = st1 \<and> (d' = d1 \<or> d' = d2)"
      using False io fl wr fl2 by (cases ok) (auto simp: vs_flush_def intro: faultyI(3))
    moreover have "ckpt_inv (images d1) st1 Ls H" "ckpt_inv (images d2) st1 Ls H"
      using old w1(1) flush_state[OF fl2] by blast+
    moreover have "vs_gen st1 = vs_gen st" "vs_staged st1 = vs_staged st"
      by (subst st1(1), simp)+
    ultimately show ?thesis
      using sq by auto
  next
    case True
    define st2 where "st2 = fold_regions [0, 1, 2] st1"
    have st2: "store_coh st2 N" "vs_staged st2 = [[], [], []]" "vs_gen st2 = vs_gen st" "vs_seq st2 = vs_seq st1"
      using store_coh_fold[OF coh room st1(2)] com True unfolding st2_def N_def by (subst st1(1), simp)+
    have ims: "images d2 = {view d2}" "view d2 = view d1"
      using flush_done fl2 True flush_state[OF fl2] by auto
    have vd: "view d \<in> images d"
      by (rule view_image)
    have "frames_on (view d1) Ls" and sb: "view d1 SB_SECTOR = view d SB_SECTOR"
      using tails_only_keeps[OF w1(2) c(1)] inv vd by (auto simp: ckpt_inv_def)
    then have fr: "frames_on (view d2) N"
      unfolding N_def ims(2) using com True by (intro frames_on_next) auto
    have H: "\<forall>(g, Ls')\<in>H. logs_ok Ls' \<and> (\<forall>r<3. prefix (Ls' ! r) (N ! r))"
      using inv unfolding ckpt_inv_def N_def by (auto simp: case_prod_unfold)
    have ex: "\<exists>(g, Ls')\<in>H. view d2 SB_SECTOR = sb_of g Ls'"
      using inv vd by (simp add: ckpt_inv_def sb ims(2))
    have wsb: "write_superblock ops (vs_gen st + 1) st2 d2 = (d', st', res)"
      using fl True unfolding vs_flush_def wr by (simp add: fl2 st2_def[symmetric, unfolded One_nat_def] st2(3) Let_def del: fold_regions.simps)
    from write_superblock_ckpt[OF fr ims(1) st2(1) H ex wsb] show ?thesis
      using st2(2-4) sq by auto
  qed
qed

end

section \<open>Runs of a store\<close>

datatype blk_cmd = Append region bytes | Flush

datatype blk_res = Appended "mem_err + u64" | Flushed "mem_err + unit"

fun store_run :: "'d blk_ops \<Rightarrow> blk_cmd list \<Rightarrow> virtio_blk_store \<Rightarrow> 'd \<Rightarrow> 'd \<times> virtio_blk_store \<times> blk_res list" where
  "store_run ops [] st d = (d, st, [])"
| "store_run ops (Append region bs # cs) st d = (case vs_append st region bs of
     (st, r) \<Rightarrow> (case store_run ops cs st d of (d, st, rs) \<Rightarrow> (d, st, Appended r # rs)))"
| "store_run ops (Flush # cs) st d = (case vs_flush ops st d of
     (d, st, r) \<Rightarrow> (case store_run ops cs st d of (d, st, rs) \<Rightarrow> (d, st, Flushed r # rs)))"

text \<open>
  What a client may rely on: the payloads appended to each region, and the set of states a crash may
  leave. An acknowledged flush leaves only the current state; an unacknowledged one adds it.
\<close>

fun spec_step :: "blk_cmd \<times> blk_res \<Rightarrow> bytes list list \<times> bytes list list set \<Rightarrow> bytes list list \<times> bytes list list set" where
  "spec_step (Append region bs, Appended (Inr off)) (cur, poss) = (cur[region_index region := cur ! region_index region @ [bs]], poss)"
| "spec_step (Flush, Flushed (Inr u)) (cur, poss) = (cur, {cur})"
| "spec_step (Flush, Flushed (Inl e)) (cur, poss) = (cur, insert cur poss)"
| "spec_step _ st = st"

definition spec_run :: "blk_cmd list \<Rightarrow> blk_res list \<Rightarrow> bytes list list \<times> bytes list list set \<Rightarrow> bytes list list \<times> bytes list list set" where
  "spec_run cs rs st = fold spec_step (zip cs rs) st"

definition contents :: "rlog list \<Rightarrow> bytes list list" where
  "contents Ls = map (map snd) Ls"

text \<open>The store simulates the specification.\<close>

definition sim_rel :: "disk set \<Rightarrow> virtio_blk_store \<Rightarrow> nat \<Rightarrow> bytes list list \<times> bytes list list set \<Rightarrow> bool" where
  "sim_rel ims st n spec \<longleftrightarrow> (\<exists>Ls H. ckpt_inv ims st Ls H \<and> seq_room (4095 * n) st \<and>
     fst spec = map (\<lambda>r. map snd (Ls ! r) @ vs_staged st ! r) [0..<3] \<and> (\<forall>(g, Ls')\<in>H. contents Ls' \<in> snd spec))"

lemma sim_relI:
  "ckpt_inv ims st Ls H \<Longrightarrow> seq_room (4095 * n) st \<Longrightarrow> fst spec = map (\<lambda>r. map snd (Ls ! r) @ vs_staged st ! r) [0..<3] \<Longrightarrow>
    \<forall>(g, Ls')\<in>H. contents Ls' \<in> snd spec \<Longrightarrow> sim_rel ims st n spec"
  unfolding sim_rel_def by blast

lemma contents_next: "contents (next_logs st Ls) = map (\<lambda>r. map snd (Ls ! r) @ vs_staged st ! r) [0..<3]"
  by (simp add: contents_def next_logs_def)

lemma region_tag_index: "region_tag r = of_nat (region_index r)"
  by (cases r) (simp_all add: REGION_EPISODIC_def REGION_SEMANTIC_def REGION_WORKING_def)

lemma store_coh_stage:
  assumes "store_coh st Ls" "i < 3" "length bs \<le> 488" "length (Ls ! i) + length (vs_staged st ! i) < extent_count i"
  shows "store_coh (st\<lparr>vs_staged := (vs_staged st)[i := vs_staged st ! i @ [bs]], vs_appends := a\<rparr>) Ls"
  using assms store_cohD(7)[OF assms(1)] unfolding store_coh_def by (auto simp: nth_list_update)

lemma append_sim:
  assumes "sim_rel ims st (Suc n) (cur, poss)" "vs_append st region bs = (st', r)"
  shows "sim_rel ims st' n (spec_step (Append region bs, Appended r) (cur, poss))"
proof -
  obtain Ls H where inv: "ckpt_inv ims st Ls H" and room: "seq_room (4095 * Suc n) st"
    and cur: "cur = map (\<lambda>r. map snd (Ls ! r) @ vs_staged st ! r) [0..<3]" and H: "\<forall>(g, Ls')\<in>H. contents Ls' \<in> poss"
    using assms(1) by (auto simp: sim_rel_def)
  have coh: "store_coh st Ls"
    using inv by (simp add: ckpt_inv_def)
  note c = store_cohD[OF coh]
  have room': "seq_room (4095 * n) st"
    using room by (auto simp: seq_room_def)
  show ?thesis
  proof (cases r)
    case (Inl e)
    then have "st' = st"
      using vs.append_err[of st region bs st' e] assms(2) by simp
    then show ?thesis
      using sim_relI[OF inv room', of "(cur, poss)"] cur H Inl by simp
  next
    case (Inr off)
    let ?i = "region_index region"
    have i: "?i < 3"
      by simp
    have st': "st' = st\<lparr>vs_staged := (vs_staged st)[?i := vs_staged st ! ?i @ [bs]], vs_appends := vs_appends st + 1\<rparr>"
      and bs: "length bs \<le> 488" and idx: "\<not> of_nat (extent_count ?i) \<le> vs_record_count st ! ?i + of_nat (length (vs_staged st ! ?i))"
      using assms(2) Inr by (auto simp: vs_append_def Let_def blk_consts region_tag_index region_extent_of split: if_splits)
    have "length (Ls ! ?i) + length (vs_staged st ! ?i) < extent_count ?i"
      using idx c(2,3) c(8)[rule_format, OF i] extent_bounds(1)[OF i]
      by (auto simp: word_le_nat_alt unat_of_nat simp flip: of_nat_add)
    then have "store_coh st' Ls"
      unfolding st' by (rule store_coh_stage[OF coh i bs])
    then have "ckpt_inv ims st' Ls H"
      using inv by (simp add: ckpt_inv_def)
    moreover have "cur[?i := cur ! ?i @ [bs]] = map (\<lambda>r. map snd (Ls ! r) @ vs_staged st' ! r) [0..<3]"
      using c(7) by (intro nth_equalityI) (auto simp: cur st' nth_list_update)
    moreover have "seq_room (4095 * n) st'"
      using room' by (simp add: seq_room_def st')
    ultimately show ?thesis
      using H Inr by (intro sim_relI) auto
  qed
qed

context block_device
begin

lemma flush_sim:
  assumes "sim_rel (images d) st (Suc n) (cur, poss)" "vs_flush ops st d = (d', st', r)"
  shows "sim_rel (images d') st' n (spec_step (Flush, Flushed r) (cur, poss))"
proof -
  obtain Ls H where inv: "ckpt_inv (images d) st Ls H" and room: "seq_room (4095 * Suc n) st"
    and cur: "cur = contents (next_logs st Ls)" and H: "\<forall>(g, Ls')\<in>H. contents Ls' \<in> poss"
    using assms(1) by (auto simp: sim_rel_def contents_next)
  have "seq_room 4095 st"
    using room by (auto simp: seq_room_def)
  note fl = vs_flush_ckpt[OF inv this assms(2)]
  have room': "seq_room (4095 * n) st'"
    using fl room by (fastforce simp: seq_room_def)
  have "([[], [], []] :: bytes list list) ! r = []" if "r < 3" for r
    using that unfolding less_3_cases by auto
  then have cur1: "cur = map (\<lambda>r. map snd (next_logs st Ls ! r) @ [[], [], []] ! r) [0..<3]"
    by (auto simp: cur contents_next)
  have cur2: "cur = map (\<lambda>r. map snd (Ls ! r) @ vs_staged st ! r) [0..<3]"
    by (simp add: cur contents_next)
  from fl consider (ok) "r = Inr ()" "vs_staged st' = [[], [], []]" "ckpt_inv (images d') st' (next_logs st Ls) {(vs_gen st + 1, next_logs st Ls)}"
    | (late) "r = Inl Io" "vs_staged st' = [[], [], []]" "ckpt_inv (images d') st' (next_logs st Ls) (insert (vs_gen st + 1, next_logs st Ls) H)"
    | (early) "r = Inl Io" "vs_staged st' = vs_staged st" "ckpt_inv (images d') st' Ls H"
    by blast
  then show ?thesis
  proof cases
    case ok
    show ?thesis
      by (rule sim_relI[OF ok(3) room']) (simp_all add: ok(1,2) cur1[symmetric], simp add: cur)
  next
    case late
    show ?thesis
      by (rule sim_relI[OF late(3) room']) (use H in \<open>auto simp: late(1,2) cur1[symmetric] cur[symmetric]\<close>)
  next
    case early
    show ?thesis
      by (rule sim_relI[OF early(3) room']) (use H in \<open>auto simp: early(1,2) cur2[symmetric]\<close>)
  qed
qed

lemma store_run_sim:
  assumes "sim_rel (images d) st (length cmds + n) spec" "store_run ops cmds st d = (d', st', rs)"
  shows "sim_rel (images d') st' n (spec_run cmds rs spec) \<and> length rs = length cmds"
  using assms
proof (induction cmds arbitrary: st d spec rs)
  case (Cons c cmds)
  obtain cur poss where spec: "spec = (cur, poss)"
    by fastforce
  show ?case
  proof (cases c)
    case (Append region bs)
    obtain st1 r where app: "vs_append st region bs = (st1, r)"
      by fastforce
    then obtain rs' where run: "store_run ops cmds st1 d = (d', st', rs')" "rs = Appended r # rs'"
      using Cons.prems(2) Append by (auto split: prod.splits)
    have "sim_rel (images d) st1 (length cmds + n) (spec_step (c, Appended r) spec)"
      using append_sim[OF _ app] Cons.prems(1) by (simp add: spec Append)
    from Cons.IH[OF this run(1)] show ?thesis
      by (simp add: run(2) spec_run_def)
  next
    case Flush
    obtain d1 st1 r where fl: "vs_flush ops st d = (d1, st1, r)"
      by (metis prod_cases3)
    then obtain rs' where run: "store_run ops cmds st1 d1 = (d', st', rs')" "rs = Flushed r # rs'"
      using Cons.prems(2) Flush by (auto split: prod.splits)
    have "sim_rel (images d1) st1 (length cmds + n) (spec_step (c, Flushed r) spec)"
      using flush_sim[OF _ fl] Cons.prems(1) by (simp add: spec Flush)
    from Cons.IH[OF this run(1)] show ?thesis
      by (simp add: run(2) spec_run_def)
  qed
qed (simp add: spec_run_def)

lemma mount_fresh:
  assumes "superblock_decode (view d SB_SECTOR) = None" "mount ops d = (d', res)"
  shows "(res = Inr vs_new \<and> (\<forall>m\<in>images d'. disk_holds m 0 [[], [], []])) \<or> res = Inl Io \<and> faulty ops"
proof -
  obtain d1 b where rd: "blk_read ops d SB_SECTOR = (d1, b)"
    by fastforce
  show ?thesis
  proof (cases b)
    case None
    then show ?thesis
      using assms(2) rd by (auto simp: mount_def intro: faultyI(1))
  next
    case (Some sec)
    have sb: "superblock_encode 0 (vs_log_head vs_new) (vs_record_count vs_new) = sb_of 0 [[], [], []]"
      by (simp add: vs_new_def sb_of_def)
    obtain d2 ok1 where wr: "blk_write ops d1 SB_SECTOR (sb_of 0 [[], [], []]) = (d2, ok1)"
      by fastforce
    obtain d3 ok2 where fl: "blk_flush ops d2 = (d3, ok2)"
      by fastforce
    have m: "mount ops d = (case write_superblock ops 0 vs_new d1 of (d, _, Inl e) \<Rightarrow> (d, Inl e) | (d, st, Inr _) \<Rightarrow> (d, Inr st))"
      using rd Some assms(1) read_value[of d SB_SECTOR d1 sec] by (simp add: mount_def)
    show ?thesis
    proof (cases "ok1 \<and> ok2")
      case True
      then have "images d3 = {view d3}" "view d3 SB_SECTOR = sb_of 0 [[], [], []]"
        using write_view[OF wr] flush_state[OF fl] flush_done fl by auto
      then have "\<forall>m\<in>images d3. disk_holds m 0 [[], [], []]"
        by (simp add: disk_holds_def logs_ok_def frames_on_def less_3_cases)
      moreover have "mount ops d = (d3, Inr vs_new)"
        using m True by (simp add: write_superblock_def sb wr fl) (simp add: vs_new_def)
      ultimately show ?thesis
        using assms(2) by simp
    next
      case False
      then have "res = Inl Io \<and> faulty ops"
        using m assms(2) wr fl by (cases ok1; cases ok2) (auto simp: write_superblock_def sb intro: faultyI(2,3))
      then show ?thesis
        by simp
    qed
  qed
qed

text \<open>A disk a store may be mounted from: one that holds a checkpoint with room for \<open>n\<close> commands, or an unformatted one.\<close>

lemma start_sim:
  assumes "(\<forall>m\<in>images d0. disk_holds m g Ls) \<and> log_room (Suc (4095 * n)) Ls \<or> superblock_decode (view d0 SB_SECTOR) = None \<and> Ls = [[], [], []]"
    and "4095 * n < 2 ^ 64" "mount ops d0 = (d1, res)"
  shows "(\<exists>st. res = Inr st \<and> sim_rel (images d1) st n (contents Ls, {contents Ls})) \<or> res = Inl Io \<and> faulty ops"
proof -
  have empty: "([[], [], []] :: 'x list list) ! r = []" if "r < 3" for r
    using that unfolding less_3_cases by auto
  have sim: "sim_rel (images d1) st n (contents Ls, {contents Ls})"
    if "\<forall>m\<in>images d1. disk_holds m g Ls" "store_coh st Ls" "vs_staged st = [[], [], []]" "seq_room (4095 * n) st" for st g
  proof (rule sim_relI[of _ _ Ls "{(g, Ls)}"])
    show "ckpt_inv (images d1) st Ls {(g, Ls)}"
      using that(1,2) by (auto simp: ckpt_inv_def disk_holds_def store_coh_def)
    show "fst (contents Ls, {contents Ls}) = map (\<lambda>r. map snd (Ls ! r) @ vs_staged st ! r) [0..<3]"
      using store_cohD(2)[OF that(2)] unfolding that(3) by (auto simp: contents_def empty intro: nth_equalityI)
  qed (use that in auto)
  consider (held) "\<forall>m\<in>images d0. disk_holds m g Ls" "log_room (Suc (4095 * n)) Ls"
    | (fresh) "superblock_decode (view d0 SB_SECTOR) = None" "Ls = [[], [], []]"
    using assms(1) by auto
  then show ?thesis
  proof cases
    case held
    then show ?thesis
      using mount_holds[OF _ held(2) assms(2,3), of g] view_image[of d0] sim[of g] by auto
  next
    case fresh
    have "store_coh vs_new [[], [], []]" "seq_room (4095 * n) vs_new" "vs_staged vs_new = [[], [], []]"
      using assms(2) by (auto simp: store_coh_def seq_room_def logs_ok_def vs_new_def less_3_cases)
    then show ?thesis
      using mount_fresh[OF fresh(1) assms(3)] sim[of 0 vs_new] fresh(2) by auto
  qed
qed

text \<open>Remounting any image that a power loss may leave.\<close>

lemma remount_sim:
  assumes "sim_rel (images d) st n (cur, poss)" "view d2 \<in> images d" "mount ops d2 = (d3, res)"
  shows "(\<exists>S\<in>poss. (\<forall>r<3. prefix (S ! r) (cur ! r)) \<and> (\<exists>st2. res = Inr st2 \<and> vs_image st2 = map concat S \<and> vs_staged st2 = [[], [], []])) \<or>
    res = Inl Io \<and> faulty ops"
proof -
  obtain Ls H where inv: "ckpt_inv (images d) st Ls H" and room: "seq_room (4095 * n) st"
    and cur: "cur = map (\<lambda>r. map snd (Ls ! r) @ vs_staged st ! r) [0..<3]" and H: "\<forall>(g, Ls')\<in>H. contents Ls' \<in> poss"
    using assms(1) by (auto simp: sim_rel_def)
  obtain g Ls' where h: "(g, Ls') \<in> H" "disk_holds (view d2) g Ls'" and pre: "\<forall>r<3. prefix (Ls' ! r) (Ls ! r)"
    using ckpt_inv_holds[OF inv assms(2)] by blast
  have coh: "store_coh st Ls"
    using inv by (simp add: ckpt_inv_def)
  have len: "length Ls' = 3"
    using h(2) by (simp add: disk_holds_def logs_ok_def)
  have "unat s + Suc 0 < 2 ^ 64" if "r < 3" "s \<in> fst ` set (Ls' ! r)" for r s
  proof -
    have "s \<in> fst ` set (Ls ! r)"
      using that pre set_mono_prefix by blast
    then have "s < vs_seq st ! r"
      using store_cohD(9)[OF coh that(1)] by blast
    then show ?thesis
      using u64_bound[of "vs_seq st ! r"] by (simp add: word_less_nat_alt)
  qed
  then have "log_room (Suc 0) Ls'"
    by (simp add: log_room_def)
  from mount_holds[OF h(2) this _ assms(3)] have res: "(\<exists>st2. res = Inr st2 \<and> store_coh st2 Ls' \<and> vs_staged st2 = [[], [], []]) \<or> res = Inl Io \<and> faulty ops"
    by auto
  have "contents Ls' \<in> poss"
    using H h(1) by blast
  moreover have "prefix (contents Ls' ! r) (cur ! r)" if "r < 3" for r
    using that pre len by (auto simp: contents_def cur prefix_def)
  moreover have "vs_image st2 = map concat (contents Ls')" if "store_coh st2 Ls'" for st2
    using store_cohD(5)[OF that] by (simp add: contents_def)
  ultimately show ?thesis
    using res by blast
qed

end

section \<open>A write-back disk\<close>

text \<open>
  A device that meets the contract: a medium, a write-back cache of which any part may survive a power
  loss, and a policy that makes the \<open>n\<close>-th request fail. A refused write does not reach the cache.
\<close>

record wb_disk =
  wb_medium :: disk
  wb_cache :: "(u64 \<times> bytes) list"
  wb_clock :: nat

definition wb_apply :: "(u64 \<times> bytes) list \<Rightarrow> disk \<Rightarrow> disk" where
  "wb_apply ws m = fold (\<lambda>(s, b) m. m(s := b)) ws m"

definition wb_view :: "wb_disk \<Rightarrow> disk" where
  "wb_view d = wb_apply (wb_cache d) (wb_medium d)"

definition wb_images :: "wb_disk \<Rightarrow> disk set" where
  "wb_images d = {wb_apply ws (wb_medium d) |ws. subseq ws (wb_cache d)}"

definition wb_ops :: "(nat \<Rightarrow> bool) \<Rightarrow> wb_disk blk_ops" where
  "wb_ops fails = \<lparr>
     blk_read = (\<lambda>d s. (d\<lparr>wb_clock := Suc (wb_clock d)\<rparr>, if fails (wb_clock d) then None else Some (wb_view d s))),
     blk_write = (\<lambda>d s b. if fails (wb_clock d) then (d\<lparr>wb_clock := Suc (wb_clock d)\<rparr>, False)
       else (d\<lparr>wb_clock := Suc (wb_clock d), wb_cache := wb_cache d @ [(s, b)]\<rparr>, True)),
     blk_flush = (\<lambda>d. if fails (wb_clock d) then (d\<lparr>wb_clock := Suc (wb_clock d)\<rparr>, False)
       else (d\<lparr>wb_clock := Suc (wb_clock d), wb_medium := wb_view d, wb_cache := []\<rparr>, True))\<rparr>"

lemma subseq_snoc_cases: "subseq ws (c @ [x]) \<Longrightarrow> subseq ws c \<or> (\<exists>vs. ws = vs @ [x] \<and> subseq vs c)"
proof -
  assume "subseq ws (c @ [x])"
  then obtain vs us where "ws = vs @ us" "subseq vs c" "subseq us [x]"
    by (auto simp: subseq_append_iff)
  moreover from this(3) have "us = [] \<or> us = [x]"
    by (cases us) (auto split: if_splits)
  ultimately show ?thesis
    by auto
qed

lemma wb_apply_snoc [simp]: "wb_apply (ws @ [(s, b)]) m = (wb_apply ws m)(s := b)"
  by (simp add: wb_apply_def)

lemma wb_images_flushed: "wb_cache d = [] \<Longrightarrow> wb_images d = {wb_view d}"
proof -
  have "subseq ws [] \<longleftrightarrow> ws = []" for ws :: "(u64 \<times> bytes) list"
    by (auto dest: list_emb_Nil2)
  moreover assume "wb_cache d = []"
  ultimately show ?thesis
    by (simp add: wb_images_def wb_view_def)
qed

lemma wb_view_image: "wb_view d \<in> wb_images d"
  by (auto simp: wb_images_def wb_view_def)

interpretation wb: block_device "wb_ops fails" wb_view wb_images for fails
proof
  fix d d' s b ok
  assume wr: "blk_write (wb_ops fails) d s b = (d', ok)"
  then have c: "wb_medium d' = wb_medium d" "wb_cache d' = (if ok then wb_cache d @ [(s, b)] else wb_cache d)"
    by (auto simp: wb_ops_def split: if_splits)
  then show "wb_view d' = (wb_view d)(s := b) \<or> \<not> ok \<and> wb_view d' = wb_view d"
    by (simp add: wb_view_def)
  show "wb_images d' \<subseteq> wb_images d \<union> (\<lambda>m. m(s := b)) ` wb_images d"
  proof
    fix m assume "m \<in> wb_images d'"
    then obtain ws where ws: "m = wb_apply ws (wb_medium d)" "subseq ws (wb_cache d')"
      by (auto simp: wb_images_def c(1))
    then have "subseq ws (wb_cache d) \<or> (\<exists>vs. ws = vs @ [(s, b)] \<and> subseq vs (wb_cache d))"
      using c(2) subseq_snoc_cases[of ws "wb_cache d" "(s, b)"] by (auto split: if_splits)
    then show "m \<in> wb_images d \<union> (\<lambda>m. m(s := b)) ` wb_images d"
      using ws(1) by (auto simp: wb_images_def)
  qed
next
  fix d d' ok
  assume "blk_flush (wb_ops fails) d = (d', ok)"
  then consider "ok" "wb_medium d' = wb_view d" "wb_cache d' = []" | "wb_medium d' = wb_medium d" "wb_cache d' = wb_cache d"
    by (auto simp: wb_ops_def split: if_splits)
  then have "wb_view d' = wb_view d \<and> (wb_images d' = wb_images d \<or> wb_images d' = {wb_view d})"
    by cases (simp_all add: wb_images_flushed, simp_all add: wb_view_def wb_images_def wb_apply_def)
  then show "wb_view d' = wb_view d \<and> wb_images d' \<subseteq> wb_images d"
    by (auto simp: wb_view_image)
next
  fix d d'
  assume "blk_flush (wb_ops fails) d = (d', True)"
  then show "wb_images d' = {wb_view d'}"
    by (intro wb_images_flushed) (auto simp: wb_ops_def split: if_splits)
next
  show "wb_view d \<in> wb_images d" for d
    by (rule wb_view_image)
qed (auto simp: wb_ops_def wb_images_def wb_view_def split: if_splits)

lemma not_faulty_wb: "\<not> faulty (wb_ops (\<lambda>_. False))"
  by (simp add: faulty_def wb_ops_def)

lemma store_run_append:
  "store_run ops (cs @ cs') st d = (case store_run ops cs st d of (d, st, rs) \<Rightarrow>
     (case store_run ops cs' st d of (d, st, rs') \<Rightarrow> (d, st, rs @ rs')))"
  by (induction ops cs st d rule: store_run.induct) (auto split: prod.splits)

context block_device
begin

lemma committed_survives:
  assumes "\<not> faulty ops" "sim_rel (images d1) st (Suc (length cmds)) spec" "store_run ops (cmds @ [Flush]) st d1 = (d, st', rs)" "view d2 \<in> images d"
  shows "last rs = Flushed (Inr ()) \<and> (\<exists>d3 st2. mount ops d2 = (d3, Inr st2) \<and> vs_image st2 = map concat (fst (spec_run (cmds @ [Flush]) rs spec)) \<and> vs_staged st2 = [[], [], []])"
proof -
  obtain dm stm rs' where run: "store_run ops cmds st d1 = (dm, stm, rs')"
    by (metis prod_cases3)
  obtain d' st'' r where fl: "vs_flush ops stm dm = (d', st'', r)"
    by (metis prod_cases3)
  have eqs: "d = d'" "st' = st''" "rs = rs' @ [Flushed r]"
    using assms(3) by (simp_all add: store_run_append run fl)
  have sim: "sim_rel (images dm) stm 1 (spec_run cmds rs' spec)" and len: "length rs' = length cmds"
    using store_run_sim[of d1 st cmds 1 spec] assms(2) run by auto
  obtain cur poss where spec: "spec_run cmds rs' spec = (cur, poss)"
    by fastforce
  obtain Ls H where "ckpt_inv (images dm) stm Ls H" "seq_room 4095 stm"
    using sim by (auto simp: sim_rel_def)
  from vs_flush_ckpt[OF this fl] have r: "r = Inr ()"
    using assms(1) by auto
  have spec': "spec_run (cmds @ [Flush]) rs spec = (cur, {cur})"
    using spec len r by (simp add: spec_run_def eqs(3))
  have "sim_rel (images d) st' 0 (cur, {cur})"
    using flush_sim[of dm stm 0 cur poss] sim fl spec r by (simp add: eqs)
  moreover obtain d3 res where m: "mount ops d2 = (d3, res)"
    by fastforce
  ultimately have "\<exists>st2. res = Inr st2 \<and> vs_image st2 = map concat cur \<and> vs_staged st2 = [[], [], []]"
    using remount_sim[OF _ assms(4) m] assms(1) by blast
  then show ?thesis
    using m spec' r by (auto simp: eqs(3))
qed

end

section \<open>Properties\<close>

text \<open>
  C4: The durable store is crash consistent. Mount a disk that holds a checkpoint, or an unformatted
  one; append and flush in any order, with any request of the device failing at any time; then cut the power and
  mount any image the device may have kept. If the mount can read the disk, it restores, in all three
  regions at once, the state of the last acknowledged flush or of a flush attempted after it, and
  nothing else; in each region that is a prefix of what was appended.
\<close>

theorem crash_consistent:
  assumes "block_device ops view images"
    and "(\<forall>m\<in>images d0. disk_holds m g Ls) \<and> log_room (4095 * length cmds + 1) Ls \<or> superblock_decode (view d0 SB_SECTOR) = None \<and> Ls = [[], [], []]"
    and "4095 * length cmds < 2 ^ 64" "mount ops d0 = (d1, Inr st)" "store_run ops cmds st d1 = (d, st', rs)"
    and "spec_run cmds rs (contents Ls, {contents Ls}) = (cur, poss)" "view d2 \<in> images d" "mount ops d2 = (d3, res)"
  shows "(\<exists>S\<in>poss. (\<forall>r<3. prefix (S ! r) (cur ! r)) \<and> (\<exists>st2. res = Inr st2 \<and> vs_image st2 = map concat S \<and> vs_staged st2 = [[], [], []])) \<or>
    res = Inl Io \<and> faulty ops"
proof -
  have "sim_rel (images d1) st (length cmds) (contents Ls, {contents Ls})"
    using block_device.start_sim[OF assms(1) _ assms(3,4), of g Ls] assms(2) by auto
  from block_device.store_run_sim[OF assms(1), of d1 st cmds 0, simplified, OF this assms(5)]
  have "sim_rel (images d) st' 0 (cur, poss)"
    using assms(6) by simp
  from block_device.remount_sim[OF assms(1) this assms(7,8)] show ?thesis .
qed

text \<open>
  C30: On a device whose requests succeed, durability is achieved and not only promised: the mount
  succeeds, the final flush is acknowledged, and after a power loss the remount succeeds and
  restores everything that was accepted by an append, in every region.
\<close>

theorem flush_durable:
  assumes "block_device ops view images" "\<not> faulty ops"
    and "(\<forall>m\<in>images d0. disk_holds m g Ls) \<and> log_room (4095 * length cmds + 4096) Ls \<or> superblock_decode (view d0 SB_SECTOR) = None \<and> Ls = [[], [], []]"
    and "4095 * length cmds + 4095 < 2 ^ 64"
  shows "\<exists>d1 st. mount ops d0 = (d1, Inr st) \<and> (\<forall>d st' rs d2. store_run ops (cmds @ [Flush]) st d1 = (d, st', rs) \<and> view d2 \<in> images d \<longrightarrow>
    last rs = Flushed (Inr ()) \<and> (\<exists>d3 st2. mount ops d2 = (d3, Inr st2) \<and>
      vs_image st2 = map concat (fst (spec_run (cmds @ [Flush]) rs (contents Ls, {contents Ls}))) \<and> vs_staged st2 = [[], [], []]))"
proof -
  have n: "4095 * Suc (length cmds) = 4095 * length cmds + 4095" "Suc (4095 * length cmds + 4095) = 4095 * length cmds + 4096"
    by simp_all
  obtain d1 res where m: "mount ops d0 = (d1, res)"
    by fastforce
  have "(\<exists>st. res = Inr st \<and> sim_rel (images d1) st (Suc (length cmds)) (contents Ls, {contents Ls})) \<or> res = Inl Io \<and> faulty ops"
    by (rule block_device.start_sim[OF assms(1) _ _ m, of g]) (use assms(3,4) in \<open>simp_all only: n\<close>)
  then obtain st where "mount ops d0 = (d1, Inr st)" and sim: "sim_rel (images d1) st (Suc (length cmds)) (contents Ls, {contents Ls})"
    using m assms(2) by auto
  then show ?thesis
    using block_device.committed_survives[OF assms(1,2) sim] by auto
qed

text \<open>
  Both backing stores are append-only byte streams. For the RAM store and for the virtio-blk
  store alike, an accepted append extends exactly its own region and returns the offset at which
  the bytes then read back, a refused one changes nothing, and no append changes what earlier
  offsets or other regions read.
\<close>

theorem stores_read_your_writes:
  assumes "length (ram_buf rs r) < 2 ^ 64" "ram_append rs r b = (rs', ram_res)"
    and "vs_wf vs" "length (vs_stream vs r) < 2 ^ 64" "vs_append vs r b = (vs', vs_res)"
  shows "(\<exists>off. ram_res = Inr off \<and> ram_read_at rs' r off (replicate (length b) 0) = (b, Inr (length b))) \<and>
    (\<forall>r' off buf. r' \<noteq> r \<or> unat off + length buf \<le> length (ram_buf rs r) \<longrightarrow> ram_read_at rs' r' off buf = ram_read_at rs r' off buf) \<and>
    (case vs_res of Inl e \<Rightarrow> vs' = vs
     | Inr off \<Rightarrow> vs_wf vs' \<and> vs_read_at vs' r off (replicate (length b) 0) = (b, Inr (length b)) \<and>
         (\<forall>r' off buf. r' \<noteq> r \<or> unat off + length buf \<le> length (vs_stream vs r) \<longrightarrow> vs_read_at vs' r' off buf = vs_read_at vs r' off buf))"
proof -
  obtain off where off: "ram_res = Inr off"
    using assms(2) by (auto simp: ram_append_def Let_def)
  have ram: "ram_append rs r b = (rs', Inr off)"
    using assms(2) off by simp
  have "case vs_res of Inl e \<Rightarrow> vs' = vs
     | Inr off \<Rightarrow> vs_wf vs' \<and> vs_read_at vs' r off (replicate (length b) 0) = (b, Inr (length b)) \<and>
         (\<forall>r' off buf. r' \<noteq> r \<or> unat off + length buf \<le> length (vs_stream vs r) \<longrightarrow> vs_read_at vs' r' off buf = vs_read_at vs r' off buf)"
  proof (cases vs_res)
    case (Inl e)
    then show ?thesis
      using vs.append_err[of vs r b vs' e] assms(5) by simp
  next
    case (Inr voff)
    then have app: "vs_append vs r b = (vs', Inr voff)"
      using assms(5) by simp
    show ?thesis
      using vs.append_ok[OF assms(3) app] vs.read_your_writes[OF assms(3) app assms(4)] vs.appends_keep_reads[OF assms(3) app] Inr by simp
  qed
  then show ?thesis
    using off ram.read_your_writes[OF _ ram assms(1)] ram.appends_keep_reads[OF _ ram] by simp
qed

end
