(* ===== verification/Persist_Selftest.thy ===== *)
theory Persist_Selftest
  imports Blk_Crash
begin

text \<open>
  The outcome of the boot-time persistence self-test \<open>persist_selftest\<close> on every readable disk, and
  concrete runs of the durable store on a write-back disk.
\<close>

lemma drop_bit_epoch: "drop_bit 32 (vs_epoch st) = take_bit 32 (vs_gen st)"
  by (rule bit_word_eqI) (auto simp: vs_epoch_def bit_simps)

abbreviation sentinels :: "bytes list" where
  "sentinels \<equiv> [le_bytes 8 (0 :: u64), le_bytes 8 (1 :: u64), le_bytes 8 (2 :: u64)]"

lemma vs_append_episodic:
  assumes "store_coh st Ls" "length (Ls ! 0) + length (vs_staged st ! 0) < 4095" "length bs \<le> 488"
  shows "\<exists>off. vs_append st Episodic bs = (st\<lparr>vs_staged := (vs_staged st)[0 := vs_staged st ! 0 @ [bs]], vs_appends := vs_appends st + 1\<rparr>, Inr off)"
    "store_coh (st\<lparr>vs_staged := (vs_staged st)[0 := vs_staged st ! 0 @ [bs]], vs_appends := vs_appends st + 1\<rparr>) Ls"
proof -
  note c = store_cohD[OF assms(1)]
  have "\<not> EP_COUNT \<le> vs_record_count st ! 0 + of_nat (length (vs_staged st ! 0))"
    using assms(2) c(2,3) by (simp add: EP_COUNT_def word_le_nat_alt unat_of_nat flip: of_nat_add)
  then show "\<exists>off. vs_append st Episodic bs = (st\<lparr>vs_staged := (vs_staged st)[0 := vs_staged st ! 0 @ [bs]], vs_appends := vs_appends st + 1\<rparr>, Inr off)"
    using assms(3) by (simp add: vs_append_def Let_def blk_consts region_extent_def REGION_EPISODIC_def)
  show "store_coh (st\<lparr>vs_staged := (vs_staged st)[0 := vs_staged st ! 0 @ [bs]], vs_appends := vs_appends st + 1\<rparr>) Ls"
    by (rule store_coh_stage[OF assms(1) _ assms(3)]) (use assms(2) in \<open>simp_all add: extent_count_def\<close>)
qed

lemma append_sentinels_ok:
  assumes "store_coh st Ls" "vs_staged st = [[], [], []]" "length (Ls ! 0) \<le> 4092"
  shows "\<exists>st'. append_sentinels 3 0 st = Some st' \<and> store_coh st' Ls \<and> vs_staged st' = [sentinels, [], []] \<and> vs_gen st' = vs_gen st \<and> vs_seq st' = vs_seq st"
proof -
  let ?add = "\<lambda>st bs. st\<lparr>vs_staged := (vs_staged st)[0 := vs_staged st ! 0 @ [bs]], vs_appends := vs_appends st + 1\<rparr>"
  let ?s1 = "?add st (le_bytes 8 (0 :: u64))"
  let ?s2 = "?add ?s1 (le_bytes 8 (1 :: u64))"
  let ?s3 = "?add ?s2 (le_bytes 8 (2 :: u64))"
  have a1: "\<exists>off. vs_append st Episodic (le_bytes 8 (0 :: u64)) = (?s1, Inr off)" "store_coh ?s1 Ls"
    using vs_append_episodic[OF assms(1), of "le_bytes 8 (0 :: u64)"] assms(2,3) by auto
  have a2: "\<exists>off. vs_append ?s1 Episodic (le_bytes 8 (1 :: u64)) = (?s2, Inr off)" "store_coh ?s2 Ls"
    using vs_append_episodic[OF a1(2), of "le_bytes 8 (1 :: u64)"] assms(2,3) by auto
  have a3: "\<exists>off. vs_append ?s2 Episodic (le_bytes 8 (2 :: u64)) = (?s3, Inr off)" "store_coh ?s3 Ls"
    using vs_append_episodic[OF a2(2), of "le_bytes 8 (2 :: u64)"] assms(2,3) by auto
  have "append_sentinels 3 0 st = Some ?s3"
    using a1(1) a2(1) a3(1) by (auto simp: numeral_3_eq_3)
  then show ?thesis
    using a3(2) assms(2) by auto
qed

lemma check_sentinels_ok:
  assumes "store_coh st Ls" "vs_staged st = [[], [], []]" "map snd (Ls ! 0) = sentinels"
  shows "check_sentinels 0 [0, 1, 2] st"
proof -
  have wf: "vs_wf st"
    using assms(2) store_cohD(2,5)[OF assms(1)] by (simp add: vs_wf_def)
  have s: "vs_stream st Episodic = concat sentinels"
    using assms(2,3) store_cohD(2,5)[OF assms(1)] by (simp add: vs_stream_def)
  have r: "vs_read_at st Episodic (of_nat (k * 8)) (replicate 8 0) = (sentinels ! k, Inr 8)" if "k < 3" for k
    unfolding vs.read_at_stream[OF wf] s read_stream_def using that unfolding less_3_cases
    by (auto simp: slice_def)
  show ?thesis
    using r[of 0] r[of 1] r[of 2] by simp
qed

text \<open>The self-test on a store just mounted.\<close>

definition selftest_verdict :: "u64 \<Rightarrow> rlog list \<Rightarrow> persist_proof" where
  "selftest_verdict g Ls = (if Ls ! 0 = [] then PersistProven (g + 1) 3 g else PersistFailed 6)"

context block_device
begin

lemma selftest_mounted:
  assumes "\<not> faulty ops" "mount ops d = (d1, Inr st)" "ckpt_inv (images d1) st Ls {(g, Ls)}" "vs_gen st = g" "vs_staged st = [[], [], []]"
    and "seq_room 4096 st" "length (Ls ! 0) \<le> 4092" "unat g + 1 < 2 ^ 32"
  shows "\<exists>d' Ls'. persist_selftest ops True legacy d = (d', selftest_verdict g Ls) \<and> (\<forall>m\<in>images d'. disk_holds m (g + 1) Ls') \<and>
    length (Ls' ! 0) = length (Ls ! 0) + 3"
proof -
  have coh: "store_coh st Ls"
    using assms(3) by (simp add: ckpt_inv_def)
  obtain st1 where app: "append_sentinels 3 0 st = Some st1" "store_coh st1 Ls" "vs_staged st1 = [sentinels, [], []]" "vs_gen st1 = g" "vs_seq st1 = vs_seq st"
    using append_sentinels_ok[OF coh assms(5,7)] assms(4) by metis
  define N where "N = next_logs st1 Ls"
  obtain d2 st2 r where fl: "vs_flush ops st1 d1 = (d2, st2, r)"
    by (metis prod_cases3)
  have "ckpt_inv (images d1) st1 Ls {(g, Ls)}" "seq_room 4095 st1"
    using assms(3,6) app by (auto simp: ckpt_inv_def seq_room_def)
  from vs_flush_ckpt[OF this fl] have fin: "r = Inr ()" "vs_gen st2 = g + 1" "vs_staged st2 = [[], [], []]" "ckpt_inv (images d2) st2 N {(g + 1, N)}"
    and sq: "\<forall>r<3. unat (vs_seq st2 ! r) \<le> unat (vs_seq st ! r) + 4095"
    using assms(1) app(4,5) unfolding N_def by auto
  have "unat (g + 1) < 2 ^ 32"
    using assms(8) by (simp add: unat_word_ariths)
  then have gen: "drop_bit 32 (vs_epoch st2) = g + 1"
    unfolding drop_bit_epoch fin(2) word_unat_eq_iff unsigned_take_bit_eq by (rule take_bit_nat_eq_self)
  have holds: "\<forall>m\<in>images d2. disk_holds m (g + 1) N"
    using ckpt_inv_holds[OF fin(4)] by auto
  have room: "log_room (Suc 0) N"
    unfolding log_room_def
  proof (intro allI impI ballI)
    fix r s assume r: "r < 3" and s: "s \<in> fst ` set (N ! r)"
    have "s < vs_seq st2 ! r"
      using fin(4) s r store_cohD(9)[of st2 N r] by (auto simp: ckpt_inv_def)
    then show "unat s + Suc 0 < 2 ^ 64"
      using u64_bound[of "vs_seq st2 ! r"] by (simp add: word_less_nat_alt)
  qed
  obtain d3 res where m2: "mount ops d2 = (d3, res)"
    by fastforce
  from mount_holds[OF _ room _ m2, of "g + 1"] holds view_image[of d2] assms(1)
  obtain st3 where st3: "res = Inr st3" "store_coh st3 N" "vs_gen st3 = g + 1" "vs_staged st3 = [[], [], []]" and im3: "images d3 = images d2"
    by auto
  have N0: "N ! 0 = Ls ! 0 @ staged_log (vs_seq st1 ! 0) sentinels"
    by (simp add: N_def app(3))
  have rc: "vs_record_count st3 ! 0 = of_nat (length (Ls ! 0) + 3)"
    using store_cohD(2,3)[OF st3(2)] by (simp add: N0)
  have "of_nat (length (Ls ! 0) + 3) = (3 :: u64) \<longleftrightarrow> Ls ! 0 = []"
  proof -
    have "unat (of_nat (length (Ls ! 0) + 3) :: u64) = length (Ls ! 0) + 3"
      using assms(7) by (simp add: unat_of_nat del: of_nat_add)
    then show ?thesis
      unfolding word_unat_eq_iff by simp
  qed
  moreover have "check_sentinels 0 [0, 1, 2] st3" if "Ls ! 0 = []"
    using check_sentinels_ok[OF st3(2,4)] that by (simp add: N0)
  ultimately have "persist_selftest ops True legacy d = (d3, selftest_verdict g Ls)"
    unfolding persist_selftest_def selftest_verdict_def
    by (simp add: assms(2,4) app(1) fl fin(1) gen m2 st3(1,3) rc PERSIST_SENTINELS_def Let_def del: check_sentinels.simps)
  then show ?thesis
    using holds im3 by (intro exI[of _ d3] exI[of _ N]) (simp add: N0)
qed

end

section \<open>Properties\<close>

text \<open>
  The persistence self-test passes exactly on a fresh episodic log. On a device whose requests
  succeed, with an unformatted disk or one that holds a checkpoint of generation below \<open>2\<^sup>3\<^sup>2 - 1\<close> and
  room in the episodic log, it commits three records under the next generation; it reports success with that
  generation, three records replayed and the prior generation if the episodic log was empty, and
  failure stage 6 otherwise, so a second run on the same disk fails.
\<close>

theorem persist_selftest_exact:
  assumes "block_device ops view images" "\<not> faulty ops"
    and "(\<forall>m\<in>images d. disk_holds m g Ls) \<and> log_room 4097 Ls \<or> superblock_decode (view d SB_SECTOR) = None \<and> g = 0 \<and> Ls = [[], [], []]"
    and "length (Ls ! 0) \<le> 4092" "unat g + 1 < 2 ^ 32"
  shows "\<exists>d' Ls'. persist_selftest ops True legacy d = (d', if Ls ! 0 = [] then PersistProven (g + 1) 3 g else PersistFailed 6) \<and>
    (\<forall>m\<in>images d'. disk_holds m (g + 1) Ls') \<and> length (Ls' ! 0) = length (Ls ! 0) + 3"
proof -
  obtain d1 res where m: "mount ops d = (d1, res)"
    by fastforce
  have "\<exists>st. res = Inr st \<and> ckpt_inv (images d1) st Ls {(g, Ls)} \<and> vs_gen st = g \<and> vs_staged st = [[], [], []] \<and> seq_room 4096 st"
  proof (cases "superblock_decode (view d SB_SECTOR) = None \<and> g = 0 \<and> Ls = [[], [], []]")
    case True
    have "store_coh vs_new [[], [], []]" "seq_room 4096 vs_new" "vs_staged vs_new = [[], [], []]" "vs_gen vs_new = 0"
      by (auto simp: store_coh_def seq_room_def logs_ok_def vs_new_def less_3_cases)
    then show ?thesis
      using block_device.mount_fresh[OF assms(1) _ m] True assms(2) store_cohD(1)[of vs_new] by (auto simp: ckpt_inv_def disk_holds_def)
  next
    case False
    then have h: "\<forall>m\<in>images d. disk_holds m g Ls" and room: "log_room (Suc 4096) Ls"
      using assms(3) by auto
    have "disk_holds (view d) g Ls"
      using h block_device.view_image[OF assms(1)] by blast
    from block_device.mount_holds[OF assms(1) this room _ m] show ?thesis
      using h assms(2) store_cohD(1) by (auto simp: ckpt_inv_def disk_holds_def)
  qed
  then obtain st where st: "mount ops d = (d1, Inr st)" "ckpt_inv (images d1) st Ls {(g, Ls)}" "vs_gen st = g" "vs_staged st = [[], [], []]" "seq_room 4096 st"
    using m by auto
  show ?thesis
    using block_device.selftest_mounted[OF assms(1,2) st assms(4,5)] unfolding selftest_verdict_def .
qed

section \<open>Witnesses\<close>

text \<open>An unformatted write-back disk.\<close>

definition blank_disk :: wb_disk where
  "blank_disk = \<lparr>wb_medium = (\<lambda>_. replicate 512 0), wb_cache = [], wb_clock = 0\<rparr>"

lemma blank_disk_unformatted: "superblock_decode (wb_view blank_disk SB_SECTOR) = None"
proof -
  have "slice (replicate 512 (0 :: u8)) 0 8 ! 0 \<noteq> SB_MAGIC ! 0"
    by (simp add: slice_def SB_MAGIC_def as_bytes_def BRAND_def of_char_def)
  then have "slice (replicate 512 (0 :: u8)) 0 8 \<noteq> SB_MAGIC"
    by metis
  then show ?thesis
    by (simp add: superblock_decode_def wb_view_def wb_apply_def blank_disk_def)
qed

theorem persist_selftest_exact_witness:
  "\<exists>d' Ls'. persist_selftest (wb_ops (\<lambda>_. False)) True False blank_disk = (d', PersistProven 1 3 0) \<and>
     (\<forall>m\<in>wb_images d'. disk_holds m 1 Ls') \<and> length (Ls' ! 0) = 3"
  using persist_selftest_exact[OF wb.block_device_axioms not_faulty_wb, of blank_disk 0 "[[], [], []]" False] blank_disk_unformatted by auto

text \<open>The commit barrier fails: request 4 is the flush after the frame is written.\<close>

theorem crash_consistent_witness:
  "\<exists>d1 st. mount (wb_ops (\<lambda>n. n = 4)) blank_disk = (d1, Inr st) \<and>
    (case store_run (wb_ops (\<lambda>n. n = 4)) [Append Episodic [1], Flush] st d1 of (d, st', rs) \<Rightarrow>
     (case spec_run [Append Episodic [1], Flush] rs ([[], [], []], {[[], [], []]}) of (cur, poss) \<Rightarrow>
      (case mount (wb_ops (\<lambda>n. n = 4)) d of (d3, res) \<Rightarrow>
        (\<exists>S\<in>poss. (\<forall>r<3. prefix (S ! r) (cur ! r)) \<and> (\<exists>st2. res = Inr st2 \<and> vs_image st2 = map concat S \<and> vs_staged st2 = [[], [], []])) \<or>
        res = Inl Io \<and> faulty (wb_ops (\<lambda>n. n = 4)))))"
proof -
  have "\<exists>d1 st. mount (wb_ops (\<lambda>n. n = 4)) blank_disk = (d1, Inr st)"
    using blank_disk_unformatted by (simp add: mount_def write_superblock_def wb_ops_def blank_disk_def)
  then obtain d1 st where m: "mount (wb_ops (\<lambda>n. n = 4)) blank_disk = (d1, Inr st)"
    by blast
  have "(\<forall>m\<in>wb_images blank_disk. disk_holds m 0 [[], [], []]) \<and> log_room (4095 * length [Append Episodic [1], Flush] + 1) [[], [], []] \<or>
      superblock_decode (wb_view blank_disk SB_SECTOR) = None \<and> [[], [], []] = [[], [], [] :: rlog]"
    using blank_disk_unformatted by simp
  note cc = crash_consistent[OF wb.block_device_axioms this _ m]
  obtain d st' rs where run: "store_run (wb_ops (\<lambda>n. n = 4)) [Append Episodic [1], Flush] st d1 = (d, st', rs)"
    by (metis prod_cases3)
  obtain cur poss where spec: "spec_run [Append Episodic [1], Flush] rs ([[], [], []], {[[], [], []]}) = (cur, poss)"
    by fastforce
  obtain d3 res where rem: "mount (wb_ops (\<lambda>n. n = 4)) d = (d3, res)"
    by fastforce
  show ?thesis
    using m run spec rem cc[OF _ run _ wb_view_image rem, of cur poss]
    by (intro exI[of _ d1] exI[of _ st]) (simp add: contents_def del: store_run.simps)
qed

theorem flush_durable_witness:
  "\<exists>d1 st. mount (wb_ops (\<lambda>_. False)) blank_disk = (d1, Inr st) \<and>
    (case store_run (wb_ops (\<lambda>_. False)) [Append Semantic [7], Flush] st d1 of (d, st', rs) \<Rightarrow>
       last rs = Flushed (Inr ()) \<and> (\<exists>d3 st2. mount (wb_ops (\<lambda>_. False)) d = (d3, Inr st2) \<and>
         vs_image st2 = map concat (fst (spec_run [Append Semantic [7], Flush] rs ([[], [], []], {[[], [], []]})))))"
proof -
  have "(\<forall>m\<in>wb_images blank_disk. disk_holds m 0 [[], [], []]) \<and> log_room (4095 * length [Append Semantic [7]] + 4096) [[], [], []] \<or>
      superblock_decode (wb_view blank_disk SB_SECTOR) = None \<and> [[], [], []] = [[], [], [] :: rlog]"
    using blank_disk_unformatted by simp
  from flush_durable[OF wb.block_device_axioms not_faulty_wb this] obtain d1 st where m: "mount (wb_ops (\<lambda>_. False)) blank_disk = (d1, Inr st)"
    and all: "\<And>d st' rs d2. store_run (wb_ops (\<lambda>_. False)) [Append Semantic [7], Flush] st d1 = (d, st', rs) \<Longrightarrow> wb_view d2 \<in> wb_images d \<Longrightarrow>
      last rs = Flushed (Inr ()) \<and> (\<exists>d3 st2. mount (wb_ops (\<lambda>_. False)) d2 = (d3, Inr st2) \<and>
        vs_image st2 = map concat (fst (spec_run [Append Semantic [7], Flush] rs (contents [[], [], []], {contents [[], [], []]}))) \<and> vs_staged st2 = [[], [], []])"
    by (auto simp del: store_run.simps)
  obtain d st' rs where run: "store_run (wb_ops (\<lambda>_. False)) [Append Semantic [7], Flush] st d1 = (d, st', rs)"
    by (metis prod_cases3)
  show ?thesis
    using m run all[OF run wb_view_image]
    by (intro exI[of _ d1] exI[of _ st]) (auto simp: contents_def simp del: store_run.simps)
qed

theorem stores_read_your_writes_witness:
  "ram_read_at (fst (ram_append \<lparr>rs_ep = [], rs_sem = [], rs_wm = [9], rs_epoch = 0\<rparr> Working [1, 2])) Working 1 [0, 0] = ([1, 2], Inr 2) \<and>
   vs_read_at (fst (vs_append vs_new Working [1, 2])) Working 0 [0, 0] = ([1, 2], Inr 2)"
proof -
  let ?rs = "\<lparr>rs_ep = [], rs_sem = [], rs_wm = [9], rs_epoch = 0\<rparr>"
  have v: "vs_append vs_new Working [1, 2] = (vs_new\<lparr>vs_staged := [[], [], [[1, 2]]], vs_appends := 1\<rparr>, Inr 0)"
    by (simp add: vs_append_def vs_new_def Let_def blk_consts region_extent_def REGION_EPISODIC_def REGION_SEMANTIC_def REGION_WORKING_def WM_COUNT_def)
  have r: "ram_append ?rs Working [1, 2] = (\<lparr>rs_ep = [], rs_sem = [], rs_wm = [9, 1, 2], rs_epoch = 1\<rparr>, Inr 1)"
    by (simp add: ram_append_def)
  have wf: "vs_wf vs_new" "vs_stream vs_new Working = []"
    by (simp_all add: vs_wf_def vs_new_def vs_stream_def)
  have len: "length (ram_buf ?rs Working) < 2 ^ 64" "length (vs_stream vs_new Working) < 2 ^ 64"
    by (simp_all add: wf(2))
  note s = stores_read_your_writes[OF len(1) r wf(1) len(2) v]
  have two: "replicate 2 (0 :: u8) = [0, 0]"
    by (simp add: numeral_2_eq_2)
  show ?thesis
    using s by (auto simp: r v two)
qed

end
