(* ===== verification/Sha256.thy ===== *)
theory Sha256
  imports Prelude
begin

text \<open>
  SHA-256 as implemented in \<open>crates/tb-encode/src/sha256.rs\<close>: the compression function, the one-shot
  driver with its padding, the streaming state with \<open>update\<close> and \<open>finalize\<close>, and the known-answer test.
  The drivers are proved equal to the FIPS 180-4 definition over the padded message, and streaming to
  the one-shot hash of the concatenated pieces.
\<close>

section \<open>Compression\<close>

definition SHA256_DIGEST_LEN :: nat where "SHA256_DIGEST_LEN = 32"
definition SHA_BLOCK_LEN :: nat where "SHA_BLOCK_LEN = 64"

definition SHA_H0 :: "u32 list" where
  "SHA_H0 = [0x6A09E667, 0xBB67AE85, 0x3C6EF372, 0xA54FF53A,
             0x510E527F, 0x9B05688C, 0x1F83D9AB, 0x5BE0CD19]"

definition SHA_K :: "u32 list" where
  "SHA_K = [0x428A2F98, 0x71374491, 0xB5C0FBCF, 0xE9B5DBA5,
         0x3956C25B, 0x59F111F1, 0x923F82A4, 0xAB1C5ED5,
         0xD807AA98, 0x12835B01, 0x243185BE, 0x550C7DC3,
         0x72BE5D74, 0x80DEB1FE, 0x9BDC06A7, 0xC19BF174,
         0xE49B69C1, 0xEFBE4786, 0x0FC19DC6, 0x240CA1CC,
         0x2DE92C6F, 0x4A7484AA, 0x5CB0A9DC, 0x76F988DA,
         0x983E5152, 0xA831C66D, 0xB00327C8, 0xBF597FC7,
         0xC6E00BF3, 0xD5A79147, 0x06CA6351, 0x14292967,
         0x27B70A85, 0x2E1B2138, 0x4D2C6DFC, 0x53380D13,
         0x650A7354, 0x766A0ABB, 0x81C2C92E, 0x92722C85,
         0xA2BFE8A1, 0xA81A664B, 0xC24B8B70, 0xC76C51A3,
         0xD192E819, 0xD6990624, 0xF40E3585, 0x106AA070,
         0x19A4C116, 0x1E376C08, 0x2748774C, 0x34B0BCB5,
         0x391C0CB3, 0x4ED8AA4A, 0x5B9CCA4F, 0x682E6FF3,
         0x748F82EE, 0x78A5636F, 0x84C87814, 0x8CC70208,
         0x90BEFFFA, 0xA4506CEB, 0xBEF9A3F7, 0xC67178F2]"

text \<open>The message schedule: the block as big-endian words, then the recurrence, written in place.\<close>

definition sched_word :: "u32 list \<Rightarrow> nat \<Rightarrow> u32" where
  "sched_word w t = (let
     s0 = rotate_right 7 (w ! (t - 15)) XOR rotate_right 18 (w ! (t - 15)) XOR drop_bit 3 (w ! (t - 15));
     s1 = rotate_right 17 (w ! (t - 2)) XOR rotate_right 19 (w ! (t - 2)) XOR drop_bit 10 (w ! (t - 2))
   in w ! (t - 16) + s0 + w ! (t - 7) + s1)"

definition schedule :: "bytes \<Rightarrow> u32 list" where
  "schedule block = (let
     w = fold (\<lambda>t w. w[t := of_be_bytes (slice block (t * 4) 4)]) [0..<16] (replicate 64 0)
   in fold (\<lambda>t w. w[t := sched_word w t]) [16..<64] w)"

text \<open>One round on the working variables \<open>a .. h\<close>.\<close>

definition sha_round :: "u32 \<times> u32 \<Rightarrow> u32 list \<Rightarrow> u32 list" where
  "sha_round kw v = (case (kw, v) of ((k, w), [a, b, c, d, e, f, g, hh]) \<Rightarrow>
       let big_s1 = rotate_right 6 e XOR rotate_right 11 e XOR rotate_right 25 e;
           ch = (e AND f) XOR (NOT e AND g);
           t1 = hh + big_s1 + ch + k + w;
           big_s0 = rotate_right 2 a XOR rotate_right 13 a XOR rotate_right 22 a;
           maj = (a AND b) XOR (a AND c) XOR (b AND c);
           t2 = big_s0 + maj
       in [t1 + t2, a, b, c, d + t1, e, f, g]
   | _ \<Rightarrow> v)"

definition sha_compress :: "u32 list \<Rightarrow> bytes \<Rightarrow> u32 list" where
  "sha_compress h block = (let w = schedule block;
     v = fold sha_round (zip SHA_K w) h
   in map2 (+) h v)"

definition sha_digest_bytes :: "u32 list \<Rightarrow> bytes" where
  "sha_digest_bytes h = concat (map (be_bytes 4) h)"

section \<open>The one-shot hash\<close>

text \<open>The loop over the full blocks, on the offset.\<close>

function sha_full_blocks :: "bytes \<Rightarrow> nat \<Rightarrow> u32 list \<Rightarrow> nat \<times> u32 list" where
  "sha_full_blocks msg off h = (if length msg - off \<ge> SHA_BLOCK_LEN
     then sha_full_blocks msg (off + SHA_BLOCK_LEN) (sha_compress h (slice msg off SHA_BLOCK_LEN))
     else (off, h))"
  by auto
termination
  by (relation "measure (\<lambda>(msg, off, h). length msg - off)") (auto simp: SHA_BLOCK_LEN_def)

declare sha_full_blocks.simps [simp del]

definition sha256 :: "bytes \<Rightarrow> bytes" where
  "sha256 msg = (case sha_full_blocks msg 0 SHA_H0 of (off, h) \<Rightarrow>
     let rem = length msg - off;
         bit_len = (of_nat (length msg) :: u64) * 8;
         block = put 0 (slice msg off rem) (replicate SHA_BLOCK_LEN 0);
         block = put rem [0x80] block;
         (h, block) = (if rem \<ge> 56 then (sha_compress h block, replicate SHA_BLOCK_LEN 0) else (h, block));
         block = put 56 (be_bytes 8 bit_len) block
     in sha_digest_bytes (sha_compress h block))"

section \<open>The streaming hash\<close>

record sha_state =
  sha_h :: "u32 list"
  sha_block :: bytes
  sha_buf_len :: nat
  sha_total_len :: u64

definition sha_new :: sha_state where
  "sha_new = \<lparr>sha_h = SHA_H0, sha_block = replicate SHA_BLOCK_LEN 0, sha_buf_len = 0, sha_total_len = 0\<rparr>"

definition absorb :: "u8 \<Rightarrow> sha_state \<Rightarrow> sha_state" where
  "absorb b s = (let s = s\<lparr>sha_block := put (sha_buf_len s) [b] (sha_block s), sha_buf_len := sha_buf_len s + 1\<rparr>
   in if sha_buf_len s = SHA_BLOCK_LEN then s\<lparr>sha_h := sha_compress (sha_h s) (sha_block s), sha_buf_len := 0\<rparr> else s)"

definition sha_update :: "bytes \<Rightarrow> sha_state \<Rightarrow> sha_state" where
  "sha_update data s = (let s = fold absorb data s in s\<lparr>sha_total_len := sha_total_len s + of_nat (length data)\<rparr>)"

text \<open>\<open>zero_to n\<close> is the loop that clears the block up to position \<open>n\<close>.\<close>

definition zero_to :: "nat \<Rightarrow> sha_state \<Rightarrow> sha_state" where
  "zero_to n s = s\<lparr>sha_block := put (sha_buf_len s) (replicate (n - sha_buf_len s) 0) (sha_block s),
     sha_buf_len := max n (sha_buf_len s)\<rparr>"

definition sha_finalize :: "sha_state \<Rightarrow> bytes" where
  "sha_finalize s = (let
     bit_len = sha_total_len s * 8;
     s = s\<lparr>sha_block := put (sha_buf_len s) [0x80] (sha_block s), sha_buf_len := sha_buf_len s + 1\<rparr>;
     s = (if sha_buf_len s > 56
          then let s = zero_to SHA_BLOCK_LEN s in s\<lparr>sha_h := sha_compress (sha_h s) (sha_block s), sha_buf_len := 0\<rparr>
          else s);
     s = zero_to 56 s;
     block = put 56 (be_bytes 8 bit_len) (sha_block s)
   in sha_digest_bytes (sha_compress (sha_h s) block))"

section \<open>The known-answer test\<close>

definition KAT_ABC :: bytes where
  "KAT_ABC = [
    0xBA, 0x78, 0x16, 0xBF, 0x8F, 0x01, 0xCF, 0xEA,
    0x41, 0x41, 0x40, 0xDE, 0x5D, 0xAE, 0x22, 0x23,
    0xB0, 0x03, 0x61, 0xA3, 0x96, 0x17, 0x7A, 0x9C,
    0xB4, 0x10, 0xFF, 0x61, 0xF2, 0x00, 0x15, 0xAD]"

definition KAT_EMPTY :: bytes where
  "KAT_EMPTY = [
    0xE3, 0xB0, 0xC4, 0x42, 0x98, 0xFC, 0x1C, 0x14,
    0x9A, 0xFB, 0xF4, 0xC8, 0x99, 0x6F, 0xB9, 0x24,
    0x27, 0xAE, 0x41, 0xE4, 0x64, 0x9B, 0x93, 0x4C,
    0xA4, 0x95, 0x99, 0x1B, 0x78, 0x52, 0xB8, 0x55]"

definition KAT_ABC2 :: bytes where
  "KAT_ABC2 = [
    0x24, 0x8D, 0x6A, 0x61, 0xD2, 0x06, 0x38, 0xB8,
    0xE5, 0xC0, 0x26, 0x93, 0x0C, 0x3E, 0x60, 0x39,
    0xA3, 0x3C, 0xE4, 0x59, 0x64, 0xFF, 0x21, 0x67,
    0xF6, 0xEC, 0xED, 0xD4, 0x19, 0xDB, 0x06, 0xC1]"

definition KAT_ABC2_MSG :: bytes where
  "KAT_ABC2_MSG = map of_char ''abcdbcdecdefdefgefghfghighijhijkijkljklmklmnlmnomnopnopq''"

definition sha_kat_ok :: bool where
  "sha_kat_ok \<longleftrightarrow> (let abc = sha256 (map of_char ''abc''); empt = sha256 []; abc2 = sha256 KAT_ABC2_MSG
   in list_all (\<lambda>i. abc ! i = KAT_ABC ! i \<and> empt ! i = KAT_EMPTY ! i \<and> abc2 ! i = KAT_ABC2 ! i) [0..<SHA256_DIGEST_LEN])"

section \<open>The reference definition\<close>

text \<open>
  FIPS 180-4, sections 4 to 6: the functions on words, the schedule as a recursive sequence, the
  working variables after each round, and the hash as a fold over the blocks of the padded message,
  whose length field is the bit length as a 64-bit word.
\<close>

definition fips_Ch :: "u32 \<Rightarrow> u32 \<Rightarrow> u32 \<Rightarrow> u32" where "fips_Ch x y z = (x AND y) XOR (NOT x AND z)"
definition fips_Maj :: "u32 \<Rightarrow> u32 \<Rightarrow> u32 \<Rightarrow> u32" where "fips_Maj x y z = (x AND y) XOR (x AND z) XOR (y AND z)"
definition fips_Sigma0 :: "u32 \<Rightarrow> u32" where "fips_Sigma0 x = rotate_right 2 x XOR rotate_right 13 x XOR rotate_right 22 x"
definition fips_Sigma1 :: "u32 \<Rightarrow> u32" where "fips_Sigma1 x = rotate_right 6 x XOR rotate_right 11 x XOR rotate_right 25 x"
definition fips_sigma0 :: "u32 \<Rightarrow> u32" where "fips_sigma0 x = rotate_right 7 x XOR rotate_right 18 x XOR drop_bit 3 x"
definition fips_sigma1 :: "u32 \<Rightarrow> u32" where "fips_sigma1 x = rotate_right 17 x XOR rotate_right 19 x XOR drop_bit 10 x"

fun fips_W :: "bytes \<Rightarrow> nat \<Rightarrow> u32" where
  "fips_W M t = (if t < 16 then of_be_bytes (slice M (4 * t) 4)
     else fips_sigma1 (fips_W M (t - 2)) + fips_W M (t - 7) + fips_sigma0 (fips_W M (t - 15)) + fips_W M (t - 16))"

declare fips_W.simps [simp del]

fun fips_rounds :: "bytes \<Rightarrow> u32 list \<Rightarrow> nat \<Rightarrow> u32 \<times> u32 \<times> u32 \<times> u32 \<times> u32 \<times> u32 \<times> u32 \<times> u32" where
  "fips_rounds M H 0 = (H ! 0, H ! 1, H ! 2, H ! 3, H ! 4, H ! 5, H ! 6, H ! 7)"
| "fips_rounds M H (Suc t) = (case fips_rounds M H t of (a, b, c, d, e, f, g, h) \<Rightarrow>
     let T1 = h + fips_Sigma1 e + fips_Ch e f g + SHA_K ! t + fips_W M t; T2 = fips_Sigma0 a + fips_Maj a b c
     in (T1 + T2, a, b, c, d + T1, e, f, g))"

definition fips_compress :: "u32 list \<Rightarrow> bytes \<Rightarrow> u32 list" where
  "fips_compress H M = (case fips_rounds M H 64 of (a, b, c, d, e, f, g, h) \<Rightarrow>
     [a + H ! 0, b + H ! 1, c + H ! 2, d + H ! 3, e + H ! 4, f + H ! 5, g + H ! 6, h + H ! 7])"

definition fips_pad :: "bytes \<Rightarrow> bytes" where
  "fips_pad msg = msg @ [0x80] @ replicate ((119 - length msg mod 64) mod 64) 0 @ be_bytes 8 (of_nat (8 * length msg) :: u64)"

fun blocks64 :: "bytes \<Rightarrow> bytes list" where
  "blocks64 xs = (if length xs < 64 then [] else take 64 xs # blocks64 (drop 64 xs))"

declare blocks64.simps [simp del]

definition fips_sha256 :: "bytes \<Rightarrow> bytes" where
  "fips_sha256 msg = concat (map (be_bytes 4) (foldl fips_compress SHA_H0 (blocks64 (fips_pad msg))))"

section \<open>The compression function\<close>

lemma schedule_first:
  "n \<le> 16 \<Longrightarrow> length (fold (\<lambda>t w. w[t := of_be_bytes (slice block (t * 4) 4)]) [0..<n] (replicate 64 (0 :: u32))) = 64 \<and>
    (\<forall>t<n. fold (\<lambda>t w. w[t := of_be_bytes (slice block (t * 4) 4)]) [0..<n] (replicate 64 0) ! t = fips_W block t)"
proof (induction n)
  case 0
  then show ?case by simp
next
  case (Suc n)
  then show ?case
    by (auto simp: nth_list_update fips_W.simps[of block n] mult.commute)
qed

lemma schedule_rest:
  assumes "length w = 64" "\<forall>t<16. w ! t = fips_W block t" "16 \<le> n" "n \<le> 64"
  shows "length (fold (\<lambda>t w. w[t := sched_word w t]) [16..<n] w) = 64 \<and>
    (\<forall>t<n. fold (\<lambda>t w. w[t := sched_word w t]) [16..<n] w ! t = fips_W block t)"
  using assms(3,4)
proof (induction n rule: dec_induct)
  case base
  then show ?case
    using assms(1,2) by simp
next
  case (step n)
  let ?w = "fold (\<lambda>t w. w[t := sched_word w t]) [16..<n] w"
  have IH: "length ?w = 64" "\<And>t. t < n \<Longrightarrow> ?w ! t = fips_W block t"
    using step by simp_all
  have "sched_word ?w n = fips_W block n"
    using step.hyps IH(2)[of "n - 15"] IH(2)[of "n - 2"] IH(2)[of "n - 16"] IH(2)[of "n - 7"]
    by (simp add: sched_word_def fips_W.simps[of block n] fips_sigma0_def fips_sigma1_def Let_def ac_simps)
  then show ?case
    using step IH by (auto simp: nth_list_update less_Suc_eq)
qed

lemma schedule_fips: "length (schedule block) = 64" "t < 64 \<Longrightarrow> schedule block ! t = fips_W block t"
proof -
  let ?w = "fold (\<lambda>t w. w[t := of_be_bytes (slice block (t * 4) 4)]) [0..<16] (replicate 64 (0 :: u32))"
  have "length ?w = 64" "\<forall>t<16. ?w ! t = fips_W block t"
    using schedule_first[of 16 block] by (blast intro: order.refl)+
  then have "length (schedule block) = 64 \<and> (\<forall>t<64. schedule block ! t = fips_W block t)"
    unfolding schedule_def Let_def by (rule schedule_rest) simp_all
  then show "length (schedule block) = 64" "t < 64 \<Longrightarrow> schedule block ! t = fips_W block t"
    by blast+
qed

lemma length_SHA_K [simp]: "length SHA_K = 64"
  by (simp add: SHA_K_def)

lemma length_SHA_H0 [simp]: "length SHA_H0 = 8"
  by (simp add: SHA_H0_def)

lemma list_8E:
  assumes "length xs = 8"
  obtains a b c d e f g h where "xs = [a, b, c, d, e, f, g, h]"
  using assms by (auto simp: length_Suc_conv numeral_eq_Suc)

lemma rounds_fips:
  assumes "length H = 8" "n \<le> 64"
  shows "fold sha_round (take n (zip SHA_K (schedule block))) H =
    (case fips_rounds block H n of (a, b, c, d, e, f, g, h) \<Rightarrow> [a, b, c, d, e, f, g, h])"
  using assms(2)
proof (induction n)
  case 0
  obtain a b c d e f g h where "H = [a, b, c, d, e, f, g, h]"
    using assms(1) by (rule list_8E)
  then show ?case by simp
next
  case (Suc n)
  have "take (Suc n) (zip SHA_K (schedule block)) = take n (zip SHA_K (schedule block)) @ [(SHA_K ! n, fips_W block n)]"
    using Suc.prems by (simp add: take_Suc_conv_app_nth schedule_fips)
  then show ?case
    using Suc by (simp add: sha_round_def fips_Ch_def fips_Maj_def fips_Sigma0_def fips_Sigma1_def Let_def ac_simps split: prod.splits)
qed

lemma sha_compress_fips: "length H = 8 \<Longrightarrow> sha_compress H block = fips_compress H block"
proof -
  assume l: "length H = 8"
  then obtain a b c d e f g h where H: "H = [a, b, c, d, e, f, g, h]"
    by (rule list_8E)
  show ?thesis
    using rounds_fips[OF l, of 64 block]
    by (simp add: sha_compress_def fips_compress_def schedule_fips H Let_def ac_simps split: prod.splits)
qed

lemma length_fips_compress [simp]: "length (fips_compress H M) = 8"
  by (simp add: fips_compress_def split: prod.splits)

lemma length_fips_fold [simp]: "length H = 8 \<Longrightarrow> length (foldl fips_compress H bs) = 8"
  by (induction bs arbitrary: H) simp_all

section \<open>The drivers\<close>

lemma blocks64_append:
  "length xs mod 64 = 0 \<Longrightarrow> blocks64 (xs @ ys) = blocks64 xs @ blocks64 ys"
proof (induction xs rule: blocks64.induct)
  case (1 xs)
  show ?case
  proof (cases "length xs < 64")
    case True
    then have "xs = []"
      using 1(2) by simp
    then show ?thesis
      by (simp add: blocks64.simps[of "[]"])
  next
    case False
    then have "length (drop 64 xs) mod 64 = 0"
      using 1(2) by (simp add: le_mod_geq)
    then show ?thesis
      using 1(1) False by (simp add: blocks64.simps[of "xs @ ys"] blocks64.simps[of xs])
  qed
qed

lemma blocks64_one: "length b = 64 \<Longrightarrow> blocks64 b = [b]"
  by (simp add: blocks64.simps[of b] blocks64.simps[of "[]"])

lemma blocks64_snoc: "length xs mod 64 = 0 \<Longrightarrow> length b = 64 \<Longrightarrow> blocks64 (xs @ b) = blocks64 xs @ [b]"
  by (simp add: blocks64_append blocks64_one)

lemma length_fips_pad_tail:
  "l < 64 \<Longrightarrow> (119 - l) mod 64 = (if l < 56 then 55 - l else 56 + (63 - l))" for l :: nat
  by (cases "l < 56") (auto simp: le_mod_geq)

text \<open>The blocks of a padded message whose whole blocks are \<open>pre\<close> and whose remainder is \<open>r\<close>.\<close>

lemma pad_blocks:
  assumes "length pre mod 64 = 0" "length r < 64"
  shows "blocks64 (fips_pad (pre @ r)) = blocks64 pre @
    (let L = be_bytes 8 (of_nat (8 * length (pre @ r)) :: u64) in
      if length r < 56 then [r @ [0x80] @ replicate (55 - length r) 0 @ L]
      else [r @ [0x80] @ replicate (63 - length r) 0, replicate 56 0 @ L])"
proof -
  let ?L = "be_bytes 8 (of_nat (8 * length (pre @ r)) :: u64)"
  have m: "length (pre @ r) mod 64 = length r"
    using assms by (simp add: mod_add_eq[symmetric])
  have pad: "fips_pad (pre @ r) = pre @ r @ [0x80] @ replicate ((119 - length r) mod 64) 0 @ ?L"
    by (simp only: fips_pad_def m append_assoc)
  show ?thesis
  proof (cases "length r < 56")
    case True
    then have "fips_pad (pre @ r) = pre @ (r @ [0x80] @ replicate (55 - length r) 0 @ ?L)"
      unfolding pad length_fips_pad_tail[OF assms(2)] by simp
    then show ?thesis
      using True by (simp only: Let_def if_True) (rule blocks64_snoc, use assms in simp_all)
  next
    case False
    have "fips_pad (pre @ r) = (pre @ (r @ [0x80] @ replicate (63 - length r) 0)) @ (replicate 56 0 @ ?L)"
      using False unfolding pad length_fips_pad_tail[OF assms(2)] by (simp add: replicate_add[symmetric] add.commute)
    moreover have "blocks64 ((pre @ (r @ [0x80] @ replicate (63 - length r) 0)) @ (replicate 56 0 @ ?L)) =
        (blocks64 pre @ [r @ [0x80] @ replicate (63 - length r) 0]) @ [replicate 56 0 @ ?L]"
      using assms False by (subst blocks64_snoc, simp_all) (simp_all add: blocks64_snoc mod_add_eq[symmetric])
    ultimately show ?thesis
      using False by simp
  qed
qed

lemma sha_full_blocks_fold:
  assumes "sha_full_blocks msg off h = (off', h')" "length h = 8" "off \<le> length msg"
  shows "off \<le> off' \<and> off' \<le> length msg \<and> length msg - off' < 64 \<and> (off' - off) mod 64 = 0 \<and>
    h' = foldl fips_compress h (blocks64 (slice msg off (off' - off)))"
  using assms
proof (induction msg off h rule: sha_full_blocks.induct)
  case (1 msg off h)
  show ?case
  proof (cases "64 \<le> length msg - off")
    case True
    let ?h = "sha_compress h (slice msg off 64)"
    have l: "length ?h = 8"
      using 1(3) by (simp add: sha_compress_fips)
    have r: "sha_full_blocks msg (off + 64) ?h = (off', h')"
      using 1(2) True by (simp add: sha_full_blocks.simps[of msg off] SHA_BLOCK_LEN_def)
    have IH: "off + 64 \<le> off'" "off' \<le> length msg" "length msg - off' < 64" "(off' - (off + 64)) mod 64 = 0"
      "h' = foldl fips_compress ?h (blocks64 (slice msg (off + 64) (off' - (off + 64))))"
      using 1(1) True 1(4) l r by (auto simp: SHA_BLOCK_LEN_def)
    have "slice msg off (off' - off) = slice msg off 64 @ slice msg (off + 64) (off' - (off + 64))"
      using IH(1) take_add[of 64 "off' - (off + 64)" "drop off msg"] by (simp add: slice_def add.commute)
    then have "blocks64 (slice msg off (off' - off)) = slice msg off 64 # blocks64 (slice msg (off + 64) (off' - (off + 64)))"
      using True by (simp add: blocks64_append blocks64_one)
    moreover have "off' - off = (off' - (off + 64)) + 64"
      using IH(1) by simp
    then have "(off' - off) mod 64 = 0"
      using IH(4) by (metis mod_add_self2)
    ultimately show ?thesis
      using IH 1(3) by (simp add: sha_compress_fips)
  next
    case False
    then have "off' = off" "h' = h"
      using 1(2) by (simp_all add: sha_full_blocks.simps[of msg off] SHA_BLOCK_LEN_def)
    then show ?thesis
      using False 1(4) by (simp add: blocks64.simps[of "[]"])
  qed
qed

lemma sha256_fips: "sha256 msg = fips_sha256 msg"
proof -
  obtain off h where fb: "sha_full_blocks msg 0 SHA_H0 = (off, h)"
    by fastforce
  from sha_full_blocks_fold[OF fb] have
    off: "off \<le> length msg" "length msg - off < 64" "off mod 64 = 0" and h: "h = foldl fips_compress SHA_H0 (blocks64 (take off msg))"
    by (auto simp: slice_def)
  let ?r = "drop off msg" and ?L = "be_bytes 8 (of_nat (8 * length msg) :: u64)"
  have r: "slice msg off (length msg - off) = ?r"
    by (simp add: slice_def)
  have len: "(of_nat (length msg) :: u64) * 8 = of_nat (8 * length msg)"
    by (simp add: mult.commute)
  have blk: "put (length msg - off) [0x80] (put 0 ?r (replicate 64 0)) = ?r @ [0x80] @ replicate (63 - length ?r) 0"
    using off(2) by (simp add: put_def)
  have msg: "take off msg @ ?r = msg"
    by simp
  have "length (take off msg) mod 64 = 0" "length ?r < 64"
    using off by simp_all
  from pad_blocks[OF this] have bl: "blocks64 (fips_pad msg) = blocks64 (take off msg) @
      (if length ?r < 56 then [?r @ [0x80] @ replicate (55 - length ?r) 0 @ ?L] else [?r @ [0x80] @ replicate (63 - length ?r) 0, replicate 56 0 @ ?L])"
    by (simp only: msg Let_def)
  show ?thesis
  proof (cases "length ?r < 56")
    case True
    have "put 56 ?L (?r @ [0x80] @ replicate (63 - length ?r) 0) = ?r @ [0x80] @ replicate (55 - length ?r) 0 @ ?L"
      using True by (simp add: put_def take_Cons')
    then show ?thesis
      using True h bl by (simp add: sha256_def fips_sha256_def fb r len blk SHA_BLOCK_LEN_def Let_def sha_compress_fips sha_digest_bytes_def del: of_nat_mult)
  next
    case False
    then show ?thesis
      using h bl by (simp add: sha256_def fips_sha256_def fb r len blk SHA_BLOCK_LEN_def Let_def sha_compress_fips sha_digest_bytes_def put_def del: of_nat_mult)
  qed
qed

text \<open>The streaming state after absorbing the bytes \<open>xs\<close>: their whole blocks are folded in, the rest is buffered.\<close>

definition whole :: "bytes \<Rightarrow> bytes" where "whole xs = take (64 * (length xs div 64)) xs"
definition tail64 :: "bytes \<Rightarrow> bytes" where "tail64 xs = drop (64 * (length xs div 64)) xs"

definition absorbed :: "sha_state \<Rightarrow> bytes \<Rightarrow> bool" where
  "absorbed s xs \<longleftrightarrow> length (sha_block s) = 64 \<and> sha_buf_len s = length (tail64 xs) \<and>
     sha_h s = foldl fips_compress SHA_H0 (blocks64 (whole xs)) \<and> take (length (tail64 xs)) (sha_block s) = tail64 xs"

lemma whole_tail: "whole xs @ tail64 xs = xs" "length (whole xs) mod 64 = 0" "length (tail64 xs) < 64"
proof -
  have "64 * (length xs div 64) \<le> length xs"
    by (simp add: mult.commute)
  then show "whole xs @ tail64 xs = xs" "length (whole xs) mod 64 = 0" "length (tail64 xs) < 64"
    by (simp_all add: whole_def tail64_def min.absorb2 minus_mult_div_eq_mod)
qed

lemma whole_tail_unique:
  assumes "xs = p @ r" "length p mod 64 = 0" "length r < 64"
  shows "whole xs = p" "tail64 xs = r"
proof -
  have "length xs div 64 = length p div 64"
    using assms by (auto elim!: dvdE simp: mod_eq_0_iff_dvd)
  then have "64 * (length xs div 64) = length p"
    using assms(2) mult_div_mod_eq[of 64 "length p"] by simp
  then show "whole xs = p" "tail64 xs = r"
    by (simp_all add: whole_def tail64_def assms(1))
qed

lemma absorbed_absorb:
  assumes "absorbed s xs"
  shows "absorbed (absorb b s) (xs @ [b])"
proof -
  note a = assms[unfolded absorbed_def]
  let ?r = "tail64 xs"
  have blk: "put (length ?r) [b] (sha_block s) = ?r @ [b] @ drop (length ?r + 1) (sha_block s)"
    using a by (simp add: put_def)
  have xs: "xs @ [b] = whole xs @ (?r @ [b])"
    using whole_tail(1)[of xs] by (metis append_assoc)
  show ?thesis
  proof (cases "length ?r + 1 = 64")
    case True
    have full: "put (length ?r) [b] (sha_block s) = ?r @ [b]"
      using True a blk by simp
    have "xs @ [b] = (whole xs @ (?r @ [b])) @ []" "length (whole xs @ (?r @ [b])) mod 64 = 0" "length ([] :: bytes) < 64"
      using True whole_tail(2)[of xs] by (simp_all add: xs mod_add_eq[symmetric])
    from whole_tail_unique[OF this] have "whole (xs @ [b]) = whole xs @ (?r @ [b])" "tail64 (xs @ [b]) = []" .
    then show ?thesis
      using True a full whole_tail(2)[of xs]
      by (simp add: absorbed_def absorb_def Let_def SHA_BLOCK_LEN_def blocks64_snoc sha_compress_fips)
  next
    case False
    then have "whole (xs @ [b]) = whole xs" "tail64 (xs @ [b]) = ?r @ [b]"
      using whole_tail(2,3)[of xs] by (intro whole_tail_unique[OF xs]; simp)+
    then show ?thesis
      using False a blk whole_tail(3)[of xs] by (simp add: absorbed_def absorb_def Let_def SHA_BLOCK_LEN_def)
  qed
qed

lemma absorb_total [simp]: "sha_total_len (absorb b s) = sha_total_len s"
  by (simp add: absorb_def Let_def)

lemma absorbed_fold: "absorbed s xs \<Longrightarrow> absorbed (fold absorb ys s) (xs @ ys) \<and> sha_total_len (fold absorb ys s) = sha_total_len s"
proof (induction ys arbitrary: s xs)
  case (Cons y ys)
  from Cons.IH[OF absorbed_absorb[OF Cons.prems, of y]] show ?case
    by simp
qed simp

lemma absorbed_update:
  "absorbed s xs \<Longrightarrow> absorbed (sha_update ys s) (xs @ ys) \<and> sha_total_len (sha_update ys s) = sha_total_len s + of_nat (length ys)"
  using absorbed_fold[of s xs ys] by (simp add: sha_update_def absorbed_def Let_def)

lemma absorbed_new: "absorbed sha_new []"
  by (simp add: absorbed_def sha_new_def SHA_BLOCK_LEN_def whole_def tail64_def blocks64.simps[of "[]"])

lemma absorbed_pieces:
  "absorbed (fold sha_update ps sha_new) (concat ps) \<and> sha_total_len (fold sha_update ps sha_new) = of_nat (length (concat ps))"
proof (induction ps rule: rev_induct)
  case Nil
  then show ?case
    using absorbed_new by (simp add: sha_new_def)
next
  case (snoc p ps)
  then show ?case
    using absorbed_update[of "fold sha_update ps sha_new" "concat ps" p] by simp
qed

lemma finalize_fips:
  assumes "absorbed s xs" "sha_total_len s = of_nat (length xs)"
  shows "sha_finalize s = fips_sha256 xs"
proof -
  note a = assms(1)[unfolded absorbed_def]
  let ?r = "tail64 xs" and ?L = "be_bytes 8 (of_nat (8 * length xs) :: u64)" and ?B = "sha_block s"
  note r = whole_tail(3)[of xs]
  have len: "sha_total_len s * 8 = of_nat (8 * length xs)"
    using assms(2) by (simp add: mult.commute)
  have blk: "put (length ?r) [0x80] ?B = ?r @ [0x80] @ drop (length ?r + 1) ?B"
    using a by (simp add: put_def)
  have bl: "blocks64 (fips_pad xs) = blocks64 (whole xs) @
      (if length ?r < 56 then [?r @ [0x80] @ replicate (55 - length ?r) 0 @ ?L] else [?r @ [0x80] @ replicate (63 - length ?r) 0, replicate 56 0 @ ?L])"
    using pad_blocks[OF whole_tail(2,3), of xs xs] by (simp only: whole_tail(1) Let_def)
  show ?thesis
  proof (cases "length ?r < 56")
    case True
    have "put 56 ?L (put (length ?r + 1) (replicate (55 - length ?r) 0) (?r @ [0x80] @ drop (length ?r + 1) ?B)) =
        ?r @ [0x80] @ replicate (55 - length ?r) 0 @ ?L"
      using True a by (simp add: put_def take_Cons' drop_Cons')
    then show ?thesis
      using True a bl by (simp add: sha_finalize_def zero_to_def fips_sha256_def len blk Let_def sha_compress_fips sha_digest_bytes_def del: of_nat_mult)
  next
    case False
    have b1: "put (length ?r + 1) (replicate (63 - length ?r) 0) (?r @ [0x80] @ drop (length ?r + 1) ?B) = ?r @ [0x80] @ replicate (63 - length ?r) 0"
      using False a r by (simp add: put_def take_Cons' drop_Cons')
    have "put 56 ?L (put 0 (replicate 56 0) (?r @ [0x80] @ replicate (63 - length ?r) 0)) = replicate 56 0 @ ?L"
      using False r by (simp add: put_def)
    then show ?thesis
      using False a bl r b1 by (simp add: sha_finalize_def zero_to_def fips_sha256_def len blk Let_def SHA_BLOCK_LEN_def sha_compress_fips sha_digest_bytes_def del: of_nat_mult)
  qed
qed

section \<open>Property\<close>

text \<open>
  C32: Both SHA-256 drivers compute the FIPS 180-4 digest. For every message, the one-shot driver with
  its offset loop and one or two padding blocks, and the streaming state fed the message in any
  pieces, return the big-endian words of the compression folded over the padded message.
\<close>

theorem sha256_drivers_fips:
  "sha256 msg = fips_sha256 msg \<and> sha_finalize (fold sha_update pieces sha_new) = fips_sha256 (concat pieces)"
  using sha256_fips finalize_fips absorbed_pieces by blast

text \<open>The streaming hash of a list of pieces, as the clients use it.\<close>

lemma sha_stream: "sha_finalize (fold sha_update pieces sha_new) = sha256 (concat pieces)"
  using sha256_fips finalize_fips absorbed_pieces by metis

lemma length_sha_digest: "length (concat (map (be_bytes 4) hs)) = 4 * length hs"
  by (induction hs) simp_all

lemma length_sha256 [simp]: "length (sha256 msg) = 32"
  by (simp add: sha256_fips fips_sha256_def length_sha_digest)

end
