(* ===== verification/Lmsig.thy ===== *)
theory Lmsig
  imports Sha256
begin

text \<open>
  LMS hash-based signatures, \<open>crates/tb-encode/src/lmsig.rs\<close>: the verifier that runs in the kernel, its
  known-answer test, and the deterministic signer of the operator side. Shift counts and sizes
  (\<open>w\<close>, \<open>p\<close>, \<open>ls\<close>, \<open>h\<close>) are \<open>nat\<close>; leaf indices, node numbers and coefficients are 32-bit words. The
  signer fills a buffer from left to right and hashes it: here the concatenation of what is written.
\<close>

section \<open>Parameters\<close>

definition LMS_NODE_LEN :: nat where "LMS_NODE_LEN = SHA256_DIGEST_LEN"
definition LMS_I_LEN :: nat where "LMS_I_LEN = 16"
definition MAX_P :: nat where "MAX_P = 67"
definition MAX_H :: nat where "MAX_H = 10"
definition LMS_MSG_CAP :: nat where "LMS_MSG_CAP = 256"
definition LMOTS_SHA256_N32_W4 :: u32 where "LMOTS_SHA256_N32_W4 = 3"
definition LMOTS_SHA256_N32_W8 :: u32 where "LMOTS_SHA256_N32_W8 = 4"
definition LMS_SHA256_M32_H5 :: u32 where "LMS_SHA256_M32_H5 = 5"
definition LMS_SHA256_M32_H10 :: u32 where "LMS_SHA256_M32_H10 = 6"
definition D_PBLC :: u16 where "D_PBLC = 0x8080"
definition D_MESG :: u16 where "D_MESG = 0x8181"
definition D_LEAF :: u16 where "D_LEAF = 0x8282"
definition D_INTR :: u16 where "D_INTR = 0x8383"

lemmas lms_consts = LMS_NODE_LEN_def SHA256_DIGEST_LEN_def LMS_I_LEN_def MAX_P_def MAX_H_def LMS_MSG_CAP_def

definition ots_params :: "u32 \<Rightarrow> (nat \<times> nat \<times> nat) option" where
  "ots_params otstype = (if otstype = LMOTS_SHA256_N32_W4 then Some (4, 67, 4)
     else if otstype = LMOTS_SHA256_N32_W8 then Some (8, 34, 0) else None)"

definition lms_height :: "u32 \<Rightarrow> nat option" where
  "lms_height lmstype = (if lmstype = LMS_SHA256_M32_H5 then Some 5
     else if lmstype = LMS_SHA256_M32_H10 then Some 10 else None)"

section \<open>Coefficients and checksum\<close>

definition coef :: "bytes \<Rightarrow> nat \<Rightarrow> nat \<Rightarrow> u32" where
  "coef s i w = (let
     per_byte = 8 div w;
     byte = s ! ((i * w) div 8);
     shift = 8 - (w * (i mod per_byte) + w);
     mask = push_bit w 1 - 1
   in drop_bit shift (ucast byte) AND mask)"

definition cksm :: "bytes \<Rightarrow> nat \<Rightarrow> nat \<Rightarrow> u16" where
  "cksm q w ls = (let
     u = (8 * LMS_NODE_LEN) div w;
     maxc = push_bit w 1 - 1;
     total = fold (\<lambda>i total. total + (maxc - coef q i w)) [0..<u] (0 :: u32)
   in ucast (push_bit ls total AND 0xFFFF))"

section \<open>The verifier\<close>

lemma unat_Suc_less: "j < m \<Longrightarrow> unat (j + 1) = Suc (unat j)" for j m :: "'a::len word"
proof -
  assume "j < m"
  moreover have "unat m < 2 ^ LENGTH('a)"
    by (rule unsigned_less)
  ultimately have "unat j + 1 < 2 ^ LENGTH('a)"
    unfolding word_less_nat_alt by linarith
  then show ?thesis
    by (simp add: unat_word_ariths)
qed

text \<open>The loop that completes one Winternitz chain from step \<open>jj\<close> to \<open>maxj\<close>.\<close>

function kc_chain :: "bytes \<Rightarrow> bytes \<Rightarrow> bytes \<Rightarrow> u32 \<Rightarrow> u32 \<Rightarrow> bytes \<Rightarrow> bytes" where
  "kc_chain i_id qbe ibe maxj jj tmp = (if jj < maxj
     then kc_chain i_id qbe ibe maxj (jj + 1)
       (sha_finalize (sha_update tmp (sha_update [ucast jj] (sha_update ibe (sha_update qbe (sha_update i_id sha_new))))))
     else tmp)"
  by auto
termination
  by (relation "measure (\<lambda>(i_id, qbe, ibe, maxj, jj, tmp). unat maxj - unat jj)")
    (auto simp: unat_Suc_less word_less_nat_alt intro!: diff_less_mono2)

declare kc_chain.simps [simp del]

definition q_coefs :: "bytes \<Rightarrow> nat \<Rightarrow> nat \<Rightarrow> bytes" where
  "q_coefs qhash w ls = qhash @ be_bytes 2 (cksm qhash w ls)"

definition ots_kc :: "bytes \<Rightarrow> u32 \<Rightarrow> nat \<Rightarrow> nat \<Rightarrow> nat \<Rightarrow> bytes \<Rightarrow> bytes list \<Rightarrow> bytes \<Rightarrow> bytes option" where
  "ots_kc i_id q w p ls c y msg = (
     if p > MAX_P \<or> p = 0 \<or> length y < p \<or> length msg > LMS_MSG_CAP then None
     else let
       qbe = be_bytes 4 q;
       qhash = sha_finalize (sha_update msg (sha_update c (sha_update (be_bytes 2 D_MESG) (sha_update qbe (sha_update i_id sha_new)))));
       qc = q_coefs qhash w ls;
       hk = sha_update (be_bytes 2 D_PBLC) (sha_update qbe (sha_update i_id sha_new));
       maxj = push_bit w 1 - 1;
       hk = fold (\<lambda>i hk. sha_update (kc_chain i_id qbe (be_bytes 2 (of_nat i :: u16)) maxj (coef qc i w) (y ! i)) hk) [0..<p] hk
     in Some (sha_finalize hk))"

text \<open>The walk up the authentication path; \<open>i\<close> is the level.\<close>

function root_walk :: "bytes \<Rightarrow> bytes list \<Rightarrow> u32 \<Rightarrow> nat \<Rightarrow> bytes \<Rightarrow> bytes" where
  "root_walk i_id path node_num i tmp = (if node_num > 1
     then let
       hi = sha_update (be_bytes 2 D_INTR) (sha_update (be_bytes 4 (node_num div 2)) (sha_update i_id sha_new));
       sib = path ! i;
       hi = (if node_num AND 1 = 1 then sha_update tmp (sha_update sib hi) else sha_update sib (sha_update tmp hi))
     in root_walk i_id path (node_num div 2) (i + 1) (sha_finalize hi)
     else tmp)"
  by auto
termination
  by (relation "measure (\<lambda>(i_id, path, node_num, i, tmp). unat node_num)") (auto simp: word_less_nat_alt unat_div)

declare root_walk.simps [simp del]

definition lms_root :: "bytes \<Rightarrow> u32 \<Rightarrow> nat \<Rightarrow> bytes \<Rightarrow> bytes list \<Rightarrow> bytes" where
  "lms_root i_id q h kc path = (let
     node_num = push_bit h 1 + q;
     tmp = sha_finalize (sha_update kc (sha_update (be_bytes 2 D_LEAF) (sha_update (be_bytes 4 node_num) (sha_update i_id sha_new))))
   in root_walk i_id path node_num 0 tmp)"

definition ct_eq :: "bytes \<Rightarrow> bytes \<Rightarrow> bool" where
  "ct_eq a b \<longleftrightarrow> fold (\<lambda>i acc. acc OR (a ! i XOR b ! i)) [0..<LMS_NODE_LEN] 0 = 0"

definition lms_verify_params :: "bytes \<Rightarrow> bytes \<Rightarrow> bytes \<Rightarrow> bytes \<Rightarrow> nat \<Rightarrow> nat \<Rightarrow> nat \<Rightarrow> nat \<Rightarrow> bool" where
  "lms_verify_params root i_id msg sig w p ls h = (
     if p = 0 \<or> p > MAX_P \<or> h > MAX_H \<or> h = 0 then False
     else if length sig < 8 + LMS_NODE_LEN then False
     else let q = of_be_bytes (slice sig 0 4) in
       if q \<ge> push_bit h 1 then False
       else let
         c_off = 8; y_off = c_off + LMS_NODE_LEN; lmstype_off = y_off + LMS_NODE_LEN * p;
         path_off = lmstype_off + 4; sig_total = path_off + LMS_NODE_LEN * h
       in if length sig \<noteq> sig_total then False
       else let
         c = slice sig c_off LMS_NODE_LEN;
         y = map (\<lambda>i. slice sig (y_off + i * LMS_NODE_LEN) LMS_NODE_LEN) [0..<p];
         path = map (\<lambda>i. slice sig (path_off + i * LMS_NODE_LEN) LMS_NODE_LEN) [0..<h]
       in case ots_kc i_id q w p ls c y msg of
            None \<Rightarrow> False
          | Some kc \<Rightarrow> ct_eq (lms_root i_id q h kc path) root)"

definition lms_verify :: "bytes \<Rightarrow> bytes \<Rightarrow> bytes \<Rightarrow> bytes \<Rightarrow> bool" where
  "lms_verify root i_id msg sig = (
     if length sig < 4 + 4 + LMS_NODE_LEN + 4 then False
     else case ots_params (of_be_bytes (slice sig 4 4)) of
       None \<Rightarrow> False
     | Some (w, p, ls) \<Rightarrow>
         let lmstype_off = 8 + LMS_NODE_LEN + LMS_NODE_LEN * p in
         if length sig < lmstype_off + 4 then False
         else case lms_height (of_be_bytes (slice sig lmstype_off 4)) of
           None \<Rightarrow> False
         | Some h \<Rightarrow> lms_verify_params root i_id msg sig w p ls h)"

section \<open>The known-answer test\<close>

definition TOY_W :: nat where "TOY_W = 1"
definition TOY_P :: nat where "TOY_P = 2"
definition TOY_LS :: nat where "TOY_LS = 7"
definition TOY_H :: nat where "TOY_H = 1"

definition TOY_I :: bytes where
  "TOY_I = [
    0x00, 0x11, 0x22, 0x33, 0x44, 0x55, 0x66, 0x77, 0x88, 0x99, 0xAA, 0xBB, 0xCC, 0xDD, 0xEE, 0xFF]"

definition TOY_MSG :: bytes where "TOY_MSG = [0x33]"

definition TOY_ROOT :: bytes where
  "TOY_ROOT = [
    0x5d, 0xa0, 0x28, 0xeb, 0x55, 0x15, 0xed, 0xe1, 0xc3, 0x13, 0x1c, 0x63, 0x0f, 0xfa, 0xc6, 0x0f,
    0x8a, 0x37, 0x90, 0xe0, 0x0f, 0x2e, 0x6a, 0x84, 0x5a, 0xf4, 0x66, 0xa5, 0x43, 0x15, 0x0d, 0x13]"

definition TOY_SIG :: bytes where
  "TOY_SIG = [
    0x00, 0x00, 0x00, 0x00, 0x00, 0x00, 0x00, 0x00, 0x84, 0x96, 0x92, 0x2b, 0x02, 0xf8, 0x10, 0x2b,
    0xdb, 0xd4, 0x91, 0x2e, 0xe6, 0xf5, 0xcf, 0xba, 0xf3, 0xfd, 0x03, 0x63, 0xa6, 0x82, 0x26, 0x5e,
    0xdd, 0x60, 0x67, 0x88, 0x5c, 0xd8, 0xdb, 0xf2, 0x2a, 0xe3, 0x93, 0x16, 0x2d, 0x55, 0xc2, 0x14,
    0x6e, 0xc3, 0xd6, 0x22, 0xf9, 0xed, 0x23, 0x4a, 0xe2, 0xde, 0x1e, 0x40, 0x14, 0xdb, 0x40, 0xc7,
    0x98, 0xe8, 0x27, 0x47, 0x8f, 0x4c, 0x95, 0x7c, 0xd9, 0xb6, 0x02, 0x7c, 0x48, 0xd8, 0xfe, 0x89,
    0x77, 0x27, 0xfe, 0xc7, 0xc6, 0x7f, 0x0b, 0xe1, 0xab, 0x03, 0xda, 0x4b, 0xaa, 0x26, 0x5a, 0xeb,
    0x53, 0xb3, 0xd8, 0x32, 0x9f, 0xd0, 0xf1, 0xd3, 0x00, 0x00, 0x00, 0x00, 0x00, 0x3b, 0x65, 0x9c,
    0x0c, 0x44, 0x5a, 0xf4, 0xd0, 0x9b, 0x28, 0xf2, 0x7d, 0xc6, 0xa2, 0x48, 0x66, 0xe7, 0xa0, 0xd0,
    0x5b, 0x8d, 0xe3, 0x3b, 0xb6, 0x9b, 0xb5, 0x28, 0x78, 0x64, 0x36, 0x29]"

definition TOY_TAMPER_OTS_OFF :: nat where "TOY_TAMPER_OTS_OFF = 8"
definition TOY_TAMPER_MERKLE_OFF :: nat where "TOY_TAMPER_MERKLE_OFF = 108"

record lms_kat_result =
  kat_verified :: bool
  tamper_ots_rejected :: bool
  tamper_merkle_rejected :: bool

definition toy_verify :: "bytes \<Rightarrow> bool" where
  "toy_verify sig = lms_verify_params TOY_ROOT TOY_I TOY_MSG sig TOY_W TOY_P TOY_LS TOY_H"

definition lms_kat :: lms_kat_result where
  "lms_kat = \<lparr>kat_verified = toy_verify TOY_SIG,
     tamper_ots_rejected = (\<not> toy_verify (TOY_SIG[TOY_TAMPER_OTS_OFF := TOY_SIG ! TOY_TAMPER_OTS_OFF XOR 0x01])),
     tamper_merkle_rejected = (\<not> toy_verify (TOY_SIG[TOY_TAMPER_MERKLE_OFF := TOY_SIG ! TOY_TAMPER_MERKLE_OFF XOR 0x80]))\<rparr>"

definition lms_kat_ok :: bool where
  "lms_kat_ok \<longleftrightarrow> kat_verified lms_kat \<and> tamper_ots_rejected lms_kat \<and> tamper_merkle_rejected lms_kat"

section \<open>The pinned signed head\<close>

definition PROV_KAT_HEAD :: bytes where
  "PROV_KAT_HEAD = [
    0x8d, 0x81, 0x20, 0xa9, 0x99, 0xa1, 0xdf, 0x98, 0xd7, 0x92, 0x6d, 0xe8, 0x1a, 0xc2, 0xd0, 0x6c,
    0x19, 0x8c, 0xc2, 0x40, 0xd3, 0xc5, 0x62, 0x75, 0xd5, 0xfe, 0xfb, 0x5d, 0x4b, 0xcb, 0x0d, 0x8a]"

definition PROV_KAT_ROOT :: bytes where
  "PROV_KAT_ROOT = [
    0x4e, 0xd9, 0x95, 0xcd, 0xf5, 0xab, 0xe9, 0x09, 0x18, 0xdc, 0x32, 0xff, 0x7a, 0xfe, 0xf2, 0xac,
    0x0b, 0x62, 0xa4, 0x08, 0x95, 0xb9, 0x87, 0x18, 0xc5, 0xfb, 0x6a, 0xeb, 0x39, 0xb8, 0x55, 0xd7]"

definition PROV_KAT_Q :: u32 where "PROV_KAT_Q = 0"

text \<open>The pinned signature, in pieces of 320 bytes.\<close>

definition PROV_KAT_SIG_0 :: bytes where
  "PROV_KAT_SIG_0 = [
    0x00, 0x00, 0x00, 0x00, 0x00, 0x00, 0x00, 0x03, 0x84, 0x96, 0x92, 0x2b, 0x02, 0xf8, 0x10, 0x2b,
    0xdb, 0xd4, 0x91, 0x2e, 0xe6, 0xf5, 0xcf, 0xba, 0xf3, 0xfd, 0x03, 0x63, 0xa6, 0x82, 0x26, 0x5e,
    0xdd, 0x60, 0x67, 0x88, 0x5c, 0xd8, 0xdb, 0xf2, 0x72, 0xc7, 0x03, 0x6c, 0x5a, 0xc4, 0x0b, 0x5a,
    0xb0, 0x41, 0xaf, 0x38, 0xe3, 0x1d, 0x40, 0x99, 0xf5, 0xfc, 0xfd, 0x9a, 0x09, 0xac, 0x4b, 0x28,
    0xe6, 0xf0, 0x0b, 0x3c, 0xa8, 0x61, 0x62, 0xe8, 0x9a, 0xa2, 0xfd, 0x89, 0x1c, 0x06, 0x54, 0x63,
    0xde, 0x79, 0xda, 0x2b, 0x32, 0x07, 0x90, 0x3c, 0xe5, 0x1f, 0xf4, 0x16, 0xe2, 0x9d, 0x9b, 0xf5,
    0x91, 0x56, 0xcc, 0xa5, 0x87, 0xeb, 0x44, 0x19, 0xc0, 0xa8, 0xa7, 0x97, 0x85, 0x50, 0x33, 0xe9,
    0x64, 0x19, 0x52, 0x3c, 0xcf, 0x23, 0x0c, 0x18, 0x2a, 0x5c, 0xf6, 0xd5, 0x88, 0x0d, 0x63, 0xda,
    0x38, 0x94, 0xdf, 0x51, 0xe6, 0xde, 0x72, 0x4c, 0xf3, 0xe5, 0x1f, 0x7a, 0xac, 0xdc, 0x53, 0x27,
    0x86, 0xf7, 0xb0, 0x68, 0x46, 0xbc, 0xaa, 0x1d, 0x4a, 0x82, 0x38, 0xf3, 0x00, 0x6b, 0x29, 0x6b,
    0xe0, 0x81, 0x13, 0xd2, 0xe8, 0x85, 0x7b, 0xa3, 0x38, 0xbd, 0x38, 0x2d, 0xfa, 0xec, 0xf2, 0x0a,
    0x54, 0xa9, 0x21, 0x62, 0xd9, 0x61, 0xd7, 0x04, 0x71, 0x23, 0x5f, 0xab, 0xc9, 0xf2, 0xc0, 0x07,
    0xfb, 0x3b, 0x5b, 0x41, 0x12, 0x51, 0x21, 0x38, 0x2d, 0x4c, 0xc7, 0xb2, 0x28, 0x8b, 0xc8, 0xa7,
    0xad, 0x64, 0x65, 0x81, 0xff, 0x23, 0x9a, 0xf0, 0x1a, 0xfe, 0xeb, 0x83, 0xd8, 0x37, 0xe3, 0xb6,
    0x9e, 0x37, 0xfb, 0x42, 0xe0, 0x1f, 0x20, 0x07, 0x89, 0x01, 0x8c, 0x47, 0x71, 0x90, 0x2d, 0x85,
    0x21, 0x1e, 0xb8, 0x3e, 0x92, 0xcd, 0x06, 0x30, 0x6a, 0x3d, 0x68, 0x88, 0xa2, 0xd7, 0xd8, 0x7b,
    0xe2, 0xf5, 0x34, 0xfb, 0x20, 0x1c, 0x69, 0x29, 0xd4, 0xd3, 0x6f, 0x04, 0xfb, 0xdf, 0x5e, 0x52,
    0x59, 0x29, 0x78, 0x4d, 0xa3, 0xd9, 0xe6, 0x2b, 0xd7, 0x06, 0x92, 0xaf, 0xb9, 0x04, 0x28, 0x38,
    0x5e, 0x33, 0x74, 0xe8, 0x01, 0x93, 0xb1, 0x53, 0x68, 0x1d, 0xfc, 0x92, 0x53, 0xd3, 0x7b, 0xef,
    0xf3, 0x24, 0x4c, 0x6f, 0x69, 0x48, 0xd3, 0x45, 0x6a, 0x97, 0xdf, 0x7b, 0xc8, 0xa8, 0x84, 0xc5]"

definition PROV_KAT_SIG_1 :: bytes where
  "PROV_KAT_SIG_1 = [
    0x33, 0xf8, 0x7e, 0x1f, 0x08, 0x64, 0xab, 0x99, 0xde, 0x86, 0xcd, 0x1b, 0xbe, 0x15, 0x4a, 0xf8,
    0x17, 0x04, 0xb0, 0xe4, 0xc0, 0xa6, 0x4d, 0x80, 0x27, 0x64, 0x53, 0xf4, 0xf8, 0x6a, 0x25, 0xe3,
    0x03, 0x34, 0x45, 0x85, 0xec, 0x4a, 0x0d, 0xec, 0xd7, 0x9f, 0x0a, 0xb6, 0xb9, 0xaf, 0x34, 0x39,
    0xdf, 0xf2, 0xc3, 0x05, 0xc8, 0xb3, 0x6d, 0x42, 0xa9, 0x48, 0x9b, 0x23, 0x2c, 0x99, 0xf6, 0x54,
    0x6a, 0xdb, 0x09, 0xe7, 0xe4, 0x1f, 0x06, 0x08, 0x75, 0x61, 0x50, 0xd2, 0x48, 0x64, 0xc0, 0x7d,
    0x96, 0xac, 0xa6, 0xf6, 0x98, 0xbb, 0x64, 0xa2, 0xd6, 0xe0, 0x46, 0xe7, 0x60, 0xab, 0xa6, 0xa7,
    0xf5, 0xd6, 0x62, 0x7d, 0x36, 0x6d, 0x9f, 0xdb, 0xb5, 0xa0, 0x40, 0x11, 0xff, 0x01, 0x3c, 0x30,
    0xae, 0xde, 0x24, 0xe0, 0xa2, 0x95, 0xcb, 0x79, 0x4b, 0x14, 0xed, 0xe7, 0x52, 0x5a, 0x21, 0x1a,
    0xce, 0xbd, 0x2e, 0x4b, 0xe1, 0x8f, 0xc9, 0xca, 0xcb, 0x74, 0x26, 0x27, 0x90, 0xd0, 0x8f, 0x89,
    0x86, 0xed, 0x21, 0xb4, 0xcf, 0x7c, 0x4c, 0x5a, 0xf1, 0x7b, 0xcf, 0xb3, 0x88, 0x5d, 0xe6, 0x54,
    0x2c, 0xa0, 0x0d, 0x86, 0x5b, 0xaf, 0xae, 0xbf, 0xd6, 0x84, 0xf4, 0xc5, 0x21, 0x8c, 0x70, 0x82,
    0xf7, 0x7d, 0xe5, 0x5b, 0xf3, 0x19, 0x7a, 0x48, 0xf4, 0x8e, 0xa1, 0xd2, 0xa6, 0x48, 0x97, 0x9c,
    0xe8, 0x25, 0xc8, 0x32, 0x4e, 0x69, 0x25, 0x65, 0xc6, 0x82, 0x86, 0xfa, 0xeb, 0xc1, 0x33, 0x05,
    0x54, 0x44, 0x17, 0xb8, 0xe0, 0x68, 0x21, 0x72, 0x36, 0x38, 0x37, 0xea, 0x65, 0xc0, 0xd7, 0x8d,
    0x90, 0xe3, 0xd3, 0xf5, 0x43, 0x38, 0x2c, 0xe0, 0xe9, 0xc7, 0x23, 0xde, 0xbe, 0xe0, 0xc9, 0xb8,
    0xcc, 0xc4, 0xa1, 0xd5, 0x9e, 0xd0, 0x60, 0xb0, 0x8e, 0x87, 0xe9, 0x65, 0x41, 0xca, 0x3c, 0x72,
    0x45, 0x7c, 0x4d, 0x26, 0xcd, 0xf4, 0x7f, 0x73, 0x4b, 0x6a, 0x38, 0x80, 0x59, 0x4c, 0x0d, 0x58,
    0x2e, 0x56, 0xf5, 0x0a, 0xa8, 0x03, 0x07, 0x2e, 0x87, 0x89, 0xd5, 0x51, 0xb7, 0xf1, 0x8f, 0xd7,
    0xcc, 0x01, 0xb8, 0xdf, 0xbe, 0xf5, 0x6d, 0xe7, 0xad, 0x91, 0x65, 0xcc, 0x5f, 0x6a, 0x8c, 0x5d,
    0x5a, 0x7c, 0xb5, 0x64, 0x97, 0x99, 0x13, 0xd5, 0xf9, 0xba, 0x89, 0xaf, 0x27, 0x00, 0x10, 0x0a]"

definition PROV_KAT_SIG_2 :: bytes where
  "PROV_KAT_SIG_2 = [
    0xec, 0x68, 0x00, 0x7d, 0xad, 0xd3, 0xc9, 0xf3, 0x90, 0x64, 0x28, 0x99, 0x72, 0x7d, 0x32, 0xbe,
    0x34, 0x6d, 0xfc, 0x48, 0x0f, 0x85, 0x1f, 0xe2, 0x16, 0xbb, 0x83, 0xe0, 0xa2, 0x13, 0x1a, 0x09,
    0x3f, 0x15, 0x24, 0xb3, 0x1b, 0x47, 0x2d, 0x4a, 0x47, 0x50, 0x42, 0x06, 0xfc, 0x3a, 0xcb, 0xcd,
    0x38, 0x20, 0x6b, 0x03, 0x4b, 0xc1, 0x1b, 0xe5, 0x5e, 0x99, 0x55, 0x22, 0xa1, 0x86, 0x8c, 0xd8,
    0xfd, 0x41, 0xf8, 0x23, 0x9e, 0xe5, 0x14, 0x88, 0xd7, 0xa0, 0xc0, 0x2e, 0x4d, 0x95, 0x98, 0xc2,
    0x55, 0x1f, 0xf1, 0x7e, 0x69, 0x82, 0xb3, 0x90, 0x74, 0x75, 0x2e, 0xce, 0x3a, 0xe3, 0xa5, 0x80,
    0x7f, 0x2d, 0xa2, 0xb2, 0x00, 0x9e, 0xc1, 0x6c, 0x26, 0xcf, 0x0c, 0x14, 0x46, 0x74, 0xae, 0xd8,
    0x5d, 0x7c, 0x53, 0x9d, 0x7e, 0xe6, 0x66, 0x0b, 0x90, 0xe1, 0x6d, 0x34, 0xd9, 0x2d, 0xa4, 0x4e,
    0x53, 0xad, 0x82, 0xbb, 0x61, 0x52, 0x18, 0x8d, 0x37, 0x29, 0x28, 0x57, 0x94, 0xd9, 0x54, 0x74,
    0xbc, 0x21, 0x52, 0xe5, 0x1d, 0x5d, 0x7c, 0x06, 0x12, 0x2f, 0xba, 0x46, 0x32, 0x13, 0x97, 0x4e,
    0x20, 0x95, 0xf7, 0x19, 0xf5, 0xc2, 0xa7, 0xf7, 0x2f, 0x59, 0x8e, 0x29, 0x15, 0x5e, 0x64, 0x2c,
    0x15, 0xed, 0x6e, 0x7a, 0xbe, 0x58, 0x45, 0x1f, 0x4b, 0x1b, 0xae, 0xf0, 0xfd, 0x8e, 0x50, 0x18,
    0xc1, 0x47, 0xe6, 0x08, 0x0f, 0x96, 0xcf, 0xd1, 0xd8, 0xc8, 0x6a, 0x1c, 0xde, 0x07, 0xd2, 0x88,
    0x4b, 0x80, 0xc2, 0xdc, 0x0a, 0x57, 0xbc, 0xf5, 0x86, 0xeb, 0x95, 0x72, 0x84, 0xa0, 0xe6, 0xae,
    0xcc, 0x34, 0x50, 0x1a, 0x30, 0x36, 0x1c, 0xf8, 0xb2, 0x96, 0x15, 0xf8, 0x89, 0xc8, 0xab, 0xf4,
    0x16, 0xfe, 0x48, 0xf4, 0xe6, 0xcf, 0x3c, 0xcd, 0xde, 0xfb, 0x36, 0x59, 0x92, 0x9d, 0x73, 0x27,
    0x93, 0x50, 0xe2, 0x30, 0x0a, 0xb0, 0x6a, 0x4e, 0x6a, 0x2c, 0xec, 0x2d, 0xdf, 0xd7, 0x47, 0x98,
    0xa6, 0xaa, 0xc3, 0xc4, 0x42, 0x61, 0xab, 0xdd, 0x0f, 0x7e, 0x86, 0x86, 0xdd, 0x8e, 0x4c, 0x41,
    0x7f, 0xaf, 0xb9, 0x3a, 0x35, 0x49, 0x42, 0x76, 0x96, 0x48, 0xd9, 0x17, 0x19, 0x57, 0xbe, 0x2d,
    0x25, 0x82, 0x71, 0x73, 0x87, 0xfa, 0xe0, 0x54, 0x20, 0x79, 0xf7, 0xfc, 0x11, 0x04, 0x48, 0x7e]"

definition PROV_KAT_SIG_3 :: bytes where
  "PROV_KAT_SIG_3 = [
    0x41, 0x8b, 0x81, 0xff, 0x2f, 0xaa, 0x00, 0x00, 0xb4, 0x07, 0x86, 0x47, 0x0f, 0x9b, 0xe6, 0x16,
    0xdd, 0x33, 0x94, 0x4f, 0x8a, 0x06, 0xd1, 0x75, 0x92, 0x32, 0xaa, 0xe7, 0x03, 0x3f, 0x3a, 0xd2,
    0x6f, 0x49, 0xf1, 0x41, 0x4e, 0x33, 0x8c, 0x54, 0x57, 0x42, 0x4d, 0x27, 0xeb, 0xb6, 0x60, 0x5f,
    0x1a, 0x46, 0xe2, 0xe5, 0x2e, 0x63, 0xeb, 0xb1, 0x0a, 0xae, 0x01, 0x99, 0x17, 0xfa, 0xd8, 0xe5,
    0x13, 0xc8, 0xe9, 0x4b, 0x00, 0x5f, 0x61, 0x76, 0x22, 0x3d, 0x9a, 0x65, 0x75, 0x63, 0xd2, 0x62,
    0xf7, 0x4e, 0x5c, 0xdd, 0x5d, 0xa4, 0x78, 0xab, 0x13, 0xf0, 0x2e, 0x76, 0x2b, 0x8f, 0x88, 0x2b,
    0x42, 0xa2, 0x7d, 0x08, 0xc0, 0xc0, 0x6b, 0xc4, 0x3c, 0x56, 0xf3, 0x59, 0xa3, 0x50, 0x21, 0x23,
    0x8b, 0x84, 0x38, 0xcd, 0xda, 0x74, 0x78, 0x83, 0x32, 0x76, 0x3f, 0xd4, 0x6e, 0xb1, 0x9d, 0xa0,
    0xc9, 0x99, 0x6a, 0x77, 0xf2, 0xd7, 0x85, 0x7a, 0x5a, 0x7f, 0xd6, 0x46, 0x9f, 0x21, 0x59, 0xba,
    0x5d, 0x64, 0xbb, 0xb2, 0x1c, 0x2f, 0x6e, 0x5d, 0x70, 0xf0, 0x84, 0xeb, 0x02, 0x41, 0x43, 0x29,
    0x31, 0x02, 0x4f, 0xcf, 0x3d, 0xb1, 0xf7, 0x5e, 0xd1, 0x30, 0xad, 0x7e, 0xe8, 0xec, 0xa8, 0x45,
    0x93, 0x9c, 0x3a, 0xee, 0x0d, 0x3d, 0xc9, 0xf7, 0x6e, 0x86, 0x66, 0x7f, 0x60, 0xdc, 0xbb, 0x4c,
    0xea, 0x7b, 0xf5, 0xf7, 0xfa, 0xe6, 0x4f, 0xa8, 0xbc, 0x68, 0x2a, 0x5e, 0x46, 0x27, 0xaa, 0xb9,
    0xe9, 0x40, 0x4e, 0xcb, 0x5d, 0x77, 0xbe, 0x64, 0x70, 0xdf, 0xdf, 0x0e, 0x86, 0x15, 0xae, 0xca,
    0xaf, 0x09, 0xd7, 0xe9, 0x9f, 0x6d, 0x36, 0x2a, 0xd8, 0xb3, 0x6c, 0x75, 0xb3, 0x64, 0xc3, 0x5e,
    0x95, 0x7a, 0x91, 0x87, 0xb7, 0x4d, 0xea, 0xef, 0xf7, 0x2c, 0x80, 0xc5, 0x27, 0x58, 0x67, 0xbe,
    0xa5, 0xf7, 0x4f, 0xfa, 0x2f, 0xc1, 0x2f, 0x01, 0x9e, 0x97, 0xa2, 0x85, 0x6a, 0x8e, 0xc2, 0xf1,
    0x7d, 0xa4, 0x0a, 0x65, 0x9c, 0xd7, 0x3e, 0x96, 0x96, 0x44, 0x53, 0xad, 0x60, 0xa2, 0x18, 0xe8,
    0x4f, 0x8d, 0x36, 0x42, 0x37, 0xf7, 0x1b, 0xde, 0x03, 0x0a, 0x3d, 0xdf, 0xda, 0x2d, 0x22, 0x56,
    0x40, 0x68, 0xdf, 0xaa, 0x7f, 0x27, 0x01, 0x86, 0xc1, 0x28, 0x07, 0xcf, 0xfa, 0xf1, 0xa7, 0x0a]"

definition PROV_KAT_SIG_4 :: bytes where
  "PROV_KAT_SIG_4 = [
    0xc9, 0xec, 0x6a, 0x6f, 0x18, 0xd3, 0x82, 0x40, 0x50, 0x9d, 0x72, 0x1a, 0xb7, 0x1c, 0xb3, 0xe7,
    0xa0, 0x32, 0x89, 0x17, 0x89, 0x32, 0x10, 0xf2, 0x9c, 0xab, 0x63, 0x84, 0x9d, 0xf4, 0xbe, 0xaa,
    0xf1, 0xe3, 0xc7, 0x11, 0x7f, 0x9e, 0x24, 0x04, 0xfa, 0x43, 0xc0, 0x5a, 0xa7, 0x9b, 0xe3, 0x93,
    0xd3, 0xf8, 0x35, 0x90, 0x4c, 0x64, 0xf6, 0x3b, 0xbf, 0xc8, 0x57, 0x18, 0x09, 0x7b, 0x46, 0x37,
    0xe7, 0x07, 0x94, 0x53, 0x64, 0xfc, 0x4f, 0x63, 0x08, 0x71, 0xfc, 0xb5, 0x72, 0x6d, 0xd5, 0x78,
    0xb7, 0x63, 0x05, 0x7b, 0x3e, 0x89, 0xf3, 0x41, 0xfa, 0x42, 0x8b, 0xed, 0xee, 0x32, 0xbc, 0x3e,
    0x21, 0xa6, 0x6c, 0xbc, 0xd7, 0xc6, 0xa1, 0xfc, 0xa4, 0xea, 0x6d, 0x88, 0xf0, 0xfd, 0x2a, 0x48,
    0xad, 0x34, 0xc9, 0xfa, 0xb5, 0x55, 0x97, 0xe0, 0x87, 0x76, 0x8a, 0xce, 0x88, 0xd8, 0x3f, 0x39,
    0xbf, 0xbe, 0xfd, 0x10, 0xd8, 0xa3, 0x9c, 0x3e, 0xb3, 0xe3, 0xc3, 0x3d, 0xf0, 0x25, 0xbd, 0x7f,
    0x78, 0xeb, 0xdd, 0x87, 0x08, 0x57, 0xf9, 0xc6, 0x01, 0xe8, 0xca, 0xd8, 0xdb, 0x7e, 0x0a, 0xa7,
    0x1a, 0xe1, 0x0c, 0x70, 0x8d, 0x3c, 0x3c, 0xee, 0x8c, 0x71, 0xa8, 0xb1, 0x1d, 0x8a, 0xa7, 0xf7,
    0x4c, 0x22, 0x65, 0xea, 0x99, 0xd8, 0x06, 0x0f, 0x11, 0xc1, 0xbd, 0x3a, 0xd0, 0x77, 0x39, 0x23,
    0xdc, 0xde, 0xe5, 0xf3, 0x7c, 0xcb, 0x4d, 0x3f, 0xfc, 0xdc, 0x25, 0x3e, 0x0c, 0x79, 0x37, 0x86,
    0xdf, 0x1f, 0xf5, 0xd2, 0xed, 0xf5, 0x42, 0x0b, 0x5e, 0x6b, 0xd7, 0xd6, 0x8c, 0x6e, 0x20, 0x14,
    0x43, 0xd4, 0x14, 0x24, 0x58, 0x38, 0x3c, 0x0f, 0x52, 0x2e, 0xc2, 0xe1, 0xa0, 0xae, 0xce, 0x80,
    0xec, 0x10, 0xf2, 0x0d, 0xdb, 0xa2, 0x39, 0x2f, 0x0a, 0xa1, 0xe6, 0xa9, 0x06, 0x4d, 0x7b, 0x10,
    0xe5, 0x18, 0xe5, 0x99, 0xae, 0x17, 0x95, 0xb1, 0xa2, 0x01, 0x35, 0x10, 0x73, 0x26, 0x40, 0x76,
    0xc9, 0xa4, 0x21, 0x35, 0x5d, 0x12, 0xd9, 0x7e, 0x4e, 0x1d, 0x59, 0x47, 0x80, 0xe9, 0xe0, 0xb7,
    0xe4, 0x01, 0x29, 0xcb, 0xe3, 0x49, 0xfb, 0xe2, 0xc3, 0x90, 0x3a, 0x1e, 0xcd, 0xe7, 0x42, 0xf0,
    0x8a, 0x26, 0xf1, 0x40, 0x8d, 0xfd, 0x02, 0xaf, 0x27, 0xbe, 0x3d, 0xb1, 0x8c, 0x32, 0xb4, 0x19]"

definition PROV_KAT_SIG_5 :: bytes where
  "PROV_KAT_SIG_5 = [
    0x7d, 0x24, 0x02, 0x4f, 0x97, 0xf1, 0xb0, 0xd9, 0x04, 0xdb, 0x33, 0x97, 0x4a, 0x9c, 0x0b, 0x72,
    0xfd, 0x88, 0xfa, 0x69, 0xfd, 0x20, 0x4f, 0x6c, 0x29, 0x12, 0xba, 0xa1, 0x05, 0x73, 0x2c, 0xca,
    0x33, 0xe1, 0x73, 0x69, 0xc6, 0xf3, 0x74, 0x36, 0x89, 0x8b, 0x42, 0x1c, 0x9b, 0x02, 0x74, 0x83,
    0x32, 0x47, 0x63, 0x12, 0xd8, 0x35, 0x50, 0x0f, 0x84, 0x3f, 0x3a, 0x74, 0x77, 0x73, 0xc4, 0xee,
    0x86, 0xc6, 0xa4, 0x45, 0x01, 0xaf, 0xa5, 0xa5, 0xd4, 0x93, 0xf4, 0x67, 0xd5, 0xf6, 0xd9, 0x77,
    0xd4, 0x44, 0xcb, 0xe9, 0x4e, 0x77, 0xba, 0xf7, 0x5f, 0x4f, 0xfb, 0x05, 0xd4, 0x46, 0x4d, 0xe5,
    0xab, 0x5e, 0x58, 0xe3, 0xd1, 0xd1, 0x70, 0x23, 0x9b, 0xc8, 0xc0, 0x1b, 0x2a, 0x4f, 0x58, 0xd7,
    0x59, 0xa7, 0x63, 0x3f, 0x92, 0xba, 0xa5, 0xa8, 0x0e, 0xd8, 0x13, 0x80, 0x85, 0x06, 0xf3, 0x79,
    0xd7, 0xfb, 0xf9, 0x1f, 0xa1, 0xc3, 0x34, 0x5f, 0x40, 0x08, 0xbd, 0x7c, 0xd5, 0xa5, 0x99, 0x14,
    0x73, 0x90, 0xe6, 0x08, 0x54, 0x03, 0xf1, 0x51, 0x21, 0x48, 0x98, 0x87, 0xb4, 0x9b, 0x8c, 0xe1,
    0x9e, 0x26, 0xbd, 0xa4, 0x54, 0xda, 0x1a, 0x3c, 0x33, 0xeb, 0x47, 0x20, 0x33, 0x91, 0x41, 0xfc,
    0xcc, 0xfd, 0x6f, 0x87, 0x2b, 0xb6, 0x25, 0x7b, 0x21, 0xb0, 0x8e, 0x93, 0x92, 0x67, 0x4b, 0x32,
    0x14, 0xc7, 0xd5, 0xf4, 0xaa, 0x55, 0xeb, 0x85, 0xd9, 0xec, 0xe0, 0x90, 0x69, 0xef, 0x17, 0x8d,
    0x84, 0x4d, 0x54, 0x8b, 0xbe, 0x8d, 0x30, 0xa4, 0x1d, 0xa3, 0x09, 0x38, 0x44, 0xb2, 0xde, 0x75,
    0xd5, 0x52, 0xed, 0x4e, 0xff, 0xd8, 0x5c, 0xae, 0x3d, 0x77, 0xaa, 0x8e, 0xa4, 0x7d, 0xe1, 0x73,
    0xd3, 0xaa, 0x39, 0xbe, 0xf6, 0x8f, 0x72, 0x4d, 0x0f, 0xdb, 0x35, 0xec, 0xd1, 0xa3, 0xf0, 0xc3,
    0x86, 0xff, 0x33, 0x18, 0x2d, 0xdf, 0x83, 0x5a, 0x0b, 0xc7, 0xd2, 0xfd, 0xd5, 0x15, 0x41, 0xee,
    0xf8, 0xbd, 0x7a, 0x11, 0x81, 0xa3, 0x77, 0x7c, 0x40, 0xe3, 0x3d, 0x34, 0x14, 0xbd, 0x45, 0x0b,
    0xd4, 0x95, 0x68, 0x0f, 0x7a, 0x50, 0x22, 0xe8, 0x05, 0xda, 0x85, 0xf4, 0x5e, 0x2d, 0x0a, 0x5a,
    0x64, 0x08, 0x08, 0x12, 0x6f, 0x3d, 0x8e, 0xc6, 0x49, 0x56, 0x8f, 0xb9, 0x39, 0xe5, 0x22, 0x6c]"

definition PROV_KAT_SIG_6 :: bytes where
  "PROV_KAT_SIG_6 = [
    0xf5, 0x75, 0x2e, 0xf9, 0x6c, 0xea, 0x5f, 0x1c, 0x9f, 0x44, 0x12, 0x25, 0x1b, 0xe9, 0xa6, 0x89,
    0x27, 0x89, 0xac, 0x47, 0x46, 0xef, 0x78, 0xb7, 0xf2, 0xe9, 0x35, 0x44, 0x68, 0x36, 0x8c, 0xf6,
    0xac, 0x1e, 0x92, 0x6f, 0x03, 0x01, 0xef, 0x62, 0xd8, 0x26, 0x82, 0x5a, 0xab, 0x4b, 0xdc, 0xcb,
    0xad, 0xfd, 0x4f, 0x07, 0x2c, 0x1a, 0x00, 0x2d, 0x3a, 0x54, 0x98, 0x8c, 0xab, 0xab, 0x04, 0xfc,
    0x6c, 0x53, 0x26, 0xc0, 0x80, 0x61, 0x0c, 0xc6, 0x1c, 0x65, 0xdf, 0x63, 0x26, 0xdc, 0x10, 0xb7,
    0x38, 0x61, 0xd5, 0x34, 0xc3, 0x15, 0xcc, 0xe4, 0x72, 0xa4, 0x4a, 0x69, 0xde, 0xc7, 0xce, 0xac,
    0x15, 0xd8, 0xfc, 0xc1, 0x53, 0x87, 0xbf, 0x56, 0x3c, 0x8e, 0x5c, 0x32, 0xd3, 0x0a, 0x65, 0x03,
    0xc8, 0x6c, 0x86, 0x7f, 0xbf, 0x72, 0xc6, 0x47, 0xb2, 0x3c, 0x40, 0x25, 0xb6, 0x3b, 0xdf, 0x2e,
    0x9d, 0x76, 0x54, 0xdc, 0xef, 0xce, 0x27, 0x71, 0xb2, 0x72, 0x6c, 0xb3, 0x87, 0xe3, 0xdc, 0x01,
    0xbf, 0x07, 0xd4, 0xcc, 0xab, 0xcb, 0xa3, 0x7a, 0x63, 0xcd, 0x47, 0x42, 0x16, 0xaf, 0x05, 0x66,
    0xae, 0x75, 0x40, 0x9f, 0x4c, 0xea, 0x8b, 0xad, 0xc2, 0x91, 0xac, 0x0d, 0x91, 0xbd, 0x1d, 0xcb,
    0x81, 0x07, 0xe5, 0x57, 0xc3, 0x37, 0x20, 0x7b, 0x1d, 0x9b, 0xb9, 0xb7, 0xed, 0x06, 0xcf, 0xbf,
    0xe7, 0x16, 0xd6, 0xb7, 0x21, 0xc0, 0x7b, 0xa8, 0x41, 0x77, 0x86, 0x9e, 0x76, 0x10, 0x15, 0xaa,
    0xc8, 0x56, 0x25, 0xff, 0xaa, 0xdb, 0xc1, 0xe0, 0xcc, 0x22, 0x41, 0xa0, 0x02, 0x27, 0xc3, 0x44,
    0x9b, 0x31, 0x80, 0xe8, 0x2d, 0xc2, 0xf8, 0x98, 0xe3, 0xaf, 0x04, 0xc6, 0xb9, 0xf6, 0xd9, 0x57,
    0x94, 0x0e, 0x61, 0x07, 0xb3, 0x7f, 0xcf, 0xcd, 0xe0, 0x40, 0xaf, 0x09, 0x08, 0xae, 0x84, 0xea,
    0xa1, 0x0c, 0x61, 0xaf, 0x05, 0x12, 0xbe, 0x1f, 0x00, 0x00, 0x00, 0x06, 0xc4, 0x96, 0x1f, 0x20,
    0xed, 0x3a, 0x62, 0x8b, 0x53, 0x8c, 0x9f, 0xe4, 0x99, 0xe0, 0x1e, 0x20, 0xc3, 0xfa, 0x76, 0x22,
    0x65, 0x38, 0xcd, 0x3f, 0x6b, 0xa7, 0x84, 0x72, 0xdd, 0x69, 0xd7, 0x58, 0xbf, 0x7a, 0x0c, 0x65,
    0x71, 0x26, 0x33, 0xaa, 0xdb, 0x05, 0x51, 0xe1, 0xfe, 0x06, 0x82, 0x60, 0x43, 0xe7, 0xf0, 0xe4]"

definition PROV_KAT_SIG_7 :: bytes where
  "PROV_KAT_SIG_7 = [
    0x37, 0x91, 0xcc, 0x96, 0x80, 0x07, 0x23, 0xf2, 0xe6, 0xe9, 0x0c, 0xd2, 0x07, 0xef, 0xec, 0x25,
    0x8b, 0x55, 0x2f, 0xb7, 0x90, 0x50, 0xa3, 0xe2, 0x65, 0x2c, 0xd0, 0x93, 0x05, 0x74, 0x08, 0x4f,
    0xab, 0x2b, 0xe1, 0x5f, 0x8b, 0x89, 0xaf, 0xc8, 0x26, 0x0c, 0xd0, 0xd6, 0x5f, 0xb4, 0x0d, 0xa9,
    0x20, 0xec, 0x6a, 0x81, 0x14, 0x34, 0xcd, 0x53, 0x95, 0xb8, 0xcd, 0x6c, 0xd5, 0x19, 0x6a, 0xb7,
    0xa9, 0xb7, 0x0e, 0xcb, 0x28, 0x19, 0xc7, 0x6a, 0x7c, 0xaf, 0x0c, 0xd1, 0x90, 0x5c, 0xa2, 0xa3,
    0x7f, 0x3c, 0xfc, 0xfb, 0x1e, 0xa9, 0xf1, 0x1a, 0xa2, 0xf6, 0x78, 0xc4, 0xc8, 0x90, 0x25, 0x88,
    0xfe, 0x7c, 0xa3, 0x91, 0x2a, 0x6d, 0x24, 0x63, 0x9d, 0x7a, 0x6d, 0xa5, 0xf0, 0x5b, 0x31, 0xd4,
    0x0a, 0xa8, 0xe0, 0x88, 0x85, 0x7f, 0xaa, 0x64, 0x54, 0x00, 0x46, 0x94, 0xa6, 0x22, 0x0b, 0x17,
    0x19, 0x55, 0x93, 0x9e, 0x15, 0x7b, 0xb7, 0xa1, 0xac, 0xa9, 0xe0, 0x2b, 0x78, 0xd7, 0xb1, 0xa9,
    0x59, 0xd0, 0xb5, 0xe8, 0xdb, 0x96, 0xb8, 0xb4, 0x9b, 0x6d, 0x73, 0xfe, 0x87, 0xef, 0xaf, 0x21,
    0x5f, 0x0e, 0xb2, 0xa3, 0x20, 0xbd, 0x69, 0xca, 0x7a, 0xfe, 0xa6, 0x07, 0x19, 0x7e, 0xf5, 0x1e,
    0x96, 0x25, 0x3e, 0x8b, 0x84, 0x01, 0xdb, 0x7b, 0x3f, 0xcd, 0xe9, 0x8d, 0x2b, 0xb5, 0xa2, 0xbd,
    0x00, 0x24, 0x29, 0x51, 0xc8, 0x73, 0x8d, 0x60, 0x7e, 0x36, 0xe5, 0x25, 0x60, 0xb0, 0xc9, 0x7f,
    0xb8, 0x42, 0x15, 0xae, 0x0c, 0x1a, 0x2f, 0xae, 0xe5, 0x51, 0x8c, 0xda, 0xa0, 0xe7, 0x17, 0x08,
    0x01, 0xb5, 0x39, 0x90, 0x33, 0x95, 0x7a, 0x8a, 0x78, 0x82, 0xfc, 0xd9, 0xf7, 0x8d, 0x5c, 0x2d,
    0xfd, 0x08, 0x13, 0x7b, 0x05, 0x46, 0xe0, 0x37, 0x56, 0x4d, 0x98, 0x0e, 0x36, 0xe2, 0x35, 0xaf,
    0xbf, 0xd5, 0x75, 0xf3, 0x23, 0x10, 0x84, 0xd3, 0x1f, 0x70, 0x63, 0x31]"

definition PROV_KAT_SIG :: bytes where
  "PROV_KAT_SIG = PROV_KAT_SIG_0 @ PROV_KAT_SIG_1 @ PROV_KAT_SIG_2 @ PROV_KAT_SIG_3 @ PROV_KAT_SIG_4 @ PROV_KAT_SIG_5 @ PROV_KAT_SIG_6 @ PROV_KAT_SIG_7"

section \<open>The signer\<close>

definition priv_elt :: "bytes \<Rightarrow> u32 \<Rightarrow> nat \<Rightarrow> bytes \<Rightarrow> bytes" where
  "priv_elt i_id q i seed = sha256 (i_id @ be_bytes 4 q @ be_bytes 2 (of_nat i :: u16) @ [0xff] @ seed)"

function lms_chain :: "bytes \<Rightarrow> u32 \<Rightarrow> nat \<Rightarrow> bytes \<Rightarrow> u32 \<Rightarrow> u32 \<Rightarrow> bytes" where
  "lms_chain i_id q i tmp j j_end = (if j < j_end
     then lms_chain i_id q i (sha256 (i_id @ be_bytes 4 q @ be_bytes 2 (of_nat i :: u16) @ [ucast j] @ tmp)) (j + 1) j_end
     else tmp)"
  by auto
termination
  by (relation "measure (\<lambda>(i_id, q, i, tmp, j, j_end). unat j_end - unat j)")
    (auto simp: unat_Suc_less word_less_nat_alt intro!: diff_less_mono2)

declare lms_chain.simps [simp del]

definition ots_pubkey :: "bytes \<Rightarrow> u32 \<Rightarrow> nat \<Rightarrow> nat \<Rightarrow> bytes \<Rightarrow> bytes" where
  "ots_pubkey i_id q w p seed = (let maxj = push_bit w 1 - 1 in
     sha256 (i_id @ be_bytes 4 q @ be_bytes 2 D_PBLC @
       concat (map (\<lambda>i. lms_chain i_id q i (priv_elt i_id q i seed) 0 maxj) [0..<p])))"

definition leaf_hash :: "bytes \<Rightarrow> nat \<Rightarrow> u32 \<Rightarrow> bytes \<Rightarrow> bytes" where
  "leaf_hash i_id h q k_q = sha256 (i_id @ be_bytes 4 (push_bit h 1 + q) @ be_bytes 2 D_LEAF @ k_q)"

definition intr_hash :: "bytes \<Rightarrow> u32 \<Rightarrow> bytes \<Rightarrow> bytes \<Rightarrow> bytes" where
  "intr_hash i_id node left right = sha256 (i_id @ be_bytes 4 node @ be_bytes 2 D_INTR @ left @ right)"

text \<open>The tree as an array by node number: first the leaves, then the interior from the last to node 1.\<close>

definition build_tree :: "bytes \<Rightarrow> bytes \<Rightarrow> nat \<Rightarrow> nat \<Rightarrow> nat \<Rightarrow> bytes \<times> bytes list" where
  "build_tree i_id seed w p h = (let
     leaves = 2 ^ h;
     nodes = replicate (2 * 2 ^ MAX_H) (replicate LMS_NODE_LEN 0);
     nodes = fold (\<lambda>q nodes. nodes[leaves + q := leaf_hash i_id h (of_nat q) (ots_pubkey i_id (of_nat q) w p seed)]) [0..<leaves] nodes;
     nodes = fold (\<lambda>node nodes. nodes[node := intr_hash i_id (of_nat node) (nodes ! (2 * node)) (nodes ! (2 * node + 1))]) (rev [1..<leaves]) nodes
   in (nodes ! 1, nodes))"

definition public_root :: "bytes \<Rightarrow> bytes \<Rightarrow> nat \<Rightarrow> nat \<Rightarrow> nat \<Rightarrow> bytes" where
  "public_root i_id seed w p h = fst (build_tree i_id seed w p h)"

definition randomizer :: "bytes \<Rightarrow> u32 \<Rightarrow> bytes \<Rightarrow> bytes" where
  "randomizer i_id q seed = sha256 (i_id @ be_bytes 4 q @ [0x01] @ seed)"

text \<open>The siblings on the way from a node to the root.\<close>

function auth_path :: "bytes list \<Rightarrow> u32 \<Rightarrow> bytes list" where
  "auth_path nodes node = (if node > 1 then nodes ! unat (node XOR 1) # auth_path nodes (node div 2) else [])"
  by auto
termination
  by (relation "measure (\<lambda>(nodes, node). unat node)") (auto simp: word_less_nat_alt unat_div)

declare auth_path.simps [simp del]

definition lms_sign :: "bytes \<Rightarrow> bytes \<Rightarrow> u32 \<Rightarrow> nat \<Rightarrow> nat \<Rightarrow> nat \<Rightarrow> nat \<Rightarrow> u32 \<Rightarrow> u32 \<Rightarrow> bytes \<Rightarrow> bytes \<Rightarrow> bytes \<times> nat" where
  "lms_sign i_id seed q w p ls h otstype lmstype msg out = (
     if p > MAX_P \<or> h > MAX_H \<or> q \<ge> push_bit h 1 \<or> length msg > LMS_MSG_CAP then (out, 0)
     else let sig_total = 4 + 4 + LMS_NODE_LEN + LMS_NODE_LEN * p + 4 + LMS_NODE_LEN * h in
       if length out < sig_total then (out, 0)
       else let
         c = randomizer i_id q seed;
         qhash = sha256 (i_id @ be_bytes 4 q @ be_bytes 2 D_MESG @ c @ msg);
         qc = q_coefs qhash w ls;
         y = map (\<lambda>i. lms_chain i_id q i (priv_elt i_id q i seed) 0 (coef qc i w)) [0..<p];
         nodes = snd (build_tree i_id seed w p h);
         sig = be_bytes 4 q @ be_bytes 4 otstype @ c @ concat y @ be_bytes 4 lmstype @ concat (auth_path nodes (push_bit h 1 + q))
       in (put 0 sig out, length sig))"

end
