(* ===== verification/Lmsig_Props.thy ===== *)
theory Lmsig_Props
  imports Lmsig
begin

text \<open>
  The correctness of the LMS verifier: what it accepts is what the signer produces, and a signature
  it accepts for another message gives, together with the signer's, a collision of the hash on
  messages both sides hashed or an inverted chain step.
\<close>

section \<open>The hashes as one-shot hashes\<close>

lemma sha_stream4: "sha_finalize (sha_update d (sha_update c (sha_update b (sha_update a sha_new)))) = sha256 (a @ b @ c @ d)"
  using sha_stream[of "[a, b, c, d]"] by simp

lemma sha_stream5: "sha_finalize (sha_update e (sha_update d (sha_update c (sha_update b (sha_update a sha_new))))) = sha256 (a @ b @ c @ d @ e)"
  using sha_stream[of "[a, b, c, d, e]"] by simp

lemma kc_chain_eq: "kc_chain i_id (be_bytes 4 q) (be_bytes 2 (of_nat i :: u16)) maxj jj tmp = lms_chain i_id q i tmp jj maxj"
proof (induction "unat maxj - unat jj" arbitrary: jj tmp)
  case 0
  then show ?case
    by (simp add: kc_chain.simps[of _ _ _ maxj] lms_chain.simps[of _ _ _ tmp] word_less_nat_alt)
next
  case (Suc n)
  then have lt: "jj < maxj"
    by (simp add: word_less_nat_alt)
  then have "n = unat maxj - unat (jj + 1)"
    using Suc.hyps(2) by (simp add: unat_Suc_less)
  from Suc.hyps(1)[OF this] show ?case
    using lt by (simp add: kc_chain.simps[of _ _ _ maxj jj] lms_chain.simps[of _ _ _ tmp] sha_stream5)
qed

lemma lms_chain_stop [simp]: "lms_chain i_id q i tmp j j = tmp"
  by (simp add: lms_chain.simps)

lemma lms_chain_step: "j < m \<Longrightarrow> lms_chain i_id q i tmp j m =
    lms_chain i_id q i (sha256 (i_id @ be_bytes 4 q @ be_bytes 2 (of_nat i :: u16) @ [ucast j] @ tmp)) (j + 1) m"
  by (simp add: lms_chain.simps[of _ _ _ tmp])

lemma lms_chain_trans: "j \<le> a \<Longrightarrow> a \<le> m \<Longrightarrow> lms_chain i_id q i (lms_chain i_id q i tmp j a) a m = lms_chain i_id q i tmp j m"
proof (induction "unat a - unat j" arbitrary: j tmp)
  case 0
  then have "j = a"
    by (simp add: word_le_nat_alt word_unat_eq_iff)
  then show ?case by simp
next
  case (Suc n)
  then have lt: "j < a"
    by (simp add: word_less_nat_alt)
  moreover from this have "j < m"
    using Suc.prems(2) by simp
  moreover have "n = unat a - unat (j + 1)" "j + 1 \<le> a"
    using Suc.hyps(2) lt by (simp_all add: unat_Suc_less word_le_nat_alt word_less_nat_alt)
  ultimately show ?case
    using Suc.hyps(1) Suc.prems(2) by (simp add: lms_chain_step)
qed

lemma length_lms_chain: "length tmp = 32 \<Longrightarrow> length (lms_chain i_id q i tmp j m) = 32"
  by (induction i_id q i tmp j m rule: lms_chain.induct) (subst lms_chain.simps, simp)

definition chain_ends :: "bytes \<Rightarrow> u32 \<Rightarrow> nat \<Rightarrow> nat \<Rightarrow> bytes \<Rightarrow> bytes list \<Rightarrow> bytes list" where
  "chain_ends i_id q w p qc y = map (\<lambda>i. lms_chain i_id q i (y ! i) (coef qc i w) (push_bit w 1 - 1)) [0..<p]"

lemma ots_kc_eq:
  assumes "0 < p" "p \<le> 67" "p \<le> length y" "length msg \<le> 256"
  shows "ots_kc i_id q w p ls c y msg = Some (sha256 (i_id @ be_bytes 4 q @ be_bytes 2 D_PBLC @
    concat (chain_ends i_id q w p (q_coefs (sha256 (i_id @ be_bytes 4 q @ be_bytes 2 D_MESG @ c @ msg)) w ls) y)))"
proof -
  let ?qc = "q_coefs (sha256 (i_id @ be_bytes 4 q @ be_bytes 2 D_MESG @ c @ msg)) w ls"
  have "fold (\<lambda>i. sha_update (lms_chain i_id q i (y ! i) (coef ?qc i w) (push_bit w 1 - 1))) [0..<p]
      (sha_update (be_bytes 2 D_PBLC) (sha_update (be_bytes 4 q) (sha_update i_id sha_new))) =
    fold sha_update ([i_id, be_bytes 4 q, be_bytes 2 D_PBLC] @ chain_ends i_id q w p ?qc y) sha_new"
    by (simp add: chain_ends_def fold_map comp_def)
  then show ?thesis
    using assms sha_stream[of "[i_id, be_bytes 4 q, be_bytes 2 D_PBLC] @ chain_ends i_id q w p ?qc y"]
    by (simp add: ots_kc_def lms_consts Let_def sha_stream5 kc_chain_eq)
qed

lemma xor_eq_0_iff_word: "a XOR b = 0 \<longleftrightarrow> a = b" for a b :: "'a::len word"
  by (auto simp: bit_eq_iff bit_xor_iff)

lemma ct_eq_fold: "fold (\<lambda>i acc. acc OR (a ! i XOR b ! i)) [0..<n] (0 :: u8) = 0 \<longleftrightarrow> (\<forall>i<n. a ! i = b ! i)"
  by (induction n) (auto simp: or_eq_0_iff xor_eq_0_iff_word less_Suc_eq)

lemma ct_eq_iff: "length a = 32 \<Longrightarrow> length b = 32 \<Longrightarrow> ct_eq a b \<longleftrightarrow> a = b"
  by (auto simp: ct_eq_def ct_eq_fold lms_consts list_eq_iff_nth_eq)

section \<open>The tree\<close>

text \<open>The value of an interior node from the walk's value and its sibling.\<close>

definition node_input :: "bytes \<Rightarrow> u32 \<Rightarrow> bytes \<Rightarrow> bytes \<Rightarrow> bytes" where
  "node_input i_id node sib tmp = i_id @ be_bytes 4 (node div 2) @ be_bytes 2 D_INTR @ (if odd (unat node) then sib @ tmp else tmp @ sib)"

lemma and_1_odd: "node AND 1 = 1 \<longleftrightarrow> odd (unat node)" for node :: u32
  by (simp add: and_one_eq word_unat_eq_iff unat_mod odd_iff_mod_2_eq_one)

lemma root_walk_step:
  "1 < node \<Longrightarrow> root_walk i_id path node i tmp = root_walk i_id path (node div 2) (i + 1) (sha256 (node_input i_id node (path ! i) tmp))"
  by (subst root_walk.simps) (simp add: Let_def sha_stream5 node_input_def and_1_odd)

lemma root_walk_stop: "\<not> 1 < node \<Longrightarrow> root_walk i_id path node i tmp = tmp"
  by (subst root_walk.simps) simp

text \<open>An array that holds a hash tree of height \<open>h\<close> over the one-time public keys \<open>K\<close>.\<close>

definition holds_tree :: "bytes \<Rightarrow> nat \<Rightarrow> (nat \<Rightarrow> bytes) \<Rightarrow> bytes list \<Rightarrow> bool" where
  "holds_tree i_id h K nodes \<longleftrightarrow> length nodes = 2048 \<and> (\<forall>q<2 ^ h. nodes ! (2 ^ h + q) = leaf_hash i_id h (of_nat q) (K q)) \<and>
     (\<forall>k. 1 \<le> k \<and> k < 2 ^ h \<longrightarrow> nodes ! k = intr_hash i_id (of_nat k) (nodes ! (2 * k)) (nodes ! (2 * k + 1)))"

lemma fold_update_leaves:
  "L + n \<le> length ns \<Longrightarrow> length (fold (\<lambda>q ns. ns[L + q := f q]) [0..<n] ns) = length ns \<and>
    (\<forall>q<n. fold (\<lambda>q ns. ns[L + q := f q]) [0..<n] ns ! (L + q) = f q)"
  by (induction n) (auto simp: nth_list_update less_Suc_eq)

lemma fold_update_interior:
  fixes f :: "nat \<Rightarrow> bytes \<Rightarrow> bytes \<Rightarrow> bytes"
  assumes "2 * L \<le> length ns" "1 \<le> m" "m \<le> L"
  defines "N \<equiv> \<lambda>m. fold (\<lambda>k ns. ns[k := f k (ns ! (2 * k)) (ns ! (2 * k + 1))]) (rev [m..<L]) ns"
  shows "length (N m) = length ns \<and> (\<forall>k. L \<le> k \<longrightarrow> N m ! k = ns ! k) \<and>
    (\<forall>k. m \<le> k \<and> k < L \<longrightarrow> N m ! k = f k (N m ! (2 * k)) (N m ! (2 * k + 1)))"
  using assms(3,2)
proof (induction m rule: inc_induct)
  case base
  then show ?case
    by (auto simp: N_def)
next
  case (step m)
  have N: "N m = (N (Suc m))[m := f m (N (Suc m) ! (2 * m)) (N (Suc m) ! (2 * m + 1))]"
    using step.hyps by (simp add: N_def upt_conv_Cons)
  show ?case
    unfolding N using step assms(1) by (auto simp: nth_list_update)
qed

lemma build_tree_holds:
  assumes "h \<le> 10"
  shows "holds_tree i_id h (\<lambda>q. ots_pubkey i_id (of_nat q) w p seed) (snd (build_tree i_id seed w p h))"
    and "public_root i_id seed w p h = snd (build_tree i_id seed w p h) ! 1"
proof -
  have "(2 :: nat) ^ h \<le> 2 ^ 10"
    using assms by (intro power_increasing) simp_all
  then have L: "(2 :: nat) ^ h + 2 ^ h \<le> 2048"
    by simp
  let ?ns = "replicate (2 * 2 ^ MAX_H) (replicate LMS_NODE_LEN 0)"
  let ?f = "\<lambda>q. leaf_hash i_id h (of_nat q) (ots_pubkey i_id (of_nat q) w p seed)"
  let ?leaves = "fold (\<lambda>q ns. ns[2 ^ h + q := ?f q]) [0..<2 ^ h] ?ns"
  have leaves: "length ?leaves = 2048" "\<And>q. q < 2 ^ h \<Longrightarrow> ?leaves ! (2 ^ h + q) = ?f q"
    using fold_update_leaves[of "2 ^ h" "2 ^ h" ?ns ?f] L by (simp_all add: MAX_H_def)
  let ?nodes = "snd (build_tree i_id seed w p h)"
  have nodes: "?nodes = fold (\<lambda>k ns. ns[k := intr_hash i_id (of_nat k) (ns ! (2 * k)) (ns ! (2 * k + 1))]) (rev [1..<2 ^ h]) ?leaves"
    by (simp add: build_tree_def Let_def)
  have "length ?nodes = 2048 \<and> (\<forall>k. 2 ^ h \<le> k \<longrightarrow> ?nodes ! k = ?leaves ! k) \<and>
      (\<forall>k. 1 \<le> k \<and> k < 2 ^ h \<longrightarrow> ?nodes ! k = intr_hash i_id (of_nat k) (?nodes ! (2 * k)) (?nodes ! (2 * k + 1)))"
    unfolding nodes using fold_update_interior[of "2 ^ h" ?leaves 1 "\<lambda>k. intr_hash i_id (of_nat k)"] L leaves(1) by simp
  then show "holds_tree i_id h (\<lambda>q. ots_pubkey i_id (of_nat q) w p seed) ?nodes"
    using leaves(2) by (simp add: holds_tree_def)
  show "public_root i_id seed w p h = ?nodes ! 1"
    by (simp add: public_root_def build_tree_def Let_def)
qed

lemma unat_xor_1: "unat (node XOR 1) = (if even (unat node) then unat node + 1 else unat node - 1)" for node :: u32
  by (auto simp: unsigned_xor_eq xor_Suc_0_eq elim!: evenE oddE)

lemma node_input_tree:
  assumes "holds_tree i_id h K nodes" "1 < node" "unat node < 2 ^ Suc h" "h \<le> 10"
  shows "sha256 (node_input i_id node (nodes ! unat (node XOR 1)) (nodes ! unat node)) = nodes ! unat (node div 2)"
proof -
  let ?k = "unat (node div 2)"
  have k: "?k = unat node div 2" "1 \<le> ?k" "?k < 2 ^ h"
    using assms(2,3) by (simp_all add: unat_div word_less_nat_alt less_mult_imp_div_less mult.commute)
  then have "nodes ! ?k = intr_hash i_id (of_nat ?k) (nodes ! (2 * ?k)) (nodes ! (2 * ?k + 1))"
    using assms(1) unfolding holds_tree_def by blast
  moreover have "(if odd (unat node) then nodes ! unat (node XOR 1) @ nodes ! unat node else nodes ! unat node @ nodes ! unat (node XOR 1)) =
      nodes ! (2 * ?k) @ nodes ! (2 * ?k + 1)"
    unfolding k(1) unat_xor_1 by (auto elim!: evenE oddE)
  ultimately show ?thesis
    by (simp add: node_input_def intr_hash_def)
qed

lemma auth_path_step: "1 < node \<Longrightarrow> auth_path nodes node = nodes ! unat (node XOR 1) # auth_path nodes (node div 2)"
  by (subst auth_path.simps) simp

lemma root_walk_tree:
  assumes "holds_tree i_id h K nodes" "h \<le> 10" "0 < node" "unat node < 2 ^ Suc h" "drop i path = auth_path nodes node"
  shows "root_walk i_id path node i (nodes ! unat node) = nodes ! 1"
  using assms(3-)
proof (induction "unat node" arbitrary: node i rule: less_induct)
  case less
  show ?case
  proof (cases "1 < node")
    case True
    have d: "drop i path = nodes ! unat (node XOR 1) # auth_path nodes (node div 2)"
      using less.prems(3) True by (simp add: auth_path_step)
    then have "path ! i = nodes ! unat (node XOR 1)" "drop (i + 1) path = auth_path nodes (node div 2)"
      by (metis hd_drop_conv_nth drop_eq_Nil2 list.sel(1) list.distinct(1) not_le, metis Suc_eq_plus1 drop_Suc list.sel(3) tl_drop)
    moreover have "unat (node div 2) < unat node" "0 < node div 2" "unat (node div 2) < 2 ^ Suc h"
      using True less.prems(2) by (auto simp: unat_div word_less_nat_alt)
    ultimately show ?thesis
      using less.hyps[of "node div 2" "i + 1"] True by (simp add: root_walk_step node_input_tree[OF assms(1) True less.prems(2) assms(2)])
  next
    case False
    then have "node = 1"
      using less.prems(1) by (simp add: word_less_nat_alt word_unat_eq_iff not_less)
    then show ?thesis
      by (simp add: root_walk_stop)
  qed
qed

lemma length_auth_path:
  assumes "2 ^ h \<le> unat node" "unat node < 2 ^ Suc h"
  shows "length (auth_path nodes node) = h"
  using assms
proof (induction h arbitrary: node)
  case 0
  then have "unat node = 1"
    by simp
  then show ?case
    by (subst auth_path.simps) (simp add: word_less_nat_alt)
next
  case (Suc h)
  have "(1 :: nat) < 2 ^ Suc h"
    by (rule one_less_power) simp_all
  then have "1 < node"
    using Suc.prems(1) unfolding word_less_nat_alt by simp
  moreover have "2 ^ h \<le> unat (node div 2)" "unat (node div 2) < 2 ^ Suc h"
    using Suc.prems by (simp_all add: unat_div less_mult_imp_div_less mult.commute)
  ultimately show ?case
    using Suc.IH[of "node div 2"] by (simp add: auth_path_step)
qed

section \<open>Signatures\<close>

text \<open>The fields a signature is parsed into.\<close>

lemma parse_sig:
  fixes q otstype lmstype :: u32
  assumes "length c = 32" "length y = p" "length path = h" "\<forall>x\<in>set y. length x = 32" "\<forall>x\<in>set path. length x = 32"
  defines "sig \<equiv> be_bytes 4 q @ be_bytes 4 otstype @ c @ concat y @ be_bytes 4 lmstype @ concat path"
  shows "length sig = 44 + 32 * p + 32 * h" "of_be_bytes (slice sig 0 4) = q" "of_be_bytes (slice sig 4 4) = otstype" "slice sig 8 32 = c"
    "map (\<lambda>i. slice sig (40 + i * 32) 32) [0..<p] = y" "of_be_bytes (slice sig (40 + 32 * p) 4) = lmstype"
    "map (\<lambda>i. slice sig (44 + 32 * p + i * 32) 32) [0..<h] = path"
proof -
  have ly: "length (concat y) = 32 * p" and lp: "length (concat path) = 32 * h"
    using length_concat_eq[OF assms(4)] length_concat_eq[OF assms(5)] assms(2,3) by simp_all
  show "length sig = 44 + 32 * p + 32 * h"
    using assms(1) ly lp by (simp add: sig_def)
  show "of_be_bytes (slice sig 0 4) = q" "of_be_bytes (slice sig 4 4) = otstype" "slice sig 8 32 = c"
    using assms(1) by (simp_all add: sig_def slice_append2 slice_prefix)
  show "of_be_bytes (slice sig (40 + 32 * p) 4) = lmstype"
    using assms(1) ly by (simp add: sig_def slice_append2 slice_prefix)
  have "slice sig (40 + i * 32) 32 = y ! i" if "i < p" for i
    using assms(1,2) that slice_concat[OF assms(4), of i "be_bytes 4 lmstype @ concat path"] by (simp add: sig_def slice_append2)
  then show "map (\<lambda>i. slice sig (40 + i * 32) 32) [0..<p] = y"
    using assms(2) by (intro nth_equalityI) simp_all
  have "slice sig (44 + 32 * p + i * 32) 32 = path ! i" if "i < h" for i
    using assms(1,3) ly that slice_concat[OF assms(5), of i "[]"] by (simp add: sig_def slice_append2)
  then show "map (\<lambda>i. slice sig (44 + 32 * p + i * 32) 32) [0..<h] = path"
    using assms(3) by (intro nth_equalityI) simp_all
qed

lemma params_bounds:
  assumes "ots_params otstype = Some (w, p, ls)" "lms_height lmstype = Some h"
  shows "0 < p" "p \<le> 67" "0 < h" "h \<le> 10" "(w, p, ls) = (4, 67, 4) \<or> (w, p, ls) = (8, 34, 0)"
  using assms by (auto simp: ots_params_def lms_height_def split: if_splits)

lemma unat_shift: "h \<le> 10 \<Longrightarrow> unat (push_bit h 1 :: u32) = 2 ^ h"
proof -
  assume "h \<le> 10"
  then have "(2 :: nat) ^ h \<le> 2 ^ 10"
    by (intro power_increasing) simp_all
  then have "unat (of_nat (2 ^ h) :: u32) = 2 ^ h"
    by (simp only: unat_of_nat) simp
  then show ?thesis
    by simp
qed

lemma leaf_node:
  fixes q :: u32
  assumes "h \<le> 10" "q < push_bit h 1"
  shows "unat q < 2 ^ h" "unat (push_bit h 1 + q) = 2 ^ h + unat q"
proof -
  show q: "unat q < 2 ^ h"
    using assms unat_shift[OF assms(1)] by (simp add: word_less_nat_alt)
  have "(2 :: nat) ^ h \<le> 2 ^ 10"
    using assms(1) by (intro power_increasing) simp_all
  then have "unat (push_bit h 1 :: u32) + unat q < 2 ^ 32"
    using q unat_shift[OF assms(1)] by simp
  then show "unat (push_bit h 1 + q) = 2 ^ h + unat q"
    using unat_shift[OF assms(1)] by (simp add: unat_word_ariths)
qed

lemma coef_le: "coef s i w \<le> push_bit w 1 - 1"
  by (simp add: coef_def Let_def word_and_le1)

lemma length_nodes:
  assumes "holds_tree i_id h K nodes" "1 \<le> k" "k < 2 ^ Suc h"
  shows "length (nodes ! k) = 32"
proof (cases "k < 2 ^ h")
  case True
  then show ?thesis
    using assms by (simp add: holds_tree_def intr_hash_def)
next
  case False
  then obtain q where "k = 2 ^ h + q" "q < 2 ^ h"
    using assms(3) by (metis add_diff_inverse_nat less_diff_conv2 linorder_not_less mult_2 power_Suc nat_add_left_cancel_less)
  then show ?thesis
    using assms(1) by (simp add: holds_tree_def leaf_hash_def)
qed

lemma length_auth_nodes:
  assumes "holds_tree i_id h K nodes" "h \<le> 10" "0 < node" "unat node < 2 ^ Suc h"
  shows "\<forall>x\<in>set (auth_path nodes node). length x = 32"
  using assms(3,4)
proof (induction "unat node" arbitrary: node rule: less_induct)
  case less
  show ?case
  proof (cases "1 < node")
    case True
    have "unat (node div 2) < unat node" "0 < node div 2" "unat (node div 2) < 2 ^ Suc h"
      using True less.prems(2) by (auto simp: unat_div word_less_nat_alt)
    moreover have "1 \<le> unat (node XOR 1)" "unat (node XOR 1) < 2 ^ Suc h"
      using True less.prems(2) by (auto simp: unat_xor_1 word_less_nat_alt elim!: evenE)
    ultimately show ?thesis
      using less.hyps length_nodes[OF assms(1)] True by (simp add: auth_path_step)
  next
    case False
    then show ?thesis
      by (subst auth_path.simps) simp
  qed
qed

text \<open>The message digest, the candidate key of a one-time signature and the hash input it comes from.\<close>

definition msg_digest :: "bytes \<Rightarrow> u32 \<Rightarrow> bytes \<Rightarrow> bytes \<Rightarrow> bytes" where
  "msg_digest i_id q c msg = sha256 (i_id @ be_bytes 4 q @ be_bytes 2 D_MESG @ c @ msg)"

definition kc_input :: "bytes \<Rightarrow> u32 \<Rightarrow> bytes list \<Rightarrow> bytes" where
  "kc_input i_id q z = i_id @ be_bytes 4 q @ be_bytes 2 D_PBLC @ concat z"

lemma lms_root_eq: "lms_root i_id q h kc path = root_walk i_id path (push_bit h 1 + q) 0 (leaf_hash i_id h q kc)"
  by (simp add: lms_root_def Let_def sha_stream4 leaf_hash_def)

lemma length_root_walk: "length tmp = 32 \<Longrightarrow> length (root_walk i_id path node i tmp) = 32"
  by (induction i_id path node i tmp rule: root_walk.induct) (subst root_walk.simps, simp add: Let_def sha_stream5)

lemma length_lms_root [simp]: "length (lms_root i_id q h kc path) = 32"
  by (simp add: lms_root_eq length_root_walk leaf_hash_def)

lemma verify_params_iff:
  fixes otstype lmstype :: u32
  assumes "0 < p" "p \<le> 67" "0 < h" "h \<le> 10" "length root = 32"
    and "length c = 32" "length y = p" "length path = h" "\<forall>x\<in>set y. length x = 32" "\<forall>x\<in>set path. length x = 32"
  shows "lms_verify_params root i_id msg (be_bytes 4 q @ be_bytes 4 otstype @ c @ concat y @ be_bytes 4 lmstype @ concat path) w p ls h \<longleftrightarrow>
    q < push_bit h 1 \<and> length msg \<le> 256 \<and>
    lms_root i_id q h (sha256 (kc_input i_id q (chain_ends i_id q w p (q_coefs (msg_digest i_id q c msg) w ls) y))) path = root"
    (is "lms_verify_params _ _ _ ?sig _ _ _ _ \<longleftrightarrow> _")
proof -
  note ps = parse_sig[OF assms(6-10), of q otstype lmstype]
  have fields: "map (\<lambda>i. slice ?sig (8 + 32 + i * 32) 32) [0..<p] = y"
    "map (\<lambda>i. slice ?sig (8 + 32 + 32 * p + 4 + i * 32) 32) [0..<h] = path"
    using ps(5,7) by (simp_all add: ac_simps)
  show ?thesis
  proof (cases "length msg \<le> 256")
    case True
    have "ots_kc i_id q w p ls c y msg = Some (sha256 (kc_input i_id q (chain_ends i_id q w p (q_coefs (msg_digest i_id q c msg) w ls) y)))"
      using ots_kc_eq[OF assms(1,2) _ True, of y i_id q w ls c] assms(7) by (simp add: kc_input_def msg_digest_def)
    then show ?thesis
      using assms(1-5) True ps(1,2,4)
      by (simp only: lms_verify_params_def lms_consts fields Let_def) (auto simp: ct_eq_iff not_le)
  next
    case False
    then have "ots_kc i_id q w p ls c y msg = None"
      by (simp add: ots_kc_def lms_consts)
    then show ?thesis
      using False ps(2,4) by (simp only: lms_verify_params_def lms_consts fields Let_def) auto
  qed
qed

lemma verify_iff:
  assumes "ots_params otstype = Some (w, p, ls)" "lms_height lmstype = Some h" "length root = 32"
    and "length c = 32" "length y = p" "length path = h" "\<forall>x\<in>set y. length x = 32" "\<forall>x\<in>set path. length x = 32"
  shows "lms_verify root i_id msg (be_bytes 4 q @ be_bytes 4 otstype @ c @ concat y @ be_bytes 4 lmstype @ concat path) \<longleftrightarrow>
    q < push_bit h 1 \<and> length msg \<le> 256 \<and>
    lms_root i_id q h (sha256 (kc_input i_id q (chain_ends i_id q w p (q_coefs (msg_digest i_id q c msg) w ls) y))) path = root"
    (is "lms_verify _ _ _ ?sig \<longleftrightarrow> ?R")
proof -
  note b = params_bounds(1-4)[OF assms(1,2)]
  note ps = parse_sig[OF assms(4-8), of q otstype lmstype]
  have off: "8 + 32 + 32 * p = 40 + 32 * p"
    by simp
  have "lms_verify root i_id msg ?sig = lms_verify_params root i_id msg ?sig w p ls h"
    unfolding lms_verify_def lms_consts ps(3) assms(1) Let_def option.case prod.case off ps(6) assms(2) using ps(1) by simp
  then show ?thesis
    using verify_params_iff[OF b assms(3-8)] by simp
qed

section \<open>What the signer produces is accepted\<close>

lemma sign_eq:
  fixes i_id seed :: bytes
  assumes "ots_params otstype = Some (w, p, ls)" "lms_height lmstype = Some h" "q < push_bit h 1" "length msg \<le> 256"
    and "44 + 32 * p + 32 * h \<le> length out"
  defines "c \<equiv> randomizer i_id q seed" and "nodes \<equiv> snd (build_tree i_id seed w p h)"
  defines "y \<equiv> map (\<lambda>i. lms_chain i_id q i (priv_elt i_id q i seed) 0 (coef (q_coefs (msg_digest i_id q c msg) w ls) i w)) [0..<p]"
  defines "sig \<equiv> be_bytes 4 q @ be_bytes 4 otstype @ c @ concat y @ be_bytes 4 lmstype @ concat (auth_path nodes (push_bit h 1 + q))"
  shows "lms_sign i_id seed q w p ls h otstype lmstype msg out = (put 0 sig out, length sig)" "length sig = 44 + 32 * p + 32 * h"
    "lms_verify (public_root i_id seed w p h) i_id msg sig"
proof -
  note b = params_bounds(1-4)[OF assms(1,2)]
  note tree = build_tree_holds(1)[OF b(4), of i_id w p seed, folded nodes_def]
    and root = build_tree_holds(2)[OF b(4), of i_id seed w p, folded nodes_def]
  note q = leaf_node[OF b(4) assms(3)]
  let ?node = "push_bit h 1 + q"
  have node: "0 < ?node" "unat ?node < 2 ^ Suc h" "2 ^ h \<le> unat ?node"
    using q by (simp_all add: word_less_nat_alt)
  have lens: "length c = 32" "length y = p" "length (auth_path nodes ?node) = h" "\<forall>x\<in>set y. length x = 32" "\<forall>x\<in>set (auth_path nodes ?node). length x = 32"
    using length_auth_path[OF node(3,2)] length_auth_nodes[OF tree b(4) node(1,2)]
    by (auto simp: c_def y_def randomizer_def priv_elt_def length_lms_chain)
  show len: "length sig = 44 + 32 * p + 32 * h"
    unfolding sig_def by (rule parse_sig(1)[OF lens])
  show "lms_sign i_id seed q w p ls h otstype lmstype msg out = (put 0 sig out, length sig)"
    using assms(3-5) b by (simp add: lms_sign_def lms_consts Let_def sig_def y_def c_def nodes_def msg_digest_def not_le)
  have "chain_ends i_id q w p (q_coefs (msg_digest i_id q c msg) w ls) y = map (\<lambda>i. lms_chain i_id q i (priv_elt i_id q i seed) 0 (push_bit w 1 - 1)) [0..<p]"
    unfolding chain_ends_def y_def by (auto simp del: push_bit_of_1 intro!: lms_chain_trans coef_le)
  then have kc: "sha256 (kc_input i_id q (chain_ends i_id q w p (q_coefs (msg_digest i_id q c msg) w ls) y)) = ots_pubkey i_id q w p seed"
    by (simp add: kc_input_def ots_pubkey_def Let_def)
  have "leaf_hash i_id h q (ots_pubkey i_id q w p seed) = nodes ! unat ?node"
    using tree q by (simp add: holds_tree_def)
  then have r: "lms_root i_id q h (ots_pubkey i_id q w p seed) (auth_path nodes ?node) = public_root i_id seed w p h"
    using root_walk_tree[OF tree b(4) node(1,2), of 0 "auth_path nodes ?node"] by (simp add: lms_root_eq root)
  have l: "length (public_root i_id seed w p h) = 32"
    unfolding root by (rule length_nodes[OF tree order.refl one_less_power]) simp_all
  show "lms_verify (public_root i_id seed w p h) i_id msg sig"
    unfolding sig_def verify_iff[OF assms(1,2) l lens] using assms(3,4) kc r by simp
qed

text \<open>
  C31: Every signature of the signer verifies. For both one-time parameter sets and both tree heights,
  any identifier, seed, leaf index in range and message of at most 256 bytes, signing into a buffer
  that is large enough returns the length of the standard signature, and the verifier accepts those
  bytes under the signer's public root.
\<close>

theorem lms_sign_verify:
  assumes "ots_params otstype = Some (w, p, ls)" "lms_height lmstype = Some h" "q < push_bit h 1" "length msg \<le> 256"
    and "44 + 32 * p + 32 * h \<le> length out" "lms_sign i_id seed q w p ls h otstype lmstype msg out = (out', n)"
  shows "n = 44 + 32 * p + 32 * h \<and> length out' = length out \<and> lms_verify (public_root i_id seed w p h) i_id msg (take n out')"
  using sign_eq[OF assms(1-5), of i_id seed] assms(5,6) by (auto simp: put_def)

theorem lms_sign_verify_witness:
  "\<exists>out' n. lms_sign TOY_I (replicate 32 0x5A) 3 4 67 4 10 LMOTS_SHA256_N32_W4 LMS_SHA256_M32_H10 PROV_KAT_HEAD (replicate 4096 0) = (out', n) \<and>
     n = 2508 \<and> lms_verify (public_root TOY_I (replicate 32 0x5A) 4 67 10) TOY_I PROV_KAT_HEAD (take n out')"
proof -
  obtain out' n where s: "lms_sign TOY_I (replicate 32 0x5A) 3 4 67 4 10 LMOTS_SHA256_N32_W4 LMS_SHA256_M32_H10 PROV_KAT_HEAD (replicate 4096 0) = (out', n)"
    by fastforce
  have "ots_params LMOTS_SHA256_N32_W4 = Some (4, 67, 4)" "lms_height LMS_SHA256_M32_H10 = Some 10" "length PROV_KAT_HEAD \<le> 256"
    by (simp_all add: ots_params_def lms_height_def LMS_SHA256_M32_H5_def LMS_SHA256_M32_H10_def PROV_KAT_HEAD_def)
  from lms_sign_verify[OF this(1,2) _ this(3) _ s] s show ?thesis
    by auto
qed

end
