(* ===== verification/Lmsig_Forgery.thy ===== *)
theory Lmsig_Forgery
  imports Lmsig_Props
begin

text \<open>
  The one-time security argument of LMS on the model: the Winternitz checksum excludes a message
  whose coefficients are all at least those of another, and an accepted signature for an unsigned
  digest exhibits a collision between the messages the verifier hashed and those the key generation
  hashed, or hashes its way forward to a value the signer published.
\<close>

section \<open>The Winternitz checksum\<close>

lemma unat_ucast_u32: "unat (ucast (b :: u8) :: u32) = unat b"
  by (simp add: unsigned_ucast_eq take_bit_nat_eq_self_iff order.strict_trans2[OF unsigned_less])

lemma u8_bound: "unat (b :: u8) < 256"
  using unsigned_less[of b, where 'a = nat] by simp

lemma coef_nat: "unat (coef s i w) = (unat (s ! ((i * w) div 8)) div 2 ^ (8 - (w * (i mod (8 div w)) + w))) mod 2 ^ w"
proof -
  have "coef s i w = take_bit w (drop_bit (8 - (w * (i mod (8 div w)) + w)) (ucast (s ! ((i * w) div 8)) :: u32))"
    by (simp add: coef_def Let_def take_bit_eq_mask mask_eq_exp_minus_1)
  then have "unat (coef s i w) = take_bit w (drop_bit (8 - (w * (i mod (8 div w)) + w)) (unat (s ! ((i * w) div 8))))"
    by (simp add: unsigned_take_bit_eq unat_drop_bit_eq unat_ucast_u32)
  then show ?thesis
    by (simp only: take_bit_eq_mod drop_bit_eq_div)
qed

lemma coef_8: "unat (coef s i 8) = unat (s ! i)"
  using u8_bound[of "s ! i"] by (simp add: coef_nat)

lemma coef_4: "unat (coef s i 4) = (if even i then unat (s ! (i div 2)) div 16 else unat (s ! (i div 2)) mod 16)"
proof -
  have "(i * 4) div 8 = i div 2" by simp
  moreover have "unat (s ! (i div 2)) div 16 < 16"
    using u8_bound[of "s ! (i div 2)"] by simp
  ultimately show ?thesis
    by (auto simp: coef_nat odd_iff_mod_2_eq_one)
qed

definition csum :: "bytes \<Rightarrow> nat \<Rightarrow> nat \<Rightarrow> nat" where
  "csum Q w n = (\<Sum>i<n. (2 ^ w - 1) - unat (coef Q i w))"

lemma fold_csum:
  assumes "w \<le> 8" "n \<le> 256"
  shows "unat (fold (\<lambda>i total. total + (push_bit w 1 - 1 - coef Q i w)) [0..<n] (0 :: u32)) = csum Q w n \<and> csum Q w n \<le> n * (2 ^ w - 1)"
  using assms(2)
proof (induction n)
  case 0
  then show ?case by (simp add: csum_def)
next
  case (Suc n)
  let ?f = "fold (\<lambda>i total. total + (push_bit w 1 - 1 - coef Q i w)) [0..<n] (0 :: u32)"
  have p: "(2 :: nat) ^ w \<le> 2 ^ 8"
    using assms(1) by (intro power_increasing) simp_all
  have m: "unat (push_bit w 1 - 1 :: u32) = 2 ^ w - 1"
  proof -
    have "unat (of_nat (2 ^ w - 1) :: u32) = 2 ^ w - 1"
      using p by (simp only: unat_of_nat) simp
    then show ?thesis
      by (simp add: of_nat_diff)
  qed
  have le: "coef Q n w \<le> push_bit w 1 - 1"
    by (simp add: coef_def Let_def word_and_le1)
  have d: "unat (push_bit w 1 - 1 - coef Q n w) = 2 ^ w - 1 - unat (coef Q n w)"
    using le m by (simp add: unat_sub)
  have IH: "unat ?f = csum Q w n" "csum Q w n \<le> n * (2 ^ w - 1)"
    using Suc by simp_all
  have "csum Q w (Suc n) = csum Q w n + (2 ^ w - 1 - unat (coef Q n w))"
    by (simp add: csum_def)
  moreover from this have b: "csum Q w (Suc n) \<le> Suc n * (2 ^ w - 1)"
    using IH(2) by simp
  moreover have "Suc n * (2 ^ w - 1) \<le> 256 * 2 ^ 8"
    using Suc.prems p by (intro mult_le_mono) simp_all
  ultimately show ?case
    using IH d by (simp add: unat_word_ariths)
qed


lemma cksm_nat:
  assumes "(w, ls) = (4, 4) \<or> (w, ls) = (8, 0)"
  shows "unat (cksm Q w ls) = csum Q w (256 div w) * 2 ^ ls" "csum Q w (256 div w) * 2 ^ ls < 65536"
proof -
  have w: "w \<le> 8"
    using assms by auto
  have "256 div w \<le> 256"
    by simp
  note f = fold_csum[OF w this, of Q]
  show b: "csum Q w (256 div w) * 2 ^ ls < 65536"
    using f assms by auto
  let ?t = "fold (\<lambda>i total. total + (push_bit w 1 - 1 - coef Q i w)) [0..<256 div w] (0 :: u32)"
  have "unat (2 ^ ls :: u32) = 2 ^ ls"
    using assms by auto
  then have "unat (push_bit ls ?t) = csum Q w (256 div w) * 2 ^ ls"
    using f b by (simp add: push_bit_eq_mult unat_word_ariths mult.commute)
  moreover have m: "(0xFFFF :: u32) = mask 16"
    by (simp add: mask_eq_exp_minus_1)
  have "cksm Q w ls = ucast (push_bit ls ?t)"
    unfolding cksm_def Let_def m by (rule bit_word_eqI) (auto simp: lms_consts bit_simps)
  ultimately show "unat (cksm Q w ls) = csum Q w (256 div w) * 2 ^ ls"
    using b by (simp add: unsigned_ucast_eq take_bit_eq_mod)
qed

lemma be_bytes_2_nat: "unat (be_bytes 2 (x :: u16) ! 0) = unat x div 256" "unat (be_bytes 2 x ! 1) = unat x mod 256"
proof -
  have x: "unat x < 65536"
    using unsigned_less[of x, where 'a = nat] by simp
  have b: "be_bytes 2 x = [ucast (drop_bit 8 x), ucast x]"
    by (simp add: be_bytes_def le_bytes_2)
  show "unat (be_bytes 2 x ! 1) = unat x mod 256"
    by (simp add: b unsigned_ucast_eq take_bit_eq_mod)
  show "unat (be_bytes 2 x ! 0) = unat x div 256"
    using x by (simp add: b unsigned_ucast_eq take_bit_eq_mod drop_bit_eq_div unat_div)
qed

text \<open>The coefficients of the digest, and the checksum as the number its coefficients write.\<close>

lemma coef_digest: "i < 256 div w \<Longrightarrow> w = 4 \<or> w = 8 \<Longrightarrow> length Q = 32 \<Longrightarrow> coef (q_coefs Q w ls) i w = coef Q i w"
  by (auto simp: coef_def q_coefs_def nth_append)

lemma digits_4: "t = 256 * (t div 16 div 16) + 16 * (t div 16 mod 16) + t * 16 mod 256 div 16" for t :: nat
proof -
  have "t * 16 mod 256 div 16 = t mod 16"
    using mod_mult_mult2[of t 16 16] by simp
  moreover have "t = 16 * (t div 16) + t mod 16"
    by simp
  moreover have "16 * (t div 16) = 256 * (t div 16 div 16) + 16 * (t div 16 mod 16)"
    using mult_div_mod_eq[of 16 "t div 16"] by linarith
  ultimately show ?thesis
    by linarith
qed

lemma checksum_digits:
  assumes "length Q = 32"
  shows "csum Q 8 32 = 256 * unat (coef (q_coefs Q 8 0) 32 8) + unat (coef (q_coefs Q 8 0) 33 8)"
    "csum Q 4 64 = 256 * unat (coef (q_coefs Q 4 4) 64 4) + 16 * unat (coef (q_coefs Q 4 4) 65 4) + unat (coef (q_coefs Q 4 4) 66 4)"
proof -
  have n: "q_coefs Q w ls ! 32 = be_bytes 2 (cksm Q w ls) ! 0" "q_coefs Q w ls ! 33 = be_bytes 2 (cksm Q w ls) ! 1" for w ls
    using assms by (simp_all add: q_coefs_def nth_append)
  show "csum Q 8 32 = 256 * unat (coef (q_coefs Q 8 0) 32 8) + unat (coef (q_coefs Q 8 0) 33 8)"
    unfolding coef_8 n be_bytes_2_nat using cksm_nat[of 8 0 Q] by simp
  show "csum Q 4 64 = 256 * unat (coef (q_coefs Q 4 4) 64 4) + 16 * unat (coef (q_coefs Q 4 4) 65 4) + unat (coef (q_coefs Q 4 4) 66 4)"
    unfolding coef_4 using cksm_nat[of 4 4 Q] digits_4[of "csum Q 4 64"] by (simp add: n be_bytes_2_nat(1) be_bytes_2_nat(2)[unfolded One_nat_def])
qed

lemma coefs_determine:
  assumes "length Q = 32" "length Q' = 32" "w = 4 \<or> w = 8" "\<forall>i<256 div w. coef Q i w = coef Q' i w"
  shows "Q = Q'"
proof (rule nth_equalityI)
  fix i assume "i < length Q"
  then have i: "i < 32"
    using assms(1) by simp
  show "Q ! i = Q' ! i"
  proof (cases "w = 8")
    case True
    then have "unat (coef Q i 8) = unat (coef Q' i 8)"
      using assms(4) i by simp
    then show ?thesis
      by (simp add: coef_8 word_unat_eq_iff)
  next
    case False
    then have "unat (coef Q (2 * i) 4) = unat (coef Q' (2 * i) 4)" "unat (coef Q (2 * i + 1) 4) = unat (coef Q' (2 * i + 1) 4)"
      using assms(3,4) i by simp_all
    then have "unat (Q ! i) div 16 = unat (Q' ! i) div 16" "unat (Q ! i) mod 16 = unat (Q' ! i) mod 16"
      by (simp_all add: coef_4)
    then show ?thesis
      by (metis word_unat_eq_iff div_mult_mod_eq)
  qed
qed (use assms in simp)

lemma csum_less:
  assumes "\<forall>i<n. coef Q i w \<le> coef Q' i w" "k < n" "coef Q k w \<noteq> coef Q' k w"
    and "\<forall>i<n. unat (coef Q' i w) \<le> 2 ^ w - 1"
  shows "csum Q' w n < csum Q w n"
  unfolding csum_def
proof (rule sum_strict_mono_ex1)
  have "unat (coef Q k w) < unat (coef Q' k w)"
    using assms(1-3) by (simp add: word_le_nat_alt word_unat_eq_iff order.strict_iff_order)
  then show "\<exists>i\<in>{..<n}. 2 ^ w - 1 - unat (coef Q' i w) < 2 ^ w - 1 - unat (coef Q i w)"
    using assms(2,4) by (intro bexI[of _ k]) (auto simp: diff_less_mono2)
qed (use assms in \<open>auto simp: word_le_nat_alt diff_le_mono2\<close>)

lemma no_domination:
  assumes "(w, p, ls) = (4, 67, 4) \<or> (w, p, ls) = (8, 34, 0)" "length Q = 32" "length Q' = 32" "Q \<noteq> Q'"
  shows "\<exists>i<p. coef (q_coefs Q' w ls) i w < coef (q_coefs Q w ls) i w"
proof (rule ccontr)
  assume "\<not> ?thesis"
  then have ge: "\<And>i. i < p \<Longrightarrow> coef (q_coefs Q w ls) i w \<le> coef (q_coefs Q' w ls) i w"
    by (metis not_less)
  have w: "w = 4 \<or> w = 8" "256 div w \<le> p"
    using assms(1) by auto
  have le: "\<forall>i<256 div w. coef Q i w \<le> coef Q' i w"
    using ge w(2) coef_digest[OF _ w(1)] assms(2,3) by (metis order.strict_trans2)
  obtain k where k: "k < 256 div w" "coef Q k w \<noteq> coef Q' k w"
    using coefs_determine[OF assms(2,3) w(1)] assms(4) by blast
  have "\<forall>i<256 div w. unat (coef Q' i w) \<le> 2 ^ w - 1"
    using w(1) by (auto simp: coef_nat)
  from csum_less[OF le k this] have less: "csum Q' w (256 div w) < csum Q w (256 div w)" .
  have "csum Q w (256 div w) \<le> csum Q' w (256 div w)"
    using assms(1)
  proof
    assume a: "(w, p, ls) = (4, 67, 4)"
    have "unat (coef (q_coefs Q 4 4) i 4) \<le> unat (coef (q_coefs Q' 4 4) i 4)" if "i < 67" for i
      using ge[of i] a that by (simp add: word_le_nat_alt)
    from this[of 64] this[of 65] this[of 66] show ?thesis
      using a by (simp add: checksum_digits(2)[OF assms(2)] checksum_digits(2)[OF assms(3)])
  next
    assume a: "(w, p, ls) = (8, 34, 0)"
    have "unat (coef (q_coefs Q 8 0) i 8) \<le> unat (coef (q_coefs Q' 8 0) i 8)" if "i < 34" for i
      using ge[of i] a that by (simp add: word_le_nat_alt)
    from this[of 32] this[of 33] show ?thesis
      using a by (simp add: checksum_digits(1)[OF assms(2)] checksum_digits(1)[OF assms(3)])
  qed
  with less show False by simp
qed

section \<open>The messages that are hashed\<close>

definition chain_input :: "bytes \<Rightarrow> u32 \<Rightarrow> nat \<Rightarrow> u32 \<Rightarrow> bytes \<Rightarrow> bytes" where
  "chain_input i_id q i j tmp = i_id @ be_bytes 4 q @ be_bytes 2 (of_nat i :: u16) @ [ucast j] @ tmp"

definition leaf_input :: "bytes \<Rightarrow> nat \<Rightarrow> u32 \<Rightarrow> bytes \<Rightarrow> bytes" where
  "leaf_input i_id h q kc = i_id @ be_bytes 4 (push_bit h 1 + q) @ be_bytes 2 D_LEAF @ kc"

definition msg_input :: "bytes \<Rightarrow> u32 \<Rightarrow> bytes \<Rightarrow> bytes \<Rightarrow> bytes" where
  "msg_input i_id q c msg = i_id @ be_bytes 4 q @ be_bytes 2 D_MESG @ c @ msg"

text \<open>Along one chain from step \<open>j\<close> to \<open>m\<close>, and along the walk to the root.\<close>

definition chain_inputs :: "bytes \<Rightarrow> u32 \<Rightarrow> nat \<Rightarrow> bytes \<Rightarrow> u32 \<Rightarrow> u32 \<Rightarrow> bytes set" where
  "chain_inputs i_id q i tmp j m = {chain_input i_id q i k (lms_chain i_id q i tmp j k) |k. j \<le> k \<and> k < m}"

function walk_inputs :: "bytes \<Rightarrow> bytes list \<Rightarrow> u32 \<Rightarrow> nat \<Rightarrow> bytes \<Rightarrow> bytes set" where
  "walk_inputs i_id path node i tmp = (if node > 1
     then insert (node_input i_id node (path ! i) tmp)
       (walk_inputs i_id path (node div 2) (i + 1) (sha256 (node_input i_id node (path ! i) tmp)))
     else {})"
  by auto
termination
  by (relation "measure (\<lambda>(i_id, path, node, i, tmp). unat node)") (auto simp: word_less_nat_alt unat_div)

declare walk_inputs.simps [simp del]

text \<open>By the verifier, for a parsed signature, and by the key generation.\<close>

definition verify_inputs :: "bytes \<Rightarrow> u32 \<Rightarrow> nat \<Rightarrow> nat \<Rightarrow> nat \<Rightarrow> nat \<Rightarrow> bytes \<Rightarrow> bytes list \<Rightarrow> bytes list \<Rightarrow> bytes \<Rightarrow> bytes set" where
  "verify_inputs i_id q w p ls h c y path msg = (let
     qc = q_coefs (msg_digest i_id q c msg) w ls;
     kci = kc_input i_id q (chain_ends i_id q w p qc y)
   in (\<Union>i<p. chain_inputs i_id q i (y ! i) (coef qc i w) (push_bit w 1 - 1)) \<union>
      {msg_input i_id q c msg, kci, leaf_input i_id h q (sha256 kci)} \<union>
      walk_inputs i_id path (push_bit h 1 + q) 0 (leaf_hash i_id h q (sha256 kci)))"

definition key_inputs :: "bytes \<Rightarrow> bytes \<Rightarrow> nat \<Rightarrow> nat \<Rightarrow> nat \<Rightarrow> bytes set" where
  "key_inputs i_id seed w p h = (let nodes = snd (build_tree i_id seed w p h) in
     (\<Union>q<2 ^ h. (\<Union>i<p. chain_inputs i_id (of_nat q) i (priv_elt i_id (of_nat q) i seed) 0 (push_bit w 1 - 1)) \<union>
       {kc_input i_id (of_nat q) (map (\<lambda>i. lms_chain i_id (of_nat q) i (priv_elt i_id (of_nat q) i seed) 0 (push_bit w 1 - 1)) [0..<p]),
        leaf_input i_id h (of_nat q) (ots_pubkey i_id (of_nat q) w p seed)}) \<union>
     {i_id @ be_bytes 4 (of_nat k :: u32) @ be_bytes 2 D_INTR @ nodes ! (2 * k) @ nodes ! (2 * k + 1) |k. 1 \<le> k \<and> k < 2 ^ h})"

text \<open>Two sets of messages exhibit a collision.\<close>

definition sha_collision :: "bytes set \<Rightarrow> bytes set \<Rightarrow> bool" where
  "sha_collision A B \<longleftrightarrow> (\<exists>a\<in>A. \<exists>b\<in>B. a \<noteq> b \<and> sha256 a = sha256 b)"

lemma sha_collisionI: "a \<in> A \<Longrightarrow> b \<in> B \<Longrightarrow> sha256 a = sha256 b \<Longrightarrow> a = b \<or> sha_collision A B"
  unfolding sha_collision_def by blast

lemma sha_collision_mono: "sha_collision A B \<Longrightarrow> A \<subseteq> A' \<Longrightarrow> B \<subseteq> B' \<Longrightarrow> sha_collision A' B'"
  unfolding sha_collision_def by blast

section \<open>Binding\<close>

lemma lms_chain_last:
  assumes "j \<le> m" "m < e"
  shows "lms_chain i_id q i tmp j (m + 1) = sha256 (chain_input i_id q i m (lms_chain i_id q i tmp j m))"
proof -
  have "m \<le> m + 1" "m < m + 1"
    using unat_Suc_less[OF assms(2)] by (simp_all add: word_le_nat_alt word_less_nat_alt)
  then have "lms_chain i_id q i tmp j (m + 1) = lms_chain i_id q i (lms_chain i_id q i tmp j m) m (m + 1)"
    using assms(1) by (simp add: lms_chain_trans)
  then show ?thesis
    using \<open>m < m + 1\<close> by (simp add: lms_chain_step chain_input_def)
qed

lemma chain_binding:
  assumes "length u = 32" "length v = 32" "j \<le> m" "m \<le> e" "lms_chain i_id q i u j m = lms_chain i_id q i v j m"
  shows "u = v \<or> sha_collision (chain_inputs i_id q i u j m) (chain_inputs i_id q i v j m)"
  using assms(3-5)
proof (induction "unat m - unat j" arbitrary: m)
  case 0
  then have "m = j"
    by (simp add: word_le_nat_alt word_unat_eq_iff)
  then show ?case
    using 0 by simp
next
  case (Suc n)
  obtain m' where m: "m = m' + 1" "m' < m" "j \<le> m'"
  proof
    have "0 < unat m" "j < m"
      using Suc.hyps(2) by (simp_all add: word_less_nat_alt)
    then have u: "unat (m - 1) = unat m - 1"
      using unat_sub[of 1 m] by (simp add: word_le_nat_alt)
    show "m = m - 1 + 1" by simp
    show "m - 1 < m" "j \<le> m - 1"
      using u \<open>0 < unat m\<close> \<open>j < m\<close> by (simp_all add: word_less_nat_alt word_le_nat_alt)
  qed
  let ?a = "chain_input i_id q i m' (lms_chain i_id q i u j m')" and ?b = "chain_input i_id q i m' (lms_chain i_id q i v j m')"
  have "sha256 ?a = sha256 ?b"
    using Suc.prems(3) lms_chain_last[OF m(3,2)] m(1) by metis
  moreover have "?a \<in> chain_inputs i_id q i u j m" "?b \<in> chain_inputs i_id q i v j m"
    using m(2,3) unfolding chain_inputs_def by blast+
  ultimately consider "?a = ?b" | "sha_collision (chain_inputs i_id q i u j m) (chain_inputs i_id q i v j m)"
    using sha_collisionI by blast
  then show ?case
  proof cases
    case 1
    then have eq: "lms_chain i_id q i u j m' = lms_chain i_id q i v j m'"
      by (simp add: chain_input_def)
    have "n = unat m' - unat j" "m' \<le> e"
      using Suc.hyps(2) Suc.prems(2) m unat_Suc_less[OF m(2)] by simp_all
    from Suc.hyps(1)[OF this(1) m(3) this(2) eq] show ?thesis
    proof
      assume "sha_collision (chain_inputs i_id q i u j m') (chain_inputs i_id q i v j m')"
      moreover have "chain_inputs i_id q i t j m' \<subseteq> chain_inputs i_id q i t j m" for t
        unfolding chain_inputs_def using m(2) by (auto intro: order.strict_trans)
      ultimately show ?thesis
        using sha_collision_mono by blast
    qed simp
  qed simp
qed

lemma node_input_eq:
  "node_input i_id node (nodes ! unat (node XOR 1)) (nodes ! unat node) =
    i_id @ be_bytes 4 (of_nat (unat (node div 2)) :: u32) @ be_bytes 2 D_INTR @ nodes ! (2 * unat (node div 2)) @ nodes ! (2 * unat (node div 2) + 1)"
proof -
  have k: "unat (node div 2) = unat node div 2"
    by (simp add: unat_div)
  have "(if odd (unat node) then nodes ! unat (node XOR 1) @ nodes ! unat node else nodes ! unat node @ nodes ! unat (node XOR 1)) =
      nodes ! (2 * unat (node div 2)) @ nodes ! (2 * unat (node div 2) + 1)"
    unfolding k unat_xor_1 by (auto elim!: evenE oddE)
  then show ?thesis
    by (simp add: node_input_def)
qed

lemma node_input_inject:
  assumes "length sib = 32" "length sib' = 32" "length tmp = 32" "length tmp' = 32" "node_input i_id node sib tmp = node_input i_id node sib' tmp'"
  shows "tmp = tmp'"
  using assms by (auto simp: node_input_def split: if_splits)

lemma walk_binding:
  assumes "holds_tree i_id h K nodes" "h \<le> 10" "0 < node" "unat node < 2 ^ Suc h" "2 ^ l \<le> unat node" "unat node < 2 ^ Suc l"
    and "length path = i + l" "\<forall>x\<in>set path. length x = 32" "length tmp = 32" "root_walk i_id path node i tmp = nodes ! 1"
  shows "tmp = nodes ! unat node \<or> sha_collision (walk_inputs i_id path node i tmp)
    {i_id @ be_bytes 4 (of_nat k :: u32) @ be_bytes 2 D_INTR @ nodes ! (2 * k) @ nodes ! (2 * k + 1) |k. 1 \<le> k \<and> k < 2 ^ h}"
    (is "_ \<or> sha_collision _ ?H")
  using assms(3-)
proof (induction l arbitrary: node i tmp)
  case 0
  then have "unat node = 1"
    by simp
  then show ?case
    using 0 by (simp add: root_walk_stop word_less_nat_alt)
next
  case (Suc l)
  have "(1 :: nat) < 2 ^ Suc l"
    by (rule one_less_power) simp_all
  then have gt: "1 < node"
    using Suc.prems(3) unfolding word_less_nat_alt by simp
  let ?k = "unat (node div 2)"
  have k: "?k = unat node div 2" "1 \<le> ?k" "?k < 2 ^ h" "0 < node div 2" "?k < 2 ^ Suc h" "2 ^ l \<le> ?k" "?k < 2 ^ Suc l"
    using gt Suc.prems(2-4) by (simp_all add: unat_div word_less_nat_alt less_mult_imp_div_less mult.commute)
  let ?a = "node_input i_id node (path ! i) tmp" and ?b = "node_input i_id node (nodes ! unat (node XOR 1)) (nodes ! unat node)"
  have W: "walk_inputs i_id path node i tmp = insert ?a (walk_inputs i_id path (node div 2) (i + 1) (sha256 ?a))"
    using gt by (simp add: walk_inputs.simps[of _ _ node])
  have "sha256 ?a = nodes ! ?k \<or> sha_collision (walk_inputs i_id path (node div 2) (i + 1) (sha256 ?a)) ?H"
    using Suc.IH[of "node div 2" "i + 1" "sha256 ?a"] k Suc.prems gt by (simp add: root_walk_step)
  then show ?case
  proof
    assume "sha_collision (walk_inputs i_id path (node div 2) (i + 1) (sha256 ?a)) ?H"
    then have "sha_collision (walk_inputs i_id path node i tmp) ?H"
      by (rule sha_collision_mono) (auto simp only: W)
    then show ?thesis ..
  next
    assume a: "sha256 ?a = nodes ! ?k"
    have b: "sha256 ?b = nodes ! ?k"
      by (rule node_input_tree[OF assms(1) gt Suc.prems(2) assms(2)])
    have "?b \<in> ?H"
      unfolding node_input_eq using k(2,3) by blast
    moreover have "?a \<in> walk_inputs i_id path node i tmp"
      unfolding W by (rule insertI1)
    moreover have "sha256 ?a = sha256 ?b"
      using a b by simp
    ultimately have "?a = ?b \<or> sha_collision (walk_inputs i_id path node i tmp) ?H"
      by (intro sha_collisionI)
    then consider "?a = ?b" | "sha_collision (walk_inputs i_id path node i tmp) ?H"
      by blast
    then show ?thesis
    proof cases
      case 1
      have "length (nodes ! unat (node XOR 1)) = 32" "length (nodes ! unat node) = 32" "length (path ! i) = 32"
        using gt Suc.prems(2,5,6) by (auto intro!: length_nodes[OF assms(1)] simp: unat_xor_1 word_less_nat_alt elim!: evenE)
      then show ?thesis
        using node_input_inject[OF _ _ Suc.prems(7) _ 1] by simp
    qed simp
  qed
qed

section \<open>The reduction\<close>

lemma concat_inject_32:
  "\<forall>x\<in>set xs. length x = 32 \<Longrightarrow> \<forall>y\<in>set ys. length y = 32 \<Longrightarrow> length xs = length ys \<Longrightarrow> concat xs = concat ys \<Longrightarrow> xs = ys"
proof (induction xs arbitrary: ys)
  case (Cons x xs)
  obtain y ys' where ys: "ys = y # ys'"
    using Cons.prems(3) by (cases ys) simp_all
  have "x @ concat xs = y @ concat ys'" "length x = length y"
    using Cons.prems ys by simp_all
  then have eq: "x = y" "concat xs = concat ys'"
    by simp_all
  have "xs = ys'"
    by (rule Cons.IH[OF _ _ _ eq(2)]) (use Cons.prems(1-3) ys in simp_all)
  then show ?case
    using eq(1) ys by simp
qed simp

text \<open>A candidate key that hashes to the leaf's public key has the honest chain ends, unless there is a collision.\<close>

lemma kc_binding:
  fixes z z' :: "bytes list"
  assumes "sha256 (kc_input i_id q z') = sha256 (kc_input i_id q z)" "kc_input i_id q z' \<in> A" "kc_input i_id q z \<in> B"
    and "\<forall>x\<in>set z'. length x = 32" "\<forall>x\<in>set z. length x = 32" "length z' = length z"
  shows "z' = z \<or> sha_collision A B"
proof -
  have "kc_input i_id q z' = kc_input i_id q z \<or> sha_collision A B"
    by (rule sha_collisionI[OF assms(2,3,1)])
  then show ?thesis
    using concat_inject_32[OF assms(4-6)] by (auto simp: kc_input_def)
qed

lemma leaf_binding:
  assumes "leaf_hash i_id h q kc' = leaf_hash i_id h q kc" "leaf_input i_id h q kc' \<in> A" "leaf_input i_id h q kc \<in> B"
  shows "kc' = kc \<or> sha_collision A B"
proof -
  have "leaf_input i_id h q kc' = leaf_input i_id h q kc \<or> sha_collision A B"
    using assms(1) by (intro sha_collisionI[OF assms(2,3)]) (simp add: leaf_hash_def leaf_input_def)
  then show ?thesis
    by (auto simp: leaf_input_def)
qed

lemma key_inputs_leaf:
  assumes "k < 2 ^ h" "q = of_nat k"
  shows "i < p \<Longrightarrow> chain_inputs i_id q i (priv_elt i_id q i seed) 0 (push_bit w 1 - 1) \<subseteq> key_inputs i_id seed w p h"
    "kc_input i_id q (map (\<lambda>i. lms_chain i_id q i (priv_elt i_id q i seed) 0 (push_bit w 1 - 1)) [0..<p]) \<in> key_inputs i_id seed w p h"
    "leaf_input i_id h q (ots_pubkey i_id q w p seed) \<in> key_inputs i_id seed w p h"
  using assms unfolding key_inputs_def Let_def by blast+

lemma chain_inputs_suffix:
  assumes "j \<le> a" "a \<le> m"
  shows "chain_inputs i_id q i (lms_chain i_id q i tmp j a) a m \<subseteq> chain_inputs i_id q i tmp j m"
proof
  fix x assume "x \<in> chain_inputs i_id q i (lms_chain i_id q i tmp j a) a m"
  then obtain k where k: "x = chain_input i_id q i k (lms_chain i_id q i (lms_chain i_id q i tmp j a) a k)" "a \<le> k" "k < m"
    unfolding chain_inputs_def by blast
  then have "x = chain_input i_id q i k (lms_chain i_id q i tmp j k)" "j \<le> k"
    using assms(1) by (simp_all add: lms_chain_trans)
  then show "x \<in> chain_inputs i_id q i tmp j m"
    using k(3) unfolding chain_inputs_def by blast
qed

text \<open>From an accepted root to the honest chain ends.\<close>

lemma accepted_chain_ends:
  assumes "ots_params otstype = Some (w, p, ls)" "lms_height lmstype = Some h" "q < push_bit h 1"
    and "length y = p" "length path = h" "\<forall>x\<in>set y. length x = 32" "\<forall>x\<in>set path. length x = 32"
    and "lms_root i_id q h (sha256 (kc_input i_id q (chain_ends i_id q w p (q_coefs (msg_digest i_id q c msg) w ls) y))) path = public_root i_id seed w p h"
  shows "chain_ends i_id q w p (q_coefs (msg_digest i_id q c msg) w ls) y =
      map (\<lambda>i. lms_chain i_id q i (priv_elt i_id q i seed) 0 (push_bit w 1 - 1)) [0..<p] \<or>
    sha_collision (verify_inputs i_id q w p ls h c y path msg) (key_inputs i_id seed w p h)"
proof -
  let ?z = "chain_ends i_id q w p (q_coefs (msg_digest i_id q c msg) w ls) y"
  let ?ends = "map (\<lambda>i. lms_chain i_id q i (priv_elt i_id q i seed) 0 (push_bit w 1 - 1)) [0..<p]"
  let ?A = "verify_inputs i_id q w p ls h c y path msg" and ?B = "key_inputs i_id seed w p h"
  note b = params_bounds(1-4)[OF assms(1,2)]
  define nodes where "nodes = snd (build_tree i_id seed w p h)"
  note tree = build_tree_holds(1)[OF b(4), of i_id w p seed, folded nodes_def]
    and root = build_tree_holds(2)[OF b(4), of i_id seed w p, folded nodes_def]
  note q = leaf_node[OF b(4) assms(3)]
  let ?node = "push_bit h 1 + q" and ?kc = "sha256 (kc_input i_id q ?z)"
  have node: "0 < ?node" "unat ?node < 2 ^ Suc h" "2 ^ h \<le> unat ?node"
    using q by (simp_all add: word_less_nat_alt)
  have leaf: "nodes ! unat ?node = leaf_hash i_id h q (ots_pubkey i_id q w p seed)"
    using tree q by (simp add: holds_tree_def)
  have qq: "q = of_nat (unat q)"
    by simp
  note key = key_inputs_leaf(2,3)[OF q(1) qq, where i_id = i_id and seed = seed and w = w and p = p]
  have walk: "walk_inputs i_id path ?node 0 (leaf_hash i_id h q ?kc) \<subseteq> ?A"
    unfolding verify_inputs_def Let_def by (rule Un_upper2)
  have kin: "kc_input i_id q ?z \<in> ?A" "leaf_input i_id h q ?kc \<in> ?A"
    unfolding verify_inputs_def Let_def by (simp_all only: Un_iff insert_iff simp_thms)
  have "leaf_hash i_id h q ?kc = nodes ! unat ?node \<or> sha_collision ?A ?B"
  proof -
    have "root_walk i_id path ?node 0 (leaf_hash i_id h q ?kc) = nodes ! 1"
      using assms(8) by (simp add: lms_root_eq root)
    from walk_binding[OF tree b(4) node(1,2) node(3,2) _ assms(7) _ this] assms(5) have "leaf_hash i_id h q ?kc = nodes ! unat ?node \<or>
        sha_collision (walk_inputs i_id path ?node 0 (leaf_hash i_id h q ?kc))
          {i_id @ be_bytes 4 (of_nat k :: u32) @ be_bytes 2 D_INTR @ nodes ! (2 * k) @ nodes ! (2 * k + 1) |k. 1 \<le> k \<and> k < 2 ^ h}"
      by (simp add: leaf_hash_def)
    moreover have "{i_id @ be_bytes 4 (of_nat k :: u32) @ be_bytes 2 D_INTR @ nodes ! (2 * k) @ nodes ! (2 * k + 1) |k. 1 \<le> k \<and> k < 2 ^ h} \<subseteq> ?B"
      unfolding key_inputs_def nodes_def Let_def by (rule Un_upper2)
    ultimately show ?thesis
      using sha_collision_mono[OF _ walk] by (elim disjE) simp_all
  qed
  moreover have "?kc = ots_pubkey i_id q w p seed \<or> sha_collision ?A ?B" if "leaf_hash i_id h q ?kc = nodes ! unat ?node"
    using leaf_binding[OF _ kin(2) key(2)] that leaf by simp
  moreover have "?z = ?ends \<or> sha_collision ?A ?B" if "?kc = ots_pubkey i_id q w p seed"
    using that assms(4,6) by (intro kc_binding[OF _ kin(1) key(1)]) (auto simp: ots_pubkey_def kc_input_def Let_def chain_ends_def priv_elt_def length_lms_chain)
  ultimately show ?thesis
    by blast
qed

text \<open>The two chains at a position where the forged coefficient is smaller.\<close>

lemma chain_reduction:
  assumes "i < p" "a' < a" "a \<le> m" "length u = 32" "length x = 32" "lms_chain i_id q i u a' m = lms_chain i_id q i x 0 m"
  shows "lms_chain i_id q i u a' a = lms_chain i_id q i x 0 a \<or> sha_collision (chain_inputs i_id q i u a' m) (chain_inputs i_id q i x 0 m)"
proof -
  have le: "a' \<le> a" "0 \<le> a"
    using assms(2) by simp_all
  let ?u = "lms_chain i_id q i u a' a" and ?v = "lms_chain i_id q i x 0 a"
  have "length ?u = 32" "length ?v = 32"
    using assms(4,5) by (simp_all add: length_lms_chain)
  moreover have "lms_chain i_id q i ?u a m = lms_chain i_id q i ?v a m"
    using assms(3,6) le by (simp add: lms_chain_trans)
  ultimately have "?u = ?v \<or> sha_collision (chain_inputs i_id q i ?u a m) (chain_inputs i_id q i ?v a m)"
    using chain_binding[OF _ _ assms(3) order.refl] by blast
  then show ?thesis
    using sha_collision_mono[OF _ chain_inputs_suffix[OF le(1) assms(3)] chain_inputs_suffix[OF le(2) assms(3)]] by blast
qed

lemma length_public_root: "h \<le> 10 \<Longrightarrow> length (public_root i_id seed w p h) = 32"
  unfolding build_tree_holds(2) by (rule length_nodes[OF build_tree_holds(1) order.refl one_less_power]) simp_all

text \<open>What the signer publishes: the randomizer and, per position, the chain value at the coefficient.\<close>

lemma sign_publishes:
  assumes "ots_params otstype = Some (w, p, ls)" "lms_height lmstype = Some h" "q < push_bit h 1" "length msg \<le> 256"
    and "44 + 32 * p + 32 * h \<le> length out" "lms_sign i_id seed q w p ls h otstype lmstype msg out = (out', n)"
  shows "slice out' 8 32 = randomizer i_id q seed"
    "i < p \<Longrightarrow> slice out' (40 + 32 * i) 32 = lms_chain i_id q i (priv_elt i_id q i seed) 0 (coef (q_coefs (msg_digest i_id q (randomizer i_id q seed) msg) w ls) i w)"
proof -
  define c where "c = randomizer i_id q seed"
  define y where "y = map (\<lambda>i. lms_chain i_id q i (priv_elt i_id q i seed) 0 (coef (q_coefs (msg_digest i_id q c msg) w ls) i w)) [0..<p]"
  note sg = sign_eq(1)[OF assms(1-5), of i_id seed, folded c_def, folded y_def]
  have lc: "length c = 32" and ly: "length y = p" "\<forall>x\<in>set y. length x = 32"
    by (auto simp: c_def y_def randomizer_def priv_elt_def length_lms_chain)
  have out: "out' = be_bytes 4 q @ be_bytes 4 otstype @ c @ concat y @ be_bytes 4 lmstype @
      concat (auth_path (snd (build_tree i_id seed w p h)) (push_bit h 1 + q)) @ drop n out"
    using sg assms(6) by (auto simp: put_def)
  have "slice out' 8 32 = c" "i < p \<Longrightarrow> slice out' (40 + 32 * i) 32 = y ! i"
    unfolding out using lc ly slice_concat[OF ly(2)] by (simp_all add: slice_append2 slice_prefix mult.commute)
  then show "slice out' 8 32 = randomizer i_id q seed"
    "i < p \<Longrightarrow> slice out' (40 + 32 * i) 32 = lms_chain i_id q i (priv_elt i_id q i seed) 0 (coef (q_coefs (msg_digest i_id q (randomizer i_id q seed) msg) w ls) i w)"
    by (simp_all add: y_def c_def)
qed

text \<open>
  C8: Forging a signature breaks the hash. Suppose the signer has signed one message with a leaf, and
  the verifier accepts, under the signer's root and for the same leaf, a signature with another
  message or another randomizer. Then either two different messages collide under SHA-256, one of
  them hashed by the verifier on the forgery and the other by the key generation or the signer; or at
  some position the forged value is the start of a hash chain, at least one step long, that ends in
  the value the signer published there, so that a chain step has been inverted.
\<close>

theorem lms_forgery_breaks_hash:
  assumes "ots_params otstype = Some (w, p, ls)" "lms_height lmstype = Some h" "q < push_bit h 1" "length msg \<le> 256"
    and "44 + 32 * p + 32 * h \<le> length out" "lms_sign i_id seed q w p ls h otstype lmstype msg out = (out', n)"
    and "length c' = 32" "length y' = p" "length path' = h" "\<forall>x\<in>set y'. length x = 32" "\<forall>x\<in>set path'. length x = 32"
    and "lms_verify (public_root i_id seed w p h) i_id msg' (be_bytes 4 q @ be_bytes 4 otstype @ c' @ concat y' @ be_bytes 4 lmstype @ concat path')"
    and "(c', msg') \<noteq> (slice out' 8 32, msg)"
  shows "sha_collision (verify_inputs i_id q w p ls h c' y' path' msg') (insert (msg_input i_id q (slice out' 8 32) msg) (key_inputs i_id seed w p h)) \<or>
    (\<exists>i<p. \<exists>a' a. a' < a \<and> lms_chain i_id q i (y' ! i) a' a = slice out' (40 + 32 * i) 32)"
proof -
  note b = params_bounds[OF assms(1,2)]
  define c where "c = randomizer i_id q seed"
  define Q where "Q = msg_digest i_id q c msg"
  define Q' where "Q' = msg_digest i_id q c' msg'"
  have pub: "slice out' 8 32 = c" "\<And>i. i < p \<Longrightarrow> slice out' (40 + 32 * i) 32 = lms_chain i_id q i (priv_elt i_id q i seed) 0 (coef (q_coefs Q w ls) i w)"
    using sign_publishes[OF assms(1-6)] by (simp_all add: c_def Q_def)
  have lc: "length c = 32"
    by (simp add: c_def randomizer_def)
  let ?A = "verify_inputs i_id q w p ls h c' y' path' msg'" and ?B = "key_inputs i_id seed w p h"
  note root = length_public_root[OF b(4), of i_id seed w p]
  note acc = assms(12)[unfolded verify_iff[OF assms(1,2) root assms(7-11)]]
  have "chain_ends i_id q w p (q_coefs Q' w ls) y' = map (\<lambda>i. lms_chain i_id q i (priv_elt i_id q i seed) 0 (push_bit w 1 - 1)) [0..<p] \<or> sha_collision ?A ?B"
    unfolding Q'_def using acc by (intro accepted_chain_ends[OF assms(1-3,8-11)]) blast
  then consider (ends) "\<And>i. i < p \<Longrightarrow> lms_chain i_id q i (y' ! i) (coef (q_coefs Q' w ls) i w) (push_bit w 1 - 1) = lms_chain i_id q i (priv_elt i_id q i seed) 0 (push_bit w 1 - 1)"
    | (coll) "sha_collision ?A ?B"
    by (auto simp: chain_ends_def list_eq_iff_nth_eq simp del: push_bit_of_1)
  then show ?thesis
  proof cases
    case coll
    then show ?thesis
      using sha_collision_mono[OF _ order.refl subset_insertI] by blast
  next
    case ends
    show ?thesis
    proof (cases "Q' = Q")
      case True
      have "msg_input i_id q c' msg' \<noteq> msg_input i_id q c msg"
        using assms(7,13) pub(1) lc by (auto simp: msg_input_def)
      moreover have "sha256 (msg_input i_id q c' msg') = sha256 (msg_input i_id q c msg)"
        using True by (simp add: Q_def Q'_def msg_digest_def msg_input_def)
      moreover have "msg_input i_id q c' msg' \<in> ?A"
        unfolding verify_inputs_def Let_def by (simp only: Un_iff insert_iff simp_thms)
      ultimately have "sha_collision ?A (insert (msg_input i_id q c msg) ?B)"
        unfolding sha_collision_def by blast
      then show ?thesis
        unfolding pub(1) ..
    next
      case False
      then obtain i where i: "i < p" "coef (q_coefs Q' w ls) i w < coef (q_coefs Q w ls) i w"
        using no_domination[OF b(5), of Q Q'] by (auto simp: Q_def Q'_def msg_digest_def)
      let ?U = "chain_inputs i_id q i (y' ! i) (coef (q_coefs Q' w ls) i w) (push_bit w 1 - 1)"
      let ?V = "chain_inputs i_id q i (priv_elt i_id q i seed) 0 (push_bit w 1 - 1)"
      have "length (y' ! i) = 32"
        using assms(8,10) i(1) by simp
      moreover have "length (priv_elt i_id q i seed) = 32"
        by (simp add: priv_elt_def)
      ultimately have "lms_chain i_id q i (y' ! i) (coef (q_coefs Q' w ls) i w) (coef (q_coefs Q w ls) i w) = slice out' (40 + 32 * i) 32 \<or> sha_collision ?U ?V"
        using chain_reduction[OF i coef_le _ _ ends[OF i(1)]] pub(2)[OF i(1)] by simp
      moreover have "?U \<subseteq> ?A"
        unfolding verify_inputs_def Let_def Q'_def[symmetric] using i(1) by blast
      moreover have "unat q < 2 ^ h" "q = of_nat (unat q)"
        using leaf_node(1)[OF b(4) assms(3)] by simp_all
      from key_inputs_leaf(1)[OF this i(1)] have "?V \<subseteq> insert (msg_input i_id q (slice out' 8 32) msg) ?B"
        by blast
      ultimately have "lms_chain i_id q i (y' ! i) (coef (q_coefs Q' w ls) i w) (coef (q_coefs Q w ls) i w) = slice out' (40 + 32 * i) 32 \<or>
          sha_collision ?A (insert (msg_input i_id q (slice out' 8 32) msg) ?B)"
        by (elim disjE) (simp, rule disjI2, rule sha_collision_mono)
      then show ?thesis
        using i by blast
    qed
  qed
qed

text \<open>A leaf used twice: the second signature of the signer counts as the forgery.\<close>

theorem lms_forgery_breaks_hash_witness:
  "\<exists>c' y' path' out'. out' = fst (lms_sign TOY_I (replicate 32 0x5A) 3 8 34 0 5 LMOTS_SHA256_N32_W8 LMS_SHA256_M32_H5 [1] (replicate 1292 0)) \<and>
     lms_verify (public_root TOY_I (replicate 32 0x5A) 8 34 5) TOY_I [2]
       (be_bytes 4 (3 :: u32) @ be_bytes 4 LMOTS_SHA256_N32_W8 @ c' @ concat y' @ be_bytes 4 LMS_SHA256_M32_H5 @ concat path') \<and>
     (sha_collision (verify_inputs TOY_I 3 8 34 0 5 c' y' path' [2]) (insert (msg_input TOY_I 3 (slice out' 8 32) [1]) (key_inputs TOY_I (replicate 32 0x5A) 8 34 5)) \<or>
      (\<exists>i<34. \<exists>a' a. a' < a \<and> lms_chain TOY_I 3 i (y' ! i) a' a = slice out' (40 + 32 * i) 32))"
proof -
  let ?seed = "replicate 32 (0x5A :: u8)" and ?ots = LMOTS_SHA256_N32_W8 and ?lms = LMS_SHA256_M32_H5
  obtain out' n where s: "lms_sign TOY_I ?seed 3 8 34 0 5 ?ots ?lms [1] (replicate 1292 0) = (out', n)"
    by fastforce
  have p: "ots_params ?ots = Some (8, 34, 0)" "lms_height ?lms = Some 5" "(3 :: u32) < push_bit 5 1"
    "length [1 :: u8] \<le> 256" "length [2 :: u8] \<le> 256" "44 + 32 * 34 + 32 * 5 \<le> length (replicate 1292 (0 :: u8))"
    by (simp_all add: ots_params_def LMOTS_SHA256_N32_W4_def LMOTS_SHA256_N32_W8_def lms_height_def)
  define c' where "c' = randomizer TOY_I 3 ?seed"
  define y' where "y' = map (\<lambda>i. lms_chain TOY_I 3 i (priv_elt TOY_I 3 i ?seed) 0 (coef (q_coefs (msg_digest TOY_I 3 c' [2]) 8 0) i 8)) [0..<34]"
  define path' where "path' = auth_path (snd (build_tree TOY_I ?seed 8 34 5)) (push_bit 5 1 + 3)"
  note v = sign_eq(3)[OF p(1,2,3,5,6), of TOY_I ?seed, folded c'_def, folded y'_def path'_def]
  have "(0 :: u32) < push_bit 5 1 + 3" "unat (push_bit 5 1 + 3 :: u32) < 2 ^ Suc 5" "2 ^ 5 \<le> unat (push_bit 5 1 + 3 :: u32)" "5 \<le> (10 :: nat)"
    by simp_all
  note lp = length_auth_path[OF this(3,2)] length_auth_nodes[OF build_tree_holds(1)[OF this(4)] this(4,1,2)]
  have lp: "length path' = 5" "\<forall>x\<in>set path'. length x = 32"
    unfolding path'_def by (rule lp)+
  have ly: "length c' = 32" "length y' = 34" "\<forall>x\<in>set y'. length x = 32"
    by (auto simp: c'_def y'_def randomizer_def priv_elt_def length_lms_chain)
  have "(c', [2]) \<noteq> (slice out' 8 32, [1 :: u8])"
    by simp
  note reduction = lms_forgery_breaks_hash[OF p(1,2,3,4,6) s ly(1,2) lp(1) ly(3) lp(2) v this]
  show ?thesis
    by (intro exI conjI, simp only: s fst_conv, rule v, rule reduction)
qed

end
