(* ===== verification/Provhead.thy ===== *)
theory Provhead
  imports Blkfmt
begin

text \<open>
  The multi-sector record of a signed provenance head, \<open>crates/tb-encode/src/provhead.rs\<close>: a blob with
  the head, its signature and a spanning checksum, cut into sectors that each carry the low half of
  the generation and a checksum of their own; the decoder that accepts only a whole record; and the
  choice between the two slots.
\<close>

section \<open>Layout\<close>

definition PH_SECTOR :: nat where "PH_SECTOR = 512"
definition SEC_META :: nat where "SEC_META = 8"
definition SEC_PAYLOAD :: nat where "SEC_PAYLOAD = PH_SECTOR - SEC_META"
definition PROV_MAGIC :: bytes where "PROV_MAGIC = [0x59, 0x48]"
definition PROV_VERSION :: u8 where "PROV_VERSION = 1"
definition HEAD_LEN :: nat where "HEAD_LEN = 32"
definition I_LEN :: nat where "I_LEN = 16"
definition ROOT_LEN :: nat where "ROOT_LEN = 32"
definition SIG_CAP :: nat where "SIG_CAP = 2508"
definition BLOB_FIXED :: nat where "BLOB_FIXED = 2 + 1 + 1 + 8 + 4 + 2 + HEAD_LEN + I_LEN + ROOT_LEN"
definition BLOB_CRC :: nat where "BLOB_CRC = 8"
definition BLOB_CAP :: nat where "BLOB_CAP = BLOB_FIXED + SIG_CAP + BLOB_CRC"

definition div_ceil :: "nat \<Rightarrow> nat \<Rightarrow> nat" where
  "div_ceil a b = (if a mod b = 0 then a div b else a div b + 1)"

definition MAX_SECTORS :: nat where "MAX_SECTORS = div_ceil BLOB_CAP SEC_PAYLOAD"
definition SLAB_BYTES :: nat where "SLAB_BYTES = MAX_SECTORS * PH_SECTOR"
definition PH_OFF_MAGIC :: nat where "PH_OFF_MAGIC = 0"
definition PH_OFF_VERSION :: nat where "PH_OFF_VERSION = 2"
definition PH_OFF_GEN :: nat where "PH_OFF_GEN = 4"
definition PH_OFF_Q :: nat where "PH_OFF_Q = 12"
definition PH_OFF_SIGLEN :: nat where "PH_OFF_SIGLEN = 16"
definition PH_OFF_HEAD :: nat where "PH_OFF_HEAD = 18"
definition PH_OFF_I :: nat where "PH_OFF_I = PH_OFF_HEAD + HEAD_LEN"
definition PH_OFF_ROOT :: nat where "PH_OFF_ROOT = PH_OFF_I + I_LEN"
definition OFF_SIG :: nat where "OFF_SIG = PH_OFF_ROOT + ROOT_LEN"

lemmas ph_consts = PH_SECTOR_def SEC_META_def SEC_PAYLOAD_def HEAD_LEN_def I_LEN_def ROOT_LEN_def SIG_CAP_def BLOB_FIXED_def BLOB_CRC_def BLOB_CAP_def
  PH_OFF_MAGIC_def PH_OFF_VERSION_def PH_OFF_GEN_def PH_OFF_Q_def PH_OFF_SIGLEN_def PH_OFF_HEAD_def PH_OFF_I_def PH_OFF_ROOT_def OFF_SIG_def

record decoded_head =
  dh_gen :: u64
  dh_q :: u32
  dh_siglen :: u16
  dh_head :: bytes
  dh_i_id :: bytes
  dh_pubroot :: bytes
  dh_n_sectors :: nat

definition sectors_for :: "nat \<Rightarrow> nat option" where
  "sectors_for siglen = (if siglen > SIG_CAP then None
     else let l = BLOB_FIXED + siglen + BLOB_CRC in Some (div_ceil l SEC_PAYLOAD))"

section \<open>Checksums\<close>

definition fnv1a32_chain :: "u32 \<Rightarrow> bytes \<Rightarrow> u32" where
  "fnv1a32_chain h data = fnv_loop 0x01000193 h data"

definition sector_crc :: "bytes \<Rightarrow> u32" where
  "sector_crc sector = fnv1a32_chain (fnv1a32 (slice sector 0 4)) (slice sector SEC_META (PH_SECTOR - SEC_META))"

definition refresh_sector_crc :: "bytes \<Rightarrow> bytes" where
  "refresh_sector_crc sector = put 4 (le_bytes 4 (sector_crc (slice sector 0 PH_SECTOR))) sector"

section \<open>The encoder\<close>

text \<open>One round of the chunking loop: clear the sector, stamp it, copy its part of the blob, checksum it.\<close>

definition encode_sector :: "bytes \<Rightarrow> nat \<Rightarrow> u32 \<Rightarrow> nat \<Rightarrow> bytes \<Rightarrow> bytes" where
  "encode_sector blob l gen_tag s out = (let
     sbase = s * PH_SECTOR;
     out = put sbase (replicate PH_SECTOR 0) out;
     out = put sbase (le_bytes 4 gen_tag) out;
     pstart = s * SEC_PAYLOAD;
     out = put (sbase + SEC_META) (slice blob pstart (min SEC_PAYLOAD (l - pstart))) out;
     crc = sector_crc (slice out sbase PH_SECTOR)
   in put (sbase + 4) (le_bytes 4 crc) out)"

definition ph_encode :: "u64 \<Rightarrow> u32 \<Rightarrow> bytes \<Rightarrow> bytes \<Rightarrow> bytes \<Rightarrow> bytes \<Rightarrow> bytes \<Rightarrow> bytes \<Rightarrow> bytes \<times> bytes \<times> nat" where
  "ph_encode gen q head i_id pubroot sig blob out = (case sectors_for (length sig) of
     None \<Rightarrow> (blob, out, 0)
   | Some n_sectors \<Rightarrow>
     let siglen = length sig; l = BLOB_FIXED + siglen + BLOB_CRC in
     if length blob < l \<or> length out < n_sectors * PH_SECTOR then (blob, out, 0)
     else let
       blob = put 0 (replicate l 0) blob;
       blob = put PH_OFF_MAGIC PROV_MAGIC blob;
       blob = put PH_OFF_VERSION [PROV_VERSION] blob;
       blob = put PH_OFF_GEN (le_bytes 8 gen) blob;
       blob = put PH_OFF_Q (le_bytes 4 q) blob;
       blob = put PH_OFF_SIGLEN (le_bytes 2 (of_nat siglen :: u16)) blob;
       blob = put PH_OFF_HEAD head blob;
       blob = put PH_OFF_I i_id blob;
       blob = put PH_OFF_ROOT pubroot blob;
       blob = put OFF_SIG sig blob;
       span = fnv1a64 (slice blob 0 (l - BLOB_CRC));
       blob = put (l - BLOB_CRC) (le_bytes 8 span) blob;
       gen_tag = ucast (gen AND 0xffffffff);
       out = fold (encode_sector blob l gen_tag) [0..<n_sectors] out
     in (blob, out, n_sectors * PH_SECTOR))"

section \<open>The decoder\<close>

text \<open>The loop that checks sector \<open>s\<close> and those after it, and reassembles the blob.\<close>

function check_sectors :: "bytes \<Rightarrow> nat \<Rightarrow> nat \<Rightarrow> u32 \<Rightarrow> nat \<Rightarrow> bytes \<Rightarrow> bytes \<times> bool" where
  "check_sectors sectors n_sectors l gen_tag s blob = (if s < n_sectors
     then let sec = slice sectors (s * PH_SECTOR) PH_SECTOR in
       if sector_crc sec \<noteq> of_le_bytes (slice sec 4 4) then (blob, False)
       else if of_le_bytes (slice sec 0 4) \<noteq> gen_tag then (blob, False)
       else let pstart = s * SEC_PAYLOAD in
         check_sectors sectors n_sectors l gen_tag (s + 1) (put pstart (slice sec SEC_META (min SEC_PAYLOAD (l - pstart))) blob)
     else (blob, True))"
  by auto
termination
  by (relation "measure (\<lambda>(sectors, n, l, tag, s, blob). n - s)") auto

declare check_sectors.simps [simp del]

definition ph_decode :: "bytes \<Rightarrow> bytes \<Rightarrow> bytes \<times> decoded_head option" where
  "ph_decode sectors blob = (
     if length sectors < PH_SECTOR then (blob, None)
     else let s0 = slice sectors 0 PH_SECTOR in
       if s0 ! (SEC_META + PH_OFF_MAGIC) \<noteq> PROV_MAGIC ! 0 \<or> s0 ! (SEC_META + PH_OFF_MAGIC + 1) \<noteq> PROV_MAGIC ! 1 \<or>
          s0 ! (SEC_META + PH_OFF_VERSION) \<noteq> PROV_VERSION then (blob, None)
       else let
         hd = slice s0 SEC_META (PH_SECTOR - SEC_META);
         gen = of_le_bytes (slice hd PH_OFF_GEN 8) :: u64;
         q = of_le_bytes (slice hd PH_OFF_Q 4);
         siglen = unat (of_le_bytes (slice hd PH_OFF_SIGLEN 2) :: u16)
       in case sectors_for siglen of
            None \<Rightarrow> (blob, None)
          | Some n_sectors \<Rightarrow>
            let l = BLOB_FIXED + siglen + BLOB_CRC in
            if length sectors < n_sectors * PH_SECTOR \<or> length blob < l then (blob, None)
            else (case check_sectors sectors n_sectors l (ucast (gen AND 0xffffffff)) 0 blob of
               (blob, False) \<Rightarrow> (blob, None)
             | (blob, True) \<Rightarrow>
                 if fnv1a64 (slice blob 0 (l - BLOB_CRC)) \<noteq> of_le_bytes (slice blob (l - BLOB_CRC) 8) then (blob, None)
                 else (blob, Some \<lparr>dh_gen = gen, dh_q = q, dh_siglen = of_nat siglen, dh_head = slice blob PH_OFF_HEAD HEAD_LEN,
                   dh_i_id = slice blob PH_OFF_I I_LEN, dh_pubroot = slice blob PH_OFF_ROOT ROOT_LEN, dh_n_sectors = n_sectors\<rparr>)))"

fun pick_newer :: "u64 option \<Rightarrow> u64 option \<Rightarrow> bool option" where
  "pick_newer None None = None"
| "pick_newer (Some _) None = Some False"
| "pick_newer None (Some _) = Some True"
| "pick_newer (Some ga) (Some gb) = Some (gb > ga)"

section \<open>The record as a value\<close>

definition rec_body :: "u64 \<Rightarrow> u32 \<Rightarrow> bytes \<Rightarrow> bytes \<Rightarrow> bytes \<Rightarrow> bytes \<Rightarrow> bytes" where
  "rec_body gen q head i_id pubroot sig = PROV_MAGIC @ [PROV_VERSION, 0] @ le_bytes 8 gen @ le_bytes 4 q @ le_bytes 2 (of_nat (length sig) :: u16) @
     head @ i_id @ pubroot @ sig"

definition rec_blob :: "u64 \<Rightarrow> u32 \<Rightarrow> bytes \<Rightarrow> bytes \<Rightarrow> bytes \<Rightarrow> bytes \<Rightarrow> bytes" where
  "rec_blob gen q head i_id pubroot sig = (let b = rec_body gen q head i_id pubroot sig in b @ le_bytes 8 (fnv1a64 b))"

text \<open>Sector \<open>s\<close> of a blob under a generation stamp.\<close>

definition sec_pay :: "bytes \<Rightarrow> nat \<Rightarrow> bytes" where
  "sec_pay blob s = (let p = slice blob (s * 504) 504 in p @ replicate (504 - length p) 0)"

definition rec_sector :: "u32 \<Rightarrow> bytes \<Rightarrow> nat \<Rightarrow> bytes" where
  "rec_sector tag blob s = le_bytes 4 tag @ le_bytes 4 (fnv1a32_chain (fnv1a32 (le_bytes 4 tag)) (sec_pay blob s)) @ sec_pay blob s"

definition gen_tag :: "u64 \<Rightarrow> u32" where "gen_tag gen = ucast (gen AND 0xffffffff)"

definition rec_sectors :: "u64 \<Rightarrow> u32 \<Rightarrow> bytes \<Rightarrow> bytes \<Rightarrow> bytes \<Rightarrow> bytes \<Rightarrow> bytes list" where
  "rec_sectors gen q head i_id pubroot sig = (let b = rec_blob gen q head i_id pubroot sig in
     map (rec_sector (gen_tag gen) b) [0..<div_ceil (length b) 504])"

lemma length_sec_pay [simp]: "length (sec_pay blob s) = 504"
  by (simp add: sec_pay_def slice_def Let_def)

lemma length_rec_sector [simp]: "length (rec_sector tag blob s) = 512"
  by (simp add: rec_sector_def)

lemma sector_crc_layout:
  "length t = 4 \<Longrightarrow> length x = 4 \<Longrightarrow> length p = 504 \<Longrightarrow> sector_crc (t @ x @ p) = fnv1a32_chain (fnv1a32 t) p"
  by (simp add: sector_crc_def ph_consts slice_append1 slice_append2 slice_full slice_prefix)

lemma rec_sector_facts:
  "of_le_bytes (slice (rec_sector tag blob s) 0 4) = tag" "of_le_bytes (slice (rec_sector tag blob s) 4 4) = sector_crc (rec_sector tag blob s)"
  "slice (rec_sector tag blob s) 8 504 = sec_pay blob s"
  by (simp_all add: rec_sector_def sector_crc_layout slice_append2 slice_prefix slice_full)

lemma sec_pay_slice:
  assumes "k \<le> 504" "s * 504 + k \<le> length blob"
  shows "slice (rec_sector tag blob s) 8 k = slice blob (s * 504) k"
proof -
  have "slice (rec_sector tag blob s) 8 k = take k (sec_pay blob s)"
    using rec_sector_facts(3)[of tag blob s] assms(1) by (metis slice_def min.absorb1 take_take)
  also have "\<dots> = slice blob (s * 504) k"
    using assms by (simp add: sec_pay_def slice_def Let_def min.absorb1 take_append)
  finally show ?thesis .
qed

lemma div_ceil_bounds: "0 < b \<Longrightarrow> 0 < a \<Longrightarrow> 0 < div_ceil a b \<and> (div_ceil a b - 1) * b < a \<and> a \<le> div_ceil a b * b"
proof -
  assume b: "0 < b" "0 < a"
  have a: "a = a div b * b + a mod b"
    by simp
  show ?thesis
  proof (cases "a mod b = 0")
    case True
    then have "0 < a div b"
      using a b by (metis add.right_neutral bot_nat_0.not_eq_extremum mult_0)
    then have "(a div b - 1) * b < a div b * b"
      using b by simp
    moreover have "a div b * b = a"
      using True a by simp
    ultimately show ?thesis
      using True \<open>0 < a div b\<close> by (simp add: div_ceil_def)
  next
    case False
    then have "a div b * b < a" "a \<le> a div b * b + b"
      using a mod_less_divisor[OF b(1), of a] by linarith+
    then show ?thesis
      using False by (simp add: div_ceil_def add.commute)
  qed
qed

section \<open>Encoding\<close>

lemma encode_sector_append:
  assumes "length pre = s * 512" "512 \<le> length rest" "length blob \<ge> l" "s * 504 < l"
  shows "encode_sector blob l tag s (pre @ rest) = pre @ rec_sector tag (take l blob) s @ drop 512 rest"
proof -
  let ?p = "slice blob (s * 504) (min 504 (l - s * 504))"
  have p: "?p = slice (take l blob) (s * 504) 504" "length ?p \<le> 504"
    using assms(4) by (simp_all add: slice_def drop_take)
  have pay: "?p @ replicate (504 - length ?p) 0 = sec_pay (take l blob) s"
    unfolding p(1) sec_pay_def Let_def ..
  have zero: "put (s * 512) (replicate 512 0) (pre @ rest) = pre @ replicate 512 0 @ drop 512 rest"
    using assms(1) by (simp add: put_append)
  have stamp: "put (s * 512) (le_bytes 4 tag) (pre @ replicate 512 0 @ drop 512 rest) = pre @ le_bytes 4 tag @ replicate 4 0 @ replicate 504 0 @ drop 512 rest"
    using assms(1) by (simp add: put_append replicate_add[symmetric])
  have copy: "put (s * 512 + 8) ?p (pre @ le_bytes 4 tag @ replicate 4 0 @ replicate 504 0 @ drop 512 rest) =
      pre @ le_bytes 4 tag @ replicate 4 0 @ sec_pay (take l blob) s @ drop 512 rest"
    using assms(1) p(2) by (simp add: put_def pay[symmetric] drop_append take_append)
  have sec: "slice (pre @ le_bytes 4 tag @ replicate 4 0 @ sec_pay (take l blob) s @ drop 512 rest) (s * 512) 512 = le_bytes 4 tag @ replicate 4 0 @ sec_pay (take l blob) s"
    using assms(1) by (simp add: slice_def)
  have "encode_sector blob l tag s (pre @ rest) = (let out = put (s * 512 + 8) ?p (put (s * 512) (le_bytes 4 tag) (put (s * 512) (replicate 512 0) (pre @ rest)))
      in put (s * 512 + 4) (le_bytes 4 (sector_crc (slice out (s * 512) 512))) out)"
    by (simp add: encode_sector_def Let_def ph_consts)
  also have "\<dots> = put (s * 512 + 4) (le_bytes 4 (fnv1a32_chain (fnv1a32 (le_bytes 4 tag)) (sec_pay (take l blob) s)))
      (pre @ le_bytes 4 tag @ replicate 4 0 @ sec_pay (take l blob) s @ drop 512 rest)"
    unfolding zero stamp copy Let_def sec by (simp add: sector_crc_layout)
  also have "\<dots> = pre @ rec_sector tag (take l blob) s @ drop 512 rest"
    using assms(1) by (simp add: put_def rec_sector_def)
  finally show ?thesis .
qed

lemma fold_encode_sector:
  assumes "n * 512 \<le> length out" "l \<le> length blob" "\<And>s. s < n \<Longrightarrow> s * 504 < l"
  shows "fold (encode_sector blob l tag) [0..<n] out = concat (map (rec_sector tag (take l blob)) [0..<n]) @ drop (n * 512) out"
  using assms
proof (induction n)
  case (Suc n)
  have len: "length (concat (map (rec_sector tag (take l blob)) [0..<n])) = n * 512"
    by (simp add: length_concat comp_def sum_list_triv)
  have "fold (encode_sector blob l tag) [0..<Suc n] out = encode_sector blob l tag n (concat (map (rec_sector tag (take l blob)) [0..<n]) @ drop (n * 512) out)"
    using Suc by simp
  also have "\<dots> = concat (map (rec_sector tag (take l blob)) [0..<Suc n]) @ drop (Suc n * 512) out"
    using Suc.prems by (subst encode_sector_append[OF len]) (simp_all add: add.commute)
  finally show ?case .
qed simp

lemma length_rec_body: "length head = 32 \<Longrightarrow> length i_id = 16 \<Longrightarrow> length pubroot = 32 \<Longrightarrow> length (rec_body gen q head i_id pubroot sig) = 98 + length sig"
  by (simp add: rec_body_def PROV_MAGIC_def)

lemma length_rec_blob: "length head = 32 \<Longrightarrow> length i_id = 16 \<Longrightarrow> length pubroot = 32 \<Longrightarrow> length (rec_blob gen q head i_id pubroot sig) = 106 + length sig"
  by (simp add: rec_blob_def Let_def length_rec_body)

lemma ph_encode_eq:
  assumes "length head = 32" "length i_id = 16" "length pubroot = 32" "length sig \<le> 2508" "106 + length sig \<le> length blob"
    and "div_ceil (106 + length sig) 504 * 512 \<le> length out"
  shows "\<exists>blob'. ph_encode gen q head i_id pubroot sig blob out =
    (blob', concat (rec_sectors gen q head i_id pubroot sig) @ drop (div_ceil (106 + length sig) 504 * 512) out, div_ceil (106 + length sig) 504 * 512)"
proof -
  let ?l = "106 + length sig" and ?n = "div_ceil (106 + length sig) 504" and ?b = "rec_body gen q head i_id pubroot sig"
  let ?blob = "rec_blob gen q head i_id pubroot sig @ drop ?l blob"
  have sf: "sectors_for (length sig) = Some ?n"
    using assms(4) by (simp add: sectors_for_def ph_consts Let_def)
  have zero: "put 0 (replicate ?l 0) blob = replicate 98 0 @ replicate (length sig) 0 @ replicate 8 0 @ drop ?l blob"
    by (simp add: put_def replicate_add[symmetric] add.commute)
  have fixed: "put 66 pubroot (put 50 i_id (put 18 head (put 16 (le_bytes 2 (of_nat (length sig) :: u16)) (put 12 (le_bytes 4 q) (put 4 (le_bytes 8 gen)
      (put 2 [PROV_VERSION] (put 0 PROV_MAGIC (replicate 98 0 @ rest)))))))) =
      (PROV_MAGIC @ [PROV_VERSION, 0] @ le_bytes 8 gen @ le_bytes 4 q @ le_bytes 2 (of_nat (length sig) :: u16) @ head @ i_id @ pubroot) @ rest" for rest
    using assms(1-3) by (simp add: put_def PROV_MAGIC_def)
  have "put 98 sig ((PROV_MAGIC @ [PROV_VERSION, 0] @ le_bytes 8 gen @ le_bytes 4 q @ le_bytes 2 (of_nat (length sig) :: u16) @ head @ i_id @ pubroot) @
      replicate (length sig) 0 @ replicate 8 0 @ drop ?l blob) = ?b @ replicate 8 0 @ drop ?l blob"
    using assms(1-3) by (subst put_append) (simp_all add: rec_body_def PROV_MAGIC_def)
  moreover have "slice (?b @ replicate 8 0 @ drop ?l blob) 0 (?l - 8) = ?b"
    using assms(1-3) by (simp add: slice_prefix length_rec_body)
  moreover have "put (?l - 8) (le_bytes 8 (fnv1a64 ?b)) (?b @ replicate 8 0 @ drop ?l blob) = ?blob"
    using assms(1-3) by (simp add: put_append length_rec_body rec_blob_def Let_def)
  moreover have "fold (encode_sector ?blob ?l (gen_tag gen)) [0..<?n] out = concat (rec_sectors gen q head i_id pubroot sig) @ drop (?n * 512) out"
  proof -
    have "s * 504 < ?l" if "s < ?n" for s
    proof -
      have "s * 504 \<le> (?n - 1) * 504"
        using that by simp
      then show ?thesis
        using div_ceil_bounds[of 504 ?l] by linarith
    qed
    moreover have "take ?l ?blob = rec_blob gen q head i_id pubroot sig"
      using assms(1-3) by (simp add: length_rec_blob)
    ultimately show ?thesis
      using fold_encode_sector[OF assms(6), of ?l ?blob "gen_tag gen"] assms(1-3) by (simp add: rec_sectors_def length_rec_blob)
  qed
  ultimately show ?thesis
    using assms(5,6) unfolding ph_encode_def sf option.case Let_def
    by (simp add: ph_consts zero fixed gen_tag_def del: append_assoc)
qed

section \<open>Decoding\<close>

lemma check_sectors_accept:
  assumes "\<And>s. s < n \<Longrightarrow> slice sectors (s * 512) 512 = rec_sector tag rb s" "(n - 1) * 504 < length rb" "length rb \<le> n * 504"
    and "length rb \<le> length blob" "take (min (k * 504) (length rb)) blob = take (k * 504) rb" "k \<le> n"
  shows "\<exists>blob'. check_sectors sectors n (length rb) tag k blob = (blob', True) \<and> take (length rb) blob' = rb \<and> length blob' = length blob"
  using assms(4-)
proof (induction "n - k" arbitrary: k blob)
  case 0
  then have "k = n"
    by simp
  then have "take (length rb) blob = rb"
    using assms(3) 0(3) by (simp add: min.absorb2)
  then show ?case
    using \<open>k = n\<close> by (simp add: check_sectors.simps)
next
  case (Suc j)
  then have k: "k < n"
    by simp
  let ?c = "min 504 (length rb - k * 504)"
  have "k * 504 \<le> (n - 1) * 504"
    using k by simp
  then have kl: "k * 504 < length rb"
    using assms(2) by linarith
  have pay: "slice (rec_sector tag rb k) 8 ?c = slice rb (k * 504) ?c"
    using kl by (intro sec_pay_slice) simp_all
  let ?blob = "put (k * 504) (slice rb (k * 504) ?c) blob"
  have lc: "length (slice rb (k * 504) ?c) = ?c"
    using kl by simp
  have len: "length ?blob = length blob"
    using kl Suc.prems(1) lc by (intro length_put) simp
  have e: "min (Suc k * 504) (length rb) = k * 504 + ?c"
    using kl by (auto simp: min_def)
  have "take (k * 504) blob = take (k * 504) rb"
    using Suc.prems(2) kl by (simp add: min.absorb1)
  then have "take (k * 504 + ?c) ?blob = take (k * 504) rb @ slice rb (k * 504) ?c"
    using lc Suc.prems(1) kl by (simp add: put_def)
  also have "\<dots> = take (k * 504 + ?c) rb"
    unfolding slice_def by (rule take_add[symmetric])
  also have "\<dots> = take (Suc k * 504) rb"
    unfolding e[symmetric] by (simp add: min_def)
  finally have "take (min (Suc k * 504) (length rb)) ?blob = take (Suc k * 504) rb"
    unfolding e .
  moreover have "j = n - Suc k" "Suc k \<le> n" "length rb \<le> length ?blob"
    using Suc.hyps(2) k Suc.prems(1) len by simp_all
  moreover have "check_sectors sectors n (length rb) tag k blob = check_sectors sectors n (length rb) tag (Suc k) ?blob"
    using k assms(1)[OF k] pay by (subst check_sectors.simps) (simp add: ph_consts Let_def rec_sector_facts)
  ultimately show ?case
    using Suc.hyps(1)[of "Suc k" ?blob] len by simp
qed

lemma check_sectors_reject:
  assumes "k \<le> s" "s < n" "of_le_bytes (slice (slice sectors (s * 512) 512) 0 4) \<noteq> tag"
  shows "\<exists>blob'. check_sectors sectors n l tag k blob = (blob', False)"
  using assms(1)
proof (induction "n - k" arbitrary: k blob)
  case 0
  then show ?case
    using assms(2) by simp
next
  case (Suc j)
  then have k: "k < n"
    by simp
  show ?case
  proof (cases "k = s")
    case True
    then show ?thesis
      using k assms(3) by (subst check_sectors.simps) (simp add: ph_consts Let_def)
  next
    case False
    then have "j = n - Suc k" "Suc k \<le> s"
      using Suc by simp_all
    from Suc.hyps(1)[OF this] show ?thesis
      using k by (subst check_sectors.simps) (simp add: Let_def)
  qed
qed

text \<open>What the decoder reads in sector 0 of a record.\<close>

lemma rec_blob_fields:
  fixes gen :: u64 and q :: u32
  assumes "length head = 32" "length i_id = 16" "length pubroot = 32" "length sig \<le> 2508"
  defines "rb \<equiv> rec_blob gen q head i_id pubroot sig"
  shows "rb ! 0 = PROV_MAGIC ! 0" "rb ! 1 = PROV_MAGIC ! 1" "rb ! 2 = PROV_VERSION" "of_le_bytes (slice rb 4 8) = gen" "of_le_bytes (slice rb 12 4) = q"
    "unat (of_le_bytes (slice rb 16 2) :: u16) = length sig" "slice rb 18 32 = head" "slice rb 50 16 = i_id" "slice rb 66 32 = pubroot"
    "slice rb 98 (length sig) = sig" "slice rb 0 (98 + length sig) = rec_body gen q head i_id pubroot sig"
    "of_le_bytes (slice rb (98 + length sig) 8) = fnv1a64 (rec_body gen q head i_id pubroot sig)"
proof -
  show "slice rb 0 (98 + length sig) = rec_body gen q head i_id pubroot sig"
    "of_le_bytes (slice rb (98 + length sig) 8) = fnv1a64 (rec_body gen q head i_id pubroot sig)"
    using assms(1-3) by (simp_all add: rb_def rec_blob_def Let_def slice_prefix slice_append2 slice_full length_rec_body)
  have rb: "rb = PROV_MAGIC @ [PROV_VERSION, 0] @ le_bytes 8 gen @ le_bytes 4 q @ le_bytes 2 (of_nat (length sig) :: u16) @
     head @ i_id @ pubroot @ sig @ le_bytes 8 (fnv1a64 (rec_body gen q head i_id pubroot sig))"
    by (simp add: rb_def rec_blob_def rec_body_def Let_def)
  have "unat (of_nat (length sig) :: u16) = length sig"
    using assms(4) by (simp add: unat_of_nat)
  then show "unat (of_le_bytes (slice rb 16 2) :: u16) = length sig"
    unfolding rb by (simp add: PROV_MAGIC_def buffer_simps)
  show "rb ! 0 = PROV_MAGIC ! 0" "rb ! 1 = PROV_MAGIC ! 1" "rb ! 2 = PROV_VERSION" "of_le_bytes (slice rb 4 8) = gen" "of_le_bytes (slice rb 12 4) = q"
    "slice rb 18 32 = head" "slice rb 50 16 = i_id" "slice rb 66 32 = pubroot" "slice rb 98 (length sig) = sig"
    unfolding rb using assms(1-3) by (simp_all add: PROV_MAGIC_def buffer_simps)
qed

lemma sector_0_fields:
  assumes "106 \<le> length rb" "off + k \<le> 106"
  shows "slice (slice (rec_sector tag rb 0) 8 504) off k = slice rb off k" "off < 106 \<Longrightarrow> rec_sector tag rb 0 ! (8 + off) = rb ! off"
proof -
  have eq: "take 106 (sec_pay rb 0) = take 106 rb"
    using assms(1) by (simp add: sec_pay_def slice_def Let_def take_append)
  have "slice (sec_pay rb 0) off k = slice (take 106 (sec_pay rb 0)) off k"
    using assms(2) by (simp add: slice_def drop_take min.absorb1)
  also have "\<dots> = slice rb off k"
    unfolding eq using assms(2) by (simp add: slice_def drop_take min.absorb1)
  finally show "slice (slice (rec_sector tag rb 0) 8 504) off k = slice rb off k"
    by (simp add: rec_sector_facts)
  have "rec_sector tag rb 0 ! (8 + off) = sec_pay rb 0 ! off"
    by (simp add: rec_sector_def nth_append)
  then show "off < 106 \<Longrightarrow> rec_sector tag rb 0 ! (8 + off) = rb ! off"
    using eq by (metis nth_take)
qed

text \<open>Sector 0 fixes the geometry: with it from a record, decoding is the check of the sectors and of the spanning checksum.\<close>

lemma ph_decode_geometry:
  fixes gen :: u64 and q :: u32
  assumes "length head = 32" "length i_id = 16" "length pubroot = 32" "length sig \<le> 2508" "106 + length sig \<le> length blob"
  defines "rb \<equiv> rec_blob gen q head i_id pubroot sig" and "n \<equiv> div_ceil (106 + length sig) 504"
  assumes "n * 512 \<le> length sectors" "slice sectors 0 512 = rec_sector tag rb 0"
  shows "ph_decode sectors blob = (case check_sectors sectors n (length rb) (gen_tag gen) 0 blob of
     (blob', False) \<Rightarrow> (blob', None)
   | (blob', True) \<Rightarrow> if fnv1a64 (slice blob' 0 (98 + length sig)) \<noteq> of_le_bytes (slice blob' (98 + length sig) 8) then (blob', None)
       else (blob', Some \<lparr>dh_gen = gen, dh_q = q, dh_siglen = of_nat (length sig), dh_head = slice blob' 18 32, dh_i_id = slice blob' 50 16,
         dh_pubroot = slice blob' 66 32, dh_n_sectors = n\<rparr>))"
proof -
  have l: "length rb = 106 + length sig"
    using assms(1-3) by (simp add: rb_def length_rec_blob)
  have n: "0 < n"
    using div_ceil_bounds[of 504 "106 + length sig"] by (simp add: n_def)
  note f = rec_blob_fields[OF assms(1-4), of gen q, folded rb_def]
  note s0 = sector_0_fields[of rb, unfolded l]
  have "rec_sector tag rb 0 ! 8 = PROV_MAGIC ! 0" "rec_sector tag rb 0 ! 9 = PROV_MAGIC ! 1" "rec_sector tag rb 0 ! 10 = PROV_VERSION"
    using s0(2)[of 0 1] s0(2)[of 1 1] s0(2)[of 2 1] f(1-3) by simp_all
  moreover have "slice (slice (rec_sector tag rb 0) 8 504) 4 8 = slice rb 4 8" "slice (slice (rec_sector tag rb 0) 8 504) 12 4 = slice rb 12 4"
    "slice (slice (rec_sector tag rb 0) 8 504) 16 2 = slice rb 16 2"
    by (rule s0(1); simp)+
  moreover have "sectors_for (length sig) = Some n"
    using assms(4) by (simp add: sectors_for_def ph_consts Let_def n_def)
  moreover have "\<not> length sectors < 512" "\<not> length sectors < n * 512" "\<not> length blob < 106 + length sig"
    using assms(5,8) n by (simp_all add: Suc_le_eq[symmetric])
  ultimately show ?thesis
    using f(4-6) l unfolding ph_decode_def assms(9) ph_consts
    by (simp add: assms(9) Let_def gen_tag_def cong: if_cong)
qed

lemma ph_decode_record:
  fixes gen :: u64 and q :: u32
  assumes "length head = 32" "length i_id = 16" "length pubroot = 32" "length sig \<le> 2508" "106 + length sig \<le> length blob"
  defines "rb \<equiv> rec_blob gen q head i_id pubroot sig" and "n \<equiv> div_ceil (106 + length sig) 504"
  assumes "n * 512 \<le> length sectors" "\<And>s. s < n \<Longrightarrow> slice sectors (s * 512) 512 = rec_sector (gen_tag gen) rb s"
  shows "\<exists>blob'. ph_decode sectors blob = (blob', Some \<lparr>dh_gen = gen, dh_q = q, dh_siglen = of_nat (length sig), dh_head = head, dh_i_id = i_id,
      dh_pubroot = pubroot, dh_n_sectors = n\<rparr>) \<and> slice blob' 98 (length sig) = sig"
proof -
  have l: "length rb = 106 + length sig"
    using assms(1-3) by (simp add: rb_def length_rec_blob)
  have n: "0 < n" "(n - 1) * 504 < length rb" "length rb \<le> n * 504"
    using div_ceil_bounds[of 504 "106 + length sig"] by (simp_all add: n_def l)
  have "slice sectors 0 512 = rec_sector (gen_tag gen) rb 0"
    using assms(9)[of 0] n(1) by simp
  note d = ph_decode_geometry[OF assms(1-5), folded rb_def n_def, OF assms(8), of "gen_tag gen" gen q, folded rb_def, OF this]
  obtain blob' where c: "check_sectors sectors n (length rb) (gen_tag gen) 0 blob = (blob', True)" "take (length rb) blob' = rb"
    using check_sectors_accept[OF assms(9) n(2,3), of blob 0] assms(5) l by auto
  have sl: "slice blob' off k = slice rb off k" if "off + k \<le> length rb" for off k
  proof -
    have "slice (take (length rb) blob') off k = slice blob' off k"
      using that by (simp add: slice_def drop_take min.absorb1)
    then show ?thesis
      using c(2) by simp
  qed
  note f = rec_blob_fields[OF assms(1-4), of gen q, folded rb_def]
  show ?thesis
    unfolding d c(1) using f(7-12) l by (simp add: sl)
qed

lemma ph_decode_mixed:
  fixes gen :: u64 and q :: u32
  assumes "length head = 32" "length i_id = 16" "length pubroot = 32" "length sig \<le> 2508" "106 + length sig \<le> length blob"
    and "div_ceil (106 + length sig) 504 * 512 \<le> length sectors"
    and "slice sectors 0 512 = rec_sector tag (rec_blob gen q head i_id pubroot sig) 0"
    and "s < div_ceil (106 + length sig) 504" "of_le_bytes (slice (slice sectors (s * 512) 512) 0 4) \<noteq> gen_tag gen"
  shows "snd (ph_decode sectors blob) = None"
  using check_sectors_reject[OF _ assms(8,9), of 0 "length (rec_blob gen q head i_id pubroot sig)" blob]
  by (auto simp: ph_decode_geometry[OF assms(1-7)])

lemma concat_sectors:
  assumes "s < n"
  shows "slice (concat (map (rec_sector tag rb) [0..<n]) @ rest) (s * 512) 512 = rec_sector tag rb s"
  using slice_concat[of "map (rec_sector tag rb) [0..<n]" 512 s rest] assms by simp

section \<open>Property\<close>

text \<open>
  The record of a signed head is read back whole or not at all. Encoding a head with a signature of
  at most 2508 bytes into buffers that are large enough fills whole sectors; a slab that starts with
  them decodes to the generation, leaf index, head, identifier and root, with the signature left in the
  blob. A slab that has the record's first sector but at some later sector the stamp of another
  generation, as a torn write over an older record leaves, decodes to nothing.
\<close>

theorem provhead_codec:
  assumes "length head = 32" "length i_id = 16" "length pubroot = 32" "length sig \<le> 2508" "106 + length sig \<le> length blob"
    and "div_ceil (106 + length sig) 504 * 512 \<le> length out" "ph_encode gen q head i_id pubroot sig blob out = (blob1, slab, n)"
    and "div_ceil (106 + length sig) 504 * 512 \<le> length sectors" "106 + length sig \<le> length blob2"
  shows "n = div_ceil (106 + length sig) 504 * 512 \<and> length slab = length out \<and>
    (take n sectors = take n slab \<longrightarrow> (\<exists>blob3. ph_decode sectors blob2 = (blob3, Some \<lparr>dh_gen = gen, dh_q = q, dh_siglen = of_nat (length sig),
        dh_head = head, dh_i_id = i_id, dh_pubroot = pubroot, dh_n_sectors = n div 512\<rparr>) \<and> slice blob3 OFF_SIG (length sig) = sig)) \<and>
    (\<forall>s<n div 512. slice sectors 0 512 = slice slab 0 512 \<and> slice sectors (s * 512) 4 \<noteq> slice slab 0 4 \<longrightarrow> snd (ph_decode sectors blob2) = None)"
proof -
  let ?m = "div_ceil (106 + length sig) 504" and ?rb = "rec_blob gen q head i_id pubroot sig"
  have n: "n = ?m * 512" "slab = concat (map (rec_sector (gen_tag gen) ?rb) [0..<?m]) @ drop n out"
    using ph_encode_eq[OF assms(1-6), of gen q] assms(7,1-3) by (auto simp: rec_sectors_def length_rec_blob Let_def)
  have len: "length (concat (map (rec_sector (gen_tag gen) ?rb) [0..<?m])) = n"
    by (simp add: n(1) length_concat comp_def sum_list_triv)
  have pos: "0 < ?m"
    using div_ceil_bounds[of 504 "106 + length sig"] by simp
  have s0: "slice slab 0 512 = rec_sector (gen_tag gen) ?rb 0"
    unfolding n(2) using concat_sectors[OF pos, of "gen_tag gen" ?rb "drop n out"] by simp
  have read: "\<exists>blob3. ph_decode sectors blob2 = (blob3, Some \<lparr>dh_gen = gen, dh_q = q, dh_siglen = of_nat (length sig),
        dh_head = head, dh_i_id = i_id, dh_pubroot = pubroot, dh_n_sectors = n div 512\<rparr>) \<and> slice blob3 OFF_SIG (length sig) = sig"
    if "take n sectors = take n slab"
  proof -
    have "sectors = concat (map (rec_sector (gen_tag gen) ?rb) [0..<?m]) @ drop n sectors"
      using that len append_take_drop_id[of n sectors] by (simp add: n(2))
    then have "slice sectors (s * 512) 512 = rec_sector (gen_tag gen) ?rb s" if "s < ?m" for s
      using concat_sectors[OF that] by metis
    from ph_decode_record[OF assms(1-4,9) _ this] assms(8) n(1) show ?thesis
      by (simp add: ph_consts)
  qed
  have torn: "snd (ph_decode sectors blob2) = None" if s: "s < n div 512" "slice sectors 0 512 = slice slab 0 512" "slice sectors (s * 512) 4 \<noteq> slice slab 0 4" for s
  proof -
    have "slice slab 0 4 = slice (slice slab 0 512) 0 4" "slice sectors (s * 512) 4 = slice (slice sectors (s * 512) 512) 0 4"
      by (simp_all add: slice_def take_take)
    then have "slice (slice sectors (s * 512) 512) 0 4 \<noteq> le_bytes 4 (gen_tag gen)"
      using s(3) s0 by (simp add: rec_sector_def slice_prefix)
    moreover have "length (slice (slice sectors (s * 512) 512) 0 4) = 4"
    proof -
      have "(s + 1) * 512 \<le> n"
        using s(1) n(1) by simp
      then show ?thesis
        using assms(8) n(1) by (simp add: slice_def)
    qed
    then have "le_bytes 4 (of_le_bytes (slice (slice sectors (s * 512) 512) 0 4) :: u32) = slice (slice sectors (s * 512) 512) 0 4"
      by (rule le_bytes_of_le_bytes) simp
    ultimately have "of_le_bytes (slice (slice sectors (s * 512) 512) 0 4) \<noteq> gen_tag gen"
      by metis
    then show ?thesis
      using ph_decode_mixed[OF assms(1-4,9) _ _ _] s(1,2) s0 assms(8) n(1) by simp
  qed
  show ?thesis
    using n len read torn assms(6) by (auto simp: n(1))
qed

text \<open>A small record over an erased disk slab, read back through a larger blob.\<close>

theorem provhead_codec_witness:
  "\<exists>blob1 slab blob3. ph_encode 7 0 (replicate 32 1) (replicate 16 2) (replicate 32 3) [4, 5, 6] (replicate 2614 0) (replicate 3072 0) = (blob1, slab, 512) \<and>
     ph_decode slab (replicate 2614 9) = (blob3, Some \<lparr>dh_gen = 7, dh_q = 0, dh_siglen = 3, dh_head = replicate 32 1, dh_i_id = replicate 16 2,
       dh_pubroot = replicate 32 3, dh_n_sectors = 1\<rparr>) \<and> slice blob3 OFF_SIG 3 = [4, 5, 6]"
proof -
  obtain blob1 slab n where e: "ph_encode 7 0 (replicate 32 1) (replicate 16 2) (replicate 32 3) [4, 5, 6] (replicate 2614 0) (replicate 3072 0) = (blob1, slab, n)"
    by (metis prod_cases3)
  have "length (replicate 32 (1 :: u8)) = 32" "length (replicate 16 (2 :: u8)) = 16" "length (replicate 32 (3 :: u8)) = 32" "length [4, 5, 6 :: u8] \<le> 2508"
    "106 + length [4, 5, 6 :: u8] \<le> length (replicate 2614 (0 :: u8))" "div_ceil (106 + length [4, 5, 6 :: u8]) 504 * 512 \<le> length (replicate 3072 (0 :: u8))"
    by (simp_all add: div_ceil_def)
  note codec = provhead_codec[OF this e]
  have m: "div_ceil (106 + length [4, 5, 6 :: u8]) 504 = 1"
    by (simp add: div_ceil_def)
  have k: "length [4, 5, 6 :: u8] = 3"
    by simp
  have n: "n = 512" "length slab = 3072"
    using codec[of "replicate 3072 0" "replicate 2614 9"] m by auto
  then obtain blob3 where "ph_decode slab (replicate 2614 9) = (blob3, Some \<lparr>dh_gen = 7, dh_q = 0, dh_siglen = 3, dh_head = replicate 32 1,
      dh_i_id = replicate 16 2, dh_pubroot = replicate 32 3, dh_n_sectors = 1\<rparr>)" "slice blob3 OFF_SIG 3 = [4, 5, 6]"
    using codec[of slab "replicate 2614 9", unfolded m, unfolded k] by auto
  then show ?thesis
    using e n(1) by (intro exI conjI) auto
qed

end
