(* ===== verification/M33_Persist.thy ===== *)
theory M33_Persist
  imports Provhead Lmsig Blk_Crash
begin

text \<open>
  The persisted signed head of the boot self-test, \<open>m33_persist_head\<close> of
  \<open>crates/tb-hal/src/mem/organ/selftests.rs\<close>: two slots above the partition of the storage engine, the newer
  readable one is recovered and its signature verified, and the head is written again under the next
  generation into the other slot. The block driver is the parameter of the storage engine; \<open>probe\<close> is
  the capacity \<open>blk_probe\<close> reports, if any.
\<close>

definition M33_BASE :: u64 where "M33_BASE = 8192"

record m33_persist_result =
  m33_present :: bool
  m33_full_sig_verified :: bool
  m33_persisted :: bool
  m33_survived :: bool
  m33_head :: bytes
  m33_leaf_idx :: u32

text \<open>The loops over the sectors of a slot.\<close>

fun read_sectors :: "'d blk_ops \<Rightarrow> u64 \<Rightarrow> nat list \<Rightarrow> bytes \<Rightarrow> 'd \<Rightarrow> 'd \<times> bytes \<times> bool" where
  "read_sectors ops base [] dst d = (d, dst, True)"
| "read_sectors ops base (s # ss) dst d = (case blk_read ops d (base + of_nat s) of
     (d, None) \<Rightarrow> (d, dst, False)
   | (d, Some sec) \<Rightarrow> read_sectors ops base ss (put (s * PH_SECTOR) sec dst) d)"

definition m33_read_slab :: "'d blk_ops \<Rightarrow> u64 \<Rightarrow> bytes \<Rightarrow> 'd \<Rightarrow> 'd \<times> bytes \<times> bool" where
  "m33_read_slab ops base dst d = read_sectors ops base [0..<MAX_SECTORS] dst d"

fun write_sectors :: "'d blk_ops \<Rightarrow> u64 \<Rightarrow> nat list \<Rightarrow> bytes \<Rightarrow> 'd \<Rightarrow> 'd \<times> bool" where
  "write_sectors ops base [] bs d = (d, True)"
| "write_sectors ops base (s # ss) bs d = (case blk_write ops d (base + of_nat s) (slice bs (s * PH_SECTOR) PH_SECTOR) of
     (d, False) \<Rightarrow> (d, False)
   | (d, True) \<Rightarrow> write_sectors ops base ss bs d)"

definition m33_write_slab :: "'d blk_ops \<Rightarrow> u64 \<Rightarrow> bytes \<Rightarrow> 'd \<Rightarrow> 'd \<times> bool" where
  "m33_write_slab ops base bs d = write_sectors ops base [0..<length bs div PH_SECTOR] bs d"

text \<open>The decision on the two slots: the generation to continue from and the surviving head, if its signature verifies.\<close>

definition m33_recover :: "decoded_head option \<Rightarrow> bytes \<Rightarrow> decoded_head option \<Rightarrow> bytes \<Rightarrow> u64 \<times> (bytes \<times> u32) option" where
  "m33_recover da blob_a db blob_b = (case pick_newer (map_option dh_gen da) (map_option dh_gen db) of
     None \<Rightarrow> (0, None)
   | Some is_b \<Rightarrow>
       (case (if is_b then (db, blob_b) else (da, blob_a)) of
          (None, _) \<Rightarrow> (0, None)
        | (Some r, blob) \<Rightarrow>
            let sig = slice blob OFF_SIG (unat (dh_siglen r)) in
            (dh_gen r, if lms_verify PROV_KAT_ROOT (dh_i_id r) (dh_head r) sig then Some (dh_head r, dh_q r) else None)))"

definition m33_target :: "bool option \<Rightarrow> u64" where
  "m33_target winner = (case winner of Some False \<Rightarrow> M33_BASE + of_nat MAX_SECTORS | Some True \<Rightarrow> M33_BASE | None \<Rightarrow> M33_BASE)"

definition m33_persist_head :: "'d blk_ops \<Rightarrow> u64 option \<Rightarrow> 'd \<Rightarrow> 'd \<times> m33_persist_result" where
  "m33_persist_head ops probe d = (let
     r = \<lparr>m33_present = False, m33_full_sig_verified = lms_verify PROV_KAT_ROOT TOY_I PROV_KAT_HEAD PROV_KAT_SIG,
          m33_persisted = False, m33_survived = False, m33_head = PROV_KAT_HEAD, m33_leaf_idx = PROV_KAT_Q\<rparr>
   in case probe of
        None \<Rightarrow> (d, r)
      | Some cap \<Rightarrow>
        if cap < M33_BASE + 2 * of_nat MAX_SECTORS then (d, r)
        else let
          r = r\<lparr>m33_present := True\<rparr>;
          (d, slab_a, read_a) = m33_read_slab ops M33_BASE (replicate SLAB_BYTES 0) d;
          (d, slab_b, read_b) = m33_read_slab ops (M33_BASE + of_nat MAX_SECTORS) (replicate SLAB_BYTES 0) d;
          (blob_a, da) = (if read_a then ph_decode slab_a (replicate BLOB_CAP 0) else (replicate BLOB_CAP 0, None));
          (blob_b, db) = (if read_b then ph_decode slab_b (replicate BLOB_CAP 0) else (replicate BLOB_CAP 0, None));
          winner = pick_newer (map_option dh_gen da) (map_option dh_gen db);
          (prior_gen, surv) = m33_recover da blob_a db blob_b;
          r = (case surv of None \<Rightarrow> r | Some (head, q) \<Rightarrow> r\<lparr>m33_survived := True, m33_head := head, m33_leaf_idx := q\<rparr>);
          target = m33_target winner;
          new_gen = prior_gen + 1;
          (_, wslab, n) = ph_encode new_gen PROV_KAT_Q PROV_KAT_HEAD TOY_I PROV_KAT_ROOT PROV_KAT_SIG (replicate BLOB_CAP 0) (replicate SLAB_BYTES 0)
        in if n > 0
           then case m33_write_slab ops target (take n wslab) d of
             (d, False) \<Rightarrow> (d, r)
           | (d, True) \<Rightarrow> (case blk_flush ops d of (d, ok) \<Rightarrow> (d, if ok then r\<lparr>m33_persisted := True\<rparr> else r))
           else (d, r))"

end
