(* ===== verification/M33_Props.thy ===== *)
theory M33_Props
  imports M33_Persist Lmsig_Props Persist_Selftest
begin

text \<open>
  The signed head survives reboots: whatever writes and flushes fail and wherever the power is cut, a
  later boot recovers a whole record, and no generation that was reported persisted is lost.
\<close>

section \<open>The record of a generation\<close>

lemma length_PROV_KAT [simp]: "length PROV_KAT_HEAD = 32" "length TOY_I = 16" "length PROV_KAT_ROOT = 32"
  by (simp_all add: PROV_KAT_HEAD_def TOY_I_def PROV_KAT_ROOT_def)

lemma length_PROV_KAT_SIG [simp]: "length PROV_KAT_SIG = 2508"
  unfolding PROV_KAT_SIG_def length_append
  by (simp add: PROV_KAT_SIG_0_def PROV_KAT_SIG_1_def PROV_KAT_SIG_2_def PROV_KAT_SIG_3_def PROV_KAT_SIG_4_def PROV_KAT_SIG_5_def PROV_KAT_SIG_6_def PROV_KAT_SIG_7_def)

lemma m33_sizes: "MAX_SECTORS = 6" "SLAB_BYTES = 3072" "BLOB_CAP = 2614" "div_ceil 2614 504 = 6"
  by (simp_all add: MAX_SECTORS_def SLAB_BYTES_def ph_consts div_ceil_def)

text \<open>Sector \<open>s\<close> of the record of generation \<open>g\<close>; generation 0 is the blank slot.\<close>

definition kat_blob :: "nat \<Rightarrow> bytes" where
  "kat_blob g = rec_blob (of_nat g) PROV_KAT_Q PROV_KAT_HEAD TOY_I PROV_KAT_ROOT PROV_KAT_SIG"

definition head_sector :: "nat \<Rightarrow> nat \<Rightarrow> bytes" where
  "head_sector g s = (if g = 0 then replicate 512 0 else rec_sector (gen_tag (of_nat g)) (kat_blob g) s)"

lemma length_head_sector [simp]: "length (head_sector g s) = 512"
  by (simp add: head_sector_def)

lemma gen_tag_nat: "g < 2 ^ 32 \<Longrightarrow> unat (gen_tag (of_nat g)) = g"
proof -
  assume g: "g < 2 ^ 32"
  have m: "(0xffffffff :: u64) = mask 32"
    by (simp add: mask_eq_exp_minus_1)
  have "gen_tag (of_nat g) = of_nat g"
    unfolding gen_tag_def m by (rule bit_word_eqI) (simp add: bit_simps)
  then show ?thesis
    using g by (simp add: unat_of_nat)
qed

lemma of_le_bytes_zero: "of_le_bytes (replicate n 0) = (0 :: 'a::len word)"
  by (induction n) simp_all

lemma head_sector_tag: "of_le_bytes (slice (head_sector g s) 0 4) = gen_tag (of_nat g)"
proof (cases "g = 0")
  case True
  then show ?thesis
    by (simp add: head_sector_def slice_def of_le_bytes_zero gen_tag_def)
qed (simp add: head_sector_def rec_sector_facts)

lemma head_sector_inject: "head_sector g s = head_sector g' s' \<Longrightarrow> g < 2 ^ 32 \<Longrightarrow> g' < 2 ^ 32 \<Longrightarrow> g = g'"
  by (metis head_sector_tag gen_tag_nat)

definition slab_of :: "(nat \<Rightarrow> bytes) \<Rightarrow> bytes" where
  "slab_of f = concat (map f [0..<6])"

lemma slice_slab: "(\<And>s. s < 6 \<Longrightarrow> length (f s) = 512) \<Longrightarrow> s < 6 \<Longrightarrow> slice (slab_of f) (s * 512) 512 = f s"
  using slice_concat[of "map f [0..<6]" 512 s "[]"] by (auto simp: slab_of_def)

lemma length_slab: "(\<And>s. s < 6 \<Longrightarrow> length (f s) = 512) \<Longrightarrow> length (slab_of f) = 3072"
  using length_concat_eq[of "map f [0..<6]" 512] by (auto simp: slab_of_def)

lemma decode_whole:
  assumes "0 < g" "\<And>s. s < 6 \<Longrightarrow> f s = head_sector g s"
  shows "\<exists>blob. ph_decode (slab_of f) (replicate BLOB_CAP 0) = (blob, Some \<lparr>dh_gen = of_nat g, dh_q = PROV_KAT_Q, dh_siglen = 2508,
    dh_head = PROV_KAT_HEAD, dh_i_id = TOY_I, dh_pubroot = PROV_KAT_ROOT, dh_n_sectors = 6\<rparr>) \<and> slice blob OFF_SIG 2508 = PROV_KAT_SIG"
proof -
  have len: "length (f s) = 512" if "s < 6" for s
    using assms(2)[OF that] by simp
  have "slice (slab_of f) (s * 512) 512 = rec_sector (gen_tag (of_nat g)) (rec_blob (of_nat g) PROV_KAT_Q PROV_KAT_HEAD TOY_I PROV_KAT_ROOT PROV_KAT_SIG) s" if "s < 6" for s
    using slice_slab[OF len that] assms(1) assms(2)[OF that] by (simp add: head_sector_def kat_blob_def)
  then show ?thesis
    using ph_decode_record[of PROV_KAT_HEAD TOY_I PROV_KAT_ROOT PROV_KAT_SIG "replicate BLOB_CAP 0" "slab_of f" "of_nat g" PROV_KAT_Q] length_slab[OF len]
    by (simp add: m33_sizes ph_consts)
qed

lemma decode_blank:
  assumes "\<And>s. s < 6 \<Longrightarrow> length (f s) = 512" "f 0 = head_sector 0 0"
  shows "snd (ph_decode (slab_of f) blob) = None"
proof -
  have "slice (slab_of f) 0 512 = replicate 512 0"
    using slice_slab[of f 0] assms by (simp add: head_sector_def)
  then show ?thesis
    using length_slab[OF assms(1)] by (simp add: ph_decode_def ph_consts PROV_MAGIC_def)
qed

lemma decode_mixed:
  assumes "\<And>s. s < 6 \<Longrightarrow> length (f s) = 512" "0 < g" "f 0 = head_sector g 0" "s < 6" "f s = head_sector g' s" "g \<noteq> g'" "g < 2 ^ 32" "g' < 2 ^ 32"
  shows "snd (ph_decode (slab_of f) (replicate BLOB_CAP 0)) = None"
proof (rule ph_decode_mixed[of PROV_KAT_HEAD TOY_I PROV_KAT_ROOT PROV_KAT_SIG])
  show "slice (slab_of f) 0 512 = rec_sector (gen_tag (of_nat g)) (rec_blob (of_nat g) PROV_KAT_Q PROV_KAT_HEAD TOY_I PROV_KAT_ROOT PROV_KAT_SIG) 0"
    using slice_slab[of f 0] assms(1-3) by (simp add: head_sector_def kat_blob_def)
  have "gen_tag (of_nat g') \<noteq> gen_tag (of_nat g)"
    using gen_tag_nat[OF assms(7)] gen_tag_nat[OF assms(8)] assms(6) by metis
  then show "of_le_bytes (slice (slice (slab_of f) (s * 512) 512) 0 4) \<noteq> gen_tag (of_nat g)"
    using slice_slab[OF assms(1,4)] assms(5) by (simp add: head_sector_tag)
qed (use assms(4) length_slab[OF assms(1)] in \<open>simp_all add: m33_sizes\<close>)


section \<open>The two slots\<close>

definition head_slot :: "nat \<Rightarrow> u64" where
  "head_slot g = (if odd g then 8192 else 8198)"

definition slot_sectors :: "disk \<Rightarrow> nat \<Rightarrow> nat \<Rightarrow> bytes" where
  "slot_sectors m g s = m (head_slot g + of_nat s)"

text \<open>
  Generation \<open>g\<close> is whole in its slot, and every sector of the other slot belongs to the generation
  before or to the one being written.
\<close>

definition head_inv :: "disk \<Rightarrow> nat \<Rightarrow> bool" where
  "head_inv m g \<longleftrightarrow> (\<forall>s<6. slot_sectors m g s = head_sector g s) \<and>
     (\<forall>s<6. slot_sectors m (Suc g) s = head_sector (g - 1) s \<or> slot_sectors m (Suc g) s = head_sector (Suc g) s)"

definition slot_whole :: "disk \<Rightarrow> nat \<Rightarrow> bool" where
  "slot_whole m g \<longleftrightarrow> (\<forall>s<6. slot_sectors m g s = head_sector g s)"

lemma slot_sectors_2: "slot_sectors m (Suc (Suc g)) = slot_sectors m g"
  by (auto simp: slot_sectors_def head_slot_def)

lemma head_inv_Suc: "head_inv m g \<Longrightarrow> slot_whole m (Suc g) \<Longrightarrow> head_inv m (Suc g)"
  by (simp add: head_inv_def slot_whole_def slot_sectors_2)

lemma head_inv_settled:
  assumes "head_inv m g" "Suc (Suc g) < 2 ^ 32"
  obtains g' where "g' = g \<or> g' = Suc g \<and> slot_whole m (Suc g)" "head_inv m g'" "\<not> slot_whole m (Suc g')"
proof (cases "slot_whole m (Suc g)")
  case True
  have "slot_sectors m (Suc (Suc g)) 0 = head_sector g 0"
    using assms(1) by (simp add: slot_sectors_2 head_inv_def)
  then have "\<not> slot_whole m (Suc (Suc g))"
    using head_sector_inject[of g 0 "Suc (Suc g)" 0] assms(2) by (auto simp: slot_whole_def intro!: exI[of _ 0])
  then show thesis
    using that[of "Suc g"] head_inv_Suc[OF assms(1) True] True by blast
next
  case False
  then show thesis
    using that assms(1) by blast
qed

definition kat_head :: "nat \<Rightarrow> decoded_head" where
  "kat_head g = \<lparr>dh_gen = of_nat g, dh_q = PROV_KAT_Q, dh_siglen = 2508, dh_head = PROV_KAT_HEAD, dh_i_id = TOY_I, dh_pubroot = PROV_KAT_ROOT, dh_n_sectors = 6\<rparr>"

definition dec_slot :: "disk \<Rightarrow> nat \<Rightarrow> bytes \<times> decoded_head option" where
  "dec_slot m g = ph_decode (slab_of (slot_sectors m g)) (replicate BLOB_CAP 0)"

lemma dec_slot_whole:
  assumes "0 < g" "slot_whole m g"
  shows "snd (dec_slot m g) = Some (kat_head g)" "slice (fst (dec_slot m g)) OFF_SIG 2508 = PROV_KAT_SIG"
  using decode_whole[of g "slot_sectors m g"] assms by (auto simp: dec_slot_def slot_whole_def kat_head_def)

lemma dec_slot_other:
  assumes "head_inv m g" "\<not> slot_whole m (Suc g)" "Suc g < 2 ^ 32"
  shows "snd (dec_slot m (Suc g)) = None \<or> 1 < g \<and> snd (dec_slot m (Suc g)) = Some (kat_head (g - 1))"
proof -
  let ?f = "slot_sectors m (Suc g)"
  have either: "?f s = head_sector (g - 1) s \<or> ?f s = head_sector (Suc g) s" if "s < 6" for s
    using assms(1) that by (simp add: head_inv_def)
  then have len: "length (?f s) = 512" if "s < 6" for s
    using that by (metis length_head_sector)
  obtain s where s: "s < 6" "?f s = head_sector (g - 1) s"
    using assms(2) either unfolding slot_whole_def by blast
  consider (new) "?f 0 = head_sector (Suc g) 0" | (old) "?f 0 = head_sector (g - 1) 0"
    using either[of 0] by auto
  then show ?thesis
  proof cases
    case new
    have "snd (dec_slot m (Suc g)) = None"
      unfolding dec_slot_def using assms(3) by (intro decode_mixed[OF len _ new s]) auto
    then show ?thesis ..
  next
    case old
    show ?thesis
    proof (cases "g - 1 = 0")
      case True
      then show ?thesis
        using decode_blank[OF len] old by (simp add: dec_slot_def)
    next
      case pos: False
      show ?thesis
      proof (cases "\<exists>s<6. ?f s = head_sector (Suc g) s")
        case True
        then obtain s where s: "s < 6" "?f s = head_sector (Suc g) s"
          by blast
        have "snd (dec_slot m (Suc g)) = None"
          unfolding dec_slot_def using assms(3) pos by (intro decode_mixed[OF len _ old s]) auto
        then show ?thesis ..
      next
        case False
        have "slot_sectors m (g - 1) = ?f"
          using pos slot_sectors_2[of m "g - 1"] by (cases g) simp_all
        moreover from this have "slot_whole m (g - 1)"
          using either False by (auto simp: slot_whole_def)
        ultimately have "snd (dec_slot m (Suc g)) = Some (kat_head (g - 1))"
          using dec_slot_whole(1)[of "g - 1" m] pos by (simp add: dec_slot_def)
        then show ?thesis
          using pos by auto
      qed
    qed
  qed
qed

text \<open>What a boot recovers from a disk.\<close>

definition head_recovery :: "disk \<Rightarrow> bool option \<times> u64 \<times> (bytes \<times> u32) option" where
  "head_recovery m = (case (dec_slot m 1, dec_slot m 0) of ((blob_a, da), (blob_b, db)) \<Rightarrow>
     (pick_newer (map_option dh_gen da) (map_option dh_gen db), m33_recover da blob_a db blob_b))"

definition kat_verified_head :: "(bytes \<times> u32) option" where
  "kat_verified_head = (if lms_verify PROV_KAT_ROOT TOY_I PROV_KAT_HEAD PROV_KAT_SIG then Some (PROV_KAT_HEAD, PROV_KAT_Q) else None)"

lemma dec_slot_parity: "dec_slot m g = (if odd g then dec_slot m 1 else dec_slot m 0)"
proof -
  have "slot_sectors m g = slot_sectors m (if odd g then 1 else 0)"
    by (auto simp: slot_sectors_def head_slot_def)
  then show ?thesis
    by (simp add: dec_slot_def)
qed

lemma head_recovery_settled:
  assumes "head_inv m g" "\<not> slot_whole m (Suc g)" "Suc g < 2 ^ 32"
  shows "m33_target (fst (head_recovery m)) = head_slot (Suc g)" "fst (snd (head_recovery m)) = of_nat g"
    "snd (snd (head_recovery m)) = (if g = 0 then None else kat_verified_head)"
proof -
  obtain ba da where a: "dec_slot m 1 = (ba, da)"
    by fastforce
  obtain bb db where b: "dec_slot m 0 = (bb, db)"
    by fastforce
  note other = dec_slot_other[OF assms]
  have ord: "\<not> (of_nat g :: u64) < of_nat (g - 1)" "0 < g \<Longrightarrow> (of_nat (g - 1) :: u64) < of_nat g"
    using assms(3) by (simp_all add: word_less_nat_alt unat_of_nat del: of_nat_diff)
  have sel: "m33_target (fst (head_recovery m)) = head_slot (Suc g) \<and> fst (snd (head_recovery m)) = of_nat g \<and>
      snd (snd (head_recovery m)) = (if g = 0 then None else kat_verified_head)"
  proof (cases "g = 0")
    case True
    have "snd (dec_slot m 0) = None"
      using assms(1) True unfolding dec_slot_def by (intro decode_blank) (simp_all add: head_inv_def)
    then show ?thesis
      using other True a b by (simp add: head_recovery_def m33_recover_def m33_target_def M33_BASE_def head_slot_def)
  next
    case False
    then have w: "snd (dec_slot m g) = Some (kat_head g)" "slice (fst (dec_slot m g)) OFF_SIG 2508 = PROV_KAT_SIG"
      using dec_slot_whole[of g m] assms(1) by (simp_all add: head_inv_def slot_whole_def)
    show ?thesis
      using other w a b ord False dec_slot_parity[of m g] dec_slot_parity[of m "Suc g"]
      by (cases "odd g") (auto simp: head_recovery_def m33_recover_def m33_target_def M33_BASE_def head_slot_def m33_sizes kat_head_def kat_verified_head_def Let_def)
  qed
  then show "m33_target (fst (head_recovery m)) = head_slot (Suc g)" "fst (snd (head_recovery m)) = of_nat g"
    "snd (snd (head_recovery m)) = (if g = 0 then None else kat_verified_head)"
    by blast+
qed

section \<open>One boot\<close>

text \<open>The device can be read.\<close>

definition readable :: "'d blk_ops \<Rightarrow> bool" where
  "readable ops \<longleftrightarrow> (\<forall>d s. snd (blk_read ops d s) \<noteq> None)"

lemma concat_put_slab:
  "k \<le> 6 \<Longrightarrow> (\<And>s. s < 6 \<Longrightarrow> length (f s) = 512) \<Longrightarrow> length dst = 3072 \<Longrightarrow>
    fold (\<lambda>s dst. put (s * 512) (f s) dst) [0..<k] dst = concat (map f [0..<k]) @ drop (k * 512) dst"
proof (induction k)
  case (Suc k)
  have "length (concat (map f [0..<k])) = k * 512"
    using Suc.prems length_concat_eq[of "map f [0..<k]" 512] by auto
  then show ?case
    using Suc by (simp add: put_def add.commute)
qed simp

context block_device
begin

lemma read_sectors_fold:
  assumes "readable ops" "read_sectors ops base ss dst d = (d', dst', ok)"
  shows "ok \<and> dst' = fold (\<lambda>s dst. put (s * 512) (view d (base + of_nat s)) dst) ss dst \<and> view d' = view d \<and> images d' = images d"
  using assms(2)
proof (induction ss arbitrary: dst d)
  case (Cons s ss)
  obtain d1 sec where r: "blk_read ops d (base + of_nat s) = (d1, Some sec)"
    using assms(1) by (metis readable_def not_None_eq prod.collapse)
  have "read_sectors ops base ss (put (s * 512) sec dst) d1 = (d', dst', ok)"
    using Cons.prems r by (simp add: ph_consts)
  from Cons.IH[OF this] show ?case
    using read_state[OF r] read_value[OF r] by simp
qed simp

lemma read_slot:
  assumes "readable ops" "\<And>s. s < 6 \<Longrightarrow> length (slot_sectors (view d) g s) = 512"
    and "m33_read_slab ops (head_slot g) (replicate SLAB_BYTES 0) d = (d', slab, ok)"
  shows "ok \<and> slab = slab_of (slot_sectors (view d) g) \<and> view d' = view d \<and> images d' = images d"
proof -
  have "fold (\<lambda>s dst. put (s * 512) (slot_sectors (view d) g s) dst) [0..<6] (replicate 3072 0) = slab_of (slot_sectors (view d) g)"
    using concat_put_slab[of 6 "slot_sectors (view d) g" "replicate 3072 0"] assms(2) by (simp add: slab_of_def)
  then show ?thesis
    using read_sectors_fold[OF assms(1), of "head_slot g" "[0..<6]" "replicate 3072 0" d d' slab ok] assms(3)
    by (simp add: m33_read_slab_def m33_sizes slot_sectors_def)
qed

text \<open>Writing the next generation keeps the invariant in every image; when all is written and flushed it is there.\<close>

lemma head_inv_write:
  assumes "head_inv m g" "s < 6"
  shows "head_inv (m(head_slot (Suc g) + of_nat s := head_sector (Suc g) s)) g"
proof -
  have ne: "head_slot g + of_nat s' \<noteq> head_slot (Suc g) + of_nat s" if "s' < 6" for s'
  proof -
    have "unat (head_slot g + of_nat s') \<noteq> unat (head_slot (Suc g) + of_nat s)"
      using assms(2) that by (auto simp: head_slot_def unat_word_ariths unat_of_nat)
    then show ?thesis by metis
  qed
  have inj: "of_nat s' = (of_nat s :: u64) \<longleftrightarrow> s' = s" if "s' < 6" for s'
    using assms(2) that by (simp add: word_unat_eq_iff unat_of_nat)
  show ?thesis
    using assms ne inj by (auto simp: head_inv_def slot_sectors_def)
qed

lemma write_head:
  assumes "write_sectors ops (head_slot (Suc g)) ss bs d = (d', ok)" "\<forall>s\<in>set ss. s < 6 \<and> slice bs (s * 512) 512 = head_sector (Suc g) s" "distinct ss"
    and "\<forall>m\<in>images d. head_inv m g"
  shows "(\<forall>m\<in>images d'. head_inv m g) \<and> (ok \<longrightarrow> (\<forall>s<6. slot_sectors (view d') (Suc g) s = (if s \<in> set ss then head_sector (Suc g) s else slot_sectors (view d) (Suc g) s)))"
  using assms
proof (induction ss arbitrary: d)
  case (Cons s ss)
  obtain d1 ok1 where w: "blk_write ops d (head_slot (Suc g) + of_nat s) (head_sector (Suc g) s) = (d1, ok1)"
    by fastforce
  have s: "s < 6" "slice bs (s * 512) 512 = head_sector (Suc g) s"
    using Cons.prems(2) by simp_all
  have im: "\<forall>m\<in>images d1. head_inv m g"
    using write_images[OF w] Cons.prems(4) head_inv_write[OF _ s(1)] by blast
  show ?case
  proof (cases ok1)
    case False
    then have "d' = d1" "\<not> ok"
      using Cons.prems(1) w s by (simp_all add: ph_consts)
    then show ?thesis
      using im by simp
  next
    case True
    have r: "write_sectors ops (head_slot (Suc g)) ss bs d1 = (d', ok)"
      using Cons.prems(1) w s True by (simp add: ph_consts)
    have v: "view d1 = (view d)(head_slot (Suc g) + of_nat s := head_sector (Suc g) s)"
      using write_view[OF w] True by simp
    have "of_nat s' = (of_nat s :: u64) \<longleftrightarrow> s' = s" if "s' < 6" for s'
      using s(1) that by (simp add: word_unat_eq_iff unat_of_nat)
    then have "slot_sectors (view d1) (Suc g) s' = (if s' = s then head_sector (Suc g) s else slot_sectors (view d) (Suc g) s')" if "s' < 6" for s'
      using that by (simp add: v slot_sectors_def)
    then show ?thesis
      using Cons.IH[OF r _ _ im] Cons.prems(2,3) by auto
  qed
qed auto

end

lemma encode_head:
  "\<exists>blob. ph_encode (of_nat g + 1) PROV_KAT_Q PROV_KAT_HEAD TOY_I PROV_KAT_ROOT PROV_KAT_SIG (replicate BLOB_CAP 0) (replicate SLAB_BYTES 0) =
    (blob, slab_of (head_sector (Suc g)), 3072)"
proof -
  have "rec_sectors (of_nat g + 1) PROV_KAT_Q PROV_KAT_HEAD TOY_I PROV_KAT_ROOT PROV_KAT_SIG = map (head_sector (Suc g)) [0..<6]"
    by (simp add: rec_sectors_def length_rec_blob m33_sizes head_sector_def kat_blob_def Let_def add.commute)
  then show ?thesis
    using ph_encode_eq[of PROV_KAT_HEAD TOY_I PROV_KAT_ROOT PROV_KAT_SIG "replicate BLOB_CAP 0" "replicate SLAB_BYTES 0" "of_nat g + 1" PROV_KAT_Q]
    by (simp add: m33_sizes slab_of_def)
qed

lemma head_inv_lengths:
  assumes "head_inv m g" "s < 6"
  shows "length (slot_sectors m k s) = 512"
proof -
  have "head_slot k = head_slot g \<or> head_slot k = head_slot (Suc g)"
    by (simp add: head_slot_def)
  then have "slot_sectors m k s = slot_sectors m g s \<or> slot_sectors m k s = slot_sectors m (Suc g) s"
    by (auto simp: slot_sectors_def)
  moreover have "length (slot_sectors m g s) = 512" "length (slot_sectors m (Suc g) s) = 512"
    using assms unfolding head_inv_def by (metis length_head_sector)+
  ultimately show ?thesis
    by metis
qed

definition boot_result :: "nat \<Rightarrow> bool \<Rightarrow> m33_persist_result" where
  "boot_result g ok = (let v = lms_verify PROV_KAT_ROOT TOY_I PROV_KAT_HEAD PROV_KAT_SIG in
     \<lparr>m33_present = True, m33_full_sig_verified = v, m33_persisted = ok, m33_survived = (0 < g \<and> v), m33_head = PROV_KAT_HEAD, m33_leaf_idx = PROV_KAT_Q\<rparr>)"

context block_device
begin

lemma boot_steps:
  assumes "readable ops" "8204 \<le> cap" "head_inv (view d) g" "\<not> slot_whole (view d) (Suc g)" "Suc g < 2 ^ 32"
  obtains d2 where "view d2 = view d" "images d2 = images d"
    "m33_persist_head ops (Some cap) d = (case write_sectors ops (head_slot (Suc g)) [0..<6] (slab_of (head_sector (Suc g))) d2 of
       (d3, False) \<Rightarrow> (d3, boot_result g False)
     | (d3, True) \<Rightarrow> (case blk_flush ops d3 of (d4, ok) \<Rightarrow> (d4, boot_result g ok)))"
proof -
  obtain d1 slab_a ra where a: "m33_read_slab ops (head_slot 1) (replicate SLAB_BYTES 0) d = (d1, slab_a, ra)"
    by (metis prod_cases3)
  obtain d2 slab_b rb where b: "m33_read_slab ops (head_slot 0) (replicate SLAB_BYTES 0) d1 = (d2, slab_b, rb)"
    by (metis prod_cases3)
  note ra = read_slot[OF assms(1) head_inv_lengths[OF assms(3)] a]
  then have v: "view d1 = view d" and inv: "head_inv (view d1) g"
    using assms(3) by simp_all
  note rb = read_slot[OF assms(1) head_inv_lengths[OF inv] b]
  obtain ba da where da: "dec_slot (view d) 1 = (ba, da)"
    by fastforce
  obtain bb db where db: "dec_slot (view d) 0 = (bb, db)"
    by fastforce
  note rec = head_recovery_settled[OF assms(3-5)]
  obtain blob where enc: "ph_encode (of_nat g + 1) PROV_KAT_Q PROV_KAT_HEAD TOY_I PROV_KAT_ROOT PROV_KAT_SIG (replicate BLOB_CAP 0) (replicate SLAB_BYTES 0) =
      (blob, slab_of (head_sector (Suc g)), 3072)"
    using encode_head by blast
  have base: "M33_BASE = head_slot 1" "M33_BASE + of_nat MAX_SECTORS = head_slot 0" "\<not> cap < M33_BASE + 2 * of_nat MAX_SECTORS"
    using assms(2) by (simp_all add: M33_BASE_def head_slot_def m33_sizes not_less)
  have hr: "head_recovery (view d) = (pick_newer (map_option dh_gen da) (map_option dh_gen db), m33_recover da ba db bb)"
    unfolding head_recovery_def da db by simp
  have pr: "m33_recover da ba db bb = (of_nat g, if g = 0 then None else kat_verified_head)"
    using rec(2,3) unfolding hr by (cases "m33_recover da ba db bb") simp
  have tg: "m33_target (pick_newer (map_option dh_gen da) (map_option dh_gen db)) = head_slot (Suc g)"
    using rec(1) hr by simp
  have len: "length (slab_of (head_sector (Suc g))) = 3072"
    by (rule length_slab) simp
  have a': "m33_read_slab ops M33_BASE (replicate SLAB_BYTES 0) d = (d1, slab_of (slot_sectors (view d) 1), True)"
    and b': "m33_read_slab ops (M33_BASE + of_nat MAX_SECTORS) (replicate SLAB_BYTES 0) d1 = (d2, slab_of (slot_sectors (view d) 0), True)"
    using a b ra rb v base by simp_all
  have w: "m33_write_slab ops t (take 3072 (slab_of (head_sector (Suc g)))) d2 = write_sectors ops t [0..<6] (slab_of (head_sector (Suc g))) d2" for t
    by (simp add: m33_write_slab_def len ph_consts)
  have "m33_persist_head ops (Some cap) d = (case write_sectors ops (head_slot (Suc g)) [0..<6] (slab_of (head_sector (Suc g))) d2 of
       (d3, False) \<Rightarrow> (d3, boot_result g False)
     | (d3, True) \<Rightarrow> (case blk_flush ops d3 of (d4, ok) \<Rightarrow> (d4, boot_result g ok)))"
    unfolding m33_persist_head_def Let_def option.case if_not_P[OF base(3)] a' b' prod.case if_True da[unfolded dec_slot_def] db[unfolded dec_slot_def] pr tg enc w
    by (auto simp: boot_result_def kat_verified_head_def Let_def split: prod.splits bool.splits)
  moreover have "view d2 = view d" "images d2 = images d"
    using ra rb by simp_all
  ultimately show thesis
    using that by blast
qed

lemma boot_keeps:
  assumes "readable ops" "8204 \<le> cap" "head_inv (view d) g" "\<not> slot_whole (view d) (Suc g)" "Suc g < 2 ^ 32" "images d = {view d}"
    and "m33_persist_head ops (Some cap) d = (d', r)"
  shows "r = boot_result g (m33_persisted r)" "m \<in> images d' \<Longrightarrow> head_inv m g" "m \<in> images d' \<Longrightarrow> m33_persisted r \<Longrightarrow> slot_whole m (Suc g)"
proof -
  from boot_steps[OF assms(1-5)] obtain d2 where d2: "view d2 = view d" "images d2 = images d"
    and run: "m33_persist_head ops (Some cap) d = (case write_sectors ops (head_slot (Suc g)) [0..<6] (slab_of (head_sector (Suc g))) d2 of
       (d3, False) \<Rightarrow> (d3, boot_result g False)
     | (d3, True) \<Rightarrow> (case blk_flush ops d3 of (d4, ok) \<Rightarrow> (d4, boot_result g ok)))" .
  obtain d3 ok where w: "write_sectors ops (head_slot (Suc g)) [0..<6] (slab_of (head_sector (Suc g))) d2 = (d3, ok)"
    by fastforce
  have "\<forall>s\<in>set [0..<6]. s < 6 \<and> slice (slab_of (head_sector (Suc g))) (s * 512) 512 = head_sector (Suc g) s"
    by (simp add: slice_slab)
  moreover have "\<forall>m\<in>images d2. head_inv m g"
    using d2 assms(3,6) by simp
  ultimately have wh: "\<forall>m\<in>images d3. head_inv m g" "ok \<Longrightarrow> slot_whole (view d3) (Suc g)"
    using write_head[OF w] by (auto simp: slot_whole_def)
  obtain d4 ok4 where f: "blk_flush ops d3 = (d4, ok4)"
    by fastforce
  have r: "(d', r) = (if ok then (d4, boot_result g ok4) else (d3, boot_result g False))"
    using run w f assms(7) by (cases ok) simp_all
  then show "r = boot_result g (m33_persisted r)"
    by (auto simp: boot_result_def Let_def split: if_splits)
  have d': "d' = (if ok then d4 else d3)" "m33_persisted r \<Longrightarrow> ok \<and> ok4"
    using r by (auto simp: boot_result_def Let_def split: if_splits)
  show "m \<in> images d' \<Longrightarrow> head_inv m g"
    using wh(1) d'(1) flush_state[OF f] by (auto split: if_splits)
  show "slot_whole m (Suc g)" if "m \<in> images d'" "m33_persisted r"
  proof -
    have "ok" "ok4" "images d4 = {view d4}" "view d4 = view d3"
      using d'(2)[OF that(2)] flush_done[of d3 d4] flush_state[OF f] f by auto
    then show ?thesis
      using that(1) d'(1) wh(2) by simp
  qed
qed

end

section \<open>Reboots\<close>

text \<open>
  A run of boots on one disk, with the number of boots and of those that reported the head persisted.
  A boot starts with the disk content alone (the cache is empty after a power cycle) and ends with any
  content the device may be left with; a device whose requests fail from some point on is one
  whose power is cut there.
\<close>

inductive boots :: "'d blk_ops \<Rightarrow> ('d \<Rightarrow> disk) \<Rightarrow> ('d \<Rightarrow> disk set) \<Rightarrow> u64 \<Rightarrow> disk \<Rightarrow> nat \<Rightarrow> nat \<Rightarrow> disk \<Rightarrow> bool"
  for ops view images cap m0 where
  start: "boots ops view images cap m0 0 0 m0"
| boot: "boots ops view images cap m0 n k m \<Longrightarrow> view d = m \<Longrightarrow> images d = {m} \<Longrightarrow> m33_persist_head ops (Some cap) d = (d', r) \<Longrightarrow> m' \<in> images d' \<Longrightarrow>
    boots ops view images cap m0 (Suc n) (k + of_bool (m33_persisted r)) m'"

lemma head_inv_blank:
  assumes "\<forall>s<12. m (M33_BASE + of_nat s) = replicate 512 0"
  shows "head_inv m 0"
proof -
  have b: "m (8192 + of_nat s) = replicate 512 0" if "s < 12" for s
    using assms that by (simp add: M33_BASE_def)
  have "m (8198 + of_nat s) = replicate 512 0" if "s < 6" for s
    using b[of "s + 6"] that by (simp add: add.commute)
  then show ?thesis
    using b by (simp add: head_inv_def slot_sectors_def head_slot_def head_sector_def)
qed

lemma boots_settled:
  assumes "block_device ops view images" "readable ops" "8204 \<le> cap" "boots ops view images cap m0 n k m"
    and "\<forall>s<12. m0 (M33_BASE + of_nat s) = replicate 512 0" "n + 2 < 2 ^ 32"
  shows "\<exists>g. k \<le> g \<and> g \<le> n \<and> head_inv m g \<and> \<not> slot_whole m (Suc g)"
  using assms(4,6)
proof (induction rule: boots.induct)
  case start
  have "head_inv m0 0"
    using assms(5) by (rule head_inv_blank)
  moreover have "slot_sectors m0 1 0 = head_sector 0 0"
    using assms(5)[rule_format, of 0] by (simp add: slot_sectors_def head_slot_def head_sector_def M33_BASE_def)
  then have "\<not> slot_whole m0 1"
    using head_sector_inject[of 0 0 1 0] by (auto simp: slot_whole_def intro!: exI[of _ 0])
  ultimately show ?case
    by auto
next
  case (boot n k m d d' r m')
  then obtain g where g: "k \<le> g" "g \<le> n" "head_inv m g" "\<not> slot_whole m (Suc g)"
    by auto
  have g32: "Suc g < 2 ^ 32" "Suc (Suc g) < 2 ^ 32"
    using g(2) boot.prems by simp_all
  note bk = block_device.boot_keeps[OF assms(1-3), of d g d' r, unfolded boot.hyps(2), OF g(3,4) g32(1) boot.hyps(3,4)]
  have inv: "head_inv m' g"
    using bk(2) boot.hyps(5) by blast
  obtain g' where g': "g' = g \<or> g' = Suc g \<and> slot_whole m' (Suc g)" "head_inv m' g'" "\<not> slot_whole m' (Suc g')"
    using head_inv_settled[OF inv g32(2)] by blast
  moreover have "k + of_bool (m33_persisted r) \<le> g'"
    using g' g(1) bk(3)[OF boot.hyps(5)] by auto
  ultimately show ?case
    using g(2) by (intro exI[of _ g']) auto
qed

text \<open>
  A slot that cannot be read counts as empty: with both slots unreadable the boot writes generation 1 into
  the first slot, whatever record it holds.
\<close>

lemma unreadable_restarts:
  assumes "\<And>d s. snd (blk_read ops d s) = None" "8204 \<le> cap"
  shows "\<exists>d2. m33_persist_head ops (Some cap) d = (case write_sectors ops M33_BASE [0..<6] (slab_of (head_sector 1)) d2 of
       (d3, False) \<Rightarrow> (d3, boot_result 0 False)
     | (d3, True) \<Rightarrow> (case blk_flush ops d3 of (d4, ok) \<Rightarrow> (d4, boot_result 0 ok)))"
proof -
  have r: "\<exists>d'. m33_read_slab ops base dst d = (d', dst, False)" for base dst d
    using assms(1)[of d base] by (auto simp: m33_read_slab_def m33_sizes upt_conv_Cons split: prod.splits option.splits)
  obtain d1 where a: "m33_read_slab ops M33_BASE (replicate SLAB_BYTES 0) d = (d1, replicate SLAB_BYTES 0, False)"
    using r by blast
  obtain d2 where b: "m33_read_slab ops (M33_BASE + of_nat MAX_SECTORS) (replicate SLAB_BYTES 0) d1 = (d2, replicate SLAB_BYTES 0, False)"
    using r by blast
  obtain blob where enc: "ph_encode (0 + 1) PROV_KAT_Q PROV_KAT_HEAD TOY_I PROV_KAT_ROOT PROV_KAT_SIG (replicate BLOB_CAP 0) (replicate SLAB_BYTES 0) =
      (blob, slab_of (head_sector 1), 3072)"
    using encode_head[of 0] by auto
  have len: "length (slab_of (head_sector 1)) = 3072"
    by (rule length_slab) simp
  have cap: "\<not> cap < M33_BASE + 2 * of_nat MAX_SECTORS"
    using assms(2) by (simp add: M33_BASE_def m33_sizes not_less)
  have w: "m33_write_slab ops t (take 3072 (slab_of (head_sector 1))) d2 = write_sectors ops t [0..<6] (slab_of (head_sector 1)) d2" for t
    by (simp add: m33_write_slab_def len[unfolded One_nat_def] ph_consts)
  have p: "m33_recover None ba None bb = (0, None)" "m33_target (pick_newer (map_option dh_gen None) (map_option dh_gen None)) = M33_BASE" for ba bb
    by (simp_all add: m33_recover_def m33_target_def)
  show ?thesis
    unfolding m33_persist_head_def Let_def option.case if_not_P[OF cap] a b prod.case if_False p enc w
    by (rule exI[of _ d2]) (auto simp: boot_result_def Let_def split: prod.splits bool.splits)
qed

section \<open>Property\<close>

text \<open>
  C7: The signed head survives reboots and torn writes. After any number of boots (fewer than \<open>2\<^sup>3\<^sup>2\<close>) on a
  disk whose two slots were blank, on a device that can be read but whose writes and flushes may fail
  and which may lose power at any request, the disk holds a whole record of some generation that is at
  least the number of boots that reported the head persisted and at most the number of boots. The next
  boot recovers that generation and reports the pinned head as survived exactly when a record was ever written and
  the pinned signature verifies.
\<close>

theorem m33_head_survives:
  assumes "block_device ops view images" "readable ops" "8204 \<le> cap" "boots ops view images cap m0 n k m"
    and "\<forall>s<12. m0 (M33_BASE + of_nat s) = replicate 512 0" "n + 2 < 2 ^ 32"
  shows "\<exists>g. k \<le> g \<and> g \<le> n \<and> snd (head_recovery m) = (of_nat g, if g = 0 then None else kat_verified_head) \<and>
    (\<forall>d d' r. view d = m \<and> images d = {m} \<and> m33_persist_head ops (Some cap) d = (d', r) \<longrightarrow> r = boot_result g (m33_persisted r))"
proof -
  obtain g where g: "k \<le> g" "g \<le> n" "head_inv m g" "\<not> slot_whole m (Suc g)"
    using boots_settled[OF assms] by blast
  have g32: "Suc g < 2 ^ 32"
    using g(2) assms(6) by simp
  have "r = boot_result g (m33_persisted r)" if "view d = m" "images d = {m}" "m33_persist_head ops (Some cap) d = (d', r)" for d d' r
    using block_device.boot_keeps(1)[OF assms(1-3), of d g d' r] g(3,4) g32 that by simp
  moreover have "snd (head_recovery m) = (of_nat g, if g = 0 then None else kat_verified_head)"
    using head_recovery_settled(2,3)[OF g(3,4) g32] by (simp add: prod_eq_iff)
  ultimately show ?thesis
    using g(1,2) by blast
qed

text \<open>One boot on an erased disk that does not fail: the head is persisted under generation 1.\<close>

theorem m33_head_survives_witness:
  "\<exists>m k. boots (wb_ops (\<lambda>_. False)) wb_view wb_images 8204 (\<lambda>_. replicate 512 0) 1 k m \<and>
     (\<exists>g. k \<le> g \<and> g \<le> 1 \<and> snd (head_recovery m) = (of_nat g, if g = 0 then None else kat_verified_head))"
proof -
  let ?ops = "wb_ops (\<lambda>_. False)" and ?m0 = "\<lambda>_ :: u64. replicate 512 (0 :: u8)"
  obtain d' r where p: "m33_persist_head ?ops (Some 8204) blank_disk = (d', r)"
    by fastforce
  have d: "wb_view blank_disk = ?m0"
    by (simp add: blank_disk_def wb_view_def wb_apply_def)
  then have "wb_images blank_disk = {?m0}"
    using wb_images_flushed[of blank_disk] by (simp add: blank_disk_def)
  note d = d this
  have "boots ?ops wb_view wb_images 8204 ?m0 (Suc 0) (0 + of_bool (m33_persisted r)) (wb_view d')"
    by (rule boots.boot) (rule boots.start, rule d(1), rule d(2), rule p, rule wb_view_image)
  then have b: "boots ?ops wb_view wb_images 8204 ?m0 1 (of_bool (m33_persisted r)) (wb_view d')"
    by simp
  have "readable ?ops"
    by (simp add: readable_def wb_ops_def)
  note survives = m33_head_survives[OF wb.block_device_axioms this order.refl b]
  have "\<forall>s<12 :: nat. replicate 512 (0 :: u8) = replicate 512 0" "1 + 2 < (2 ^ 32 :: nat)"
    by simp_all
  from survives[OF this] show ?thesis
    using b by blast
qed

end
