(* ===== verification/El2_Trap.thy ===== *)
theory El2_Trap
  imports Prelude
begin

text \<open>
  The EL2 syndrome decoders of \<open>tb-encode/src/el2_trap.rs\<close>: fields of \<open>ESR_EL2\<close>,
  \<open>HPFAR_EL2\<close> and \<open>FAR_EL2\<close>, the exit-class table, the injected undefined-instruction
  syndrome, the trapped-register and data-abort fields, and the interrupt list-register codec.
  The lemmas bound every field, read composed values back, and show where the
  list-register fields overlap.
\<close>

section \<open>Exception classes and fault syndromes\<close>

definition EC_UNKNOWN :: u64 where "EC_UNKNOWN = 0x00"
definition EC_WFX :: u64 where "EC_WFX = 0x01"
definition EC_HVC64 :: u64 where "EC_HVC64 = 0x16"
definition EC_SMC64 :: u64 where "EC_SMC64 = 0x17"
definition EC_SYS64 :: u64 where "EC_SYS64 = 0x18"
definition EC_IABT_LOW :: u64 where "EC_IABT_LOW = 0x20"
definition EC_DABT_LOW :: u64 where "EC_DABT_LOW = 0x24"
definition DFSC_TRANSLATION_L0 :: u64 where "DFSC_TRANSLATION_L0 = 0x04"
definition DFSC_TRANSLATION_L3 :: u64 where "DFSC_TRANSLATION_L3 = 0x07"

definition esr_ec :: "u64 \<Rightarrow> u64" where
  "esr_ec esr = drop_bit 26 esr AND 0x3F"

definition esr_dfsc :: "u64 \<Rightarrow> u64" where
  "esr_dfsc esr = esr AND 0x3F"

definition esr_is_translation_fault :: "u64 \<Rightarrow> bool" where
  "esr_is_translation_fault esr \<longleftrightarrow> (let dfsc = esr_dfsc esr in
     dfsc \<ge> DFSC_TRANSLATION_L0 \<and> dfsc \<le> DFSC_TRANSLATION_L3)"

definition esr_wnr :: "u64 \<Rightarrow> u64" where
  "esr_wnr esr = drop_bit 6 esr AND 1"

definition esr_s1ptw :: "u64 \<Rightarrow> u64" where
  "esr_s1ptw esr = drop_bit 7 esr AND 1"

definition hpfar_fault_ipa :: "u64 \<Rightarrow> u64" where
  "hpfar_fault_ipa hpfar = push_bit 8 (hpfar AND NOT 0xF)"

definition far_page_offset :: "u64 \<Rightarrow> u64" where
  "far_page_offset far = far AND 0xFFF"

datatype exit_class = StageTwoAbort | Hvc | Smc | Sys64 | Wfx | Undef

definition classify_exit :: "u64 \<Rightarrow> exit_class" where
  "classify_exit esr = (let ec = esr_ec esr in
     if ec = EC_DABT_LOW \<or> ec = EC_IABT_LOW then StageTwoAbort
     else if ec = EC_HVC64 then Hvc
     else if ec = EC_SMC64 then Smc
     else if ec = EC_SYS64 then Sys64
     else if ec = EC_WFX then Wfx
     else Undef)"

definition ESR_ELx_IL :: u64 where "ESR_ELx_IL = push_bit 25 1"
definition EL1_SYNC_SPX_OFFSET :: u64 where "EL1_SYNC_SPX_OFFSET = 0x200"

definition esr_inject_undef :: u64 where
  "esr_inject_undef = push_bit 26 EC_UNKNOWN OR ESR_ELx_IL"

definition SCTLR_EL1_M :: u64 where "SCTLR_EL1_M = push_bit 0 1"
definition SCTLR_EL1_C :: u64 where "SCTLR_EL1_C = push_bit 2 1"
definition SCTLR_EL1_I :: u64 where "SCTLR_EL1_I = push_bit 12 1"

definition SCTLR_EL1_GUEST_ENABLE_BITS :: u64 where
  "SCTLR_EL1_GUEST_ENABLE_BITS = SCTLR_EL1_M OR SCTLR_EL1_C OR SCTLR_EL1_I"

definition sctlr_el1_guest_enable :: "u64 \<Rightarrow> u64" where
  "sctlr_el1_guest_enable baseline = baseline OR SCTLR_EL1_GUEST_ENABLE_BITS"

section \<open>Trapped register accesses\<close>

definition sysreg_iss_op0 :: "u64 \<Rightarrow> u64" where "sysreg_iss_op0 esr = drop_bit 20 esr AND 0x3"
definition sysreg_iss_op2 :: "u64 \<Rightarrow> u64" where "sysreg_iss_op2 esr = drop_bit 17 esr AND 0x7"
definition sysreg_iss_op1 :: "u64 \<Rightarrow> u64" where "sysreg_iss_op1 esr = drop_bit 14 esr AND 0x7"
definition sysreg_iss_crn :: "u64 \<Rightarrow> u64" where "sysreg_iss_crn esr = drop_bit 10 esr AND 0xF"
definition sysreg_iss_rt :: "u64 \<Rightarrow> u64" where "sysreg_iss_rt esr = drop_bit 5 esr AND 0x1F"
definition sysreg_iss_crm :: "u64 \<Rightarrow> u64" where "sysreg_iss_crm esr = drop_bit 1 esr AND 0xF"

definition sysreg_iss_is_read :: "u64 \<Rightarrow> bool" where
  "sysreg_iss_is_read esr \<longleftrightarrow> esr AND 1 \<noteq> 0"

definition sysreg_iss_sys_val :: "u64 \<Rightarrow> u64 \<Rightarrow> u64 \<Rightarrow> u64 \<Rightarrow> u64 \<Rightarrow> u64" where
  "sysreg_iss_sys_val op0 op1 op2 crn crm =
     push_bit 20 op0 OR push_bit 17 op2 OR push_bit 14 op1 OR push_bit 10 crn OR push_bit 1 crm"

definition SYSREG_ISS_SYS_MASK :: u64 where
  "SYSREG_ISS_SYS_MASK = push_bit 20 0x3 OR push_bit 17 0x7 OR push_bit 14 0x7 OR push_bit 10 0xF OR push_bit 1 0xF"

definition SYS_CONTEXTIDR_EL1 :: u64 where
  "SYS_CONTEXTIDR_EL1 = sysreg_iss_sys_val 3 0 1 13 0"

section \<open>Data aborts\<close>

definition dabt_iss_isv :: "u64 \<Rightarrow> u64" where "dabt_iss_isv esr = drop_bit 24 esr AND 1"
definition dabt_iss_sas :: "u64 \<Rightarrow> u64" where "dabt_iss_sas esr = drop_bit 22 esr AND 0x3"
definition dabt_iss_sse :: "u64 \<Rightarrow> u64" where "dabt_iss_sse esr = drop_bit 21 esr AND 1"
definition dabt_iss_srt :: "u64 \<Rightarrow> u64" where "dabt_iss_srt esr = drop_bit 16 esr AND 0x1F"
definition dabt_iss_sf :: "u64 \<Rightarrow> u64" where "dabt_iss_sf esr = drop_bit 15 esr AND 1"
definition dabt_iss_ar :: "u64 \<Rightarrow> u64" where "dabt_iss_ar esr = drop_bit 14 esr AND 1"

definition dabt_access_size_bytes :: "u64 \<Rightarrow> u64" where
  "dabt_access_size_bytes esr = push_bit (unat (dabt_iss_sas esr)) 1"

definition dabt_is_emulatable :: "u64 \<Rightarrow> bool" where
  "dabt_is_emulatable esr \<longleftrightarrow> dabt_iss_isv esr \<noteq> 0 \<and> esr_s1ptw esr = 0"

section \<open>Interrupt list registers\<close>

definition GICH_LR_STATE_INVALID :: u64 where "GICH_LR_STATE_INVALID = 0"
definition GICH_LR_STATE_PENDING :: u64 where "GICH_LR_STATE_PENDING = 1"
definition GICH_LR_STATE_ACTIVE :: u64 where "GICH_LR_STATE_ACTIVE = 2"
definition GICH_LR_STATE_ACTIVE_PENDING :: u64 where "GICH_LR_STATE_ACTIVE_PENDING = 3"
definition LR_VIRTID_SHIFT :: nat where "LR_VIRTID_SHIFT = 0"
definition LR_PHYSID_SHIFT :: nat where "LR_PHYSID_SHIFT = 10"
definition LR_EOI_BIT :: u64 where "LR_EOI_BIT = push_bit 19 1"
definition LR_PRIO_SHIFT :: nat where "LR_PRIO_SHIFT = 23"
definition LR_STATE_SHIFT :: nat where "LR_STATE_SHIFT = 28"
definition LR_GRP1_BIT :: u64 where "LR_GRP1_BIT = push_bit 30 1"
definition LR_HW_BIT :: u64 where "LR_HW_BIT = push_bit 31 1"

definition GICH_LR_MASK :: u32 where
  "GICH_LR_MASK = 0x3FF OR push_bit 10 0x3FF OR push_bit 19 1 OR push_bit 23 0x1F OR push_bit 28 0x3 OR
     push_bit 30 1 OR push_bit 31 1"

definition gich_lr_encode :: "u64 \<Rightarrow> u64 \<Rightarrow> u64 \<Rightarrow> u64 \<Rightarrow> u64 \<Rightarrow> u64 \<Rightarrow> u64 \<Rightarrow> u32" where
  "gich_lr_encode vintid pintid state priority grp hw eoi = ucast (
     push_bit LR_VIRTID_SHIFT (vintid AND 0x3FF) OR push_bit LR_PHYSID_SHIFT (pintid AND 0x3FF) OR
     (if eoi AND 1 \<noteq> 0 then LR_EOI_BIT else 0) OR push_bit LR_PRIO_SHIFT (priority AND 0x1F) OR
     push_bit LR_STATE_SHIFT (state AND 0x3) OR (if grp AND 1 \<noteq> 0 then LR_GRP1_BIT else 0) OR
     (if hw AND 1 \<noteq> 0 then LR_HW_BIT else 0))"

definition lr_state :: "u32 \<Rightarrow> u64" where
  "lr_state lr = drop_bit LR_STATE_SHIFT (ucast lr) AND 0x3"

definition lr_virtid :: "u32 \<Rightarrow> u64" where
  "lr_virtid lr = drop_bit LR_VIRTID_SHIFT (ucast lr) AND 0x3FF"

definition lr_is_retired :: "u32 \<Rightarrow> bool" where
  "lr_is_retired lr \<longleftrightarrow> lr_state lr = GICH_LR_STATE_INVALID"

definition gich_hcr :: "bool \<Rightarrow> u32" where
  "gich_hcr en = (if en then 1 else 0)"

definition vtr_list_regs :: "u32 \<Rightarrow> u64" where
  "vtr_list_regs vtr = (ucast vtr AND 0x3F) + 1"

section \<open>Field bounds and read-back\<close>

lemmas el2_codes = EC_UNKNOWN_def EC_WFX_def EC_HVC64_def EC_SMC64_def EC_SYS64_def EC_IABT_LOW_def EC_DABT_LOW_def
  DFSC_TRANSLATION_L0_def DFSC_TRANSLATION_L3_def

lemma unat_and_le: "unat (a AND b) \<le> unat b" for a b :: "'a::len word"
  using word_and_le1 [of a b] by (simp add: word_le_nat_alt)

lemma rt_fields:
  "unat (sysreg_iss_rt esr) < 32" "unat (dabt_iss_srt esr) < 32" "unat (dabt_iss_sas esr) < 4"
  using unat_and_le[of "drop_bit 5 esr" "0x1F"] unat_and_le[of "drop_bit 16 esr" "0x1F"]
    unat_and_le[of "drop_bit 22 esr" "0x3"]
  by (simp_all add: sysreg_iss_rt_def dabt_iss_srt_def dabt_iss_sas_def)

lemma vtr_list_regs_pos: "1 \<le> unat (vtr_list_regs vtr)" "unat (vtr_list_regs vtr) \<le> 64"
proof -
  have "unat (ucast vtr AND 0x3F :: u64) \<le> 63"
    using unat_and_le[of "ucast vtr :: u64" "0x3F"] by simp
  then show "1 \<le> unat (vtr_list_regs vtr)" "unat (vtr_list_regs vtr) \<le> 64"
    by (simp_all add: vtr_list_regs_def unat_word_ariths)
qed

text \<open>The faulting page of an access: the recorded frame number, page aligned.\<close>

lemma hpfar_page: "hpfar_fault_ipa h AND 0xFFF = 0"
proof -
  have m: "(0xFFF :: u64) = mask 12" "(0xF :: u64) = mask 4"
    by (simp_all add: mask_eq_exp_minus_1)
  show ?thesis
    unfolding hpfar_fault_ipa_def m by (rule bit_word_eqI) (auto simp: bit_simps)
qed

text \<open>The two fields the monitor reads back survive every encoding.\<close>

lemma lr_fields:
  "lr_virtid (gich_lr_encode v p st prio g hw eoi) = v AND 0x3FF"
  "lr_state (gich_lr_encode v p st prio g hw eoi) = st AND 0x3"
proof -
  have m: "(0x3FF :: u64) = mask 10" "(0x1F :: u64) = mask 5" "(0x3 :: u64) = mask 2"
    by (simp_all add: mask_eq_exp_minus_1)
  have f: "bit LR_EOI_BIT n \<longleftrightarrow> n = 19" "bit LR_GRP1_BIT n \<longleftrightarrow> n = 30" "bit LR_HW_BIT n \<longleftrightarrow> n = 31" for n
    unfolding LR_EOI_BIT_def LR_GRP1_BIT_def LR_HW_BIT_def bit_push_bit_iff bit_1_iff by auto
  note d = gich_lr_encode_def LR_VIRTID_SHIFT_def LR_PHYSID_SHIFT_def LR_PRIO_SHIFT_def LR_STATE_SHIFT_def
  show "lr_virtid (gich_lr_encode v p st prio g hw eoi) = v AND 0x3FF"
    unfolding lr_virtid_def d m by (rule bit_word_eqI) (auto simp: bit_simps f split: if_splits)
  show "lr_state (gich_lr_encode v p st prio g hw eoi) = st AND 0x3"
    unfolding lr_state_def d m by (rule bit_word_eqI) (auto simp: bit_simps f split: if_splits)
qed

text \<open>
  The physical interrupt number and the end-of-interrupt flag are not disjoint: bit 9 of the
  one is the other, so the register does not determine them.
\<close>

lemma lr_physid_eoi_overlap: "gich_lr_encode v 0x200 st prio g hw 0 = gich_lr_encode v 0 st prio g hw 1"
  by (simp add: gich_lr_encode_def LR_PHYSID_SHIFT_def LR_EOI_BIT_def)

end
