(* ===== verification/Guestlog.thy ===== *)
theory Guestlog
  imports Prelude
begin

text \<open>
  The guest console: the \<open>guestlog:\<close> line codec of \<open>tb-encode/src/guestlog.rs\<close> and the
  monitor's line buffer of \<open>arch/aarch64/el2/l24b_guest.rs\<close> (\<open>kg_log_reset\<close>,
  \<open>kg_log_flush\<close>, \<open>kg_log_push\<close>). The console is the list of bytes sent to the host's UART.
  The reader of the boot scripts (every \<open>guestlog:\<close> line decoded, payloads concatenated) is
  the reference the emitter is compared with.
\<close>

section \<open>The line codec\<close>

definition GUESTLOG_PREFIX :: bytes where
  "GUESTLOG_PREFIX = [0x67, 0x75, 0x65, 0x73, 0x74, 0x6C, 0x6F, 0x67, 0x3A, 0x20]"

definition GUESTLOG_MAX_PAYLOAD :: nat where "GUESTLOG_MAX_PAYLOAD = 64"

definition guestlog_frame_len :: "nat \<Rightarrow> nat" where
  "guestlog_frame_len n = length GUESTLOG_PREFIX + 2 * n + 1"

definition GUESTLOG_MAX_FRAME :: nat where
  "GUESTLOG_MAX_FRAME = guestlog_frame_len GUESTLOG_MAX_PAYLOAD"

definition hex_digit :: "u8 \<Rightarrow> u8" where
  "hex_digit n = (if n < 10 then 0x30 + n else 0x61 + (n - 10))"

definition hex_val :: "u8 \<Rightarrow> u8 option" where
  "hex_val c = (if 0x30 \<le> c \<and> c \<le> 0x39 then Some (c - 0x30)
     else if 0x61 \<le> c \<and> c \<le> 0x66 then Some (c - 0x61 + 10) else None)"

definition is_hex_lower :: "u8 \<Rightarrow> bool" where
  "is_hex_lower b \<longleftrightarrow> 0x30 \<le> b \<and> b \<le> 0x39 \<or> 0x61 \<le> b \<and> b \<le> 0x66"

definition hex_write :: "bytes \<Rightarrow> nat \<Rightarrow> nat \<Rightarrow> bytes \<Rightarrow> bytes" where
  "hex_write payload p i out = out[p + 2 * i := hex_digit (drop_bit 4 (payload ! i)),
     p + 2 * i + 1 := hex_digit (payload ! i AND 0xF)]"

definition guestlog_encode :: "bytes \<Rightarrow> bytes \<Rightarrow> bytes \<times> nat" where
  "guestlog_encode payload out = (let n = length payload; tot = guestlog_frame_len n; p = length GUESTLOG_PREFIX in
     if n > GUESTLOG_MAX_PAYLOAD then (out, 0)
     else if length out < tot then (out, 0)
     else let out = put 0 GUESTLOG_PREFIX out;
              out = fold (hex_write payload p) [0..<n] out
          in (out[tot - 1 := 0x0A], tot))"

fun hex_read :: "bytes \<Rightarrow> nat \<Rightarrow> nat \<Rightarrow> bytes \<Rightarrow> bytes \<times> bool" where
  "hex_read hex i 0 out = (out, True)"
| "hex_read hex i (Suc k) out = (case hex_val (hex ! (2 * i)) of None \<Rightarrow> (out, False) | Some hi \<Rightarrow>
     (case hex_val (hex ! (2 * i + 1)) of None \<Rightarrow> (out, False) | Some lo \<Rightarrow>
        hex_read hex (Suc i) k (out[i := push_bit 4 hi OR lo])))"

definition guestlog_decode :: "bytes \<Rightarrow> bytes \<Rightarrow> bytes \<times> nat option" where
  "guestlog_decode frm out = (let p = length GUESTLOG_PREFIX in
     if length frm < p + 1 \<or> take p frm \<noteq> GUESTLOG_PREFIX then (out, None)
     else if frm ! (length frm - 1) \<noteq> 0x0A then (out, None)
     else let hex = slice frm p (length frm - 1 - p) in
       if length hex mod 2 \<noteq> 0 then (out, None)
       else let n = length hex div 2 in
         if n > GUESTLOG_MAX_PAYLOAD \<or> length out < n then (out, None)
         else case hex_read hex 0 n out of (out', ok) \<Rightarrow> (out', if ok then Some n else None))"

section \<open>The monitor's line buffer\<close>

record kg_log =
  log_buf :: bytes
  log_len :: nat

definition kg_log_new :: kg_log where
  "kg_log_new = \<lparr>log_buf = replicate GUESTLOG_MAX_PAYLOAD 0, log_len = 0\<rparr>"

definition kg_log_reset :: "kg_log \<Rightarrow> kg_log" where
  "kg_log_reset l = l\<lparr>log_len := 0\<rparr>"

definition kg_log_flush :: "kg_log \<times> bytes \<Rightarrow> kg_log \<times> bytes" where
  "kg_log_flush lc = (case lc of (l, con) \<Rightarrow>
     if log_len l = 0 then (l, con)
     else case guestlog_encode (take (log_len l) (log_buf l)) (replicate GUESTLOG_MAX_FRAME 0) of
       (out, n) \<Rightarrow> (l\<lparr>log_len := 0\<rparr>, con @ take n out))"

definition kg_log_push :: "u8 \<Rightarrow> kg_log \<times> bytes \<Rightarrow> kg_log \<times> bytes" where
  "kg_log_push b lc = (let lc = (if log_len (fst lc) \<ge> GUESTLOG_MAX_PAYLOAD then kg_log_flush lc else lc) in
     case lc of (l, con) \<Rightarrow>
       let l = l\<lparr>log_buf := (log_buf l)[log_len l := b], log_len := log_len l + 1\<rparr> in
       if b = 0x0A \<or> log_len l \<ge> GUESTLOG_MAX_PAYLOAD then kg_log_flush (l, con) else (l, con))"

section \<open>Lines and the reference reader\<close>

definition hex_of :: "bytes \<Rightarrow> bytes" where
  "hex_of p = concat (map (\<lambda>b. [hex_digit (drop_bit 4 b), hex_digit (b AND 0xF)]) p)"

definition line_of :: "bytes \<Rightarrow> bytes" where
  "line_of p = GUESTLOG_PREFIX @ hex_of p @ [0x0A]"

text \<open>The lines of a console, each with its terminator; an unterminated rest is a line of its own.\<close>

fun split_lines :: "bytes \<Rightarrow> bytes list" where
  "split_lines [] = []"
| "split_lines (b # bs) = (if b = 0x0A then [b] # split_lines bs
     else case split_lines bs of [] \<Rightarrow> [[b]] | l # ls \<Rightarrow> (b # l) # ls)"

definition line_payload :: "bytes \<Rightarrow> bytes" where
  "line_payload ln = (case guestlog_decode ln (replicate GUESTLOG_MAX_PAYLOAD 0) of
     (out, Some n) \<Rightarrow> take n out | (out, None) \<Rightarrow> [])"

definition read_guestlog :: "bytes \<Rightarrow> bytes" where
  "read_guestlog con = concat (map line_payload (split_lines con))"

section \<open>Digits\<close>

lemma hex_digit_nat: "n < 16 \<Longrightarrow> unat (hex_digit n) = (if unat n < 10 then 48 + unat n else 87 + unat n)"
proof -
  assume "n < 16"
  then have n: "unat n < 16" by (simp add: word_less_nat_alt)
  show ?thesis
  proof (cases "unat n < 10")
    case True
    then show ?thesis by (simp add: hex_digit_def word_less_nat_alt unat_word_ariths)
  next
    case False
    then have "unat (n - 10) = unat n - 10"
      by (simp add: unat_sub word_le_nat_alt)
    then show ?thesis
      using False n by (simp add: hex_digit_def word_less_nat_alt unat_word_ariths)
  qed
qed

lemma hex_digit_lower: "n < 16 \<Longrightarrow> is_hex_lower (hex_digit n)" "n < 16 \<Longrightarrow> hex_digit n \<noteq> 0x0A"
  using hex_digit_nat[of n] by (auto simp: is_hex_lower_def word_le_nat_alt word_less_nat_alt split: if_splits)

lemma hex_val_digit: "n < 16 \<Longrightarrow> hex_val (hex_digit n) = Some n"
proof -
  assume a: "n < 16"
  then have n: "unat n < 16" by (simp add: word_less_nat_alt)
  have w: "hex_digit n = (if unat n < 10 then n + 0x30 else n + 0x57)"
    by (simp add: hex_digit_def word_less_nat_alt)
  show ?thesis
    using n hex_digit_nat[OF a] unfolding hex_val_def word_le_nat_alt
    by (cases "unat n < 10") (simp_all add: w)
qed

lemma nibbles:
  "drop_bit 4 b < 16" "b AND 0xF < 16" "push_bit 4 (drop_bit 4 b) OR (b AND 0xF) = b" for b :: u8
proof -
  have m: "(0xF :: u8) = mask 4" by (simp add: mask_eq_exp_minus_1)
  have "unat b < 256" using unsigned_less[of b] by simp
  then show "drop_bit 4 b < 16" by (simp add: word_less_nat_alt drop_bit_eq_div unat_div)
  show "b AND 0xF < 16"
    using word_and_le1[of b "0xF"] by (simp add: word_less_nat_alt word_le_nat_alt)
  show "push_bit 4 (drop_bit 4 b) OR (b AND 0xF) = b"
    unfolding m by (rule bit_word_eqI) (auto simp: bit_simps)
qed

section \<open>The codec\<close>

lemma prefix_length [simp]: "length GUESTLOG_PREFIX = 10"
  by (simp add: GUESTLOG_PREFIX_def)

lemma frame_len_eq: "guestlog_frame_len n = 11 + 2 * n"
  by (simp add: guestlog_frame_len_def)

lemma length_hex_of [simp]: "length (hex_of p) = 2 * length p"
  by (induction p) (simp_all add: hex_of_def)

lemma hex_of_append: "hex_of (p @ q) = hex_of p @ hex_of q"
  by (simp add: hex_of_def)

lemma hex_of_Cons: "hex_of (b # p) = hex_digit (drop_bit 4 b) # hex_digit (b AND 0xF) # hex_of p"
  by (simp add: hex_of_def)

lemma hex_of_snoc: "hex_of (p @ [b]) = hex_of p @ [hex_digit (drop_bit 4 b), hex_digit (b AND 0xF)]"
  by (simp add: hex_of_def)

lemma put_update:
  assumes "i < length out"
  shows "put (Suc i) xs (out[i := x]) = put i (x # xs) out"
proof -
  have "take (Suc i) (out[i := x]) = take i out @ [x]"
    using assms by (simp add: take_Suc_conv_app_nth)
  then show ?thesis
    by (simp add: put_def)
qed

lemma length_line_of [simp]: "length (line_of p) = guestlog_frame_len (length p)"
  by (simp add: line_of_def guestlog_frame_len_def)

lemma update_pair: "length pre = i \<Longrightarrow> (pre @ x # y # rest)[i := a, Suc i := b] = pre @ a # b # rest"
  by (simp add: list_update_append)

lemma hex_write_upt:
  assumes "k \<le> length payload" "p + 2 * length payload \<le> length out"
  shows "fold (hex_write payload p) [0..<k] out = put p (hex_of (take k payload)) out"
  using assms(1)
proof (induction k)
  case 0
  then show ?case by (simp add: put_def hex_of_def)
next
  case (Suc k)
  let ?pre = "take p out @ hex_of (take k payload)" and ?b = "payload ! k"
  have l: "length ?pre = p + 2 * k"
    using Suc.prems assms(2) by simp
  have t: "take (Suc k) payload = take k payload @ [?b]"
    using Suc.prems by (simp add: take_Suc_conv_app_nth)
  have d: "drop (p + 2 * k) out = out ! (p + 2 * k) # out ! Suc (p + 2 * k) # drop (p + 2 * Suc k) out"
    using Suc.prems assms(2) by (simp add: Cons_nth_drop_Suc)
  have "fold (hex_write payload p) [0..<Suc k] out = hex_write payload p k (?pre @ drop (p + 2 * k) out)"
    using Suc by (simp add: put_def)
  also have "\<dots> = ?pre @ hex_digit (drop_bit 4 ?b) # hex_digit (?b AND 0xF) # drop (p + 2 * Suc k) out"
    unfolding hex_write_def d Suc_eq_plus1[symmetric] by (rule update_pair[OF l])
  also have "\<dots> = put p (hex_of (take (Suc k) payload)) out"
    using Suc.prems by (simp add: put_def t hex_of_snoc)
  finally show ?case .
qed

lemma guestlog_encode_eq:
  "guestlog_encode p out = (if length p \<le> GUESTLOG_MAX_PAYLOAD \<and> guestlog_frame_len (length p) \<le> length out
     then (put 0 (line_of p) out, guestlog_frame_len (length p)) else (out, 0))"
proof -
  let ?n = "length p"
  have "put 0 (line_of p) out = (put 10 (hex_of p) (put 0 GUESTLOG_PREFIX out))[10 + 2 * ?n := 0x0A]"
    if "guestlog_frame_len ?n \<le> length out"
  proof -
    have l: "10 + 2 * ?n < length out"
      using that by (simp add: frame_len_eq)
    have "drop (10 + 2 * ?n) out = out ! (10 + 2 * ?n) # drop (Suc (10 + 2 * ?n)) out"
      using l by (rule Cons_nth_drop_Suc[symmetric])
    then have "put 10 (hex_of p) (put 0 GUESTLOG_PREFIX out) =
        (GUESTLOG_PREFIX @ hex_of p) @ out ! (10 + 2 * ?n) # drop (Suc (10 + 2 * ?n)) out"
      using l by (simp add: put_def add.commute)
    then show ?thesis
      using l by (simp add: line_of_def put_def list_update_append)
  qed
  moreover have "fold (hex_write p 10) [0..<?n] (put 0 GUESTLOG_PREFIX out) = put 10 (hex_of p) (put 0 GUESTLOG_PREFIX out)"
    if "guestlog_frame_len ?n \<le> length out"
    using that hex_write_upt[of ?n p 10 "put 0 GUESTLOG_PREFIX out"] by (simp add: frame_len_eq)
  ultimately show ?thesis
    by (simp add: guestlog_encode_def Let_def frame_len_eq)
qed

lemma hex_nth:
  assumes "i < length p"
  shows "hex_of p ! (2 * i) = hex_digit (drop_bit 4 (p ! i))" "hex_of p ! Suc (2 * i) = hex_digit (p ! i AND 0xF)"
proof -
  have "p = take i p @ p ! i # drop (Suc i) p"
    using assms by (simp add: id_take_nth_drop)
  then have h: "hex_of p = hex_of (take i p) @ [hex_digit (drop_bit 4 (p ! i)), hex_digit (p ! i AND 0xF)] @
      hex_of (drop (Suc i) p)"
    using hex_of_append[of "take i p" "p ! i # drop (Suc i) p"] by (simp add: hex_of_Cons)
  have l: "length (hex_of (take i p)) = 2 * i"
    using assms by simp
  show "hex_of p ! (2 * i) = hex_digit (drop_bit 4 (p ! i))" "hex_of p ! Suc (2 * i) = hex_digit (p ! i AND 0xF)"
    unfolding h nth_append l by simp_all
qed

lemma hex_read_hex:
  assumes "i + k = length p" "length p \<le> length out"
  shows "hex_read (hex_of p) i k out = (put i (drop i p) out, True)"
  using assms
proof (induction k arbitrary: i out)
  case 0
  then show ?case by (simp add: put_def)
next
  case (Suc k)
  let ?b = "p ! i"
  have i: "i < length p" using Suc.prems by simp
  have d: "drop i p = ?b # drop (Suc i) p"
    using i by (simp add: Cons_nth_drop_Suc)
  have "hex_read (hex_of p) i (Suc k) out = hex_read (hex_of p) (Suc i) k (out[i := ?b])"
    using hex_nth[OF i] by (simp add: hex_val_digit nibbles)
  also have "\<dots> = (put (Suc i) (drop (Suc i) p) (out[i := ?b]), True)"
    using Suc by simp
  also have "put (Suc i) (drop (Suc i) p) (out[i := ?b]) = put i (drop i p) out"
    using i Suc.prems(2) by (simp add: put_update d)
  finally show ?case .
qed

lemma guestlog_decode_line:
  assumes "length p \<le> GUESTLOG_MAX_PAYLOAD" "length p \<le> length out"
  shows "guestlog_decode (line_of p) out = (put 0 p out, Some (length p))"
proof -
  have "slice (line_of p) 10 (2 * length p) = hex_of p"
    by (simp add: line_of_def slice_def)
  moreover have "line_of p ! (10 + 2 * length p) = 0x0A" "take 10 (line_of p) = GUESTLOG_PREFIX"
    by (simp_all add: line_of_def nth_append)
  ultimately show ?thesis
    using assms hex_read_hex[of 0 "length p" p out]
    by (simp add: guestlog_decode_def frame_len_eq Let_def)
qed

lemma line_payload_line: "length p \<le> GUESTLOG_MAX_PAYLOAD \<Longrightarrow> line_payload (line_of p) = p"
  by (simp add: line_payload_def guestlog_decode_line put_def)

section \<open>The emitter\<close>

text \<open>
  What a console reached from \<open>con\<close> by pushing the bytes \<open>bs\<close> looks like: lines of non-empty
  payloads, and a pending rest that is shorter than a full line.
\<close>

definition logged :: "bytes \<Rightarrow> bytes \<Rightarrow> kg_log \<times> bytes \<Rightarrow> bool" where
  "logged con bs lc \<longleftrightarrow> length (log_buf (fst lc)) = GUESTLOG_MAX_PAYLOAD \<and> log_len (fst lc) < GUESTLOG_MAX_PAYLOAD \<and>
     (\<exists>ps. (\<forall>p\<in>set ps. p \<noteq> [] \<and> length p \<le> GUESTLOG_MAX_PAYLOAD) \<and> snd lc = con @ concat (map line_of ps) \<and>
        concat ps @ take (log_len (fst lc)) (log_buf (fst lc)) = bs)"

lemma flush_eq:
  assumes "length (log_buf l) = GUESTLOG_MAX_PAYLOAD" "log_len l \<le> GUESTLOG_MAX_PAYLOAD" "log_len l \<noteq> 0"
  shows "kg_log_flush (l, con) = (l\<lparr>log_len := 0\<rparr>, con @ line_of (take (log_len l) (log_buf l)))"
  using assms by (simp add: kg_log_flush_def guestlog_encode_eq GUESTLOG_MAX_FRAME_def frame_len_eq put_def)

lemma logged_flush:
  assumes "length (log_buf l) = GUESTLOG_MAX_PAYLOAD" "log_len l \<le> GUESTLOG_MAX_PAYLOAD"
    and "\<forall>p\<in>set ps. p \<noteq> [] \<and> length p \<le> GUESTLOG_MAX_PAYLOAD"
    and "concat ps @ take (log_len l) (log_buf l) = bs"
  shows "logged con bs (kg_log_flush (l, con @ concat (map line_of ps)))"
    "log_len (fst (kg_log_flush (l, con @ concat (map line_of ps)))) = 0"
proof -
  let ?p = "take (log_len l) (log_buf l)"
  have "logged con bs (kg_log_flush (l, con @ concat (map line_of ps))) \<and>
    log_len (fst (kg_log_flush (l, con @ concat (map line_of ps)))) = 0"
  proof (cases "log_len l = 0")
    case True
    then show ?thesis
      using assms by (auto simp: kg_log_flush_def logged_def GUESTLOG_MAX_PAYLOAD_def)
  next
    case False
    have "?p \<noteq> []" "length ?p \<le> GUESTLOG_MAX_PAYLOAD"
      using assms False by (auto simp: GUESTLOG_MAX_PAYLOAD_def)
    then show ?thesis
      using assms False
      by (auto simp: flush_eq logged_def GUESTLOG_MAX_PAYLOAD_def intro!: exI[of _ "ps @ [?p]"])
  qed
  then show "logged con bs (kg_log_flush (l, con @ concat (map line_of ps)))"
    "log_len (fst (kg_log_flush (l, con @ concat (map line_of ps)))) = 0"
    by blast+
qed

lemma logged_push:
  assumes "logged con bs lc"
  shows "logged con (bs @ [b]) (kg_log_push b lc)"
proof -
  obtain l con' where lc: "lc = (l, con')" by (cases lc)
  obtain ps where ps: "\<forall>p\<in>set ps. p \<noteq> [] \<and> length p \<le> GUESTLOG_MAX_PAYLOAD" "con' = con @ concat (map line_of ps)"
    "concat ps @ take (log_len l) (log_buf l) = bs" and l: "length (log_buf l) = GUESTLOG_MAX_PAYLOAD"
    "log_len l < GUESTLOG_MAX_PAYLOAD"
    using assms by (auto simp: logged_def lc)
  define l' where "l' = l\<lparr>log_buf := (log_buf l)[log_len l := b], log_len := log_len l + 1\<rparr>"
  have t: "take (log_len l') (log_buf l') = take (log_len l) (log_buf l) @ [b]"
    using l by (simp add: l'_def take_Suc_conv_app_nth)
  have l': "length (log_buf l') = GUESTLOG_MAX_PAYLOAD" "log_len l' \<le> GUESTLOG_MAX_PAYLOAD"
    using l by (simp_all add: l'_def)
  have bs: "concat ps @ take (log_len l') (log_buf l') = bs @ [b]"
    using ps(3) by (simp add: t flip: append_assoc)
  have push: "kg_log_push b lc = (if b = 0x0A \<or> log_len l' \<ge> GUESTLOG_MAX_PAYLOAD then kg_log_flush (l', con') else (l', con'))"
    using l(2) by (simp add: kg_log_push_def lc l'_def)
  show ?thesis
  proof (cases "b = 0x0A \<or> log_len l' \<ge> GUESTLOG_MAX_PAYLOAD")
    case True
    then show ?thesis
      using logged_flush(1)[OF l' ps(1) bs] by (simp add: push ps(2))
  next
    case False
    then show ?thesis
      using l' ps(1,2) bs by (auto simp: push logged_def)
  qed
qed

lemma logged_start: "length (log_buf l) = GUESTLOG_MAX_PAYLOAD \<Longrightarrow> logged con [] (kg_log_reset l, con)"
  by (auto simp: logged_def kg_log_reset_def GUESTLOG_MAX_PAYLOAD_def intro: exI[of _ "[]"])

lemma logged_pushes: "logged con bs lc \<Longrightarrow> logged con (bs @ cs) (fold kg_log_push cs lc)"
proof (induction cs arbitrary: bs lc)
  case (Cons c cs)
  then show ?case
    using Cons.IH[OF logged_push[OF Cons.prems, of c]] by simp
qed simp

lemma logged_flushed:
  assumes "logged con bs lc"
  shows "logged con bs (kg_log_flush lc)" "log_len (fst (kg_log_flush lc)) = 0"
proof -
  obtain l con' ps where "lc = (l, con')" "length (log_buf l) = GUESTLOG_MAX_PAYLOAD" "log_len l \<le> GUESTLOG_MAX_PAYLOAD"
    "\<forall>p\<in>set ps. p \<noteq> [] \<and> length p \<le> GUESTLOG_MAX_PAYLOAD" "concat ps @ take (log_len l) (log_buf l) = bs"
    "con' = con @ concat (map line_of ps)"
    using assms by (cases lc) (auto simp: logged_def)
  then show "logged con bs (kg_log_flush lc)" "log_len (fst (kg_log_flush lc)) = 0"
    using logged_flush[of l ps bs con] by simp_all
qed

section \<open>Reading the console\<close>

lemma split_lines_Nil [simp]: "split_lines xs = [] \<longleftrightarrow> xs = []"
  by (cases xs) (auto split: list.splits)

lemma split_lines_append: "xs = [] \<or> last xs = 0x0A \<Longrightarrow> split_lines (xs @ ys) = split_lines xs @ split_lines ys"
  by (induction xs) (auto split: list.splits if_splits)

lemma split_lines_line: "0x0A \<notin> set xs \<Longrightarrow> split_lines (xs @ [0x0A]) = [xs @ [0x0A]]"
  by (induction xs) auto

lemma hex_of_inert: "\<forall>c\<in>set (hex_of p). is_hex_lower c \<and> c \<noteq> 0x0A"
proof (induction p)
  case Nil
  show ?case by (simp add: hex_of_def)
qed (auto simp: hex_of_Cons hex_digit_lower nibbles)

lemma split_line_of: "split_lines (line_of p) = [line_of p]"
proof -
  have "0x0A \<notin> set GUESTLOG_PREFIX"
    by (simp add: GUESTLOG_PREFIX_def)
  then have "0x0A \<notin> set (GUESTLOG_PREFIX @ hex_of p)"
    using hex_of_inert by auto
  then show ?thesis
    unfolding line_of_def append_assoc[symmetric] by (rule split_lines_line)
qed

lemma split_lines_of: "split_lines (concat (map line_of ps)) = map line_of ps"
proof (induction ps)
  case (Cons p ps)
  have "last (line_of p) = 0x0A" by (simp add: line_of_def)
  then show ?case
    using Cons by (simp add: split_lines_append split_line_of)
qed simp

text \<open>
  C36: The guest's console output is framed losslessly and cannot imitate a host line. Whatever
  bytes the guest writes, from a reset line buffer and after any complete host lines, the
  console after the final flush consists of the host's lines and lines that are the prefix,
  lowercase hex digits and a terminator; decoding exactly those lines and joining the payloads
  gives the bytes the guest wrote.
\<close>

theorem guestlog_stream:
  assumes "length (log_buf l) = GUESTLOG_MAX_PAYLOAD" "con = [] \<or> last con = 0x0A"
    and "kg_log_flush (fold kg_log_push bs (kg_log_reset l, con)) = (l', con')"
  shows "\<exists>ps. split_lines con' = split_lines con @ map line_of ps \<and> concat (map line_payload (map line_of ps)) = bs \<and>
    read_guestlog con' = read_guestlog con @ bs \<and> log_len l' = 0 \<and>
    (\<forall>ln\<in>set (map line_of ps). \<exists>hex. ln = GUESTLOG_PREFIX @ hex @ [0x0A] \<and> list_all is_hex_lower hex)"
proof -
  have lg: "logged con bs (kg_log_flush (fold kg_log_push bs (kg_log_reset l, con)))"
    "log_len (fst (kg_log_flush (fold kg_log_push bs (kg_log_reset l, con)))) = 0"
    using logged_flushed[OF logged_pushes[OF logged_start[OF assms(1)]]] by simp_all
  then obtain ps where ps: "\<forall>p\<in>set ps. p \<noteq> [] \<and> length p \<le> GUESTLOG_MAX_PAYLOAD"
    "con' = con @ concat (map line_of ps)" "concat ps = bs" and len: "log_len l' = 0"
    using assms(3) by (auto simp: logged_def)
  have sp: "split_lines con' = split_lines con @ map line_of ps"
    using ps(2) assms(2) by (simp add: split_lines_append split_lines_of)
  have pay: "map line_payload (map line_of ps) = ps"
    using ps(1) by (simp add: line_payload_line map_idI)
  have "\<forall>ln\<in>set (map line_of ps). \<exists>hex. ln = GUESTLOG_PREFIX @ hex @ [0x0A] \<and> list_all is_hex_lower hex"
    using hex_of_inert by (auto simp: line_of_def list_all_iff)
  then show ?thesis
    using sp pay ps(3) len by (intro exI[of _ ps]) (simp add: read_guestlog_def)
qed

theorem guestlog_stream_witness:
  "read_guestlog (snd (kg_log_flush (fold kg_log_push [0x4D, 0x0A, 0x3A] (kg_log_reset kg_log_new, [])))) = [0x4D, 0x0A, 0x3A]"
proof -
  obtain l' con' where r: "kg_log_flush (fold kg_log_push [0x4D, 0x0A, 0x3A] (kg_log_reset kg_log_new, [])) = (l', con')"
    by (cases "kg_log_flush (fold kg_log_push [0x4D, 0x0A, 0x3A] (kg_log_reset kg_log_new, []))")
  have "read_guestlog con' = read_guestlog [] @ [0x4D, 0x0A, 0x3A]"
    using guestlog_stream[OF _ _ r] by (auto simp: kg_log_new_def)
  then show ?thesis
    unfolding r by (simp add: read_guestlog_def)
qed

end
