(* ===== verification/Tpsched.thy ===== *)
theory Tpsched
  imports Prov
begin

text \<open>
  The two-slot time-partition scheduler: the frame arithmetic and the decision codec of
  \<open>tb-encode/src/tpsched.rs\<close>, and the decision state of \<open>arch/aarch64/tpsched_hal.rs\<close> (the
  cell block \<open>SchedCtx\<close> as a record with one field per cell group, the slot switch, the
  running hash of the decisions). The lemmas give the state after any number of switches:
  strict alternation, the frame count, the observed order and the head of the decision chain.
\<close>

section \<open>The frame plan\<close>

definition N_SLOTS :: nat where "N_SLOTS = 2"
definition MIN_SLOT_TICKS :: u64 where "MIN_SLOT_TICKS = 1"

record frame_plan =
  fp_slot_ticks :: "u64 list"
  fp_vmid :: "u16 list"

definition next_slot :: "nat \<Rightarrow> nat" where
  "next_slot current = (if current \<ge> N_SLOTS then 0 else (current + 1) mod N_SLOTS)"

definition slot_deadline_delta :: "frame_plan \<Rightarrow> nat \<Rightarrow> u64" where
  "slot_deadline_delta plan slot = (if slot \<ge> N_SLOTS then MIN_SLOT_TICKS
     else let t = fp_slot_ticks plan ! slot in if t < MIN_SLOT_TICKS then MIN_SLOT_TICKS else t)"

definition frame_total :: "frame_plan \<Rightarrow> u64" where
  "frame_total plan = fold (\<lambda>s acc. saturating_add acc (slot_deadline_delta plan s)) [0..<N_SLOTS] 0"

section \<open>Decisions\<close>

record sched_decision =
  sd_frame_seq :: u64
  sd_slot :: u8
  sd_vmid_from :: u16
  sd_vmid_to :: u16
  sd_t_logical :: u64

definition SCHED_CANON_LEN :: nat where "SCHED_CANON_LEN = 8 + 1 + 2 + 2 + 8"
definition OFF_FRAME_SEQ :: nat where "OFF_FRAME_SEQ = 0"
definition OFF_SLOT :: nat where "OFF_SLOT = 8"
definition OFF_VMID_FROM :: nat where "OFF_VMID_FROM = 9"
definition OFF_VMID_TO :: nat where "OFF_VMID_TO = 11"
definition OFF_TLOGICAL :: nat where "OFF_TLOGICAL = 13"

definition sched_canon_len :: "sched_decision \<Rightarrow> nat" where
  "sched_canon_len d = SCHED_CANON_LEN"

definition sched_canon :: "sched_decision \<Rightarrow> bytes \<Rightarrow> bytes \<times> nat" where
  "sched_canon d out = (if length out < SCHED_CANON_LEN then (out, 0)
     else let
       out = put OFF_FRAME_SEQ (le_bytes 8 (sd_frame_seq d)) out;
       out = put OFF_TLOGICAL (le_bytes 8 (sd_t_logical d)) out;
       out = out[OFF_SLOT := sd_slot d];
       out = put OFF_VMID_FROM (le_bytes 2 (sd_vmid_from d)) out;
       out = put OFF_VMID_TO (le_bytes 2 (sd_vmid_to d)) out
     in (out, SCHED_CANON_LEN))"

definition sched_decode :: "bytes \<Rightarrow> sched_decision option" where
  "sched_decode buf = (if length buf < SCHED_CANON_LEN then None
     else Some \<lparr>sd_frame_seq = of_le_bytes (slice buf OFF_FRAME_SEQ 8), sd_slot = buf ! OFF_SLOT,
       sd_vmid_from = of_le_bytes (slice buf OFF_VMID_FROM 2), sd_vmid_to = of_le_bytes (slice buf OFF_VMID_TO 2),
       sd_t_logical = of_le_bytes (slice buf OFF_TLOGICAL 8)\<rparr>)"

section \<open>The decision cells\<close>

definition K_MAX_FRAMES :: u64 where "K_MAX_FRAMES = 8"
definition MAX_YIELDS :: nat where "MAX_YIELDS = 16"
definition CNTHP_PPI :: u32 where "CNTHP_PPI = 26"
definition K_SMOKE_TICKS :: u64 where "K_SMOKE_TICKS = 4"
definition EOI_HARD_CAP :: u64 where "EOI_HARD_CAP = 4 * K_MAX_FRAMES"
definition TMODE_OFF :: u64 where "TMODE_OFF = 0"
definition TMODE_SMOKE :: u64 where "TMODE_SMOKE = 1"
definition TMODE_PREEMPT :: u64 where "TMODE_PREEMPT = 2"

record sched_ctx =
  sc_armed :: u64
  sc_cur_slot :: u64
  sc_frames_done :: u64
  sc_yields_done :: u64
  sc_vmid :: "u64 list"
  sc_vttbr :: "u64 list"
  sc_entry_pc :: "u64 list"
  sc_slot_ticks :: "u64 list"
  sc_frame_seq :: u64
  sc_tlogical :: u64
  sc_head :: "u64 list"
  sc_order :: "u64 list"
  sc_eoi :: u64
  sc_tmode :: u64

definition sched_ctx_new :: sched_ctx where
  "sched_ctx_new = \<lparr>sc_armed = 0, sc_cur_slot = 0, sc_frames_done = 0, sc_yields_done = 0, sc_vmid = [0, 0],
     sc_vttbr = [0, 0], sc_entry_pc = [0, 0], sc_slot_ticks = [0, 0], sc_frame_seq = 0, sc_tlogical = 0,
     sc_head = [0, 0, 0, 0], sc_order = replicate MAX_YIELDS 0, sc_eoi = 0, sc_tmode = 0\<rparr>"

definition set_sched_context :: "frame_plan \<Rightarrow> u64 \<Rightarrow> u64 \<Rightarrow> u64 \<Rightarrow> u64 \<Rightarrow> sched_ctx \<Rightarrow> sched_ctx" where
  "set_sched_context plan vttbr0 vttbr1 entry0 entry1 c = c\<lparr>sc_armed := 1, sc_cur_slot := 0, sc_frames_done := 0,
     sc_yields_done := 0, sc_vmid := [ucast (fp_vmid plan ! 0), ucast (fp_vmid plan ! 1)], sc_vttbr := [vttbr0, vttbr1],
     sc_entry_pc := [entry0, entry1], sc_slot_ticks := [slot_deadline_delta plan 0, slot_deadline_delta plan 1],
     sc_frame_seq := 0, sc_tlogical := 0, sc_eoi := 0, sc_tmode := TMODE_OFF, sc_head := [0, 0, 0, 0],
     sc_order := replicate MAX_YIELDS 0\<rparr>"

definition current_slot :: "sched_ctx \<Rightarrow> nat" where
  "current_slot c = unat (sc_cur_slot c) mod N_SLOTS"

definition vttbr_for :: "sched_ctx \<Rightarrow> nat \<Rightarrow> u64" where
  "vttbr_for c slot = sc_vttbr c ! (slot mod N_SLOTS)"

definition entry_pc_for :: "sched_ctx \<Rightarrow> nat \<Rightarrow> u64" where
  "entry_pc_for c slot = sc_entry_pc c ! (slot mod N_SLOTS)"

definition vmid_for :: "sched_ctx \<Rightarrow> nat \<Rightarrow> u64" where
  "vmid_for c slot = sc_vmid c ! (slot mod N_SLOTS)"

definition slot_ticks :: "sched_ctx \<Rightarrow> nat \<Rightarrow> u64" where
  "slot_ticks c slot = sc_slot_ticks c ! (slot mod N_SLOTS)"

definition order_at :: "sched_ctx \<Rightarrow> nat \<Rightarrow> u64" where
  "order_at c i = (if i \<ge> MAX_YIELDS then - 1 else sc_order c ! i)"

definition head_bytes :: "sched_ctx \<Rightarrow> bytes" where
  "head_bytes c = concat (map (\<lambda>l. le_bytes 8 (sc_head c ! l)) [0..<4])"

definition store_head :: "bytes \<Rightarrow> sched_ctx \<Rightarrow> sched_ctx" where
  "store_head h c = c\<lparr>sc_head := map (\<lambda>l. of_le_bytes (slice h (l * 8) 8)) [0..<4]\<rparr>"

definition note_eoi :: "sched_ctx \<Rightarrow> sched_ctx \<times> u64" where
  "note_eoi c = (let n = sc_eoi c + 1 in (c\<lparr>sc_eoi := n\<rparr>, n))"

definition reset_eoi :: "sched_ctx \<Rightarrow> sched_ctx" where
  "reset_eoi c = c\<lparr>sc_eoi := 0\<rparr>"

definition set_timer_mode :: "u64 \<Rightarrow> sched_ctx \<Rightarrow> sched_ctx" where
  "set_timer_mode m c = c\<lparr>sc_tmode := m\<rparr>"

definition trace_order :: "u64 \<Rightarrow> sched_ctx \<Rightarrow> sched_ctx" where
  "trace_order vmid_from c = (let yi = unat (sc_yields_done c) in
     if yi < MAX_YIELDS then c\<lparr>sc_order := (sc_order c)[yi := vmid_from]\<rparr> else c)"

definition fold_decision :: "sched_decision \<Rightarrow> sched_ctx \<Rightarrow> sched_ctx" where
  "fold_decision d c = (case sched_canon d (replicate SCHED_CANON_LEN 0) of (scratch, n) \<Rightarrow>
     if n = SCHED_CANON_LEN then store_head (chain_mix (head_bytes c) (prov_hash (take n scratch))) c else c)"

definition bump_counters :: "nat \<Rightarrow> nat \<Rightarrow> sched_ctx \<Rightarrow> sched_ctx" where
  "bump_counters cur nxt c = (let
     c = c\<lparr>sc_yields_done := sc_yields_done c + 1, sc_tlogical := sc_tlogical c + slot_ticks c cur\<rparr>
   in if nxt = 0 then c\<lparr>sc_frames_done := sc_frames_done c + 1, sc_frame_seq := sc_frame_seq c + 1\<rparr> else c)"

definition note_switch :: "sched_ctx \<Rightarrow> sched_ctx \<times> nat \<times> u64 \<times> u64" where
  "note_switch c = (let
     cur = current_slot c;
     nxt = next_slot cur;
     vmid_from = vmid_for c cur;
     vmid_to = vmid_for c nxt;
     d = \<lparr>sd_frame_seq = sc_frame_seq c, sd_slot = word_of_nat nxt, sd_vmid_from = ucast vmid_from,
          sd_vmid_to = ucast vmid_to, sd_t_logical = sc_tlogical c\<rparr>;
     c = (bump_counters cur nxt (fold_decision d (trace_order vmid_from c)))\<lparr>sc_cur_slot := word_of_nat nxt\<rparr>
   in (c, nxt, vttbr_for c nxt, entry_pc_for c nxt))"

section \<open>The codec\<close>

definition sched_bytes :: "sched_decision \<Rightarrow> bytes" where
  "sched_bytes d = le_bytes 8 (sd_frame_seq d) @ [sd_slot d] @ le_bytes 2 (sd_vmid_from d) @
     le_bytes 2 (sd_vmid_to d) @ le_bytes 8 (sd_t_logical d)"

lemmas sched_offsets = SCHED_CANON_LEN_def OFF_FRAME_SEQ_def OFF_SLOT_def OFF_VMID_FROM_def OFF_VMID_TO_def OFF_TLOGICAL_def

lemma length_sched_bytes [simp]: "length (sched_bytes d) = 21"
  by (simp add: sched_bytes_def)

lemma sched_canon_eq:
  "sched_canon d out = (if length out < 21 then (out, 0) else (sched_bytes d @ drop 21 out, 21))"
proof -
  have "(put 13 (le_bytes 8 (sd_t_logical d)) (put 0 (le_bytes 8 (sd_frame_seq d)) out))[8 := sd_slot d] =
      le_bytes 8 (sd_frame_seq d) @ sd_slot d # take 4 (drop 9 out) @ le_bytes 8 (sd_t_logical d) @ drop 21 out"
    if "21 \<le> length out"
  proof -
    have d8: "drop 8 out = out ! 8 # take 4 (drop 9 out) @ drop 13 out"
      using that Cons_nth_drop_Suc[of 8 out] append_take_drop_id[of 4 "drop 9 out"] by simp
    show ?thesis
      using that by (simp add: put_def d8 list_update_append)
  qed
  then show ?thesis
    by (simp add: sched_canon_def sched_offsets Let_def sched_bytes_def put_def)
qed

interpretation sched_codec: codec sched_bytes sched_decode "\<lambda>_. True"
proof
  show "sched_decode (sched_bytes r @ rest) = Some r" for r rest
    by (simp add: sched_decode_def sched_offsets sched_bytes_def slice_def nth_append)
  show "\<exists>rest. bs = sched_bytes r @ rest" if "sched_decode bs = Some r" for bs r
  proof -
    have l: "21 \<le> length bs" and r: "r = \<lparr>sd_frame_seq = of_le_bytes (slice bs 0 8), sd_slot = bs ! 8,
       sd_vmid_from = of_le_bytes (slice bs 9 2), sd_vmid_to = of_le_bytes (slice bs 11 2),
       sd_t_logical = of_le_bytes (slice bs 13 8)\<rparr>"
      using that by (auto simp: sched_decode_def sched_offsets split: if_splits)
    have "bs = slice bs 0 8 @ slice bs 8 1 @ slice bs 9 2 @ slice bs 11 2 @ slice bs 13 8 @ drop 21 bs"
      by (simp add: slice_drop)
    moreover have "slice bs 8 1 = [bs ! 8]"
      using l slice_Suc[of 8 bs 0] by simp
    ultimately have "bs = sched_bytes r @ drop 21 bs"
      using l by (simp add: sched_bytes_def r slice_def)
    then show ?thesis ..
  qed
qed simp

lemma head_store:
  assumes "length h = 32"
  shows "head_bytes (store_head h c) = h"
proof -
  have "h = slice h 0 8 @ slice h 8 8 @ slice h 16 8 @ slice h 24 8 @ drop 32 h"
    by (simp add: slice_drop)
  moreover have "[0..<4] = [0, 1, 2, 3 :: nat]"
    by (simp add: upt_rec)
  ultimately show ?thesis
    using assms by (simp add: head_bytes_def store_head_def slice_def)
qed

section \<open>The state after any number of switches\<close>

fun plan_clock :: "frame_plan \<Rightarrow> nat \<Rightarrow> u64" where
  "plan_clock plan 0 = 0"
| "plan_clock plan (Suc k) = plan_clock plan k + slot_deadline_delta plan (k mod 2)"

definition plan_decision :: "frame_plan \<Rightarrow> nat \<Rightarrow> sched_decision" where
  "plan_decision plan k = \<lparr>sd_frame_seq = word_of_nat (k div 2), sd_slot = word_of_nat (Suc k mod 2),
     sd_vmid_from = fp_vmid plan ! (k mod 2), sd_vmid_to = fp_vmid plan ! (Suc k mod 2), sd_t_logical = plan_clock plan k\<rparr>"

definition plan_ids :: "frame_plan \<Rightarrow> nat \<Rightarrow> bytes list" where
  "plan_ids plan n = map (\<lambda>k. uhash (sched_bytes (plan_decision plan k))) [0..<n]"

definition plan_head :: "frame_plan \<Rightarrow> nat \<Rightarrow> bytes" where
  "plan_head plan n = chain_head uhash MIX_DOMAIN genesis (plan_ids plan n)"

definition sched_at :: "frame_plan \<Rightarrow> u64 list \<Rightarrow> u64 list \<Rightarrow> nat \<Rightarrow> sched_ctx \<Rightarrow> bool" where
  "sched_at plan vts es n c \<longleftrightarrow> sc_cur_slot c = word_of_nat (n mod 2) \<and> sc_frames_done c = word_of_nat (n div 2) \<and>
     sc_yields_done c = word_of_nat n \<and> sc_vmid c = [ucast (fp_vmid plan ! 0), ucast (fp_vmid plan ! 1)] \<and>
     sc_vttbr c = vts \<and> sc_entry_pc c = es \<and>
     sc_slot_ticks c = [slot_deadline_delta plan 0, slot_deadline_delta plan 1] \<and>
     sc_frame_seq c = word_of_nat (n div 2) \<and> sc_tlogical c = plan_clock plan n \<and> head_bytes c = plan_head plan n \<and>
     sc_order c = map (\<lambda>i. if i < n then ucast (fp_vmid plan ! (i mod 2)) else 0) [0..<16]"

lemma plan_head_Suc: "plan_head plan (Suc n) = mix uhash MIX_DOMAIN (plan_head plan n) (uhash (sched_bytes (plan_decision plan n)))"
  by (simp add: plan_head_def plan_ids_def chain_head_append)

lemma length_plan_head: "length (plan_head plan n) = 32"
  unfolding plan_head_def by (rule prov.head_width) simp

lemma sched_at_start: "sched_at plan [v0, v1] [e0, e1] 0 (set_sched_context plan v0 v1 e0 e1 c)"
proof -
  have "map (\<lambda>i. if i < 0 then ucast (fp_vmid plan ! (i mod 2)) else 0) [0..<16] = (replicate 16 0 :: u64 list)"
    by (simp add: list_eq_iff_nth_eq)
  then show ?thesis
    by (simp add: sched_at_def set_sched_context_def plan_head_def plan_ids_def head_bytes_def MAX_YIELDS_def eval_nat_numeral)
qed

lemma vmid_cast: "ucast (ucast v :: u64) = v" for v :: u16
  by (rule bit_word_eqI) (auto simp: bit_simps)

lemma half_Suc: "Suc n div 2 = n div 2 + (if Suc n mod 2 = 0 then 1 else 0)"
  by (auto simp: div_Suc)

lemma nth_parity: "[f 0, f 1] ! (n mod 2) = f (n mod 2)"
  by (cases "n mod 2 = 0") (auto simp: not_mod_2_eq_0_eq_1)

lemma mod2_word: "unat (word_of_nat (n mod 2) :: u64) = n mod 2"
  by (simp add: unat_of_nat take_bit_nat_eq_self)

lemma order_step:
  assumes "n < 16"
  shows "(map (\<lambda>i. if i < n then f i else 0) [0..<16])[n := f n] = map (\<lambda>i. if i < Suc n then f i else (0 :: u64)) [0..<16]"
  using assms by (auto simp: list_eq_iff_nth_eq nth_list_update)

lemma fold_decision_eq:
  assumes "length (head_bytes c) = 32"
  shows "fold_decision d c = c\<lparr>sc_head := sc_head (fold_decision d c)\<rparr>"
    "head_bytes (fold_decision d c) = mix uhash MIX_DOMAIN (head_bytes c) (uhash (sched_bytes d))"
proof -
  have f: "fold_decision d c = store_head (chain_mix (head_bytes c) (prov_hash (sched_bytes d))) c"
    by (simp add: fold_decision_def sched_canon_eq SCHED_CANON_LEN_def)
  show "fold_decision d c = c\<lparr>sc_head := sc_head (fold_decision d c)\<rparr>"
    unfolding f by (simp add: store_head_def)
  show "head_bytes (fold_decision d c) = mix uhash MIX_DOMAIN (head_bytes c) (uhash (sched_bytes d))"
    unfolding f using assms head_store[of "chain_mix (head_bytes c) (prov_hash (sched_bytes d))" c]
    by (simp add: chain_mix_mix prov_hash_def mix_def)
qed

lemma sched_at_switch:
  assumes "sched_at plan vts es n c" "n < 2 ^ 63"
  shows "\<exists>c'. note_switch c = (c', Suc n mod 2, vts ! (Suc n mod 2), es ! (Suc n mod 2)) \<and> sched_at plan vts es (Suc n) c' \<and>
    sc_armed c' = sc_armed c \<and> sc_eoi c' = sc_eoi c \<and> sc_tmode c' = sc_tmode c"
proof -
  let ?v = "\<lambda>i. ucast (fp_vmid plan ! (i mod 2)) :: u64"
  have un: "unat (word_of_nat n :: u64) = n"
    using assms(2) by (simp add: unat_of_nat take_bit_nat_eq_self)
  have cur: "current_slot c = n mod 2" and nxt: "next_slot (n mod 2) = Suc n mod 2"
    using assms(1) mod2_word[of n] by (auto simp: sched_at_def current_slot_def next_slot_def N_SLOTS_def mod_Suc)
  have vm: "vmid_for c (n mod 2) = ?v n" "vmid_for c (Suc n mod 2) = ?v (Suc n)"
    using assms(1) nth_parity[of ?v n] nth_parity[of ?v "Suc n"]
    by (simp_all add: sched_at_def vmid_for_def N_SLOTS_def)
  define c1 where "c1 = trace_order (?v n) c"
  have ord: "sc_order c1 = map (\<lambda>i. if i < Suc n then ?v i else 0) [0..<16]" and c1: "c1 = c\<lparr>sc_order := sc_order c1\<rparr>"
    using assms(1) un order_step[of n ?v] by (auto simp: c1_def trace_order_def sched_at_def MAX_YIELDS_def Let_def)
  have hb: "head_bytes c1 = plan_head plan n"
    using assms(1) by (subst c1) (simp add: sched_at_def head_bytes_def)
  define c2 where "c2 = fold_decision (plan_decision plan n) c1"
  have c2: "c2 = c\<lparr>sc_order := sc_order c1, sc_head := sc_head c2\<rparr>" "head_bytes c2 = plan_head plan (Suc n)"
    using fold_decision_eq[of c1 "plan_decision plan n"] c1 hb
    by (simp_all add: c2_def length_plan_head plan_head_Suc)
  have tk: "slot_ticks c2 (n mod 2) = slot_deadline_delta plan (n mod 2)"
    using assms(1) nth_parity[of "slot_deadline_delta plan" n] by (subst c2(1)) (simp add: sched_at_def slot_ticks_def N_SLOTS_def)
  define c5 where "c5 = (bump_counters (n mod 2) (Suc n mod 2) c2)\<lparr>sc_cur_slot := word_of_nat (Suc n mod 2)\<rparr>"
  have dec: "\<lparr>sd_frame_seq = sc_frame_seq c, sd_slot = word_of_nat (Suc n mod 2), sd_vmid_from = ucast (?v n),
      sd_vmid_to = ucast (?v (Suc n)), sd_t_logical = sc_tlogical c\<rparr> = plan_decision plan n"
    using assms(1) by (simp add: sched_at_def plan_decision_def vmid_cast)
  have "note_switch c = (c5, Suc n mod 2, vttbr_for c5 (Suc n mod 2), entry_pc_for c5 (Suc n mod 2))"
    unfolding note_switch_def Let_def cur nxt vm dec c1_def[symmetric] c2_def[symmetric] c5_def[symmetric] ..
  moreover have f: "sc_vttbr c2 = sc_vttbr c" "sc_entry_pc c2 = sc_entry_pc c" "sc_armed c2 = sc_armed c" "sc_eoi c2 = sc_eoi c"
    "sc_tmode c2 = sc_tmode c" "sc_vmid c2 = sc_vmid c" "sc_slot_ticks c2 = sc_slot_ticks c" "sc_order c2 = sc_order c1"
    "sc_frames_done c2 = sc_frames_done c" "sc_yields_done c2 = sc_yields_done c" "sc_frame_seq c2 = sc_frame_seq c"
    "sc_tlogical c2 = sc_tlogical c"
    by (subst c2(1), simp)+
  moreover have "sched_at plan vts es (Suc n) c5"
    using assms(1) f c2(2) ord half_Suc[of n] tk
    by (simp add: c5_def bump_counters_def Let_def sched_at_def head_bytes_def)
  moreover have "sc_armed c5 = sc_armed c" "sc_eoi c5 = sc_eoi c" "sc_tmode c5 = sc_tmode c" "sc_vttbr c5 = vts" "sc_entry_pc c5 = es"
    using assms(1) f by (simp_all add: c5_def bump_counters_def Let_def sched_at_def)
  ultimately show ?thesis
    by (simp add: vttbr_for_def entry_pc_for_def N_SLOTS_def)
qed

end
