(* ===== verification/Paging.thy ===== *)
theory Paging
  imports Prelude
begin

text \<open>
  The translation-table algebra of \<open>tb-encode/src/paging.rs\<close> (index slices, entry composition,
  EPT and CR3 entries), \<open>tb-encode/src/stage2.rs\<close> (stage-2 descriptors, \<open>VTCR_EL2\<close>,
  \<open>VTTBR_EL2\<close>, the guest-RAM carve map) and \<open>tb-encode/src/vmx.rs\<close> (control-register
  adjustment), each function on the 64-bit words the code computes with. The lemmas read a
  composed descriptor back: its address field, its type bits and its attributes.
\<close>

section \<open>Table geometry and entries\<close>

definition ENTRIES :: nat where "ENTRIES = 512"
definition SHIFT_512G :: nat where "SHIFT_512G = 39"
definition SHIFT_1G :: nat where "SHIFT_1G = 30"
definition SHIFT_2M :: nat where "SHIFT_2M = 21"
definition SHIFT_4K :: nat where "SHIFT_4K = 12"
definition ENTRY_ADDR_MASK :: u64 where "ENTRY_ADDR_MASK = 0x0000FFFFFFFFF000"

definition level_index :: "u64 \<Rightarrow> nat \<Rightarrow> nat" where
  "level_index va shift = unat (drop_bit shift va AND (of_nat ENTRIES - 1))"

definition make_entry :: "u64 \<Rightarrow> u64 \<Rightarrow> u64" where
  "make_entry pa attrs = (pa AND ENTRY_ADDR_MASK) OR attrs"

definition entry_addr :: "u64 \<Rightarrow> u64" where
  "entry_addr entry = entry AND ENTRY_ADDR_MASK"

definition entry_is_valid :: "u64 \<Rightarrow> bool" where
  "entry_is_valid entry \<longleftrightarrow> entry AND 1 \<noteq> 0"

section \<open>EPT and CR3 entries\<close>

definition EPT_RWX :: u64 where "EPT_RWX = 7"
definition EPT_MAPS_PAGE :: u64 where "EPT_MAPS_PAGE = push_bit 7 1"
definition EPT_MEMTYPE_WB :: u64 where "EPT_MEMTYPE_WB = 6"
definition EPT_WALK_LEN_MINUS_1 :: u64 where "EPT_WALK_LEN_MINUS_1 = 3"
definition PTE_P_RW :: u64 where "PTE_P_RW = 3"
definition PTE_PS :: u64 where "PTE_PS = push_bit 7 1"

definition ept_leaf_2mib :: "u64 \<Rightarrow> u64 \<Rightarrow> u64" where
  "ept_leaf_2mib pa memtype = pa OR EPT_RWX OR push_bit 3 (memtype AND 7) OR EPT_MAPS_PAGE"

definition ept_nonleaf :: "u64 \<Rightarrow> u64" where
  "ept_nonleaf child = child OR EPT_RWX"

definition eptp :: "u64 \<Rightarrow> u64" where
  "eptp pml4 = pml4 OR EPT_MEMTYPE_WB OR push_bit 3 EPT_WALK_LEN_MINUS_1"

definition std_table :: "u64 \<Rightarrow> u64" where
  "std_table child = child OR PTE_P_RW"

definition std_leaf_2mib :: "u64 \<Rightarrow> u64" where
  "std_leaf_2mib pa = pa OR PTE_P_RW OR PTE_PS"

section \<open>VMX control words\<close>

definition adjust :: "u32 \<Rightarrow> u64 \<Rightarrow> u32" where
  "adjust desired cap_msr = (let allowed0 = ucast cap_msr; allowed1 = ucast (drop_bit 32 cap_msr)
     in (desired OR allowed0) AND allowed1)"

definition clamp_fixed :: "u64 \<Rightarrow> u64 \<Rightarrow> u64 \<Rightarrow> u64" where
  "clamp_fixed desired fixed0 fixed1 = (fixed0 OR desired) AND fixed1"

definition decode_tss_base :: "u64 \<Rightarrow> u64 \<Rightarrow> u64" where
  "decode_tss_base lo hi = (drop_bit 16 lo AND 0x00FFFFFF) OR push_bit 24 (drop_bit 56 lo AND 0xFF)
     OR push_bit 32 (hi AND 0xFFFFFFFF)"

section \<open>Stage-2 descriptors and control registers\<close>

definition S2_DESC_BLOCK :: u64 where "S2_DESC_BLOCK = 1"
definition S2_DESC_PAGE :: u64 where "S2_DESC_PAGE = 3"
definition S2_DESC_TABLE :: u64 where "S2_DESC_TABLE = 3"
definition S2AP_RW :: u64 where "S2AP_RW = push_bit 6 3"
definition S2_MEMATTR_NORMAL_WB :: u64 where "S2_MEMATTR_NORMAL_WB = push_bit 2 15"
definition S2_MEMATTR_DEVICE :: u64 where "S2_MEMATTR_DEVICE = push_bit 2 0"
definition S2_SH_INNER :: u64 where "S2_SH_INNER = push_bit 8 3"
definition S2_AF :: u64 where "S2_AF = push_bit 10 1"

definition s2_leaf_2mib :: "u64 \<Rightarrow> u64 \<Rightarrow> u64" where
  "s2_leaf_2mib pa memattr = make_entry pa (S2_DESC_BLOCK OR S2_AF OR S2_SH_INNER OR S2AP_RW OR memattr)"

definition s2_leaf_4k :: "u64 \<Rightarrow> u64 \<Rightarrow> u64" where
  "s2_leaf_4k pa memattr = make_entry pa (S2_DESC_PAGE OR S2_AF OR S2_SH_INNER OR S2AP_RW OR memattr)"

definition s2_table :: "u64 \<Rightarrow> u64" where
  "s2_table child = make_entry child S2_DESC_TABLE"

definition VTCR_RES1 :: u64 where "VTCR_RES1 = push_bit 31 1"

definition vtcr :: "u64 \<Rightarrow> u64 \<Rightarrow> u64 \<Rightarrow> u64 \<Rightarrow> u64 \<Rightarrow> u64 \<Rightarrow> u64 \<Rightarrow> u64" where
  "vtcr t0sz sl0 tg0 ps sh0 orgn0 irgn0 = VTCR_RES1 OR (t0sz AND 0x3F) OR push_bit 6 (sl0 AND 3)
     OR push_bit 8 (irgn0 AND 3) OR push_bit 10 (orgn0 AND 3) OR push_bit 12 (sh0 AND 3)
     OR push_bit 14 (tg0 AND 3) OR push_bit 16 (ps AND 7)"

definition VTTBR_VMID_SHIFT :: nat where "VTTBR_VMID_SHIFT = 48"

definition vttbr :: "u64 \<Rightarrow> u64 \<Rightarrow> u64" where
  "vttbr root_pa vmid = make_entry root_pa (push_bit VTTBR_VMID_SHIFT (vmid AND 0xFFFF))"

definition vttbr_baddr :: "u64 \<Rightarrow> u64" where
  "vttbr_baddr vttbr_val = vttbr_val AND ENTRY_ADDR_MASK"

section \<open>The guest-RAM carve\<close>

definition GUEST_IPA_BASE :: u64 where "GUEST_IPA_BASE = 0x40000000"
definition GUEST_CARVE_PA :: u64 where "GUEST_CARVE_PA = 0x46000000"
definition GUEST_CARVE_SIZE :: u64 where "GUEST_CARVE_SIZE = 32 * 1024 * 1024"
definition GUEST_IMAGE_OFF :: u64 where "GUEST_IMAGE_OFF = 0x80000"
definition GUEST_DOORBELL_IPA :: u64 where "GUEST_DOORBELL_IPA = GUEST_IPA_BASE + GUEST_CARVE_SIZE"
definition GUEST_PROBE_PA :: u64 where "GUEST_PROBE_PA = GUEST_CARVE_PA - 0x1000"

definition guest_carve_pa :: "u64 \<Rightarrow> u64 option" where
  "guest_carve_pa ipa = (if ipa \<ge> GUEST_IPA_BASE \<and> ipa < GUEST_IPA_BASE + GUEST_CARVE_SIZE
     then Some (GUEST_CARVE_PA + (ipa - GUEST_IPA_BASE)) else None)"

lemmas carve_defs = GUEST_IPA_BASE_def GUEST_CARVE_PA_def GUEST_CARVE_SIZE_def GUEST_DOORBELL_IPA_def
  GUEST_PROBE_PA_def

section \<open>Reading entries back\<close>

lemma unat_and_511: "unat (x AND 511) = unat x mod 512" for x :: u64
proof -
  have "x AND 511 = take_bit 9 x"
    by (simp add: take_bit_eq_mask mask_eq_exp_minus_1)
  then have "unat (x AND 511) = take_bit 9 (unat x)"
    by (simp only: unsigned_take_bit_eq)
  then show ?thesis
    by (simp add: take_bit_eq_mod)
qed

lemma level_index_nat: "level_index va sh = unat va div 2 ^ sh mod 512"
proof -
  have "unat (drop_bit sh va) = unat va div 2 ^ sh"
    by (subst unsigned_drop_bit_eq) (simp add: drop_bit_eq_div take_bit_nat_eq_self u64_bound)
  then show ?thesis
    by (simp only: level_index_def ENTRIES_def) (simp add: unat_and_511)
qed

lemma level_index_less [simp]: "level_index va sh < 512"
  by (simp add: level_index_nat)

lemma addr_mask: "ENTRY_ADDR_MASK = push_bit 12 (mask 36)"
  by (simp add: ENTRY_ADDR_MASK_def mask_eq_exp_minus_1 push_bit_eq_mult)

lemma bit_addr_mask: "bit ENTRY_ADDR_MASK n \<longleftrightarrow> 12 \<le> n \<and> n < 48"
  by (auto simp: addr_mask bit_simps)

lemma aligned_no_low_bit:
  assumes "unat (pa :: u64) mod 2 ^ k = 0" "n < k"
  shows "\<not> bit pa n"
proof -
  have "take_bit k (unat pa) = 0"
    using assms(1) by (simp add: take_bit_eq_mod)
  then have "take_bit k pa = 0"
    by (simp add: word_unat_eq_iff unsigned_take_bit_eq)
  then show ?thesis
    using assms(2) by (metis bit_0_eq bit_take_bit_iff bot_apply bot_bool_def)
qed

lemma below_no_high_bit:
  assumes "unat (pa :: u64) < 2 ^ k" "k \<le> n"
  shows "\<not> bit pa n"
proof -
  have "take_bit k (unat pa) = unat pa"
    using assms(1) by (simp add: take_bit_nat_eq_self)
  then have "take_bit k pa = pa"
    by (simp add: word_unat_eq_iff unsigned_take_bit_eq)
  then show ?thesis
    using assms(2) by (metis bit_take_bit_iff not_le)
qed

text \<open>An address the 4 KiB-granule field can hold.\<close>

definition field_addr :: "u64 \<Rightarrow> bool" where
  "field_addr pa \<longleftrightarrow> unat pa mod 4096 = 0 \<and> unat pa < 2 ^ 48"

lemma field_addr_bit: "field_addr pa \<Longrightarrow> bit pa n \<Longrightarrow> 12 \<le> n \<and> n < 48"
  using aligned_no_low_bit[of pa 12 n] below_no_high_bit[of pa 48 n]
  by (simp add: field_addr_def) (meson not_le)

lemma entry_addr_make:
  assumes "field_addr pa" "attrs AND ENTRY_ADDR_MASK = 0"
  shows "entry_addr (make_entry pa attrs) = pa"
proof (rule bit_word_eqI)
  fix n
  have "\<not> (bit attrs n \<and> bit ENTRY_ADDR_MASK n)"
    using assms(2) by (metis bit_0_eq bit_and_iff bot_apply bot_bool_def)
  then show "bit (entry_addr (make_entry pa attrs)) n = bit pa n"
    using field_addr_bit[OF assms(1), of n]
    by (auto simp: entry_addr_def make_entry_def bit_simps bit_addr_mask)
qed

lemma make_entry_low_sub:
  assumes "ENTRY_ADDR_MASK AND c = 0"
  shows "make_entry pa attrs AND c = attrs AND c"
proof -
  have "make_entry pa attrs AND c = (pa AND (ENTRY_ADDR_MASK AND c)) OR (attrs AND c)"
    by (simp add: make_entry_def bit.conj_disj_distrib2 and.assoc)
  then show ?thesis
    by (simp add: assms)
qed

lemmas s2_consts = S2_DESC_BLOCK_def S2_DESC_PAGE_def S2_DESC_TABLE_def S2AP_RW_def S2_SH_INNER_def S2_AF_def
  S2_MEMATTR_NORMAL_WB_def S2_MEMATTR_DEVICE_def

lemma s2_table_facts:
  "entry_is_valid (s2_table c)" "s2_table c AND 3 = 3" "field_addr c \<Longrightarrow> entry_addr (s2_table c) = c"
  by (simp_all add: s2_table_def entry_is_valid_def make_entry_low_sub entry_addr_make s2_consts ENTRY_ADDR_MASK_def)

lemma s2_block_facts:
  assumes "memattr = S2_MEMATTR_NORMAL_WB \<or> memattr = S2_MEMATTR_DEVICE"
  shows "entry_is_valid (s2_leaf_2mib pa memattr)" "s2_leaf_2mib pa memattr AND 3 = 1"
    "s2_leaf_2mib pa memattr AND S2_AF = S2_AF" "s2_leaf_2mib pa memattr AND S2AP_RW = S2AP_RW"
    "field_addr pa \<Longrightarrow> entry_addr (s2_leaf_2mib pa memattr) = pa"
  using assms
  by (auto simp: s2_leaf_2mib_def entry_is_valid_def make_entry_low_sub entry_addr_make s2_consts
      ENTRY_ADDR_MASK_def)

lemma s2_page_facts:
  "entry_is_valid (s2_leaf_4k pa S2_MEMATTR_NORMAL_WB)" "s2_leaf_4k pa S2_MEMATTR_NORMAL_WB AND 3 = 3"
  "s2_leaf_4k pa S2_MEMATTR_NORMAL_WB AND S2_AF = S2_AF"
  "s2_leaf_4k pa S2_MEMATTR_NORMAL_WB AND S2AP_RW = S2AP_RW"
  "field_addr pa \<Longrightarrow> entry_addr (s2_leaf_4k pa S2_MEMATTR_NORMAL_WB) = pa"
  by (simp_all add: s2_leaf_4k_def entry_is_valid_def make_entry_low_sub entry_addr_make s2_consts
      ENTRY_ADDR_MASK_def)

lemma invalid_0 [simp]: "\<not> entry_is_valid 0"
  by (simp add: entry_is_valid_def)

text \<open>The root address survives the VMID, and the VMID is read back from the top bits.\<close>

lemma vttbr_fields:
  assumes "field_addr root"
  shows "vttbr_baddr (vttbr root vmid) = root" "drop_bit 48 (vttbr root vmid) = vmid AND 0xFFFF"
proof -
  have m: "0xFFFF = (mask 16 :: u64)"
    by (simp add: mask_eq_exp_minus_1)
  have low: "bit (vmid AND 0xFFFF) n \<longleftrightarrow> bit vmid n \<and> n < 16" for n
    unfolding m by (auto simp: bit_simps)
  have "push_bit 48 (vmid AND 0xFFFF) AND ENTRY_ADDR_MASK = 0"
    by (rule bit_word_eqI) (auto simp: bit_simps bit_addr_mask)
  then show "vttbr_baddr (vttbr root vmid) = root"
    using entry_addr_make[OF assms] by (simp add: vttbr_def vttbr_baddr_def entry_addr_def VTTBR_VMID_SHIFT_def)
  show "drop_bit 48 (vttbr root vmid) = vmid AND 0xFFFF"
  proof (rule bit_word_eqI)
    fix n
    have "bit (drop_bit 48 (vttbr root vmid)) n \<longleftrightarrow>
        bit (root AND ENTRY_ADDR_MASK) (48 + n) \<or> bit (push_bit 48 (vmid AND 0xFFFF)) (48 + n)"
      by (simp only: vttbr_def make_entry_def VTTBR_VMID_SHIFT_def bit_drop_bit_eq comp_apply bit_or_iff)
    also have "\<dots> \<longleftrightarrow> bit (vmid AND 0xFFFF) n"
      unfolding bit_and_iff[of root] bit_push_bit_iff bit_addr_mask low by auto
    finally show "bit (drop_bit 48 (vttbr root vmid)) n = bit (vmid AND 0xFFFF) n" .
  qed
qed

end
