(* ===== verification/Stage2.thy ===== *)
theory Stage2
  imports Pmm Paging
begin

text \<open>
  The stage-2 tables of \<open>tb-hal/src/arch/aarch64/stage2.rs\<close>: the builders that allocate and fill
  table frames, the demand map, the register values and the two stage-1 splices, over the
  allocator state and the physical memory of the frame allocator. A table slot is the
  8-byte word at \<open>table + 8 * index\<close>. Barriers and TLB maintenance do not change the model's
  memory and are left out; the model has one memory view for all exception levels.

  \<open>s2_walk\<close> is the reference the builders are measured against: the three-level walk of a 4 KiB
  granule with a 39-bit input, as the Arm architecture describes it and the module
  documentation of \<open>stage2.rs\<close> cites it. It models no code of the repository.
\<close>

section \<open>Geometry\<close>

definition HOLE_IPA :: u64 where "HOLE_IPA = 0x140000000"
definition VMID :: u64 where "VMID = 1"
definition BLOCK_2M :: u64 where "BLOCK_2M = 0x200000"
definition GIB0_DEVICE_BASE :: u64 where "GIB0_DEVICE_BASE = 0"
definition GIB1_RAM_BASE :: u64 where "GIB1_RAM_BASE = 0x40000000"
definition DEVICE_IPA :: u64 where "DEVICE_IPA = 0x1C0000000"
definition M27_DEVICE_IPA_0 :: u64 where "M27_DEVICE_IPA_0 = 0x240000000"
definition M27_DEVICE_IPA_1 :: u64 where "M27_DEVICE_IPA_1 = 0x280000000"
definition KGUEST_VMID :: u64 where "KGUEST_VMID = 2"
definition KGUEST_GIC_BLOCK :: u64 where "KGUEST_GIC_BLOCK = 0x08000000"
definition DEMAND_SEED :: u64 where "DEMAND_SEED = 0x53475F3253455256"

definition STAGE1_BLOCK_NORMAL :: u64 where
  "STAGE1_BLOCK_NORMAL = 1 OR push_bit 10 1 OR push_bit 8 3 OR push_bit 2 1"

definition compute_vtcr :: u64 where
  "compute_vtcr = vtcr 25 1 0 2 3 1 1"

definition compute_vttbr :: "u64 \<Rightarrow> u64" where
  "compute_vttbr root = vttbr root VMID"

definition compute_vttbr_vmid :: "u64 \<Rightarrow> u64 \<Rightarrow> u64" where
  "compute_vttbr_vmid root vmid = vttbr root vmid"

section \<open>Table frames\<close>

type_synonym world = "pmm_state \<times> memory"

definition slot :: "u64 \<Rightarrow> nat \<Rightarrow> u64" where
  "slot t i = t + word_of_nat (8 * i)"

definition s2_set :: "u64 \<Rightarrow> nat \<Rightarrow> u64 \<Rightarrow> memory \<Rightarrow> memory" where
  "s2_set table_pa idx desc m = m(slot table_pa idx := desc)"

definition fill :: "u64 \<Rightarrow> (nat \<Rightarrow> u64) \<Rightarrow> nat \<Rightarrow> memory \<Rightarrow> memory" where
  "fill t d n m = fold (\<lambda>i. s2_set t i (d i)) [0..<n] m"

definition frame_alloc_zeroed :: "world \<Rightarrow> world \<times> u64 option" where
  "frame_alloc_zeroed sm = (case frame_alloc sm of
     (sm', None) \<Rightarrow> (sm', None)
   | ((s, m), Some f) \<Rightarrow> ((s, fill f (\<lambda>_. 0) 512 m), Some f))"

text \<open>The \<open>?\<close> of the builders: a failed allocation ends the build, earlier frames stay taken.\<close>

definition with_frame :: "world \<Rightarrow> (world \<Rightarrow> u64 \<Rightarrow> world \<times> 'a option) \<Rightarrow> world \<times> 'a option" where
  "with_frame sm k = (case frame_alloc_zeroed sm of (sm', None) \<Rightarrow> (sm', None) | (sm', Some f) \<Rightarrow> k sm' f)"

definition prep_zeroed_frame :: "world \<Rightarrow> world \<times> u64 option" where
  "prep_zeroed_frame sm = frame_alloc_zeroed sm"

definition prep_demand_frame :: "world \<Rightarrow> world \<times> u64 option" where
  "prep_demand_frame sm = (case frame_alloc sm of
     (sm', None) \<Rightarrow> (sm', None)
   | ((s, m), Some f) \<Rightarrow> ((s, m(f := DEMAND_SEED)), Some f))"

section \<open>The builders\<close>

definition fill_identity :: "u64 \<Rightarrow> u64 \<Rightarrow> memory \<Rightarrow> memory" where
  "fill_identity l2_gib0 l2_gib1 m =
     fill l2_gib1 (\<lambda>i. s2_leaf_2mib (GIB1_RAM_BASE + word_of_nat i * BLOCK_2M) S2_MEMATTR_NORMAL_WB) 512
       (fill l2_gib0 (\<lambda>i. s2_leaf_2mib (GIB0_DEVICE_BASE + word_of_nat i * BLOCK_2M) S2_MEMATTR_DEVICE) 512 m)"

definition root_identity :: "u64 \<Rightarrow> u64 \<Rightarrow> u64 \<Rightarrow> memory \<Rightarrow> memory" where
  "root_identity root l2_gib0 l2_gib1 m =
     s2_set root (level_index GIB1_RAM_BASE SHIFT_1G) (s2_table l2_gib1)
       (s2_set root (level_index GIB0_DEVICE_BASE SHIFT_1G) (s2_table l2_gib0) m)"

definition build_identity_stage2 :: "world \<Rightarrow> world \<times> u64 option" where
  "build_identity_stage2 sm =
     with_frame sm (\<lambda>sm root. with_frame sm (\<lambda>sm l2_gib0. with_frame sm (\<lambda>sm l2_gib1.
     with_frame sm (\<lambda>sm l2_hole. with_frame sm (\<lambda>(s, m) l3_hole.
       let m1 = fill_identity l2_gib0 l2_gib1 m;
           m2 = root_identity root l2_gib0 l2_gib1 m1;
           m3 = s2_set root (level_index HOLE_IPA SHIFT_1G) (s2_table l2_hole) m2;
           m4 = s2_set l2_hole (level_index HOLE_IPA SHIFT_2M) (s2_table l3_hole) m3
       in ((s, m4), Some root))))))"

definition build_device_stage2 :: "world \<Rightarrow> world \<times> u64 option" where
  "build_device_stage2 sm =
     with_frame sm (\<lambda>sm root. with_frame sm (\<lambda>sm l2_gib0. with_frame sm (\<lambda>(s, m) l2_gib1.
       ((s, root_identity root l2_gib0 l2_gib1 (fill_identity l2_gib0 l2_gib1 m)), Some root))))"

definition build_identity_stage2_for_vmid :: "u64 \<Rightarrow> world \<Rightarrow> world \<times> u64 option" where
  "build_identity_stage2_for_vmid vmid sm = build_device_stage2 sm"

text \<open>The carve loop runs over the block offsets below \<open>GUEST_CARVE_SIZE\<close>.\<close>

definition carve_offsets :: "u64 list" where
  "carve_offsets = map (\<lambda>i. word_of_nat i * BLOCK_2M) [0..<unat (GUEST_CARVE_SIZE div BLOCK_2M)]"

fun map_carve :: "u64 \<Rightarrow> u64 list \<Rightarrow> memory \<Rightarrow> memory option" where
  "map_carve l2_gib1 [] m = Some m"
| "map_carve l2_gib1 (off # offs) m = (let ipa = GUEST_IPA_BASE + off in
     case guest_carve_pa ipa of
       Some pa \<Rightarrow> map_carve l2_gib1 offs
         (s2_set l2_gib1 (level_index ipa SHIFT_2M) (s2_leaf_2mib pa S2_MEMATTR_NORMAL_WB) m)
     | None \<Rightarrow> None)"

definition build_guest_stage2 :: "world \<Rightarrow> world \<times> u64 option" where
  "build_guest_stage2 sm =
     with_frame sm (\<lambda>sm root. with_frame sm (\<lambda>sm l2_gib0. with_frame sm (\<lambda>(s, m) l2_gib1.
       let m1 = s2_set l2_gib0 (level_index KGUEST_GIC_BLOCK SHIFT_2M)
             (s2_leaf_2mib KGUEST_GIC_BLOCK S2_MEMATTR_DEVICE) m
       in case map_carve l2_gib1 carve_offsets m1 of
            None \<Rightarrow> ((s, m1), None)
          | Some m2 \<Rightarrow> ((s, root_identity root l2_gib0 l2_gib1 m2), Some root))))"

section \<open>The demand map and the stage-1 splices\<close>

definition demand_map_ipa :: "u64 \<Rightarrow> u64 \<Rightarrow> u64 \<Rightarrow> memory \<Rightarrow> memory \<times> bool" where
  "demand_map_ipa root ipa pa m = (let e1 = m (slot root (level_index ipa SHIFT_1G)) in
     if \<not> entry_is_valid e1 then (m, False)
     else let e2 = m (slot (entry_addr e1) (level_index ipa SHIFT_2M)) in
       if \<not> entry_is_valid e2 then (m, False)
       else (s2_set (entry_addr e2) (level_index ipa SHIFT_4K) (s2_leaf_4k pa S2_MEMATTR_NORMAL_WB) m, True))"

definition install_stage1_block :: "u64 \<Rightarrow> u64 \<Rightarrow> memory \<Rightarrow> memory" where
  "install_stage1_block current_root device_ipa m =
     m(slot current_root (level_index device_ipa SHIFT_1G) := make_entry device_ipa STAGE1_BLOCK_NORMAL)"

definition install_stage1_hole_block :: "u64 \<Rightarrow> memory \<Rightarrow> memory" where
  "install_stage1_hole_block current_root m = install_stage1_block current_root HOLE_IPA m"

definition install_stage1_device_block :: "u64 \<Rightarrow> memory \<Rightarrow> memory" where
  "install_stage1_device_block current_root m = install_stage1_block current_root DEVICE_IPA m"

definition install_stage1_m27_block :: "u64 \<Rightarrow> u64 \<Rightarrow> memory \<Rightarrow> memory" where
  "install_stage1_m27_block current_root device_ipa m = install_stage1_block current_root device_ipa m"

section \<open>The reference walk\<close>

text \<open>
  A leaf translates when its access flag is set and it grants reads and writes; bits 1:0 are
  01 for a block, 11 for a table, or for a page at the last level.
\<close>

definition leaf_ok :: "u64 \<Rightarrow> bool" where
  "leaf_ok e \<longleftrightarrow> e AND S2_AF = S2_AF \<and> e AND S2AP_RW = S2AP_RW"

definition leaf_out :: "u64 \<Rightarrow> nat \<Rightarrow> u64 \<Rightarrow> u64 option" where
  "leaf_out e sh ipa = (if leaf_ok e
     then Some (word_of_nat (unat (entry_addr e) div 2 ^ sh * 2 ^ sh + unat ipa mod 2 ^ sh)) else None)"

definition s2_walk :: "memory \<Rightarrow> u64 \<Rightarrow> u64 \<Rightarrow> u64 option" where
  "s2_walk m root ipa = (if unat ipa \<ge> 2 ^ 39 then None else
     let e1 = m (slot root (level_index ipa 30)) in
     if \<not> entry_is_valid e1 then None else if e1 AND 3 = 1 then leaf_out e1 30 ipa else
     let e2 = m (slot (entry_addr e1) (level_index ipa 21)) in
     if \<not> entry_is_valid e2 then None else if e2 AND 3 = 1 then leaf_out e2 21 ipa else
     let e3 = m (slot (entry_addr e2) (level_index ipa 12)) in
     if e3 AND 3 = 3 then leaf_out e3 12 ipa else None)"

section \<open>Slots and frames\<close>

lemma unat_slot:
  assumes "aligned t" "i < 512"
  shows "unat (slot t i) = unat t + 8 * i"
proof -
  have "unat t + 4096 \<le> 2 ^ 64"
    using assms(1) u64_bound[of t] by (auto elim!: dvdE simp: mod_eq_0_iff_dvd)
  then have fits: "unat t + 8 * i < 2 ^ 64"
    using assms(2) by simp
  have "unat (word_of_nat k :: u64) = k" if "k < 4096" for k
    using that by (simp add: unat_of_nat take_bit_nat_eq_self)
  from this[of "8 * i"] have "unat (slot t i) = (unat t + 8 * i) mod 2 ^ 64"
    using assms(2) unfolding slot_def unat_word_ariths by simp
  then show ?thesis
    using fits by simp
qed

lemma frame_of_slot:
  assumes "aligned t" "i < 512"
  shows "align_down (slot t i) FRAME = t"
proof -
  have "unat (slot t i) div 4096 * 4096 = unat t"
    using assms by (auto simp: unat_slot mod_eq_0_iff_dvd elim!: dvdE)
  then show ?thesis
    by (simp add: word_unat_eq_iff unat_align_down)
qed

lemma slot_eq_iff:
  assumes "aligned t" "aligned t'" "i < 512" "j < 512"
  shows "slot t i = slot t' j \<longleftrightarrow> t = t' \<and> i = j"
proof
  assume eq: "slot t i = slot t' j"
  then have "t = t'"
    using frame_of_slot[OF assms(1,3)] frame_of_slot[OF assms(2,4)] by simp
  moreover have "unat t + 8 * i = unat t' + 8 * j"
    unfolding unat_slot[OF assms(1,3), symmetric] unat_slot[OF assms(2,4), symmetric] eq ..
  ultimately show "t = t' \<and> i = j" by simp
qed simp

lemma s2_set_slot:
  assumes "aligned t" "aligned t'" "i < 512" "j < 512"
  shows "s2_set t j d m (slot t' i) = (if t' = t \<and> i = j then d else m (slot t' i))"
  unfolding s2_set_def fun_upd_apply slot_eq_iff[OF assms(2,1,3,4)] ..

lemma s2_set_other:
  assumes "aligned t" "j < 512" "align_down a FRAME \<noteq> t"
  shows "s2_set t j d m a = m a"
proof -
  have "a \<noteq> slot t j"
    using frame_of_slot[OF assms(1,2)] assms(3) by metis
  then show ?thesis
    by (simp add: s2_set_def)
qed

lemma fill_Suc: "fill t d (Suc n) m = s2_set t n (d n) (fill t d n m)"
  by (simp add: fill_def)

lemma fill_slot:
  assumes "aligned t" "aligned t'" "i < 512" "n \<le> 512"
  shows "fill t d n m (slot t' i) = (if t' = t \<and> i < n then d i else m (slot t' i))"
  using assms(4)
proof (induction n)
  case 0
  then show ?case by (simp add: fill_def)
next
  case (Suc n)
  then show ?case
    using assms by (auto simp: fill_Suc s2_set_slot less_Suc_eq)
qed

lemma fill_other:
  assumes "aligned t" "n \<le> 512" "align_down a FRAME \<noteq> t"
  shows "fill t d n m a = m a"
  using assms(2)
proof (induction n)
  case 0
  then show ?case by (simp add: fill_def)
next
  case (Suc n)
  then show ?case
    using assms by (simp add: fill_Suc s2_set_other)
qed

section \<open>Taking and filling frames\<close>

definition table :: "memory \<Rightarrow> u64 \<Rightarrow> (nat \<Rightarrow> u64) \<Rightarrow> bool" where
  "table m t d \<longleftrightarrow> (\<forall>i<512. m (slot t i) = d i)"

text \<open>
  What a build has done so far: it took the frames \<open>fs\<close>, all good and new, and wrote inside
  them only.
\<close>

definition taken :: "world \<Rightarrow> u64 list \<Rightarrow> world \<Rightarrow> u64 list \<Rightarrow> bool" where
  "taken sm0 held sm fs \<longleftrightarrow> pmm_inv sm (fs @ held) \<and> distinct (fs @ held) \<and>
     (\<forall>f\<in>set fs. good_frame (fst sm0) f) \<and> usable (fst sm) = usable (fst sm0) \<and>
     reserved (fst sm) = reserved (fst sm0) \<and>
     (\<forall>a. align_down a FRAME \<notin> set fs \<longrightarrow> snd sm a = snd sm0 a)"

lemma pmm_inv_distinct: "pmm_inv sm held \<Longrightarrow> distinct held"
  by (auto simp: pmm_inv_def split: prod.splits)

lemma taken_start: "pmm_inv sm held \<Longrightarrow> taken sm held sm []"
  by (simp add: taken_def pmm_inv_distinct)

lemma taken_aligned: "taken sm0 held sm fs \<Longrightarrow> f \<in> set fs \<Longrightarrow> aligned f"
  by (simp add: taken_def good_frame_def)

lemma taken_set:
  assumes "taken sm0 held (s, m) fs" "t \<in> set fs" "i < 512"
  shows "taken sm0 held (s, s2_set t i d m) fs"
proof -
  have "align_down (slot t i) FRAME = t"
    using frame_of_slot[OF taken_aligned[OF assms(1,2)] assms(3)] .
  then show ?thesis
    using assms pmm_inv_use[of s m "fs @ held" "slot t i" d]
    by (auto simp: taken_def s2_set_def)
qed

lemma taken_fill:
  assumes "taken sm0 held (s, m) fs" "t \<in> set fs" "n \<le> 512"
  shows "taken sm0 held (s, fill t d n m) fs"
  using assms(3)
proof (induction n)
  case 0
  then show ?case using assms(1) by (simp add: fill_def)
next
  case (Suc n)
  then show ?case using assms(2) by (simp add: fill_Suc taken_set)
qed

lemma taken_alloc:
  assumes "taken sm0 held sm fs" "frame_alloc_zeroed sm = (sm', Some f)"
  shows "taken sm0 held sm' (f # fs)" "table (snd sm') f (\<lambda>_. 0)" "f \<notin> set fs"
    "\<And>t d. t \<in> set fs \<Longrightarrow> table (snd sm) t d \<Longrightarrow> table (snd sm') t d"
proof -
  from assms(2) obtain s m where a: "frame_alloc sm = ((s, m), Some f)" and sm': "sm' = (s, fill f (\<lambda>_. 0) 512 m)"
    by (auto simp: frame_alloc_zeroed_def split: prod.splits option.splits)
  have inv: "pmm_inv sm (fs @ held)" "distinct (fs @ held)"
    using assms(1) by (simp_all add: taken_def)
  note al = frame_alloc_inv[OF inv(1) a]
  have same: "usable s = usable (fst sm)" "reserved s = reserved (fst sm)" "m = snd sm"
    using a by (auto simp: frame_alloc_def Let_def split: prod.splits if_splits)
  have "good_frame (fst sm0) f"
    using al(2) assms(1) good_frame_cong[of "fst sm" "fst sm0"] by (simp add: taken_def)
  then have "taken sm0 held (s, m) (f # fs)"
    using assms(1) al same inv by (auto simp: taken_def)
  then show t': "taken sm0 held sm' (f # fs)"
    using sm' taken_fill[of sm0 held s m "f # fs" f 512] by simp
  show f: "f \<notin> set fs"
    using al(3) by simp
  have f_al: "aligned f"
    using taken_aligned[OF t'] by simp
  then show "table (snd sm') f (\<lambda>_. 0)"
    by (simp add: table_def sm' fill_slot)
  show "table (snd sm') t d" if "t \<in> set fs" "table (snd sm) t d" for t d
  proof -
    have "aligned t" "t \<noteq> f"
      using taken_aligned[OF assms(1) that(1)] that(1) f by auto
    then show ?thesis
      using that(2) f_al by (simp add: table_def sm' fill_slot same(3))
  qed
qed

lemma with_frame_Some:
  assumes "with_frame sm k = (sm'', Some x)"
  obtains sm' f where "frame_alloc_zeroed sm = (sm', Some f)" "k sm' f = (sm'', Some x)"
  using assms by (auto simp: with_frame_def split: prod.splits option.splits)

section \<open>What the guest builder writes\<close>

definition low_ram :: "pmm_state \<Rightarrow> bool" where
  "low_ram s \<longleftrightarrow> (\<forall>r\<in>set (usable s). unat (base r) + unat (len r) \<le> 2 ^ 48)"

lemma good_frame_field: "low_ram s \<Longrightarrow> good_frame s f \<Longrightarrow> field_addr f"
  by (force simp: low_ram_def good_frame_def field_addr_def frame_in_usable_iff fits_def unat_range_end)

definition guest_tables :: "memory \<Rightarrow> u64 \<Rightarrow> u64 \<Rightarrow> u64 \<Rightarrow> bool" where
  "guest_tables m root l0 l1 \<longleftrightarrow> distinct [root, l0, l1] \<and> field_addr root \<and> field_addr l0 \<and> field_addr l1 \<and>
     table m root (\<lambda>i. if i = 0 then s2_table l0 else if i = 1 then s2_table l1 else 0) \<and>
     table m l0 (\<lambda>i. if i = 64 then s2_leaf_2mib KGUEST_GIC_BLOCK S2_MEMATTR_DEVICE else 0) \<and>
     table m l1 (\<lambda>i. if i < 16 then s2_leaf_2mib (GUEST_CARVE_PA + word_of_nat i * BLOCK_2M) S2_MEMATTR_NORMAL_WB
       else 0)"

lemma block_offset:
  assumes "i < 512"
  shows "unat (word_of_nat i * BLOCK_2M) = i * 0x200000"
proof -
  have "unat (word_of_nat i :: u64) = i"
    using assms by (simp add: unat_of_nat take_bit_nat_eq_self)
  then show ?thesis
    using assms by (simp add: BLOCK_2M_def unat_word_ariths)
qed

lemma unat_base_offset:
  assumes "i < 512" "unat b + 512 * 0x200000 < 2 ^ 64"
  shows "unat (b + word_of_nat i * BLOCK_2M) = unat b + i * 0x200000"
  using assms block_offset[OF assms(1)] by (simp add: unat_word_ariths)

lemma carve_block:
  assumes "i < 16"
  shows "guest_carve_pa (GUEST_IPA_BASE + word_of_nat i * BLOCK_2M) = Some (GUEST_CARVE_PA + word_of_nat i * BLOCK_2M)"
    "level_index (GUEST_IPA_BASE + word_of_nat i * BLOCK_2M) SHIFT_2M = i"
proof -
  have u: "unat (GUEST_IPA_BASE + word_of_nat i * BLOCK_2M) = 0x40000000 + i * 0x200000"
    using assms unat_base_offset[of i GUEST_IPA_BASE] by (simp add: GUEST_IPA_BASE_def)
  then show "level_index (GUEST_IPA_BASE + word_of_nat i * BLOCK_2M) SHIFT_2M = i"
    using assms by (simp add: level_index_nat SHIFT_2M_def)
  show "guest_carve_pa (GUEST_IPA_BASE + word_of_nat i * BLOCK_2M) = Some (GUEST_CARVE_PA + word_of_nat i * BLOCK_2M)"
    using u assms unfolding guest_carve_pa_def word_le_nat_alt word_less_nat_alt u
    by (simp add: carve_defs)
qed

lemma carve_offsets_eq: "carve_offsets = map (\<lambda>i. word_of_nat i * BLOCK_2M) [0..<16]"
  by (simp add: carve_offsets_def GUEST_CARVE_SIZE_def BLOCK_2M_def)

lemma map_carve_upt:
  assumes "k \<le> 16"
  shows "map_carve t (map (\<lambda>i. word_of_nat i * BLOCK_2M) [k..<16]) m =
    Some (fold (\<lambda>i. s2_set t i (s2_leaf_2mib (GUEST_CARVE_PA + word_of_nat i * BLOCK_2M) S2_MEMATTR_NORMAL_WB)) [k..<16] m)"
  using assms
proof (induction k arbitrary: m rule: inc_induct)
  case (step k)
  then show ?case
    using carve_block[of k] by (simp add: upt_conv_Cons Let_def)
qed simp

lemma map_carve_fill:
  "map_carve t carve_offsets m =
    Some (fill t (\<lambda>i. s2_leaf_2mib (GUEST_CARVE_PA + word_of_nat i * BLOCK_2M) S2_MEMATTR_NORMAL_WB) 16 m)"
  using map_carve_upt[of 0 t m] by (simp add: carve_offsets_eq fill_def)

lemma guest_indices:
  "level_index KGUEST_GIC_BLOCK SHIFT_2M = 64" "level_index GIB0_DEVICE_BASE SHIFT_1G = 0"
  "level_index GIB1_RAM_BASE SHIFT_1G = 1" "level_index HOLE_IPA SHIFT_1G = 5" "level_index HOLE_IPA SHIFT_2M = 0"
  "level_index HOLE_IPA SHIFT_4K = 0"
  by (simp_all add: level_index_nat KGUEST_GIC_BLOCK_def GIB0_DEVICE_BASE_def GIB1_RAM_BASE_def HOLE_IPA_def
      SHIFT_2M_def SHIFT_1G_def SHIFT_4K_def)

lemma build_guest_tables:
  assumes "pmm_inv sm held" "low_ram (fst sm)" "build_guest_stage2 sm = (sm', Some root)"
  shows "\<exists>l0 l1. taken sm held sm' [l1, l0, root] \<and> guest_tables (snd sm') root l0 l1"
proof -
  from assms(3) obtain sm1 r where a1: "frame_alloc_zeroed sm = (sm1, Some r)" and
    b1: "with_frame sm1 (\<lambda>sm l2_gib0. with_frame sm (\<lambda>(s, m) l2_gib1.
       let m1 = s2_set l2_gib0 (level_index KGUEST_GIC_BLOCK SHIFT_2M)
             (s2_leaf_2mib KGUEST_GIC_BLOCK S2_MEMATTR_DEVICE) m
       in case map_carve l2_gib1 carve_offsets m1 of
            None \<Rightarrow> ((s, m1), None)
          | Some m2 \<Rightarrow> ((s, root_identity r l2_gib0 l2_gib1 m2), Some r))) = (sm', Some root)"
    unfolding build_guest_stage2_def by (rule with_frame_Some)
  from b1 obtain sm2 l0 where a2: "frame_alloc_zeroed sm1 = (sm2, Some l0)" and
    b2: "with_frame sm2 (\<lambda>(s, m) l2_gib1.
       let m1 = s2_set l0 (level_index KGUEST_GIC_BLOCK SHIFT_2M)
             (s2_leaf_2mib KGUEST_GIC_BLOCK S2_MEMATTR_DEVICE) m
       in case map_carve l2_gib1 carve_offsets m1 of
            None \<Rightarrow> ((s, m1), None)
          | Some m2 \<Rightarrow> ((s, root_identity r l0 l2_gib1 m2), Some r)) = (sm', Some root)"
    by (rule with_frame_Some)
  from b2 obtain s m l1 where a3: "frame_alloc_zeroed sm2 = ((s, m), Some l1)" and root: "root = r" and
    sm': "sm' = (s, root_identity root l0 l1 (fill l1 (\<lambda>i. s2_leaf_2mib (GUEST_CARVE_PA + word_of_nat i * BLOCK_2M)
      S2_MEMATTR_NORMAL_WB) 16 (s2_set l0 64 (s2_leaf_2mib KGUEST_GIC_BLOCK S2_MEMATTR_DEVICE) m)))"
    by (elim with_frame_Some) (auto simp: map_carve_fill guest_indices Let_def split: prod.splits)
  note t1 = taken_alloc[OF taken_start[OF assms(1)] a1]
  note t2 = taken_alloc[OF t1(1) a2]
  note t3 = taken_alloc[OF t2(1) a3, unfolded snd_conv]
  have z: "table m root (\<lambda>_. 0)" "table m l0 (\<lambda>_. 0)" "table m l1 (\<lambda>_. 0)"
    using t1(2) t2(2) t3(2) t2(4)[of root] t3(4)[of root] t3(4)[of l0] by (simp_all add: root)
  have d: "distinct [root, l0, l1]" "l0 \<noteq> root" "l1 \<noteq> root" "l1 \<noteq> l0" "aligned root" "aligned l0" "aligned l1"
    using t2(3) t3(3) taken_aligned[OF t3(1)] by (auto simp: root)
  have f: "field_addr root" "field_addr l0" "field_addr l1"
    using t3(1) good_frame_field[OF assms(2)] by (simp_all add: taken_def root)
  have "taken sm held sm' [l1, l0, root]"
    using t3(1) unfolding sm' root_identity_def root by (intro taken_set taken_fill) (simp_all)
  moreover have "guest_tables (snd sm') root l0 l1"
    using z d f unfolding guest_tables_def sm' root_identity_def guest_indices
    by (simp add: table_def s2_set_slot fill_slot)
  ultimately show ?thesis by blast
qed


section \<open>What the guest can reach\<close>

text \<open>The view the guest is meant to have: its RAM window on the carve, and the interrupt controller.\<close>

definition guest_view :: "u64 \<Rightarrow> u64 option" where
  "guest_view ipa = (case guest_carve_pa ipa of
     Some pa \<Rightarrow> Some pa
   | None \<Rightarrow> if KGUEST_GIC_BLOCK \<le> ipa \<and> ipa < KGUEST_GIC_BLOCK + BLOCK_2M then Some ipa else None)"

lemma guest_view_nat:
  "guest_view ipa = (if 0x40000000 \<le> unat ipa \<and> unat ipa < 0x42000000 then Some (word_of_nat (unat ipa + 0x6000000))
     else if 0x8000000 \<le> unat ipa \<and> unat ipa < 0x8200000 then Some ipa else None)"
proof -
  have "GUEST_CARVE_PA + (ipa - GUEST_IPA_BASE) = word_of_nat (unat ipa + 0x6000000)"
    by (simp add: carve_defs)
  then show ?thesis
    unfolding guest_view_def guest_carve_pa_def word_le_nat_alt word_less_nat_alt
    by (simp add: carve_defs KGUEST_GIC_BLOCK_def BLOCK_2M_def)
qed

lemma block_field:
  assumes "i < 512"
  shows "field_addr (GUEST_CARVE_PA + word_of_nat i * BLOCK_2M)"
    "unat (GUEST_CARVE_PA + word_of_nat i * BLOCK_2M) = 0x46000000 + i * 0x200000"
proof -
  show u: "unat (GUEST_CARVE_PA + word_of_nat i * BLOCK_2M) = 0x46000000 + i * 0x200000"
    using assms unat_base_offset[of i GUEST_CARVE_PA] by (simp add: GUEST_CARVE_PA_def)
  have "(4096 :: nat) dvd 0x46000000 + i * 0x200000"
    by (intro dvd_add dvd_mult) simp_all
  then show "field_addr (GUEST_CARVE_PA + word_of_nat i * BLOCK_2M)"
    unfolding field_addr_def u using assms by simp
qed

lemma leaf_out_block:
  assumes "memattr = S2_MEMATTR_NORMAL_WB \<or> memattr = S2_MEMATTR_DEVICE" "field_addr pa"
  shows "leaf_out (s2_leaf_2mib pa memattr) 21 ipa =
    Some (word_of_nat (unat pa div 0x200000 * 0x200000 + unat ipa mod 0x200000))"
  using s2_block_facts[OF assms(1)] assms(2) by (simp add: leaf_out_def leaf_ok_def)

lemma walk_guest:
  assumes "guest_tables m root l0 l1"
  shows "s2_walk m root ipa = guest_view ipa"
proof -
  let ?n = "unat ipa"
  let ?i = "level_index ipa 21"
  have i1: "level_index ipa 30 = ?n div 0x40000000" if "?n < 2 ^ 39"
    using that by (simp add: level_index_nat div_less_iff_less_mult)
  have tab: "m (slot root j) = (if j = 0 then s2_table l0 else if j = 1 then s2_table l1 else 0)"
    "m (slot l0 j) = (if j = 64 then s2_leaf_2mib KGUEST_GIC_BLOCK S2_MEMATTR_DEVICE else 0)"
    "m (slot l1 j) = (if j < 16 then s2_leaf_2mib (GUEST_CARVE_PA + word_of_nat j * BLOCK_2M) S2_MEMATTR_NORMAL_WB
       else 0)" if "j < 512" for j
    using assms that unfolding guest_tables_def table_def by blast+
  have fld: "entry_addr (s2_table l0) = l0" "entry_addr (s2_table l1) = l1"
    using assms by (simp_all add: guest_tables_def s2_table_facts)
  consider "?n \<ge> 2 ^ 39" | "?n < 2 ^ 39" "?n div 0x40000000 \<ge> 2" | "?n div 0x40000000 = 0" | "?n div 0x40000000 = 1"
    by linarith
  then show ?thesis
  proof cases
    case 1
    then show ?thesis by (simp add: s2_walk_def guest_view_nat)
  next
    case 2
    then have "0x80000000 \<le> ?n" by linarith
    with 2 show ?thesis
      by (simp add: s2_walk_def guest_view_nat i1 tab)
  next
    case 3
    then have n: "?n < 0x40000000" by linarith
    then have j: "?i = ?n div 0x200000"
      by (simp add: level_index_nat div_less_iff_less_mult)
    have gic: "field_addr KGUEST_GIC_BLOCK"
      by (simp add: field_addr_def KGUEST_GIC_BLOCK_def)
    have "s2_walk m root ipa = (if ?i = 64 then Some (word_of_nat (0x8000000 + ?n mod 0x200000)) else None)"
      using n 3 leaf_out_block[OF disjI2[OF refl] gic, of ipa] s2_block_facts[of S2_MEMATTR_DEVICE KGUEST_GIC_BLOCK]
      by (simp add: s2_walk_def i1 tab fld s2_table_facts KGUEST_GIC_BLOCK_def)
    also have "\<dots> = guest_view ipa"
    proof -
      have "0x8000000 + ?n mod 0x200000 = ?n" if "?n div 0x200000 = 64"
        using that mult_div_mod_eq[of "0x200000" ?n] by linarith
      moreover have "?n div 0x200000 = 64 \<longleftrightarrow> 0x8000000 \<le> ?n \<and> ?n < 0x8200000"
        by linarith
      ultimately show ?thesis
        using n by (simp add: j guest_view_nat)
    qed
    finally show ?thesis .
  next
    case 4
    then have n: "0x40000000 \<le> ?n" "?n < 0x80000000" by linarith+
    then have "512 \<le> ?n div 0x200000" "?n div 0x200000 - 512 < 512" by linarith+
    then have j: "?i = ?n div 0x200000 - 512"
      by (simp add: level_index_nat le_mod_geq)
    have "s2_walk m root ipa =
        (if ?i < 16 then Some (word_of_nat (0x46000000 + ?i * 0x200000 + ?n mod 0x200000)) else None)"
      using n 4 leaf_out_block[OF disjI1[OF refl] block_field(1), of ?i ipa] block_field(2)[of ?i]
        s2_block_facts[of S2_MEMATTR_NORMAL_WB "GUEST_CARVE_PA + word_of_nat ?i * BLOCK_2M"]
      by (simp add: s2_walk_def i1 tab fld s2_table_facts)
    also have "\<dots> = guest_view ipa"
    proof -
      have sum: "0x46000000 + ?i * 0x200000 + ?n mod 0x200000 = ?n + 0x6000000"
        using n j mult_div_mod_eq[of "0x200000" ?n] by linarith
      have less: "?i < 16 \<longleftrightarrow> ?n < 0x42000000"
        using n j by linarith
      show ?thesis
        unfolding sum less guest_view_nat using n by simp
    qed
    finally show ?thesis .
  qed
qed

section \<open>The identity regime and its hole\<close>

definition identity_low :: "memory \<Rightarrow> u64 \<Rightarrow> u64 \<Rightarrow> u64 \<Rightarrow> bool" where
  "identity_low m root l0 l1 \<longleftrightarrow> field_addr root \<and> field_addr l0 \<and> field_addr l1 \<and>
     m (slot root 0) = s2_table l0 \<and> m (slot root 1) = s2_table l1 \<and>
     table m l0 (\<lambda>i. s2_leaf_2mib (GIB0_DEVICE_BASE + word_of_nat i * BLOCK_2M) S2_MEMATTR_DEVICE) \<and>
     table m l1 (\<lambda>i. s2_leaf_2mib (GIB1_RAM_BASE + word_of_nat i * BLOCK_2M) S2_MEMATTR_NORMAL_WB)"

definition hole_path :: "memory \<Rightarrow> u64 \<Rightarrow> u64 \<Rightarrow> u64 \<Rightarrow> u64 \<Rightarrow> bool" where
  "hole_path m root lh l3 e \<longleftrightarrow> field_addr lh \<and> field_addr l3 \<and>
     (\<forall>i<512. 2 \<le> i \<longrightarrow> m (slot root i) = (if i = 5 then s2_table lh else 0)) \<and>
     table m lh (\<lambda>i. if i = 0 then s2_table l3 else 0) \<and> table m l3 (\<lambda>i. if i = 0 then e else 0)"

lemma identity_block:
  assumes "i < 512" "b = 0 \<or> b = 0x40000000"
  shows "field_addr (b + word_of_nat i * BLOCK_2M)" "unat (b + word_of_nat i * BLOCK_2M) = unat b + i * 0x200000"
proof -
  show u: "unat (b + word_of_nat i * BLOCK_2M) = unat b + i * 0x200000"
    using assms unat_base_offset[of i b] by auto
  have "(4096 :: nat) dvd unat b + i * 0x200000"
    using assms(2) by (intro dvd_add dvd_mult) auto
  then show "field_addr (b + word_of_nat i * BLOCK_2M)"
    unfolding field_addr_def u using assms by auto
qed

lemma walk_identity_low:
  assumes "identity_low m root l0 l1" "unat ipa < 0x80000000"
  shows "s2_walk m root ipa = Some ipa"
proof -
  let ?n = "unat ipa"
  let ?i = "level_index ipa 21"
  have i1: "level_index ipa 30 = ?n div 0x40000000"
    using assms(2) by (simp add: level_index_nat div_less_iff_less_mult)
  have fld: "entry_addr (s2_table l0) = l0" "entry_addr (s2_table l1) = l1"
    "m (slot root 0) = s2_table l0" "m (slot root (Suc 0)) = s2_table l1"
    using assms(1) by (simp_all add: identity_low_def s2_table_facts)
  have tab: "m (slot l0 ?i) = s2_leaf_2mib (0 + word_of_nat ?i * BLOCK_2M) S2_MEMATTR_DEVICE"
    "m (slot l1 ?i) = s2_leaf_2mib (0x40000000 + word_of_nat ?i * BLOCK_2M) S2_MEMATTR_NORMAL_WB"
    using assms(1) level_index_less[of ipa 21]
    unfolding identity_low_def table_def GIB0_DEVICE_BASE_def GIB1_RAM_BASE_def by blast+
  have out: "leaf_out (s2_leaf_2mib (b + word_of_nat ?i * BLOCK_2M) a) 21 ipa =
      Some (word_of_nat (unat b div 0x200000 * 0x200000 + ?i * 0x200000 + ?n mod 0x200000))"
    if "b = 0 \<or> b = 0x40000000" "a = S2_MEMATTR_NORMAL_WB \<or> a = S2_MEMATTR_DEVICE" for a b
    using leaf_out_block[OF that(2) identity_block(1)[OF level_index_less that(1)], of ipa 21 ipa]
      identity_block(2)[OF level_index_less that(1), of ipa 21] that(1) by (auto simp: algebra_simps)
  note facts = s2_block_facts s2_table_facts
  consider "?n div 0x40000000 = 0" | "?n div 0x40000000 = 1"
    using assms(2) by linarith
  then show ?thesis
  proof cases
    case 1
    then have j: "?i = ?n div 0x200000"
      using assms(2) by (simp add: level_index_nat div_less_iff_less_mult)
    have "s2_walk m root ipa = Some (word_of_nat (?i * 0x200000 + ?n mod 0x200000))"
      using 1 assms(2) tab out[of 0 S2_MEMATTR_DEVICE] by (simp add: s2_walk_def i1 fld facts)
    then show ?thesis
      unfolding j by (simp del: of_nat_add of_nat_mult)
  next
    case 2
    then have n: "0x40000000 \<le> ?n" by linarith
    then have "512 \<le> ?n div 0x200000" "?n div 0x200000 - 512 < 512" using assms(2) by linarith+
    then have j: "?i = ?n div 0x200000 - 512"
      by (simp add: level_index_nat le_mod_geq)
    have sum: "0x40000000 + ?i * 0x200000 + ?n mod 0x200000 = ?n"
      using n j mult_div_mod_eq[of "0x200000" ?n] by linarith
    have "s2_walk m root ipa = Some (word_of_nat (0x40000000 + ?i * 0x200000 + ?n mod 0x200000))"
      using 2 assms(2) tab out[of "0x40000000" S2_MEMATTR_NORMAL_WB]
      by (simp add: s2_walk_def i1 fld facts)
    then show ?thesis
      unfolding sum by simp
  qed
qed

lemma walk_hole:
  assumes "hole_path m root lh l3 e" "0x80000000 \<le> unat ipa"
  shows "s2_walk m root ipa = (if 0x140000000 \<le> unat ipa \<and> unat ipa < 0x140001000 \<and> e AND 3 = 3
    then leaf_out e 12 ipa else None)"
proof -
  let ?n = "unat ipa"
  have tab: "m (slot root j) = (if j = 5 then s2_table lh else 0)" if "2 \<le> j" "j < 512" for j
    using assms(1) that by (simp add: hole_path_def)
  have tab2: "m (slot lh j) = (if j = 0 then s2_table l3 else 0)" "m (slot l3 j) = (if j = 0 then e else 0)"
    if "j < 512" for j
    using assms(1) that by (simp_all add: hole_path_def table_def)
  have fld: "entry_addr (s2_table lh) = lh" "entry_addr (s2_table l3) = l3"
    using assms(1) by (simp_all add: hole_path_def s2_table_facts)
  have i1: "level_index ipa 30 = ?n div 0x40000000" "2 \<le> level_index ipa 30" if "?n < 2 ^ 39"
    using that assms(2) by (simp_all add: level_index_nat div_less_iff_less_mult)
  show ?thesis
  proof (cases "?n < 2 ^ 39 \<and> ?n div 0x40000000 = 5")
    case False
    then have "s2_walk m root ipa = None"
      using i1 by (auto simp: s2_walk_def tab)
    moreover have "\<not> (0x140000000 \<le> ?n \<and> ?n < 0x140001000)"
    proof
      assume r: "0x140000000 \<le> ?n \<and> ?n < 0x140001000"
      then have "?n div 0x40000000 = 5" by linarith
      with r False show False by simp
    qed
    ultimately show ?thesis by auto
  next
    case True
    then have n: "0x140000000 \<le> ?n" "?n < 0x180000000" by linarith+
    have "s2_walk m root ipa = (if level_index ipa 21 = 0 then
        (if level_index ipa 12 = 0 \<and> e AND 3 = 3 then leaf_out e 12 ipa else None) else None)"
      using True i1 by (simp add: s2_walk_def tab tab2 fld s2_table_facts)
    also have "\<dots> = (if 0x140000000 \<le> ?n \<and> ?n < 0x140001000 \<and> e AND 3 = 3 then leaf_out e 12 ipa else None)"
    proof -
      define k where "k = ?n - 0x140000000"
      have k: "?n = k + 2560 * 0x200000" "?n = k + 0x140000 * 4096" "k < 512 * 0x200000"
        using n by (simp_all add: k_def)
      have l21: "level_index ipa 21 = k div 0x200000"
      proof -
        have "?n div 0x200000 = 2560 + k div 0x200000"
          unfolding k(1) by (rule div_mult_self1) simp
        moreover have "k div 0x200000 < 512"
          using k(3) by (simp add: div_less_iff_less_mult)
        ultimately show ?thesis
          using mod_mult_self2[of "k div 0x200000" 512 5] by (simp add: level_index_nat add.commute)
      qed
      have l12: "level_index ipa 12 = k div 4096 mod 512"
      proof -
        have "?n div 4096 = 0x140000 + k div 4096"
          unfolding k(2) by (rule div_mult_self1) simp
        then show ?thesis
          using mod_mult_self2[of "k div 4096" 512 2560] by (simp add: level_index_nat add.commute)
      qed
      have "k div 4096 mod 512 = k div 4096" if "k < 0x200000"
        using that by (simp add: div_less_iff_less_mult)
      then have "(k div 0x200000 = 0 \<and> k div 4096 mod 512 = 0) = (k < 4096)"
        unfolding div_eq_0_iff by (cases "k < 0x200000") (simp_all add: div_eq_0_iff)
      then have "(level_index ipa 21 = 0 \<and> level_index ipa 12 = 0) = (k < 4096)"
        unfolding l21 l12 .
      then have "(level_index ipa 21 = 0 \<and> level_index ipa 12 = 0) = (?n < 0x140001000)"
        unfolding k(1) by simp
      then show ?thesis
        using n by auto
    qed
    finally show ?thesis .
  qed
qed


lemma build_identity_tables:
  assumes "pmm_inv sm held" "low_ram (fst sm)" "build_identity_stage2 sm = (sm', Some root)"
  shows "\<exists>l0 l1 lh l3. taken sm held sm' [l3, lh, l1, l0, root] \<and> identity_low (snd sm') root l0 l1 \<and>
    hole_path (snd sm') root lh l3 0"
proof -
  from assms(3) obtain sm1 sm2 sm3 sm4 s m l0 l1 lh l3 where a:
    "frame_alloc_zeroed sm = (sm1, Some root)" "frame_alloc_zeroed sm1 = (sm2, Some l0)"
    "frame_alloc_zeroed sm2 = (sm3, Some l1)" "frame_alloc_zeroed sm3 = (sm4, Some lh)"
    "frame_alloc_zeroed sm4 = ((s, m), Some l3)"
    and sm': "sm' = (s, s2_set lh 0 (s2_table l3) (s2_set root 5 (s2_table lh)
      (root_identity root l0 l1 (fill_identity l0 l1 m))))"
    unfolding build_identity_stage2_def guest_indices
    by (elim with_frame_Some) (auto simp: Let_def split: prod.splits)
  note t1 = taken_alloc[OF taken_start[OF assms(1)] a(1)]
  note t2 = taken_alloc[OF t1(1) a(2)]
  note t3 = taken_alloc[OF t2(1) a(3)]
  note t4 = taken_alloc[OF t3(1) a(4)]
  note t5 = taken_alloc[OF t4(1) a(5), unfolded snd_conv]
  have z: "table m t (\<lambda>_. 0)" if "t \<in> {root, l0, l1, lh, l3}" for t
    using that t1(2) t2(2,4) t3(2,4) t4(2,4) t5(2,4) by auto
  have "distinct ([l3, lh, l1, l0, root] @ held)"
    using t5(1) by (simp add: taken_def)
  then have d: "l0 \<noteq> root" "l1 \<noteq> root" "lh \<noteq> root" "l3 \<noteq> root" "l1 \<noteq> l0" "lh \<noteq> l0" "l3 \<noteq> l0" "lh \<noteq> l1" "l3 \<noteq> l1"
    "l3 \<noteq> lh"
    by auto
  have al: "aligned root" "aligned l0" "aligned l1" "aligned lh" "aligned l3"
    using taken_aligned[OF t5(1)] by auto
  have f: "field_addr root" "field_addr l0" "field_addr l1" "field_addr lh" "field_addr l3"
    using t5(1) good_frame_field[OF assms(2)] by (simp_all add: taken_def)
  note slots = s2_set_slot[OF al(1)] s2_set_slot[OF al(4)] fill_slot[OF al(2)] fill_slot[OF al(3)]
  have "taken sm held sm' [l3, lh, l1, l0, root]"
    using t5(1) unfolding sm' root_identity_def fill_identity_def guest_indices
    by (intro taken_set taken_fill) simp_all
  moreover have "identity_low (snd sm') root l0 l1"
    using d f al unfolding identity_low_def table_def sm' snd_conv root_identity_def fill_identity_def guest_indices
    by (simp add: slots)
  moreover have "hole_path (snd sm') root lh l3 0"
    using d d[symmetric] f al z[of root] z[of lh] z[of l3]
    unfolding hole_path_def table_def sm' snd_conv root_identity_def fill_identity_def guest_indices
    by (simp add: slots)
  ultimately show ?thesis by blast
qed

text \<open>A frame taken later does not disturb the tables, and the demand map fills the hole's page.\<close>

lemma identity_low_cong:
  "identity_low m root l0 l1 \<Longrightarrow> (\<And>t i. t \<in> {root, l0, l1} \<Longrightarrow> i < 512 \<Longrightarrow> m' (slot t i) = m (slot t i)) \<Longrightarrow>
    identity_low m' root l0 l1"
  by (simp add: identity_low_def table_def)

lemma hole_path_cong:
  "hole_path m root lh l3 e \<Longrightarrow> (\<And>t i. t \<in> {root, lh, l3} \<Longrightarrow> i < 512 \<Longrightarrow> m' (slot t i) = m (slot t i)) \<Longrightarrow>
    hole_path m' root lh l3 e"
  by (simp add: hole_path_def table_def)

lemma demand_map_hole:
  assumes "identity_low m root l0 l1" "hole_path m root lh l3 0" "l3 \<notin> {root, l0, l1, lh}"
  shows "\<exists>m'. demand_map_ipa root HOLE_IPA d m = (m', True) \<and> identity_low m' root l0 l1 \<and>
    hole_path m' root lh l3 (s2_leaf_4k d S2_MEMATTR_NORMAL_WB)"
proof -
  let ?m = "s2_set l3 0 (s2_leaf_4k d S2_MEMATTR_NORMAL_WB) m"
  have al: "aligned root" "aligned l0" "aligned l1" "aligned lh" "aligned l3"
    using assms by (simp_all add: identity_low_def hole_path_def field_addr_def)
  have e: "m (slot root 5) = s2_table lh" "m (slot lh 0) = s2_table l3" "entry_addr (s2_table lh) = lh"
    "entry_addr (s2_table l3) = l3"
    using assms(2) by (simp_all add: hole_path_def table_def s2_table_facts)
  have "demand_map_ipa root HOLE_IPA d m = (?m, True)"
    unfolding demand_map_ipa_def guest_indices by (simp add: e s2_table_facts Let_def)
  moreover have "identity_low ?m root l0 l1"
    using assms(1) by (rule identity_low_cong) (use assms(3) al in \<open>auto simp: s2_set_slot[OF al(5)]\<close>)
  moreover have "hole_path ?m root lh l3 (s2_leaf_4k d S2_MEMATTR_NORMAL_WB)"
    using assms(2,3) al by (auto simp: hole_path_def table_def s2_set_slot[OF al(5)])
  ultimately show ?thesis by blast
qed

end
