(* ===== verification/El2_State.thy ===== *)
theory El2_State
  imports El2_Trap Guestlog Tpsched Stage2
begin

text \<open>
  The state of the EL2 monitor and the operations of its windows: the stage-2 context and
  switch of \<open>arch/aarch64/stage2.rs\<close>, the exit window of \<open>exits.rs\<close>, the trap-and-emulate
  window of \<open>el2mmio.rs\<close>, the interrupt-injection window of \<open>el2vgic.rs\<close>, and the timer
  and switch glue of \<open>tpsched_hal.rs\<close>. System registers the monitor writes are fields of the
  state; values it only reads are the record \<open>trap_regs\<close> presented with each exception. An
  exception frame is pushed below the resident frames of the monitor stack, of which only the
  first, \<open>b0\<close>, is read back; \<open>depth\<close> counts them. Barriers and TLB maintenance have no
  counterpart: translation is always of the current tables. The console is the byte stream of
  the UART with the display gate down.
\<close>

section \<open>Frames, registers and the state\<close>

record el2_frame =
  gpr :: "u64 list"
  elr :: u64
  spsr :: u64

record trap_regs =
  esr_el2 :: u64
  hpfar_el2 :: u64
  far_el2 :: u64
  vbar_el1 :: u64
  gich_vtr :: u32
  gich_elrsr0 :: u32
  gich_lr0_now :: u32
  gicc_iar :: u32
  cnthp_ctl_now :: u64

record el2 =
  hcr_el2 :: u64
  vtcr_el2 :: u64
  vttbr_el2 :: u64
  cptr_el2 :: u64
  cnthp_ctl :: u64
  cnthp_tval :: u64
  ppi26 :: bool
  gich_hcr_r :: u32
  gich_lr0 :: u32
  sp_el1 :: u64
  sctlr_el1 :: u64
  esr_el1 :: u64
  elr_el1 :: u64
  spsr_el1 :: u64
  s2_root :: u64
  s2_demand :: u64
  s2_expect_ipa :: u64
  s2_served :: u64
  exits_armed :: u64
  exits_served :: u64
  device_shadow :: u64
  device_pair :: "u64 list"
  trap_armed :: u64
  trap_served :: u64
  trap_device_ipa :: u64
  trap_sysreg :: u64
  vgic_armed :: u64
  vgic_park_seen :: u64
  vgic_parks :: u64
  sched :: sched_ctx
  kg_armed :: u64
  kg_done :: u64
  kg_nonce :: u64
  kg_probe_ipa :: u64
  kg_doorbell :: u64
  kg_last :: u64
  kg_echo :: u64
  kg_probes :: u64
  kg_traps :: u64
  kg_sp :: u64
  kg_fault_ipa :: u64
  kg_fault_esr :: u64
  kg_logbuf :: kg_log
  console :: bytes
  b0 :: el2_frame
  depth :: nat
  fault_reported :: bool
  ram :: memory

text \<open>How a handler leaves EL2: resume a frame, enter lower-level code, unwind to the kernel, or park.\<close>

datatype el2_exit = Resume el2_frame | Enter u64 u64 "(nat \<times> u64) list" | Unwind el2_frame | Parked

section \<open>Stage-2 context and switch\<close>

definition HCR_RW :: u64 where "HCR_RW = push_bit 31 1"
definition HCR_VM :: u64 where "HCR_VM = push_bit 0 1"

definition set_s2_context :: "u64 \<Rightarrow> u64 \<Rightarrow> u64 \<Rightarrow> el2 \<Rightarrow> el2" where
  "set_s2_context root demand expect s = s\<lparr>s2_root := root, s2_demand := demand, s2_expect_ipa := expect, s2_served := 0\<rparr>"

definition set_s2_served :: "u64 \<Rightarrow> el2 \<Rightarrow> el2" where
  "set_s2_served ipa s = s\<lparr>s2_served := ipa\<rparr>"

definition arm_stage2_el2 :: "u64 \<Rightarrow> u64 \<Rightarrow> el2 \<Rightarrow> el2" where
  "arm_stage2_el2 vtcr_val vttbr_val s = s\<lparr>vtcr_el2 := vtcr_val, vttbr_el2 := vttbr_val, hcr_el2 := HCR_RW OR HCR_VM\<rparr>"

definition disarm_stage2_el2 :: "el2 \<Rightarrow> el2" where
  "disarm_stage2_el2 s = s\<lparr>hcr_el2 := HCR_RW, vttbr_el2 := 0\<rparr>"

section \<open>The exit window\<close>

definition HCR_TWI :: u64 where "HCR_TWI = push_bit 13 1"
definition HCR_TWE :: u64 where "HCR_TWE = push_bit 14 1"
definition CPTR_EL2_BASELINE :: u64 where "CPTR_EL2_BASELINE = 0x33FF"
definition CPTR_EL2_TFP :: u64 where "CPTR_EL2_TFP = push_bit 10 1"
definition EXIT_WFX_BIT :: u64 where "EXIT_WFX_BIT = push_bit 0 1"
definition EXIT_UNDEF_BIT :: u64 where "EXIT_UNDEF_BIT = push_bit 1 1"

definition exits_set_armed :: "bool \<Rightarrow> el2 \<Rightarrow> el2" where
  "exits_set_armed a s = s\<lparr>exits_armed := (if a then 1 else 0)\<rparr>"

definition exits_is_armed :: "el2 \<Rightarrow> bool" where
  "exits_is_armed s \<longleftrightarrow> exits_armed s \<noteq> 0"

definition reset_served :: "el2 \<Rightarrow> el2" where
  "reset_served s = s\<lparr>exits_served := 0\<rparr>"

definition set_exit_served :: "u64 \<Rightarrow> el2 \<Rightarrow> el2" where
  "set_exit_served b s = s\<lparr>exits_served := exits_served s OR b\<rparr>"

definition arm_exits_el2 :: "el2 \<Rightarrow> el2" where
  "arm_exits_el2 s = s\<lparr>hcr_el2 := HCR_RW OR HCR_TWI OR HCR_TWE, cptr_el2 := CPTR_EL2_BASELINE OR CPTR_EL2_TFP\<rparr>"

definition disarm_exits_el2 :: "el2 \<Rightarrow> el2" where
  "disarm_exits_el2 s = s\<lparr>hcr_el2 := HCR_RW, cptr_el2 := CPTR_EL2_BASELINE\<rparr>"

section \<open>The trap-and-emulate window\<close>

definition HCR_TVM :: u64 where "HCR_TVM = push_bit 26 1"
definition TRAP_SYSREG_BIT :: u64 where "TRAP_SYSREG_BIT = push_bit 0 1"
definition TRAP_MMIO_WR_BIT :: u64 where "TRAP_MMIO_WR_BIT = push_bit 1 1"
definition TRAP_MMIO_RD_BIT :: u64 where "TRAP_MMIO_RD_BIT = push_bit 2 1"

definition size_mask :: "u64 \<Rightarrow> u64" where
  "size_mask sz = (if sz \<ge> 8 then - 1 else push_bit (unat (sz * 8)) 1 - 1)"

definition device_mmio :: "u64 \<Rightarrow> bool \<Rightarrow> u64 \<Rightarrow> u64 \<Rightarrow> el2 \<Rightarrow> el2 \<times> u64" where
  "device_mmio ipa is_write sz value s =
     (if is_write then (s\<lparr>device_shadow := value AND size_mask sz\<rparr>, 0) else (s, device_shadow s))"

definition reset_device_pair_m27 :: "el2 \<Rightarrow> el2" where
  "reset_device_pair_m27 s = s\<lparr>device_pair := [0, 0]\<rparr>"

definition device_mmio_m27 :: "u64 \<Rightarrow> bool \<Rightarrow> u64 \<Rightarrow> u64 \<Rightarrow> u64 \<Rightarrow> el2 \<Rightarrow> el2 \<times> u64" where
  "device_mmio_m27 ipa is_write sz value vmid s = (let cell = unat (vmid AND 1) in
     if is_write then (s\<lparr>device_pair := (device_pair s)[cell := device_pair s ! cell + 1]\<rparr>, 0)
     else (s, device_pair s ! cell))"

definition device_count_m27 :: "u64 \<Rightarrow> el2 \<Rightarrow> u64" where
  "device_count_m27 vmid s = device_pair s ! unat (vmid AND 1)"

definition trap_set_armed :: "bool \<Rightarrow> el2 \<Rightarrow> el2" where
  "trap_set_armed a s = s\<lparr>trap_armed := (if a then 1 else 0)\<rparr>"

definition trap_is_armed :: "el2 \<Rightarrow> bool" where
  "trap_is_armed s \<longleftrightarrow> trap_armed s \<noteq> 0"

definition reset_context :: "u64 \<Rightarrow> el2 \<Rightarrow> el2" where
  "reset_context ipa s = s\<lparr>trap_served := 0, trap_device_ipa := ipa, trap_sysreg := 0\<rparr>"

definition set_trap_served :: "u64 \<Rightarrow> el2 \<Rightarrow> el2" where
  "set_trap_served b s = s\<lparr>trap_served := trap_served s OR b\<rparr>"

definition record_sysreg_value :: "u64 \<Rightarrow> el2 \<Rightarrow> el2" where
  "record_sysreg_value v s = s\<lparr>trap_sysreg := v\<rparr>"

definition arm_trap_el2 :: "u64 \<Rightarrow> u64 \<Rightarrow> el2 \<Rightarrow> el2" where
  "arm_trap_el2 vtcr_val vttbr_val s =
     s\<lparr>vtcr_el2 := vtcr_val, vttbr_el2 := vttbr_val, hcr_el2 := HCR_RW OR HCR_VM OR HCR_TVM\<rparr>"

definition disarm_trap_el2 :: "el2 \<Rightarrow> el2" where
  "disarm_trap_el2 s = s\<lparr>hcr_el2 := HCR_RW, vttbr_el2 := 0\<rparr>"

section \<open>The interrupt-injection window\<close>

definition HCR_IMO :: u64 where "HCR_IMO = push_bit 4 1"
definition GICH_HCR_EN :: u32 where "GICH_HCR_EN = push_bit 0 1"

definition vgic_set_armed :: "bool \<Rightarrow> el2 \<Rightarrow> el2" where
  "vgic_set_armed a s = s\<lparr>vgic_armed := (if a then 1 else 0), vgic_park_seen := 0, vgic_parks := 0\<rparr>"

definition vgic_is_armed :: "el2 \<Rightarrow> bool" where
  "vgic_is_armed s \<longleftrightarrow> vgic_armed s \<noteq> 0"

definition note_park :: "el2 \<Rightarrow> el2 \<times> u64" where
  "note_park s = (let n = vgic_parks s + 1 in (s\<lparr>vgic_park_seen := 1, vgic_parks := n\<rparr>, n))"

definition park_seen :: "el2 \<Rightarrow> bool" where
  "park_seen s \<longleftrightarrow> vgic_park_seen s \<noteq> 0"

definition arm_vgic_el2 :: "el2 \<Rightarrow> el2" where
  "arm_vgic_el2 s = s\<lparr>gich_lr0 := 0, gich_hcr_r := GICH_HCR_EN, hcr_el2 := HCR_RW OR HCR_IMO OR HCR_TWI\<rparr>"

definition inject_virq :: "u64 \<Rightarrow> el2 \<Rightarrow> el2" where
  "inject_virq vintid s = s\<lparr>gich_hcr_r := GICH_HCR_EN,
     gich_lr0 := gich_lr_encode vintid 0 GICH_LR_STATE_PENDING 0 0 0 0\<rparr>"

definition num_lrs :: "trap_regs \<Rightarrow> u64" where
  "num_lrs h = vtr_list_regs (gich_vtr h)"

definition lr0_retired :: "trap_regs \<Rightarrow> bool" where
  "lr0_retired h \<longleftrightarrow> gich_elrsr0 h AND 1 \<noteq> 0 \<and> lr_is_retired (gich_lr0_now h)"

definition disarm_vgic_el2 :: "el2 \<Rightarrow> el2" where
  "disarm_vgic_el2 s = s\<lparr>gich_lr0 := 0, gich_hcr_r := 0, hcr_el2 := HCR_RW\<rparr>"

section \<open>The scheduler window\<close>

definition CNTHP_CTL_ENABLE :: u64 where "CNTHP_CTL_ENABLE = push_bit 0 1"
definition CNTHP_CTL_IMASK :: u64 where "CNTHP_CTL_IMASK = push_bit 1 1"
definition CNTHP_CTL_ISTATUS :: u64 where "CNTHP_CTL_ISTATUS = push_bit 2 1"

definition sched_armed :: "el2 \<Rightarrow> bool" where
  "sched_armed s \<longleftrightarrow> sc_armed (sched s) \<noteq> 0"

definition arm_sched_el2 :: "u64 \<Rightarrow> u64 \<Rightarrow> el2 \<Rightarrow> el2" where
  "arm_sched_el2 vtcr_val vttbr0_val s = s\<lparr>vtcr_el2 := vtcr_val, vttbr_el2 := vttbr0_val, hcr_el2 := HCR_RW OR HCR_VM\<rparr>"

definition arm_cnthp_window_el2 :: "u64 \<Rightarrow> bool \<Rightarrow> el2 \<Rightarrow> el2" where
  "arm_cnthp_window_el2 delta_ticks stage2_vm s = s\<lparr>ppi26 := True, cnthp_tval := delta_ticks, cnthp_ctl := CNTHP_CTL_ENABLE,
     hcr_el2 := (if stage2_vm then HCR_RW OR HCR_IMO OR HCR_VM else HCR_RW OR HCR_IMO)\<rparr>"

definition cnthp_rearm_checked :: "u64 \<Rightarrow> trap_regs \<Rightarrow> el2 \<Rightarrow> el2 \<times> bool" where
  "cnthp_rearm_checked delta_ticks h s = (s\<lparr>cnthp_tval := delta_ticks\<rparr>, cnthp_ctl_now h AND CNTHP_CTL_ISTATUS = 0)"

definition disarm_cnthp_window_el2 :: "el2 \<Rightarrow> el2" where
  "disarm_cnthp_window_el2 s = s\<lparr>sched := set_timer_mode TMODE_OFF (sched s), cnthp_ctl := CNTHP_CTL_IMASK,
     hcr_el2 := HCR_RW, vttbr_el2 := 0, ppi26 := False\<rparr>"

definition switch_vttbr_el2 :: "u64 \<Rightarrow> el2 \<Rightarrow> el2" where
  "switch_vttbr_el2 v s = s\<lparr>vttbr_el2 := v\<rparr>"

definition disarm_sched_el2 :: "el2 \<Rightarrow> el2" where
  "disarm_sched_el2 s = s\<lparr>sched := (sched s)\<lparr>sc_armed := 0\<rparr>, hcr_el2 := HCR_RW, vttbr_el2 := 0\<rparr>"

section \<open>Leaving the monitor\<close>

definition ascii :: "string \<Rightarrow> bytes" where
  "ascii t = map of_char t"

definition diag_write_hex :: "u64 \<Rightarrow> bytes" where
  "diag_write_hex v = ascii ''0x'' @ map (\<lambda>i. hex_digit (ucast (drop_bit (60 - 4 * i) v AND 0xF))) [0..<16]"

definition serial_write :: "bytes \<Rightarrow> el2 \<Rightarrow> el2" where
  "serial_write bs s = s\<lparr>console := console s @ bs\<rparr>"

definition el2_return_to_kernel :: "u64 \<Rightarrow> u64 \<Rightarrow> el2 \<Rightarrow> el2 \<times> el2_exit" where
  "el2_return_to_kernel code x1val s = (if elr (b0 s) = 0 \<and> spsr (b0 s) = 0
     then (serial_write (ascii ''el2: B0 UNINITIALIZED (pre-L2.0 EL2 entry) -- parking, code='' @ diag_write_hex code @
             ascii '' x1='' @ diag_write_hex x1val @ [0x0A]) s, Parked)
     else let f = (b0 s)\<lparr>gpr := (gpr (b0 s))[0 := code, 1 := x1val]\<rparr>
          in (s\<lparr>b0 := f, depth := 0\<rparr>, Unwind f))"

definition el2_abort_retry :: "el2_frame \<Rightarrow> el2 \<Rightarrow> el2 \<times> el2_exit" where
  "el2_abort_retry f s = (s, Resume f)"

text \<open>An \<open>eret\<close> into code with the current frame left resident on the monitor stack.\<close>

definition el2_enter :: "u64 \<Rightarrow> u64 \<Rightarrow> (nat \<times> u64) list \<Rightarrow> el2 \<Rightarrow> el2 \<times> el2_exit" where
  "el2_enter pc psr regs s = (s\<lparr>depth := Suc (depth s)\<rparr>, Enter pc psr regs)"

text \<open>Saving the interrupted context: the first frame on an empty stack is the kernel's.\<close>

definition save_context :: "el2_frame \<Rightarrow> el2 \<Rightarrow> el2" where
  "save_context f s = (if depth s = 0 then s\<lparr>b0 := f\<rparr> else s)"

definition advance :: "el2_frame \<Rightarrow> el2_frame" where
  "advance f = f\<lparr>elr := elr f + 4\<rparr>"

definition gpr_value :: "el2_frame \<Rightarrow> nat \<Rightarrow> u64" where
  "gpr_value f r = (if r < 31 then gpr f ! r else 0)"

definition set_reg :: "nat \<Rightarrow> u64 \<Rightarrow> el2_frame \<Rightarrow> el2_frame" where
  "set_reg r v f = (if r < 31 then f\<lparr>gpr := (gpr f)[r := v]\<rparr> else f)"

end
