(* ===== verification/Kernel_Guest.thy ===== *)
theory Kernel_Guest
  imports El2_State
begin

text \<open>
  The confined full-kernel guest of \<open>arch/aarch64/el2/l24b_guest.rs\<close>: launch (\<open>HVC #16\<close>),
  the stage-2 abort handler with its emulated windows, the completion hypercall
  (\<open>HVC #17\<close>), the trapped \<open>WFI\<close>, and the teardown they share.
\<close>

definition KG_HCR_RW :: u64 where "KG_HCR_RW = push_bit 31 1"
definition KG_HCR_VM :: u64 where "KG_HCR_VM = push_bit 0 1"
definition KG_HCR_TWI :: u64 where "KG_HCR_TWI = push_bit 13 1"
definition PL011_BLOCK_BASE :: u64 where "PL011_BLOCK_BASE = 0x09000000"
definition PL011_PAGE :: u64 where "PL011_PAGE = 0x09000000"
definition PL011_DR :: u64 where "PL011_DR = 0x000"
definition PL011_FR :: u64 where "PL011_FR = 0x018"
definition PL011_FR_IDLE :: u64 where "PL011_FR_IDLE = 0x90"
definition VIRTIO_BLOCK_BASE :: u64 where "VIRTIO_BLOCK_BASE = 0x0A000000"
definition KG_TRAP_CAP :: u64 where "KG_TRAP_CAP = 2000000"
definition KG_DOORBELL_MIN :: u64 where "KG_DOORBELL_MIN = 3"
definition KG_SCTLR_EL1_MMU_OFF :: u64 where "KG_SCTLR_EL1_MMU_OFF = 0x30D00800"
definition KG_PROBE_SENTINEL :: u64 where "KG_PROBE_SENTINEL = 0x484F535452414D21"
definition SPSR_EL1H_DAIF :: u64 where "SPSR_EL1H_DAIF = 0x3C5"

definition FAIL_KG_BUILD :: u64 where "FAIL_KG_BUILD = 0xB2400000001"
definition FAIL_KG_GUEST_REPORTED :: u64 where "FAIL_KG_GUEST_REPORTED = 0xB2400000002"
definition FAIL_KG_EARLY_PARK :: u64 where "FAIL_KG_EARLY_PARK = 0xB2400000003"
definition FAIL_KG_STORM :: u64 where "FAIL_KG_STORM = 0xB2400000004"
definition FAIL_KG_UNEXPECTED_IPA :: u64 where "FAIL_KG_UNEXPECTED_IPA = 0xB2400000005"
definition FAIL_KG_NISV :: u64 where "FAIL_KG_NISV = 0xB2400000006"
definition FAIL_KG_IABT :: u64 where "FAIL_KG_IABT = 0xB2400000007"
definition FAIL_KG_DOORBELL :: u64 where "FAIL_KG_DOORBELL = 0xB2400000008"
definition FAIL_KG_HANDOFF :: u64 where "FAIL_KG_HANDOFF = 0xB2400000009"
definition FAIL_KG_PROBE_MISS :: u64 where "FAIL_KG_PROBE_MISS = 0xB240000000A"
definition FAIL_KG_SENTINEL :: u64 where "FAIL_KG_SENTINEL = 0xB240000000B"
definition FAIL_KG_DISCRIMINATOR :: u64 where "FAIL_KG_DISCRIMINATOR = 0xB240000000C"
definition FAIL_KG_S1PTW :: u64 where "FAIL_KG_S1PTW = 0xB240000000D"

definition kg_is_armed :: "el2 \<Rightarrow> bool" where
  "kg_is_armed s \<longleftrightarrow> kg_armed s \<noteq> 0"

definition kg_flush :: "el2 \<Rightarrow> el2" where
  "kg_flush s = (case kg_log_flush (kg_logbuf s, console s) of (l, con) \<Rightarrow> s\<lparr>kg_logbuf := l, console := con\<rparr>)"

definition kg_push :: "u8 \<Rightarrow> el2 \<Rightarrow> el2" where
  "kg_push b s = (case kg_log_push b (kg_logbuf s, console s) of (l, con) \<Rightarrow> s\<lparr>kg_logbuf := l, console := con\<rparr>)"

definition kg_arm_el2 :: "u64 \<Rightarrow> u64 \<Rightarrow> el2 \<Rightarrow> el2" where
  "kg_arm_el2 vtcr_val vttbr_val s =
     s\<lparr>vtcr_el2 := vtcr_val, vttbr_el2 := vttbr_val, hcr_el2 := KG_HCR_RW OR KG_HCR_VM OR KG_HCR_TWI\<rparr>"

definition kg_teardown_el2 :: "el2 \<Rightarrow> el2" where
  "kg_teardown_el2 s = (let s = kg_flush (s\<lparr>hcr_el2 := KG_HCR_RW, vttbr_el2 := 0\<rparr>) in
     s\<lparr>sp_el1 := kg_sp s, kg_armed := 0\<rparr>)"

definition kg_guest_sctlr_mmu_off :: "el2 \<Rightarrow> el2" where
  "kg_guest_sctlr_mmu_off s = s\<lparr>sctlr_el1 := KG_SCTLR_EL1_MMU_OFF\<rparr>"

text \<open>The arguments ride the frame: \<open>x0\<close> VTCR, \<open>x1\<close> VTTBR, \<open>x2\<close> entry, \<open>x3\<close> boot info, \<open>x4\<close> nonce, \<open>x5\<close> probe.\<close>

definition kguest_launch :: "el2_frame \<Rightarrow> el2 \<Rightarrow> el2 \<times> el2_exit" where
  "kguest_launch f s = (let
     s = s\<lparr>kg_done := 0, kg_nonce := gpr f ! 4, kg_probe_ipa := gpr f ! 5, kg_doorbell := 0, kg_last := 0, kg_echo := 0,
           kg_probes := 0, kg_traps := 0, kg_sp := sp_el1 s, kg_fault_ipa := 0, kg_fault_esr := 0,
           kg_logbuf := kg_log_reset (kg_logbuf s), kg_armed := 1\<rparr>;
     s = kg_guest_sctlr_mmu_off (kg_arm_el2 (gpr f ! 0) (gpr f ! 1) s)
   in el2_enter (gpr f ! 2) SPSR_EL1H_DAIF [(0, gpr f ! 3), (1, 0), (2, 0), (3, 0)] s)"

definition kg_fail :: "u64 \<Rightarrow> u64 \<Rightarrow> el2 \<Rightarrow> el2 \<times> el2_exit" where
  "kg_fail code x1val s = el2_return_to_kernel code x1val (kg_teardown_el2 s)"

definition kguest_done :: "el2_frame \<Rightarrow> el2 \<Rightarrow> el2 \<times> el2_exit" where
  "kguest_done f s = (let status = gpr f ! 0; echo = gpr f ! 1 in
     if status \<noteq> 0 then kg_fail FAIL_KG_GUEST_REPORTED status s
     else el2_abort_retry f (s\<lparr>kg_echo := echo, kg_done := 1\<rparr>))"

definition kg_packed :: "el2 \<Rightarrow> u64" where
  "kg_packed s = (kg_doorbell s AND 0xFFFF) OR push_bit 16 (kg_probes s AND 0xFF) OR push_bit 32 (kg_traps s AND 0xFFFFFFFF)"

definition kguest_wfx :: "el2_frame \<Rightarrow> u64 \<Rightarrow> el2 \<Rightarrow> el2 \<times> el2_exit" where
  "kguest_wfx f esr s = (if kg_done s = 0 then kg_fail FAIL_KG_EARLY_PARK esr s
     else if kg_doorbell s < KG_DOORBELL_MIN \<or> kg_last s \<noteq> kg_nonce s \<or> kg_echo s \<noteq> kg_nonce s
       then kg_fail FAIL_KG_DOORBELL (kg_doorbell s) s
     else el2_return_to_kernel 0 (kg_packed s) (kg_teardown_el2 s))"

section \<open>The abort handler\<close>

definition in_block :: "u64 \<Rightarrow> u64 \<Rightarrow> bool" where
  "in_block bs ipa \<longleftrightarrow> ipa \<ge> bs \<and> ipa < bs + BLOCK_2M"

definition in_doorbell :: "u64 \<Rightarrow> bool" where
  "in_doorbell ipa \<longleftrightarrow> ipa AND NOT 0xFFF = GUEST_DOORBELL_IPA"

definition in_probe :: "u64 \<Rightarrow> el2 \<Rightarrow> bool" where
  "in_probe ipa s \<longleftrightarrow> (let probe_page = kg_probe_ipa s AND NOT 0xFFF in probe_page \<noteq> 0 \<and> ipa AND NOT 0xFFF = probe_page)"

definition kg_write :: "u64 \<Rightarrow> u64 \<Rightarrow> u64 \<Rightarrow> el2 \<Rightarrow> el2" where
  "kg_write ipa off value s = (if in_doorbell ipa then s\<lparr>kg_doorbell := kg_doorbell s + 1, kg_last := value\<rparr>
     else if in_probe ipa s then s\<lparr>kg_probes := kg_probes s + 1\<rparr>
     else if in_block PL011_BLOCK_BASE ipa \<and> ipa AND NOT 0xFFF = PL011_PAGE \<and> off = PL011_DR
       then kg_push (ucast (value AND 0xFF)) s
     else s)"

definition kg_read :: "u64 \<Rightarrow> u64 \<Rightarrow> u64 \<Rightarrow> el2 \<Rightarrow> u64" where
  "kg_read esr ipa off s = (let
     v = (if in_block PL011_BLOCK_BASE ipa \<and> ipa AND NOT 0xFFF = PL011_PAGE \<and> off = PL011_FR then PL011_FR_IDLE
          else if in_doorbell ipa then kg_doorbell s else 0)
   in if dabt_iss_sf esr = 0 then v AND 0xFFFFFFFF else v)"

definition kg_emulate :: "trap_regs \<Rightarrow> u64 \<Rightarrow> el2_frame \<Rightarrow> el2 \<Rightarrow> el2 \<times> el2_exit" where
  "kg_emulate h ipa f s = (let
     esr = esr_el2 h;
     srt = unat (dabt_iss_srt esr);
     off = far_el2 h AND 0xFFF
   in if esr_wnr esr = 1 then el2_abort_retry (advance f) (kg_write ipa off (gpr_value f srt) s)
      else el2_abort_retry (advance (set_reg srt (kg_read esr ipa off s) f)) s)"

definition kguest_abort :: "trap_regs \<Rightarrow> el2_frame \<Rightarrow> el2 \<Rightarrow> el2 \<times> el2_exit" where
  "kguest_abort h f s = (let
     esr = esr_el2 h;
     ipa = hpfar_fault_ipa (hpfar_el2 h);
     s = s\<lparr>kg_traps := kg_traps s + 1\<rparr>
   in if kg_traps s > KG_TRAP_CAP then kg_fail FAIL_KG_STORM ipa s
   else let s = s\<lparr>kg_fault_ipa := ipa, kg_fault_esr := esr\<rparr> in
     if esr_ec esr = EC_IABT_LOW then kg_fail FAIL_KG_IABT ipa s
     else if esr_s1ptw esr \<noteq> 0 then kg_fail FAIL_KG_S1PTW ipa s
     else if \<not> (in_block PL011_BLOCK_BASE ipa \<or> in_block VIRTIO_BLOCK_BASE ipa \<or> in_doorbell ipa \<or> in_probe ipa s)
       then kg_fail FAIL_KG_UNEXPECTED_IPA ipa s
     else if \<not> dabt_is_emulatable esr
       then el2_return_to_kernel FAIL_KG_NISV ipa
              (serial_write (ascii ''el2: nisv-abort ipa='' @ diag_write_hex ipa @ [0x0A]) (kg_teardown_el2 s))
     else kg_emulate h ipa f s)"

end
