(* ===== verification/El2_Monitor.thy ===== *)
theory El2_Monitor
  imports Kernel_Guest
begin

text \<open>
  The resident EL2 monitor of \<open>arch/aarch64/el2/mod.rs\<close>: the synchronous handler with one
  definition per dispatch arm, the stage-2 demand-fault handler, register and device
  emulation, the injected undefined instruction, the scheduler's timer handler and verdict,
  and the fault handler. Link-time addresses of the guest stubs and the timer period are the
  record \<open>image\<close>.
\<close>

section \<open>Constants\<close>

record image =
  guest_stub :: u64
  exits_guest_stub :: u64
  tick_period :: u64

definition HVC_IMM_MASK :: u64 where "HVC_IMM_MASK = 0xFFFF"
definition GUEST_MAGIC :: u64 where "GUEST_MAGIC = 0xE12"
definition STAGE2_GUEST_MAGIC :: u64 where "STAGE2_GUEST_MAGIC = 0xACE"
definition UNDEF_GUEST_MAGIC :: u64 where "UNDEF_GUEST_MAGIC = 0xE22"
definition SYSREG_EMU_VAL :: u64 where "SYSREG_EMU_VAL = 0x5103"
definition MMIO_VAL :: u64 where "MMIO_VAL = 0x0D51"
definition TRAP_GUEST_MAGIC :: u64 where "TRAP_GUEST_MAGIC = 0xD23"
definition NESTED_GUEST_MAGIC :: u64 where "NESTED_GUEST_MAGIC = 0x2E5"
definition NESTED_SENTINEL :: u64 where "NESTED_SENTINEL = 0xB22B"
definition VGIC_VINTID :: u64 where "VGIC_VINTID = 0x2A"
definition VGIC_GUEST_MAGIC :: u64 where "VGIC_GUEST_MAGIC = 0x761"
definition SPSR_EL1H_VGIC :: u64 where "SPSR_EL1H_VGIC = 0x345"

definition FAIL_BAD_MAGIC :: u64 where "FAIL_BAD_MAGIC = 0xE1200000001"
definition FAIL_BAD_IMM :: u64 where "FAIL_BAD_IMM = 0xE1200000002"
definition FAIL_BAD_EC :: u64 where "FAIL_BAD_EC = 0xE1200000003"
definition FAIL_EL2_FAULT :: u64 where "FAIL_EL2_FAULT = 0xE1200000004"
definition FAIL_S2_S1PTW :: u64 where "FAIL_S2_S1PTW = 0xAC100000002"
definition FAIL_S2_NOT_XLAT :: u64 where "FAIL_S2_NOT_XLAT = 0xAC100000003"
definition FAIL_S2_BAD_IPA :: u64 where "FAIL_S2_BAD_IPA = 0xAC100000004"
definition FAIL_S2_MAP :: u64 where "FAIL_S2_MAP = 0xAC100000005"
definition FAIL_S2_BAD_MAGIC :: u64 where "FAIL_S2_BAD_MAGIC = 0xAC100000006"
definition FAIL_S2_NOT_SERVED :: u64 where "FAIL_S2_NOT_SERVED = 0xAC100000007"
definition FAIL_EXITS_WFX_MISS :: u64 where "FAIL_EXITS_WFX_MISS = 0xE2200000001"
definition FAIL_EXITS_UNDEF_MISS :: u64 where "FAIL_EXITS_UNDEF_MISS = 0xE2200000002"
definition FAIL_EXITS_BAD_MAGIC :: u64 where "FAIL_EXITS_BAD_MAGIC = 0xE2200000003"
definition FAIL_TRAP_SYSREG_MISS :: u64 where "FAIL_TRAP_SYSREG_MISS = 0xD2300000001"
definition FAIL_TRAP_MMIO_WR_MISS :: u64 where "FAIL_TRAP_MMIO_WR_MISS = 0xD2300000002"
definition FAIL_TRAP_MMIO_RD_MISS :: u64 where "FAIL_TRAP_MMIO_RD_MISS = 0xD2300000003"
definition FAIL_TRAP_SYSREG_VAL :: u64 where "FAIL_TRAP_SYSREG_VAL = 0xD2300000004"
definition FAIL_TRAP_MMIO_VAL :: u64 where "FAIL_TRAP_MMIO_VAL = 0xD2300000005"
definition FAIL_TRAP_BAD_MAGIC :: u64 where "FAIL_TRAP_BAD_MAGIC = 0xD2300000006"
definition FAIL_TRAP_BAD_SYSREG :: u64 where "FAIL_TRAP_BAD_SYSREG = 0xD2300000007"
definition FAIL_TRAP_MMIO_NISV :: u64 where "FAIL_TRAP_MMIO_NISV = 0xD2300000008"
definition FAIL_NG_READBACK :: u64 where "FAIL_NG_READBACK = 0x2E500000003"
definition FAIL_NG_BAD_MAGIC :: u64 where "FAIL_NG_BAD_MAGIC = 0x2E500000004"
definition FAIL_VGIC_BAD_MAGIC :: u64 where "FAIL_VGIC_BAD_MAGIC = 0x76100000001"
definition FAIL_VGIC_NO_PARK :: u64 where "FAIL_VGIC_NO_PARK = 0x76100000002"
definition FAIL_VGIC_NO_RETIRE :: u64 where "FAIL_VGIC_NO_RETIRE = 0x76100000003"
definition FAIL_VGIC_NO_LR :: u64 where "FAIL_VGIC_NO_LR = 0x76100000004"
definition FAIL_VGIC_RELOOP :: u64 where "FAIL_VGIC_RELOOP = 0x76100000005"
definition FAIL_SCHED_VMID0_STARVED :: u64 where "FAIL_SCHED_VMID0_STARVED = 0x5CE00000002"
definition FAIL_SCHED_VMID1_STARVED :: u64 where "FAIL_SCHED_VMID1_STARVED = 0x5CE00000003"
definition FAIL_SCHED_ORDER :: u64 where "FAIL_SCHED_ORDER = 0x5CE00000004"
definition FAIL_SCHED_FOLD :: u64 where "FAIL_SCHED_FOLD = 0x5CE00000005"
definition FAIL_SCHED_TAMPER :: u64 where "FAIL_SCHED_TAMPER = 0x5CE00000006"
definition FAIL_SCHED_FRAME :: u64 where "FAIL_SCHED_FRAME = 0x5CE00000007"
definition FAIL_SCHED_SHORT :: u64 where "FAIL_SCHED_SHORT = 0x5CE00000008"
definition FAIL_SCHED_TIMER_BAD_INTID :: u64 where "FAIL_SCHED_TIMER_BAD_INTID = 0x5CE00000009"
definition FAIL_SCHED_TIMER_ISTATUS :: u64 where "FAIL_SCHED_TIMER_ISTATUS = 0x5CE0000000A"
definition FAIL_SCHED_TIMER_STORM :: u64 where "FAIL_SCHED_TIMER_STORM = 0x5CE0000000B"
definition FAIL_SCHED_TIMER_UNARMED :: u64 where "FAIL_SCHED_TIMER_UNARMED = 0x5CE0000000C"
definition FAIL_SCHED_YIELD_UNDER_TIMER :: u64 where "FAIL_SCHED_YIELD_UNDER_TIMER = 0x5CE0000000E"
definition M27_SLOT0_TICKS :: u64 where "M27_SLOT0_TICKS = 0x1000"
definition M27_SLOT1_TICKS :: u64 where "M27_SLOT1_TICKS = 0x2000"
definition M27_VMID0 :: u16 where "M27_VMID0 = 0"
definition M27_VMID1 :: u16 where "M27_VMID1 = 1"

section \<open>The demand-fault handler\<close>

definition s2_fail :: "u64 \<Rightarrow> u64 \<Rightarrow> el2 \<Rightarrow> el2 \<times> el2_exit" where
  "s2_fail code x1val s = el2_return_to_kernel code x1val (disarm_stage2_el2 s)"

definition aarch64_el2_stage2_abort :: "trap_regs \<Rightarrow> el2_frame \<Rightarrow> el2 \<Rightarrow> el2 \<times> el2_exit" where
  "aarch64_el2_stage2_abort h f s = (let
     esr = esr_el2 h;
     fault_ipa = hpfar_fault_ipa (hpfar_el2 h);
     expect = s2_expect_ipa s
   in if esr_s1ptw esr \<noteq> 0 then s2_fail FAIL_S2_S1PTW fault_ipa s
   else if \<not> esr_is_translation_fault esr then s2_fail FAIL_S2_NOT_XLAT esr s
   else if fault_ipa \<noteq> expect \<or> far_el2 h AND NOT 0xFFF \<noteq> expect then s2_fail FAIL_S2_BAD_IPA fault_ipa s
   else case demand_map_ipa (s2_root s) fault_ipa (s2_demand s) (ram s) of
       (m, False) \<Rightarrow> s2_fail FAIL_S2_MAP fault_ipa (s\<lparr>ram := m\<rparr>)
     | (m, True) \<Rightarrow> el2_abort_retry f (set_s2_served fault_ipa (s\<lparr>ram := m\<rparr>)))"

section \<open>Register and device emulation\<close>

definition el2_sysreg_emulate :: "trap_regs \<Rightarrow> el2_frame \<Rightarrow> el2 \<Rightarrow> el2 \<times> el2_exit" where
  "el2_sysreg_emulate h f s = (let esr = esr_el2 h in
     if esr AND SYSREG_ISS_SYS_MASK \<noteq> SYS_CONTEXTIDR_EL1 \<or> sysreg_iss_is_read esr
       then el2_return_to_kernel FAIL_TRAP_BAD_SYSREG esr (disarm_trap_el2 s)
     else let value = gpr_value f (unat (sysreg_iss_rt esr)) in
       el2_abort_retry (advance f) (set_trap_served TRAP_SYSREG_BIT (record_sysreg_value value s)))"

text \<open>The value a load puts into the register: masked to 32 bits, sign-extended when narrower.\<close>

definition mmio_load_value :: "u64 \<Rightarrow> u64 \<Rightarrow> u64" where
  "mmio_load_value esr v = (let
     sz = dabt_access_size_bytes esr;
     v = (if dabt_iss_sf esr = 0 then v AND 0xFFFFFFFF else v)
   in if dabt_iss_sse esr = 1 \<and> sz < 8
      then let sh = 64 - unat sz * 8; v = signed_drop_bit sh (push_bit sh v)
           in if dabt_iss_sf esr = 0 then v AND 0xFFFFFFFF else v
      else v)"

definition el2_mmio_emulate :: "trap_regs \<Rightarrow> el2_frame \<Rightarrow> el2 \<Rightarrow> el2 \<times> el2_exit" where
  "el2_mmio_emulate h f s = (let
     esr = esr_el2 h;
     dev_ipa = trap_device_ipa s
   in if hpfar_fault_ipa (hpfar_el2 h) \<noteq> dev_ipa then aarch64_el2_stage2_abort h f s
   else if \<not> dabt_is_emulatable esr then el2_return_to_kernel FAIL_TRAP_MMIO_NISV esr (disarm_trap_el2 s)
   else let sz = dabt_access_size_bytes esr; srt = unat (dabt_iss_srt esr) in
     if esr_wnr esr = 1
     then el2_abort_retry (advance f)
            (set_trap_served TRAP_MMIO_WR_BIT (fst (device_mmio dev_ipa True sz (gpr_value f srt) s)))
     else case device_mmio dev_ipa False sz 0 s of (s, v) \<Rightarrow>
       el2_abort_retry (advance (set_reg srt (mmio_load_value esr v) f)) (set_trap_served TRAP_MMIO_RD_BIT s))"

definition el2_mmio_emulate_m27 :: "trap_regs \<Rightarrow> el2_frame \<Rightarrow> el2 \<Rightarrow> el2 \<times> el2_exit" where
  "el2_mmio_emulate_m27 h f s = (let
     esr = esr_el2 h;
     fault_ipa = hpfar_fault_ipa (hpfar_el2 h);
     vmid = vmid_for (sched s) (current_slot (sched s));
     expect_ipa = (if vmid = ucast M27_VMID0 then M27_DEVICE_IPA_0 else M27_DEVICE_IPA_1)
   in if fault_ipa \<noteq> expect_ipa then aarch64_el2_stage2_abort h f s
   else if \<not> dabt_is_emulatable esr then el2_return_to_kernel FAIL_TRAP_MMIO_NISV esr (disarm_sched_el2 s)
   else let sz = dabt_access_size_bytes esr; srt = unat (dabt_iss_srt esr) in
     if esr_wnr esr = 1
     then el2_abort_retry (advance f) (fst (device_mmio_m27 fault_ipa True sz (gpr_value f srt) vmid s))
     else case device_mmio_m27 fault_ipa False sz 0 vmid s of (s, v) \<Rightarrow> el2_abort_retry (advance (set_reg srt v f)) s)"

definition el2_inject_undef :: "trap_regs \<Rightarrow> el2_frame \<Rightarrow> el2 \<Rightarrow> el2 \<times> el2_exit" where
  "el2_inject_undef h f s = (let
     s = set_exit_served EXIT_UNDEF_BIT s;
     s = s\<lparr>esr_el1 := esr_inject_undef, elr_el1 := elr f, spsr_el1 := spsr f\<rparr>
   in el2_enter (vbar_el1 h + EL1_SYNC_SPX_OFFSET) SPSR_EL1H_DAIF [] s)"

section \<open>The scheduler's verdict\<close>

definition m27_frame_plan :: frame_plan where
  "m27_frame_plan = \<lparr>fp_slot_ticks = [M27_SLOT0_TICKS, M27_SLOT1_TICKS], fp_vmid = [M27_VMID0, M27_VMID1]\<rparr>"

record replay =
  rp_clean :: bytes
  rp_tampered :: bytes
  rp_clock :: u64
  rp_seq :: u64
  rp_cur :: nat

definition replay_start :: replay where
  "replay_start = \<lparr>rp_clean = replicate 32 0, rp_tampered = replicate 32 0, rp_clock = 0, rp_seq = 0, rp_cur = 0\<rparr>"

definition replay_step :: "nat \<Rightarrow> replay \<Rightarrow> replay" where
  "replay_step y r = (let
     plan = m27_frame_plan;
     cur = rp_cur r;
     nxt = next_slot cur;
     d = \<lparr>sd_frame_seq = rp_seq r, sd_slot = word_of_nat nxt, sd_vmid_from = fp_vmid plan ! (cur mod 2),
          sd_vmid_to = fp_vmid plan ! (nxt mod 2), sd_t_logical = rp_clock r\<rparr>;
     (scratch, n) = sched_canon d (replicate SCHED_CANON_LEN 0);
     r = (if n = SCHED_CANON_LEN then
            let eid = prov_hash (take n scratch);
                tid = (if y = 0 then prov_hash (take n (scratch[8 := scratch ! 8 XOR 1])) else eid)
            in r\<lparr>rp_clean := chain_mix (rp_clean r) eid, rp_tampered := chain_mix (rp_tampered r) tid\<rparr>
          else r)
   in r\<lparr>rp_clock := rp_clock r + fp_slot_ticks plan ! (cur mod 2),
        rp_seq := (if nxt = 0 then rp_seq r + 1 else rp_seq r), rp_cur := nxt\<rparr>)"

definition m27_replay_head :: "u64 \<Rightarrow> bytes \<times> bytes" where
  "m27_replay_head yields = (let r = fold replay_step [0..<unat yields] replay_start in (rp_clean r, rp_tampered r))"

fun order_check :: "sched_ctx \<Rightarrow> nat \<Rightarrow> nat \<Rightarrow> u64 option" where
  "order_check c i 0 = None"
| "order_check c i (Suc k) = (let expect = (if i mod 2 = 0 then ucast M27_VMID0 else ucast M27_VMID1) in
     if order_at c i \<noteq> expect then Some (order_at c i) else order_check c (Suc i) k)"

definition m27_verdict :: "el2 \<Rightarrow> u64 \<times> u64" where
  "m27_verdict s = (let
     c0 = device_count_m27 (ucast M27_VMID0) s;
     c1 = device_count_m27 (ucast M27_VMID1) s;
     yields = sc_yields_done (sched s);
     plan = m27_frame_plan;
     tot = frame_total plan;
     sum = saturating_add (slot_ticks (sched s) 0) (slot_ticks (sched s) 1);
     committed = head_bytes (sched s);
     (recomputed, tampered) = m27_replay_head yields
   in if c0 = 0 then (FAIL_SCHED_VMID0_STARVED, c0)
   else if c1 = 0 then (FAIL_SCHED_VMID1_STARVED, c1)
   else if yields < 2 * K_MAX_FRAMES then (FAIL_SCHED_SHORT, yields)
   else case order_check (sched s) 0 (min (unat yields) MAX_YIELDS) of
       Some v \<Rightarrow> (FAIL_SCHED_ORDER, v)
     | None \<Rightarrow> if tot \<noteq> sum \<or> tot \<noteq> M27_SLOT0_TICKS + M27_SLOT1_TICKS then (FAIL_SCHED_FRAME, tot)
         else if recomputed \<noteq> committed then (FAIL_SCHED_FOLD, head_witness recomputed)
         else if tampered = committed then (FAIL_SCHED_TAMPER, head_witness tampered)
         else (0, head_witness committed))"

definition m27_done_verdict :: "el2 \<Rightarrow> el2 \<times> el2_exit" where
  "m27_done_verdict s = (let s = disarm_sched_el2 s in case m27_verdict s of (code, x1val) \<Rightarrow> el2_return_to_kernel code x1val s)"

section \<open>The hypercall arms\<close>

definition hvc_guest_done :: "el2_frame \<Rightarrow> el2 \<Rightarrow> el2 \<times> el2_exit" where
  "hvc_guest_done f s = (let magic = gpr f ! 0 in
     el2_return_to_kernel (if magic = GUEST_MAGIC then 0 else FAIL_BAD_MAGIC) magic s)"

definition hvc_stage2_arm :: "el2_frame \<Rightarrow> el2 \<Rightarrow> el2 \<times> el2_exit" where
  "hvc_stage2_arm f s = el2_enter (gpr f ! 3) SPSR_EL1H_DAIF []
     (arm_stage2_el2 (gpr f ! 1) (gpr f ! 2) (set_s2_context (gpr f ! 0) (gpr f ! 4) (gpr f ! 5) s))"

definition hvc_stage2_done :: "el2_frame \<Rightarrow> el2 \<Rightarrow> el2 \<times> el2_exit" where
  "hvc_stage2_done f s = (let s = disarm_stage2_el2 s; magic = gpr f ! 0; served = s2_served s; expect = s2_expect_ipa s in
     el2_return_to_kernel (if magic \<noteq> STAGE2_GUEST_MAGIC then FAIL_S2_BAD_MAGIC
       else if served \<noteq> expect then FAIL_S2_NOT_SERVED else 0) served s)"

definition hvc_exits_arm :: "image \<Rightarrow> el2 \<Rightarrow> el2 \<times> el2_exit" where
  "hvc_exits_arm img s =
     el2_enter (exits_guest_stub img) SPSR_EL1H_DAIF [] (arm_exits_el2 (reset_served (exits_set_armed True s)))"

definition hvc_exits_done :: "el2_frame \<Rightarrow> el2 \<Rightarrow> el2 \<times> el2_exit" where
  "hvc_exits_done f s = (let s = exits_set_armed False (disarm_exits_el2 s); magic = gpr f ! 0; served = exits_served s in
     el2_return_to_kernel (if served AND EXIT_WFX_BIT = 0 then FAIL_EXITS_WFX_MISS
       else if served AND EXIT_UNDEF_BIT = 0 then FAIL_EXITS_UNDEF_MISS
       else if magic \<noteq> UNDEF_GUEST_MAGIC then FAIL_EXITS_BAD_MAGIC else 0) served s)"

definition hvc_trap_arm :: "el2_frame \<Rightarrow> el2 \<Rightarrow> el2 \<times> el2_exit" where
  "hvc_trap_arm f s = el2_enter (gpr f ! 3) SPSR_EL1H_DAIF []
     (arm_trap_el2 (gpr f ! 1) (gpr f ! 2) (reset_context (gpr f ! 4) (trap_set_armed True s)))"

definition hvc_trap_done :: "el2_frame \<Rightarrow> el2 \<Rightarrow> el2 \<times> el2_exit" where
  "hvc_trap_done f s = (let s = trap_set_armed False (disarm_trap_el2 s); magic = gpr f ! 0; served = trap_served s in
     el2_return_to_kernel (if served AND TRAP_SYSREG_BIT = 0 then FAIL_TRAP_SYSREG_MISS
       else if served AND TRAP_MMIO_WR_BIT = 0 then FAIL_TRAP_MMIO_WR_MISS
       else if served AND TRAP_MMIO_RD_BIT = 0 then FAIL_TRAP_MMIO_RD_MISS
       else if trap_sysreg s \<noteq> SYSREG_EMU_VAL then FAIL_TRAP_SYSREG_VAL
       else if device_shadow s \<noteq> MMIO_VAL then FAIL_TRAP_MMIO_VAL
       else if magic \<noteq> TRAP_GUEST_MAGIC then FAIL_TRAP_BAD_MAGIC else 0) served s)"

definition hvc_nested_arm :: "el2_frame \<Rightarrow> el2 \<Rightarrow> el2 \<times> el2_exit" where
  "hvc_nested_arm f s = el2_enter (gpr f ! 3) SPSR_EL1H_DAIF [(4, gpr f ! 4), (5, gpr f ! 5), (6, gpr f ! 6), (7, gpr f ! 7)]
     (arm_stage2_el2 (gpr f ! 1) (gpr f ! 2) (set_s2_context (gpr f ! 0) (gpr f ! 7) (gpr f ! 7) s))"

definition hvc_nested_done :: "el2_frame \<Rightarrow> el2 \<Rightarrow> el2 \<times> el2_exit" where
  "hvc_nested_done f s = (let s = disarm_stage2_el2 s; magic = gpr f ! 0; alias = ram s (s2_demand s) in
     el2_return_to_kernel (if alias \<noteq> NESTED_SENTINEL then FAIL_NG_READBACK
       else if magic \<noteq> NESTED_GUEST_MAGIC then FAIL_NG_BAD_MAGIC else 0) magic s)"

definition hvc_vgic_arm :: "trap_regs \<Rightarrow> el2_frame \<Rightarrow> el2 \<Rightarrow> el2 \<times> el2_exit" where
  "hvc_vgic_arm h f s = (let s = arm_vgic_el2 (vgic_set_armed True s) in
     if num_lrs h = 0 then el2_return_to_kernel FAIL_VGIC_NO_LR (esr_el2 h) (vgic_set_armed False (disarm_vgic_el2 s))
     else el2_enter (gpr f ! 3) SPSR_EL1H_VGIC [] s)"

definition hvc_vgic_done :: "trap_regs \<Rightarrow> el2_frame \<Rightarrow> el2 \<Rightarrow> el2 \<times> el2_exit" where
  "hvc_vgic_done h f s = (let magic = gpr f ! 0; parked = park_seen s; retired = lr0_retired h;
     s = vgic_set_armed False (disarm_vgic_el2 s) in
     el2_return_to_kernel (if \<not> parked then FAIL_VGIC_NO_PARK
       else if magic \<noteq> VGIC_GUEST_MAGIC then FAIL_VGIC_BAD_MAGIC
       else if \<not> retired then FAIL_VGIC_NO_RETIRE else 0) magic s)"

definition hvc_sched_arm :: "el2_frame \<Rightarrow> el2 \<Rightarrow> el2 \<times> el2_exit" where
  "hvc_sched_arm f s = (let
     s = s\<lparr>sched := set_sched_context m27_frame_plan (gpr f ! 1) (gpr f ! 2) (gpr f ! 3) (gpr f ! 4) (sched s)\<rparr>;
     s = arm_sched_el2 (gpr f ! 0) (gpr f ! 1) (reset_device_pair_m27 s);
     s = s\<lparr>sched := set_timer_mode TMODE_PREEMPT (sched s)\<rparr>
   in el2_enter (gpr f ! 3) SPSR_EL1H_DAIF [] (arm_cnthp_window_el2 (slot_ticks (sched s) 0) True s))"

definition hvc_sched_yield :: "trap_regs \<Rightarrow> el2 \<Rightarrow> el2 \<times> el2_exit" where
  "hvc_sched_yield h s =
     el2_return_to_kernel FAIL_SCHED_YIELD_UNDER_TIMER (esr_el2 h) (disarm_sched_el2 (disarm_cnthp_window_el2 s))"

definition hvc_timer_smoke :: "image \<Rightarrow> el2_frame \<Rightarrow> el2 \<Rightarrow> el2 \<times> el2_exit" where
  "hvc_timer_smoke img f s = el2_enter (gpr f ! 3) SPSR_EL1H_DAIF []
     (arm_cnthp_window_el2 (tick_period img) False (s\<lparr>sched := set_timer_mode TMODE_SMOKE (reset_eoi (sched s))\<rparr>))"

definition hvc_kguest_done :: "el2_frame \<Rightarrow> el2 \<Rightarrow> el2 \<times> el2_exit" where
  "hvc_kguest_done f s = (if kg_is_armed s then kguest_done f s else el2_return_to_kernel FAIL_BAD_IMM 17 s)"

definition hvc_dispatch :: "image \<Rightarrow> trap_regs \<Rightarrow> el2_frame \<Rightarrow> el2 \<Rightarrow> el2 \<times> el2_exit" where
  "hvc_dispatch img h f s = (let imm = esr_el2 h AND HVC_IMM_MASK in
     if imm = 0 then el2_enter (guest_stub img) SPSR_EL1H_DAIF [] s
     else if imm = 1 then hvc_guest_done f s
     else if imm = 2 then hvc_stage2_arm f s
     else if imm = 3 then hvc_stage2_done f s
     else if imm = 4 then hvc_exits_arm img s
     else if imm = 5 then hvc_exits_done f s
     else if imm = 6 then hvc_trap_arm f s
     else if imm = 7 then hvc_trap_done f s
     else if imm = 8 then hvc_nested_arm f s
     else if imm = 9 then hvc_nested_done f s
     else if imm = 10 then hvc_vgic_arm h f s
     else if imm = 11 then hvc_vgic_done h f s
     else if imm = 12 then hvc_sched_arm f s
     else if imm = 14 then hvc_sched_yield h s
     else if imm = 13 then m27_done_verdict s
     else if imm = 15 then hvc_timer_smoke img f s
     else if imm = 16 then kguest_launch f s
     else if imm = 17 then hvc_kguest_done f s
     else el2_return_to_kernel FAIL_BAD_IMM imm s)"

section \<open>The synchronous handler\<close>

definition exit_stage2 :: "trap_regs \<Rightarrow> el2_frame \<Rightarrow> el2 \<Rightarrow> el2 \<times> el2_exit" where
  "exit_stage2 h f s = (if kg_is_armed s then kguest_abort h f s
     else if sched_armed s then el2_mmio_emulate_m27 h f s
     else if trap_is_armed s then el2_mmio_emulate h f s
     else aarch64_el2_stage2_abort h f s)"

definition exit_wfx :: "trap_regs \<Rightarrow> el2_frame \<Rightarrow> el2 \<Rightarrow> el2 \<times> el2_exit" where
  "exit_wfx h f s = (if kg_is_armed s then kguest_wfx f (esr_el2 h) s
     else if vgic_is_armed s then
       (case note_park s of (s, parks) \<Rightarrow>
          if parks > 1 then el2_return_to_kernel FAIL_VGIC_RELOOP (esr_el2 h) s
          else el2_abort_retry (advance f) (inject_virq VGIC_VINTID s))
     else if exits_is_armed s then el2_abort_retry (advance f) (set_exit_served EXIT_WFX_BIT s)
     else el2_return_to_kernel FAIL_BAD_EC (esr_el2 h) s)"

definition aarch64_el2_sync_handler :: "image \<Rightarrow> trap_regs \<Rightarrow> el2_frame \<Rightarrow> el2 \<Rightarrow> el2 \<times> el2_exit" where
  "aarch64_el2_sync_handler img h f s = (case classify_exit (esr_el2 h) of
     StageTwoAbort \<Rightarrow> exit_stage2 h f s
   | Wfx \<Rightarrow> exit_wfx h f s
   | Undef \<Rightarrow> if exits_is_armed s then el2_inject_undef h f s else el2_return_to_kernel FAIL_BAD_EC (esr_el2 h) s
   | Sys64 \<Rightarrow> if trap_is_armed s then el2_sysreg_emulate h f s else el2_return_to_kernel FAIL_BAD_EC (esr_el2 h) s
   | Smc \<Rightarrow> el2_return_to_kernel FAIL_BAD_EC (esr_el2 h) s
   | Hvc \<Rightarrow> hvc_dispatch img h f s)"

section \<open>The timer handler\<close>

definition timer_smoke :: "image \<Rightarrow> trap_regs \<Rightarrow> el2_frame \<Rightarrow> el2 \<Rightarrow> el2 \<times> el2_exit" where
  "timer_smoke img h f s = (case cnthp_rearm_checked (tick_period img) h s of (s, ok) \<Rightarrow>
     if \<not> ok then el2_return_to_kernel FAIL_SCHED_TIMER_ISTATUS (ucast (gicc_iar h)) (disarm_cnthp_window_el2 s)
     else case note_eoi (sched s) of (c, n) \<Rightarrow> let s = s\<lparr>sched := c\<rparr> in
       if n > EOI_HARD_CAP then el2_return_to_kernel FAIL_SCHED_TIMER_STORM n (disarm_cnthp_window_el2 s)
       else if n \<ge> K_SMOKE_TICKS then el2_return_to_kernel 0 n (disarm_cnthp_window_el2 s)
       else el2_abort_retry f s)"

definition timer_preempt :: "trap_regs \<Rightarrow> el2_frame \<Rightarrow> el2 \<Rightarrow> el2 \<times> el2_exit" where
  "timer_preempt h f s = (case note_switch (sched s) of (c, nxt, next_vttbr, next_entry) \<Rightarrow> let s = s\<lparr>sched := c\<rparr> in
     if sc_frames_done (sched s) \<ge> K_MAX_FRAMES then m27_done_verdict (disarm_cnthp_window_el2 s)
     else case cnthp_rearm_checked (slot_ticks (sched s) nxt) h s of (s, ok) \<Rightarrow>
       if \<not> ok then el2_return_to_kernel FAIL_SCHED_TIMER_ISTATUS (ucast (gicc_iar h))
                       (disarm_sched_el2 (disarm_cnthp_window_el2 s))
       else case note_eoi (sched s) of (c, n) \<Rightarrow> let s = s\<lparr>sched := c\<rparr> in
         if n > EOI_HARD_CAP then el2_return_to_kernel FAIL_SCHED_TIMER_STORM n (disarm_sched_el2 (disarm_cnthp_window_el2 s))
         else el2_abort_retry (f\<lparr>elr := next_entry\<rparr>) (switch_vttbr_el2 next_vttbr s))"

definition aarch64_el2_timer_handler :: "image \<Rightarrow> trap_regs \<Rightarrow> el2_frame \<Rightarrow> el2 \<Rightarrow> el2 \<times> el2_exit" where
  "aarch64_el2_timer_handler img h f s = (
     if gicc_iar h AND 0x3FF \<noteq> CNTHP_PPI
       then el2_return_to_kernel FAIL_SCHED_TIMER_BAD_INTID (ucast (gicc_iar h)) (disarm_sched_el2 (disarm_cnthp_window_el2 s))
     else let md = sc_tmode (sched s) in
       if md = TMODE_SMOKE then timer_smoke img h f s
       else if md = TMODE_PREEMPT then timer_preempt h f s
       else el2_return_to_kernel FAIL_SCHED_TIMER_UNARMED md (disarm_sched_el2 (disarm_cnthp_window_el2 s)))"

definition aarch64_el2_fault_handler :: "trap_regs \<Rightarrow> el2_frame \<Rightarrow> el2 \<Rightarrow> el2 \<times> el2_exit" where
  "aarch64_el2_fault_handler h f s = (let
     s = (if fault_reported s then s
          else serial_write (ascii ''el2: UNEXPECTED vector entry esr='' @ diag_write_hex (esr_el2 h) @ ascii '' elr='' @
                 diag_write_hex (elr f) @ [0x0A]) (s\<lparr>fault_reported := True\<rparr>))
   in el2_return_to_kernel FAIL_EL2_FAULT (esr_el2 h) s)"

section \<open>A concrete monitor\<close>

definition zero_frame :: el2_frame where
  "zero_frame = \<lparr>gpr = replicate 31 0, elr = 0, spsr = 0\<rparr>"

definition demo_el2 :: "memory \<Rightarrow> el2" where
  "demo_el2 m = \<lparr>hcr_el2 = HCR_RW, vtcr_el2 = 0, vttbr_el2 = 0, cptr_el2 = 0, cnthp_ctl = 0, cnthp_tval = 0, ppi26 = False,
     gich_hcr_r = 0, gich_lr0 = 0, sp_el1 = 0x40100000, sctlr_el1 = 0, esr_el1 = 0, elr_el1 = 0, spsr_el1 = 0,
     s2_root = 0, s2_demand = 0, s2_expect_ipa = 0, s2_served = 0, exits_armed = 0, exits_served = 0,
     device_shadow = 0, device_pair = [0, 0], trap_armed = 0, trap_served = 0, trap_device_ipa = 0, trap_sysreg = 0,
     vgic_armed = 0, vgic_park_seen = 0, vgic_parks = 0, sched = sched_ctx_new,
     kg_armed = 0, kg_done = 0, kg_nonce = 0, kg_probe_ipa = 0, kg_doorbell = 0, kg_last = 0, kg_echo = 0, kg_probes = 0,
     kg_traps = 0, kg_sp = 0, kg_fault_ipa = 0, kg_fault_esr = 0, kg_logbuf = kg_log_new, console = [],
     b0 = zero_frame, depth = 0, fault_reported = False, ram = m\<rparr>"

definition demo_image :: image where
  "demo_image = \<lparr>guest_stub = 0x40090000, exits_guest_stub = 0x40091000, tick_period = 0x10000\<rparr>"

definition demo_trap :: "u64 \<Rightarrow> u64 \<Rightarrow> trap_regs" where
  "demo_trap esr ipa = \<lparr>esr_el2 = esr, hpfar_el2 = push_bit 4 (drop_bit 12 ipa), far_el2 = ipa, vbar_el1 = 0, gich_vtr = 0,
     gich_elrsr0 = 0, gich_lr0_now = 0, gicc_iar = 26, cnthp_ctl_now = 1\<rparr>"

end
