(* ===== verification/Tb_Boot.thy ===== *)
theory Tb_Boot
  imports Brand
begin

text \<open>
  The boot handoff: \<open>crates/tb-boot/src/lib.rs\<close>, the boot-info block, its memory map and the
  entry note, and \<open>crates/tb-boot/src/aarch64.rs\<close>, the producer that lays the block out in
  guest RAM and names the registers of the first instruction. Guest RAM is the list of its
  bytes from \<open>AARCH64_GUEST_RAM_BASE\<close>; the producer returns it also when it refuses.
  \<open>Display\<close> texts are not modelled.
\<close>

section \<open>The contract's data\<close>

definition TB_BOOT_MAGIC :: u64 where "TB_BOOT_MAGIC = BOOT_MAGIC"
definition TB_BOOT_VERSION :: u32 where "TB_BOOT_VERSION = 0"
definition TB_BOOT_FLAG_IN_GUEST :: u32 where "TB_BOOT_FLAG_IN_GUEST = push_bit 0 1"
definition TB_MEM_KIND_RAM :: u32 where "TB_MEM_KIND_RAM = 1"
definition TB_MEM_KIND_RESERVED :: u32 where "TB_MEM_KIND_RESERVED = 2"

datatype mem_kind = Ram | Reserved_mem

fun kind_as_u32 :: "mem_kind \<Rightarrow> u32" where
  "kind_as_u32 Ram = TB_MEM_KIND_RAM"
| "kind_as_u32 Reserved_mem = TB_MEM_KIND_RESERVED"

definition kind_from_u32 :: "u32 \<Rightarrow> mem_kind option" where
  "kind_from_u32 v = (if v = TB_MEM_KIND_RAM then Some Ram
     else if v = TB_MEM_KIND_RESERVED then Some Reserved_mem else None)"

record tb_mem_region =
  mr_base :: u64
  mr_len :: u64
  mr_kind :: u32
  mr_pad :: u32

datatype tb_boot_error =
    BadMagic u64
  | UnsupportedVersion u32
  | ShortBuffer nat nat
  | BadNoteType u32
  | BadNoteName

definition region_new :: "u64 \<Rightarrow> u64 \<Rightarrow> mem_kind \<Rightarrow> tb_mem_region" where
  "region_new b l k = \<lparr>mr_base = b, mr_len = l, mr_kind = kind_as_u32 k, mr_pad = 0\<rparr>"

definition region_kind :: "tb_mem_region \<Rightarrow> mem_kind option" where
  "region_kind r = kind_from_u32 (mr_kind r)"

definition is_ram :: "tb_mem_region \<Rightarrow> bool" where
  "is_ram r \<longleftrightarrow> mr_kind r = TB_MEM_KIND_RAM"

definition REGION_SIZE :: nat where "REGION_SIZE = 24"

definition region_to_bytes :: "tb_mem_region \<Rightarrow> bytes" where
  "region_to_bytes r = le_bytes 8 (mr_base r) @ le_bytes 8 (mr_len r) @ le_bytes 4 (mr_kind r) @ le_bytes 4 (mr_pad r)"

definition read_u64_le :: "bytes \<Rightarrow> nat \<Rightarrow> u64" where
  "read_u64_le buf off = of_le_bytes (slice buf off 8)"

definition read_u32_le :: "bytes \<Rightarrow> nat \<Rightarrow> u32" where
  "read_u32_le buf off = of_le_bytes (slice buf off 4)"

definition region_read :: "bytes \<Rightarrow> tb_boot_error + tb_mem_region" where
  "region_read bs = (if length bs < REGION_SIZE then Inl (ShortBuffer REGION_SIZE (length bs))
     else Inr \<lparr>mr_base = read_u64_le bs 0, mr_len = read_u64_le bs 8, mr_kind = read_u32_le bs 16,
       mr_pad = read_u32_le bs 20\<rparr>)"

text \<open>The items the iterator \<open>Regions\<close> yields until it ends.\<close>

fun regions_from_bytes :: "bytes \<Rightarrow> nat \<Rightarrow> tb_mem_region list" where
  "regions_from_bytes bs 0 = []"
| "regions_from_bytes bs (Suc n) = (case region_read bs of
     Inl e \<Rightarrow> [] | Inr r \<Rightarrow> r # regions_from_bytes (drop REGION_SIZE bs) n)"

record tb_boot_info =
  magic :: u64
  version :: u32
  flags :: u32
  mem_regions_ptr :: u64
  mem_regions_len :: u64
  cmdline_ptr :: u64
  cmdline_len :: u64
  kernel_entry :: u64

definition INFO_SIZE :: nat where "INFO_SIZE = 56"

definition info_new :: "u32 \<Rightarrow> u64 \<Rightarrow> u64 \<Rightarrow> u64 \<Rightarrow> u64 \<Rightarrow> u64 \<Rightarrow> tb_boot_info" where
  "info_new fl rp rl cp cl en = \<lparr>magic = TB_BOOT_MAGIC, version = TB_BOOT_VERSION, flags = fl,
     mem_regions_ptr = rp, mem_regions_len = rl, cmdline_ptr = cp, cmdline_len = cl, kernel_entry = en\<rparr>"

definition validate :: "tb_boot_info \<Rightarrow> tb_boot_error + unit" where
  "validate i = (if magic i \<noteq> TB_BOOT_MAGIC then Inl (BadMagic (magic i))
     else if version i \<noteq> TB_BOOT_VERSION then Inl (UnsupportedVersion (version i)) else Inr ())"

definition info_to_bytes :: "tb_boot_info \<Rightarrow> bytes" where
  "info_to_bytes i = le_bytes 8 (magic i) @ le_bytes 4 (version i) @ le_bytes 4 (flags i) @
     le_bytes 8 (mem_regions_ptr i) @ le_bytes 8 (mem_regions_len i) @ le_bytes 8 (cmdline_ptr i) @
     le_bytes 8 (cmdline_len i) @ le_bytes 8 (kernel_entry i)"

definition info_read :: "bytes \<Rightarrow> tb_boot_error + tb_boot_info" where
  "info_read bs = (if length bs < INFO_SIZE then Inl (ShortBuffer INFO_SIZE (length bs))
     else Inr \<lparr>magic = read_u64_le bs 0, version = read_u32_le bs 8, flags = read_u32_le bs 12,
       mem_regions_ptr = read_u64_le bs 16, mem_regions_len = read_u64_le bs 24,
       cmdline_ptr = read_u64_le bs 32, cmdline_len = read_u64_le bs 40, kernel_entry = read_u64_le bs 48\<rparr>)"

definition read_validated :: "bytes \<Rightarrow> tb_boot_error + tb_boot_info" where
  "read_validated bs = (case info_read bs of Inl e \<Rightarrow> Inl e
   | Inr i \<Rightarrow> (case validate i of Inl e \<Rightarrow> Inl e | Inr _ \<Rightarrow> Inr i))"

definition parse_entry64_note :: "bytes \<Rightarrow> u32 \<Rightarrow> bytes \<Rightarrow> tb_boot_error + u64" where
  "parse_entry64_note nm note_type desc = (if note_type \<noteq> NOTE_TYPE_ENTRY64 then Inl (BadNoteType note_type)
     else let trimmed = takeWhile (\<lambda>b. b \<noteq> 0) nm in
       if trimmed \<noteq> as_bytes NOTE_NAME then Inl BadNoteName
       else if length desc < 8 then Inl (ShortBuffer 8 (length desc))
       else Inr (read_u64_le desc 0))"

section \<open>The aarch64 producer\<close>

definition AARCH64_GUEST_RAM_BASE :: u64 where "AARCH64_GUEST_RAM_BASE = 0x40000000"
definition AARCH64_IMAGE_LMA :: u64 where "AARCH64_IMAGE_LMA = 0x40080000"
definition AARCH64_BOOT_INFO_ADDR :: u64 where "AARCH64_BOOT_INFO_ADDR = 0x40001000"
definition AARCH64_MEM_REGIONS_ADDR :: u64 where "AARCH64_MEM_REGIONS_ADDR = 0x40001040"
definition AARCH64_CMDLINE_ADDR :: u64 where "AARCH64_CMDLINE_ADDR = 0x40001800"
definition KVM_REG_ARM_CORE_BASE :: u64 where "KVM_REG_ARM_CORE_BASE = 0x6030000000100000"
definition AARCH64_PSTATE_EL1H_DAIF :: u64 where "AARCH64_PSTATE_EL1H_DAIF = 0x3c5"

definition core_reg_id :: "u64 \<Rightarrow> u64" where
  "core_reg_id index = KVM_REG_ARM_CORE_BASE OR index"

record reg_write =
  reg_id :: u64
  reg_value :: u64

record aarch64_handoff =
  boot_info_addr :: u64
  handoff_info :: tb_boot_info
  handoff_regs :: "reg_write list"

datatype handoff_error = TooManyRegions | CmdlineTooLong | RamTooSmall

definition write_at :: "bytes \<Rightarrow> u64 \<Rightarrow> bytes \<Rightarrow> handoff_error + bytes" where
  "write_at ram gpa bs = (if gpa < AARCH64_GUEST_RAM_BASE then Inl RamTooSmall
     else let off = unat (gpa - AARCH64_GUEST_RAM_BASE) in
       case usize_checked_add off (length bs) of
         None \<Rightarrow> Inl RamTooSmall
       | Some e \<Rightarrow> if e > length ram then Inl RamTooSmall else Inr (put off bs ram))"

fun write_regions :: "bytes \<Rightarrow> nat \<Rightarrow> tb_mem_region list \<Rightarrow> bytes \<times> (handoff_error + unit)" where
  "write_regions ram i [] = (ram, Inr ())"
| "write_regions ram i (r # rs) =
     (case write_at ram (AARCH64_MEM_REGIONS_ADDR + word_of_nat i * word_of_nat REGION_SIZE) (region_to_bytes r) of
        Inl e \<Rightarrow> (ram, Inl e) | Inr ram' \<Rightarrow> write_regions ram' (Suc i) rs)"

definition build_handoff_flagged ::
  "bytes \<Rightarrow> tb_mem_region list \<Rightarrow> bytes \<Rightarrow> u64 \<Rightarrow> u32 \<Rightarrow> bytes \<times> (handoff_error + aarch64_handoff)" where
  "build_handoff_flagged ram mem_regions cmdline entry_point fl = (
     let n = word_of_nat (length mem_regions);
         regions_end = AARCH64_MEM_REGIONS_ADDR + n * word_of_nat REGION_SIZE
     in if regions_end > AARCH64_CMDLINE_ADDR then (ram, Inl TooManyRegions)
     else if AARCH64_CMDLINE_ADDR + word_of_nat (length cmdline) + 1 > AARCH64_IMAGE_LMA then (ram, Inl CmdlineTooLong)
     else case write_regions ram 0 mem_regions of
       (ram1, Inl e) \<Rightarrow> (ram1, Inl e)
     | (ram1, Inr _) \<Rightarrow> (case write_at ram1 AARCH64_CMDLINE_ADDR cmdline of
         Inl e \<Rightarrow> (ram1, Inl e)
       | Inr ram2 \<Rightarrow> (case write_at ram2 (AARCH64_CMDLINE_ADDR + word_of_nat (length cmdline)) [0] of
           Inl e \<Rightarrow> (ram2, Inl e)
         | Inr ram3 \<Rightarrow>
             let info = info_new fl AARCH64_MEM_REGIONS_ADDR n AARCH64_CMDLINE_ADDR
                   (word_of_nat (length cmdline)) entry_point
             in case write_at ram3 AARCH64_BOOT_INFO_ADDR (info_to_bytes info) of
               Inl e \<Rightarrow> (ram3, Inl e)
             | Inr ram4 \<Rightarrow> (ram4, Inr \<lparr>boot_info_addr = AARCH64_BOOT_INFO_ADDR, handoff_info = info,
                 handoff_regs =
                  [\<lparr>reg_id = core_reg_id 0, reg_value = AARCH64_BOOT_INFO_ADDR\<rparr>,
                   \<lparr>reg_id = core_reg_id 2, reg_value = 0\<rparr>, \<lparr>reg_id = core_reg_id 4, reg_value = 0\<rparr>,
                   \<lparr>reg_id = core_reg_id 6, reg_value = 0\<rparr>,
                   \<lparr>reg_id = core_reg_id 0x40, reg_value = entry_point\<rparr>,
                   \<lparr>reg_id = core_reg_id 0x42, reg_value = AARCH64_PSTATE_EL1H_DAIF\<rparr>]\<rparr>))))"

definition build_handoff ::
  "bytes \<Rightarrow> tb_mem_region list \<Rightarrow> bytes \<Rightarrow> u64 \<Rightarrow> bytes \<times> (handoff_error + aarch64_handoff)" where
  "build_handoff ram mem_regions cmdline entry_point = build_handoff_flagged ram mem_regions cmdline entry_point 0"

section \<open>The two codecs\<close>

lemma length_region_to_bytes [simp]: "length (region_to_bytes r) = 24"
  by (simp add: region_to_bytes_def)

lemma length_info_to_bytes [simp]: "length (info_to_bytes i) = 56"
  by (simp add: info_to_bytes_def)

lemma region_read_bytes: "region_read (region_to_bytes r @ rest) = Inr r"
  by (simp add: region_read_def region_to_bytes_def REGION_SIZE_def read_u64_le_def read_u32_le_def buffer_simps)

lemma info_read_bytes: "info_read (info_to_bytes i @ rest) = Inr i"
  by (simp add: info_read_def info_to_bytes_def INFO_SIZE_def read_u64_le_def read_u32_le_def buffer_simps)

lemma regions_from_bytes_concat:
  "regions_from_bytes (concat (map region_to_bytes rs) @ rest) (length rs) = rs"
  by (induction rs) (simp_all add: region_read_bytes REGION_SIZE_def)

lemma slices_cover:
  "length bs \<ge> 24 \<Longrightarrow> bs = slice bs 0 8 @ slice bs 8 8 @ slice bs 16 4 @ slice bs 20 4 @ drop 24 bs"
  by (simp add: slice_drop)

lemma info_slices_cover:
  "length bs \<ge> 56 \<Longrightarrow> bs = slice bs 0 8 @ slice bs 8 4 @ slice bs 12 4 @ slice bs 16 8 @ slice bs 24 8 @
     slice bs 32 8 @ slice bs 40 8 @ slice bs 48 8 @ drop 56 bs"
  by (simp add: slice_drop)

text \<open>Both wire forms are canonical: the regions for every value, the boot info for a valid one.\<close>

interpretation region_codec: codec region_to_bytes "of_result \<circ> region_read" "\<lambda>_. True"
proof
  fix bs r
  assume "(of_result \<circ> region_read) bs = Some r"
  then have "length bs \<ge> 24" "region_to_bytes r = slice bs 0 8 @ slice bs 8 8 @ slice bs 16 4 @ slice bs 20 4"
    by (auto simp: region_read_def REGION_SIZE_def region_to_bytes_def read_u64_le_def read_u32_le_def split: if_splits)
  then show "\<exists>rest. bs = region_to_bytes r @ rest"
    using slices_cover[of bs] by (intro exI[of _ "drop 24 bs"]) simp
qed (simp_all add: region_read_bytes)

definition info_ok :: "tb_boot_info \<Rightarrow> bool" where
  "info_ok i \<longleftrightarrow> validate i = Inr ()"

interpretation info_codec: codec info_to_bytes "of_result \<circ> read_validated" info_ok
proof
  fix bs i
  assume "(of_result \<circ> read_validated) bs = Some i"
  then have r: "info_read bs = Inr i" "validate i = Inr ()"
    by (auto simp: read_validated_def split: sum.splits)
  then show "info_ok i"
    by (simp add: info_ok_def)
  have "length bs \<ge> 56" "info_to_bytes i = slice bs 0 8 @ slice bs 8 4 @ slice bs 12 4 @ slice bs 16 8 @
      slice bs 24 8 @ slice bs 32 8 @ slice bs 40 8 @ slice bs 48 8"
    using r(1) by (auto simp: info_read_def INFO_SIZE_def info_to_bytes_def read_u64_le_def read_u32_le_def
        split: if_splits)
  then show "\<exists>rest. bs = info_to_bytes i @ rest"
    using info_slices_cover[of bs] by (intro exI[of _ "drop 56 bs"]) simp
qed (simp add: info_ok_def read_validated_def info_read_bytes)

section \<open>What the producer leaves in guest RAM\<close>

lemma slice_put_same: "off + length xs \<le> length buf \<Longrightarrow> slice (put off xs buf) off (length xs) = xs"
  by (simp add: slice_def put_def)

lemma slice_put_other:
  assumes "off + length xs \<le> length buf" "i + n \<le> off \<or> off + length xs \<le> i"
  shows "slice (put off xs buf) i n = slice buf i n"
proof (rule nth_equalityI)
  show "length (slice (put off xs buf) i n) = length (slice buf i n)"
    using assms(1) by (simp add: slice_def)
next
  fix k
  assume "k < length (slice (put off xs buf) i n)"
  then have "k < n" "i + k < length buf"
    using assms(1) by (auto simp: slice_def)
  then show "slice (put off xs buf) i n ! k = slice buf i n ! k"
    using assms by (auto simp: slice_def put_def nth_append)
qed

lemma write_at_off:
  assumes "off + length bs < 2 ^ 63"
  shows "write_at ram (AARCH64_GUEST_RAM_BASE + word_of_nat off) bs =
    (if off + length bs \<le> length ram then Inr (put off bs ram) else Inl RamTooSmall)"
proof -
  have o: "unat (word_of_nat off :: u64) = off"
    using assms by (simp add: unat_of_nat take_bit_nat_eq_self)
  have "unat (AARCH64_GUEST_RAM_BASE + word_of_nat off) = 0x40000000 + off"
    using assms o by (simp add: AARCH64_GUEST_RAM_BASE_def unat_word_ariths)
  then have "\<not> AARCH64_GUEST_RAM_BASE + word_of_nat off < AARCH64_GUEST_RAM_BASE"
    unfolding word_less_nat_alt by (simp add: AARCH64_GUEST_RAM_BASE_def)
  then show ?thesis
    using assms o by (simp add: write_at_def Let_def)
qed

lemma region_gpa:
  "AARCH64_MEM_REGIONS_ADDR + word_of_nat i * word_of_nat REGION_SIZE =
     AARCH64_GUEST_RAM_BASE + word_of_nat (0x1040 + 24 * i)"
  by (simp add: AARCH64_MEM_REGIONS_ADDR_def AARCH64_GUEST_RAM_BASE_def REGION_SIZE_def)

lemma write_regions_ok:
  assumes "0x1040 + 24 * (i + length rs) < 2 ^ 63" "write_regions ram i rs = (ram', Inr u)"
  shows "ram' = put (0x1040 + 24 * i) (concat (map region_to_bytes rs)) ram \<and>
    (rs = [] \<or> 0x1040 + 24 * (i + length rs) \<le> length ram)"
  using assms
proof (induction rs arbitrary: i ram)
  case Nil
  then show ?case by (simp add: put_def)
next
  case (Cons r rs)
  let ?o = "0x1040 + 24 * i"
  have "write_at ram (AARCH64_GUEST_RAM_BASE + word_of_nat ?o) (region_to_bytes r) =
      (if ?o + 24 \<le> length ram then Inr (put ?o (region_to_bytes r) ram) else Inl RamTooSmall)"
    using Cons.prems(1) by (subst write_at_off) simp_all
  with Cons.prems(2) have room: "?o + 24 \<le> length ram" and
    rest: "write_regions (put ?o (region_to_bytes r) ram) (Suc i) rs = (ram', Inr u)"
    unfolding write_regions.simps region_gpa by (auto split: if_splits)
  have ih: "ram' = put (0x1040 + 24 * Suc i) (concat (map region_to_bytes rs)) (put ?o (region_to_bytes r) ram)"
    "rs = [] \<or> 0x1040 + 24 * (Suc i + length rs) \<le> length ram"
    using Cons.IH[OF _ rest] Cons.prems(1) room by simp_all
  show ?case
    using ih room by (auto simp: put_def min_def add_ac)
qed

definition handoff_written :: "bytes \<Rightarrow> tb_boot_info \<Rightarrow> tb_mem_region list \<Rightarrow> bytes \<Rightarrow> bool" where
  "handoff_written ram info rs cmdline \<longleftrightarrow> 0x1800 + length cmdline + 1 \<le> length ram \<and> length rs \<le> 82 \<and>
     0x1800 + length cmdline + 1 \<le> 0x80000 \<and>
     slice ram 0x1000 56 = info_to_bytes info \<and> slice ram 0x1040 (24 * length rs) = concat (map region_to_bytes rs) \<and>
     slice ram 0x1800 (length cmdline) = cmdline \<and> slice ram (0x1800 + length cmdline) 1 = [0]"

text \<open>The four writes of a build that succeeds, and the room it found.\<close>

lemma build_handoff_steps:
  assumes "24 * length rs < 2 ^ 62" "length cmdline < 2 ^ 62"
    "build_handoff_flagged ram rs cmdline entry fl = (ram', Inr h)"
  obtains "boot_info_addr h = AARCH64_BOOT_INFO_ADDR"
    "handoff_info h = info_new fl AARCH64_MEM_REGIONS_ADDR (word_of_nat (length rs)) AARCH64_CMDLINE_ADDR
       (word_of_nat (length cmdline)) entry"
    "0x1040 + 24 * length rs \<le> 0x1800" "0x1801 + length cmdline \<le> 0x80000" "0x1801 + length cmdline \<le> length ram"
    "ram' = put 0x1000 (info_to_bytes (handoff_info h)) (put (0x1800 + length cmdline) [0] (put 0x1800 cmdline
       (put 0x1040 (concat (map region_to_bytes rs)) ram)))"
proof -
  let ?n = "length rs" and ?c = "length cmdline"
  let ?info = "info_new fl AARCH64_MEM_REGIONS_ADDR (word_of_nat ?n) AARCH64_CMDLINE_ADDR (word_of_nat ?c) entry"
  have w: "unat (word_of_nat k :: u64) = k" if "k < 2 ^ 63" for k
    using that by (simp add: unat_of_nat take_bit_nat_eq_self)
  have regs: "AARCH64_MEM_REGIONS_ADDR + word_of_nat ?n * word_of_nat REGION_SIZE = word_of_nat (0x40001040 + 24 * ?n)"
    by (simp add: AARCH64_MEM_REGIONS_ADDR_def REGION_SIZE_def)
  have cmd: "AARCH64_CMDLINE_ADDR + word_of_nat ?c + 1 = word_of_nat (0x40001801 + ?c)"
    by (simp add: AARCH64_CMDLINE_ADDR_def)
  have addrs: "AARCH64_CMDLINE_ADDR = AARCH64_GUEST_RAM_BASE + word_of_nat 0x1800"
    "AARCH64_CMDLINE_ADDR + word_of_nat ?c = AARCH64_GUEST_RAM_BASE + word_of_nat (0x1800 + ?c)"
    "AARCH64_BOOT_INFO_ADDR = AARCH64_GUEST_RAM_BASE + word_of_nat 0x1000"
    by (simp_all add: AARCH64_CMDLINE_ADDR_def AARCH64_GUEST_RAM_BASE_def AARCH64_BOOT_INFO_ADDR_def)
  have g: "\<not> AARCH64_MEM_REGIONS_ADDR + word_of_nat ?n * word_of_nat REGION_SIZE > AARCH64_CMDLINE_ADDR"
    "\<not> AARCH64_CMDLINE_ADDR + word_of_nat ?c + 1 > AARCH64_IMAGE_LMA"
    using assms(3) by (auto simp: build_handoff_flagged_def Let_def split: if_splits)
  then have n: "0x1040 + 24 * ?n \<le> 0x1800" and c: "0x1801 + ?c \<le> 0x80000"
    using assms(1,2) w[of "0x40001040 + 24 * ?n"] w[of "0x40001801 + ?c"] unfolding regs cmd
    by (simp_all add: word_less_nat_alt AARCH64_CMDLINE_ADDR_def AARCH64_IMAGE_LMA_def del: of_nat_add of_nat_mult)
  from assms(3) g obtain ram1 u ram2 ram3 where
    r1: "write_regions ram 0 rs = (ram1, Inr u)" and
    r2: "write_at ram1 AARCH64_CMDLINE_ADDR cmdline = Inr ram2" and
    r3: "write_at ram2 (AARCH64_CMDLINE_ADDR + word_of_nat ?c) [0] = Inr ram3" and
    r4: "write_at ram3 AARCH64_BOOT_INFO_ADDR (info_to_bytes ?info) = Inr ram'" and
    h: "boot_info_addr h = AARCH64_BOOT_INFO_ADDR" "handoff_info h = ?info"
    by (auto simp: build_handoff_flagged_def Let_def split: prod.splits sum.splits)
  have e1: "ram1 = put 0x1040 (concat (map region_to_bytes rs)) ram" "rs = [] \<or> 0x1040 + 24 * ?n \<le> length ram"
    using write_regions_ok[OF _ r1] n by simp_all
  have e2: "ram2 = put 0x1800 cmdline ram1" "0x1800 + ?c \<le> length ram1"
    using r2 c unfolding addrs(1) by (subst (asm) write_at_off; simp split: if_splits)+
  have e3: "ram3 = put (0x1800 + ?c) [0] ram2" "0x1801 + ?c \<le> length ram2"
    using r3 c unfolding addrs(2) by (subst (asm) write_at_off; simp split: if_splits)+
  have e4: "ram' = put 0x1000 (info_to_bytes ?info) ram3"
    using r4 unfolding addrs(3) by (subst (asm) write_at_off) (simp_all split: if_splits)
  have lc: "length (concat (map region_to_bytes rs)) = 24 * ?n"
    by (induction rs) simp_all
  have l1: "length ram1 = length ram"
    unfolding e1(1) using e1(2) lc by (cases "rs = []") (simp_all add: put_def)
  have "length ram2 = length ram"
    using e2 l1 by simp
  then have "0x1801 + ?c \<le> length ram"
    using e3(2) by simp
  then show ?thesis
    using that[OF h n c] e1(1) e2(1) e3(1) e4 h(2) by simp
qed

lemma build_handoff_writes:
  assumes "24 * length rs < 2 ^ 62" "length cmdline < 2 ^ 62"
    "build_handoff_flagged ram rs cmdline entry fl = (ram', Inr h)"
  shows "handoff_written ram' (handoff_info h) rs cmdline" "length ram' = length ram"
    "\<And>i. 0x80000 \<le> i \<Longrightarrow> i < length ram \<Longrightarrow> ram' ! i = ram ! i"
proof -
  let ?n = "length rs" and ?c = "length cmdline" and ?rb = "concat (map region_to_bytes rs)"
  define r1 where "r1 = put 0x1040 ?rb ram"
  define r2 where "r2 = put 0x1800 cmdline r1"
  define r3 where "r3 = put (0x1800 + ?c) [0] r2"
  obtain b: "0x1040 + 24 * ?n \<le> 0x1800" "0x1801 + ?c \<le> 0x80000" "0x1801 + ?c \<le> length ram"
    and r4: "ram' = put 0x1000 (info_to_bytes (handoff_info h)) r3"
    using build_handoff_steps[OF assms] unfolding r1_def r2_def r3_def by blast
  have lc: "length ?rb = 24 * ?n"
    by (induction rs) simp_all
  have l1: "length r1 = length ram"
    unfolding r1_def using b lc by simp
  have l2: "length r2 = length ram"
    unfolding r2_def using b l1 by simp
  have l3: "length r3 = length ram"
    unfolding r3_def using b l2 by simp
  show l4: "length ram' = length ram"
    unfolding r4 using b l3 by simp
  have k4: "slice ram' i m = slice r3 i m" if "0x1038 \<le> i" for i m
    unfolding r4 using b l3 that by (simp add: slice_put_other)
  have k3: "slice r3 i m = slice r2 i m" if "i + m \<le> 0x1800 + ?c" for i m
    unfolding r3_def using b l2 that by (simp add: slice_put_other)
  have k2: "slice r2 i m = slice r1 i m" if "i + m \<le> 0x1800" for i m
    unfolding r2_def using b l1 that by (simp add: slice_put_other)
  have "slice ram' 0x1000 56 = info_to_bytes (handoff_info h)"
    unfolding r4 using slice_put_same[of "0x1000" "info_to_bytes (handoff_info h)" r3] b l3 by simp
  moreover have "slice ram' 0x1040 (24 * ?n) = ?rb"
    using k4[of "0x1040"] k3[of "0x1040"] k2[of "0x1040"] slice_put_same[of "0x1040" ?rb ram] lc b
    by (simp add: r1_def)
  moreover have "slice ram' 0x1800 ?c = cmdline"
    using k4[of "0x1800"] k3[of "0x1800" ?c] slice_put_same[of "0x1800" cmdline r1] l1 b by (simp add: r2_def)
  moreover have "slice ram' (0x1800 + ?c) 1 = [0]"
    using k4[of "0x1800 + ?c"] slice_put_same[of "0x1800 + ?c" "[0]" r2] l2 b by (simp add: r3_def)
  ultimately show "handoff_written ram' (handoff_info h) rs cmdline"
    unfolding handoff_written_def using b l4 by simp
  show "ram' ! i = ram ! i" if i: "0x80000 \<le> i" "i < length ram" for i
  proof -
    have p: "put off xs r ! i = r ! i" if "off + length xs \<le> 0x80000" "length r = length ram" for off xs r
      using that i b by (auto simp: put_def nth_append)
    show ?thesis
      unfolding r4 r3_def r2_def r1_def using b lc l1 l2 l3
      by (simp add: p r3_def[symmetric] r2_def[symmetric] r1_def[symmetric]) (simp add: r3_def r2_def r1_def p)
  qed
qed

end
