(* ===== verification/Boot_Map.thy ===== *)
theory Boot_Map
  imports Tb_Boot Stage2
begin

text \<open>
  The boot-map reader of \<open>tb-hal/src/arch/aarch64/pmm.rs\<close>: from the boot pointer and the bytes of
  physical memory, the regions the frame allocator is initialised with, in the order they
  are pushed. A read outside the identity-mapped gigabyte fails. With the producer of
  \<open>Tb_Boot\<close> and the stage-2 builder of \<open>Stage2\<close> it closes two loops: a produced block is read
  back region for region, and on the host's own map the tables and every other frame the
  allocator hands out lie outside the guest carve.
\<close>

type_synonym byte_memory = "u64 \<Rightarrow> u8"

definition DRAM_BASE :: u64 where "DRAM_BASE = 0x40000000"
definition DRAM_SIZE :: u64 where "DRAM_SIZE = 128 * 1024 * 1024"
definition ID_RAM_HI :: u64 where "ID_RAM_HI = 0x80000000"
definition IMAGE_LMA :: u64 where "IMAGE_LMA = 0x40080000"
definition FDT_MAGIC :: u32 where "FDT_MAGIC = 0xD00DFEED"

definition read_bytes :: "byte_memory \<Rightarrow> u64 \<Rightarrow> nat \<Rightarrow> bytes option" where
  "read_bytes bm pa n = (if pa < DRAM_BASE then None else
     case checked_add pa (word_of_nat n) of
       None \<Rightarrow> None
     | Some e \<Rightarrow> if e \<le> ID_RAM_HI then Some (map (\<lambda>i. bm (pa + word_of_nat i)) [0..<n]) else None)"

definition read_be32 :: "byte_memory \<Rightarrow> u64 \<Rightarrow> u32 option" where
  "read_be32 bm pa = map_option of_be_bytes (read_bytes bm pa 4)"

definition fdt_totalsize :: "byte_memory \<Rightarrow> u64 \<Rightarrow> u32 option" where
  "fdt_totalsize bm fdt = (case read_be32 bm fdt of
     None \<Rightarrow> None
   | Some w \<Rightarrow> if w \<noteq> FDT_MAGIC then None
       else (case read_be32 bm (fdt + 4) of
         None \<Rightarrow> None
       | Some tot \<Rightarrow> if tot = 0 \<or> tot > 0x200000 then None else Some tot))"

definition saturating_mul :: "u64 \<Rightarrow> u64 \<Rightarrow> u64" where
  "saturating_mul a b = (if unat a * unat b < 2 ^ 64 then a * b else - 1)"

definition clamp_region :: "tb_mem_region \<Rightarrow> region list" where
  "clamp_region r = (if is_ram r
     then let b = max (mr_base r) DRAM_BASE; e = min (saturating_add (mr_base r) (mr_len r)) ID_RAM_HI
       in if e > b then [Usable b (e - b)] else []
     else [Reserved (mr_base r) (mr_len r)])"

function collect_regions :: "byte_memory \<Rightarrow> u64 \<Rightarrow> u64 \<Rightarrow> u64 \<Rightarrow> region list" where
  "collect_regions bm regions_ptr count i = (if i < count then
     (case read_bytes bm (saturating_add regions_ptr (saturating_mul i (word_of_nat REGION_SIZE))) REGION_SIZE of
        None \<Rightarrow> []
      | Some rb \<Rightarrow> (case region_read rb of Inl e \<Rightarrow> [] | Inr r \<Rightarrow> clamp_region r) @
          collect_regions bm regions_ptr count (i + 1))
     else [])"
  by pat_completeness auto
termination
proof (relation "measure (\<lambda>(bm, p, count, i). unat count - unat i)")
  fix i count :: u64 and bm :: byte_memory and p :: u64
  assume less: "i < count"
  then have "unat (i + 1) = unat i + 1"
    using u64_bound[of count] by (simp add: word_less_nat_alt unat_word_ariths)
  with less show "((bm, p, count, i + 1), (bm, p, count, i)) \<in> measure (\<lambda>(bm, p, count, i). unat count - unat i)"
    by (simp add: word_less_nat_alt)
qed simp

declare collect_regions.simps [simp del]

definition collect_tb_boot :: "byte_memory \<Rightarrow> u64 \<Rightarrow> region list option" where
  "collect_tb_boot bm bi = (case read_bytes bm bi INFO_SIZE of
     None \<Rightarrow> None
   | Some hb \<Rightarrow> (case read_validated hb of
       Inl e \<Rightarrow> None
     | Inr info \<Rightarrow> Some (
         [Reserved bi (word_of_nat INFO_SIZE),
          Reserved (mem_regions_ptr info) (saturating_mul (mem_regions_len info) (word_of_nat REGION_SIZE))] @
         (if cmdline_ptr info \<noteq> 0 \<and> cmdline_len info \<noteq> 0 then [Reserved (cmdline_ptr info) (cmdline_len info)] else []) @
         [Reserved DRAM_BASE (IMAGE_LMA - DRAM_BASE)] @
         collect_regions bm (mem_regions_ptr info) (mem_regions_len info) 0)))"

definition collect_fdt :: "byte_memory \<Rightarrow> u64 \<Rightarrow> region list" where
  "collect_fdt bm fdt = (let e = min (DRAM_BASE + DRAM_SIZE) ID_RAM_HI in
     (if e > DRAM_BASE then [Usable DRAM_BASE (e - DRAM_BASE)] else []) @
     [Reserved DRAM_BASE (IMAGE_LMA - DRAM_BASE)] @
     (case fdt_totalsize bm fdt of Some tot \<Rightarrow> [Reserved fdt (ucast tot)] | None \<Rightarrow> []) @
     [Reserved GUEST_PROBE_PA (GUEST_CARVE_PA + GUEST_CARVE_SIZE - GUEST_PROBE_PA)])"

definition pmm_collect_regions :: "byte_memory \<Rightarrow> u64 \<Rightarrow> region list" where
  "pmm_collect_regions bm bi =
     (case read_bytes bm bi 8 of
        Some mg \<Rightarrow> if of_le_bytes mg = TB_BOOT_MAGIC
          then (case collect_tb_boot bm bi of Some rs \<Rightarrow> rs | None \<Rightarrow> collect_fdt bm bi)
          else collect_fdt bm bi
      | None \<Rightarrow> collect_fdt bm bi)"

section \<open>Reading a produced block\<close>

text \<open>Physical memory whose RAM starts with the bytes \<open>ram\<close>.\<close>

definition holds_ram :: "byte_memory \<Rightarrow> bytes \<Rightarrow> bool" where
  "holds_ram bm ram \<longleftrightarrow> (\<forall>i < length ram. bm (DRAM_BASE + word_of_nat i) = ram ! i)"

lemma read_bytes_ram:
  assumes "holds_ram bm ram" "off + n \<le> length ram" "off + n \<le> 0x40000000"
  shows "read_bytes bm (DRAM_BASE + word_of_nat off) n = Some (slice ram off n)"
proof -
  have u: "unat (word_of_nat k :: u64) = k" if "k \<le> 0x40000000" for k
    using that by (simp add: unat_of_nat take_bit_nat_eq_self)
  have o: "unat (DRAM_BASE + word_of_nat off) = 0x40000000 + off"
    using assms(3) u[of off] by (simp add: DRAM_BASE_def unat_word_ariths)
  have "checked_add (DRAM_BASE + word_of_nat off) (word_of_nat n) = Some (DRAM_BASE + word_of_nat off + word_of_nat n)"
    using o u[of n] assms(3) by (simp add: checked_add_def)
  moreover have "unat (DRAM_BASE + word_of_nat off + word_of_nat n) = 0x40000000 + off + n"
    using o u[of n] assms(3) by (simp add: unat_word_ariths)
  moreover have "map (\<lambda>i. bm (DRAM_BASE + word_of_nat off + word_of_nat i)) [0..<n] = slice ram off n"
  proof (rule nth_equalityI)
    fix i
    assume "i < length (map (\<lambda>i. bm (DRAM_BASE + word_of_nat off + word_of_nat i)) [0..<n])"
    then show "map (\<lambda>i. bm (DRAM_BASE + word_of_nat off + word_of_nat i)) [0..<n] ! i = slice ram off n ! i"
      using assms(1,2) unfolding holds_ram_def by (auto simp: slice_def add.assoc dest: spec[of _ "off + i"])
  qed (use assms(2) in \<open>simp add: slice_def\<close>)
  ultimately show ?thesis
    using o assms(3) by (simp add: read_bytes_def word_less_nat_alt word_le_nat_alt DRAM_BASE_def ID_RAM_HI_def)
qed

lemma collect_regions_ram:
  assumes "holds_ram bm ram" "length rs \<le> 82" "i \<le> length rs" "0x1040 + 24 * length rs \<le> length ram"
    "slice ram 0x1040 (24 * length rs) = concat (map region_to_bytes rs)"
  shows "collect_regions bm AARCH64_MEM_REGIONS_ADDR (word_of_nat (length rs)) (word_of_nat i) =
    concat (map clamp_region (drop i rs))"
  using assms(3)
proof (induction rule: inc_induct)
  case base
  then show ?case by (simp add: collect_regions.simps)
next
  case (step i)
  have u: "unat (word_of_nat k :: u64) = k" if "k \<le> 4096" for k
    using that by (simp add: unat_of_nat take_bit_nat_eq_self)
  have less: "word_of_nat i < (word_of_nat (length rs) :: u64)"
    using step.hyps assms(2) u[of i] u[of "length rs"] by (simp add: word_less_nat_alt)
  have mul: "saturating_mul (word_of_nat i) (word_of_nat REGION_SIZE) = word_of_nat (24 * i)"
    using step.hyps assms(2) u[of i] by (simp add: saturating_mul_def REGION_SIZE_def)
  have addr: "saturating_add AARCH64_MEM_REGIONS_ADDR (word_of_nat (24 * i)) = DRAM_BASE + word_of_nat (0x1040 + 24 * i)"
    using step.hyps assms(2) u[of "24 * i"]
    by (simp add: saturating_add_def AARCH64_MEM_REGIONS_ADDR_def DRAM_BASE_def del: of_nat_mult)
  have "slice ram (0x1040 + 24 * i) 24 = region_to_bytes (rs ! i)"
  proof -
    have "slice ram (0x1040 + 24 * i) 24 = slice (slice ram 0x1040 (24 * length rs)) (i * 24) 24"
      using step.hyps by (simp add: slice_def drop_take min_def ac_simps)
    then show ?thesis
      using slice_concat[of "map region_to_bytes rs" 24 i "[]"] step.hyps unfolding assms(5) by simp
  qed
  then have "read_bytes bm (DRAM_BASE + word_of_nat (0x1040 + 24 * i)) REGION_SIZE = Some (region_to_bytes (rs ! i))"
    using read_bytes_ram[OF assms(1), of "0x1040 + 24 * i" 24] step.hyps assms(2,4) by (simp add: REGION_SIZE_def)
  then have "collect_regions bm AARCH64_MEM_REGIONS_ADDR (word_of_nat (length rs)) (word_of_nat i) =
      clamp_region (rs ! i) @ collect_regions bm AARCH64_MEM_REGIONS_ADDR (word_of_nat (length rs)) (word_of_nat i + 1)"
    using region_read_bytes[of "rs ! i" "[]"] less
    by (subst collect_regions.simps) (simp add: mul addr del: of_nat_add of_nat_mult)
  also have "word_of_nat i + 1 = (word_of_nat (Suc i) :: u64)"
    by simp
  finally show ?case
    unfolding step.IH using step.hyps by (simp add: Cons_nth_drop_Suc[symmetric])
qed

section \<open>The host's own map\<close>

lemma collect_fdt_eq:
  "collect_fdt bm fdt = [Usable 0x40000000 0x8000000, Reserved 0x40000000 0x80000] @
     (case fdt_totalsize bm fdt of Some tot \<Rightarrow> [Reserved fdt (ucast tot)] | None \<Rightarrow> []) @
     [Reserved 0x45FFF000 0x2001000]"
  by (simp add: collect_fdt_def DRAM_BASE_def DRAM_SIZE_def ID_RAM_HI_def IMAGE_LMA_def carve_defs min_def)

lemma fdt_sink:
  "sink_usable (boot_sink (collect_fdt bm fdt) i1 i2) = [\<lparr>base = 0x40000000, len = 0x8000000\<rparr>]"
  "\<lparr>base = 0x45FFF000, len = 0x2001000\<rparr> \<in> set (sink_reserved (boot_sink (collect_fdt bm fdt) i1 i2))"
  "\<not> overflow (boot_sink (collect_fdt bm fdt) i1 i2)"
  by (cases "fdt_totalsize bm fdt"; simp add: collect_fdt_eq boot_sink_def sink_new_def push_usable_def
      push_reserved_def MAX_RANGES_def MAX_RESV_def Let_def)+

text \<open>The frames a host boot may hand out: RAM below the probe page.\<close>

definition host_frame :: "u64 \<Rightarrow> bool" where
  "host_frame f \<longleftrightarrow> aligned f \<and> 0x40000000 \<le> unat f \<and> unat f + 4096 \<le> 0x45FFF000"

lemma host_boot:
  "\<exists>sm. pmm_init (collect_fdt bm fdt) i1 i2 (pmm_new, m0) = Some sm \<and> pmm_inv sm [] \<and> low_ram (fst sm) \<and>
    (\<forall>f. good_frame (fst sm) f \<longrightarrow> host_frame f) \<and>
    usable (fst sm) = sink_usable (boot_sink (collect_fdt bm fdt) i1 i2) \<and>
    reserved (fst sm) = sink_reserved (boot_sink (collect_fdt bm fdt) i1 i2)"
proof -
  let ?k = "boot_sink (collect_fdt bm fdt) i1 i2"
  let ?s = "pmm_new\<lparr>usable := sink_usable ?k, reserved := sink_reserved ?k\<rparr>"
  obtain s1 m1 where s1: "seed (?s, m0) = Some (s1, m1)" "pmm_inv (s1, m1) []" "usable s1 = sink_usable ?k"
    "reserved s1 = sink_reserved ?k"
    using seed_establishes[of ?s m0] by (auto simp: fdt_sink(1))
  let ?sm = "(s1\<lparr>initialized := True\<rparr>, m1)"
  have "pmm_init (collect_fdt bm fdt) i1 i2 (pmm_new, m0) = Some ?sm"
    using s1(1) fdt_sink(3) by (simp add: pmm_init_def pmm_new_def Let_def)
  moreover have "pmm_inv ?sm []"
    using s1(2) by (simp add: pmm_inv_def)
  moreover have "low_ram (fst ?sm)"
    by (simp add: low_ram_def s1(3) fdt_sink(1))
  moreover have "host_frame f" if "good_frame (fst ?sm) f" for f
  proof -
    have g: "aligned f" "fits \<lparr>base = 0x40000000, len = 0x8000000\<rparr> f" "\<not> is_reserved_frame s1 f"
      using that by (simp_all add: good_frame_def frame_in_usable_iff s1(3) fdt_sink(1) is_reserved_frame_def)
    let ?r = "\<lparr>base = 0x45FFF000, len = 0x2001000\<rparr> :: phys_range"
    have b: "0x40000000 \<le> unat f" "unat f + 4096 \<le> 0x48000000"
      using g(2) by (simp_all add: fits_def unat_range_end word_le_nat_alt)
    have "?r \<in> set (reserved s1)"
      using fdt_sink(2) s1(4) by simp
    then have "\<not> (f < range_end ?r \<and> base ?r < saturating_add f FRAME)"
      using g(3) by (auto simp: is_reserved_frame_def list_ex_iff Let_def)
    then show ?thesis
      using b g(1) by (simp add: host_frame_def word_less_nat_alt unat_range_end unat_saturating_add FRAME_def)
  qed
  moreover have "usable (fst ?sm) = sink_usable ?k" "reserved (fst ?sm) = sink_reserved ?k"
    by (simp_all add: s1(3,4))
  ultimately show ?thesis by blast
qed

lemma host_run:
  assumes "pmm_init (collect_fdt bm fdt) i1 i2 (pmm_new, m0) = Some sm0" "pmm_step\<^sup>*\<^sup>* (sm0, []) (sm, held)"
  shows "pmm_inv sm held" "low_ram (fst sm)" "\<And>f. good_frame (fst sm) f \<Longrightarrow> host_frame f"
proof -
  have h: "pmm_inv sm0 []" "low_ram (fst sm0)" "\<And>f. good_frame (fst sm0) f \<Longrightarrow> host_frame f"
    using host_boot[of bm fdt i1 i2 m0] assms(1) by auto
  have s: "pmm_inv sm held \<and> usable (fst sm) = usable (fst sm0) \<and> reserved (fst sm) = reserved (fst sm0)"
    using pmm_steps_inv[OF assms(2)] h(1) by simp
  then show "pmm_inv sm held" "low_ram (fst sm)"
    using h(2) by (simp_all add: low_ram_def)
  show "\<And>f. good_frame (fst sm) f \<Longrightarrow> host_frame f"
    using h(3) s good_frame_cong[of "fst sm" "fst sm0"] by blast
qed

section \<open>The build succeeds while three frames are free\<close>

lemma alloc_zeroed_total:
  assumes "pmm_inv sm held" "good_frame (fst sm) f" "f \<notin> set held"
  shows "\<exists>sm' g. frame_alloc_zeroed sm = (sm', Some g)"
proof -
  obtain sm' r where a: "frame_alloc sm = (sm', r)" by (cases "frame_alloc sm")
  have "r \<noteq> None"
    using frame_alloc_None(2)[OF assms(1)] a assms(2,3) by auto
  then show ?thesis
    using a by (auto simp: frame_alloc_zeroed_def split: prod.splits)
qed

lemma taken_more:
  assumes "taken sm0 held sm fs" "finite S" "S \<subseteq> {f. good_frame (fst sm0) f} - set held" "length fs < card S"
  shows "\<exists>sm' g. frame_alloc_zeroed sm = (sm', Some g)"
proof -
  have "\<not> S \<subseteq> set fs"
    using card_mono[of "set fs" S] card_length[of fs] assms(4) by auto
  then obtain f where "f \<in> S" "f \<notin> set fs" by blast
  then have "f \<notin> set (fs @ held)" "good_frame (fst sm) f" "pmm_inv sm (fs @ held)"
    using assms(1,3) good_frame_cong[of "fst sm" "fst sm0"] by (auto simp: taken_def)
  then show ?thesis
    by (intro alloc_zeroed_total)
qed

lemma build_guest_total:
  assumes "pmm_inv sm held" "finite S" "S \<subseteq> {f. good_frame (fst sm) f} - set held" "3 \<le> card S"
  shows "\<exists>sm' root. build_guest_stage2 sm = (sm', Some root)"
proof -
  note t0 = taken_start[OF assms(1)]
  obtain sm1 r where a1: "frame_alloc_zeroed sm = (sm1, Some r)"
    using taken_more[OF t0 assms(2,3)] assms(4) by auto
  note t1 = taken_alloc(1)[OF t0 a1]
  obtain sm2 l0 where a2: "frame_alloc_zeroed sm1 = (sm2, Some l0)"
    using taken_more[OF t1 assms(2,3)] assms(4) by auto
  note t2 = taken_alloc(1)[OF t1 a2]
  obtain sm3 l1 where a3: "frame_alloc_zeroed sm2 = (sm3, Some l1)"
    using taken_more[OF t2 assms(2,3)] assms(4) by auto
  show ?thesis
    by (simp add: build_guest_stage2_def with_frame_def a1 a2 a3 Let_def map_carve_fill split: prod.splits)
qed


lemma leaf_out_hole:
  assumes "field_addr d" "0x140000000 \<le> unat ipa" "unat ipa < 0x140001000"
  shows "leaf_out (s2_leaf_4k d S2_MEMATTR_NORMAL_WB) 12 ipa = Some (d + (ipa - HOLE_IPA))"
proof -
  define k where "k = unat ipa - 0x140000000"
  have "unat ipa = k + 0x140000 * 4096" "k < 4096"
    using assms(2,3) by (simp_all add: k_def)
  then have "unat ipa mod 4096 = unat ipa - 0x140000000"
    using mod_mult_self1[of k "0x140000" 4096] by simp
  moreover have "unat d div 4096 * 4096 = unat d"
    using assms(1) by (auto simp: field_addr_def)
  moreover have "word_of_nat (unat ipa - 0x140000000) = ipa - HOLE_IPA"
    using assms(2) by (simp add: of_nat_diff HOLE_IPA_def)
  ultimately show ?thesis
    using s2_page_facts[of d] assms(1) by (simp add: leaf_out_def leaf_ok_def)
qed

section \<open>Properties of the boot map and the stage-2 tables\<close>

text \<open>
  C33: A produced boot block is read back exactly. When the producer accepts, the booted kernel's
  map reader, given the handed-over pointer and a memory holding the produced RAM, reports
  the block's own spans, the command line and the staging window as reserved and then the
  producer's regions, each clamped to the identity-mapped gigabyte, in order; the command
  line bytes are the ones given, and RAM from the kernel image upwards is untouched.
\<close>

theorem boot_block_read_back:
  assumes "24 * length rs < 2 ^ 62" "length cmdline < 2 ^ 62"
    and "build_handoff_flagged ram rs cmdline entry fl = (ram', Inr h)" and "holds_ram bm ram'"
  shows "pmm_collect_regions bm (boot_info_addr h) =
      [Reserved AARCH64_BOOT_INFO_ADDR 56, Reserved AARCH64_MEM_REGIONS_ADDR (word_of_nat (24 * length rs))] @
      (if cmdline = [] then [] else [Reserved AARCH64_CMDLINE_ADDR (word_of_nat (length cmdline))]) @
      [Reserved 0x40000000 0x80000] @ concat (map clamp_region rs) \<and>
    read_bytes bm AARCH64_CMDLINE_ADDR (length cmdline) = Some cmdline \<and>
    (\<forall>i. 0x80000 \<le> i \<and> i < length ram \<longrightarrow> ram' ! i = ram ! i)"
proof -
  let ?i = "handoff_info h"
  note w = build_handoff_writes[OF assms(1-3)]
  obtain addr: "boot_info_addr h = AARCH64_BOOT_INFO_ADDR" and
    info: "?i = info_new fl AARCH64_MEM_REGIONS_ADDR (word_of_nat (length rs)) AARCH64_CMDLINE_ADDR
      (word_of_nat (length cmdline)) entry"
    using build_handoff_steps[OF assms(1-3)] by blast
  from w(1) have r: "0x1801 + length cmdline \<le> length ram'" "length rs \<le> 82" "0x1801 + length cmdline \<le> 0x80000"
    "slice ram' 0x1000 56 = info_to_bytes ?i" "slice ram' 0x1040 (24 * length rs) = concat (map region_to_bytes rs)"
    "slice ram' 0x1800 (length cmdline) = cmdline"
    by (simp_all add: handoff_written_def)
  have at: "AARCH64_BOOT_INFO_ADDR = DRAM_BASE + word_of_nat 0x1000" "AARCH64_CMDLINE_ADDR = DRAM_BASE + word_of_nat 0x1800"
    by (simp_all add: AARCH64_BOOT_INFO_ADDR_def AARCH64_CMDLINE_ADDR_def DRAM_BASE_def)
  have u: "unat (word_of_nat k :: u64) = k" if "k \<le> 0x80000" for k
    using that by (simp add: unat_of_nat take_bit_nat_eq_self)
  have hb: "read_bytes bm AARCH64_BOOT_INFO_ADDR INFO_SIZE = Some (info_to_bytes ?i)"
    using read_bytes_ram[OF assms(4), of "0x1000" 56] r unfolding at by (simp add: INFO_SIZE_def)
  have "slice ram' 0x1000 8 = take 8 (slice ram' 0x1000 56)"
    by (simp add: slice_def)
  then have mg: "read_bytes bm AARCH64_BOOT_INFO_ADDR 8 = Some (le_bytes 8 (magic ?i))"
    using read_bytes_ram[OF assms(4), of "0x1000" 8] r unfolding at by (simp add: info_to_bytes_def)
  have ok: "read_validated (info_to_bytes ?i) = Inr ?i"
    using info_read_bytes[of ?i "[]"] by (simp add: read_validated_def validate_def info info_new_def)
  have mul: "saturating_mul (word_of_nat (length rs)) (word_of_nat REGION_SIZE) = word_of_nat (24 * length rs)"
    using r(2) u[of "length rs"] by (simp add: saturating_mul_def REGION_SIZE_def)
  have cl: "(word_of_nat (length cmdline) :: u64) = 0 \<longleftrightarrow> cmdline = []"
    using r(3) u[of "length cmdline"] by (auto simp: word_unat_eq_iff)
  have regs: "collect_regions bm AARCH64_MEM_REGIONS_ADDR (word_of_nat (length rs)) 0 = concat (map clamp_region rs)"
    using collect_regions_ram[OF assms(4), of rs 0] r by simp
  have "pmm_collect_regions bm AARCH64_BOOT_INFO_ADDR =
      [Reserved AARCH64_BOOT_INFO_ADDR 56, Reserved AARCH64_MEM_REGIONS_ADDR (word_of_nat (24 * length rs))] @
      (if cmdline = [] then [] else [Reserved AARCH64_CMDLINE_ADDR (word_of_nat (length cmdline))]) @
      [Reserved 0x40000000 0x80000] @ concat (map clamp_region rs)"
    unfolding pmm_collect_regions_def collect_tb_boot_def mg hb option.case ok sum.case
    by (simp add: info info_new_def regs mul cl INFO_SIZE_def DRAM_BASE_def IMAGE_LMA_def AARCH64_CMDLINE_ADDR_def
        del: of_nat_mult)
  moreover have "read_bytes bm AARCH64_CMDLINE_ADDR (length cmdline) = Some cmdline"
    using read_bytes_ram[OF assms(4), of "0x1800" "length cmdline"] r unfolding at by simp
  ultimately show ?thesis
    using w(3) by (simp add: addr)
qed

text \<open>
  C6: The guest's second stage is exactly its view. On a host booted from the platform map,
  whatever frames are taken and used before, when the builder returns a root, the walk from
  that root translates an address of the 32 MiB window to the same offset in the carve,
  passes the interrupt controller's 2 MiB block through, and faults on every other address;
  the build writes only inside three frames that were free and lie below the probe page, and
  it fails only when fewer than three frames are left.
\<close>

theorem guest_stage2_exact:
  assumes "pmm_init (collect_fdt bm fdt) i1 i2 (pmm_new, m0) = Some sm0" "pmm_step\<^sup>*\<^sup>* (sm0, []) (sm, held)"
    and "build_guest_stage2 sm = (sm', res)"
  shows "case res of
      None \<Rightarrow> card ({f. good_frame (fst sm) f} - set held) < 3
    | Some root \<Rightarrow> (\<forall>ipa. s2_walk (snd sm') root ipa = guest_view ipa) \<and>
        (\<exists>l0 l1. distinct ([l1, l0, root] @ held) \<and> (\<forall>f\<in>{root, l0, l1}. host_frame f) \<and>
          (\<forall>a. align_down a FRAME \<notin> {root, l0, l1} \<longrightarrow> snd sm' a = snd sm a))"
proof (cases res)
  case None
  note h = host_run[OF assms(1,2)]
  have "card ({f. good_frame (fst sm) f} - set held) < 3"
  proof (rule ccontr)
    assume "\<not> card ({f. good_frame (fst sm) f} - set held) < 3"
    then show False
      using build_guest_total[OF h(1) _ subset_refl] assms(3) None by auto
  qed
  then show ?thesis by (simp add: None)
next
  case (Some root)
  note h = host_run[OF assms(1,2)]
  obtain l0 l1 where t: "taken sm held sm' [l1, l0, root]" "guest_tables (snd sm') root l0 l1"
    using build_guest_tables[OF h(1,2)] assms(3) Some by blast
  have "\<forall>f\<in>{root, l0, l1}. host_frame f" "distinct ([l1, l0, root] @ held)"
    "\<forall>a. align_down a FRAME \<notin> {root, l0, l1} \<longrightarrow> snd sm' a = snd sm a"
    using t(1) h(3) by (auto simp: taken_def)
  then show ?thesis
    using walk_guest[OF t(2)] by (auto simp: Some)
qed

text \<open>
  The demand map fills the hole and nothing else. On the identity regime, before the fault the
  walk is the identity on the first two gigabytes and faults everywhere else, the hole
  included; the map succeeds, after it exactly the hole's page translates in addition, to the
  prepared frame, and only one word of one table changed.
\<close>

theorem demand_map_exact:
  assumes "pmm_inv sm held" "low_ram (fst sm)" "build_identity_stage2 sm = (sm1, Some root)"
    and "prep_demand_frame sm1 = (sm2, Some d)"
  shows "(\<forall>ipa. s2_walk (snd sm2) root ipa = (if unat ipa < 2 ^ 31 then Some ipa else None)) \<and>
    (\<exists>m3 a e. demand_map_ipa root HOLE_IPA d (snd sm2) = (m3, True) \<and> m3 = (snd sm2)(a := e) \<and> snd sm2 d = DEMAND_SEED \<and>
      (\<forall>ipa. s2_walk m3 root ipa = (if unat ipa < 2 ^ 31 then Some ipa
        else if HOLE_IPA \<le> ipa \<and> ipa < HOLE_IPA + 0x1000 then Some (d + (ipa - HOLE_IPA)) else None)))"
proof -
  obtain l0 l1 lh l3 where t: "taken sm held sm1 [l3, lh, l1, l0, root]" "identity_low (snd sm1) root l0 l1"
    "hole_path (snd sm1) root lh l3 0"
    using build_identity_tables[OF assms(1-3)] by blast
  obtain s m where a: "frame_alloc sm1 = ((s, m), Some d)" and sm2: "sm2 = (s, m(d := DEMAND_SEED))"
    using assms(4) by (auto simp: prep_demand_frame_def split: prod.splits option.splits)
  have inv: "pmm_inv sm1 ([l3, lh, l1, l0, root] @ held)" "low_ram (fst sm1)"
    using t(1) assms(2) by (simp_all add: taken_def low_ram_def)
  note al = frame_alloc_inv[OF inv(1) a]
  have m: "m = snd sm1"
    using a by (auto simp: frame_alloc_def Let_def split: prod.splits if_splits)
  have d: "field_addr d" "d \<notin> {root, l0, l1, lh, l3}" "aligned d"
    using al good_frame_field[OF inv(2)] by (auto simp: good_frame_def)
  have "align_down d FRAME = d"
    using frame_of_slot[of d 0] d(3) by (simp add: slot_def)
  then have same: "snd sm2 (slot x i) = snd sm1 (slot x i)" if "x \<in> {root, l0, l1, lh, l3}" "i < 512" for x i
    using that d(2) frame_of_slot[of x i] taken_aligned[OF t(1), of x] by (auto simp: sm2 m)
  have t2: "identity_low (snd sm2) root l0 l1" "hole_path (snd sm2) root lh l3 0"
    using identity_low_cong[OF t(2) same] hole_path_cong[OF t(3) same] by auto
  have "l3 \<notin> {root, l0, l1, lh}"
    using t(1) by (auto simp: taken_def)
  then obtain m3 where m3: "demand_map_ipa root HOLE_IPA d (snd sm2) = (m3, True)" "identity_low m3 root l0 l1"
    "hole_path m3 root lh l3 (s2_leaf_4k d S2_MEMATTR_NORMAL_WB)"
    using demand_map_hole[OF t2] by blast
  have e: "\<exists>a e. m3 = (snd sm2)(a := e)"
    using m3(1) by (auto simp: demand_map_ipa_def s2_set_def Let_def split: if_splits)
  have "\<forall>ipa. s2_walk m3 root ipa = (if unat ipa < 2 ^ 31 then Some ipa
        else if HOLE_IPA \<le> ipa \<and> ipa < HOLE_IPA + 0x1000 then Some (d + (ipa - HOLE_IPA)) else None)"
    using walk_identity_low[OF m3(2)] walk_hole[OF m3(3)] leaf_out_hole[OF d(1)] s2_page_facts[of d]
    by (simp add: HOLE_IPA_def word_le_nat_alt word_less_nat_alt)
  moreover have "\<forall>ipa. s2_walk (snd sm2) root ipa = (if unat ipa < 2 ^ 31 then Some ipa else None)"
    using walk_identity_low[OF t2(1)] walk_hole[OF t2(2)] by simp
  moreover have "snd sm2 d = DEMAND_SEED"
    by (simp add: sm2)
  ultimately show ?thesis
    using m3(1) e by blast
qed


section \<open>A concrete host\<close>

definition demo_frames :: "u64 set" where
  "demo_frames = {0x41000000, 0x41001000, 0x41002000, 0x41003000, 0x41004000, 0x41005000}"

lemma card_demo_frames: "finite demo_frames" "card demo_frames = 6"
  by (simp_all add: demo_frames_def)

lemma demo_host:
  obtains sm where "pmm_init (collect_fdt (\<lambda>_. 0) 0) 0 0 (pmm_new, \<lambda>_. 0) = Some sm" "pmm_inv sm []"
    "low_ram (fst sm)" "demo_frames \<subseteq> {f. good_frame (fst sm) f} - set []"
proof -
  have tot: "fdt_totalsize (\<lambda>_. 0) 0 = None"
    by (simp add: fdt_totalsize_def read_be32_def read_bytes_def DRAM_BASE_def)
  obtain sm where sm: "pmm_init (collect_fdt (\<lambda>_. 0) 0) 0 0 (pmm_new, \<lambda>_. 0) = Some sm" "pmm_inv sm []"
    "low_ram (fst sm)" "usable (fst sm) = [\<lparr>base = 0x40000000, len = 0x8000000\<rparr>]"
    "reserved (fst sm) = sink_reserved (boot_sink (collect_fdt (\<lambda>_. 0) 0) 0 0)"
    using host_boot[of "\<lambda>_. 0" 0 0 0 "\<lambda>_. 0"] unfolding fdt_sink(1) by blast
  have res: "reserved (fst sm) = [\<lparr>base = 0x40000000, len = 0x80000\<rparr>, \<lparr>base = 0x45FFF000, len = 0x2001000\<rparr>]"
    unfolding sm(5) by (simp add: collect_fdt_eq tot boot_sink_def sink_new_def push_usable_def push_reserved_def
        MAX_RANGES_def MAX_RESV_def Let_def)
  have "good_frame (fst sm) f" if "f \<in> demo_frames" for f
    using that by (auto simp: demo_frames_def good_frame_def frame_in_usable_def is_reserved_frame_def sm(4) res
        checked_add_code saturating_add_code range_end_def FRAME_def)
  then show ?thesis
    using that[OF sm(1-3)] by auto
qed

theorem guest_stage2_exact_witness:
  "\<exists>sm sm' root. build_guest_stage2 sm = (sm', Some root) \<and> s2_walk (snd sm') root 0x41234568 = Some 0x47234568 \<and>
    s2_walk (snd sm') root 0x45FFF000 = None"
proof -
  obtain sm where sm: "pmm_init (collect_fdt (\<lambda>_. 0) 0) 0 0 (pmm_new, \<lambda>_. 0) = Some sm" "pmm_inv sm []"
    "demo_frames \<subseteq> {f. good_frame (fst sm) f} - set []"
    by (rule demo_host)
  then obtain sm' root where b: "build_guest_stage2 sm = (sm', Some root)"
    using build_guest_total[OF sm(2) card_demo_frames(1) sm(3)] card_demo_frames(2) by auto
  from guest_stage2_exact[OF sm(1) rtranclp.rtrancl_refl b]
  have "\<forall>ipa. s2_walk (snd sm') root ipa = guest_view ipa"
    by simp
  with b show ?thesis
    by (intro exI[of _ sm] exI[of _ sm'] exI[of _ root]) (simp add: guest_view_nat)
qed

lemma build_identity_total:
  assumes "pmm_inv sm held" "finite S" "S \<subseteq> {f. good_frame (fst sm) f} - set held" "6 \<le> card S"
  shows "\<exists>sm1 root sm2 d. build_identity_stage2 sm = (sm1, Some root) \<and> prep_demand_frame sm1 = (sm2, Some d)"
proof -
  note t0 = taken_start[OF assms(1)]
  obtain sm1 r where a1: "frame_alloc_zeroed sm = (sm1, Some r)"
    using taken_more[OF t0 assms(2,3)] assms(4) by auto
  note t1 = taken_alloc(1)[OF t0 a1]
  obtain sm2 l0 where a2: "frame_alloc_zeroed sm1 = (sm2, Some l0)"
    using taken_more[OF t1 assms(2,3)] assms(4) by auto
  note t2 = taken_alloc(1)[OF t1 a2]
  obtain sm3 l1 where a3: "frame_alloc_zeroed sm2 = (sm3, Some l1)"
    using taken_more[OF t2 assms(2,3)] assms(4) by auto
  note t3 = taken_alloc(1)[OF t2 a3]
  obtain sm4 lh where a4: "frame_alloc_zeroed sm3 = (sm4, Some lh)"
    using taken_more[OF t3 assms(2,3)] assms(4) by auto
  note t4 = taken_alloc(1)[OF t3 a4]
  obtain s m l3 where a5: "frame_alloc_zeroed sm4 = ((s, m), Some l3)"
    using taken_more[OF t4 assms(2,3)] assms(4) by auto
  note t5 = taken_alloc(1)[OF t4 a5]
  obtain sm6 d where a6: "frame_alloc_zeroed (s, m) = (sm6, Some d)"
    using taken_more[OF t5 assms(2,3)] assms(4) by auto
  then have "head s \<noteq> 0"
    by (auto simp: frame_alloc_zeroed_def frame_alloc_def Let_def split: if_splits)
  then have "\<exists>sm2 d. prep_demand_frame (s, m') = (sm2, Some d)" for m'
    by (simp add: prep_demand_frame_def frame_alloc_def Let_def)
  then show ?thesis
    by (simp add: build_identity_stage2_def with_frame_def a1 a2 a3 a4 a5 Let_def)
qed

theorem demand_map_exact_witness:
  "\<exists>sm sm1 root sm2 d m3. build_identity_stage2 sm = (sm1, Some root) \<and> prep_demand_frame sm1 = (sm2, Some d) \<and>
    s2_walk (snd sm2) root 0x140000008 = None \<and> demand_map_ipa root HOLE_IPA d (snd sm2) = (m3, True) \<and>
    s2_walk m3 root 0x140000008 = Some (d + 8)"
proof -
  obtain sm where sm: "pmm_inv sm []" "low_ram (fst sm)" "demo_frames \<subseteq> {f. good_frame (fst sm) f} - set []"
    by (rule demo_host)
  then obtain sm1 root sm2 d where b: "build_identity_stage2 sm = (sm1, Some root)" "prep_demand_frame sm1 = (sm2, Some d)"
    using build_identity_total[OF sm(1) card_demo_frames(1) sm(3)] card_demo_frames(2) by auto
  note ex = demand_map_exact[OF sm(1,2) b]
  then obtain m3 where m3: "demand_map_ipa root HOLE_IPA d (snd sm2) = (m3, True)"
    "\<forall>ipa. s2_walk m3 root ipa = (if unat ipa < 2 ^ 31 then Some ipa
        else if HOLE_IPA \<le> ipa \<and> ipa < HOLE_IPA + 0x1000 then Some (d + (ipa - HOLE_IPA)) else None)"
    by blast
  have "s2_walk (snd sm2) root 0x140000008 = None" "s2_walk m3 root 0x140000008 = Some (d + 8)"
    using ex m3(2) by (simp_all add: HOLE_IPA_def)
  with b m3(1) show ?thesis by blast
qed

text \<open>The producer accepts whenever the block fits.\<close>

lemma write_regions_total:
  assumes "0x1040 + 24 * (i + length rs) < 2 ^ 63" "rs = [] \<or> 0x1040 + 24 * (i + length rs) \<le> length ram"
  shows "\<exists>ram'. write_regions ram i rs = (ram', Inr ()) \<and> length ram' = length ram"
  using assms
proof (induction rs arbitrary: i ram)
  case (Cons r rs)
  let ?o = "0x1040 + 24 * i"
  have "write_at ram (AARCH64_GUEST_RAM_BASE + word_of_nat ?o) (region_to_bytes r) = Inr (put ?o (region_to_bytes r) ram)"
    using Cons.prems by (subst write_at_off) simp_all
  moreover have "length (put ?o (region_to_bytes r) ram) = length ram"
    using Cons.prems by simp
  ultimately show ?case
    using Cons.IH[of "Suc i" "put ?o (region_to_bytes r) ram"] Cons.prems
    unfolding write_regions.simps region_gpa by simp
qed simp

lemma build_handoff_accepts:
  assumes "0x1040 + 24 * length rs \<le> 0x1800" "0x1801 + length cmdline \<le> 0x80000"
    "0x1801 + length cmdline \<le> length ram"
  shows "\<exists>ram' h. build_handoff_flagged ram rs cmdline entry fl = (ram', Inr h)"
proof -
  let ?c = "length cmdline"
  have w: "unat (word_of_nat k :: u64) = k" if "k < 2 ^ 63" for k
    using that by (simp add: unat_of_nat take_bit_nat_eq_self)
  have "AARCH64_MEM_REGIONS_ADDR + word_of_nat (length rs) * word_of_nat REGION_SIZE = word_of_nat (0x40001040 + 24 * length rs)"
    "AARCH64_CMDLINE_ADDR + word_of_nat ?c + 1 = word_of_nat (0x40001801 + ?c)"
    by (simp_all add: AARCH64_MEM_REGIONS_ADDR_def REGION_SIZE_def AARCH64_CMDLINE_ADDR_def)
  then have g: "\<not> AARCH64_MEM_REGIONS_ADDR + word_of_nat (length rs) * word_of_nat REGION_SIZE > AARCH64_CMDLINE_ADDR"
    "\<not> AARCH64_CMDLINE_ADDR + word_of_nat ?c + 1 > AARCH64_IMAGE_LMA"
    using assms w[of "0x40001040 + 24 * length rs"] w[of "0x40001801 + ?c"]
    by (simp_all add: word_less_nat_alt AARCH64_CMDLINE_ADDR_def AARCH64_IMAGE_LMA_def del: of_nat_add of_nat_mult)
  obtain ram1 where r1: "write_regions ram 0 rs = (ram1, Inr ())" "length ram1 = length ram"
    using write_regions_total[of 0 rs ram] assms by auto
  have addrs: "AARCH64_CMDLINE_ADDR = AARCH64_GUEST_RAM_BASE + word_of_nat 0x1800"
    "AARCH64_CMDLINE_ADDR + word_of_nat ?c = AARCH64_GUEST_RAM_BASE + word_of_nat (0x1800 + ?c)"
    "AARCH64_BOOT_INFO_ADDR = AARCH64_GUEST_RAM_BASE + word_of_nat 0x1000"
    by (simp_all add: AARCH64_CMDLINE_ADDR_def AARCH64_GUEST_RAM_BASE_def AARCH64_BOOT_INFO_ADDR_def)
  let ?r2 = "put 0x1800 cmdline ram1"
  have r2: "write_at ram1 AARCH64_CMDLINE_ADDR cmdline = Inr ?r2"
    using assms r1(2) unfolding addrs(1) by (subst write_at_off) simp_all
  have l2: "length ?r2 = length ram"
    using assms r1(2) by simp
  let ?r3 = "put (0x1800 + ?c) [0] ?r2"
  have r3: "write_at ?r2 (AARCH64_CMDLINE_ADDR + word_of_nat ?c) [0] = Inr ?r3"
    using assms l2 unfolding addrs(2) by (subst write_at_off) simp_all
  have l3: "length ?r3 = length ram"
    using assms l2 by simp
  have "write_at ?r3 AARCH64_BOOT_INFO_ADDR (info_to_bytes i) = Inr (put 0x1000 (info_to_bytes i) ?r3)" for i
    using assms l3 unfolding addrs(3) by (subst write_at_off) simp_all
  then show ?thesis
    using g r1(1) r2 r3 by (simp add: build_handoff_flagged_def Let_def)
qed


theorem boot_block_read_back_witness:
  "\<exists>ram' h bm. build_handoff_flagged (replicate 0x2000 0) [region_new 0x40000000 0x2000000 Ram] [0x78] 0x40080000 1 =
      (ram', Inr h) \<and> holds_ram bm ram' \<and> pmm_collect_regions bm 0x40001000 =
      [Reserved 0x40001000 56, Reserved 0x40001040 24, Reserved 0x40001800 1, Reserved 0x40000000 0x80000,
       Usable 0x40000000 0x2000000]"
proof -
  let ?rs = "[region_new 0x40000000 0x2000000 Ram]"
  obtain ram' h where b: "build_handoff_flagged (replicate 0x2000 0) ?rs [0x78] 0x40080000 1 = (ram', Inr h)"
    using build_handoff_accepts[of ?rs "[0x78]" "replicate 0x2000 0" "0x40080000" 1] by auto
  let ?bm = "\<lambda>a. ram' ! unat (a - DRAM_BASE)"
  have addr: "boot_info_addr h = AARCH64_BOOT_INFO_ADDR"
    by (rule build_handoff_steps[OF _ _ b]) simp_all
  have "length ram' = 0x2000"
    using build_handoff_writes(2)[OF _ _ b] by simp
  then have ram: "holds_ram ?bm ram'"
    by (auto simp: holds_ram_def unat_of_nat take_bit_nat_eq_self)
  have "pmm_collect_regions ?bm 0x40001000 = [Reserved 0x40001000 56, Reserved 0x40001040 24, Reserved 0x40001800 1,
      Reserved 0x40000000 0x80000, Usable 0x40000000 0x2000000]"
    using boot_block_read_back[OF _ _ b ram] unfolding addr
    by (simp add: AARCH64_BOOT_INFO_ADDR_def AARCH64_MEM_REGIONS_ADDR_def AARCH64_CMDLINE_ADDR_def clamp_region_def
        region_new_def is_ram_def TB_MEM_KIND_RAM_def saturating_add_code DRAM_BASE_def ID_RAM_HI_def max_def min_def)
  with b ram show ?thesis by blast
qed

end
