(* ===== verification/Guest_Confinement.thy ===== *)
theory Guest_Confinement
  imports El2_Monitor Boot_Map
begin

text \<open>
  What the monitor guarantees about the confined kernel guest. A guest may store through its
  second stage at any address, reprogram its EL1 registers and trap with any syndrome in any
  order; the run relation collects the aborts it has caused and the bytes it has sent to its
  emulated UART. The invariant of a run, proved once per handler and by rule induction over
  runs, says that memory outside the guest's carve and the interrupt controller keeps its
  contents, that the guest's tables and regime stay as launched, and that leaving restores the
  host's.
\<close>

section \<open>Guest runs\<close>

definition translate :: "el2 \<Rightarrow> u64 \<Rightarrow> u64 option" where
  "translate s ipa = (if hcr_el2 s AND HCR_VM \<noteq> 0 then s2_walk (ram s) (vttbr_baddr (vttbr_el2 s)) ipa else Some ipa)"

datatype guest_ctl = Running | Left el2_exit

text \<open>The exits the launched guest is meant to take: stage-2 aborts, \<open>WFI\<close> and \<open>HVC #17\<close>.\<close>

definition kg_call :: "u64 \<Rightarrow> bool" where
  "kg_call esr \<longleftrightarrow> classify_exit esr = StageTwoAbort \<or> classify_exit esr = Wfx \<or>
     classify_exit esr = Hvc \<and> esr AND HVC_IMM_MASK = 17"

text \<open>The byte a trap sends to the emulated UART, and whether it is an abort.\<close>

definition uart_byte :: "trap_regs \<Rightarrow> el2_frame \<Rightarrow> el2 \<Rightarrow> bytes" where
  "uart_byte h f s = (let ipa = hpfar_fault_ipa (hpfar_el2 h) in
     if classify_exit (esr_el2 h) = StageTwoAbort \<and> esr_wnr (esr_el2 h) = 1 \<and> ipa AND NOT 0xFFF = PL011_PAGE \<and>
        far_el2 h AND 0xFFF = PL011_DR \<and> \<not> in_probe ipa s
     then [ucast (gpr_value f (unat (dabt_iss_srt (esr_el2 h))) AND 0xFF)] else [])"

definition abort_count :: "trap_regs \<Rightarrow> nat" where
  "abort_count h = (if classify_exit (esr_el2 h) = StageTwoAbort then 1 else 0)"

inductive guest_run :: "image \<Rightarrow> el2 \<Rightarrow> nat \<Rightarrow> bytes \<Rightarrow> el2 \<times> guest_ctl \<Rightarrow> bool" for img s0 where
  start: "guest_run img s0 0 [] (s0, Running)"
| store: "guest_run img s0 n bs (s, Running) \<Longrightarrow> translate s ipa = Some pa \<Longrightarrow>
    guest_run img s0 n bs (s\<lparr>ram := (ram s)(pa AND NOT 7 := v)\<rparr>, Running)"
| regs: "guest_run img s0 n bs (s, Running) \<Longrightarrow>
    guest_run img s0 n bs (s\<lparr>sp_el1 := a, sctlr_el1 := b, esr_el1 := c, elr_el1 := d, spsr_el1 := e\<rparr>, Running)"
| trap: "guest_run img s0 n bs (s, Running) \<Longrightarrow> kg_call (esr_el2 h) \<Longrightarrow> length (gpr f) = 31 \<Longrightarrow>
    aarch64_el2_sync_handler img h f (save_context f s) = (s', Resume f') \<Longrightarrow>
    guest_run img s0 (n + abort_count h) (bs @ uart_byte h f s) (s', Running)"
| leave: "guest_run img s0 n bs (s, Running) \<Longrightarrow> kg_call (esr_el2 h) \<Longrightarrow> length (gpr f) = 31 \<Longrightarrow>
    aarch64_el2_sync_handler img h f (save_context f s) = (s', ex) \<Longrightarrow> (\<nexists>f'. ex = Resume f') \<Longrightarrow>
    guest_run img s0 (n + abort_count h) bs (s', Left ex)"

section \<open>The handlers\<close>

text \<open>What a handler that resumes the guest keeps, and what leaving restores.\<close>

definition regime :: "el2 \<Rightarrow> u64 \<times> u64 \<times> u64 \<times> u64 \<times> u64 \<times> el2_frame \<times> nat \<times> memory" where
  "regime s = (hcr_el2 s, vttbr_el2 s, kg_armed s, kg_sp s, kg_probe_ipa s, b0 s, depth s, ram s)"

definition log_of :: "el2 \<Rightarrow> kg_log \<times> bytes" where
  "log_of s = (kg_logbuf s, console s)"

text \<open>What the monitor itself may add to the console when a guest leaves.\<close>

definition monitor_note :: "bytes \<Rightarrow> bool" where
  "monitor_note msg \<longleftrightarrow> msg = [] \<or> (\<exists>ipa. msg = ascii ''el2: nisv-abort ipa='' @ diag_write_hex ipa @ [0x0A])"

definition host_again :: "el2 \<Rightarrow> el2 \<Rightarrow> el2_exit \<Rightarrow> bool" where
  "host_again s s' ex \<longleftrightarrow> hcr_el2 s' = HCR_RW \<and> vttbr_el2 s' = 0 \<and> kg_armed s' = 0 \<and> sp_el1 s' = kg_sp s \<and> depth s' = 0 \<and>
     ram s' = ram s \<and> (\<exists>code x1. ex = Unwind ((b0 s)\<lparr>gpr := (gpr (b0 s))[0 := code, 1 := x1]\<rparr>)) \<and>
     (\<exists>msg. console s' = snd (kg_log_flush (log_of s)) @ msg \<and> monitor_note msg)"

lemma kg_flush_keeps [simp]:
  "regime (kg_flush s) = regime s" "sp_el1 (kg_flush s) = sp_el1 s" "kg_traps (kg_flush s) = kg_traps s"
  "console (kg_flush s) = snd (kg_log_flush (log_of s))"
  "kg_sp (kg_flush s) = kg_sp s" "b0 (kg_flush s) = b0 s" "ram (kg_flush s) = ram s" "hcr_el2 (kg_flush s) = hcr_el2 s"
  "vttbr_el2 (kg_flush s) = vttbr_el2 s"
  by (simp_all add: kg_flush_def regime_def log_of_def split: prod.splits)

lemma kg_push_keeps [simp]:
  "regime (kg_push b s) = regime s" "kg_traps (kg_push b s) = kg_traps s" "log_of (kg_push b s) = kg_log_push b (log_of s)"
  by (simp_all add: kg_push_def regime_def log_of_def split: prod.splits)

lemma teardown_unwinds:
  assumes "spsr (b0 s) \<noteq> 0" "monitor_note msg"
    and "el2_return_to_kernel code x1 (serial_write msg (kg_teardown_el2 s)) = (s', ex)"
  shows "host_again s s' ex"
  using assms
  by (auto simp: el2_return_to_kernel_def kg_teardown_el2_def serial_write_def host_again_def Let_def KG_HCR_RW_def HCR_RW_def log_of_def
      split: if_splits)

lemma return_unwinds:
  assumes "spsr (b0 s) \<noteq> 0" "el2_return_to_kernel code x1 (kg_teardown_el2 s) = (s', ex)"
  shows "host_again s s' ex"
  using teardown_unwinds[of s "[]" code x1] assms by (simp add: serial_write_def monitor_note_def)

lemma host_again_cong: "regime s = regime t \<Longrightarrow> log_of s = log_of t \<Longrightarrow> host_again s s' ex = host_again t s' ex"
  by (simp add: host_again_def regime_def)

lemma host_again_left: "host_again s s' ex \<Longrightarrow> ex \<noteq> Resume f"
  by (auto simp: host_again_def)

lemma page_ipa: "hpfar_fault_ipa x AND NOT 0xFFF = hpfar_fault_ipa x"
  unfolding and_not_code by (simp add: hpfar_page)

lemma kg_write_step:
  assumes "ipa = hpfar_fault_ipa x"
  shows "regime (kg_write ipa off v s) = regime s" "kg_traps (kg_write ipa off v s) = kg_traps s"
    "log_of (kg_write ipa off v s) =
       (if ipa AND NOT 0xFFF = PL011_PAGE \<and> off = PL011_DR \<and> \<not> in_probe ipa s
        then kg_log_push (ucast (v AND 0xFF)) (log_of s) else log_of s)"
proof -
  have p: "in_doorbell ipa \<longleftrightarrow> ipa = 0x42000000" "ipa AND NOT 0xFFF = PL011_PAGE \<longleftrightarrow> ipa = 0x9000000"
    using page_ipa[of x] by (simp_all add: assms in_doorbell_def carve_defs PL011_PAGE_def)
  have b: "in_block PL011_BLOCK_BASE 0x9000000"
    by (simp add: in_block_def PL011_BLOCK_BASE_def BLOCK_2M_def)
  show "regime (kg_write ipa off v s) = regime s" "kg_traps (kg_write ipa off v s) = kg_traps s"
    by (simp_all add: kg_write_def regime_def flip: regime_def) (simp_all add: regime_def)
  show "log_of (kg_write ipa off v s) =
       (if ipa AND NOT 0xFFF = PL011_PAGE \<and> off = PL011_DR \<and> \<not> in_probe ipa s
        then kg_log_push (ucast (v AND 0xFF)) (log_of s) else log_of s)"
    unfolding kg_write_def p using b by (auto simp: log_of_def[of "_\<lparr>kg_doorbell := _, kg_last := _\<rparr>"] log_of_def[of "_\<lparr>kg_probes := _\<rparr>"]) (simp_all add: log_of_def)
qed

text \<open>Each handler of an armed guest either resumes it with its regime intact, or gives the host back.\<close>

definition kg_step :: "trap_regs \<Rightarrow> el2_frame \<Rightarrow> el2 \<Rightarrow> el2 \<times> el2_exit \<Rightarrow> bool" where
  "kg_step h f s r \<longleftrightarrow> (case r of
     (s', Resume _) \<Rightarrow> regime s' = regime s \<and> kg_traps s' = kg_traps s + of_nat (abort_count h) \<and>
       (abort_count h = 1 \<longrightarrow> kg_traps s' \<le> KG_TRAP_CAP) \<and> log_of s' = fold kg_log_push (uart_byte h f s) (log_of s)
   | (s', ex) \<Rightarrow> host_again s s' ex)"

lemma kg_step_left: "host_again t s' ex \<Longrightarrow> regime t = regime s \<Longrightarrow> log_of t = log_of s \<Longrightarrow> kg_step h f s (s', ex)"
  by (cases ex) (auto simp: kg_step_def host_again_cong[of t s] dest: host_again_left)

lemma kg_fail_step:
  assumes "spsr (b0 s) \<noteq> 0" "regime t = regime s" "log_of t = log_of s"
  shows "kg_step h f s (kg_fail code x t)"
  using assms return_unwinds[of t code x] kg_step_left[of t _ _ s]
  by (cases "kg_fail code x t") (simp add: kg_fail_def regime_def)

lemma kg_emulate_step:
  assumes "classify_exit (esr_el2 h) = StageTwoAbort" "kg_traps s = t + 1" "kg_traps s \<le> KG_TRAP_CAP"
    and "ipa = hpfar_fault_ipa (hpfar_el2 h)" "regime s = regime s0" "log_of s = log_of s0" "kg_traps s0 = t"
  shows "kg_step h f s0 (kg_emulate h ipa f s)"
proof -
  have p: "in_probe ipa s = in_probe ipa s0" using assms(5) by (simp add: in_probe_def regime_def)
  have "uart_byte h f s0 = (if esr_wnr (esr_el2 h) = 1 \<and> ipa AND NOT 0xFFF = PL011_PAGE \<and>
        far_el2 h AND 0xFFF = PL011_DR \<and> \<not> in_probe ipa s
     then [ucast (gpr_value f (unat (dabt_iss_srt (esr_el2 h))) AND 0xFF)] else [])"
    using assms(1,4) p by (simp add: uart_byte_def Let_def)
  then show ?thesis
    using assms kg_write_step[OF assms(4), of "far_el2 h AND 0xFFF" "gpr_value f (unat (dabt_iss_srt (esr_el2 h)))" s]
    by (auto simp: kg_step_def kg_emulate_def Let_def el2_abort_retry_def abort_count_def)
qed

lemma kguest_abort_step:
  assumes "spsr (b0 s) \<noteq> 0" "classify_exit (esr_el2 h) = StageTwoAbort"
  shows "kg_step h f s (kguest_abort h f s)"
proof -
  let ?ipa = "hpfar_fault_ipa (hpfar_el2 h)"
  let ?a = "s\<lparr>kg_traps := kg_traps s + 1\<rparr>"
  let ?b = "s\<lparr>kg_traps := kg_traps s + 1, kg_fault_ipa := ?ipa, kg_fault_esr := esr_el2 h\<rparr>"
  have k: "regime ?a = regime s" "log_of ?a = log_of s" "regime ?b = regime s" "log_of ?b = log_of s"
    by (simp_all add: regime_def log_of_def)
  have f: "kg_step h f s (kg_fail c x ?a)" "kg_step h f s (kg_fail c x ?b)" for c x
    by (rule kg_fail_step[OF assms(1)]; simp add: k)+
  have n: "kg_step h f s (el2_return_to_kernel c x (serial_write m (kg_teardown_el2 ?b)))" if "monitor_note m" for c x m
  proof -
    obtain s' ex where e: "el2_return_to_kernel c x (serial_write m (kg_teardown_el2 ?b)) = (s', ex)" by fastforce
    show ?thesis using teardown_unwinds[OF _ that e] assms(1) kg_step_left[OF _ k(3,4)] e by simp
  qed
  have e: "kg_step h f s (kg_emulate h ?ipa f ?b)" if "\<not> kg_traps s + 1 > KG_TRAP_CAP"
    using that by (intro kg_emulate_step[OF assms(2)]) (simp_all add: k)
  have "monitor_note (ascii ''el2: nisv-abort ipa='' @ diag_write_hex ?ipa @ [0x0A])"
    unfolding monitor_note_def by blast
  then show ?thesis
    unfolding kguest_abort_def Let_def using f n e by simp
qed

lemma kguest_wfx_step:
  assumes "spsr (b0 s) \<noteq> 0"
  shows "kg_step h f s (kguest_wfx f esr s)"
  using kg_fail_step[OF assms refl refl, unfolded kg_fail_def]
  by (simp add: kguest_wfx_def kg_fail_def)

lemma kguest_done_step:
  assumes "spsr (b0 s) \<noteq> 0" "classify_exit (esr_el2 h) = Hvc"
  shows "kg_step h f s (kguest_done f s)"
  using kg_fail_step[OF assms(1) refl refl] assms(2)
  by (simp add: kguest_done_def Let_def) (simp add: kg_step_def el2_abort_retry_def regime_def log_of_def uart_byte_def abort_count_def)

lemma handler_step:
  assumes "kg_armed s \<noteq> 0" "kg_call (esr_el2 h)" "spsr (b0 s) \<noteq> 0"
  shows "kg_step h f s (aarch64_el2_sync_handler img h f s)"
  using assms(2) kguest_abort_step[OF assms(3), of h f] kguest_wfx_step[OF assms(3), of h f "esr_el2 h"] kguest_done_step[OF assms(3), of h f] assms(1)
  by (auto simp: kg_call_def aarch64_el2_sync_handler_def exit_stage2_def exit_wfx_def hvc_dispatch_def hvc_kguest_done_def kg_is_armed_def)

section \<open>The invariant of a run\<close>

text \<open>The physical addresses a guest may reach: its carve and the interrupt controller's block.\<close>

definition guest_pa :: "u64 \<Rightarrow> bool" where
  "guest_pa a \<longleftrightarrow> 0x46000000 \<le> unat a \<and> unat a < 0x48000000 \<or> 0x8000000 \<le> unat a \<and> unat a < 0x8200000"

definition same_outside :: "memory \<Rightarrow> memory \<Rightarrow> bool" where
  "same_outside m m' \<longleftrightarrow> (\<forall>a. \<not> guest_pa a \<longrightarrow> m' a = m a)"

definition confined :: "memory \<Rightarrow> u64 \<Rightarrow> el2_frame \<Rightarrow> u64 \<Rightarrow> bytes \<Rightarrow> nat \<Rightarrow> bytes \<Rightarrow> el2 \<Rightarrow> bool" where
  "confined m0 root f0 sp con n bs s \<longleftrightarrow> hcr_el2 s = KG_HCR_RW OR KG_HCR_VM OR KG_HCR_TWI \<and>
     vttbr_el2 s = compute_vttbr_vmid root KGUEST_VMID \<and> kg_armed s = 1 \<and> kg_sp s = sp \<and> b0 s = f0 \<and> depth s = 1 \<and>
     kg_traps s = of_nat n \<and> n \<le> 2000000 \<and> logged con bs (log_of s) \<and> same_outside m0 (ram s)"

lemma host_slot_outside:
  assumes "host_frame t" "i < 512"
  shows "\<not> guest_pa (slot t i)"
  using assms unat_slot[of t i] by (auto simp: host_frame_def guest_pa_def)

lemma guest_tables_outside:
  assumes "guest_tables m root l0 l1" "\<forall>f\<in>{root, l0, l1}. host_frame f" "same_outside m m'"
  shows "guest_tables m' root l0 l1"
proof -
  have "m' (slot t i) = m (slot t i)" if "t \<in> {root, l0, l1}" "i < 512" for t i
    using host_slot_outside[of t i] assms(2,3) that by (auto simp: same_outside_def)
  then show ?thesis
    using assms(1) by (simp add: guest_tables_def table_def)
qed

lemma guest_view_pa:
  assumes "guest_view ipa = Some pa"
  shows "guest_pa (pa AND NOT 7)"
proof -
  have u: "unat (ipa + 0x6000000) = unat ipa + 0x6000000" if "unat ipa < 0x42000000"
    using that by (simp add: unat_word_ariths)
  have "guest_pa pa"
    using assms u by (auto simp: guest_view_nat guest_pa_def split: if_splits)
  moreover have "unat (pa AND NOT 7) = unat pa div 8 * 8"
    using unat_clear_bits[of pa 3] by (simp add: mask_eq_exp_minus_1)
  moreover have "0x46000000 \<le> unat pa \<Longrightarrow> 0x8C00000 \<le> unat pa div 8" "0x8000000 \<le> unat pa \<Longrightarrow> 0x1000000 \<le> unat pa div 8"
    "unat pa div 8 * 8 \<le> unat pa"
    by (simp_all add: less_eq_div_iff_mult_less_eq)
  ultimately show ?thesis
    unfolding guest_pa_def by auto
qed

lemma confined_translate:
  assumes "guest_tables m0 root l0 l1" "\<forall>f\<in>{root, l0, l1}. host_frame f" "confined m0 root f0 sp con n bs s"
  shows "translate s ipa = guest_view ipa"
proof -
  have "vttbr_baddr (vttbr_el2 s) = root"
    using assms(1,3) by (simp add: guest_tables_def confined_def compute_vttbr_vmid_def vttbr_fields)
  moreover have "guest_tables (ram s) root l0 l1"
    using guest_tables_outside[OF assms(1,2)] assms(3) by (simp add: confined_def)
  moreover have "hcr_el2 s AND HCR_VM \<noteq> 0"
    using assms(3) by (simp add: confined_def KG_HCR_RW_def KG_HCR_VM_def KG_HCR_TWI_def HCR_VM_def)
  ultimately show ?thesis
    by (simp add: translate_def walk_guest)
qed

lemma confined_resume:
  assumes "confined m0 root f0 sp con n bs s" "kg_step h f s (s', Resume f')"
  shows "confined m0 root f0 sp con (n + abort_count h) (bs @ uart_byte h f s) s'"
proof -
  have "regime s' = regime s" and log: "log_of s' = fold kg_log_push (uart_byte h f s) (log_of s)"
    and t: "kg_traps s' = of_nat (n + abort_count h)" "abort_count h = 1 \<longrightarrow> kg_traps s' \<le> KG_TRAP_CAP"
    using assms unfolding kg_step_def confined_def by auto
  moreover have "abort_count h \<le> 1" "n \<le> 2000000"
    using assms(1) by (simp_all add: abort_count_def confined_def)
  moreover have "n + abort_count h \<le> 2000000"
  proof (cases "abort_count h = 1")
    case True
    have "unat (of_nat (n + 1) :: u64) = n + 1"
      using \<open>n \<le> 2000000\<close> by (simp add: unat_of_nat take_bit_nat_eq_self del: of_nat_add of_nat_Suc)
    then show ?thesis
      using t True by (simp add: KG_TRAP_CAP_def word_le_nat_alt)
  qed (use \<open>abort_count h \<le> 1\<close> \<open>n \<le> 2000000\<close> in simp)
  moreover have "logged con (bs @ uart_byte h f s) (log_of s')"
    unfolding log using assms(1) by (intro logged_pushes) (simp add: confined_def)
  ultimately show ?thesis
    using assms(1) by (simp add: confined_def regime_def)
qed

lemma guest_run_invariant:
  assumes "guest_run img s0 n bs (s, ctl)"
    and "guest_tables m0 root l0 l1" "\<forall>f\<in>{root, l0, l1}. host_frame f" "spsr f0 \<noteq> 0"
    and "confined m0 root f0 sp con 0 [] s0"
  shows "case ctl of Running \<Rightarrow> confined m0 root f0 sp con n bs s
    | Left ex \<Rightarrow> \<exists>k t. n \<le> Suc k \<and> confined m0 root f0 sp con k bs t \<and> host_again t s ex"
  using assms(1)
proof (induction n bs "(s, ctl)" arbitrary: s ctl)
  case start
  show ?case using assms(5) by simp
next
  case (store n bs s ipa pa v)
  then have inv: "confined m0 root f0 sp con n bs s" by simp
  then have "guest_pa (pa AND NOT 7)"
    using confined_translate[OF assms(2,3)] store.hyps(3) guest_view_pa by simp
  then show ?case
    using inv by (simp add: confined_def same_outside_def log_of_def)
next
  case (regs n bs s a b c d e)
  then show ?case by (simp add: confined_def log_of_def)
next
  case (trap n bs s h f s' f')
  then have inv: "confined m0 root f0 sp con n bs s" by simp
  then have "kg_step h f s (aarch64_el2_sync_handler img h f (save_context f s))"
    using trap.hyps(3) handler_step[of s h f img] assms(4) by (simp add: confined_def save_context_def)
  then show ?case
    using confined_resume[OF inv] trap.hyps(5) by simp
next
  case (leave n bs s h f s' ex)
  then have inv: "confined m0 root f0 sp con n bs s" by simp
  then have "kg_step h f s (aarch64_el2_sync_handler img h f (save_context f s))"
    using leave.hyps(3) handler_step[of s h f img] assms(4) by (simp add: confined_def save_context_def)
  then have "host_again s s' ex"
    using leave.hyps(5,6) by (cases ex) (simp_all add: kg_step_def)
  then show ?case
    using inv by (auto simp: abort_count_def intro!: exI[of _ n] exI[of _ s])
qed

section \<open>Launching\<close>

text \<open>The kernel, with the frame \<open>f0\<close>, has launched the guest on the tables at \<open>root\<close> by \<open>HVC #16\<close>.\<close>

definition launched :: "image \<Rightarrow> u64 \<Rightarrow> el2_frame \<Rightarrow> el2 \<Rightarrow> el2 \<Rightarrow> bool" where
  "launched img root f0 s s0 \<longleftrightarrow> depth s = 0 \<and> spsr f0 \<noteq> 0 \<and> length (log_buf (kg_logbuf s)) = GUESTLOG_MAX_PAYLOAD \<and>
     gpr f0 ! 1 = compute_vttbr_vmid root KGUEST_VMID \<and>
     (\<exists>h ex. classify_exit (esr_el2 h) = Hvc \<and> esr_el2 h AND HVC_IMM_MASK = 16 \<and>
        aarch64_el2_sync_handler img h f0 (save_context f0 s) = (s0, ex))"

lemma launched_confined:
  assumes "launched img root f0 s s0"
  shows "confined (ram s) root f0 (sp_el1 s) (console s) 0 [] s0"
proof -
  have "\<exists>ex. kguest_launch f0 (s\<lparr>b0 := f0\<rparr>) = (s0, ex)"
    using assms by (auto simp: launched_def aarch64_el2_sync_handler_def hvc_dispatch_def save_context_def)
  moreover have "logged (console s) [] (kg_log_reset (kg_logbuf s), console s)"
    using assms by (intro logged_start) (simp add: launched_def)
  ultimately show ?thesis
    using assms
    by (auto simp: launched_def kguest_launch_def Let_def el2_enter_def kg_guest_sctlr_mmu_off_def kg_arm_el2_def
        confined_def same_outside_def log_of_def)
qed

lemma launched_tables:
  assumes "pmm_init (collect_fdt bm fdt) i1 i2 (pmm_new, m0) = Some sm0" "pmm_step\<^sup>*\<^sup>* (sm0, []) (sm, held)"
    and "build_guest_stage2 sm = (sm', Some root)"
  obtains l0 l1 where "guest_tables (snd sm') root l0 l1" "\<forall>f\<in>{root, l0, l1}. host_frame f"
proof -
  note h = host_run[OF assms(1,2)]
  obtain l0 l1 where t: "taken sm held sm' [l1, l0, root]" "guest_tables (snd sm') root l0 l1"
    using build_guest_tables[OF h(1,2) assms(3)] by blast
  moreover have "\<forall>f\<in>{root, l0, l1}. host_frame f"
    using t(1) h(3) by (auto simp: taken_def)
  ultimately show ?thesis using that by blast
qed

section \<open>Properties of the confined guest\<close>



section \<open>A concrete guest\<close>

definition demo_kernel :: "u64 \<Rightarrow> el2_frame" where
  "demo_kernel root = zero_frame\<lparr>gpr := (gpr zero_frame)[0 := compute_vtcr, 1 := compute_vttbr_vmid root KGUEST_VMID,
     2 := 0x40080000, 3 := 0x40001000, 4 := 0x1234, 5 := 0x45FFF000], elr := 0x40081000, spsr := 0x3C5\<rparr>"

lemma demo_launched:
  obtains s0 where "launched demo_image root (demo_kernel root) (demo_el2 m) s0" "kg_done s0 = 0" "kg_probe_ipa s0 = 0x45FFF000"
proof -
  let ?h = "demo_trap 0x5A000010 0"
  have c: "classify_exit (esr_el2 ?h) = Hvc" "esr_el2 ?h AND HVC_IMM_MASK = 16" by code_simp+
  obtain s0 ex where r: "aarch64_el2_sync_handler demo_image ?h (demo_kernel root) (save_context (demo_kernel root) (demo_el2 m)) = (s0, ex)"
    by (cases "aarch64_el2_sync_handler demo_image ?h (demo_kernel root) (save_context (demo_kernel root) (demo_el2 m))")
  have "launched demo_image root (demo_kernel root) (demo_el2 m) s0"
    unfolding launched_def using c r by (auto simp: demo_el2_def demo_kernel_def zero_frame_def kg_log_new_def)
  moreover have "kg_done s0 = 0" "kg_probe_ipa s0 = 0x45FFF000"
    using r c by (auto simp: aarch64_el2_sync_handler_def hvc_dispatch_def kguest_launch_def Let_def el2_enter_def demo_kernel_def
        kg_guest_sctlr_mmu_off_def kg_arm_el2_def zero_frame_def)
  ultimately show ?thesis using that by blast
qed

lemma demo_guest:
  obtains sm0 sm' root where "pmm_init (collect_fdt (\<lambda>_. 0) 0) 0 0 (pmm_new, \<lambda>_. 0) = Some sm0"
    "build_guest_stage2 sm0 = (sm', Some root)"
proof -
  obtain sm where sm: "pmm_init (collect_fdt (\<lambda>_. 0) 0) 0 0 (pmm_new, \<lambda>_. 0) = Some sm" "pmm_inv sm []"
    "demo_frames \<subseteq> {f. good_frame (fst sm) f} - set []"
    by (rule demo_host)
  then obtain sm' root where "build_guest_stage2 sm = (sm', Some root)"
    using build_guest_total[OF sm(2) card_demo_frames(1) sm(3)] card_demo_frames(2) by auto
  then show ?thesis
    using that sm(1) by blast
qed


text \<open>A guest that prints one byte and then parks too early.\<close>

lemma demo_print:
  assumes "kg_armed s = 1" "kg_traps s = 0" "kg_probe_ipa s = 0x45FFF000" "depth s = 1" "gpr f ! 1 = 0x41" "kg_done s = 0"
  shows "\<exists>s' f'. aarch64_el2_sync_handler demo_image (demo_trap 0x91010040 0x9000000) f (save_context f s) = (s', Resume f') \<and>
      kg_armed s' = 1 \<and> kg_done s' = 0 \<and> depth s' = 1"
    "kg_call (esr_el2 (demo_trap 0x91010040 0x9000000))" "abort_count (demo_trap 0x91010040 0x9000000) = 1"
    "uart_byte (demo_trap 0x91010040 0x9000000) f s = [0x41]"
proof -
  let ?h = "demo_trap 0x91010040 0x9000000"
  have c: "classify_exit (esr_el2 ?h) = StageTwoAbort" "esr_ec (esr_el2 ?h) \<noteq> EC_IABT_LOW" "esr_wnr (esr_el2 ?h) = 1"
    "esr_s1ptw (esr_el2 ?h) = 0" "dabt_is_emulatable (esr_el2 ?h)" "hpfar_fault_ipa (hpfar_el2 ?h) = 0x9000000"
    "dabt_iss_srt (esr_el2 ?h) = 1" "far_el2 ?h AND 0xFFF = 0"
    by code_simp+
  have p: "\<not> in_probe 0x9000000 s" using assms(3) by (simp add: in_probe_def and_not_code)
  show "\<exists>s' f'. aarch64_el2_sync_handler demo_image ?h f (save_context f s) = (s', Resume f') \<and>
      kg_armed s' = 1 \<and> kg_done s' = 0 \<and> depth s' = 1"
    using c assms by (simp add: aarch64_el2_sync_handler_def exit_stage2_def kguest_abort_def kg_is_armed_def save_context_def Let_def
        KG_TRAP_CAP_def in_block_def PL011_BLOCK_BASE_def BLOCK_2M_def kg_emulate_def el2_abort_retry_def kg_write_def kg_push_def split: prod.splits)
  show "kg_call (esr_el2 ?h)" "abort_count ?h = 1"
    using c by (simp_all add: kg_call_def abort_count_def)
  show "uart_byte ?h f s = [0x41]"
    using c p assms(5) by (simp add: uart_byte_def PL011_PAGE_def PL011_DR_def and_not_code gpr_value_def)
qed


lemma demo_park:
  assumes "kg_armed s = 1" "kg_done s = 0" "depth s = 1"
  shows "\<exists>s' ex. aarch64_el2_sync_handler demo_image (demo_trap 0x04000000 0) f (save_context f s) = (s', ex) \<and> (\<nexists>f'. ex = Resume f')"
    "kg_call (esr_el2 (demo_trap 0x04000000 0))" "abort_count (demo_trap 0x04000000 0) = 0"
proof -
  have c: "classify_exit (esr_el2 (demo_trap 0x04000000 0)) = Wfx" by code_simp
  show "\<exists>s' ex. aarch64_el2_sync_handler demo_image (demo_trap 0x04000000 0) f (save_context f s) = (s', ex) \<and> (\<nexists>f'. ex = Resume f')"
    using c assms by (simp add: aarch64_el2_sync_handler_def exit_wfx_def kguest_wfx_def kg_is_armed_def kg_fail_def save_context_def
        el2_return_to_kernel_def Let_def)
  show "kg_call (esr_el2 (demo_trap 0x04000000 0))" "abort_count (demo_trap 0x04000000 0) = 0"
    using c by (simp_all add: kg_call_def abort_count_def)
qed


section \<open>Exits outside the guest's vocabulary\<close>

text \<open>
  C34: Exits the guest is not meant to take are not handled by the guest window. While the guest
  is armed and no other window is, a secure monitor call, an unclassified exit, a trapped
  register access or an unknown hypercall unwinds to the kernel with the guest's second stage,
  its VTTBR, its stack pointer and its armed flag left in place; and its own \<open>HVC #16\<close> is
  accepted as a launch: translation then starts at the table the guest named.
\<close>

theorem kguest_unhandled_exits:
  assumes "kg_armed s \<noteq> 0" "spsr (b0 s) \<noteq> 0" "depth s \<noteq> 0" "exits_armed s = 0" "trap_armed s = 0"
    and "aarch64_el2_sync_handler img h f (save_context f s) = (s', ex)"
  shows "(classify_exit (esr_el2 h) \<in> {Smc, Undef, Sys64} \<or> classify_exit (esr_el2 h) = Hvc \<and> esr_el2 h AND HVC_IMM_MASK > 17 \<longrightarrow>
      (\<exists>f'. ex = Unwind f') \<and> hcr_el2 s' = hcr_el2 s \<and> vttbr_el2 s' = vttbr_el2 s \<and> sp_el1 s' = sp_el1 s \<and> kg_armed s' \<noteq> 0) \<and>
    (classify_exit (esr_el2 h) = Hvc \<and> esr_el2 h AND HVC_IMM_MASK = 16 \<longrightarrow>
      (\<forall>ipa. translate s' ipa = s2_walk (ram s) (vttbr_baddr (gpr f ! 1)) ipa))"
proof -
  have "(KG_HCR_RW OR KG_HCR_VM OR KG_HCR_TWI) AND HCR_VM \<noteq> 0" by code_simp
  moreover have k: "x \<noteq> 0" "x \<noteq> 1" "x \<noteq> 2" "x \<noteq> 3" "x \<noteq> 4" "x \<noteq> 5" "x \<noteq> 6" "x \<noteq> 7" "x \<noteq> 8" "x \<noteq> 9" "x \<noteq> 10" "x \<noteq> 11" "x \<noteq> 12"
    "x \<noteq> 13" "x \<noteq> 14" "x \<noteq> 15" "x \<noteq> 16" "x \<noteq> 17" if "x > 17" for x :: u64
    using that by auto
  ultimately show ?thesis
    using assms k[of "esr_el2 h AND HVC_IMM_MASK"]
    by (auto simp: aarch64_el2_sync_handler_def hvc_dispatch_def save_context_def exits_is_armed_def trap_is_armed_def
        el2_return_to_kernel_def kguest_launch_def Let_def el2_enter_def kg_guest_sctlr_mmu_off_def kg_arm_el2_def translate_def
        split: if_splits)
qed

theorem kguest_unhandled_exits_witness:
  "\<exists>s s' f'. kg_armed s \<noteq> 0 \<and> vttbr_el2 s = 0x2000041000000 \<and>
     aarch64_el2_sync_handler demo_image (demo_trap 0x5E000000 0) zero_frame (save_context zero_frame s) = (s', Unwind f') \<and>
     vttbr_el2 s' = 0x2000041000000 \<and> kg_armed s' \<noteq> 0"
proof -
  let ?s = "(demo_el2 (\<lambda>_. 0))\<lparr>kg_armed := 1, depth := 1, b0 := demo_kernel 0, vttbr_el2 := 0x2000041000000\<rparr>"
  have c: "classify_exit (esr_el2 (demo_trap 0x5E000000 0)) = Smc" by code_simp
  obtain s' ex where r: "aarch64_el2_sync_handler demo_image (demo_trap 0x5E000000 0) zero_frame (save_context zero_frame ?s) = (s', ex)"
    by (cases "aarch64_el2_sync_handler demo_image (demo_trap 0x5E000000 0) zero_frame (save_context zero_frame ?s)")
  have "kg_armed ?s \<noteq> 0" "spsr (b0 ?s) \<noteq> 0" "depth ?s \<noteq> 0" "exits_armed ?s = 0" "trap_armed ?s = 0" "vttbr_el2 ?s = 0x2000041000000"
    by (simp_all add: demo_el2_def demo_kernel_def)
  then show ?thesis
    using kguest_unhandled_exits[OF _ _ _ _ _ r] c r by (intro exI[of _ ?s] exI[of _ s']) auto
qed

end
