(* ===== verification/Sched_Props.thy ===== *)
theory Sched_Props
  imports El2_Monitor
begin

text \<open>
  What the time-partition scheduler guarantees: from its arming hypercall, through any
  interleaving of timer interrupts and device stores of the two guests, the running guest
  alternates as planned, the decision log is the planned hash chain, and the window closes
  with the verdict the stores deserve.
\<close>

section \<open>The replayed log\<close>

definition tampered_bytes :: "nat \<Rightarrow> bytes" where
  "tampered_bytes k = (let b = sched_bytes (plan_decision m27_frame_plan k) in if k = 0 then b[8 := b ! 8 XOR 1] else b)"

definition tampered_ids :: "nat \<Rightarrow> bytes list" where
  "tampered_ids n = map (\<lambda>k. uhash (tampered_bytes k)) [0..<n]"

definition tampered_head :: "nat \<Rightarrow> bytes" where
  "tampered_head n = chain_head uhash MIX_DOMAIN genesis (tampered_ids n)"

text \<open>The messages the two replays hash over a whole run.\<close>

definition m27_messages :: "bytes set" where
  "m27_messages = {sched_bytes (plan_decision m27_frame_plan 0), tampered_bytes 0} \<union>
     chain_inputs uhash MIX_DOMAIN genesis (tampered_ids 16) \<union> chain_inputs uhash MIX_DOMAIN genesis (plan_ids m27_frame_plan 16)"

lemma m27_ticks:
  "slot_deadline_delta m27_frame_plan 0 = 0x1000" "slot_deadline_delta m27_frame_plan 1 = 0x2000"
  "k < 2 \<Longrightarrow> fp_slot_ticks m27_frame_plan ! k = slot_deadline_delta m27_frame_plan k"
  by (auto simp: slot_deadline_delta_def m27_frame_plan_def M27_SLOT0_TICKS_def M27_SLOT1_TICKS_def N_SLOTS_def MIN_SLOT_TICKS_def
      less_2_cases_iff)

lemma length_tampered_head: "length (tampered_head n) = 32"
  unfolding tampered_head_def by (rule prov.head_width) simp

lemma replay_step_at:
  assumes "r = \<lparr>rp_clean = plan_head m27_frame_plan n, rp_tampered = tampered_head n, rp_clock = plan_clock m27_frame_plan n,
    rp_seq = word_of_nat (n div 2), rp_cur = n mod 2\<rparr>"
  shows "replay_step n r = \<lparr>rp_clean = plan_head m27_frame_plan (Suc n), rp_tampered = tampered_head (Suc n),
    rp_clock = plan_clock m27_frame_plan (Suc n), rp_seq = word_of_nat (Suc n div 2), rp_cur = Suc n mod 2\<rparr>"
proof -
  have nxt: "next_slot (n mod 2) = Suc n mod 2"
    by (auto simp: next_slot_def N_SLOTS_def mod_Suc)
  have d: "\<lparr>sd_frame_seq = word_of_nat (n div 2), sd_slot = word_of_nat (Suc n mod 2), sd_vmid_from = fp_vmid m27_frame_plan ! (n mod 2),
      sd_vmid_to = fp_vmid m27_frame_plan ! (Suc n mod 2), sd_t_logical = plan_clock m27_frame_plan n\<rparr> = plan_decision m27_frame_plan n"
    by (simp add: plan_decision_def)
  have c: "sched_canon x (replicate SCHED_CANON_LEN 0) = (sched_bytes x, 21)" for x
    by (simp add: sched_canon_eq SCHED_CANON_LEN_def)
  have th: "tampered_head (Suc n) = mix uhash MIX_DOMAIN (tampered_head n) (uhash (tampered_bytes n))"
    by (simp add: tampered_head_def tampered_ids_def chain_head_append)
  show ?thesis
    unfolding replay_step_def Let_def assms replay.simps nxt mod_mod_trivial d c prod.case plan_head_Suc th half_Suc
    by (simp add: SCHED_CANON_LEN_def m27_ticks(3) chain_mix_mix length_plan_head length_tampered_head prov_hash_def
        tampered_bytes_def Let_def)
qed

lemma replay_at:
  "fold replay_step [0..<n] replay_start = \<lparr>rp_clean = plan_head m27_frame_plan n, rp_tampered = tampered_head n,
    rp_clock = plan_clock m27_frame_plan n, rp_seq = word_of_nat (n div 2), rp_cur = n mod 2\<rparr>"
proof (induction n)
  case 0
  show ?case by (simp add: replay_start_def plan_head_def plan_ids_def tampered_head_def tampered_ids_def)
next
  case (Suc n)
  show ?case using replay_step_at[OF refl, of n] by (simp add: Suc)
qed

lemma replay_heads: "n < 2 ^ 64 \<Longrightarrow> m27_replay_head (word_of_nat n) = (plan_head m27_frame_plan n, tampered_head n)"
  by (simp add: m27_replay_head_def replay_at unat_of_nat take_bit_nat_eq_self)

text \<open>The two logs differ, so equal heads break the hash on these messages.\<close>

lemma first_ids:
  "0 < n \<Longrightarrow> tampered_ids n ! 0 = uhash (tampered_bytes 0)" "0 < n \<Longrightarrow> plan_ids plan n ! 0 = uhash (sched_bytes (plan_decision plan 0))"
  by (simp_all add: tampered_ids_def plan_ids_def)

lemma tampered_differs:
  assumes "tampered_head 16 = plan_head m27_frame_plan 16"
  shows "broken_on uhash genesis m27_messages"
proof (rule ccontr)
  assume nb: "\<not> broken_on uhash genesis m27_messages"
  have "tampered_ids 16 = plan_ids m27_frame_plan 16"
    using assms nb unfolding tampered_head_def plan_head_def
    by (intro prov.chain_inject[of genesis]) (auto simp: m27_messages_def elim!: contrapos_nn broken_on_mono)
  then have "tampered_ids 16 ! 0 = plan_ids m27_frame_plan 16 ! 0" by simp
  then have "uhash (tampered_bytes 0) = uhash (sched_bytes (plan_decision m27_frame_plan 0))"
    using first_ids(1)[of 16] first_ids(2)[of 16 m27_frame_plan] by (simp only: zero_less_numeral simp_thms)
  then have "tampered_bytes 0 = sched_bytes (plan_decision m27_frame_plan 0)"
    by (rule not_broken_inject[OF nb, rotated 2]) (simp_all add: m27_messages_def)
  then have "tampered_bytes 0 ! 8 = sched_bytes (plan_decision m27_frame_plan 0) ! 8" by simp
  then show False
    by (simp add: tampered_bytes_def Let_def) (simp add: sched_bytes_def plan_decision_def nth_append)
qed

section \<open>The verdict\<close>

lemma order_check_None:
  "(\<And>j. i \<le> j \<Longrightarrow> j < i + k \<Longrightarrow> order_at c j = (if j mod 2 = 0 then ucast M27_VMID0 else ucast M27_VMID1)) \<Longrightarrow> order_check c i k = None"
  by (induction k arbitrary: i) (simp_all add: Let_def)

definition verdict_ok :: "nat \<Rightarrow> nat \<Rightarrow> u64 \<Rightarrow> bool" where
  "verdict_ok a b code \<longleftrightarrow>
     (if (word_of_nat a :: u64) = 0 then code = FAIL_SCHED_VMID0_STARVED
      else if (word_of_nat b :: u64) = 0 then code = FAIL_SCHED_VMID1_STARVED
      else code = 0 \<or> code = FAIL_SCHED_TAMPER \<and> broken_on uhash genesis m27_messages)"

lemma m27_verdict_at:
  assumes "sched_at m27_frame_plan vts es 16 (sched s)" "device_pair s = [word_of_nat a, word_of_nat b]"
  shows "verdict_ok a b (fst (m27_verdict s))"
proof -
  let ?c = "sched s"
  have y: "sc_yields_done ?c = 16" "slot_ticks ?c 0 = 0x1000" "slot_ticks ?c 1 = 0x2000" "head_bytes ?c = plan_head m27_frame_plan 16"
    using assms(1) by (simp_all add: sched_at_def slot_ticks_def N_SLOTS_def m27_ticks(1,2)[simplified])
  have c: "device_count_m27 (ucast M27_VMID0) s = word_of_nat a" "device_count_m27 (ucast M27_VMID1) s = word_of_nat b"
    using assms(2) by (simp_all add: device_count_m27_def M27_VMID0_def M27_VMID1_def)
  have o: "order_check ?c 0 16 = None"
    using assms(1) by (intro order_check_None) (auto simp: order_at_def sched_at_def MAX_YIELDS_def m27_frame_plan_def mod2_eq_if)
  have t: "frame_total m27_frame_plan = 0x3000" "saturating_add 0x1000 0x2000 = (0x3000 :: u64)"
    by code_simp+
  have h: "m27_replay_head 16 = (plan_head m27_frame_plan 16, tampered_head 16)"
    using replay_heads[of 16] by simp
  show ?thesis
    unfolding m27_verdict_def Let_def y c t h prod.case
    using tampered_differs
    by (simp add: verdict_ok_def K_MAX_FRAMES_def MAX_YIELDS_def o M27_SLOT0_TICKS_def M27_SLOT1_TICKS_def)
qed

section \<open>Runs of the scheduler window\<close>

definition left :: "el2_exit \<Rightarrow> el2_exit option" where
  "left ex = (case ex of Resume _ \<Rightarrow> None | _ \<Rightarrow> Some ex)"

text \<open>A store of the guest of slot \<open>k mod 2\<close> to its own device page.\<close>

definition device_store :: "trap_regs \<Rightarrow> nat \<Rightarrow> bool" where
  "device_store h k \<longleftrightarrow> classify_exit (esr_el2 h) = StageTwoAbort \<and> dabt_is_emulatable (esr_el2 h) \<and> esr_wnr (esr_el2 h) = 1 \<and>
     hpfar_fault_ipa (hpfar_el2 h) = (if even k then M27_DEVICE_IPA_0 else M27_DEVICE_IPA_1)"

text \<open>Runs with \<open>k\<close> timer interrupts, \<open>a\<close> stores of the first guest and \<open>b\<close> of the second.\<close>

inductive sched_run :: "image \<Rightarrow> el2 \<Rightarrow> nat \<Rightarrow> nat \<Rightarrow> nat \<Rightarrow> el2 \<times> el2_exit option \<Rightarrow> bool" for img s0 where
  start: "sched_run img s0 0 0 0 (s0, None)"
| store: "sched_run img s0 k a b (s, None) \<Longrightarrow> device_store h k \<Longrightarrow>
    aarch64_el2_sync_handler img h f (save_context f s) = (s', ex) \<Longrightarrow>
    sched_run img s0 k (if even k then Suc a else a) (if even k then b else Suc b) (s', left ex)"
| tick: "sched_run img s0 k a b (s, None) \<Longrightarrow> gicc_iar h AND 0x3FF = CNTHP_PPI \<Longrightarrow>
    aarch64_el2_timer_handler img h f (save_context f s) = (s', ex) \<Longrightarrow>
    sched_run img s0 (Suc k) a b (s', left ex)"
| stray: "sched_run img s0 k a b (s, None) \<Longrightarrow> gicc_iar h AND 0x3FF \<noteq> CNTHP_PPI \<Longrightarrow>
    aarch64_el2_timer_handler img h f (save_context f s) = (s', ex) \<Longrightarrow>
    sched_run img s0 k a b (s', left ex)"

definition sched_inv :: "el2_frame \<Rightarrow> nat \<Rightarrow> nat \<Rightarrow> nat \<Rightarrow> el2 \<Rightarrow> bool" where
  "sched_inv f0 k a b s \<longleftrightarrow> k < 16 \<and> sched_at m27_frame_plan [gpr f0 ! 1, gpr f0 ! 2] [gpr f0 ! 3, gpr f0 ! 4] k (sched s) \<and>
     sc_armed (sched s) = 1 \<and> sc_tmode (sched s) = TMODE_PREEMPT \<and> sc_eoi (sched s) = word_of_nat k \<and>
     device_pair s = [word_of_nat a, word_of_nat b] \<and> kg_armed s = 0 \<and> b0 s = f0 \<and> depth s = 1 \<and>
     hcr_el2 s = HCR_RW OR HCR_IMO OR HCR_VM \<and> vttbr_el2 s = (if even k then gpr f0 ! 1 else gpr f0 ! 2)"

text \<open>The window is closed and the kernel's frame resumes with a code.\<close>

definition closed :: "el2_frame \<Rightarrow> el2 \<Rightarrow> el2_exit \<Rightarrow> (u64 \<Rightarrow> bool) \<Rightarrow> bool" where
  "closed f0 s ex P \<longleftrightarrow> hcr_el2 s = HCR_RW \<and> vttbr_el2 s = 0 \<and> cnthp_ctl s = CNTHP_CTL_IMASK \<and> \<not> ppi26 s \<and>
     sc_armed (sched s) = 0 \<and> depth s = 0 \<and> (\<exists>code x1. ex = Unwind (f0\<lparr>gpr := (gpr f0)[0 := code, 1 := x1]\<rparr>) \<and> P code)"

lemma return_closed:
  assumes "el2_return_to_kernel code x1 (disarm_sched_el2 (disarm_cnthp_window_el2 s)) = (s', ex)" "spsr (b0 s) \<noteq> 0" "P code"
  shows "closed (b0 s) s' ex P"
  using assms
  by (auto simp: el2_return_to_kernel_def disarm_sched_el2_def disarm_cnthp_window_el2_def closed_def set_timer_mode_def Let_def
      split: if_splits)

lemma closed_left: "closed f0 s ex P \<Longrightarrow> left ex = Some ex"
  by (auto simp: closed_def left_def)

lemma store_step:
  assumes "sched_inv f0 k a b s" "device_store h k" "aarch64_el2_sync_handler img h f (save_context f s) = (s', ex)"
  shows "left ex = None \<and> sched_inv f0 k (if even k then Suc a else a) (if even k then b else Suc b) s'"
proof -
  have v: "vmid_for (sched s) (current_slot (sched s)) = (if even k then 0 else 1)"
    using assms(1) mod2_word[of k]
    by (auto simp: sched_inv_def sched_at_def vmid_for_def current_slot_def N_SLOTS_def m27_frame_plan_def M27_VMID0_def M27_VMID1_def
        even_iff_mod_2_eq_zero)
  have i: "device_pair s = [word_of_nat a, word_of_nat b]" "depth s = 1" "kg_armed s = 0" "sc_armed (sched s) = 1"
    using assms(1) by (simp_all add: sched_inv_def)
  have "s' = s\<lparr>device_pair := [word_of_nat (if even k then Suc a else a), word_of_nat (if even k then b else Suc b)]\<rparr> \<and> left ex = None"
    using assms(2,3) i v
    by (auto simp: device_store_def aarch64_el2_sync_handler_def exit_stage2_def kg_is_armed_def sched_armed_def save_context_def
        el2_mmio_emulate_m27_def Let_def M27_VMID0_def el2_abort_retry_def device_mmio_m27_def left_def add.commute split: if_splits)
  then show ?thesis
    using assms(1) by (simp add: sched_inv_def)
qed

lemma last_tick:
  assumes "m27_done_verdict (disarm_cnthp_window_el2 s) = (s', ex)" "spsr (b0 s) \<noteq> 0"
    and "sched_at m27_frame_plan vts es 16 (sched s)" "device_pair s = [word_of_nat a, word_of_nat b]"
  shows "closed (b0 s) s' ex (verdict_ok a b)"
proof -
  let ?s = "disarm_sched_el2 (disarm_cnthp_window_el2 s)"
  obtain code x1 where v: "m27_verdict ?s = (code, x1)" by fastforce
  have "sched_at m27_frame_plan vts es 16 (sched ?s)" "device_pair ?s = [word_of_nat a, word_of_nat b]"
    using assms(3,4) by (simp_all add: disarm_sched_el2_def disarm_cnthp_window_el2_def set_timer_mode_def sched_at_def head_bytes_def)
  then have "verdict_ok a b code"
    using m27_verdict_at v by (metis fst_conv)
  then show ?thesis
    using assms(1,2) v by (intro return_closed[of code x1]) (simp_all add: m27_done_verdict_def Let_def)
qed

definition tick_code :: "nat \<Rightarrow> nat \<Rightarrow> nat \<Rightarrow> u64 \<Rightarrow> bool" where
  "tick_code k a b c \<longleftrightarrow> (if k = 16 then verdict_ok a b c else k < 16 \<and> c \<in> {FAIL_SCHED_TIMER_ISTATUS, FAIL_SCHED_TIMER_BAD_INTID})"

lemma preempt_step:
  assumes "sched_inv f0 k a b s" "spsr f0 \<noteq> 0" "timer_preempt h f s = (s', ex)"
  shows "if Suc k < 16 \<and> cnthp_ctl_now h AND CNTHP_CTL_ISTATUS = 0 then left ex = None \<and> sched_inv f0 (Suc k) a b s'
    else closed f0 s' ex (tick_code (Suc k) a b)"
proof -
  have i: "k < 16" "sched_at m27_frame_plan [gpr f0 ! 1, gpr f0 ! 2] [gpr f0 ! 3, gpr f0 ! 4] k (sched s)" "b0 s = f0"
    "device_pair s = [word_of_nat a, word_of_nat b]" "sc_eoi (sched s) = word_of_nat k"
    using assms(1) by (simp_all add: sched_inv_def)
  obtain c where c: "note_switch (sched s) = (c, Suc k mod 2, [gpr f0 ! 1, gpr f0 ! 2] ! (Suc k mod 2), [gpr f0 ! 3, gpr f0 ! 4] ! (Suc k mod 2))"
    "sched_at m27_frame_plan [gpr f0 ! 1, gpr f0 ! 2] [gpr f0 ! 3, gpr f0 ! 4] (Suc k) c"
    "sc_armed c = sc_armed (sched s)" "sc_eoi c = sc_eoi (sched s)" "sc_tmode c = sc_tmode (sched s)"
    using sched_at_switch[OF i(2)] i(1) by auto
  let ?t = "s\<lparr>sched := c\<rparr>"
  have fr: "sc_frames_done c \<ge> K_MAX_FRAMES \<longleftrightarrow> Suc k = 16"
  proof -
    have "unat (word_of_nat (Suc k div 2) :: u64) = Suc k div 2"
      using i(1) by (simp add: unat_of_nat take_bit_nat_eq_self)
    then show ?thesis
      using c(2) i(1) by (auto simp: sched_at_def K_MAX_FRAMES_def word_le_nat_alt)
  qed
  show ?thesis
  proof (cases "Suc k = 16")
    case True
    then have "m27_done_verdict (disarm_cnthp_window_el2 ?t) = (s', ex)"
      using assms(3) c(1) fr by (simp add: timer_preempt_def)
    then have "closed (b0 ?t) s' ex (verdict_ok a b)"
      using assms(2) i c(2) True by (intro last_tick) simp_all
    then show ?thesis using i(3) True by (simp add: tick_code_def closed_def)
  next
    case False
    let ?u = "s\<lparr>sched := c, cnthp_tval := slot_ticks c (Suc k mod 2)\<rparr>"
    have n: "\<not> EOI_HARD_CAP < word_of_nat k + 1"
    proof -
      have "unat (word_of_nat (Suc k) :: u64) = Suc k"
        using i(1) by (simp add: unat_of_nat take_bit_nat_eq_self del: of_nat_Suc)
      moreover have "unat EOI_HARD_CAP = 32" by code_simp
      ultimately show ?thesis using i(1) by (simp add: word_less_nat_alt add.commute)
    qed
    show ?thesis
    proof (cases "cnthp_ctl_now h AND CNTHP_CTL_ISTATUS = 0")
      case True
      have "s' = ?u\<lparr>sched := c\<lparr>sc_eoi := word_of_nat k + 1\<rparr>, vttbr_el2 := [gpr f0 ! 1, gpr f0 ! 2] ! (Suc k mod 2)\<rparr>" "left ex = None"
        using assms(3) c(1,4) fr False True i(5) n
        by (auto simp: timer_preempt_def cnthp_rearm_checked_def note_eoi_def Let_def el2_abort_retry_def switch_vttbr_el2_def left_def)
      moreover have "sched_at m27_frame_plan [gpr f0 ! 1, gpr f0 ! 2] [gpr f0 ! 3, gpr f0 ! 4] (Suc k) (c\<lparr>sc_eoi := word_of_nat k + 1\<rparr>)"
        using c(2) by (simp add: sched_at_def head_bytes_def)
      ultimately show ?thesis
        using assms(1) False True c(3,5) by (simp add: sched_inv_def add.commute even_iff_mod_2_eq_zero mod_Suc)
    next
      case stat: False
      have "el2_return_to_kernel FAIL_SCHED_TIMER_ISTATUS (ucast (gicc_iar h)) (disarm_sched_el2 (disarm_cnthp_window_el2 ?u)) = (s', ex)"
        using assms(3) c(1) fr False stat by (simp add: timer_preempt_def cnthp_rearm_checked_def)
      then have "closed (b0 ?u) s' ex (tick_code (Suc k) a b)"
        using assms(2) i False by (elim return_closed) (simp_all add: tick_code_def)
      then show ?thesis using i(3) stat by simp
    qed
  qed
qed

lemma sched_run_invariant:
  assumes "sched_run img s0 k a b (s, out)" "sched_inv f0 0 0 0 s0" "spsr f0 \<noteq> 0"
  shows "case out of None \<Rightarrow> sched_inv f0 k a b s | Some ex \<Rightarrow> closed f0 s ex (tick_code k a b)"
  using assms(1)
proof (induction k a b "(s, out)" arbitrary: s out)
  case start
  show ?case using assms(2) by simp
next
  case (store k a b s h f s' ex)
  then show ?case using store_step[of f0 k a b s h img f s' ex] by simp
next
  case (tick k a b s h f s' ex)
  then have inv: "sched_inv f0 k a b s" by simp
  then have "timer_preempt h f s = (s', ex)"
    using tick.hyps(3,4) by (simp add: sched_inv_def save_context_def aarch64_el2_timer_handler_def Let_def TMODE_SMOKE_def TMODE_PREEMPT_def)
  then show ?case
    using preempt_step[OF inv assms(3)] closed_left by (fastforce split: if_splits)
next
  case (stray k a b s h f s' ex)
  then have inv: "sched_inv f0 k a b s" by simp
  then have "el2_return_to_kernel FAIL_SCHED_TIMER_BAD_INTID (ucast (gicc_iar h)) (disarm_sched_el2 (disarm_cnthp_window_el2 s)) = (s', ex)"
    using stray.hyps(3,4) by (simp add: sched_inv_def save_context_def aarch64_el2_timer_handler_def)
  then have "closed (b0 s) s' ex (tick_code k a b)"
    using inv assms(3) by (elim return_closed) (simp_all add: sched_inv_def tick_code_def)
  then show ?case
    using inv closed_left by (fastforce simp: sched_inv_def)
qed

text \<open>The kernel, with the frame \<open>f0\<close>, has armed the scheduler by \<open>HVC #12\<close>.\<close>

definition sched_started :: "image \<Rightarrow> el2_frame \<Rightarrow> el2 \<Rightarrow> el2 \<Rightarrow> bool" where
  "sched_started img f0 s s0 \<longleftrightarrow> depth s = 0 \<and> spsr f0 \<noteq> 0 \<and> kg_armed s = 0 \<and>
     (\<exists>h ex. classify_exit (esr_el2 h) = Hvc \<and> esr_el2 h AND HVC_IMM_MASK = 12 \<and>
        aarch64_el2_sync_handler img h f0 (save_context f0 s) = (s0, ex))"

lemma sched_started_inv:
  assumes "sched_started img f0 s s0"
  shows "sched_inv f0 0 0 0 s0"
proof -
  have "\<exists>ex. hvc_sched_arm f0 (s\<lparr>b0 := f0\<rparr>) = (s0, ex)"
    using assms by (auto simp: sched_started_def aarch64_el2_sync_handler_def hvc_dispatch_def save_context_def)
  moreover have "sched_at m27_frame_plan [v0, v1] [e0, e1] 0 (set_timer_mode TMODE_PREEMPT (set_sched_context m27_frame_plan v0 v1 e0 e1 c))"
    for v0 v1 e0 e1 c
    using sched_at_start[of m27_frame_plan v0 v1 e0 e1 c] by (simp add: sched_at_def set_timer_mode_def head_bytes_def)
  ultimately show ?thesis
    using assms
    by (auto simp: hvc_sched_arm_def Let_def el2_enter_def arm_cnthp_window_el2_def arm_sched_el2_def reset_device_pair_m27_def sched_inv_def
        sched_started_def set_timer_mode_def) (simp_all add: set_sched_context_def)
qed

section \<open>Property of the scheduler\<close>

text \<open>
  C9: The time-partition scheduler alternates its guests and reports honestly. From the arming
  hypercall, under any interleaving of timer interrupts with device stores of the running
  guest: while the window is open fewer than sixteen interrupts have come, the stage-2 base
  belongs to the guest whose slot it is, and the committed decision log is the planned hash
  chain. The sixteenth interrupt closes the window, and earlier only an interrupt that is not
  the timer's or a timer that stays asserted does; closing turns off the second stage, the
  timer and its interrupt and resumes the kernel. After sixteen the code is 0 exactly when both guests have stored,
  otherwise the starvation code of the first that has not, unless the hash is broken on the
  messages hashed (store counts are modulo \<open>2 ^ 64\<close>).
\<close>

theorem sched_alternates:
  assumes "sched_started img f0 s s0" "sched_run img s0 k a b (s1, out)"
  shows "case out of
      None \<Rightarrow> k < 16 \<and> vttbr_el2 s1 = (if even k then gpr f0 ! 1 else gpr f0 ! 2) \<and>
        current_slot (sched s1) = k mod 2 \<and> head_bytes (sched s1) = plan_head m27_frame_plan k
    | Some ex \<Rightarrow> hcr_el2 s1 = HCR_RW \<and> vttbr_el2 s1 = 0 \<and> cnthp_ctl s1 = CNTHP_CTL_IMASK \<and> \<not> ppi26 s1 \<and> depth s1 = 0 \<and>
        (\<exists>code x1. ex = Unwind (f0\<lparr>gpr := (gpr f0)[0 := code, 1 := x1]\<rparr>) \<and>
          (if k = 16 then
             if (word_of_nat a :: u64) = 0 then code = FAIL_SCHED_VMID0_STARVED
             else if (word_of_nat b :: u64) = 0 then code = FAIL_SCHED_VMID1_STARVED
             else code = 0 \<or> code = FAIL_SCHED_TAMPER \<and> broken_on uhash genesis m27_messages
           else k < 16 \<and> code \<in> {FAIL_SCHED_TIMER_ISTATUS, FAIL_SCHED_TIMER_BAD_INTID}))"
proof -
  have f: "spsr f0 \<noteq> 0" using assms(1) by (simp add: sched_started_def)
  note inv = sched_run_invariant[OF assms(2) sched_started_inv[OF assms(1)] f]
  show ?thesis
  proof (cases out)
    case None
    then show ?thesis
      using inv mod2_word[of k] by (simp add: sched_inv_def sched_at_def current_slot_def N_SLOTS_def)
  next
    case (Some ex)
    then show ?thesis
      using inv unfolding closed_def tick_code_def verdict_ok_def by auto
  qed
qed

text \<open>The first guest stores once, then the timer hands over to the second.\<close>

definition demo_sched :: el2_frame where
  "demo_sched = zero_frame\<lparr>gpr := (gpr zero_frame)[1 := 0x41000000, 2 := 0x1000041005000, 3 := 0x40090000, 4 := 0x40091000],
     elr := 0x40081000, spsr := 0x3C5\<rparr>"

theorem sched_alternates_witness:
  "\<exists>s s0 s1. sched_started demo_image demo_sched s s0 \<and> sched_run demo_image s0 1 1 0 (s1, None) \<and>
     vttbr_el2 s1 = 0x1000041005000 \<and> current_slot (sched s1) = 1"
proof -
  let ?s = "demo_el2 (\<lambda>_. 0)"
  let ?h = "demo_trap 0x5A00000C 0"
  let ?d = "demo_trap 0x91010040 0x240000000"
  have c: "classify_exit (esr_el2 ?h) = Hvc" "esr_el2 ?h AND HVC_IMM_MASK = 12" "device_store ?d 0"
    "gicc_iar ?d AND 0x3FF = CNTHP_PPI" "cnthp_ctl_now ?d AND CNTHP_CTL_ISTATUS = 0"
    by code_simp+
  obtain s0 ex where "aarch64_el2_sync_handler demo_image ?h demo_sched (save_context demo_sched ?s) = (s0, ex)" by fastforce
  then have st: "sched_started demo_image demo_sched ?s s0"
    unfolding sched_started_def using c by (auto simp: demo_el2_def demo_sched_def)
  note inv0 = sched_started_inv[OF st]
  obtain s' ex' where h1: "aarch64_el2_sync_handler demo_image ?d zero_frame (save_context zero_frame s0) = (s', ex')" by fastforce
  have s': "left ex' = None" "sched_inv demo_sched 0 1 0 s'"
    using store_step[OF inv0 c(3) h1] by simp_all
  have r1: "sched_run demo_image s0 0 1 0 (s', None)"
    using sched_run.store[OF sched_run.start c(3) h1] s'(1) by simp
  obtain s1 ex1 where h2: "aarch64_el2_timer_handler demo_image ?d zero_frame (save_context zero_frame s') = (s1, ex1)" by fastforce
  then have "timer_preempt ?d zero_frame s' = (s1, ex1)"
    using s'(2) c(4) by (simp add: sched_inv_def save_context_def aarch64_el2_timer_handler_def Let_def TMODE_SMOKE_def TMODE_PREEMPT_def)
  then have "left ex1 = None"
    using preempt_step[OF s'(2), of ?d zero_frame s1 ex1] c(5) by (simp add: demo_sched_def)
  then have "sched_run demo_image s0 1 1 0 (s1, None)"
    using sched_run.tick[OF r1 c(4) h2] by simp
  moreover from sched_alternates[OF st this] have "vttbr_el2 s1 = 0x1000041005000" "current_slot (sched s1) = 1"
    by (simp_all add: demo_sched_def zero_frame_def)
  ultimately show ?thesis using st by blast
qed

end
