(* ===== verification/El2_Wf.thy ===== *)
theory El2_Wf
  imports El2_Monitor
begin

text \<open>
  Well-formedness of the monitor: the fixed-size cells it indexes keep their sizes and the line
  buffer its bound, over every handler and every trap, so no access of a handler is out of
  range and every frame it resumes or unwinds is a whole frame.
\<close>

named_theorems wf_ops

definition frame_wf :: "el2_frame \<Rightarrow> bool" where
  "frame_wf f \<longleftrightarrow> length (gpr f) = 31"

definition sched_wf :: "sched_ctx \<Rightarrow> bool" where
  "sched_wf c \<longleftrightarrow> length (sc_vmid c) = 2 \<and> length (sc_vttbr c) = 2 \<and> length (sc_entry_pc c) = 2 \<and> length (sc_slot_ticks c) = 2 \<and>
     length (sc_head c) = 4 \<and> length (sc_order c) = MAX_YIELDS"

definition log_wf :: "kg_log \<Rightarrow> bool" where
  "log_wf l \<longleftrightarrow> length (log_buf l) = GUESTLOG_MAX_PAYLOAD \<and> log_len l < GUESTLOG_MAX_PAYLOAD"

definition el2_wf :: "el2 \<Rightarrow> bool" where
  "el2_wf s \<longleftrightarrow> length (device_pair s) = 2 \<and> sched_wf (sched s) \<and> log_wf (kg_logbuf s) \<and> frame_wf (b0 s)"

definition exit_wf :: "el2_exit \<Rightarrow> bool" where
  "exit_wf ex \<longleftrightarrow> (case ex of Resume f \<Rightarrow> frame_wf f | Unwind f \<Rightarrow> frame_wf f | Enter _ _ rs \<Rightarrow> \<forall>(r, _)\<in>set rs. r < 31 | Parked \<Rightarrow> True)"

abbreviation step_wf :: "el2 \<times> el2_exit \<Rightarrow> bool" where
  "step_wf r \<equiv> el2_wf (fst r) \<and> exit_wf (snd r)"

section \<open>Frames and leaving\<close>

lemma frame_wf_ops [simp]:
  "frame_wf (advance f) = frame_wf f" "frame_wf (set_reg r v f) = frame_wf f" "frame_wf (f\<lparr>elr := e\<rparr>) = frame_wf f"
  "frame_wf (f\<lparr>gpr := (gpr f)[i := a, j := b]\<rparr>) = frame_wf f"
  by (simp_all add: frame_wf_def advance_def set_reg_def)

lemma return_wf [wf_ops]: "el2_wf s \<Longrightarrow> step_wf (el2_return_to_kernel code x s)"
  by (simp add: el2_return_to_kernel_def Let_def serial_write_def el2_wf_def exit_wf_def)

lemma retry_wf [wf_ops]: "el2_wf s \<Longrightarrow> frame_wf f \<Longrightarrow> step_wf (el2_abort_retry f s)"
  by (simp add: el2_abort_retry_def exit_wf_def)

lemma enter_wf [wf_ops]: "el2_wf s \<Longrightarrow> \<forall>(r, _)\<in>set rs. r < 31 \<Longrightarrow> step_wf (el2_enter pc psr rs s)"
  by (simp add: el2_enter_def exit_wf_def el2_wf_def)

lemma save_wf: "el2_wf s \<Longrightarrow> frame_wf f \<Longrightarrow> el2_wf (save_context f s)"
  by (simp add: save_context_def el2_wf_def)

section \<open>The windows\<close>

lemma sched_cell_wf [simp]:
  "sched_wf (set_timer_mode m c) = sched_wf c" "sched_wf (reset_eoi c) = sched_wf c" "sched_wf (c\<lparr>sc_armed := a\<rparr>) = sched_wf c"
  "sched_wf (c\<lparr>sc_eoi := a\<rparr>) = sched_wf c" "sched_wf (c\<lparr>sc_cur_slot := a\<rparr>) = sched_wf c"
  "sched_wf (set_sched_context plan v0 v1 e0 e1 c)"
  by (simp_all add: sched_wf_def set_timer_mode_def reset_eoi_def set_sched_context_def)

lemma note_switch_wf: "sched_wf c \<Longrightarrow> sched_wf (fst (note_switch c))"
  by (auto simp: note_switch_def Let_def sched_wf_def bump_counters_def fold_decision_def store_head_def trace_order_def split: prod.splits)

lemma log_flush_wf: "length (log_buf (fst lc)) = GUESTLOG_MAX_PAYLOAD \<Longrightarrow> log_wf (fst (kg_log_flush lc))"
  by (cases lc) (auto simp: log_wf_def kg_log_flush_def GUESTLOG_MAX_PAYLOAD_def split: prod.splits)

lemma log_push_wf: "log_wf (fst lc) \<Longrightarrow> log_wf (fst (kg_log_push b lc))"
  by (cases lc) (auto simp: kg_log_push_def log_wf_def Let_def intro!: log_flush_wf[unfolded log_wf_def] log_flush_wf[unfolded log_wf_def, THEN conjunct1]
      log_flush_wf[unfolded log_wf_def, THEN conjunct2])

lemma window_wf [simp]:
  "el2_wf (disarm_stage2_el2 s) = el2_wf s" "el2_wf (arm_stage2_el2 a b s) = el2_wf s" "el2_wf (set_s2_context a b c s) = el2_wf s"
  "el2_wf (set_s2_served a s) = el2_wf s" "el2_wf (exits_set_armed p s) = el2_wf s" "el2_wf (reset_served s) = el2_wf s"
  "el2_wf (set_exit_served a s) = el2_wf s" "el2_wf (arm_exits_el2 s) = el2_wf s" "el2_wf (disarm_exits_el2 s) = el2_wf s"
  "el2_wf (trap_set_armed p s) = el2_wf s" "el2_wf (reset_context a s) = el2_wf s" "el2_wf (set_trap_served a s) = el2_wf s"
  "el2_wf (record_sysreg_value a s) = el2_wf s" "el2_wf (arm_trap_el2 a b s) = el2_wf s" "el2_wf (disarm_trap_el2 s) = el2_wf s"
  "el2_wf (vgic_set_armed p s) = el2_wf s" "el2_wf (arm_vgic_el2 s) = el2_wf s" "el2_wf (inject_virq a s) = el2_wf s"
  "el2_wf (disarm_vgic_el2 s) = el2_wf s" "el2_wf (arm_sched_el2 a b s) = el2_wf s" "el2_wf (arm_cnthp_window_el2 a p s) = el2_wf s"
  "el2_wf (disarm_cnthp_window_el2 s) = el2_wf s" "el2_wf (switch_vttbr_el2 a s) = el2_wf s" "el2_wf (disarm_sched_el2 s) = el2_wf s"
  "el2_wf (serial_write bs s) = el2_wf s" "el2_wf (fst (note_park s)) = el2_wf s" "el2_wf (fst (device_mmio ipa w sz v s)) = el2_wf s"
  "el2_wf (fst (device_mmio_m27 ipa w sz v vm s)) = el2_wf s" "el2_wf (fst (cnthp_rearm_checked d h s)) = el2_wf s"
  by (simp_all add: el2_wf_def disarm_stage2_el2_def arm_stage2_el2_def set_s2_context_def set_s2_served_def exits_set_armed_def reset_served_def
      set_exit_served_def arm_exits_el2_def disarm_exits_el2_def trap_set_armed_def reset_context_def set_trap_served_def record_sysreg_value_def
      arm_trap_el2_def disarm_trap_el2_def vgic_set_armed_def arm_vgic_el2_def inject_virq_def disarm_vgic_el2_def arm_sched_el2_def
      arm_cnthp_window_el2_def disarm_cnthp_window_el2_def switch_vttbr_el2_def disarm_sched_el2_def serial_write_def note_park_def Let_def
      device_mmio_def device_mmio_m27_def cnthp_rearm_checked_def)

lemma cells_wf [simp]:
  "el2_wf (s\<lparr>ram := m\<rparr>) = el2_wf s" "el2_wf (s\<lparr>fault_reported := p\<rparr>) = el2_wf s" "el2_wf (s\<lparr>esr_el1 := a, elr_el1 := b, spsr_el1 := c\<rparr>) = el2_wf s"
  "el2_wf (s\<lparr>kg_echo := a, kg_done := b\<rparr>) = el2_wf s" "el2_wf (s\<lparr>kg_traps := a\<rparr>) = el2_wf s" "el2_wf (s\<lparr>kg_fault_ipa := a, kg_fault_esr := b\<rparr>) = el2_wf s"
  by (simp_all add: el2_wf_def)

section \<open>The handlers\<close>

lemma kg_ops_wf [simp]: "el2_wf s \<Longrightarrow> el2_wf (kg_flush s)" "el2_wf s \<Longrightarrow> el2_wf (kg_push b s)" "el2_wf s \<Longrightarrow> el2_wf (kg_teardown_el2 s)"
proof -
  show f: "el2_wf (kg_flush s)" if "el2_wf s" for s
    using that log_flush_wf[of "(kg_logbuf s, console s)"] by (auto simp: kg_flush_def el2_wf_def log_wf_def split: prod.splits)
  show "el2_wf s \<Longrightarrow> el2_wf (kg_push b s)"
    using log_push_wf[of "(kg_logbuf s, console s)" b] by (auto simp: kg_push_def el2_wf_def split: prod.splits)
  show "el2_wf s \<Longrightarrow> el2_wf (kg_teardown_el2 s)"
    using f[of "s\<lparr>hcr_el2 := KG_HCR_RW, vttbr_el2 := 0\<rparr>"] by (simp add: kg_teardown_el2_def Let_def el2_wf_def)
qed

lemma kg_write_wf [simp]: "el2_wf s \<Longrightarrow> el2_wf (kg_write ipa off v s)"
  by (simp add: kg_write_def) (simp add: el2_wf_def)

lemma kguest_wf [wf_ops]:
  assumes "el2_wf s" "frame_wf f"
  shows "step_wf (kguest_launch f s)" "step_wf (kguest_abort h f s)" "step_wf (kguest_wfx f esr s)" "step_wf (kguest_done f s)"
proof -
  have "log_wf (kg_log_reset (kg_logbuf s))"
    using assms(1) by (simp add: el2_wf_def log_wf_def kg_log_reset_def GUESTLOG_MAX_PAYLOAD_def)
  then show "step_wf (kguest_launch f s)"
    using assms unfolding kguest_launch_def Let_def
    by (intro enter_wf) (auto simp: kg_guest_sctlr_mmu_off_def kg_arm_el2_def el2_wf_def)
  show "step_wf (kguest_abort h f s)"
    using assms by (simp add: kguest_abort_def kg_emulate_def kg_fail_def Let_def wf_ops)
  show "step_wf (kguest_wfx f esr s)" "step_wf (kguest_done f s)"
    using assms by (simp_all add: kguest_wfx_def kguest_done_def kg_fail_def Let_def wf_ops)
qed

lemma stage2_abort_wf [wf_ops]: "el2_wf s \<Longrightarrow> frame_wf f \<Longrightarrow> step_wf (aarch64_el2_stage2_abort h f s)"
  by (simp add: aarch64_el2_stage2_abort_def s2_fail_def Let_def wf_ops split: prod.split bool.split)

lemma m27_wf [wf_ops]: "el2_wf s \<Longrightarrow> step_wf (m27_done_verdict s)"
  by (simp add: m27_done_verdict_def Let_def wf_ops split: prod.split)

lemma emulate_wf [wf_ops]:
  assumes "el2_wf s" "frame_wf f"
  shows "step_wf (el2_sysreg_emulate h f s)" "step_wf (el2_mmio_emulate h f s)" "step_wf (el2_mmio_emulate_m27 h f s)" "step_wf (el2_inject_undef h f s)"
  using assms window_wf(27)[of _ _ _ _ s] window_wf(28)[of _ _ _ _ _ s]
  by (simp_all add: el2_sysreg_emulate_def el2_mmio_emulate_def el2_mmio_emulate_m27_def el2_inject_undef_def Let_def wf_ops case_prod_beta)

lemma hvc_wf [wf_ops]:
  assumes "el2_wf s" "frame_wf f"
  shows "step_wf (hvc_dispatch img h f s)"
proof -
  have "el2_wf (s\<lparr>sched := c\<rparr>)" if "sched_wf c" for c using that assms(1) by (simp add: el2_wf_def)
  moreover have "el2_wf (reset_device_pair_m27 t) = el2_wf t" if "el2_wf t" for t
    using that by (simp add: reset_device_pair_m27_def el2_wf_def)
  moreover have "el2_wf (s\<lparr>sched := set_timer_mode m (sched s)\<rparr>)" if "el2_wf s" for s m using that by (simp add: el2_wf_def)
  moreover have "sched_wf (sched s)" using assms(1) by (simp add: el2_wf_def)
  ultimately show ?thesis
    using assms
    by (simp add: hvc_dispatch_def Let_def wf_ops hvc_guest_done_def hvc_stage2_arm_def hvc_stage2_done_def hvc_exits_arm_def hvc_exits_done_def
        hvc_trap_arm_def hvc_trap_done_def hvc_nested_arm_def hvc_nested_done_def hvc_vgic_arm_def hvc_vgic_done_def hvc_sched_arm_def
        hvc_sched_yield_def hvc_timer_smoke_def hvc_kguest_done_def)
qed

lemma sync_wf: "el2_wf s \<Longrightarrow> frame_wf f \<Longrightarrow> step_wf (aarch64_el2_sync_handler img h f s)"
  using window_wf(26)[of s]
  by (simp add: aarch64_el2_sync_handler_def exit_stage2_def exit_wfx_def wf_ops case_prod_beta split: exit_class.split)

lemma timer_wf:
  assumes "el2_wf s" "frame_wf f"
  shows "step_wf (aarch64_el2_timer_handler img h f s)"
proof -
  have c: "el2_wf (t\<lparr>sched := c\<rparr>)" "el2_wf (t\<lparr>sched := c, cnthp_tval := v\<rparr>)" "el2_wf (t\<lparr>cnthp_tval := v, sched := c\<rparr>)" "el2_wf (t\<lparr>cnthp_tval := v\<rparr>)"
    if "sched_wf c" "el2_wf t" for c t v
    using that by (simp_all add: el2_wf_def)
  have e: "sched_wf (fst (note_eoi c)) = sched_wf c" for c by (simp add: note_eoi_def Let_def)
  have w: "sched_wf (sched s)" "sched_wf (fst (note_switch (sched s)))"
    using assms note_switch_wf by (simp_all add: el2_wf_def)
  have "step_wf (timer_preempt h f s)"
    using assms c e w by (simp add: timer_preempt_def Let_def wf_ops case_prod_beta cnthp_rearm_checked_def)
  moreover have "step_wf (timer_smoke img h f s)"
    using assms c e w by (simp add: timer_smoke_def Let_def wf_ops case_prod_beta cnthp_rearm_checked_def)
  ultimately show ?thesis
    using assms by (simp add: aarch64_el2_timer_handler_def Let_def wf_ops)
qed

lemma fault_wf: "el2_wf s \<Longrightarrow> step_wf (aarch64_el2_fault_handler h f s)"
  by (simp add: aarch64_el2_fault_handler_def Let_def wf_ops)

section \<open>Property of the monitor\<close>

text \<open>Any sequence of traps, interrupts and unexpected vectors, each with any registers.\<close>

inductive el2_reach :: "image \<Rightarrow> el2 \<Rightarrow> el2 \<Rightarrow> bool" for img s0 where
  start: "el2_reach img s0 s0"
| sync: "el2_reach img s0 s \<Longrightarrow> frame_wf f \<Longrightarrow> el2_reach img s0 (fst (aarch64_el2_sync_handler img h f (save_context f s)))"
| irq: "el2_reach img s0 s \<Longrightarrow> frame_wf f \<Longrightarrow> el2_reach img s0 (fst (aarch64_el2_timer_handler img h f (save_context f s)))"
| fault: "el2_reach img s0 s \<Longrightarrow> frame_wf f \<Longrightarrow> el2_reach img s0 (fst (aarch64_el2_fault_handler h f (save_context f s)))"

lemma reach_wf: "el2_reach img s0 s \<Longrightarrow> el2_wf s0 \<Longrightarrow> el2_wf s"
  by (induction rule: el2_reach.induct) (use sync_wf timer_wf fault_wf save_wf in auto)



end
