(* ===== verification/Signed_Int.thy ===== *)
theory Signed_Int
  imports Prelude "HOL-Library.Signed_Division"
begin

text \<open>
  Signed machine integers as mathematical integers with the width written out: the wrap-around
  of release arithmetic, the saturating operations, and the truncating division of Rust, which
  is \<open>sdiv\<close>.
\<close>

type_synonym i64 = int

definition wrap64 :: "int \<Rightarrow> int" where
  "wrap64 x = signed_take_bit 63 x"

definition in_i64 :: "int \<Rightarrow> bool" where
  "in_i64 x \<longleftrightarrow> - (2 ^ 63) \<le> x \<and> x < 2 ^ 63"

text \<open>\<open>/\<close> on \<open>i64\<close> panics on a zero divisor and on the one quotient that does not fit.\<close>

definition div_i64 :: "i64 \<Rightarrow> i64 \<Rightarrow> i64 option" where
  "div_i64 a b = (if b = 0 \<or> a = - (2 ^ 63) \<and> b = - 1 then None else Some (a sdiv b))"

text \<open>Clamping to the range of a signed type of \<open>w\<close> bits.\<close>

definition sat :: "nat \<Rightarrow> int \<Rightarrow> int" where
  "sat w x = max (- (2 ^ (w - 1))) (min (2 ^ (w - 1) - 1) x)"

lemma wrap64_id: "in_i64 x \<Longrightarrow> wrap64 x = x"
  by (simp add: wrap64_def in_i64_def signed_take_bit_int_eq_self)

lemma sat_id: "- (2 ^ (w - 1)) \<le> x \<Longrightarrow> x < 2 ^ (w - 1) \<Longrightarrow> sat w x = x"
  by (simp add: sat_def)

lemma sat_mono: "x \<le> y \<Longrightarrow> sat w x \<le> sat w y"
  by (auto simp: sat_def max_def min_def)

lemma sat_range: "- (2 ^ (w - 1)) \<le> sat w x" "sat w x < 2 ^ (w - 1)"
  by (auto simp: sat_def)

text \<open>Division rounds towards zero.\<close>

lemma sdiv_nonneg: "0 \<le> a \<Longrightarrow> 0 < b \<Longrightarrow> a sdiv b = a div b" for a b :: int
  by (cases "a = 0") (simp_all add: signed_divide_int_def)

lemma div_i64_nonneg: "0 \<le> a \<Longrightarrow> 0 < b \<Longrightarrow> div_i64 a b = Some (a div b)"
  by (simp add: div_i64_def sdiv_nonneg)

lemma sdiv_pos_mono:
  fixes a b c :: int
  assumes "a \<le> b" "0 < c"
  shows "a sdiv c \<le> b sdiv c"
proof -
  have n: "x sdiv c = - ((- x) div c)" if "x < 0" for x
    using that assms(2) by (simp add: signed_divide_int_def)
  consider "0 \<le> a" | "a < 0" "0 \<le> b" | "b < 0" using assms(1) by linarith
  then show ?thesis
  proof cases
    case 1
    then show ?thesis using assms by (simp add: sdiv_nonneg zdiv_mono1)
  next
    case 2
    have "0 \<le> (- a) div c" "0 \<le> b div c" using 2 assms(2) by (simp_all add: pos_imp_zdiv_nonneg_iff)
    then show ?thesis using 2 assms(2) n[of a] by (simp add: sdiv_nonneg)
  next
    case 3
    then show ?thesis using assms n[of a] n[of b] by (simp add: zdiv_mono1)
  qed
qed

lemma sint_small:
  fixes w :: u64
  assumes "unat w < 2 ^ 63"
  shows "sint w = int (unat w)"
proof -
  have u: "uint w = int (unat w)" by simp
  have "uint w < 2 ^ 63"
    unfolding u using of_nat_less_iff[of "unat w" "2 ^ 63", where 'a = int] assms by simp
  then have "signed_take_bit 63 (uint w) = uint w"
    using order_trans[OF _ uint_ge_0[of w], of "- (2 ^ 63)"] by (intro signed_take_bit_int_eq_self) simp_all
  moreover have "sint w = signed_take_bit 63 (uint w)" by (subst sint_uint) simp
  ultimately show ?thesis by simp
qed

end
