(* ===== verification/Memscore.thy ===== *)
theory Memscore
  imports Signed_Int
begin

text \<open>
  The ranking arithmetic of memory recall: the fixed-point logarithms, the base-level activation
  and the normaliser of \<open>tb-encode/src/memscore.rs\<close>, and the lexical relevance score with its
  hit record of \<open>tb-encode/src/recall.rs\<close>. Signed values are integers with every operation
  that can leave 64 bits wrapped.
\<close>

definition SCALE :: i64 where "SCALE = 1000"
definition LN2_FIXED :: i64 where "LN2_FIXED = 693"
definition SKILL_XFORM_SEED :: u64 where "SKILL_XFORM_SEED = 0x9E3779B97F4A7C15"
definition SKILL_XFORM_MUL :: u64 where "SKILL_XFORM_MUL = 0x100000001B3"

text \<open>\<open>u64::leading_zeros\<close>.\<close>

definition leading_zeros :: "u64 \<Rightarrow> nat" where
  "leading_zeros x = length (takeWhile (\<lambda>i. \<not> bit x i) (rev [0..<64]))"

definition log2_fixed :: "u64 \<Rightarrow> i64" where
  "log2_fixed x = (if x \<le> 1 then 0 else let
     ip = 63 - leading_zeros x;
     pow = push_bit ip 1;
     frac = wrap64 (sint (x - pow) * SCALE) sdiv sint pow
   in int ip * SCALE + frac)"

definition ln_fixed :: "u64 \<Rightarrow> i64" where
  "ln_fixed x = wrap64 (log2_fixed x * LN2_FIXED) sdiv SCALE"

definition bla_raw :: "u32 \<Rightarrow> u64 \<Rightarrow> i64" where
  "bla_raw count age = ln_fixed (2 * (ucast count + 1)) - ln_fixed (age + 1) sdiv 2"

definition skill_transform :: "u64 \<Rightarrow> u64 \<Rightarrow> u64" where
  "skill_transform body input = (let
     h = body XOR SKILL_XFORM_SEED;
     h = word_rotl (unat (input AND 63)) h;
     h = h XOR (input * SKILL_XFORM_MUL)
   in word_rotl 17 h XOR drop_bit 7 body)"

text \<open>\<open>None\<close> is a panic: an index out of range or an undefined quotient.\<close>

definition minmax :: "i64 list \<Rightarrow> nat \<Rightarrow> i64 option" where
  "minmax vals i = (case vals of [] \<Rightarrow> None | v # _ \<Rightarrow> let
     lo = fold (\<lambda>v lo. if v < lo then v else lo) vals v;
     hi = fold (\<lambda>v hi. if v > hi then v else hi) vals v
   in if hi = lo then Some 0
      else if i < length vals then div_i64 (wrap64 (wrap64 (vals ! i - lo) * SCALE)) (wrap64 (hi - lo)) else None)"

section \<open>Lexical relevance\<close>

definition BM25_K1 :: i64 where "BM25_K1 = 1200"
definition BM25_B :: i64 where "BM25_B = 750"
definition ENVELOPE_MAX :: u64 where "ENVELOPE_MAX = push_bit 8 1"
definition TF_NORM_CEIL :: i64 where "TF_NORM_CEIL = BM25_K1 + SCALE"

definition bm25_idf :: "u64 \<Rightarrow> u64 \<Rightarrow> i64" where
  "bm25_idf df n_docs = (let n = max n_docs 1; d = max 1 (min n df) in
     max 0 (ln_fixed (2 * n + 2) - ln_fixed (2 * d + 1)))"

definition bm25_tf_norm :: "u64 \<Rightarrow> u64 \<Rightarrow> u64 \<Rightarrow> i64 option" where
  "bm25_tf_norm tf doc_len avg_len = (let tf = sint tf; dl = sint doc_len; avgl = sint (max avg_len 1) in
     case div_i64 dl avgl of None \<Rightarrow> None
     | Some ratio \<Rightarrow> let
         norm = wrap64 ((SCALE - BM25_B) + wrap64 (BM25_B * ratio));
         numer = wrap64 (tf * (BM25_K1 + SCALE));
         denom = wrap64 (wrap64 (tf * SCALE) + wrap64 (BM25_K1 * norm) sdiv SCALE)
       in div_i64 (wrap64 (numer * SCALE)) denom)"

definition bm25_term_score :: "u64 \<Rightarrow> u64 \<Rightarrow> u64 \<Rightarrow> u64 \<Rightarrow> u64 \<Rightarrow> i64 option" where
  "bm25_term_score tf df n_docs doc_len avg_len =
     map_option (\<lambda>f. wrap64 (bm25_idf df n_docs * f) sdiv SCALE) (bm25_tf_norm tf doc_len avg_len)"

text \<open>The accumulation loop.\<close>

fun doc_score_from :: "i64 \<Rightarrow> (u64 \<times> u64) list \<Rightarrow> u64 \<Rightarrow> u64 \<Rightarrow> u64 \<Rightarrow> i64 option" where
  "doc_score_from acc [] n_docs doc_len avg_len = Some acc"
| "doc_score_from acc ((tf, df) # query) n_docs doc_len avg_len =
     (case bm25_term_score tf df n_docs doc_len avg_len of None \<Rightarrow> None
      | Some s \<Rightarrow> doc_score_from (sat 64 (acc + s)) query n_docs doc_len avg_len)"

definition bm25_doc_score :: "(u64 \<times> u64) list \<Rightarrow> u64 \<Rightarrow> u64 \<Rightarrow> u64 \<Rightarrow> i64 option" where
  "bm25_doc_score query n_docs doc_len avg_len = doc_score_from 0 query n_docs doc_len avg_len"

record ranked_hit =
  hit_rank :: u16
  hit_id :: u64
  hit_score :: u64

definition HIT_CANON_LEN :: nat where "HIT_CANON_LEN = 18"

text \<open>The score travels as its two's complement, a word.\<close>

definition hit_canon :: "ranked_hit \<Rightarrow> bytes \<Rightarrow> bytes \<times> nat" where
  "hit_canon hit out = (if length out < HIT_CANON_LEN then (out, 0)
     else let
       out = put 0 (le_bytes 2 (hit_rank hit)) out;
       out = put 2 (le_bytes 8 (hit_id hit)) out;
       out = put 10 (le_bytes 8 (hit_score hit)) out
     in (out, HIT_CANON_LEN))"

definition hit_decode :: "bytes \<Rightarrow> ranked_hit option" where
  "hit_decode buf = (if length buf < HIT_CANON_LEN then None
     else Some \<lparr>hit_rank = of_le_bytes (slice buf 0 2), hit_id = of_le_bytes (slice buf 2 8), hit_score = of_le_bytes (slice buf 10 8)\<rparr>)"

section \<open>The logarithm\<close>

lemma leading_bit:
  assumes "x \<noteq> 0"
  shows "\<exists>n<64. leading_zeros x = 63 - n \<and> 2 ^ n \<le> unat x \<and> unat x < 2 ^ Suc n"
proof -
  let ?S = "{i. i < 64 \<and> bit x i}"
  define n where "n = Max ?S"
  have "\<exists>i. bit x i"
    using assms bit_eq_iff[of x 0] by auto
  then have ne: "?S \<noteq> {}"
    using bit_imp_le_length[of x] by auto
  then have n: "n < 64" "bit x n"
    using Max_in[of ?S] by (auto simp: n_def)
  have hi: "\<not> bit x i" if "n < i" for i
  proof
    assume b: "bit x i"
    then have "i \<in> ?S" using bit_imp_le_length[OF b] by simp
    then have "i \<le> Max ?S" by (intro Max_ge) simp_all
    then show False using that by (simp add: n_def)
  qed
  have "rev [0..<64] = rev [Suc n..<64] @ n # rev [0..<n]"
    using n(1) upt_add_eq_append[of 0 n "64 - n"] by (simp add: upt_conv_Cons)
  then have "takeWhile (\<lambda>i. \<not> bit x i) (rev [0..<64]) = rev [Suc n..<64]"
    using n(2) hi takeWhile_append2[of "rev [Suc n..<64]" "\<lambda>i. \<not> bit x i" "n # rev [0..<n]"] by simp
  then have lz: "leading_zeros x = 63 - n"
    by (simp add: leading_zeros_def)
  have "bit (unat x) n"
    using n by (simp add: bit_simps)
  then have "odd (unat x div 2 ^ n)"
    by (simp add: bit_iff_odd)
  then have "2 ^ n \<le> unat x"
    by (metis div_less even_zero not_le)
  moreover have "take_bit (Suc n) (unat x) = unat x"
    by (rule bit_eqI) (use hi in \<open>auto simp: bit_simps not_less Suc_le_eq intro: ccontr\<close>)
  then have "unat x < 2 ^ Suc n"
    by (metis take_bit_nat_less_exp)
  ultimately show ?thesis
    using n(1) lz by blast
qed

lemma log2_fixed_at:
  assumes "2 ^ n \<le> unat x" "unat x < 2 ^ Suc n" "unat x < 2 ^ 53" "0 < n"
  shows "log2_fixed x = int (n * 1000 + (unat x - 2 ^ n) * 1000 div 2 ^ n)"
proof -
  have "(2 :: nat) ^ 1 \<le> 2 ^ n" using assms(4) by (intro power_increasing) auto
  then have x0: "x \<noteq> 0" "\<not> x \<le> 1"
    using assms(1) by (auto simp: word_le_nat_alt)
  obtain k where k: "k < 64" "leading_zeros x = 63 - k" "2 ^ k \<le> unat x" "unat x < 2 ^ Suc k"
    using leading_bit[OF x0(1)] by blast
  have mono: "i < j \<Longrightarrow> (2 :: nat) ^ Suc i \<le> 2 ^ j" for i j
    by (intro power_increasing) auto
  have kn: "k = n"
    using mono[of k n] mono[of n k] k(3,4) assms(1,2) by (cases k n rule: linorder_cases) auto
  have n53: "n < 53"
  proof (rule ccontr)
    assume "\<not> n < 53"
    then have "(2 :: nat) ^ 53 \<le> 2 ^ n" by (intro power_increasing) auto
    then show False using assms(1,3) by linarith
  qed
  then have pow: "unat (push_bit n 1 :: u64) = 2 ^ n"
    unfolding unsigned_push_bit_eq unsigned_1 by (simp add: push_bit_eq_mult take_bit_nat_eq_self_iff)
  have d: "unat (x - push_bit n 1) = unat x - 2 ^ n"
    using assms(1) pow by (simp add: unat_sub word_le_nat_alt)
  have s: "sint (x - push_bit n 1) = int (unat x - 2 ^ n)" "sint (push_bit n 1 :: u64) = 2 ^ n"
    using assms(1,3) d pow by (simp_all add: sint_small)
  have "in_i64 (int (unat x - 2 ^ n) * 1000)"
    using assms(3) by (simp add: in_i64_def)
  then show ?thesis
    using x0(2) k(2) kn n53
    by (simp add: log2_fixed_def Let_def s[unfolded push_bit_of_1] SCALE_def wrap64_id sdiv_nonneg zdiv_int)
qed

lemma log2_fixed_small: "unat x \<le> 1 \<Longrightarrow> log2_fixed x = 0"
  by (simp add: log2_fixed_def word_le_nat_alt)

lemma log2_fixed_bounds:
  assumes "2 ^ n \<le> unat x" "unat x < 2 ^ Suc n" "unat x < 2 ^ 53"
  shows "int n * 1000 \<le> log2_fixed x" "log2_fixed x < int (Suc n) * 1000"
proof -
  have "(unat x - 2 ^ n) * 1000 div 2 ^ n < 1000"
    using assms(1,2) by (simp add: div_less_iff_less_mult)
  moreover have "unat x = 1" if "n = 0" using that assms by simp
  ultimately have "int n * 1000 \<le> log2_fixed x \<and> log2_fixed x < int (Suc n) * 1000"
    using log2_fixed_at[OF assms] log2_fixed_small[of x] by (cases "n = 0") auto
  then show "int n * 1000 \<le> log2_fixed x" "log2_fixed x < int (Suc n) * 1000" by simp_all
qed

lemma binary_order: "0 < m \<Longrightarrow> \<exists>n. 2 ^ n \<le> m \<and> m < 2 ^ Suc n" for m :: nat
proof (induction m rule: less_induct)
  case (less m)
  show ?case
  proof (cases "m = 1")
    case False
    then obtain n where "2 ^ n \<le> m div 2" "m div 2 < 2 ^ Suc n"
      using less.IH[of "m div 2"] less.prems by auto
    then have "2 ^ Suc n \<le> m \<and> m < 2 ^ Suc (Suc n)" by auto
    then show ?thesis by blast
  qed (auto intro: exI[of _ 0])
qed

lemma log2_fixed_mono:
  assumes "x \<le> y" "unat y < 2 ^ 53"
  shows "log2_fixed x \<le> log2_fixed y" "0 \<le> log2_fixed x" "log2_fixed y < 53000"
proof -
  have xy: "unat x \<le> unat y" using assms(1) by (simp add: word_le_nat_alt)
  have pos: "0 \<le> log2_fixed z \<and> log2_fixed z < 53000" if "unat z < 2 ^ 53" for z
  proof (cases "unat z = 0")
    case False
    then obtain n where n: "2 ^ n \<le> unat z" "unat z < 2 ^ Suc n" using binary_order by blast
    then have "n < 53" using that power_less_imp_less_exp[of "2 :: nat" n 53] by linarith
    then have "int (Suc n) * 1000 \<le> 53000" "0 \<le> int n * 1000" by simp_all
    then show ?thesis using log2_fixed_bounds[OF n that] by linarith
  qed (simp add: log2_fixed_small)
  then show "0 \<le> log2_fixed x" "log2_fixed y < 53000" using xy assms(2) by simp_all
  show "log2_fixed x \<le> log2_fixed y"
  proof (cases "unat x \<le> 1")
    case True
    then show ?thesis using pos assms(2) by (simp add: log2_fixed_small)
  next
    case False
    obtain n where n: "2 ^ n \<le> unat x" "unat x < 2 ^ Suc n" using binary_order[of "unat x"] False by auto
    obtain k where k: "2 ^ k \<le> unat y" "unat y < 2 ^ Suc k" using binary_order[of "unat y"] False xy by auto
    have nk: "n \<le> k"
    proof -
      have "(2 :: nat) ^ n < 2 ^ Suc k" using n(1) k(2) xy by linarith
      then show ?thesis using power_less_imp_less_exp[of "2 :: nat" n "Suc k"] by simp
    qed
    have x53: "unat x < 2 ^ 53" using xy assms(2) by linarith
    show ?thesis
    proof (cases "n = k")
      case True
      have "0 < n" using False n(2) by (cases n) auto
      moreover have "(unat x - 2 ^ n) * 1000 div 2 ^ n \<le> (unat y - 2 ^ n) * 1000 div 2 ^ n"
        using xy by (intro div_le_mono mult_le_mono1) simp
      ultimately show ?thesis
        using log2_fixed_at[OF n x53] log2_fixed_at[OF k assms(2)] True by simp
    next
      case ne: False
      then have "int (Suc n) * 1000 \<le> int k * 1000" using nk by simp
      then show ?thesis using log2_fixed_bounds(2)[OF n x53] log2_fixed_bounds(1)[OF k assms(2)] by linarith
    qed
  qed
qed

lemma ln_fixed_mono:
  assumes "x \<le> y" "unat y < 2 ^ 53"
  shows "ln_fixed x \<le> ln_fixed y" "0 \<le> ln_fixed x" "ln_fixed y < 36729"
proof -
  note l = log2_fixed_mono[OF assms]
  have "in_i64 (log2_fixed x * 693)" "in_i64 (log2_fixed y * 693)"
    using l by (simp_all add: in_i64_def)
  then have e: "ln_fixed x = log2_fixed x * 693 div 1000" "ln_fixed y = log2_fixed y * 693 div 1000"
    using l by (simp_all add: ln_fixed_def LN2_FIXED_def SCALE_def wrap64_id sdiv_nonneg)
  show "ln_fixed x \<le> ln_fixed y" "0 \<le> ln_fixed x" "ln_fixed y < 36729"
    unfolding e using l by (auto intro!: zdiv_mono1 simp: div_less_iff_less_mult)
qed

lemma bla_raw_mono:
  assumes "count \<le> count'" "age' \<le> age" "unat age < 2 ^ 52"
  shows "bla_raw count age \<le> bla_raw count' age'"
proof -
  have u: "unat (2 * ucast c + 2 :: u64) = 2 * unat c + 2" for c :: u32
    using u32_bound[of c] by (simp add: unat_word_ariths unsigned_ucast_eq take_bit_nat_eq_self)
  have a: "unat (age + 1) = unat age + 1" "unat (age' + 1) = unat age' + 1"
    using assms(2,3) by (simp_all add: unat_word_ariths word_le_nat_alt)
  have "ln_fixed (2 * (ucast count + 1)) \<le> ln_fixed (2 * (ucast count' + 1))"
    using assms(1) u32_bound[of count'] by (intro ln_fixed_mono(1)) (simp_all add: word_le_nat_alt u)
  moreover have "ln_fixed (age' + 1) \<le> ln_fixed (age + 1)"
    using assms(2,3) a by (intro ln_fixed_mono(1)) (simp_all add: word_le_nat_alt)
  then have "ln_fixed (age' + 1) sdiv 2 \<le> ln_fixed (age + 1) sdiv 2"
    by (rule sdiv_pos_mono) simp
  ultimately show ?thesis by (simp add: bla_raw_def)
qed

section \<open>The normaliser\<close>

lemma fold_min: "fold (\<lambda>v lo. if v < lo then v else lo) vs a = Min (set (a # vs))" for a :: int
proof (induction vs arbitrary: a)
  case (Cons v vs)
  have "Min (set ((if v < a then v else a) # vs)) = Min (set (a # v # vs))"
    by (cases "vs = []") (auto simp: min_def)
  then show ?case using Cons by simp
qed simp

lemma fold_max: "fold (\<lambda>v hi. if v > hi then v else hi) vs a = Max (set (a # vs))" for a :: int
proof (induction vs arbitrary: a)
  case (Cons v vs)
  have "Max (set ((if v > a then v else a) # vs)) = Max (set (a # v # vs))"
    by (cases "vs = []") (auto simp: max_def)
  then show ?case using Cons by simp
qed simp

lemma minmax_spec:
  assumes "vals \<noteq> []" "i < length vals" "\<forall>v\<in>set vals. \<bar>v\<bar> < 2 ^ 52"
  shows "minmax vals i = Some (if Max (set vals) = Min (set vals) then 0
    else (vals ! i - Min (set vals)) * 1000 div (Max (set vals) - Min (set vals)))"
proof -
  obtain v vs where vs: "vals = v # vs" using assms(1) by (cases vals) auto
  have lo: "fold (\<lambda>v lo. if v < lo then v else lo) vals v = Min (set vals)" "fold (\<lambda>v hi. if v > hi then v else hi) vals v = Max (set vals)"
    unfolding fold_min fold_max by (simp_all add: vs)
  have m: "Min (set vals) \<in> set vals" "Max (set vals) \<in> set vals" "Min (set vals) \<le> vals ! i" "vals ! i \<le> Max (set vals)"
    using assms(1,2) by simp_all
  then have b: "\<bar>Min (set vals)\<bar> < 2 ^ 52" "\<bar>Max (set vals)\<bar> < 2 ^ 52" "\<bar>vals ! i\<bar> < 2 ^ 52"
    using assms(2,3) by auto
  then have "in_i64 (vals ! i - Min (set vals))" "in_i64 ((vals ! i - Min (set vals)) * 1000)" "in_i64 (Max (set vals) - Min (set vals))"
    by (auto simp: in_i64_def abs_less_iff)
  then show ?thesis
    using m assms(2) unfolding minmax_def lo[unfolded vs] vs list.case Let_def
    by (auto simp: lo[unfolded vs] wrap64_id SCALE_def div_i64_nonneg)
qed

section \<open>Relevance grows with evidence\<close>

lemma div_cross_mono:
  fixes p q r s :: int
  assumes "p * s \<le> r * q" "0 < q" "0 < s"
  shows "p div q \<le> r div s"
proof -
  have "p div q * q \<le> p" using assms(2) by (simp add: minus_mod_eq_div_mult[symmetric])
  then have "p div q * q * s \<le> r * q" using assms(1,3) by (meson mult_right_mono order_trans less_imp_le)
  then have "p div q * s * q \<le> r * q" by (simp only: ac_simps)
  then have "p div q * s \<le> r" using assms(2) by (simp only: mult_le_cancel_right_pos)
  then show ?thesis using assms(3) zdiv_mono1[of "p div q * s" r s] by simp
qed

lemma unat_max_min: "unat (max x y) = max (unat x) (unat y)" "unat (min x y) = min (unat x) (unat y)" for x y :: u64
  by (auto simp: max_def min_def word_le_nat_alt)

lemma unat_affine: "2 * unat x + k < 2 ^ 64 \<Longrightarrow> unat (2 * x + word_of_nat k) = 2 * unat x + k" for x :: u64
  by (simp add: unat_word_ariths unat_of_nat take_bit_nat_eq_self mod_add_right_eq mod_add_left_eq)

lemma bm25_idf_mono:
  assumes "df' \<le> df" "unat n < 2 ^ 51"
  shows "0 \<le> bm25_idf df n" "bm25_idf df n \<le> bm25_idf df' n" "bm25_idf df' n < 36729"
proof -
  define m d d' where "m = max n 1" and "d = max 1 (min m df)" and "d' = max 1 (min m df')"
  have m: "unat m < 2 ^ 51" "1 \<le> unat m"
    using assms(2) by (simp_all add: m_def unat_max_min)
  have d: "unat d' \<le> unat d" "unat d \<le> unat m"
    using assms(1) m(2) by (auto simp: d_def d'_def unat_max_min word_le_nat_alt)
  have u: "unat (2 * d + 1) = 2 * unat d + 1" "unat (2 * d' + 1) = 2 * unat d' + 1" "unat (2 * m + 2) = 2 * unat m + 2"
    using unat_affine[of d 1] unat_affine[of d' 1] unat_affine[of m 2] m d by simp_all
  have "ln_fixed (2 * d' + 1) \<le> ln_fixed (2 * d + 1)" "0 \<le> ln_fixed (2 * d' + 1)"
    using ln_fixed_mono[of "2 * d' + 1" "2 * d + 1"] d m unfolding word_le_nat_alt u by simp_all
  moreover have "ln_fixed (2 * m + 2) < 36729"
    using ln_fixed_mono(3)[of "2 * m + 2" "2 * m + 2"] m unfolding u by simp
  ultimately show "0 \<le> bm25_idf df n" "bm25_idf df n \<le> bm25_idf df' n" "bm25_idf df' n < 36729"
    unfolding bm25_idf_def Let_def m_def[symmetric] d_def[symmetric] d'_def[symmetric] by simp_all
qed

text \<open>A word read as \<open>i64\<close>, with its bounds, as one integer.\<close>

lemma sint_bounded:
  fixes w :: u64
  assumes "unat w < 2 ^ k" "k \<le> 63"
  shows "0 \<le> sint w" "sint w < 2 ^ k" "nat (sint w) = unat w"
proof -
  have "(2 :: nat) ^ k \<le> 2 ^ 63" using assms(2) by (intro power_increasing) auto
  then have s: "sint w = int (unat w)" using assms(1) by (intro sint_small) linarith
  have "int (unat w) < int (2 ^ k)" using assms(1) by (simp only: of_nat_less_iff)
  then show "0 \<le> sint w" "sint w < 2 ^ k" "nat (sint w) = unat w"
    unfolding s by (simp_all only: of_nat_power of_nat_numeral of_nat_0_le_iff nat_int)
qed

lemma bm25_tf_norm_eq:
  assumes "unat dl < 2 ^ 32" "unat avg < 2 ^ 63"
  shows "\<exists>c. 0 < c \<and> (\<forall>tf. unat tf < 2 ^ 32 \<longrightarrow> bm25_tf_norm tf dl avg = Some (sint tf * 2200000 div (sint tf * 1000 + c)))"
proof -
  define a b where "a = sint (max avg 1)" and "b = sint dl"
  define q where "q = b div a"
  define c where "c = 1200 * (250 + 750 * q) div 1000"
  have m: "unat (max avg 1) < 2 ^ 63" "0 < unat (max avg 1)" using assms(2) by (simp_all add: unat_max_min)
  have a: "0 < a" unfolding a_def sint_small[OF m(1)] using m(2) by (simp only: of_nat_0_less_iff)
  have b: "0 \<le> b" "b < 2 ^ 32" using sint_bounded[OF assms(1)] by (simp_all add: b_def)
  have q: "0 \<le> q" "q \<le> b" using a b(1) zdiv_mono2[of b 1 a] by (simp_all add: q_def pos_imp_zdiv_nonneg_iff)
  have "1200 * (250 + 750 * q) = (300 + 900 * q) * 1000" by simp
  then have c_eq: "c = 300 + 900 * q" unfolding c_def by (simp only: nonzero_mult_div_cancel_right)
  have b': "b < 4294967296" using b(2) by simp
  then have c: "300 \<le> c" "c < 8796093022208" using q c_eq by linarith+
  have "bm25_tf_norm tf dl avg = Some (sint tf * 2200000 div (sint tf * 1000 + c))" if "unat tf < 2 ^ 32" for tf
  proof -
    define t where "t = sint tf"
    have t: "0 \<le> t" "t < 2 ^ 32" using sint_bounded[OF that] by (simp_all add: t_def)
    have w: "in_i64 (750 * q)" "in_i64 (250 + 750 * q)" "in_i64 (1200 * (250 + 750 * q))" "in_i64 (t * 2200)"
      "in_i64 (t * 1000)" "in_i64 (t * 1000 + c)" "in_i64 (t * 2200 * 1000)"
      using q b' c t unfolding in_i64_def by simp_all
    have "div_i64 b a = Some q" "1200 * (250 + 750 * q) sdiv 1000 = c"
      "div_i64 (t * 2200 * 1000) (t * 1000 + c) = Some (t * 2200 * 1000 div (t * 1000 + c))"
      using a b(1) q c t by (simp_all add: q_def c_def sdiv_nonneg div_i64_nonneg)
    then show ?thesis
      unfolding bm25_tf_norm_def Let_def a_def[symmetric] b_def[symmetric] t_def[symmetric] SCALE_def BM25_B_def BM25_K1_def
      using w by (simp add: wrap64_id mult.commute)
  qed
  then show ?thesis using c(1) by (intro exI[of _ c]) auto
qed

lemma bm25_tf_norm_mono:
  assumes "tf \<le> tf'" "unat tf' < 2 ^ 32" "unat dl < 2 ^ 32" "unat avg < 2 ^ 63"
  obtains v v' where "bm25_tf_norm tf dl avg = Some v" "bm25_tf_norm tf' dl avg = Some v'" "0 \<le> v" "v \<le> v'" "v' < TF_NORM_CEIL"
proof -
  obtain c where c: "0 < c" "\<And>tf. unat tf < 2 ^ 32 \<Longrightarrow> bm25_tf_norm tf dl avg = Some (sint tf * 2200000 div (sint tf * 1000 + c))"
    using bm25_tf_norm_eq[OF assms(3,4)] by blast
  have le: "unat tf \<le> unat tf'" "unat tf < 2 ^ 32" using assms(1,2) by (simp_all add: word_le_nat_alt)
  define t t' where "t = sint tf" and "t' = sint tf'"
  have t: "0 \<le> t" "t \<le> t'"
    using sint_bounded[OF le(2)] sint_bounded[OF assms(2)] le(1) by (auto simp: t_def t'_def)
  have "0 < t' * 1000 + c" using t c(1) by simp
  then have "t' * 2200000 div (t' * 1000 + c) * (t' * 1000 + c) \<le> t' * 2200000"
    by (simp add: minus_mod_eq_div_mult[symmetric])
  then have "t' * 2200000 div (t' * 1000 + c) * (t' * 1000 + c) < 2200 * (t' * 1000 + c)" using c(1) by simp
  then have "t' * 2200000 div (t' * 1000 + c) < 2200"
    by (simp only: mult_less_cancel_right_pos[OF \<open>0 < t' * 1000 + c\<close>])
  moreover have "t * c \<le> t' * c" using t c(1) by (simp add: mult_right_mono)
  then have "t * 2200000 * (t' * 1000 + c) \<le> t' * 2200000 * (t * 1000 + c)"
    by (simp add: algebra_simps)
  then have "t * 2200000 div (t * 1000 + c) \<le> t' * 2200000 div (t' * 1000 + c)"
    using t c(1) by (intro div_cross_mono) simp_all
  moreover have "0 \<le> t * 2200000 div (t * 1000 + c)"
    using t c(1) by (simp add: pos_imp_zdiv_nonneg_iff)
  ultimately show ?thesis
    using c(2)[OF le(2)] c(2)[OF assms(2)] that by (simp add: t_def t'_def TF_NORM_CEIL_def BM25_K1_def SCALE_def)
qed

lemma bm25_term_mono:
  assumes "tf \<le> tf'" "df' \<le> df" "unat tf' < 2 ^ 32" "unat dl < 2 ^ 32" "unat avg < 2 ^ 63" "unat n < 2 ^ 51"
  obtains v v' where "bm25_term_score tf df n dl avg = Some v" "bm25_term_score tf' df' n dl avg = Some v'" "0 \<le> v" "v \<le> v'"
proof -
  note i = bm25_idf_mono[OF assms(2,6)]
  obtain f f' where f: "bm25_tf_norm tf dl avg = Some f" "bm25_tf_norm tf' dl avg = Some f'" "0 \<le> f" "f \<le> f'" "f' < 2200"
    using bm25_tf_norm_mono[OF assms(1,3-5), unfolded TF_NORM_CEIL_def BM25_K1_def SCALE_def] by auto
  let ?p = "bm25_idf df n * f" and ?p' = "bm25_idf df' n * f'"
  have p: "0 \<le> ?p" "?p \<le> ?p'" using i f by (simp_all add: mult_mono)
  have "?p' \<le> 36729 * 2200" using i f by (intro mult_mono) linarith+
  then have "in_i64 ?p" "in_i64 ?p'" using p by (simp_all add: in_i64_def)
  then show ?thesis
    using p f(1,2) by (intro that[of "?p div 1000" "?p' div 1000"])
      (simp_all add: bm25_term_score_def wrap64_id SCALE_def sdiv_nonneg pos_imp_zdiv_nonneg_iff zdiv_mono1)
qed

definition more_evidence :: "u64 \<times> u64 \<Rightarrow> u64 \<times> u64 \<Rightarrow> bool" where
  "more_evidence t t' \<longleftrightarrow> fst t \<le> fst t' \<and> snd t' \<le> snd t \<and> unat (fst t') < 2 ^ 32"

lemma doc_score_mono:
  assumes "list_all2 more_evidence q q'" "a \<le> a'" "unat dl < 2 ^ 32" "unat avg < 2 ^ 63" "unat n < 2 ^ 51"
  shows "\<exists>s s'. doc_score_from a q n dl avg = Some s \<and> doc_score_from a' q' n dl avg = Some s' \<and> s \<le> s'"
  using assms(1,2)
proof (induction q q' arbitrary: a a' rule: list_all2_induct)
  case (Cons t q t' q')
  obtain v v' where v: "bm25_term_score (fst t) (snd t) n dl avg = Some v" "bm25_term_score (fst t') (snd t') n dl avg = Some v'" "v \<le> v'"
    using Cons.hyps(1) bm25_term_mono[of "fst t" "fst t'" "snd t'" "snd t", OF _ _ _ assms(3-5)]
    unfolding more_evidence_def by metis
  have "sat 64 (a + v) \<le> sat 64 (a' + v')"
    using Cons.prems v(3) by (intro sat_mono) simp
  from Cons.IH[OF this] show ?case using v(1,2) by (cases t; cases t') simp
qed simp

lemma doc_score_grows:
  assumes "\<forall>t\<in>set q. unat (fst t) < 2 ^ 32" "unat dl < 2 ^ 32" "unat avg < 2 ^ 63" "unat n < 2 ^ 51" "in_i64 a"
  shows "\<exists>s. doc_score_from a q n dl avg = Some s \<and> a \<le> s \<and> in_i64 s"
  using assms(1,5)
proof (induction q arbitrary: a)
  case (Cons t q)
  obtain v where v: "bm25_term_score (fst t) (snd t) n dl avg = Some v" "0 \<le> v"
    using Cons.prems(1) assms(2-4) bm25_term_mono[of "fst t" "fst t" "snd t" "snd t" dl avg n] by auto
  have "in_i64 (sat 64 (a + v))" using sat_range[where w = 64] by (simp add: in_i64_def)
  then obtain s where "doc_score_from (sat 64 (a + v)) q n dl avg = Some s" "sat 64 (a + v) \<le> s" "in_i64 s"
    using Cons.IH Cons.prems(1) by fastforce
  moreover have "a \<le> sat 64 (a + v)" using Cons.prems(2) v(2) by (simp add: sat_def in_i64_def)
  ultimately show ?case using v(1) by (cases t) simp
qed simp

lemma doc_score_append:
  "doc_score_from a q n dl avg = Some s \<Longrightarrow> doc_score_from a (q @ r) n dl avg = doc_score_from s r n dl avg"
  by (induction a q n dl avg rule: doc_score_from.induct) (auto split: option.splits)

lemma hit_roundtrip:
  assumes "18 \<le> length out"
  shows "\<exists>bs. hit_canon hit out = (bs @ drop 18 out, 18) \<and> length bs = 18 \<and> hit_decode (bs @ rest) = Some hit"
proof -
  let ?bs = "le_bytes 2 (hit_rank hit) @ le_bytes 8 (hit_id hit) @ le_bytes 8 (hit_score hit)"
  have "hit_canon hit out = (?bs @ drop 18 out, 18)"
    using assms by (simp add: hit_canon_def HIT_CANON_LEN_def Let_def put_def)
  moreover have "hit_decode (?bs @ rest) = Some hit"
    by (simp add: hit_decode_def HIT_CANON_LEN_def slice_def)
  ultimately show ?thesis by (intro exI[of _ ?bs]) simp
qed

section \<open>Property of the ranking\<close>



end
