(* ===== verification/Kancell.thy ===== *)
theory Kancell
  imports Signed_Int
begin

text \<open>
  The additive keepability score of \<open>tb-encode/src/kancell.rs\<close> (a sum of piecewise linear splines
  over frozen tables, clamped into a band) with its two table validators, the grid quantiser of
  \<open>exp.rs\<close>, and the logging propensity of \<open>explore.rs\<close>. Signed values are integers; every
  saturating operation is written out.
\<close>

type_synonym i32 = int
type_synonym i16 = int

definition KAN_FEATURES :: nat where "KAN_FEATURES = 4"
definition KAN_KNOTS :: nat where "KAN_KNOTS = 9"
definition KAN_KNOT_MAX :: i16 where "KAN_KNOT_MAX = 8000"
definition DEMOTE_BAND :: "i64 \<times> i64" where "DEMOTE_BAND = (- 34000, 34000)"
definition GRID_LO :: i32 where "GRID_LO = 0"
definition GRID_STEP_LOG2 :: nat where "GRID_STEP_LOG2 = 7"

definition wrap32 :: "int \<Rightarrow> int" where
  "wrap32 x = signed_take_bit 31 x"

text \<open>A shift count is taken modulo the width; \<open>as usize\<close> extends the sign.\<close>

definition kan_spline_eval :: "i16 list \<Rightarrow> i32 \<Rightarrow> i32 \<Rightarrow> nat \<Rightarrow> i32" where
  "kan_spline_eval knots x_q grid_lo grid_step_log2 = (let
     g = grid_step_log2 mod 32;
     step = wrap32 (2 ^ g);
     span = sat 32 (step * int (KAN_KNOTS - 1));
     grid_hi = sat 32 (grid_lo + span);
     xc = (if x_q < grid_lo then grid_lo else if x_q > grid_hi then grid_hi else x_q);
     off = wrap32 (xc - grid_lo);
     seg = nat ((off div 2 ^ g) mod 2 ^ 64);
     seg = (if seg \<ge> KAN_KNOTS - 1 then KAN_KNOTS - 2 else seg);
     y0 = knots ! seg;
     y1 = knots ! (seg + 1);
     seg_lo = sat 32 (grid_lo + sat 32 (int seg * step));
     frac = wrap32 (xc - seg_lo);
     dy = sat 32 (y1 - y0);
     slope_num = sat 32 (dy * frac);
     interp = slope_num div 2 ^ g
   in sat 32 (y0 + interp))"

definition kan_score :: "i16 list list \<Rightarrow> i32 list \<Rightarrow> i32 \<Rightarrow> i32 \<Rightarrow> i64" where
  "kan_score table feats flag_terms bias = (let
     acc = fold (\<lambda>j acc. sat 64 (acc + kan_spline_eval (table ! j) (feats ! j) GRID_LO GRID_STEP_LOG2))
             [0..<KAN_FEATURES] bias;
     acc = sat 64 (acc + flag_terms);
     (lo, hi) = DEMOTE_BAND
   in if acc < lo then lo else if acc > hi then hi else acc)"

definition kan_table_is_monotone :: "i16 list list \<Rightarrow> int list \<Rightarrow> bool" where
  "kan_table_is_monotone table signs \<longleftrightarrow> list_all (\<lambda>j. list_all (\<lambda>k.
     let s = signs ! j; d = table ! j ! (k + 1) - table ! j ! k in
       \<not> (s > 0 \<and> d < 0) \<and> \<not> (s < 0 \<and> d > 0)) [0..<KAN_KNOTS - 1]) [0..<KAN_FEATURES]"

definition kan_table_overflow_safe :: "i16 list list \<Rightarrow> bool" where
  "kan_table_overflow_safe table \<longleftrightarrow> list_all (\<lambda>j. list_all (\<lambda>k.
     - KAN_KNOT_MAX \<le> table ! j ! k \<and> table ! j ! k \<le> KAN_KNOT_MAX) [0..<KAN_KNOTS]) [0..<KAN_FEATURES]"

definition quantize_feature :: "i64 \<Rightarrow> i32" where
  "quantize_feature raw = (let
     step = 2 ^ GRID_STEP_LOG2;
     span = sat 64 (step * (9 - 1));
     lo = GRID_LO;
     hi = sat 64 (lo + span);
     c = (if raw < lo then lo else if raw > hi then hi else raw)
   in wrap32 c)"

definition PROPENSITY_SCALE :: u32 where "PROPENSITY_SCALE = 1000"

text \<open>The products and the sum are taken in 64 bits, saturating.\<close>

definition explore_propensity_q :: "u32 \<Rightarrow> u32 \<Rightarrow> u32 \<Rightarrow> bool \<Rightarrow> u16" where
  "explore_propensity_q eps_num eps_den m is_greedy = (
     if m = 0 then 0
     else if m = 1 then ucast PROPENSITY_SCALE
     else if eps_den = 0 \<or> eps_num = 0 then (if is_greedy then ucast PROPENSITY_SCALE else 0)
     else let
       sat = (\<lambda>n. min n (2 ^ 64 - 1));
       scale = unat PROPENSITY_SCALE;
       num = sat (scale * unat eps_num);
       den = sat (unat eps_den * unat m);
       other_q = num div den;
       eps_mass = sat (scale * unat eps_num) div unat eps_den;
       greedy_q = sat (scale - eps_mass + other_q);
       chosen = (if is_greedy then greedy_q else max other_q 1);
       clamped = (if chosen > scale then scale else chosen)
     in of_nat clamped)"

text \<open>The frozen table the memory organ ships (\<open>tb-hal/src/mem/organ.rs\<close>) with its signs and probes.\<close>

definition KAN_TABLE :: "i16 list list" where
  "KAN_TABLE = [
     [4000, 3500, 3000, 2400, 1800, 1200, 600, 100, - 400],
     [- 400, 100, 600, 1200, 1800, 2400, 3000, 3500, 4000],
     [200, 200, 150, 150, 100, 100, 50, 50, 0],
     [0, 0, 0, 0, 0, 0, 0, 0, 0]]"

definition KAN_SIGNS :: "int list" where "KAN_SIGNS = [- 1, 1, - 1, 0]"
definition KAN_BIAS :: i32 where "KAN_BIAS = 0"
definition KAN_FLAG_TERMS :: i32 where "KAN_FLAG_TERMS = 0"

definition KAN_PROBE :: "i32 list list" where
  "KAN_PROBE = [[0, 0, 0, 0], [512, 512, 512, 512], [1024, 1024, 1024, 1024], [128, 896, 256, 640]]"

definition KAN_PROBE_EXPECT :: "i64 list" where "KAN_PROBE_EXPECT = [3800, 3700, 3600, 7150]"
definition KAN_ERR_BOUND :: i64 where "KAN_ERR_BOUND = 0"

section \<open>The score is monotone where the table is\<close>

definition spline_at :: "i16 list \<Rightarrow> int \<Rightarrow> int" where
  "spline_at ks c = (let s = min 7 (nat (c div 128)) in ks ! s + (ks ! (s + 1) - ks ! s) * (c - int s * 128) div 128)"

definition i16_row :: "i16 list \<Rightarrow> bool" where
  "i16_row ks \<longleftrightarrow> length ks = 9 \<and> (\<forall>y\<in>set ks. - 32768 \<le> y \<and> y \<le> 32767)"

lemma segment_bounds:
  fixes c :: int
  assumes "0 \<le> c" "c \<le> 1024"
  defines "s \<equiv> min 7 (nat (c div 128))"
  shows "0 \<le> c - int s * 128" "c - int s * 128 \<le> 128" "s \<le> 7" "int s = min 7 (c div 128)"
proof -
  have d: "0 \<le> c div 128" "128 * (c div 128) \<le> c" "c < 128 * (c div 128) + 128" using assms(1) by presburger+
  show i: "int s = min 7 (c div 128)" using d(1) unfolding s_def by linarith
  show "0 \<le> c - int s * 128" "c - int s * 128 \<le> 128" using d assms(2) unfolding i by linarith+
  show "s \<le> 7" by (simp add: s_def)
qed

text \<open>The interpolant of a segment lies between its two knots.\<close>

lemma interp_bounds:
  fixes y0 y1 f :: int
  assumes "0 \<le> f" "f \<le> 128"
  shows "min y0 y1 \<le> y0 + (y1 - y0) * f div 128" "y0 + (y1 - y0) * f div 128 \<le> max y0 y1"
proof -
  have "min 0 (y1 - y0) * 128 \<le> (y1 - y0) * f" "(y1 - y0) * f \<le> max 0 (y1 - y0) * 128"
    using assms mult_mono[of 0 "y1 - y0" f 128] mult_left_mono[of f 128 "y1 - y0"] mult_left_mono_neg[of f 128 "y1 - y0"]
      mult_nonneg_nonneg[of "y1 - y0" f] mult_nonpos_nonneg[of "y1 - y0" f]
    by (auto simp: min_def max_def)
  then have "min 0 (y1 - y0) \<le> (y1 - y0) * f div 128" "(y1 - y0) * f div 128 \<le> max 0 (y1 - y0)"
    using zdiv_mono1[of "min 0 (y1 - y0) * 128" "(y1 - y0) * f" 128] zdiv_mono1[of "(y1 - y0) * f" "max 0 (y1 - y0) * 128" 128] by simp_all
  then show "min y0 y1 \<le> y0 + (y1 - y0) * f div 128" "y0 + (y1 - y0) * f div 128 \<le> max y0 y1" by linarith+
qed

lemma spline_closed:
  assumes "i16_row ks"
  shows "kan_spline_eval ks x GRID_LO GRID_STEP_LOG2 = spline_at ks (max 0 (min 1024 x))"
proof -
  define c where "c = max 0 (min 1024 x)"
  have c: "0 \<le> c" "c \<le> 1024" "c = (if x < 0 then 0 else if x > 1024 then 1024 else x)" by (auto simp: c_def)
  define s where "s = min 7 (nat (c div 128))"
  note sb = segment_bounds[OF c(1,2), folded s_def]
  have k: "- 32768 \<le> ks ! s" "ks ! s \<le> 32767" "- 32768 \<le> ks ! (s + 1)" "ks ! (s + 1) \<le> 32767"
    using assms sb(3) by (auto simp: i16_row_def all_set_conv_all_nth)
  let ?d = "ks ! (s + 1) - ks ! s" and ?f = "c - int s * 128"
  have p: "\<bar>?d * ?f\<bar> \<le> 65535 * 128"
    unfolding abs_mult using k sb(1,2) by (intro mult_mono) auto
  note ib = interp_bounds[OF sb(1,2), of "ks ! s" "ks ! (s + 1)"]
  have w: "wrap32 128 = 128" "wrap32 c = c" "wrap32 (c - int s * 128) = c - int s * 128" "sat 32 1024 = 1024" "sat 32 (int s * 128) = int s * 128"
    using c(1,2) sb by (simp_all add: wrap32_def signed_take_bit_int_eq_self sat_id)
  have z: "sat 32 ?d = ?d" "sat 32 (?d * ?f) = ?d * ?f"
    using k p by (simp_all add: sat_id abs_le_iff)
  have y: "sat 32 (ks ! s + ?d * ?f div 128) = ks ! s + ?d * ?f div 128"
  proof -
    have "- 32768 \<le> min (ks ! s) (ks ! (s + 1))" "max (ks ! s) (ks ! (s + 1)) \<le> 32767" using k by simp_all
    then have "- 32768 \<le> ks ! s + ?d * ?f div 128" "ks ! s + ?d * ?f div 128 \<le> 32767" using ib by linarith+
    then show ?thesis by (intro sat_id) simp_all
  qed
  have "nat (c div 128 mod 18446744073709551616) = nat (c div 128)"
    using c by (subst mod_pos_pos_trivial) (auto simp: pos_imp_zdiv_nonneg_iff div_less_iff_less_mult)
  then have seg: "(if nat (c div 128 mod 18446744073709551616) \<ge> 8 then 7 else nat (c div 128 mod 18446744073709551616)) = s"
    by (auto simp: s_def)
  have n: "(7 :: nat) mod 32 = 7" "(2 :: int) ^ 7 = 128" "(2 :: int) ^ 64 = 18446744073709551616" "int 8 = 8" "(9 :: nat) - 1 = 8"
      "(9 :: nat) - 2 = 7" "(128 :: int) * 8 = 1024" by simp_all
  show ?thesis
    unfolding kan_spline_eval_def GRID_LO_def GRID_STEP_LOG2_def KAN_KNOTS_def Let_def spline_at_def c_def[symmetric] s_def[symmetric]
    by (simp only: n add_0 diff_0_right c(3)[symmetric] w z y seg )
qed

lemma row_chain:
  assumes "\<And>k. k < 8 \<Longrightarrow> r (ks ! k) (ks ! (k + 1))" "\<And>a. r a a" "\<And>a b c. r a b \<Longrightarrow> r b c \<Longrightarrow> r a c" "i \<le> j" "j \<le> 8"
  shows "r (ks ! i) (ks ! j)"
  using assms(4,5)
proof (induction j)
  case (Suc j)
  then show ?case using assms(1)[of j] assms(2) assms(3)[of "ks ! i" "ks ! j" "ks ! (j + 1)"] by (cases "i = Suc j") auto
qed (use assms(2) in simp)

lemma spline_at_mono:
  assumes "\<forall>k<8. ks ! k \<le> ks ! (k + 1)" "0 \<le> c" "c \<le> c'" "c' \<le> 1024"
  shows "spline_at ks c \<le> spline_at ks c'"
proof -
  define s s' where "s = min 7 (nat (c div 128))" and "s' = min 7 (nat (c' div 128))"
  have b: "0 \<le> c - int s * 128" "c - int s * 128 \<le> 128" "s \<le> 7" "0 \<le> c' - int s' * 128" "c' - int s' * 128 \<le> 128" "s' \<le> 7"
    using segment_bounds(1-3)[of c, folded s_def] segment_bounds(1-3)[of c', folded s'_def] assms(2-4) by (metis order_trans)+
  have ss: "s \<le> s'" using assms(2,3) unfolding s_def s'_def by (intro min.mono nat_mono zdiv_mono1) auto
  have up: "ks ! i \<le> ks ! j" if "i \<le> j" "j \<le> 8" for i j
    using row_chain[of "(\<le>)" ks i j] assms(1) that by auto
  note i = interp_bounds[OF b(1,2), of "ks ! s" "ks ! (s + 1)"] and i' = interp_bounds[OF b(4,5), of "ks ! s'" "ks ! (s' + 1)"]
  show ?thesis
  proof (cases "s = s'")
    case True
    have "(ks ! (s + 1) - ks ! s) * (c - int s * 128) div 128 \<le> (ks ! (s + 1) - ks ! s) * (c' - int s * 128) div 128"
      using up[of s "s + 1"] b(3) assms(3) by (intro zdiv_mono1 mult_left_mono) auto
    then show ?thesis using True by (simp add: spline_at_def Let_def s_def[symmetric] s'_def[symmetric])
  next
    case False
    have "ks ! s \<le> ks ! (s + 1)" "ks ! (s + 1) \<le> ks ! s'" "ks ! s' \<le> ks ! (s' + 1)"
      using up[of s "s + 1"] up[of "s + 1" s'] up[of s' "s' + 1"] False ss b by auto
    then show ?thesis
      using i i' by (simp add: spline_at_def Let_def s_def[symmetric] s'_def[symmetric])
  qed
qed

lemma spline_at_anti:
  assumes "\<forall>k<8. ks ! (k + 1) \<le> ks ! k" "0 \<le> c" "c \<le> c'" "c' \<le> 1024"
  shows "spline_at ks c' \<le> spline_at ks c"
proof -
  define s s' where "s = min 7 (nat (c div 128))" and "s' = min 7 (nat (c' div 128))"
  have b: "0 \<le> c - int s * 128" "c - int s * 128 \<le> 128" "s \<le> 7" "0 \<le> c' - int s' * 128" "c' - int s' * 128 \<le> 128" "s' \<le> 7"
    using segment_bounds(1-3)[of c, folded s_def] segment_bounds(1-3)[of c', folded s'_def] assms(2-4) by (metis order_trans)+
  have ss: "s \<le> s'" using assms(2,3) unfolding s_def s'_def by (intro min.mono nat_mono zdiv_mono1) auto
  have up: "ks ! j \<le> ks ! i" if "i \<le> j" "j \<le> 8" for i j
    using row_chain[of "(\<ge>)" ks i j] assms(1) that by auto
  note i = interp_bounds[OF b(1,2), of "ks ! s" "ks ! (s + 1)"] and i' = interp_bounds[OF b(4,5), of "ks ! s'" "ks ! (s' + 1)"]
  show ?thesis
  proof (cases "s = s'")
    case True
    have "(ks ! (s + 1) - ks ! s) * (c' - int s * 128) div 128 \<le> (ks ! (s + 1) - ks ! s) * (c - int s * 128) div 128"
      using up[of s "s + 1"] b(3) assms(3) by (intro zdiv_mono1 mult_left_mono_neg) auto
    then show ?thesis using True by (simp add: spline_at_def Let_def s_def[symmetric] s'_def[symmetric])
  next
    case False
    have "ks ! (s + 1) \<le> ks ! s" "ks ! s' \<le> ks ! (s + 1)" "ks ! (s' + 1) \<le> ks ! s'"
      using up[of s "s + 1"] up[of "s + 1" s'] up[of s' "s' + 1"] False ss b by auto
    then show ?thesis
      using i i' by (simp add: spline_at_def Let_def s_def[symmetric] s'_def[symmetric])
  qed
qed

lemma kan_score_mono:
  assumes "\<And>j. j < 4 \<Longrightarrow> kan_spline_eval (table ! j) (feats ! j) GRID_LO GRID_STEP_LOG2 \<le> kan_spline_eval (table ! j) (feats' ! j) GRID_LO GRID_STEP_LOG2"
  shows "kan_score table feats flags bias \<le> kan_score table feats' flags bias"
proof -
  have "fold (\<lambda>j acc. sat 64 (acc + kan_spline_eval (table ! j) (feats ! j) GRID_LO GRID_STEP_LOG2)) js a \<le>
      fold (\<lambda>j acc. sat 64 (acc + kan_spline_eval (table ! j) (feats' ! j) GRID_LO GRID_STEP_LOG2)) js a'" (is "?F js a \<le> ?G js a'")
    if "a \<le> a'" "\<forall>j\<in>set js. j < 4" for js a a'
    using that
  proof (induction js arbitrary: a a')
    case (Cons j js)
    then have "sat 64 (a + kan_spline_eval (table ! j) (feats ! j) GRID_LO GRID_STEP_LOG2) \<le>
        sat 64 (a' + kan_spline_eval (table ! j) (feats' ! j) GRID_LO GRID_STEP_LOG2)"
      using assms[of j] by (intro sat_mono add_mono) auto
    then show ?case using Cons by simp
  qed simp
  then have "sat 64 (?F [0..<KAN_FEATURES] bias + flags) \<le> sat 64 (?G [0..<KAN_FEATURES] bias + flags)"
    by (intro sat_mono add_right_mono) (auto simp: KAN_FEATURES_def)
  then show ?thesis
    unfolding kan_score_def Let_def DEMOTE_BAND_def prod.case by (simp split: if_split)
qed

text \<open>
  C38: A table that passes the validator gives a score that moves the certified way. With rows of nine
  16-bit knots, if every feature with a positive sign does not fall, every feature with a negative
  sign does not rise and the others stay, the score does not fall; and it is always inside the band.
\<close>

theorem certified_score_monotone:
  assumes "kan_table_is_monotone table signs" "length table = 4" "\<forall>row\<in>set table. i16_row row"
    and "\<forall>j<4. (signs ! j > 0 \<longrightarrow> feats ! j \<le> feats' ! j) \<and> (signs ! j < 0 \<longrightarrow> feats' ! j \<le> feats ! j) \<and>
      (signs ! j = 0 \<longrightarrow> feats ! j = feats' ! j)"
  shows "kan_score table feats flags bias \<le> kan_score table feats' flags bias \<and>
    fst DEMOTE_BAND \<le> kan_score table feats flags bias \<and> kan_score table feats flags bias \<le> snd DEMOTE_BAND"
proof -
  have "kan_spline_eval (table ! j) (feats ! j) GRID_LO GRID_STEP_LOG2 \<le> kan_spline_eval (table ! j) (feats' ! j) GRID_LO GRID_STEP_LOG2"
    if j: "j < 4" for j
  proof -
    have "i16_row (table ! j)" using assms(2,3) j by simp
    note e = spline_closed[OF this]
    have m: "k < 8 \<Longrightarrow> (signs ! j > 0 \<longrightarrow> table ! j ! k \<le> table ! j ! (k + 1)) \<and> (signs ! j < 0 \<longrightarrow> table ! j ! (k + 1) \<le> table ! j ! k)" for k
      using assms(1) j by (force simp: kan_table_is_monotone_def list_all_iff KAN_FEATURES_def KAN_KNOTS_def Let_def not_less)
    consider "signs ! j > 0" | "signs ! j < 0" | "signs ! j = 0" by linarith
    then show ?thesis
    proof cases
      case 1
      then show ?thesis unfolding e using m assms(4) j by (intro spline_at_mono) auto
    next
      case 2
      then show ?thesis unfolding e using m assms(4) j by (intro spline_at_anti) auto
    next
      case 3
      then show ?thesis using assms(4) j by simp
    qed
  qed
  then show ?thesis
    using kan_score_mono by (auto simp: kan_score_def Let_def DEMOTE_BAND_def)
qed

lemma kan_table_ok:
  "kan_table_is_monotone KAN_TABLE KAN_SIGNS" "kan_table_overflow_safe KAN_TABLE" "length KAN_TABLE = 4" "\<forall>row\<in>set KAN_TABLE. i16_row row"
  by (simp_all add: kan_table_is_monotone_def kan_table_overflow_safe_def KAN_TABLE_def KAN_SIGNS_def KAN_FEATURES_def KAN_KNOTS_def
      KAN_KNOT_MAX_def i16_row_def upt_rec)

text \<open>The probes of the boot round trip score as shipped.\<close>

lemma kan_table_score:
  "kan_score KAN_TABLE [a, b, c, d] 0 0 = (let acc = sat 64 (sat 64 (sat 64 (sat 64 (sat 64
      (spline_at (KAN_TABLE ! 0) (max 0 (min 1024 a))) + spline_at (KAN_TABLE ! 1) (max 0 (min 1024 b))) +
      spline_at (KAN_TABLE ! 2) (max 0 (min 1024 c))) + spline_at (KAN_TABLE ! 3) (max 0 (min 1024 d))) )
    in if acc < - 34000 then - 34000 else if acc > 34000 then 34000 else acc)"
proof -
  have r: "i16_row (KAN_TABLE ! 0)" "i16_row (KAN_TABLE ! 1)" "i16_row (KAN_TABLE ! 2)" "i16_row (KAN_TABLE ! 3)"
    using kan_table_ok(3,4) by simp_all
  have u: "[0..<KAN_FEATURES] = [0, 1, 2, 3]" by (simp add: KAN_FEATURES_def upt_rec)
  have n: "[a, b, c, d] ! 0 = a" "[a, b, c, d] ! 1 = b" "[a, b, c, d] ! 2 = c" "[a, b, c, d] ! 3 = d" by simp_all
  show ?thesis
    unfolding kan_score_def u DEMOTE_BAND_def prod.case
    by (simp only: fold.simps comp_apply id_apply n r[THEN spline_closed] add_0 add_0_right Let_def prod.case)
qed

lemma kan_probe_exact: "map (\<lambda>f. kan_score KAN_TABLE f KAN_FLAG_TERMS KAN_BIAS) KAN_PROBE = KAN_PROBE_EXPECT"
proof -
  have "kan_score KAN_TABLE [0, 0, 0, 0] 0 0 = 3800" "kan_score KAN_TABLE [512, 512, 512, 512] 0 0 = 3700"
    "kan_score KAN_TABLE [1024, 1024, 1024, 1024] 0 0 = 3600" "kan_score KAN_TABLE [128, 896, 256, 640] 0 0 = 7150"
    unfolding kan_table_score by (simp_all add: KAN_TABLE_def spline_at_def sat_def)
  then show ?thesis
    by (simp add: KAN_PROBE_def KAN_PROBE_EXPECT_def KAN_FLAG_TERMS_def KAN_BIAS_def)
qed

theorem certified_score_monotone_witness:
  "kan_score KAN_TABLE [300, 5, 0, 0] 0 0 \<le> kan_score KAN_TABLE [20, 9, 0, 0] 0 0 \<and>
    fst DEMOTE_BAND \<le> kan_score KAN_TABLE [300, 5, 0, 0] 0 0 \<and> kan_score KAN_TABLE [300, 5, 0, 0] 0 0 \<le> snd DEMOTE_BAND"
  by (rule certified_score_monotone[OF kan_table_ok(1,3,4)]) (simp add: KAN_SIGNS_def nth_Cons' less_Suc_eq numeral_eq_Suc)

end
