(* ===== verification/Exp_Log.thy ===== *)
theory Exp_Log
  imports Kancell Prov
begin

text \<open>
  The two observation logs of the memory organ: experience records with their drop-oldest ring
  (\<open>tb-encode/src/exp.rs\<close>) and corpus records (\<open>corpus.rs\<close>). Both are fixed-width encodings folded
  into hash chains of their own with the fold of \<open>Prov\<close>. Signed fields hold their two's
  complement, a word.
\<close>

section \<open>Experience records\<close>

definition FORGET_DECISION :: u8 where "FORGET_DECISION = 1"
definition RECALL_TOUCH :: u8 where "RECALL_TOUCH = 2"
definition DETERMINISTIC :: u8 where "DETERMINISTIC = 0"
definition SOFT_GREEDY :: u8 where "SOFT_GREEDY = 1"
definition PROPENSITY_DETERMINISTIC_Q :: u16 where "PROPENSITY_DETERMINISTIC_Q = 1000"
definition EXP_CANON_LEN :: nat where "EXP_CANON_LEN = 8 + 1 + (4 * 4) + 1 + 1 + 8 + 2 + 1 + 1 + 8 + 2"

datatype exp_outcome = XUnset | ReRecalled u64 | Evicted u64

fun exp_tag :: "exp_outcome \<Rightarrow> u8" where
  "exp_tag XUnset = 0"
| "exp_tag (ReRecalled v) = 1"
| "exp_tag (Evicted v) = 2"

fun exp_payload :: "exp_outcome \<Rightarrow> u64" where
  "exp_payload XUnset = 0"
| "exp_payload (ReRecalled v) = v"
| "exp_payload (Evicted v) = v"

definition exp_from_parts :: "u8 \<Rightarrow> u64 \<Rightarrow> exp_outcome option" where
  "exp_from_parts tag payload = (if tag = 0 then Some XUnset else if tag = 1 then Some (ReRecalled payload)
     else if tag = 2 then Some (Evicted payload) else None)"

record exp_record =
  xr_decision_id :: u64
  xr_kind :: u8
  xr_feats :: "u32 list"
  xr_envelope_verdict :: u8
  xr_action_taken :: u8
  xr_kan_score_shadow :: u64
  xr_logging_propensity_q :: u16
  xr_logging_policy_kind :: u8
  xr_outcome :: exp_outcome
  xr_margin_q :: u16

definition exp_canon :: "exp_record \<Rightarrow> bytes \<Rightarrow> bytes \<times> nat" where
  "exp_canon r out = (if length out < EXP_CANON_LEN then (out, 0)
     else let
       out = put 0 (le_bytes 8 (xr_decision_id r)) out;
       out = out[8 := xr_kind r];
       out = fold (\<lambda>j out. put (9 + j * 4) (le_bytes 4 (xr_feats r ! j)) out) [0..<KAN_FEATURES] out;
       out = out[25 := xr_envelope_verdict r];
       out = out[26 := xr_action_taken r];
       out = put 27 (le_bytes 8 (xr_kan_score_shadow r)) out;
       out = put 35 (le_bytes 2 (xr_logging_propensity_q r)) out;
       out = out[37 := xr_logging_policy_kind r];
       out = out[38 := exp_tag (xr_outcome r)];
       out = put 39 (le_bytes 8 (exp_payload (xr_outcome r))) out;
       out = put 47 (le_bytes 2 (xr_margin_q r)) out
     in (out, EXP_CANON_LEN))"

definition exp_decode :: "bytes \<Rightarrow> exp_record option" where
  "exp_decode buf = (if length buf < EXP_CANON_LEN then None
     else case exp_from_parts (buf ! 38) (of_le_bytes (slice buf 39 8)) of None \<Rightarrow> None
     | Some outcome \<Rightarrow> Some \<lparr>
         xr_decision_id = of_le_bytes (slice buf 0 8),
         xr_kind = buf ! 8,
         xr_feats = map (\<lambda>j. of_le_bytes (slice buf (9 + j * 4) 4)) [0..<KAN_FEATURES],
         xr_envelope_verdict = buf ! 25,
         xr_action_taken = buf ! 26,
         xr_kan_score_shadow = of_le_bytes (slice buf 27 8),
         xr_logging_propensity_q = of_le_bytes (slice buf 35 2),
         xr_logging_policy_kind = buf ! 37,
         xr_outcome = outcome,
         xr_margin_q = of_le_bytes (slice buf 47 2)\<rparr>)"

definition replay_shadow :: "i16 list list \<Rightarrow> i32 list \<Rightarrow> i32 \<Rightarrow> i32 \<Rightarrow> i64" where
  "replay_shadow table feats flag_terms bias = kan_score table feats flag_terms bias"

section \<open>The drop-oldest ring\<close>

text \<open>The capacity is the length of the row array.\<close>

record exp_ring =
  er_rows :: "bytes list"
  er_head :: nat
  er_len :: nat

definition exp_ring_new :: "nat \<Rightarrow> nat \<Rightarrow> exp_ring" where
  "exp_ring_new cap len = \<lparr>er_rows = replicate cap (replicate len 0), er_head = 0, er_len = 0\<rparr>"

definition exp_ring_push :: "exp_ring \<Rightarrow> bytes \<Rightarrow> exp_ring \<times> bool" where
  "exp_ring_push r row = (let cap = length (er_rows r) in
     if cap = 0 then (r, False)
     else if er_len r < cap then let slot = (er_head r + er_len r) mod cap in
       (r\<lparr>er_rows := (er_rows r)[slot := row], er_len := er_len r + 1\<rparr>, False)
     else (r\<lparr>er_rows := (er_rows r)[er_head r := row], er_head := (er_head r + 1) mod cap\<rparr>, True))"

definition exp_ring_get :: "exp_ring \<Rightarrow> nat \<Rightarrow> bytes option" where
  "exp_ring_get r i = (if i \<ge> er_len r \<or> length (er_rows r) = 0 then None
     else Some (er_rows r ! ((er_head r + i) mod length (er_rows r))))"

section \<open>Corpus records\<close>

definition CORPUS_SCHEMA_V1 :: u8 where "CORPUS_SCHEMA_V1 = 1"
definition EPISODIC_CONSOLIDATION :: u8 where "EPISODIC_CONSOLIDATION = 1"
definition OPERATOR_TURN :: u8 where "OPERATOR_TURN = 2"
definition LABELED_OUTCOME :: u8 where "LABELED_OUTCOME = 3"
definition M13_MEM :: u8 where "M13_MEM = 1"
definition M17_REFLECT :: u8 where "M17_REFLECT = 2"
definition M25_OPERATOR :: u8 where "M25_OPERATOR = 3"
definition M31_INFER :: u8 where "M31_INFER = 4"
definition REJECTED :: u8 where "REJECTED = 0"
definition ACCEPTED :: u8 where "ACCEPTED = 1"
definition CORPUS_CANON_LEN :: nat where "CORPUS_CANON_LEN = 1 + 1 + 1 + 1 + 8 + 8 + 8 + PROV_HASH_LEN + 1 + 8 + 2"

definition example_kind_valid :: "u8 \<Rightarrow> bool" where
  "example_kind_valid v \<longleftrightarrow> v \<in> {EPISODIC_CONSOLIDATION, OPERATOR_TURN, LABELED_OUTCOME}"

definition source_stream_valid :: "u8 \<Rightarrow> bool" where
  "source_stream_valid v \<longleftrightarrow> v \<in> {M13_MEM, M17_REFLECT, M25_OPERATOR, M31_INFER}"

definition curation_verdict_valid :: "u8 \<Rightarrow> bool" where
  "curation_verdict_valid v \<longleftrightarrow> v \<in> {REJECTED, ACCEPTED}"

datatype corpus_outcome = CUnset | Positive u64 | Negative u64

fun corpus_tag :: "corpus_outcome \<Rightarrow> u8" where
  "corpus_tag CUnset = 0"
| "corpus_tag (Positive v) = 1"
| "corpus_tag (Negative v) = 2"

fun corpus_payload :: "corpus_outcome \<Rightarrow> u64" where
  "corpus_payload CUnset = 0"
| "corpus_payload (Positive v) = v"
| "corpus_payload (Negative v) = v"

definition corpus_from_parts :: "u8 \<Rightarrow> u64 \<Rightarrow> corpus_outcome option" where
  "corpus_from_parts tag payload = (if tag = 0 then Some CUnset else if tag = 1 then Some (Positive payload)
     else if tag = 2 then Some (Negative payload) else None)"

record corpus_record =
  cr_schema_version :: u8
  cr_example_kind :: u8
  cr_source_stream :: u8
  cr_curation_verdict :: u8
  cr_content_tok :: u64
  cr_aux_tok :: u64
  cr_t_created :: u64
  cr_source_head :: bytes
  cr_outcome :: corpus_outcome
  cr_curation_score_q :: u16

definition corpus_canon :: "corpus_record \<Rightarrow> bytes \<Rightarrow> bytes \<times> nat" where
  "corpus_canon r out = (if length out < CORPUS_CANON_LEN then (out, 0)
     else let
       out = out[0 := cr_schema_version r];
       out = out[1 := cr_example_kind r];
       out = out[2 := cr_source_stream r];
       out = out[3 := cr_curation_verdict r];
       out = put 4 (le_bytes 8 (cr_content_tok r)) out;
       out = put 12 (le_bytes 8 (cr_aux_tok r)) out;
       out = put 20 (le_bytes 8 (cr_t_created r)) out;
       out = put 28 (cr_source_head r) out;
       out = out[60 := corpus_tag (cr_outcome r)];
       out = put 61 (le_bytes 8 (corpus_payload (cr_outcome r))) out;
       out = put 69 (le_bytes 2 (cr_curation_score_q r)) out
     in (out, CORPUS_CANON_LEN))"

definition corpus_decode :: "bytes \<Rightarrow> corpus_record option" where
  "corpus_decode buf = (if length buf < CORPUS_CANON_LEN then None
     else if buf ! 0 \<noteq> CORPUS_SCHEMA_V1 then None
     else if \<not> example_kind_valid (buf ! 1) then None
     else if \<not> source_stream_valid (buf ! 2) then None
     else if \<not> curation_verdict_valid (buf ! 3) then None
     else case corpus_from_parts (buf ! 60) (of_le_bytes (slice buf 61 8)) of None \<Rightarrow> None
     | Some outcome \<Rightarrow> Some \<lparr>
         cr_schema_version = buf ! 0,
         cr_example_kind = buf ! 1,
         cr_source_stream = buf ! 2,
         cr_curation_verdict = buf ! 3,
         cr_content_tok = of_le_bytes (slice buf 4 8),
         cr_aux_tok = of_le_bytes (slice buf 12 8),
         cr_t_created = of_le_bytes (slice buf 20 8),
         cr_source_head = slice buf 28 PROV_HASH_LEN,
         cr_outcome = outcome,
         cr_curation_score_q = of_le_bytes (slice buf 69 2)\<rparr>)"

text \<open>The scratch buffer after the call, and the new head with the record's identifier.\<close>

definition corpus_append :: "bytes \<Rightarrow> corpus_record \<Rightarrow> bytes \<Rightarrow> bytes \<times> (bytes \<times> bytes) option" where
  "corpus_append head r scratch = (case corpus_canon r scratch of (out, n) \<Rightarrow>
     if n = 0 then (out, None)
     else let record_id = prov_hash (take n out) in (out, Some (chain_mix head record_id, record_id)))"

section \<open>The logs the organ keeps\<close>

text \<open>
  The fields of \<open>MemSubstrate\<close> (\<open>tb-hal/src/mem/organ.rs\<close>) that the two logs own; the clock and the
  ledger head a corpus record is stamped with are read from the rest of the organ.
\<close>

definition XP_CAP :: nat where "XP_CAP = 64"
definition EPS_DEN :: u32 where "EPS_DEN = 16"
definition AGENT_SEED :: u64 where "AGENT_SEED = 0x9E3779B97F4A7C15"
definition CORPUS_CURATION_MIN_SALIENCE :: u8 where "CORPUS_CURATION_MIN_SALIENCE = 2"

record xp_log =
  xp_head :: bytes
  xp_ring :: exp_ring
  xp_ids :: "bytes list"

definition xp_log_new :: xp_log where
  "xp_log_new = \<lparr>xp_head = replicate PROV_HASH_LEN 0, xp_ring = exp_ring_new XP_CAP EXP_CANON_LEN, xp_ids = []\<rparr>"

definition xp_record :: "xp_log \<Rightarrow> exp_record \<Rightarrow> xp_log \<times> bytes option" where
  "xp_record l r = (case exp_canon r (replicate EXP_CANON_LEN 0) of (row, n) \<Rightarrow>
     if n = 0 then (l, None)
     else let i = prov_hash row in
       (l\<lparr>xp_head := chain_mix (xp_head l) i, xp_ring := fst (exp_ring_push (xp_ring l) row), xp_ids := xp_ids l @ [i]\<rparr>, Some i))"

definition explore_is_greedy :: "u64 \<Rightarrow> u32 \<Rightarrow> bool" where
  "explore_is_greedy decision_id m = (if m \<le> 1 then True
     else let
       did = put 0 (le_bytes 8 decision_id) (replicate PROV_HASH_LEN 0);
       seed = put 0 (le_bytes 8 AGENT_SEED) (replicate PROV_HASH_LEN 0);
       head = chain_mix seed did;
       witness = head_witness head;
       coin = (witness mod ucast (max EPS_DEN 1)) mod ucast (max m 1)
     in coin = 0)"

record corpus_log =
  corpus_head :: bytes
  corpus_ids :: "bytes list"
  corpus_records :: "bytes list"
  corpus_accepted :: u64
  corpus_rejected :: u64

definition corpus_log_new :: corpus_log where
  "corpus_log_new = \<lparr>corpus_head = replicate PROV_HASH_LEN 0, corpus_ids = [], corpus_records = [], corpus_accepted = 0, corpus_rejected = 0\<rparr>"

definition corpus_curate :: "u64 \<Rightarrow> u8 \<Rightarrow> u8" where
  "corpus_curate content_tok salience =
     (if content_tok \<noteq> 0 \<and> salience \<ge> CORPUS_CURATION_MIN_SALIENCE then ACCEPTED else REJECTED)"

text \<open>What the three emitters do with the record they built.\<close>

definition corpus_fold :: "corpus_log \<Rightarrow> corpus_record \<Rightarrow> corpus_log" where
  "corpus_fold l r = (case corpus_append (corpus_head l) r (replicate CORPUS_CANON_LEN 0) of
     (scratch, None) \<Rightarrow> l
   | (scratch, Some (new_head, i)) \<Rightarrow> let
       l = l\<lparr>corpus_head := new_head, corpus_ids := corpus_ids l @ [i], corpus_records := corpus_records l @ [scratch]\<rparr>
     in if cr_curation_verdict r = ACCEPTED then l\<lparr>corpus_accepted := saturating_add (corpus_accepted l) 1\<rparr>
        else l\<lparr>corpus_rejected := saturating_add (corpus_rejected l) 1\<rparr>)"

definition corpus_emit_consolidation :: "u64 \<Rightarrow> bytes \<Rightarrow> corpus_log \<Rightarrow> u64 \<Rightarrow> u64 \<Rightarrow> u8 \<Rightarrow> u8 \<Rightarrow> corpus_log" where
  "corpus_emit_consolidation clock ledger_head l content_tok aux_tok source_stream salience = corpus_fold l
     \<lparr>cr_schema_version = CORPUS_SCHEMA_V1, cr_example_kind = EPISODIC_CONSOLIDATION, cr_source_stream = source_stream,
      cr_curation_verdict = corpus_curate content_tok salience, cr_content_tok = content_tok, cr_aux_tok = aux_tok,
      cr_t_created = clock, cr_source_head = ledger_head, cr_outcome = CUnset, cr_curation_score_q = 0\<rparr>"

definition corpus_emit_operator_turn :: "u64 \<Rightarrow> bytes \<Rightarrow> corpus_log \<Rightarrow> u64 \<Rightarrow> u64 \<Rightarrow> u8 \<Rightarrow> corpus_log" where
  "corpus_emit_operator_turn clock ledger_head l content_tok aux_tok verdict = corpus_fold l
     \<lparr>cr_schema_version = CORPUS_SCHEMA_V1, cr_example_kind = OPERATOR_TURN, cr_source_stream = M25_OPERATOR,
      cr_curation_verdict = verdict, cr_content_tok = content_tok, cr_aux_tok = aux_tok,
      cr_t_created = clock, cr_source_head = ledger_head, cr_outcome = CUnset, cr_curation_score_q = 0\<rparr>"

definition corpus_emit_labeled_outcome :: "u64 \<Rightarrow> bytes \<Rightarrow> corpus_log \<Rightarrow> u64 \<Rightarrow> corpus_outcome \<Rightarrow> corpus_log" where
  "corpus_emit_labeled_outcome clock ledger_head l decision_id outcome = corpus_fold l
     \<lparr>cr_schema_version = CORPUS_SCHEMA_V1, cr_example_kind = LABELED_OUTCOME, cr_source_stream = M13_MEM,
      cr_curation_verdict = ACCEPTED, cr_content_tok = decision_id, cr_aux_tok = 0,
      cr_t_created = clock, cr_source_head = ledger_head, cr_outcome = outcome, cr_curation_score_q = 0\<rparr>"

section \<open>The encodings\<close>

definition exp_ok :: "exp_record \<Rightarrow> bool" where
  "exp_ok r \<longleftrightarrow> length (xr_feats r) = 4"

definition exp_bytes :: "exp_record \<Rightarrow> bytes" where
  "exp_bytes r = le_bytes 8 (xr_decision_id r) @ [xr_kind r] @ concat (map (le_bytes 4) (xr_feats r)) @
     [xr_envelope_verdict r, xr_action_taken r] @ le_bytes 8 (xr_kan_score_shadow r) @
     le_bytes 2 (xr_logging_propensity_q r) @ [xr_logging_policy_kind r, exp_tag (xr_outcome r)] @
     le_bytes 8 (exp_payload (xr_outcome r)) @ le_bytes 2 (xr_margin_q r)"

definition corpus_ok :: "corpus_record \<Rightarrow> bool" where
  "corpus_ok r \<longleftrightarrow> length (cr_source_head r) = 32"

definition corpus_bytes :: "corpus_record \<Rightarrow> bytes" where
  "corpus_bytes r = [cr_schema_version r, cr_example_kind r, cr_source_stream r, cr_curation_verdict r] @
     le_bytes 8 (cr_content_tok r) @ le_bytes 8 (cr_aux_tok r) @ le_bytes 8 (cr_t_created r) @ cr_source_head r @
     [corpus_tag (cr_outcome r)] @ le_bytes 8 (corpus_payload (cr_outcome r)) @ le_bytes 2 (cr_curation_score_q r)"

text \<open>Writing one byte is a write of length one, so that all writes are of one kind.\<close>

lemma update_put: "i < length out \<Longrightarrow> out[i := b] = put i [b] out"
  by (simp add: put_def upd_conv_take_nth_drop)

lemma put_at_end: "i = length pre \<Longrightarrow> put i xs (pre @ rest) = (pre @ xs) @ drop (length xs) rest"
  by (simp add: put_def)

lemma four_feats: "length fs = 4 \<Longrightarrow> \<exists>a b c d. fs = [a, b, c, d]"
  by (auto simp: length_Suc_conv numeral_eq_Suc)

lemma length_exp_bytes: "exp_ok r \<Longrightarrow> length (exp_bytes r) = 49"
  by (auto simp: exp_ok_def exp_bytes_def dest!: four_feats)

lemma exp_canon_writes:
  assumes "exp_ok r" "49 \<le> length out"
  shows "exp_canon r out = (exp_bytes r @ drop 49 out, 49)"
proof -
  obtain a b c d where f: "xr_feats r = [a, b, c, d]" using assms(1) four_feats[of "xr_feats r"] by (auto simp: exp_ok_def)
  have u: "[0..<KAN_FEATURES] = [0, 1, 2, 3]" by (simp add: KAN_FEATURES_def upt_rec)
  have "put 47 (le_bytes 2 (xr_margin_q r)) (put 39 (le_bytes 8 (exp_payload (xr_outcome r)))
     (put 38 [exp_tag (xr_outcome r)] (put 37 [xr_logging_policy_kind r] (put 35 (le_bytes 2 (xr_logging_propensity_q r))
     (put 27 (le_bytes 8 (xr_kan_score_shadow r)) (put 26 [xr_action_taken r] (put 25 [xr_envelope_verdict r]
     (put 21 (le_bytes 4 d) (put 17 (le_bytes 4 c) (put 13 (le_bytes 4 b) (put 9 (le_bytes 4 a)
     (put 8 [xr_kind r] (put 0 (le_bytes 8 (xr_decision_id r)) out))))))))))))) = exp_bytes r @ drop 49 out"
    unfolding put_0 by (simp add: put_at_end exp_bytes_def f del: append_assoc)
  then show ?thesis
    using assms(2) by (simp add: exp_canon_def EXP_CANON_LEN_def u f Let_def update_put)
qed

lemma exp_decode_bytes: "exp_ok r \<Longrightarrow> exp_decode (exp_bytes r @ rest) = Some r"
proof -
  assume ok: "exp_ok r"
  then obtain a b c d where f: "xr_feats r = [a, b, c, d]" using four_feats[of "xr_feats r"] by (auto simp: exp_ok_def)
  have u: "[0..<KAN_FEATURES] = [0, 1, 2, 3]" by (simp add: KAN_FEATURES_def upt_rec)
  have p: "exp_from_parts (exp_tag x) (exp_payload x) = Some x" for x
    by (cases x) (simp_all add: exp_from_parts_def)
  have n: "(exp_bytes r @ rest) ! 8 = xr_kind r" "(exp_bytes r @ rest) ! 25 = xr_envelope_verdict r" "(exp_bytes r @ rest) ! 26 = xr_action_taken r"
    "(exp_bytes r @ rest) ! 37 = xr_logging_policy_kind r" "(exp_bytes r @ rest) ! 38 = exp_tag (xr_outcome r)"
    by (simp_all add: exp_bytes_def f nth_append)
  have l: "slice (exp_bytes r @ rest) 0 8 = le_bytes 8 (xr_decision_id r)" "slice (exp_bytes r @ rest) 9 4 = le_bytes 4 a"
    "slice (exp_bytes r @ rest) 13 4 = le_bytes 4 b" "slice (exp_bytes r @ rest) 17 4 = le_bytes 4 c" "slice (exp_bytes r @ rest) 21 4 = le_bytes 4 d"
    "slice (exp_bytes r @ rest) 27 8 = le_bytes 8 (xr_kan_score_shadow r)" "slice (exp_bytes r @ rest) 35 2 = le_bytes 2 (xr_logging_propensity_q r)"
    "slice (exp_bytes r @ rest) 39 8 = le_bytes 8 (exp_payload (xr_outcome r))" "slice (exp_bytes r @ rest) 47 2 = le_bytes 2 (xr_margin_q r)"
    by (simp_all add: exp_bytes_def f slice_def)
  show ?thesis
    using length_exp_bytes[OF ok] by (simp add: exp_decode_def EXP_CANON_LEN_def u n l p f[symmetric])
qed

lemma length_corpus_bytes: "corpus_ok r \<Longrightarrow> length (corpus_bytes r) = 71"
  by (simp add: corpus_ok_def corpus_bytes_def)

lemma corpus_canon_writes:
  assumes "corpus_ok r" "71 \<le> length out"
  shows "corpus_canon r out = (corpus_bytes r @ drop 71 out, 71)"
proof -
  have h: "length (cr_source_head r) = 32" using assms(1) by (simp add: corpus_ok_def)
  have "put 69 (le_bytes 2 (cr_curation_score_q r)) (put 61 (le_bytes 8 (corpus_payload (cr_outcome r))) (put 60 [corpus_tag (cr_outcome r)]
     (put 28 (cr_source_head r) (put 20 (le_bytes 8 (cr_t_created r)) (put 12 (le_bytes 8 (cr_aux_tok r)) (put 4 (le_bytes 8 (cr_content_tok r))
     (put 3 [cr_curation_verdict r] (put 2 [cr_source_stream r] (put (Suc 0) [cr_example_kind r] (put 0 [cr_schema_version r] out))))))))))
     = corpus_bytes r @ drop 71 out"
    unfolding put_0 by (simp add: buffer_simps corpus_bytes_def h)
  moreover have "out[0 := cr_schema_version r] = put 0 [cr_schema_version r] out" using assms(2) by (intro update_put) linarith
  ultimately show ?thesis
    using assms(2) h by (simp add: corpus_canon_def CORPUS_CANON_LEN_def PROV_HASH_LEN_def Let_def update_put)
qed

definition corpus_valid :: "corpus_record \<Rightarrow> bool" where
  "corpus_valid r \<longleftrightarrow> corpus_ok r \<and> cr_schema_version r = CORPUS_SCHEMA_V1 \<and> example_kind_valid (cr_example_kind r) \<and>
     source_stream_valid (cr_source_stream r) \<and> curation_verdict_valid (cr_curation_verdict r)"

lemma corpus_decode_bytes:
  assumes "corpus_ok r"
  shows "corpus_decode (corpus_bytes r @ rest) = (if corpus_valid r then Some r else None)"
proof -
  have h: "length (cr_source_head r) = 32" using assms by (simp add: corpus_ok_def)
  have p: "corpus_from_parts (corpus_tag x) (corpus_payload x) = Some x" for x
    by (cases x) (simp_all add: corpus_from_parts_def)
  have n: "(corpus_bytes r @ rest) ! 0 = cr_schema_version r" "(corpus_bytes r @ rest) ! Suc 0 = cr_example_kind r"
    "(corpus_bytes r @ rest) ! 2 = cr_source_stream r" "(corpus_bytes r @ rest) ! 3 = cr_curation_verdict r"
    "(corpus_bytes r @ rest) ! 60 = corpus_tag (cr_outcome r)"
    by (simp_all add: corpus_bytes_def h nth_append)
  have l: "slice (corpus_bytes r @ rest) 4 8 = le_bytes 8 (cr_content_tok r)" "slice (corpus_bytes r @ rest) 12 8 = le_bytes 8 (cr_aux_tok r)"
    "slice (corpus_bytes r @ rest) 20 8 = le_bytes 8 (cr_t_created r)" "slice (corpus_bytes r @ rest) 28 32 = cr_source_head r"
    "slice (corpus_bytes r @ rest) 61 8 = le_bytes 8 (corpus_payload (cr_outcome r))" "slice (corpus_bytes r @ rest) 69 2 = le_bytes 2 (cr_curation_score_q r)"
    by (simp_all add: corpus_bytes_def h slice_def)
  show ?thesis
    using assms length_corpus_bytes[OF assms] by (simp add: corpus_decode_def CORPUS_CANON_LEN_def PROV_HASH_LEN_def n l p corpus_valid_def)
qed

interpretation xp: record_chain uhash 32 exp_bytes exp_ok
  by unfold_locales (metis append_Nil2 exp_decode_bytes option.inject)

lemma corpus_bytes_inject:
  assumes "corpus_ok r" "corpus_ok s" "corpus_bytes r = corpus_bytes s"
  shows "r = s"
proof -
  have h: "length (cr_source_head r) = 32" "length (cr_source_head s) = 32" using assms by (simp_all add: corpus_ok_def)
  have o: "corpus_tag x = corpus_tag y \<Longrightarrow> corpus_payload x = corpus_payload y \<Longrightarrow> x = y" for x y
    by (cases x; cases y) simp_all
  show ?thesis
    using assms(3) h by (auto simp: corpus_bytes_def le_bytes_inject intro!: corpus_record.equality o)
qed

interpretation corp: record_chain uhash 32 corpus_bytes corpus_ok
  by unfold_locales (rule corpus_bytes_inject)

section \<open>The ring keeps the latest rows\<close>

definition ring_view :: "exp_ring \<Rightarrow> bytes list" where
  "ring_view r = map (\<lambda>i. er_rows r ! ((er_head r + i) mod length (er_rows r))) [0..<er_len r]"

definition exp_ring_wf :: "exp_ring \<Rightarrow> bool" where
  "exp_ring_wf r \<longleftrightarrow> er_len r \<le> length (er_rows r) \<and> er_head r < length (er_rows r)"

lemma ring_slot_neq: "i < (j :: nat) \<Longrightarrow> j < i + n \<Longrightarrow> (h + i) mod n \<noteq> (h + j) mod n"
proof
  assume a: "i < j" "j < i + n" "(h + i) mod n = (h + j) mod n"
  then have "n dvd (h + j) - (h + i)" using mod_eq_dvd_iff_nat[of "h + i" "h + j" n] by simp
  then have "n dvd j - i" by simp
  then show False using a(1,2) by (auto dest: dvd_imp_le)
qed

lemma exp_ring_push_view:
  assumes "exp_ring_wf r"
  shows "exp_ring_wf (fst (exp_ring_push r row))" "length (er_rows (fst (exp_ring_push r row))) = length (er_rows r)"
    "ring_view (fst (exp_ring_push r row)) = (if er_len r < length (er_rows r) then ring_view r else tl (ring_view r)) @ [row]"
proof -
  let ?n = "length (er_rows r)" and ?r = "fst (exp_ring_push r row)"
  have n: "0 < ?n" "er_len r \<le> ?n" "er_head r < ?n" using assms by (auto simp: exp_ring_wf_def)
  show "exp_ring_wf ?r" "length (er_rows ?r) = ?n"
    using n by (auto simp: exp_ring_push_def exp_ring_wf_def Let_def)
  show "ring_view ?r = (if er_len r < ?n then ring_view r else tl (ring_view r)) @ [row]"
  proof (cases "er_len r < ?n")
    case True
    have "(er_head r + er_len r) mod ?n \<noteq> (er_head r + i) mod ?n" if "i < er_len r" for i
      using ring_slot_neq[of i "er_len r" ?n "er_head r"] that True by simp
    then show ?thesis
      using True n by (auto simp: exp_ring_push_def ring_view_def Let_def)
  next
    case False
    then have l: "er_len r = ?n" using n(2) by simp
    have s: "((er_head r + 1) mod ?n + i) mod ?n = (er_head r + Suc i) mod ?n" for i
      by (simp add: mod_simps)
    have "er_head r \<noteq> (er_head r + Suc i) mod ?n" if "Suc i < ?n" for i
      using ring_slot_neq[of 0 "Suc i" ?n "er_head r"] that n(3) by simp
    then have old: "(er_rows r)[er_head r := row] ! ((er_head r + Suc i) mod ?n) = er_rows r ! ((er_head r + Suc i) mod ?n)" if "Suc i < ?n" for i
      using that by simp
    obtain m where m: "?n = Suc m" using n(1) by (cases ?n) auto
    have new: "(er_rows r)[er_head r := row] ! ((er_head r + Suc m) mod ?n) = row"
      unfolding m[symmetric] using n(3) by simp
    have push: "?r = r\<lparr>er_rows := (er_rows r)[er_head r := row], er_head := (er_head r + 1) mod ?n\<rparr>"
      using n(1) False by (simp add: exp_ring_push_def Let_def)
    have "ring_view ?r = map (\<lambda>i. (er_rows r)[er_head r := row] ! ((er_head r + Suc i) mod ?n)) [0..<Suc m]"
      unfolding push ring_view_def using l m s by simp
    also have "\<dots> = map (\<lambda>i. er_rows r ! ((er_head r + Suc i) mod ?n)) [0..<m] @ [row]"
      using old new m by simp
    also have "map (\<lambda>i. er_rows r ! ((er_head r + Suc i) mod ?n)) [0..<m] = tl (ring_view r)"
      unfolding ring_view_def l m by (simp add: upt_conv_Cons map_Suc_upt[symmetric] del: upt_Suc)
    finally show ?thesis using False by simp
  qed
qed

lemma exp_ring_get_view: "exp_ring_wf r \<Longrightarrow> exp_ring_get r i = (if i < length (ring_view r) then Some (ring_view r ! i) else None)"
  by (auto simp: exp_ring_get_def ring_view_def exp_ring_wf_def)

lemma ring_window:
  assumes "exp_ring_wf r" "ring_view r = drop (length past - length (er_rows r)) past"
  shows "ring_view (fst (exp_ring_push r row)) = drop (length (past @ [row]) - length (er_rows r)) (past @ [row])"
proof -
  have l: "length (ring_view r) = er_len r" by (simp add: ring_view_def)
  have "Suc 0 - length (er_rows r) = 0" using assms(1) by (auto simp: exp_ring_wf_def)
  then show ?thesis
    using l assms(2) unfolding exp_ring_push_view(3)[OF assms(1)]
    by (auto simp: tl_drop drop_Suc[symmetric] Suc_diff_le)
qed

section \<open>Properties of the logs\<close>

definition xp_run :: "exp_record list \<Rightarrow> xp_log" where
  "xp_run rs = fold (\<lambda>r l. fst (xp_record l r)) rs xp_log_new"

lemma xp_record_ok:
  assumes "exp_ok r" "length (xp_head l) = 32"
  shows "fst (xp_record l r) = l\<lparr>xp_head := mix uhash MIX_DOMAIN (xp_head l) (uhash (exp_bytes r)),
    xp_ring := fst (exp_ring_push (xp_ring l) (exp_bytes r)), xp_ids := xp_ids l @ [uhash (exp_bytes r)]\<rparr>"
  using assms exp_canon_writes[OF assms(1), of "replicate 49 0"]
  by (simp add: xp_record_def EXP_CANON_LEN_def Let_def prov_hash_def chain_mix_mix)

lemma xp_run_state:
  assumes "\<forall>r\<in>set rs. exp_ok r"
  shows "xp_ids (xp_run rs) = map (uhash \<circ> exp_bytes) rs \<and>
    xp_head (xp_run rs) = chain_head uhash MIX_DOMAIN genesis (map (uhash \<circ> exp_bytes) rs) \<and>
    exp_ring_wf (xp_ring (xp_run rs)) \<and> length (er_rows (xp_ring (xp_run rs))) = 64 \<and>
    ring_view (xp_ring (xp_run rs)) = drop (length rs - 64) (map exp_bytes rs)"
  using assms
proof (induction rs rule: rev_induct)
  case Nil
  then show ?case
    by (simp add: xp_run_def xp_log_new_def PROV_HASH_LEN_def exp_ring_new_def exp_ring_wf_def XP_CAP_def ring_view_def)
next
  case (snoc r rs)
  let ?l = "xp_run rs"
  have pre: "\<forall>r\<in>set rs. exp_ok r" using snoc.prems by simp
  have ih: "xp_ids ?l = map (uhash \<circ> exp_bytes) rs" "xp_head ?l = chain_head uhash MIX_DOMAIN genesis (map (uhash \<circ> exp_bytes) rs)"
    "exp_ring_wf (xp_ring ?l)" "length (er_rows (xp_ring ?l)) = 64" "ring_view (xp_ring ?l) = drop (length rs - 64) (map exp_bytes rs)"
    using snoc.IH[OF pre] by blast+
  have h: "length (xp_head ?l) = 32" unfolding ih(2) by (intro prov.head_width) simp
  have r: "exp_ok r" using snoc.prems by simp
  have e: "xp_run (rs @ [r]) = fst (xp_record ?l r)" by (simp add: xp_run_def)
  have w: "ring_view (fst (exp_ring_push (xp_ring ?l) (exp_bytes r))) = drop (Suc (length rs) - 64) (map exp_bytes (rs @ [r]))"
    using ring_window[OF ih(3), of "map exp_bytes rs" "exp_bytes r"] ih(4,5) by simp
  show ?case
    unfolding e xp_record_ok[OF r h] using ih w exp_ring_push_view(1,2)[OF ih(3)] by (simp add: chain_head_append comp_def)
qed

text \<open>
  C39: The experience log is exact. After any sequence of well-formed records the ring holds the last 64
  of them, in order and each decodable to itself; the identifiers are one per record; and two runs
  with the same head recorded the same sequence, unless the messages hashed contain a collision or
  a preimage of the genesis head.
\<close>

theorem experience_log_exact:
  assumes "\<forall>r\<in>set rs. exp_ok r" "\<forall>r\<in>set ss. exp_ok r"
  shows "exp_ring_get (xp_ring (xp_run rs)) i =
      (if i < min 64 (length rs) then Some (exp_bytes (drop (length rs - 64) rs ! i)) else None) \<and>
    (i < min 64 (length rs) \<longrightarrow> exp_decode (exp_bytes (drop (length rs - 64) rs ! i)) = Some (drop (length rs - 64) rs ! i)) \<and>
    length (xp_ids (xp_run rs)) = length rs \<and>
    (xp_head (xp_run rs) = xp_head (xp_run ss) \<longrightarrow> rs = ss \<or>
      broken_on uhash genesis (record_inputs uhash MIX_DOMAIN genesis exp_bytes rs \<union> record_inputs uhash MIX_DOMAIN genesis exp_bytes ss))"
proof -
  have a: "xp_ids (xp_run rs) = map (uhash \<circ> exp_bytes) rs" "xp_head (xp_run rs) = chain_head uhash MIX_DOMAIN genesis (map (uhash \<circ> exp_bytes) rs)"
    "exp_ring_wf (xp_ring (xp_run rs))" "length (er_rows (xp_ring (xp_run rs))) = 64" "ring_view (xp_ring (xp_run rs)) = drop (length rs - 64) (map exp_bytes rs)"
    using xp_run_state[OF assms(1)] by blast+
  have b: "xp_head (xp_run ss) = chain_head uhash MIX_DOMAIN genesis (map (uhash \<circ> exp_bytes) ss)"
    using xp_run_state[OF assms(2)] by blast
  have "exp_ring_get (xp_ring (xp_run rs)) i =
      (if i < min 64 (length rs) then Some (exp_bytes (drop (length rs - 64) rs ! i)) else None)"
    unfolding exp_ring_get_view[OF a(3)] a(5) by (auto simp: drop_map)
  moreover have "exp_decode (exp_bytes (drop (length rs - 64) rs ! i)) = Some (drop (length rs - 64) rs ! i)" if "i < min 64 (length rs)"
  proof -
    have "drop (length rs - 64) rs ! i \<in> set (drop (length rs - 64) rs)" using that by (intro nth_mem) auto
    then have "drop (length rs - 64) rs ! i \<in> set rs" by (rule in_set_dropD)
    then have "exp_ok (drop (length rs - 64) rs ! i)" using assms(1) by blast
    from exp_decode_bytes[OF this, of "[]"] show ?thesis by (simp only: append_Nil2)
  qed
  moreover have "rs = ss" if "xp_head (xp_run rs) = xp_head (xp_run ss)"
    "\<not> broken_on uhash genesis (record_inputs uhash MIX_DOMAIN genesis exp_bytes rs \<union> record_inputs uhash MIX_DOMAIN genesis exp_bytes ss)"
    by (rule xp.records_inject[OF _ assms _ that(2)]) (use that(1) a(2) b in \<open>simp_all only: length_replicate\<close>)
  ultimately show ?thesis using a(1) by auto
qed

text \<open>Decoding forgets the payload of an unset outcome, so an accepted row need not be canonical.\<close>

lemma unset_payload_forgotten:
  "\<exists>bs r. length bs = 49 \<and> exp_decode bs = Some r \<and> exp_bytes r \<noteq> bs"
proof -
  let ?bs = "(replicate 49 (0 :: u8))[39 := 1]"
  have "exp_decode ?bs \<noteq> None" by (simp add: exp_decode_def EXP_CANON_LEN_def exp_from_parts_def)
  then obtain r where r: "exp_decode ?bs = Some r" by blast
  have "xr_outcome r = XUnset" "exp_ok r"
    using r by (auto simp: exp_decode_def EXP_CANON_LEN_def exp_from_parts_def exp_ok_def KAN_FEATURES_def)
  then have "exp_bytes r ! 39 = 0"
    by (auto simp: exp_bytes_def exp_ok_def nth_append nth_le_bytes dest!: four_feats)
  then have "exp_bytes r \<noteq> ?bs" by auto
  then show ?thesis using r by (intro exI[of _ ?bs] exI[of _ r]) simp
qed

definition demo_touch :: exp_record where
  "demo_touch = \<lparr>xr_decision_id = 7, xr_kind = RECALL_TOUCH, xr_feats = [3, 1, 0, 0], xr_envelope_verdict = 2, xr_action_taken = 2,
     xr_kan_score_shadow = 3900, xr_logging_propensity_q = PROPENSITY_DETERMINISTIC_Q, xr_logging_policy_kind = DETERMINISTIC,
     xr_outcome = XUnset, xr_margin_q = 0\<rparr>"

theorem experience_log_exact_witness:
  "exp_ring_get (xp_ring (xp_run [demo_touch, demo_touch])) 1 = Some (exp_bytes demo_touch) \<and> exp_decode (exp_bytes demo_touch) = Some demo_touch \<and>
    length (xp_ids (xp_run [demo_touch, demo_touch])) = 2"
  using experience_log_exact[of "[demo_touch, demo_touch]" "[]" 1] by (simp add: exp_ok_def demo_touch_def)

text \<open>Curated events, each with the clock and the ledger head it is stamped with.\<close>

datatype corpus_event =
    Consolidated u64 bytes u64 u64 u8 u8
  | Operator_Turn u64 bytes u64 u64 u8
  | Labeled u64 bytes u64 corpus_outcome

fun corpus_emit :: "corpus_event \<Rightarrow> corpus_log \<Rightarrow> corpus_log" where
  "corpus_emit (Consolidated clk h tok aux stream sal) l = corpus_emit_consolidation clk h l tok aux stream sal"
| "corpus_emit (Operator_Turn clk h tok aux verdict) l = corpus_emit_operator_turn clk h l tok aux verdict"
| "corpus_emit (Labeled clk h did outcome) l = corpus_emit_labeled_outcome clk h l did outcome"

fun event_record :: "corpus_event \<Rightarrow> corpus_record" where
  "event_record (Consolidated clk h tok aux stream sal) = \<lparr>cr_schema_version = 1, cr_example_kind = 1, cr_source_stream = stream,
     cr_curation_verdict = (if tok \<noteq> 0 \<and> sal \<ge> 2 then 1 else 0), cr_content_tok = tok, cr_aux_tok = aux, cr_t_created = clk,
     cr_source_head = h, cr_outcome = CUnset, cr_curation_score_q = 0\<rparr>"
| "event_record (Operator_Turn clk h tok aux verdict) = \<lparr>cr_schema_version = 1, cr_example_kind = 2, cr_source_stream = 3,
     cr_curation_verdict = verdict, cr_content_tok = tok, cr_aux_tok = aux, cr_t_created = clk,
     cr_source_head = h, cr_outcome = CUnset, cr_curation_score_q = 0\<rparr>"
| "event_record (Labeled clk h did outcome) = \<lparr>cr_schema_version = 1, cr_example_kind = 3, cr_source_stream = 1,
     cr_curation_verdict = 1, cr_content_tok = did, cr_aux_tok = 0, cr_t_created = clk,
     cr_source_head = h, cr_outcome = outcome, cr_curation_score_q = 0\<rparr>"

fun event_head :: "corpus_event \<Rightarrow> bytes" where
  "event_head (Consolidated clk h tok aux stream sal) = h"
| "event_head (Operator_Turn clk h tok aux verdict) = h"
| "event_head (Labeled clk h did outcome) = h"

definition event_accepted :: "corpus_event \<Rightarrow> bool" where
  "event_accepted e \<longleftrightarrow> cr_curation_verdict (event_record e) = 1"

definition corpus_run :: "corpus_event list \<Rightarrow> corpus_log" where
  "corpus_run es = fold corpus_emit es corpus_log_new"

lemma corpus_emit_fold: "corpus_emit e l = corpus_fold l (event_record e)"
  by (cases e) (simp_all add: corpus_emit_consolidation_def corpus_emit_operator_turn_def corpus_emit_labeled_outcome_def corpus_curate_def
      CORPUS_SCHEMA_V1_def EPISODIC_CONSOLIDATION_def OPERATOR_TURN_def LABELED_OUTCOME_def M25_OPERATOR_def M13_MEM_def ACCEPTED_def
      REJECTED_def CORPUS_CURATION_MIN_SALIENCE_def)

lemma event_record_ok: "length (event_head e) = 32 \<Longrightarrow> corpus_ok (event_record e)"
  by (cases e) (simp_all add: corpus_ok_def)

lemma corpus_fold_ok:
  assumes "corpus_ok r" "length (corpus_head l) = 32"
  shows "corpus_head (corpus_fold l r) = mix uhash MIX_DOMAIN (corpus_head l) (uhash (corpus_bytes r))"
    "corpus_records (corpus_fold l r) = corpus_records l @ [corpus_bytes r]"
    "corpus_ids (corpus_fold l r) = corpus_ids l @ [uhash (corpus_bytes r)]"
    "corpus_accepted (corpus_fold l r) = (if cr_curation_verdict r = 1 then saturating_add (corpus_accepted l) 1 else corpus_accepted l)"
    "corpus_rejected (corpus_fold l r) = (if cr_curation_verdict r = 1 then corpus_rejected l else saturating_add (corpus_rejected l) 1)"
  using assms corpus_canon_writes[OF assms(1), of "replicate 71 0"] length_corpus_bytes[OF assms(1)]
  by (simp_all add: corpus_fold_def corpus_append_def CORPUS_CANON_LEN_def PROV_HASH_LEN_def Let_def prov_hash_def chain_mix_mix ACCEPTED_def)

lemma corpus_run_state:
  assumes "\<forall>e\<in>set es. length (event_head e) = 32" "length es < 2 ^ 64"
  shows "corpus_records (corpus_run es) = map (\<lambda>e. corpus_bytes (event_record e)) es \<and>
    corpus_head (corpus_run es) = chain_head uhash MIX_DOMAIN genesis (map (uhash \<circ> corpus_bytes) (map event_record es)) \<and>
    unat (corpus_accepted (corpus_run es)) = length (filter event_accepted es) \<and>
    unat (corpus_rejected (corpus_run es)) = length (filter (\<lambda>e. \<not> event_accepted e) es)"
  using assms
proof (induction es rule: rev_induct)
  case Nil
  then show ?case by (simp add: corpus_run_def corpus_log_new_def PROV_HASH_LEN_def)
next
  case (snoc e es)
  let ?l = "corpus_run es"
  have pre: "\<forall>e\<in>set es. length (event_head e) = 32" "length es < 2 ^ 64" using snoc.prems by simp_all
  have ih: "corpus_records ?l = map (\<lambda>e. corpus_bytes (event_record e)) es"
    "corpus_head ?l = chain_head uhash MIX_DOMAIN genesis (map (uhash \<circ> corpus_bytes) (map event_record es))"
    "unat (corpus_accepted ?l) = length (filter event_accepted es)" "unat (corpus_rejected ?l) = length (filter (\<lambda>e. \<not> event_accepted e) es)"
    using snoc.IH[OF pre] by blast+
  have h: "length (corpus_head ?l) = 32" unfolding ih(2) by (intro prov.head_width) simp
  have ok: "corpus_ok (event_record e)" using snoc.prems event_record_ok by simp
  have run: "corpus_run (es @ [e]) = corpus_fold ?l (event_record e)" by (simp add: corpus_run_def corpus_emit_fold)
  have "length (filter event_accepted es) + 1 < 2 ^ 64" "length (filter (\<lambda>e. \<not> event_accepted e) es) + 1 < 2 ^ 64"
    using snoc.prems(2) length_filter_le[of event_accepted es] length_filter_le[of "\<lambda>e. \<not> event_accepted e" es]
    unfolding length_append by (simp_all only: list.size)
  then have "unat (saturating_add (corpus_accepted ?l) 1) = length (filter event_accepted es) + 1"
    "unat (saturating_add (corpus_rejected ?l) 1) = length (filter (\<lambda>e. \<not> event_accepted e) es) + 1"
    unfolding unat_saturating_add ih(3,4) by simp_all
  then show ?case
    unfolding run corpus_fold_ok[OF ok h] using ih by (simp add: chain_head_append comp_def event_accepted_def[symmetric])
qed

text \<open>
  C40: The corpus is a faithful record of what was curated. After any sequence of consolidation, operator
  and outcome events the retained rows are the events in order, none dropped whatever its verdict;
  the two counters are the numbers of accepted and rejected events; a row within the vocabulary decodes to
  its event; and two corpora with the same head hold the same rows, unless the messages hashed
  contain a collision or a preimage of the genesis head.
\<close>

theorem corpus_log_exact:
  assumes "\<forall>e\<in>set es. length (event_head e) = 32" "length es < 2 ^ 64"
    and "\<forall>e\<in>set fs. length (event_head e) = 32" "length fs < 2 ^ 64"
  shows "corpus_records (corpus_run es) = map (\<lambda>e. corpus_bytes (event_record e)) es \<and>
    unat (corpus_accepted (corpus_run es)) = length (filter event_accepted es) \<and>
    unat (corpus_rejected (corpus_run es)) = length (filter (\<lambda>e. \<not> event_accepted e) es) \<and>
    (\<forall>e\<in>set es. corpus_decode (corpus_bytes (event_record e)) = (if corpus_valid (event_record e) then Some (event_record e) else None)) \<and>
    (corpus_head (corpus_run es) = corpus_head (corpus_run fs) \<longrightarrow> map event_record es = map event_record fs \<or>
      broken_on uhash genesis (record_inputs uhash MIX_DOMAIN genesis corpus_bytes (map event_record es) \<union>
        record_inputs uhash MIX_DOMAIN genesis corpus_bytes (map event_record fs)))"
proof -
  have heads: "corpus_head (corpus_run es) = chain_head uhash MIX_DOMAIN genesis (map (uhash \<circ> corpus_bytes) (map event_record es))"
    "corpus_head (corpus_run fs) = chain_head uhash MIX_DOMAIN genesis (map (uhash \<circ> corpus_bytes) (map event_record fs))"
    using corpus_run_state[OF assms(1,2)] corpus_run_state[OF assms(3,4)] by blast+
  have ok: "\<forall>r\<in>set (map event_record es). corpus_ok r" "\<forall>r\<in>set (map event_record fs). corpus_ok r"
    using assms(1,3) event_record_ok by auto
  have "map event_record es = map event_record fs" if "corpus_head (corpus_run es) = corpus_head (corpus_run fs)"
    "\<not> broken_on uhash genesis (record_inputs uhash MIX_DOMAIN genesis corpus_bytes (map event_record es) \<union>
        record_inputs uhash MIX_DOMAIN genesis corpus_bytes (map event_record fs))"
    by (rule corp.records_inject[OF _ ok _ that(2)]) (use that(1) heads in \<open>simp_all only: length_replicate\<close>)
  moreover have "corpus_decode (corpus_bytes (event_record e)) = (if corpus_valid (event_record e) then Some (event_record e) else None)"
    if "e \<in> set es" for e
    using corpus_decode_bytes[OF event_record_ok, of e "[]"] assms(1) that by (simp only: append_Nil2)
  ultimately show ?thesis
    using corpus_run_state[OF assms(1,2)] by blast
qed

theorem corpus_log_exact_witness:
  "unat (corpus_accepted (corpus_run [Consolidated 4 genesis 9 0 1 5, Consolidated 5 genesis 0 0 1 5])) = 1 \<and>
    unat (corpus_rejected (corpus_run [Consolidated 4 genesis 9 0 1 5, Consolidated 5 genesis 0 0 1 5])) = 1"
  using corpus_log_exact[of "[Consolidated 4 genesis 9 0 1 5, Consolidated 5 genesis 0 0 1 5]" "[]"] by (simp add: event_accepted_def)

end
