(* ===== verification/Spec2Isabelle.thy ===== *)
theory Spec2Isabelle
  imports Abi_Registry Route Pmm Ipc_Frame Prov Opframe Opframe_Rx Infer_Host Persist_Selftest Lmsig_Forgery M33_Props
    Guest_Confinement Sched_Props El2_Wf Memscore Exp_Log
begin

text \<open>
  A verification development of Yuva, a capability kernel written in Rust. Paths below are under
  \<^verbatim>\<open>src/\<close>; \<^verbatim>\<open>tb-hal\<close>, \<^verbatim>\<open>tb-encode\<close>, \<^verbatim>\<open>tb-caps-core\<close>, \<^verbatim>\<open>tb-boot\<close> and \<^verbatim>\<open>brand\<close> are crates
  under \<^verbatim>\<open>src/crates/\<close>.

  \<^bold>\<open>The program.\<close> A boot loader or the host VMM writes a boot block; the kernel reads it, seeds its
  frame allocator and runs agents. An agent reaches kernel objects only by handles into its own
  capability table, through one numbered system call; agents exchange messages and capabilities
  over channels and share memory blocks. What agents do is folded into a hash-chained
  provenance ledger, whose head is signed and persisted on a block device together with the
  agents' memory log. The kernel talks to an operator (transcript out, authenticated commands in)
  and to an inference peer in the host. On aarch64 a small monitor stays resident at EL2; it
  confines guests behind a second translation stage, among them a copy of the whole kernel, and
  schedules two guests by a timer.

  \<^bold>\<open>How the code is rendered.\<close> Machine integers are words of their width (\<open>usize\<close> is \<open>nat\<close> where it
  only counts or indexes); arithmetic wraps as in the release build, and saturating and checked
  operations are written out. Structs are records, enums datatypes, \<open>Result\<close> a sum with the error on the
  left, \<open>Option\<close> an option, a \<open>&mut\<close> argument or a static cell explicit state. Loops are structural
  recursion or \<open>function\<close>s with a measure; the one loop of the program that can fail to end, the seeding
  loop at the top of the address space, is a \<open>partial_function\<close> into \<open>option\<close>, and seeding is proved
  to return. There is no fuel. Theory \<open>Prelude\<close> holds the integer and buffer vocabulary and the
  codec contract; one theory (or two, \<open>_Props\<close>) follows per component.

  \<^bold>\<open>Authority.\<close> \<open>Rights\<close> (\<^verbatim>\<open>tb-caps-core/src/rights.rs\<close>), \<open>Cap_Table\<close> (\<^verbatim>\<open>table.rs\<close>: slots with
  generations, a free list), \<open>Ipc_Channel\<close> (\<^verbatim>\<open>tb-hal/src/ipc.rs\<close>), \<open>Shared_Block\<close> (\<^verbatim>\<open>blocks.rs\<close>) and
  \<open>Dispatch\<close> (\<^verbatim>\<open>caps.rs\<close>: every method of the dispatcher and the byte send and receive paths).
  \<open>Authority\<close> states what a client may assume of a table as the locales \<open>cap_store\<close> and
  \<open>revoking_store\<close>, interpreted on the table. Results: no handle ever carries more rights than its
  object was minted with, over all interleavings of all operations (\<open>Authority_Flow\<close>); no system call
  has an effect or succeeds without the required right; refused sends and failed receives lose
  nothing, with the one exception the findings name; a revoked handle stays dead; versioned
  writes are compare-and-swap (\<open>Dispatch_Props\<close>). \<open>Abi_Registry\<close> (\<^verbatim>\<open>tb-encode/src/abi.rs\<close>) checks the
  frozen tables against the dispatcher, \<open>Route\<close> (\<^verbatim>\<open>route.rs\<close>, \<^verbatim>\<open>infer.rs\<close>) models name routing.

  \<^bold>\<open>Memory and boot.\<close> \<open>Tb_Boot\<close> (\<^verbatim>\<open>tb-boot\<close>: the boot block and its aarch64 producer), \<open>Boot_Map\<close>
  (\<^verbatim>\<open>arch/aarch64/pmm.rs\<close>: the readers), \<open>Pmm\<close> (\<^verbatim>\<open>pmm.rs\<close>: the free list threaded through an explicit
  memory), \<open>Paging\<close> (\<^verbatim>\<open>paging.rs\<close>, \<^verbatim>\<open>vmx.rs\<close>, \<^verbatim>\<open>stage2.rs\<close> of \<^verbatim>\<open>tb-encode\<close>) and \<open>Stage2\<close>
  (\<^verbatim>\<open>arch/aarch64/stage2.rs\<close>: table builders over allocator and memory, and a reference walker).
  Results: a produced boot block is read back region for region; frames are handed out at most
  once, never reserved, until all are out; the guest's walk is exactly its window and the demand
  map adds exactly one page.

  \<^bold>\<open>Ledger, signatures, storage.\<close> \<open>Khash\<close> and \<open>Sha256\<close> are proved to compute RFC 7693 and FIPS 180-4.
  \<open>Hash_Chain\<close> is the theory of chains over any hash of fixed width (locales \<open>hash_chain\<close>,
  \<open>record_chain\<close>, \<open>codec_chain\<close>): equal heads mean equal histories, unless the hash is broken on
  the messages that were hashed. It is used for \<open>Prov\<close> (\<^verbatim>\<open>prov.rs\<close>), the operator transcript \<open>Opframe\<close>
  (\<^verbatim>\<open>opframe.rs\<close>) and the scheduler's log. \<open>Lmsig\<close> models the LMS verifier and signer (\<^verbatim>\<open>lmsig.rs\<close>);
  \<open>Lmsig_Props\<close> and \<open>Lmsig_Forgery\<close> show that what is signed verifies, and what a forgery breaks.
  \<open>Blkfmt\<close> (\<^verbatim>\<open>blkfmt.rs\<close>), \<open>Blk_Store\<close> (\<^verbatim>\<open>mem/engine.rs\<close>) and \<open>Blk_Crash\<close>: the store refines an append-only
  stream (locale \<open>backing_store\<close>, interpreted on the RAM and the disk store) and recovers a commit
  point after any power cut on any device that meets the locale \<open>block_device\<close>; a write-back
  cache with failing requests interprets it. \<open>Persist_Selftest\<close>, \<open>Provhead\<close>, \<open>M33_Persist\<close> and
  \<open>M33_Props\<close> carry this to the boot self-test and the persisted signed head over any number of boots.

  \<^bold>\<open>Wire protocols.\<close> Every codec of the program interprets \<open>codec\<close> of \<open>Prelude\<close>: it reads back what it
  wrote and accepts nothing else. \<open>Ipc_Frame\<close> (frame and ring, the latter a \<open>bounded_queue\<close>), \<open>Opframe_Rx\<close>
  (command verification is exact), \<open>Inferwire\<close>, \<open>Frame_Accum\<close>, \<open>Infer_Chunks\<close> (\<^verbatim>\<open>inferwire.rs\<close>) and
  \<open>Infer_Host\<close> (\<^verbatim>\<open>tb-vmm/src/infer_host.rs\<close> and the kernel's half in \<^verbatim>\<open>selftests.rs\<close>): re-framing of any
  byte stream, exact reassembly, and the exchange from request to answer across both sides.

  \<^bold>\<open>The monitor.\<close> \<open>El2_Trap\<close> (\<^verbatim>\<open>el2_trap.rs\<close>: syndrome decoders), \<open>Guestlog\<close> (\<^verbatim>\<open>guestlog.rs\<close> and the line
  emitter), \<open>Tpsched\<close> (\<^verbatim>\<open>tpsched.rs\<close> and the cells of \<^verbatim>\<open>tpsched_hal.rs\<close>), \<open>El2_State\<close> (the monitor's state;
  \<^verbatim>\<open>stage2.rs\<close>, \<^verbatim>\<open>exits.rs\<close>, \<^verbatim>\<open>el2mmio.rs\<close>, \<^verbatim>\<open>el2vgic.rs\<close>, \<^verbatim>\<open>tpsched_hal.rs\<close> windows), \<open>Kernel_Guest\<close>
  (\<^verbatim>\<open>el2/l24b_guest.rs\<close>) and \<open>El2_Monitor\<close> (\<^verbatim>\<open>el2/mod.rs\<close>: the synchronous, timer and fault handlers,
  one definition per hypercall arm). A handler takes the trap's registers, the saved frame and the
  state, and returns the state and how EL2 is left. \<open>El2_Wf\<close>: every handler keeps the cells well
  formed, so no index is out of range. \<open>Guest_Confinement\<close>: a relation of guest runs (stores through the
  walker, register writes, aborts, parks, the completion call) with the invariant that memory
  outside the carve is untouched and that leaving restores the host; and what exits outside
  that vocabulary do. \<open>Sched_Props\<close>: the two scheduled guests alternate and the verdict is right.

  \<^bold>\<open>Ranking.\<close> \<open>Signed_Int\<close> and \<open>Memscore\<close> (\<^verbatim>\<open>memscore.rs\<close>, \<^verbatim>\<open>recall.rs\<close>): the fixed-point arithmetic that
  ranks memory records is monotone in the evidence, bounded and free of panics in its envelope.
  \<open>Kancell\<close> (\<^verbatim>\<open>kancell.rs\<close>, \<^verbatim>\<open>explore.rs\<close>): a table that passes the validator scores monotonically,
  inside the band, and the shipped table passes. \<open>Exp_Log\<close> (\<^verbatim>\<open>exp.rs\<close>, \<^verbatim>\<open>corpus.rs\<close>, and the log steps of
  \<^verbatim>\<open>mem/organ.rs\<close>): the experience ring and the corpus hold exactly what was recorded, under hash chains of
  their own.

  \<^bold>\<open>Parameters.\<close> The block device, the host's clock and interrupt status, link-time addresses, and the
  memory substrate behind the dispatcher are arguments of the definitions that use them.

  \<^bold>\<open>Not modelled.\<close> Assembly, barriers and TLB maintenance (a walk reads the current tables), device
  registers other than the ones named in the monitor's state, the x86-64 backend, virtio rings, cache
  effects and concurrency (the kernel is single-core); the printing of marker lines and the boot
  sequence that calls the self-tests; the tiers of the memory organ and the records
  of evaluations; the host VMM apart from its inference peer, and the tools.
\<close>

end
